(* ===== verification/Prelude.thy ===== *)
theory Prelude
  imports Complex_Main "HOL-Library.Product_Lexorder"
begin

text \<open>
  Shared vocabulary of the development: results of fallible code, Python's dictionaries,
  list primitives (\<open>list.insert\<close>, \<open>list.pop\<close>, \<open>next(...)\<close>), \<open>round\<close> and decimal numerals,
  with the lemmas and hint collections the component theories use.
\<close>

named_theorems result_simps \<open>evaluation and inversion of fallible results\<close>
named_theorems listop_simps \<open>list primitives with positions\<close>
named_theorems dict_simps \<open>insertion-ordered dictionaries\<close>

section \<open>Fallible results\<close>

text \<open>A statement that may raise is a value of a sum type, \<open>Inl\<close> for the exception.\<close>

definition ebind :: "'e + 'a \<Rightarrow> ('a \<Rightarrow> 'e + 'b) \<Rightarrow> 'e + 'b" where
  "ebind m f = (case m of Inl e \<Rightarrow> Inl e | Inr a \<Rightarrow> f a)"

definition ensure :: "bool \<Rightarrow> 'e \<Rightarrow> 'e + unit" where
  "ensure c e = (if c then Inr () else Inl e)"

definition returns :: "'e + 'a \<Rightarrow> bool" where
  "returns m = (case m of Inl _ \<Rightarrow> False | Inr _ \<Rightarrow> True)"

lemma ebind_Inl [simp]: "ebind (Inl e) f = Inl e"
  by (simp add: ebind_def)

lemma ebind_Inr [simp]: "ebind (Inr a) f = f a"
  by (simp add: ebind_def)

lemma ebind_eq_Inr [result_simps]: "ebind m f = Inr b \<longleftrightarrow> (\<exists>a. m = Inr a \<and> f a = Inr b)"
  by (cases m) auto

lemma ebind_eq_Inl [result_simps]:
  "ebind m f = Inl e \<longleftrightarrow> m = Inl e \<or> (\<exists>a. m = Inr a \<and> f a = Inl e)"
  by (cases m) auto

lemma ensure_eq_Inr [result_simps]: "ensure c e = Inr u \<longleftrightarrow> c"
  by (simp add: ensure_def)

lemma ensure_eq_Inl [result_simps]: "ensure c e = Inl e' \<longleftrightarrow> \<not> c \<and> e' = e"
  by (auto simp: ensure_def)

lemma ensure_True [simp]: "ensure True e = Inr ()"
  by (simp add: ensure_def)

lemma ensure_False [simp]: "ensure False e = Inl e"
  by (simp add: ensure_def)

lemma ebindE:
  assumes "ebind m f = Inr b"
  obtains a where "m = Inr a" "f a = Inr b"
  using assms by (auto simp: result_simps)

lemma returns_Inr [simp]: "returns (Inr a)"
  by (simp add: returns_def)

lemma returns_Inl [simp]: "\<not> returns (Inl e)"
  by (simp add: returns_def)

lemma returns_iff: "returns m \<longleftrightarrow> (\<exists>a. m = Inr a)"
  by (cases m) auto

section \<open>Lists with positions\<close>

text \<open>\<open>next((p for p, x in enumerate(xs) if P(x)), None)\<close>\<close>

fun find_index :: "('a \<Rightarrow> bool) \<Rightarrow> 'a list \<Rightarrow> nat option" where
  "find_index P [] = None"
| "find_index P (x # xs) = (if P x then Some 0 else map_option Suc (find_index P xs))"

definition insert_at :: "nat \<Rightarrow> 'a \<Rightarrow> 'a list \<Rightarrow> 'a list" where
  "insert_at n x xs = take n xs @ x # drop n xs"

definition remove_at :: "nat \<Rightarrow> 'a list \<Rightarrow> 'a list" where
  "remove_at n xs = take n xs @ drop (Suc n) xs"

text \<open>\<open>itertools.pairwise\<close> and \<open>dict.fromkeys\<close> (first occurrences, in order)\<close>

fun pairwise :: "'a list \<Rightarrow> ('a \<times> 'a) list" where
  "pairwise (x # y # zs) = (x, y) # pairwise (y # zs)"
| "pairwise xs = []"

fun dedup_first :: "'a list \<Rightarrow> 'a list" where
  "dedup_first [] = []"
| "dedup_first (x # xs) = x # filter (\<lambda>y. y \<noteq> x) (dedup_first xs)"

lemma find_index_None [listop_simps]: "find_index P xs = None \<longleftrightarrow> (\<forall>x \<in> set xs. \<not> P x)"
  by (induction xs) auto

lemma find_index_SomeD:
  assumes "find_index P xs = Some p"
  shows "p < length xs" "P (xs ! p)" "\<And>q. q < p \<Longrightarrow> \<not> P (xs ! q)"
  using assms
proof (induction xs arbitrary: p)
  case (Cons x xs)
  {
    case 1
    then show ?case using Cons.IH(1) by (auto split: if_splits)
  next
    case 2
    then show ?case using Cons.IH(2) by (auto split: if_splits)
  next
    case (3 q)
    then show ?case using Cons.IH(3) by (cases q) (auto split: if_splits)
  }
qed auto

lemma find_index_distinct:
  "distinct (map f xs) \<Longrightarrow> p < length xs \<Longrightarrow> find_index (\<lambda>x. f x = f (xs ! p)) xs = Some p"
proof (induction xs arbitrary: p)
  case (Cons x xs)
  then show ?case by (cases p) (auto simp: image_iff)
qed simp

lemma length_insert_at [simp]: "n \<le> length xs \<Longrightarrow> length (insert_at n x xs) = Suc (length xs)"
  by (simp add: insert_at_def)

lemma set_insert_at [simp]: "set (insert_at n x xs) = insert x (set xs)"
proof -
  have "set xs = set (take n xs) \<union> set (drop n xs)"
    by (metis append_take_drop_id set_append)
  then show ?thesis by (auto simp: insert_at_def)
qed

lemma map_insert_at: "map f (insert_at n x xs) = insert_at n (f x) (map f xs)"
  by (simp add: insert_at_def take_map drop_map)

lemma distinct_insert_at [simp]: "distinct (insert_at n x xs) \<longleftrightarrow> x \<notin> set xs \<and> distinct xs"
proof -
  have "distinct (ys @ x # zs) \<longleftrightarrow> x \<notin> set (ys @ zs) \<and> distinct (ys @ zs)" for ys zs
    by auto
  from this [of "take n xs" "drop n xs"] show ?thesis
    unfolding insert_at_def append_take_drop_id .
qed

lemma length_remove_at [simp]: "n < length xs \<Longrightarrow> length (remove_at n xs) = length xs - 1"
  by (simp add: remove_at_def)

lemma remove_at_decomp: "n < length xs \<Longrightarrow> xs = insert_at n (xs ! n) (remove_at n xs)"
  by (simp add: insert_at_def remove_at_def id_take_nth_drop min_def)

lemma map_remove_at: "map f (remove_at n xs) = remove_at n (map f xs)"
  by (simp add: remove_at_def take_map drop_map)

lemma set_remove_at_subset: "set (remove_at n xs) \<subseteq> set xs"
  by (auto simp: remove_at_def dest: in_set_takeD in_set_dropD)

lemma distinct_remove_at: "distinct xs \<Longrightarrow> distinct (remove_at n xs)"
proof (cases "n < length xs")
  case True
  assume "distinct xs"
  then show ?thesis
    using remove_at_decomp [OF True] by (metis distinct_insert_at)
qed (simp add: remove_at_def)

lemma set_remove_at_distinct:
  assumes "distinct xs" "n < length xs"
  shows "set (remove_at n xs) = set xs - {xs ! n}"
proof -
  have eq: "xs = insert_at n (xs ! n) (remove_at n xs)"
    by (rule remove_at_decomp [OF assms(2)])
  then have "xs ! n \<notin> set (remove_at n xs)"
    using assms(1) by (metis distinct_insert_at)
  moreover have "set xs = insert (xs ! n) (set (remove_at n xs))"
    using eq by (metis set_insert_at)
  ultimately show ?thesis by auto
qed

lemma pairwise_nth: "(x, y) \<in> set (pairwise xs) \<longleftrightarrow> (\<exists>i. Suc i < length xs \<and> xs ! i = x \<and> xs ! Suc i = y)"
proof (induction xs rule: pairwise.induct)
  case (1 a b zs)
  show ?case
  proof
    assume "(x, y) \<in> set (pairwise (a # b # zs))"
    then consider "x = a" "y = b" | "(x, y) \<in> set (pairwise (b # zs))" by auto
    then show "\<exists>i. Suc i < length (a # b # zs) \<and> (a # b # zs) ! i = x \<and> (a # b # zs) ! Suc i = y"
    proof cases
      case 1 then show ?thesis by (intro exI [of _ 0]) auto
    next
      case 2
      then obtain i where "Suc i < length (b # zs)" "(b # zs) ! i = x" "(b # zs) ! Suc i = y"
        using "1.IH" by blast
      then show ?thesis by (intro exI [of _ "Suc i"]) auto
    qed
  next
    assume "\<exists>i. Suc i < length (a # b # zs) \<and> (a # b # zs) ! i = x \<and> (a # b # zs) ! Suc i = y"
    then obtain i where i: "Suc i < length (a # b # zs)" "(a # b # zs) ! i = x" "(a # b # zs) ! Suc i = y"
      by blast
    then show "(x, y) \<in> set (pairwise (a # b # zs))"
      using "1.IH" by (cases i) auto
  qed
qed auto

lemma set_dedup_first [simp]: "set (dedup_first xs) = set xs"
  by (induction xs) auto

lemma distinct_dedup_first [simp]: "distinct (dedup_first xs)"
  by (induction xs) auto

lemma dedup_first_id: "distinct xs \<Longrightarrow> dedup_first xs = xs"
  by (induction xs) (auto simp: filter_id_conv)

lemma filter_narrow:
  assumes "filter (\<lambda>c. f c \<notin> A) xs = filter (\<lambda>c. f c \<notin> A) ys" "A \<subseteq> B"
  shows "filter (\<lambda>c. f c \<notin> B) xs = filter (\<lambda>c. f c \<notin> B) ys"
proof -
  have "filter (\<lambda>c. f c \<notin> B) zs = filter (\<lambda>c. f c \<notin> B) (filter (\<lambda>c. f c \<notin> A) zs)" for zs
    using assms(2) by (auto intro!: filter_cong)
  then show ?thesis using assms(1) by metis
qed

section \<open>Insertion-ordered dictionaries\<close>

text \<open>A Python \<open>dict\<close> is an association list in insertion order; \<open>map_of\<close> is \<open>get\<close>.\<close>

fun dict_set :: "'k \<Rightarrow> 'v \<Rightarrow> ('k \<times> 'v) list \<Rightarrow> ('k \<times> 'v) list" where
  "dict_set k v [] = [(k, v)]"
| "dict_set k v ((k', v') # d) = (if k' = k then (k, v) # d else (k', v') # dict_set k v d)"

definition dict_pop :: "'k \<Rightarrow> ('k \<times> 'v) list \<Rightarrow> ('k \<times> 'v) list" where
  "dict_pop k d = filter (\<lambda>(k', _). k' \<noteq> k) d"

definition dict_keys :: "('k \<times> 'v) list \<Rightarrow> 'k set" where
  "dict_keys d = fst ` set d"

lemma map_of_dict_set [dict_simps]: "map_of (dict_set k v d) = (map_of d)(k \<mapsto> v)"
  by (induction k v d rule: dict_set.induct) (auto simp: fun_upd_twist)

lemma dict_keys_set [dict_simps]: "dict_keys (dict_set k v d) = insert k (dict_keys d)"
  by (induction k v d rule: dict_set.induct) (auto simp: dict_keys_def)

lemma dict_keys_Nil [dict_simps]: "dict_keys [] = {}"
  by (simp add: dict_keys_def)

lemma dict_keys_Cons [dict_simps]: "dict_keys ((k, v) # d) = insert k (dict_keys d)"
  by (simp add: dict_keys_def)

lemma map_of_dict_pop [dict_simps]: "map_of (dict_pop k d) = (map_of d)(k := None)"
  unfolding dict_pop_def by (induction d) (auto simp: fun_eq_iff)

lemma dict_keys_iff: "k \<in> dict_keys d \<longleftrightarrow> map_of d k \<noteq> None"
  by (simp add: dict_keys_def map_of_eq_None_iff)

lemma distinct_dict_set: "distinct (map fst d) \<Longrightarrow> distinct (map fst (dict_set k v d))"
proof (induction k v d rule: dict_set.induct)
  case (2 k v k' v' d)
  have "set (map fst (dict_set k v d)) = insert k (set (map fst d))"
    using dict_keys_set [of k v d] by (simp add: dict_keys_def)
  then show ?case using 2 by auto
qed simp

lemma set_dict_set:
  "distinct (map fst d) \<Longrightarrow> set (dict_set k v d) = insert (k, v) {e \<in> set d. fst e \<noteq> k}"
proof (induction k v d rule: dict_set.induct)
  case (2 k v k' v' d)
  then have notin: "\<And>u. (k', u) \<notin> set d" by force
  show ?case
  proof (cases "k' = k")
    case True
    then show ?thesis using notin by (auto simp: True)
  next
    case False
    then show ?thesis using 2 by auto
  qed
qed auto

lemma set_dict_pop: "set (dict_pop k d) = {e \<in> set d. fst e \<noteq> k}"
  by (auto simp: dict_pop_def)

lemma distinct_dict_pop: "distinct (map fst d) \<Longrightarrow> distinct (map fst (dict_pop k d))"
  by (induction d) (auto simp: dict_pop_def)

lemma finite_dict_keys [simp]: "finite (dict_keys d)"
  by (simp add: dict_keys_def)

section \<open>Rounding\<close>

text \<open>
  Python's \<open>round\<close> rounds halves to even. Seconds and volumes are IEEE doubles in the code; the
  model computes with exact rationals, so \<open>py_round3\<close> is \<open>round(x, 3)\<close> without the
  representation error of the double.
\<close>

definition py_round :: "rat \<Rightarrow> int" where
  "py_round x = (let f = \<lfloor>x\<rfloor>; r = x - of_int f in
     if r < 1/2 then f else if 1/2 < r then f + 1 else if even f then f else f + 1)"

definition py_round3 :: "rat \<Rightarrow> rat" where
  "py_round3 x = of_int (py_round (x * 1000)) / 1000"

lemma py_round_of_int [simp]: "py_round (of_int n) = n"
  by (simp add: py_round_def Let_def)

lemma py_round_error: "\<bar>of_int (py_round x) - x\<bar> \<le> 1/2"
proof -
  have "of_int \<lfloor>x\<rfloor> \<le> x" "x < of_int \<lfloor>x\<rfloor> + 1" by linarith+
  then show ?thesis by (auto simp: py_round_def Let_def abs_le_iff split: if_splits)
qed

lemma py_round_mono: "x \<le> y \<Longrightarrow> py_round x \<le> py_round y"
proof -
  assume le: "x \<le> y"
  have fl: "\<lfloor>x\<rfloor> \<le> \<lfloor>y\<rfloor>" using le by (rule floor_mono)
  show ?thesis
  proof (cases "\<lfloor>x\<rfloor> = \<lfloor>y\<rfloor>")
    case True
    then show ?thesis using le by (auto simp: py_round_def Let_def)
  next
    case False
    then have "\<lfloor>x\<rfloor> + 1 \<le> \<lfloor>y\<rfloor>" using fl by simp
    then show ?thesis by (auto simp: py_round_def Let_def)
  qed
qed

lemma py_round_nonneg: "0 \<le> x \<Longrightarrow> 0 \<le> py_round x"
  using py_round_mono [of 0 x] py_round_of_int [of 0] by simp

section \<open>Decimal numerals\<close>

text \<open>\<open>str(n)\<close> for a non-negative integer and \<open>int(s)\<close> for a string of ASCII digits.\<close>

definition digit_char :: "nat \<Rightarrow> char" where
  "digit_char d = char_of (48 + d)"

fun decimal :: "nat \<Rightarrow> string" where
  "decimal n = (if n < 10 then [digit_char n] else decimal (n div 10) @ [digit_char (n mod 10)])"

declare decimal.simps [simp del]

definition is_digit :: "char \<Rightarrow> bool" where
  "is_digit c = (48 \<le> (of_char c :: nat) \<and> (of_char c :: nat) \<le> 57)"

definition digits_value :: "string \<Rightarrow> nat" where
  "digits_value s = foldl (\<lambda>acc c. 10 * acc + (of_char c - 48)) 0 s"

text \<open>The pattern \<open>[1-9][0-9]*\<close>\<close>

definition is_positive_decimal :: "string \<Rightarrow> bool" where
  "is_positive_decimal s = (case s of [] \<Rightarrow> False
     | c # cs \<Rightarrow> is_digit c \<and> c \<noteq> CHR ''0'' \<and> list_all is_digit cs)"

lemma of_char_digit_char: "d < 10 \<Longrightarrow> (of_char (digit_char d) :: nat) = 48 + d"
  by (simp add: digit_char_def)

lemma digits_value_snoc: "digits_value (s @ [c]) = 10 * digits_value s + (of_char c - 48)"
  by (simp add: digits_value_def)

lemma digits_value_decimal [simp]: "digits_value (decimal n) = n"
proof (induction n rule: decimal.induct)
  case (1 n)
  show ?case
  proof (cases "n < 10")
    case True
    then show ?thesis
      by (subst decimal.simps) (simp add: digits_value_def of_char_digit_char)
  next
    case False
    then show ?thesis
      using "1.IH" by (subst decimal.simps) (simp add: digits_value_snoc of_char_digit_char)
  qed
qed

lemma decimal_inject [simp]: "decimal m = decimal n \<longleftrightarrow> m = n"
  by (metis digits_value_decimal)

lemma is_digit_digit_char: "d < 10 \<Longrightarrow> is_digit (digit_char d)"
  by (simp add: is_digit_def of_char_digit_char)

lemma decimal_positive: "0 < n \<Longrightarrow> is_positive_decimal (decimal n)"
proof (induction n rule: decimal.induct)
  case (1 n)
  show ?case
  proof (cases "n < 10")
    case True
    have "digit_char n \<noteq> CHR ''0''"
    proof
      assume "digit_char n = CHR ''0''"
      then have "(of_char (digit_char n) :: nat) = 48" by simp
      then show False using True "1.prems" by (simp add: of_char_digit_char)
    qed
    then show ?thesis
      using True by (subst decimal.simps) (simp add: is_positive_decimal_def is_digit_digit_char)
  next
    case False
    then have "is_positive_decimal (decimal (n div 10))" using "1.IH" by simp
    then show ?thesis
      using False
      by (subst decimal.simps)
        (auto simp: is_positive_decimal_def is_digit_digit_char split: list.splits)
  qed
qed

text \<open>
  \<open>int(text)\<close>: white space around an optional sign and digits that single underscores may separate;
  the interpreter refuses more than 4300 digits.  Digits outside ASCII are not modelled.
\<close>

definition is_py_space :: "char \<Rightarrow> bool" where
  "is_py_space c = (let n = (of_char c :: nat) in (9 \<le> n \<and> n \<le> 13) \<or> (28 \<le> n \<and> n \<le> 32) \<or> n = 133 \<or> n = 160)"

definition py_strip :: "string \<Rightarrow> string" where
  "py_strip s = rev (dropWhile is_py_space (rev (dropWhile is_py_space s)))"

fun underscored_digits :: "string \<Rightarrow> bool" where
  "underscored_digits [] = False"
| "underscored_digits [c] = is_digit c"
| "underscored_digits (c # d # cs) =
     (is_digit c \<and> (if d = CHR ''_'' then underscored_digits cs else underscored_digits (d # cs)))"

definition py_int :: "string \<Rightarrow> int option" where
  "py_int s =
     (let t = py_strip s;
          (negative, u) = (case t of [] \<Rightarrow> (False, [])
             | c # cs \<Rightarrow> if c = CHR ''-'' then (True, cs) else if c = CHR ''+'' then (False, cs) else (False, t));
          digits = filter (\<lambda>c. c \<noteq> CHR ''_'') u
      in if \<not> underscored_digits u \<or> 4300 < length digits then None
         else Some (if negative then - int (digits_value digits) else int (digits_value digits)))"

section \<open>Unicode texts\<close>

text \<open>A text of any characters is the list of its code points\<close>

type_synonym utext = "nat list"

definition codes :: "string \<Rightarrow> utext" where
  "codes s = map of_char s"

lemma codes_append [simp]: "codes (s @ t) = codes s @ codes t"
  by (simp add: codes_def)

lemma length_codes [simp]: "length (codes s) = length s"
  by (simp add: codes_def)

lemma codes_inject [simp]: "codes s = codes t \<longleftrightarrow> s = t"
  by (simp add: codes_def inj_map_eq_map inj_on_def)

text \<open>\<open>str.isspace\<close>, and the characters at which \<open>str.splitlines\<close> splits\<close>

definition space_codes :: "nat list" where
  "space_codes = [9, 10, 11, 12, 13, 28, 29, 30, 31, 32, 133, 160, 5760] @ [8192..<8203] @ [8232, 8233, 8239, 8287, 12288]"

definition is_space :: "nat \<Rightarrow> bool" where
  "is_space c = (c \<in> set space_codes)"

definition is_line_break :: "nat \<Rightarrow> bool" where
  "is_line_break c = (c \<in> set [10, 11, 12, 13, 28, 29, 30, 133, 8232, 8233])"

definition lstrip :: "utext \<Rightarrow> utext" where
  "lstrip t = dropWhile is_space t"

definition rstrip :: "utext \<Rightarrow> utext" where
  "rstrip t = rev (dropWhile is_space (rev t))"

definition strip :: "utext \<Rightarrow> utext" where
  "strip t = rstrip (lstrip t)"

text \<open>\<open>str.isspace\<close> of a token, which is never empty\<close>

definition all_space :: "utext \<Rightarrow> bool" where
  "all_space t = list_all is_space t"

end
