(* ===== verification/TimelineModel.thy ===== *)
theory TimelineModel
  imports Prelude
begin

text \<open>
  The domain model of edit timelines (\<open>lib/edit_timeline/model.py\<close>, \<open>sources.py\<close>,
  \<open>transitions.py\<close> and the errors of \<open>errors.py\<close>): clips on the main track, clips on the BGM
  track, revisions and documents, each with the validators Pydantic runs when one is built, and
  the facts about an episode an edit is checked against.  Times are integer microseconds;
  seconds and volumes, floats in the code, are exact rationals.  Free text is a list of code
  points.
\<close>

type_synonym seconds = rat
type_synonym volume = rat
type_synonym text_value = "nat list"

section \<open>Constants and units\<close>

definition MICROSECONDS_PER_SECOND :: int where [simp]: "MICROSECONDS_PER_SECOND = 1000000"
definition DEFAULT_SOURCE_VOLUME :: volume where [simp]: "DEFAULT_SOURCE_VOLUME = 1"
definition VOICEOVER_SOURCE_VOLUME :: volume where [simp]: "VOICEOVER_SOURCE_VOLUME = 3 / 10"
definition DEFAULT_BGM_VOLUME :: volume where [simp]: "DEFAULT_BGM_VOLUME = 1 / 4"
definition DEFAULT_BGM_FADE_MICROSECONDS :: int where [simp]: "DEFAULT_BGM_FADE_MICROSECONDS = 1000000"

definition seconds_to_microseconds :: "seconds \<Rightarrow> int" where
  "seconds_to_microseconds s = py_round (py_round3 s * of_int MICROSECONDS_PER_SECOND)"

definition microseconds_to_seconds :: "int \<Rightarrow> seconds" where
  "microseconds_to_seconds us = py_round3 (of_int us / of_int MICROSECONDS_PER_SECOND)"

section \<open>Clips\<close>

datatype transition_type =
    DISSOLVE | FADE_BLACK | FADE_WHITE | PUSH_LEFT | PUSH_RIGHT | PUSH_UP | PUSH_DOWN
  | WIPE_LEFT | WIPE_RIGHT | WIPE_UP | WIPE_DOWN | CIRCLE | CURTAIN_HORIZONTAL
  | CURTAIN_VERTICAL | MOSAIC | BLUR | RADIAL | GRADIENT_WIPE | SQUEEZE

record transition =
  tr_type :: transition_type
  tr_duration_us :: int

record clip_trim =
  trim_in_us :: int
  trim_out_us :: int
  basis_version :: int

record edit_clip =
  clip_id :: string
  clip_unit_id :: string
  clip_trim :: "clip_trim option"
  source_volume :: volume
  hold_us :: int
  carries_narration :: bool
  clip_reason :: "text_value option"
  transition_to_next :: "transition option"

record bgm_clip =
  bgm_clip_id :: string
  bgm_ref :: string
  bgm_start_us :: int
  bgm_in_us :: int
  bgm_out_us :: int
  bgm_volume :: volume
  bgm_fade_in_us :: int
  bgm_fade_out_us :: int

record edit_timeline_content =
  content_clips :: "edit_clip list"
  content_bgm :: "bgm_clip list"

definition is_clip_id :: "string \<Rightarrow> bool" where
  "is_clip_id s = (case s of [] \<Rightarrow> False | c # cs \<Rightarrow> c = CHR ''c'' \<and> is_positive_decimal cs)"

definition is_bgm_clip_id :: "string \<Rightarrow> bool" where
  "is_bgm_clip_id s = (case s of [] \<Rightarrow> False | c # cs \<Rightarrow> c = CHR ''b'' \<and> is_positive_decimal cs)"

definition is_lower_hex :: "char \<Rightarrow> bool" where
  "is_lower_hex c = (is_digit c \<or> (97 \<le> (of_char c :: nat) \<and> (of_char c :: nat) \<le> 102))"

definition is_timeline_id :: "string \<Rightarrow> bool" where
  "is_timeline_id s = (take 3 s = ''tl-'' \<and> length s = 11 \<and> list_all is_lower_hex (drop 3 s))"

text \<open>\<open>int(clip_id[1:])\<close>, on the identifiers the patterns admit\<close>

definition clip_number :: "string \<Rightarrow> nat" where
  "clip_number s = digits_value (drop 1 s)"

definition make_clip_id :: "nat \<Rightarrow> string" where
  "make_clip_id n = CHR ''c'' # decimal n"

definition make_bgm_clip_id :: "nat \<Rightarrow> string" where
  "make_bgm_clip_id n = CHR ''b'' # decimal n"

definition valid_volume :: "volume \<Rightarrow> bool" where
  "valid_volume v = (0 \<le> v \<and> v \<le> 1)"

definition valid_transition :: "transition \<Rightarrow> bool" where
  "valid_transition t = (0 \<le> tr_duration_us t)"

definition valid_trim :: "clip_trim \<Rightarrow> bool" where
  "valid_trim t = (0 \<le> trim_in_us t \<and> 0 \<le> trim_out_us t \<and> 1 \<le> basis_version t
     \<and> trim_in_us t < trim_out_us t)"

definition valid_clip :: "edit_clip \<Rightarrow> bool" where
  "valid_clip c = (is_clip_id (clip_id c) \<and> clip_unit_id c \<noteq> []
     \<and> pred_option valid_trim (clip_trim c) \<and> valid_volume (source_volume c) \<and> 0 \<le> hold_us c
     \<and> pred_option valid_transition (transition_to_next c))"

definition valid_bgm_clip :: "bgm_clip \<Rightarrow> bool" where
  "valid_bgm_clip c = (is_bgm_clip_id (bgm_clip_id c) \<and> bgm_ref c \<noteq> []
     \<and> 0 \<le> bgm_start_us c \<and> 0 \<le> bgm_in_us c \<and> 0 \<le> bgm_out_us c \<and> valid_volume (bgm_volume c)
     \<and> 0 \<le> bgm_fade_in_us c \<and> 0 \<le> bgm_fade_out_us c \<and> bgm_in_us c < bgm_out_us c)"

text \<open>The two model validators of \<open>EditTimelineContent\<close>\<close>

definition unique_ids :: "edit_timeline_content \<Rightarrow> bool" where
  "unique_ids x = (distinct (map clip_id (content_clips x))
     \<and> distinct (map bgm_clip_id (content_bgm x)))"

definition one_narration_carrier_per_unit :: "edit_clip list \<Rightarrow> bool" where
  "one_narration_carrier_per_unit cs = distinct (map clip_unit_id (filter carries_narration cs))"

definition content_validators :: "edit_timeline_content \<Rightarrow> bool" where
  "content_validators x = (unique_ids x \<and> one_narration_carrier_per_unit (content_clips x))"

definition valid_content :: "edit_timeline_content \<Rightarrow> bool" where
  "valid_content x = (list_all valid_clip (content_clips x) \<and> list_all valid_bgm_clip (content_bgm x)
     \<and> content_validators x)"

section \<open>Revisions and documents\<close>

datatype author_kind = Creator | ArcreelAgent | ExternalAgent

record revision_author =
  author_kind :: author_kind
  author_user_id :: "string option"

record timeline_revision =
  rev_number :: nat
  rev_parent :: "nat option"
  rev_author :: revision_author
  rev_summary :: text_value
  rev_created_at :: string
  rev_content :: edit_timeline_content
  changed_clip_ids :: "string list option"
  restored_from :: "nat option"

record edit_timeline_document =
  doc_id :: string
  doc_episode :: nat
  doc_name :: text_value
  doc_created_at :: string
  next_clip_number :: nat
  next_bgm_number :: nat
  doc_revisions :: "timeline_revision list"

definition valid_revision :: "timeline_revision \<Rightarrow> bool" where
  "valid_revision r = (1 \<le> rev_number r \<and> pred_option (\<lambda>n. 1 \<le> n) (rev_parent r)
     \<and> rev_summary r \<noteq> [] \<and> valid_content (rev_content r)
     \<and> pred_option (list_all (\<lambda>i. is_clip_id i \<or> is_bgm_clip_id i)) (changed_clip_ids r)
     \<and> pred_option (\<lambda>n. 1 \<le> n) (restored_from r))"

text \<open>The validator \<open>_revision_chain\<close>\<close>

definition ids_allocated :: "nat \<Rightarrow> nat \<Rightarrow> edit_timeline_content \<Rightarrow> bool" where
  "ids_allocated nc nb x = (list_all (\<lambda>c. clip_number (clip_id c) < nc) (content_clips x)
     \<and> list_all (\<lambda>c. clip_number (bgm_clip_id c) < nb) (content_bgm x))"

definition revision_chain :: "edit_timeline_document \<Rightarrow> bool" where
  "revision_chain d = (map rev_number (doc_revisions d) = [1..<Suc (length (doc_revisions d))]
     \<and> list_all (\<lambda>r. ids_allocated (next_clip_number d) (next_bgm_number d) (rev_content r))
         (doc_revisions d))"

definition valid_document :: "edit_timeline_document \<Rightarrow> bool" where
  "valid_document d = (is_timeline_id (doc_id d) \<and> 1 \<le> doc_episode d
     \<and> 1 \<le> length (doc_name d) \<and> length (doc_name d) \<le> 40
     \<and> 1 \<le> next_clip_number d \<and> 1 \<le> next_bgm_number d \<and> doc_revisions d \<noteq> []
     \<and> list_all valid_revision (doc_revisions d) \<and> revision_chain d)"

definition latest :: "edit_timeline_document \<Rightarrow> timeline_revision" where
  "latest d = last (doc_revisions d)"

definition revision :: "edit_timeline_document \<Rightarrow> int \<Rightarrow> timeline_revision option" where
  "revision d n = (if 1 \<le> n \<and> n \<le> int (length (doc_revisions d))
     then Some (doc_revisions d ! (nat n - 1)) else None)"

section \<open>Facts about an episode\<close>

datatype speech_mode = CHARACTER_SPEECH | NARRATOR_VOICEOVER | SILENT

record script_unit =
  su_unit_id :: string
  su_speech_mode :: "speech_mode option"
  scripted_duration_us :: int
  subtitle_text :: text_value

record unit_media =
  um_video_version :: "int option"
  um_video_duration_us :: "int option"
  um_narration_duration_us :: "int option"

record bgm_media =
  bm_name :: text_value
  bm_duration_us :: int

record episode_sources =
  src_episode :: nat
  src_units :: "script_unit list"
  src_media :: "string \<rightharpoonup> unit_media"
  src_tts_narration :: bool
  src_bgm :: "string \<rightharpoonup> bgm_media"

definition source_unit :: "episode_sources \<Rightarrow> string \<Rightarrow> script_unit option" where
  "source_unit s u = find (\<lambda>x. su_unit_id x = u) (src_units s)"

text \<open>
  What \<open>load_episode_script_units\<close> and \<open>load_episode_sources\<close> guarantee of the facts they read:
  unit and BGM IDs are not empty, a current version is at least 1, a probed duration is not negative and
  the duration of a registered BGM is positive.
\<close>

definition valid_sources :: "episode_sources \<Rightarrow> bool" where
  "valid_sources s = (list_all (\<lambda>u. su_unit_id u \<noteq> [] \<and> 0 \<le> scripted_duration_us u) (src_units s)
     \<and> (\<forall>u m. src_media s u = Some m \<longrightarrow> pred_option (\<lambda>v. 1 \<le> v) (um_video_version m)
          \<and> pred_option (\<lambda>v. 0 \<le> v) (um_video_duration_us m)
          \<and> pred_option (\<lambda>v. 0 \<le> v) (um_narration_duration_us m))
     \<and> (\<forall>b m. src_bgm s b = Some m \<longrightarrow> b \<noteq> [] \<and> 0 < bm_duration_us m))"

section \<open>Transition presets\<close>

record preset =
  xfade :: string
  fade_color :: "string option"

definition overlaps_preset :: "preset \<Rightarrow> bool" where
  "overlaps_preset p = (fade_color p = None)"

fun transition_preset :: "transition_type \<Rightarrow> preset" where
  "transition_preset DISSOLVE = \<lparr>xfade = ''fade'', fade_color = None\<rparr>"
| "transition_preset FADE_BLACK = \<lparr>xfade = ''fadeblack'', fade_color = Some ''black''\<rparr>"
| "transition_preset FADE_WHITE = \<lparr>xfade = ''fadewhite'', fade_color = Some ''white''\<rparr>"
| "transition_preset PUSH_LEFT = \<lparr>xfade = ''slideleft'', fade_color = None\<rparr>"
| "transition_preset PUSH_RIGHT = \<lparr>xfade = ''slideright'', fade_color = None\<rparr>"
| "transition_preset PUSH_UP = \<lparr>xfade = ''slideup'', fade_color = None\<rparr>"
| "transition_preset PUSH_DOWN = \<lparr>xfade = ''slidedown'', fade_color = None\<rparr>"
| "transition_preset WIPE_LEFT = \<lparr>xfade = ''wipeleft'', fade_color = None\<rparr>"
| "transition_preset WIPE_RIGHT = \<lparr>xfade = ''wiperight'', fade_color = None\<rparr>"
| "transition_preset WIPE_UP = \<lparr>xfade = ''wipeup'', fade_color = None\<rparr>"
| "transition_preset WIPE_DOWN = \<lparr>xfade = ''wipedown'', fade_color = None\<rparr>"
| "transition_preset CIRCLE = \<lparr>xfade = ''circleopen'', fade_color = None\<rparr>"
| "transition_preset CURTAIN_HORIZONTAL = \<lparr>xfade = ''horzopen'', fade_color = None\<rparr>"
| "transition_preset CURTAIN_VERTICAL = \<lparr>xfade = ''vertopen'', fade_color = None\<rparr>"
| "transition_preset MOSAIC = \<lparr>xfade = ''pixelize'', fade_color = None\<rparr>"
| "transition_preset BLUR = \<lparr>xfade = ''hblur'', fade_color = None\<rparr>"
| "transition_preset RADIAL = \<lparr>xfade = ''radial'', fade_color = None\<rparr>"
| "transition_preset GRADIENT_WIPE = \<lparr>xfade = ''smoothleft'', fade_color = None\<rparr>"
| "transition_preset SQUEEZE = \<lparr>xfade = ''squeezeh'', fade_color = None\<rparr>"

section \<open>Errors\<close>

text \<open>
  \<open>EditTimelineError\<close>: the error code is the constructor, its arguments are the parameters the
  callers read.  \<open>OperationInvalid\<close> carries the operation's index, the clip, the field and which
  check rejected it (in place of the message text).  \<open>ValidationError\<close> is Pydantic's.
\<close>

datatype invalid_reason =
    ClipMissing | UnitNotInScript | UnitDeleted | NoVideo | TrimRange | VolumeRange | HoldRange
  | ReasonTooLong | TransitionRange | NoNextClip | NotVoiceover | AfterItself | BgmUnknown
  | BgmRange | NegativeSeconds | TransitionWindow | BgmStart | BgmOverlap string

datatype edit_timeline_error =
    ProjectNotFound | EpisodeNotFound | ScriptInvalid | TimelineNotFound
  | RevisionNotFound int | TimelineNameInvalid | TimelineNameConflict | TimelineInvalid
  | OperationInvalid nat "string option" string invalid_reason
  | OperationsEmpty | RevisionConflict "string list" | RevisionSummaryInvalid
  | RevisionUnchanged | ValidationError

section \<open>Lemmas\<close>

lemma seconds_to_microseconds_eq: "seconds_to_microseconds s = 1000 * py_round (s * 1000)"
proof -
  have "py_round3 s * of_int MICROSECONDS_PER_SECOND = of_int (1000 * py_round (s * 1000))"
    by (simp add: py_round3_def)
  then show ?thesis
    unfolding seconds_to_microseconds_def by (simp only: py_round_of_int)
qed

lemma seconds_to_microseconds_nonneg: "0 \<le> s \<Longrightarrow> 0 \<le> seconds_to_microseconds s"
  by (simp add: seconds_to_microseconds_eq py_round_nonneg)

lemma seconds_to_microseconds_mono: "s \<le> t \<Longrightarrow> seconds_to_microseconds s \<le> seconds_to_microseconds t"
  by (simp add: seconds_to_microseconds_eq py_round_mono)

lemma seconds_to_microseconds_of_int: "seconds_to_microseconds (of_int n) = n * 1000000"
proof -
  have "(of_int n :: rat) * 1000 = of_int (n * 1000)" by simp
  then show ?thesis
    unfolding seconds_to_microseconds_eq by (simp only: py_round_of_int)
qed

lemma microseconds_to_seconds_ms: "microseconds_to_seconds (1000 * n) = of_int n / 1000"
proof -
  have "(of_int (1000 * n) :: rat) / of_int MICROSECONDS_PER_SECOND * 1000 = of_int n" by simp
  then show ?thesis
    unfolding microseconds_to_seconds_def py_round3_def by (simp only: py_round_of_int)
qed

lemma seconds_round_trip:
  "seconds_to_microseconds (microseconds_to_seconds (1000 * n)) = 1000 * n"
proof -
  have "(of_int n / 1000 :: rat) * 1000 = of_int n" by simp
  then show ?thesis
    unfolding microseconds_to_seconds_ms seconds_to_microseconds_eq by (simp only: py_round_of_int)
qed

lemma clip_number_make [simp]: "clip_number (make_clip_id n) = n"
  by (simp add: clip_number_def make_clip_id_def)

lemma clip_number_make_bgm [simp]: "clip_number (make_bgm_clip_id n) = n"
  by (simp add: clip_number_def make_bgm_clip_id_def)

lemma is_clip_id_make: "0 < n \<Longrightarrow> is_clip_id (make_clip_id n)"
  by (simp add: is_clip_id_def make_clip_id_def decimal_positive)

lemma is_bgm_clip_id_make: "0 < n \<Longrightarrow> is_bgm_clip_id (make_bgm_clip_id n)"
  by (simp add: is_bgm_clip_id_def make_bgm_clip_id_def decimal_positive)

lemma clip_ids_disjoint: "is_clip_id i \<Longrightarrow> \<not> is_bgm_clip_id i"
  by (auto simp: is_clip_id_def is_bgm_clip_id_def split: list.splits)

lemma source_unit_SomeD:
  assumes "source_unit s u = Some x"
  shows "x \<in> set (src_units s)" "su_unit_id x = u"
  using assms unfolding source_unit_def by (auto simp: find_Some_iff)

lemma content_validators_valid: "valid_content x \<Longrightarrow> content_validators x"
  by (simp add: valid_content_def)

lemma revision_latest:
  assumes "valid_document d"
  shows "revision d (int (rev_number (latest d))) = Some (latest d)"
proof -
  let ?rs = "doc_revisions d"
  from assms have ne: "?rs \<noteq> []"
    and chain: "map rev_number ?rs = [1..<Suc (length ?rs)]"
    by (auto simp: valid_document_def revision_chain_def)
  have "rev_number (last ?rs) = last (map rev_number ?rs)" using ne by (simp add: last_map)
  also have "\<dots> = length ?rs" using ne unfolding chain by (simp add: Suc_le_eq)
  finally have num: "rev_number (last ?rs) = length ?rs" .
  then show ?thesis
    using ne by (auto simp: revision_def latest_def last_conv_nth Suc_le_eq)
qed

end
