(* ===== verification/TimelineOps.thy ===== *)
theory TimelineOps
  imports TimelineModel
begin

text \<open>
  The batch edit operations of \<open>lib/edit_timeline/operations.py\<close>, with the source range of a clip
  from \<open>readout.py\<close> and its length on the BGM track from \<open>bgm.py\<close>.  \<open>batch\<close> is the state of the
  class \<open>_Batch\<close>; every method is a function on it whose \<open>raise\<close> is \<open>Inl\<close>, in the order of
  evaluation of the code.  The maps the code keeps as \<open>dict\<close> are association lists.
\<close>

definition MIN_TRIM_MICROSECONDS :: int where [simp]: "MIN_TRIM_MICROSECONDS = 100000"
definition MAX_HOLD_MICROSECONDS :: int where [simp]: "MAX_HOLD_MICROSECONDS = 10000000"
definition MIN_TRANSITION_MICROSECONDS :: int where [simp]: "MIN_TRANSITION_MICROSECONDS = 100000"
definition MAX_TRANSITION_MICROSECONDS :: int where [simp]: "MAX_TRANSITION_MICROSECONDS = 2000000"
definition REASON_MAX_LENGTH :: nat where [simp]: "REASON_MAX_LENGTH = 200"
definition MIN_BGM_MICROSECONDS :: int where [simp]: "MIN_BGM_MICROSECONDS = 1000000"

definition default_source_volume :: "speech_mode option \<Rightarrow> volume" where
  "default_source_volume m =
     (if m = Some NARRATOR_VOICEOVER then VOICEOVER_SOURCE_VOLUME else DEFAULT_SOURCE_VOLUME)"

section \<open>Operations as data\<close>

record trim_spec =
  spec_source_in :: seconds
  spec_source_out :: seconds

record transition_spec =
  spec_type :: transition_type
  spec_duration :: seconds

record insert_clip =
  ic_unit_id :: string
  ic_after :: "string option"
  ic_source_volume :: "volume option"
  ic_trim :: "trim_spec option"
  ic_hold :: seconds
  ic_reason :: "text_value option"
  ic_transition_to_next :: "transition_spec option"

record insert_bgm =
  ib_bgm_id :: string
  ib_start :: seconds
  ib_source_in :: seconds
  ib_source_out :: "seconds option"
  ib_volume :: volume
  ib_fade_in :: seconds
  ib_fade_out :: seconds

record set_bgm =
  sb_clip :: string
  sb_start :: "seconds option"
  sb_source_in :: "seconds option"
  sb_source_out :: "seconds option"
  sb_volume :: "volume option"
  sb_fade_in :: "seconds option"
  sb_fade_out :: "seconds option"

datatype timeline_operation =
    InsertClip insert_clip
  | DeleteClip string
  | MoveClip string "string option"
  | SetTrim string "trim_spec option"
  | SetVolume string volume
  | SetHold string seconds
  | SetReason string "text_value option"
  | SetTransition string "transition_spec option"
  | PlaceNarration string
  | InsertBgm insert_bgm
  | SetBgm set_bgm
  | DeleteBgm string

section \<open>The batch state\<close>

record batch =
  b_clips :: "edit_clip list"
  b_bgm :: "bgm_clip list"
  b_next_clip :: nat
  b_next_bgm :: nat
  b_targets :: "string set"
  b_referenced :: "string set"
  b_last_operation :: "(string \<times> nat) list"

record applied_batch =
  ab_content :: edit_timeline_content
  ab_next_clip_number :: nat
  ab_next_bgm_number :: nat
  ab_targets :: "string set"
  ab_referenced :: "string set"
  ab_last_operation :: "(string \<times> nat) list"

definition init_batch :: "edit_timeline_content \<Rightarrow> nat \<Rightarrow> nat \<Rightarrow> batch" where
  "init_batch x nc nb = \<lparr>b_clips = content_clips x, b_bgm = content_bgm x, b_next_clip = nc,
     b_next_bgm = nb, b_targets = {}, b_referenced = {}, b_last_operation = []\<rparr>"

type_synonym 'a result = "edit_timeline_error + 'a"

definition invalid :: "nat \<Rightarrow> string option \<Rightarrow> string \<Rightarrow> invalid_reason \<Rightarrow> edit_timeline_error" where
  "invalid i cid field why = OperationInvalid i cid field why"

section \<open>Locating clips\<close>

definition position :: "nat \<Rightarrow> string \<Rightarrow> string \<Rightarrow> batch \<Rightarrow> (nat \<times> batch) result" where
  "position i cid field b =
     (let b' = b\<lparr>b_referenced := insert cid (b_referenced b),
                 b_targets := if field = ''clip'' then insert cid (b_targets b) else b_targets b\<rparr>
      in case find_index (\<lambda>c. clip_id c = cid) (b_clips b) of
           None \<Rightarrow> Inl (invalid i (Some cid) field ClipMissing)
         | Some p \<Rightarrow> Inr (p, b'))"

definition insertion_point :: "nat \<Rightarrow> string option \<Rightarrow> batch \<Rightarrow> (nat \<times> batch) result" where
  "insertion_point i after b =
     (case after of None \<Rightarrow> Inr (0, b)
      | Some cid \<Rightarrow> ebind (position i cid ''after'' b) (\<lambda>(p, b'). Inr (p + 1, b')))"

definition touch :: "nat \<Rightarrow> string \<Rightarrow> batch \<Rightarrow> batch" where
  "touch i cid b = b\<lparr>b_last_operation := dict_set cid i (b_last_operation b)\<rparr>"

definition replace_clip :: "nat \<Rightarrow> nat \<Rightarrow> (edit_clip \<Rightarrow> edit_clip) \<Rightarrow> batch \<Rightarrow> batch" where
  "replace_clip i p f b =
     (let updated = f (b_clips b ! p)
      in if updated \<noteq> b_clips b ! p
         then touch i (clip_id updated) (b\<lparr>b_clips := (b_clips b)[p := updated]\<rparr>) else b)"

definition current_video ::
  "episode_sources \<Rightarrow> nat \<Rightarrow> string option \<Rightarrow> string \<Rightarrow> (int \<times> int) result" where
  "current_video src i cid u =
     (case (source_unit src u, src_media src u) of
        (Some _, Some m) \<Rightarrow>
          (case (um_video_version m, um_video_duration_us m) of
             (Some v, Some d) \<Rightarrow> Inr (v, d)
           | _ \<Rightarrow> Inl (invalid i cid ''trim'' NoVideo))
      | _ \<Rightarrow> Inl (invalid i cid ''trim'' UnitDeleted))"

section \<open>Field checks\<close>

definition check_trim ::
  "episode_sources \<Rightarrow> nat \<Rightarrow> string option \<Rightarrow> string \<Rightarrow> trim_spec option \<Rightarrow> clip_trim option result" where
  "check_trim src i cid u spec =
     (case spec of None \<Rightarrow> Inr None
      | Some sp \<Rightarrow> ebind (current_video src i cid u) (\<lambda>(version, whole_us).
          let whole = microseconds_to_seconds whole_us;
              in_range = 0 \<le> spec_source_in sp \<and> spec_source_in sp < spec_source_out sp
                \<and> spec_source_out sp \<le> whole + 1 / 1000;
              in_us = (if in_range then seconds_to_microseconds (spec_source_in sp) else 0);
              out0 = (if in_range then seconds_to_microseconds (spec_source_out sp) else 0);
              out_us = (if whole_us < out0 \<and> out0 \<le> whole_us + 1000 then whole_us else out0)
          in if \<not> in_range \<or> out_us > whole_us \<or> out_us - in_us < MIN_TRIM_MICROSECONDS
             then Inl (invalid i cid ''trim'' TrimRange)
             else Inr (Some \<lparr>trim_in_us = in_us, trim_out_us = out_us, basis_version = version\<rparr>)))"

definition check_volume :: "nat \<Rightarrow> string option \<Rightarrow> volume \<Rightarrow> volume result" where
  "check_volume i cid v =
     (if 0 \<le> v \<and> v \<le> 1 then Inr v else Inl (invalid i cid ''source_volume'' VolumeRange))"

definition check_hold :: "nat \<Rightarrow> string option \<Rightarrow> seconds \<Rightarrow> int result" where
  "check_hold i cid v =
     (if 0 \<le> v \<and> v \<le> microseconds_to_seconds MAX_HOLD_MICROSECONDS
      then Inr (seconds_to_microseconds v) else Inl (invalid i cid ''hold'' HoldRange))"

definition check_reason :: "nat \<Rightarrow> string option \<Rightarrow> text_value option \<Rightarrow> text_value option result" where
  "check_reason i cid v =
     (let reason = (case v of None \<Rightarrow> [] | Some t \<Rightarrow> strip t)
      in if reason = [] then Inr None
         else if length reason > REASON_MAX_LENGTH then Inl (invalid i cid ''reason'' ReasonTooLong)
         else Inr (Some reason))"

definition check_transition ::
  "nat \<Rightarrow> string option \<Rightarrow> transition_spec option \<Rightarrow> transition option result" where
  "check_transition i cid spec =
     (case spec of None \<Rightarrow> Inr None
      | Some sp \<Rightarrow>
          if microseconds_to_seconds MIN_TRANSITION_MICROSECONDS \<le> spec_duration sp
             \<and> spec_duration sp \<le> microseconds_to_seconds MAX_TRANSITION_MICROSECONDS
          then Inr (Some \<lparr>tr_type = spec_type sp, tr_duration_us = seconds_to_microseconds (spec_duration sp)\<rparr>)
          else Inl (invalid i cid ''transition.duration'' TransitionRange))"

definition require_next :: "nat \<Rightarrow> nat \<Rightarrow> transition option \<Rightarrow> batch \<Rightarrow> unit result" where
  "require_next i p tr b =
     ensure (\<not> (tr \<noteq> None \<and> p = length (b_clips b) - 1))
       (invalid i (Some (clip_id (b_clips b ! p))) ''transition'' NoNextClip)"

section \<open>Neighbours\<close>

fun next_ids :: "edit_clip list \<Rightarrow> string \<rightharpoonup> string option" where
  "next_ids [] = Map.empty"
| "next_ids (c # cs) =
     [clip_id c \<mapsto> (case cs of [] \<Rightarrow> None | d # _ \<Rightarrow> Some (clip_id d))] ++ next_ids cs"

text \<open>A loop over the positions that replaces some of the clips in place\<close>

definition replace_where ::
  "nat \<Rightarrow> (nat \<Rightarrow> edit_clip \<Rightarrow> bool) \<Rightarrow> (edit_clip \<Rightarrow> edit_clip) \<Rightarrow> batch \<Rightarrow> batch" where
  "replace_where i P f b =
     foldl (\<lambda>b q. if P q (b_clips b ! q) then replace_clip i q f b else b) b [0..<length (b_clips b)]"

definition broken_cut :: "(string \<rightharpoonup> string option) \<Rightarrow> (string \<rightharpoonup> string option) \<Rightarrow> edit_clip \<Rightarrow> bool" where
  "broken_cut before after c = (transition_to_next c \<noteq> None
     \<and> (case before (clip_id c) of None \<Rightarrow> False | Some n \<Rightarrow> Some n \<noteq> after (clip_id c)))"

definition clear_transition :: "edit_clip \<Rightarrow> edit_clip" where
  "clear_transition c = c\<lparr>transition_to_next := None\<rparr>"

definition reset_broken_cuts :: "nat \<Rightarrow> (string \<rightharpoonup> string option) \<Rightarrow> batch \<Rightarrow> batch" where
  "reset_broken_cuts i before b =
     (let after = next_ids (b_clips b)
      in replace_where i (\<lambda>_. broken_cut before after) clear_transition b)"

section \<open>Operations on the main track\<close>

definition unit_has_carrier :: "string \<Rightarrow> edit_clip list \<Rightarrow> bool" where
  "unit_has_carrier u cs = list_ex (\<lambda>c. clip_unit_id c = u \<and> carries_narration c) cs"

definition apply_insert :: "episode_sources \<Rightarrow> nat \<Rightarrow> insert_clip \<Rightarrow> batch \<Rightarrow> batch result" where
  "apply_insert src i op b =
     (case source_unit src (ic_unit_id op) of
        None \<Rightarrow> Inl (invalid i None ''unit_id'' UnitNotInScript)
      | Some u \<Rightarrow>
          ebind (check_trim src i None (su_unit_id u) (ic_trim op)) (\<lambda>tr.
          ebind (case ic_source_volume op of
                   Some v \<Rightarrow> check_volume i None v
                 | None \<Rightarrow> Inr (default_source_volume (su_speech_mode u))) (\<lambda>vol.
          ebind (check_hold i None (ic_hold op)) (\<lambda>hold.
          ebind (check_reason i None (ic_reason op)) (\<lambda>why.
          ebind (check_transition i None (ic_transition_to_next op)) (\<lambda>trans.
          let clip = \<lparr>clip_id = make_clip_id (b_next_clip b), clip_unit_id = su_unit_id u,
                clip_trim = tr, source_volume = vol, hold_us = hold,
                carries_narration = \<not> unit_has_carrier (su_unit_id u) (b_clips b),
                clip_reason = why, transition_to_next = trans\<rparr>;
              before = next_ids (b_clips b)
          in ebind (insertion_point i (ic_after op) b) (\<lambda>(p, b1).
             let b2 = touch i (clip_id clip)
                        (b1\<lparr>b_clips := insert_at p clip (b_clips b1), b_next_clip := b_next_clip b1 + 1\<rparr>)
             in ebind (require_next i p (transition_to_next clip) b2)
                  (\<lambda>_. Inr (reset_broken_cuts i before b2)))))))))"

definition set_carrier :: "bool \<Rightarrow> edit_clip \<Rightarrow> edit_clip" where
  "set_carrier v c = c\<lparr>carries_narration := v\<rparr>"

definition apply_place_narration :: "episode_sources \<Rightarrow> nat \<Rightarrow> string \<Rightarrow> batch \<Rightarrow> batch result" where
  "apply_place_narration src i cid b =
     ebind (position i cid ''clip'' b) (\<lambda>(p, b1).
       let u = clip_unit_id (b_clips b1 ! p)
       in if (case source_unit src u of None \<Rightarrow> True
              | Some x \<Rightarrow> su_speech_mode x \<noteq> Some NARRATOR_VOICEOVER)
          then Inl (invalid i (Some cid) ''clip'' NotVoiceover)
          else Inr (replace_clip i p (set_carrier True)
                 (replace_where i (\<lambda>q c. clip_unit_id c = u \<and> q \<noteq> p) (set_carrier False) b1)))"

definition apply_delete :: "nat \<Rightarrow> string \<Rightarrow> batch \<Rightarrow> batch result" where
  "apply_delete i cid b =
     ebind (position i cid ''clip'' b) (\<lambda>(p, b1).
       let before = next_ids (b_clips b1);
           removed = b_clips b1 ! p;
           b2 = touch i (clip_id removed) (b1\<lparr>b_clips := remove_at p (b_clips b1)\<rparr>);
           b3 = (if carries_narration removed
                 then (case find_index (\<lambda>c. clip_unit_id c = clip_unit_id removed) (b_clips b2) of
                         None \<Rightarrow> b2
                       | Some heir \<Rightarrow> replace_clip i heir (set_carrier True) b2)
                 else b2)
       in Inr (reset_broken_cuts i before b3))"

definition apply_move :: "nat \<Rightarrow> string \<Rightarrow> string option \<Rightarrow> batch \<Rightarrow> batch result" where
  "apply_move i cid after b =
     ebind (position i cid ''clip'' b) (\<lambda>(p, b1).
       if after = Some cid then Inl (invalid i (Some cid) ''after'' AfterItself)
       else let before = next_ids (b_clips b1); moving = b_clips b1 ! p;
                b2 = b1\<lparr>b_clips := remove_at p (b_clips b1)\<rparr>
            in ebind (insertion_point i after b2) (\<lambda>(d, b3).
                 let b4 = b3\<lparr>b_clips := insert_at d moving (b_clips b3)\<rparr>;
                     b5 = (if d \<noteq> p then touch i (clip_id moving) b4 else b4)
                 in Inr (reset_broken_cuts i before b5)))"

section \<open>Operations on the BGM track\<close>

definition bgm_position :: "nat \<Rightarrow> string \<Rightarrow> batch \<Rightarrow> (nat \<times> batch) result" where
  "bgm_position i cid b =
     (let b' = b\<lparr>b_referenced := insert cid (b_referenced b), b_targets := insert cid (b_targets b)\<rparr>
      in case find_index (\<lambda>c. bgm_clip_id c = cid) (b_bgm b) of
           None \<Rightarrow> Inl (invalid i (Some cid) ''clip'' ClipMissing)
         | Some p \<Rightarrow> Inr (p, b'))"

definition bgm_duration :: "episode_sources \<Rightarrow> nat \<Rightarrow> string option \<Rightarrow> string \<Rightarrow> int result" where
  "bgm_duration src i cid ref =
     (case src_bgm src ref of None \<Rightarrow> Inl (invalid i cid ''bgm_id'' BgmUnknown)
      | Some m \<Rightarrow> Inr (bm_duration_us m))"

definition bgm_range ::
  "episode_sources \<Rightarrow> nat \<Rightarrow> string option \<Rightarrow> string \<Rightarrow> seconds \<Rightarrow> seconds option \<Rightarrow> (int \<times> int) result" where
  "bgm_range src i cid ref source_in source_out =
     ebind (bgm_duration src i cid ref) (\<lambda>whole_us.
       let whole = microseconds_to_seconds whole_us;
           out = (case source_out of None \<Rightarrow> whole | Some t \<Rightarrow> t);
           in_range = 0 \<le> source_in \<and> source_in < out \<and> out \<le> whole + 1 / 1000;
           in_us = (if in_range then seconds_to_microseconds source_in else 0);
           out_us = (if in_range then min (seconds_to_microseconds out) whole_us else 0)
       in if \<not> in_range \<or> out_us - in_us < min MIN_BGM_MICROSECONDS whole_us
          then Inl (invalid i cid ''source_in/source_out'' BgmRange)
          else Inr (in_us, out_us))"

definition check_bgm_volume :: "nat \<Rightarrow> string option \<Rightarrow> volume \<Rightarrow> volume result" where
  "check_bgm_volume i cid v =
     (if 0 \<le> v \<and> v \<le> 1 then Inr v else Inl (invalid i cid ''volume'' VolumeRange))"

definition seconds_at_least_zero :: "nat \<Rightarrow> string option \<Rightarrow> string \<Rightarrow> seconds \<Rightarrow> int result" where
  "seconds_at_least_zero i cid field v =
     (if v < 0 then Inl (invalid i cid field NegativeSeconds) else Inr (seconds_to_microseconds v))"

definition apply_insert_bgm :: "episode_sources \<Rightarrow> nat \<Rightarrow> insert_bgm \<Rightarrow> batch \<Rightarrow> batch result" where
  "apply_insert_bgm src i op b =
     ebind (bgm_range src i None (ib_bgm_id op) (ib_source_in op) (ib_source_out op)) (\<lambda>(in_us, out_us).
     ebind (seconds_at_least_zero i None ''start'' (ib_start op)) (\<lambda>start.
     ebind (check_bgm_volume i None (ib_volume op)) (\<lambda>vol.
     ebind (seconds_at_least_zero i None ''fade_in'' (ib_fade_in op)) (\<lambda>fin.
     ebind (seconds_at_least_zero i None ''fade_out'' (ib_fade_out op)) (\<lambda>fout.
       let clip = \<lparr>bgm_clip_id = make_bgm_clip_id (b_next_bgm b), bgm_ref = ib_bgm_id op,
             bgm_start_us = start, bgm_in_us = in_us, bgm_out_us = out_us, bgm_volume = vol,
             bgm_fade_in_us = fin, bgm_fade_out_us = fout\<rparr>
       in Inr (touch i (bgm_clip_id clip)
            (b\<lparr>b_next_bgm := b_next_bgm b + 1, b_bgm := b_bgm b @ [clip]\<rparr>)))))))"

definition optional :: "'a option \<Rightarrow> ('a \<Rightarrow> 'b result) \<Rightarrow> 'b option result" where
  "optional x f = (case x of None \<Rightarrow> Inr None | Some a \<Rightarrow> ebind (f a) (\<lambda>v. Inr (Some v)))"

definition or_else :: "'a option \<Rightarrow> 'a \<Rightarrow> 'a" where
  "or_else x d = (case x of None \<Rightarrow> d | Some a \<Rightarrow> a)"

definition apply_set_bgm :: "episode_sources \<Rightarrow> nat \<Rightarrow> set_bgm \<Rightarrow> batch \<Rightarrow> batch result" where
  "apply_set_bgm src i op b =
     (let cid = sb_clip op in
     ebind (bgm_position i cid b) (\<lambda>(p, b1).
     let current = b_bgm b1 ! p in
     ebind (if sb_source_in op \<noteq> None \<or> sb_source_out op \<noteq> None
            then bgm_range src i (Some cid) (bgm_ref current)
                   (or_else (sb_source_in op) (microseconds_to_seconds (bgm_in_us current)))
                   (Some (or_else (sb_source_out op) (microseconds_to_seconds (bgm_out_us current))))
            else Inr (bgm_in_us current, bgm_out_us current)) (\<lambda>(in_us, out_us).
     ebind (optional (sb_start op) (seconds_at_least_zero i (Some cid) ''start'')) (\<lambda>start.
     ebind (optional (sb_volume op) (check_bgm_volume i (Some cid))) (\<lambda>vol.
     ebind (optional (sb_fade_in op) (seconds_at_least_zero i (Some cid) ''fade_in'')) (\<lambda>fin.
     ebind (optional (sb_fade_out op) (seconds_at_least_zero i (Some cid) ''fade_out'')) (\<lambda>fout.
       let updated = current\<lparr>bgm_in_us := in_us, bgm_out_us := out_us,
             bgm_start_us := or_else start (bgm_start_us current),
             bgm_volume := or_else vol (bgm_volume current),
             bgm_fade_in_us := or_else fin (bgm_fade_in_us current),
             bgm_fade_out_us := or_else fout (bgm_fade_out_us current)\<rparr>
       in Inr (if updated \<noteq> current
               then touch i (bgm_clip_id updated) (b1\<lparr>b_bgm := (b_bgm b1)[p := updated]\<rparr>)
               else b1))))))))"

definition apply_delete_bgm :: "nat \<Rightarrow> string \<Rightarrow> batch \<Rightarrow> batch result" where
  "apply_delete_bgm i cid b =
     ebind (bgm_position i cid b) (\<lambda>(p, b1).
       Inr (touch i (bgm_clip_id (b_bgm b1 ! p)) (b1\<lparr>b_bgm := remove_at p (b_bgm b1)\<rparr>)))"

section \<open>Dispatch\<close>

text \<open>The four \<open>case\<close>s that locate a clip and replace one field of it\<close>

definition set_field ::
  "nat \<Rightarrow> string \<Rightarrow> (edit_clip \<Rightarrow> (edit_clip \<Rightarrow> edit_clip) result) \<Rightarrow> batch \<Rightarrow> batch result" where
  "set_field i cid check b =
     ebind (position i cid ''clip'' b) (\<lambda>(p, b1).
     ebind (check (b_clips b1 ! p)) (\<lambda>f. Inr (replace_clip i p f b1)))"

fun apply_operation :: "episode_sources \<Rightarrow> nat \<Rightarrow> timeline_operation \<Rightarrow> batch \<Rightarrow> batch result" where
  "apply_operation src i (InsertClip op) b = apply_insert src i op b"
| "apply_operation src i (DeleteClip cid) b = apply_delete i cid b"
| "apply_operation src i (MoveClip cid after) b = apply_move i cid after b"
| "apply_operation src i (SetTrim cid spec) b =
     set_field i cid (\<lambda>c. ebind (check_trim src i (Some cid) (clip_unit_id c) spec)
       (\<lambda>t. Inr (\<lambda>c. c\<lparr>clip_trim := t\<rparr>))) b"
| "apply_operation src i (SetVolume cid v) b =
     set_field i cid (\<lambda>_. ebind (check_volume i (Some cid) v) (\<lambda>v. Inr (\<lambda>c. c\<lparr>source_volume := v\<rparr>))) b"
| "apply_operation src i (SetHold cid h) b =
     set_field i cid (\<lambda>_. ebind (check_hold i (Some cid) h) (\<lambda>h. Inr (\<lambda>c. c\<lparr>hold_us := h\<rparr>))) b"
| "apply_operation src i (SetReason cid r) b =
     set_field i cid (\<lambda>_. ebind (check_reason i (Some cid) r) (\<lambda>r. Inr (\<lambda>c. c\<lparr>clip_reason := r\<rparr>))) b"
| "apply_operation src i (SetTransition cid spec) b =
     ebind (position i cid ''clip'' b) (\<lambda>(p, b1).
     ebind (check_transition i (Some cid) spec) (\<lambda>tr.
     ebind (require_next i p tr b1) (\<lambda>_.
       Inr (replace_clip i p (\<lambda>c. c\<lparr>transition_to_next := tr\<rparr>) b1))))"
| "apply_operation src i (PlaceNarration cid) b = apply_place_narration src i cid b"
| "apply_operation src i (InsertBgm op) b = apply_insert_bgm src i op b"
| "apply_operation src i (SetBgm op) b = apply_set_bgm src i op b"
| "apply_operation src i (DeleteBgm cid) b = apply_delete_bgm i cid b"

fun apply_from :: "episode_sources \<Rightarrow> nat \<Rightarrow> timeline_operation list \<Rightarrow> batch \<Rightarrow> batch result" where
  "apply_from src i [] b = Inr b"
| "apply_from src i (op # ops) b =
     ebind (apply_operation src i op b) (\<lambda>b'. apply_from src (Suc i) ops b')"

section \<open>Checks on the whole batch\<close>

text \<open>\<open>effective_source_range_us\<close> and \<open>clip_source_duration_us\<close> of \<open>readout.py\<close>\<close>

definition effective_source_range_us :: "edit_clip \<Rightarrow> int option \<Rightarrow> int \<Rightarrow> int \<times> int" where
  "effective_source_range_us c version whole_us =
     (case (version, clip_trim c) of
        (Some v, Some t) \<Rightarrow>
          if basis_version t \<noteq> v then (0, whole_us)
          else let source_in = min (trim_in_us t) whole_us
               in (source_in, max source_in (min (trim_out_us t) whole_us))
      | _ \<Rightarrow> (0, whole_us))"

definition clip_source_duration_us :: "edit_clip \<Rightarrow> unit_media \<Rightarrow> int \<Rightarrow> int" where
  "clip_source_duration_us c m scripted_us =
     (let whole = (case um_video_duration_us m of Some d \<Rightarrow> d | None \<Rightarrow> scripted_us);
          (source_in, source_out) = effective_source_range_us c (um_video_version m) whole
      in source_out - source_in)"

definition clip_duration :: "episode_sources \<Rightarrow> edit_clip \<Rightarrow> int option" where
  "clip_duration src c =
     (case (source_unit src (clip_unit_id c), src_media src (clip_unit_id c)) of
        (Some u, Some m) \<Rightarrow> Some (clip_source_duration_us c m (scripted_duration_us u) + hold_us c)
      | _ \<Rightarrow> None)"

definition bgm_clip_length_us :: "bgm_clip \<Rightarrow> int" where
  "bgm_clip_length_us c = bgm_out_us c - bgm_in_us c"

definition transition_us :: "transition option \<Rightarrow> int" where
  "transition_us t = (case t of None \<Rightarrow> 0 | Some x \<Rightarrow> tr_duration_us x)"

text \<open>
  The window check of one clip: the loop body of \<open>check_transition_windows\<close>, with the clip
  before it, if any; the result is the operation to blame.
\<close>

definition window_violation ::
  "episode_sources \<Rightarrow> (string \<times> nat) list \<Rightarrow> edit_clip option \<Rightarrow> edit_clip \<Rightarrow> nat option" where
  "window_violation src ops previous c =
     (let owners = (case previous of None \<Rightarrow> [c] | Some p \<Rightarrow> [p, c]);
          indexes = List.map_filter (\<lambda>x. map_of ops (clip_id x)) owners;
          total_us = (case previous of None \<Rightarrow> 0 | Some p \<Rightarrow> transition_us (transition_to_next p))
                     + transition_us (transition_to_next c)
      in if indexes = [] then None
         else case clip_duration src c of
                None \<Rightarrow> None
              | Some d \<Rightarrow> if total_us = 0 \<or> total_us \<le> 2 * d then None else Some (Max (set indexes)))"

fun check_transition_windows ::
  "episode_sources \<Rightarrow> (string \<times> nat) list \<Rightarrow> edit_clip option \<Rightarrow> edit_clip list \<Rightarrow> unit result" where
  "check_transition_windows src ops previous [] = Inr ()"
| "check_transition_windows src ops previous (c # cs) =
     (case window_violation src ops previous c of
        Some i \<Rightarrow> Inl (invalid i (Some (clip_id c)) ''transition.duration'' TransitionWindow)
      | None \<Rightarrow> check_transition_windows src ops (Some c) cs)"

definition timeline_duration :: "episode_sources \<Rightarrow> edit_clip list \<Rightarrow> int" where
  "timeline_duration src cs = sum_list (List.map_filter (clip_duration src) cs)"

definition bgm_order :: "bgm_clip \<Rightarrow> int \<times> nat" where
  "bgm_order c = (bgm_start_us c, clip_number (bgm_clip_id c))"

fun check_bgm_starts :: "(string \<times> nat) list \<Rightarrow> int \<Rightarrow> bgm_clip list \<Rightarrow> unit result" where
  "check_bgm_starts ops total_us [] = Inr ()"
| "check_bgm_starts ops total_us (c # cs) =
     (case map_of ops (bgm_clip_id c) of
        None \<Rightarrow> check_bgm_starts ops total_us cs
      | Some i \<Rightarrow> if bgm_start_us c \<ge> total_us
                  then Inl (invalid i (Some (bgm_clip_id c)) ''start'' BgmStart)
                  else check_bgm_starts ops total_us cs)"

definition bgm_end :: "bgm_clip \<Rightarrow> int" where
  "bgm_end c = bgm_start_us c + bgm_clip_length_us c"

fun check_bgm_pairs :: "(string \<times> nat) list \<Rightarrow> (bgm_clip \<times> bgm_clip) list \<Rightarrow> unit result" where
  "check_bgm_pairs ops [] = Inr ()"
| "check_bgm_pairs ops ((previous, following) # rest) =
     (if bgm_end previous \<le> bgm_start_us following then check_bgm_pairs ops rest
      else let indexes = List.map_filter (\<lambda>x. map_of ops (bgm_clip_id x)) [previous, following];
               subject = (if map_of ops (bgm_clip_id following) \<noteq> None then following else previous);
               other = (if subject = following then previous else following)
           in if indexes = [] then check_bgm_pairs ops rest
              else Inl (invalid (Max (set indexes)) (Some (bgm_clip_id subject)) ''start''
                     (BgmOverlap (bgm_clip_id other))))"

definition check_bgm :: "episode_sources \<Rightarrow> batch \<Rightarrow> unit result" where
  "check_bgm src b =
     (let ops = b_last_operation b;
          touched = filter (\<lambda>c. map_of ops (bgm_clip_id c) \<noteq> None) (b_bgm b)
      in if touched = [] then Inr ()
         else ebind (check_bgm_starts ops (timeline_duration src (b_clips b)) touched)
                (\<lambda>_. check_bgm_pairs ops (pairwise (sort_key bgm_order (b_bgm b)))))"

definition finish_batch :: "batch \<Rightarrow> applied_batch result" where
  "finish_batch b =
     (let x = \<lparr>content_clips = b_clips b, content_bgm = sort_key bgm_order (b_bgm b)\<rparr>
      in if content_validators x
         then Inr \<lparr>ab_content = x, ab_next_clip_number = b_next_clip b,
                ab_next_bgm_number = b_next_bgm b, ab_targets = b_targets b,
                ab_referenced = b_referenced b, ab_last_operation = b_last_operation b\<rparr>
         else Inl ValidationError)"

definition apply_operations ::
  "edit_timeline_content \<Rightarrow> nat \<Rightarrow> timeline_operation list \<Rightarrow> episode_sources \<Rightarrow> nat \<Rightarrow> bool
    \<Rightarrow> applied_batch result" where
  "apply_operations x nc ops src nb check_windows =
     ebind (apply_from src 0 ops (init_batch x nc nb)) (\<lambda>b.
     ebind (if check_windows
            then ebind (check_transition_windows src (b_last_operation b) None (b_clips b))
                   (\<lambda>_. check_bgm src b)
            else Inr ()) (\<lambda>_. finish_batch b))"

end
