(* ===== verification/TimelineInv.thy ===== *)
theory TimelineInv
  imports TimelineOps
begin

text \<open>
  Every batch operation is a sequence of primitive changes to the batch state (\<open>prim\<close>), and each
  primitive keeps the identity invariants of the two tracks, the validity of every clip and the
  bookkeeping of touched clips.
\<close>

section \<open>Primitive changes\<close>

definition move_clip :: "nat \<Rightarrow> nat \<Rightarrow> nat \<Rightarrow> batch \<Rightarrow> batch" where
  "move_clip i p d b =
     (let b' = b\<lparr>b_clips := insert_at d (b_clips b ! p) (remove_at p (b_clips b))\<rparr>
      in if d \<noteq> p then touch i (clip_id (b_clips b ! p)) b' else b')"

inductive prim :: "nat \<Rightarrow> batch \<Rightarrow> batch \<Rightarrow> bool" for i where
  mark: "b_clips b' = b_clips b \<Longrightarrow> b_bgm b' = b_bgm b \<Longrightarrow> b_next_clip b' = b_next_clip b
     \<Longrightarrow> b_next_bgm b' = b_next_bgm b \<Longrightarrow> b_last_operation b' = b_last_operation b \<Longrightarrow> prim i b b'"
| repl: "p < length (b_clips b) \<Longrightarrow> clip_id (f (b_clips b ! p)) = clip_id (b_clips b ! p)
     \<Longrightarrow> (valid_clip (b_clips b ! p) \<Longrightarrow> valid_clip (f (b_clips b ! p)))
     \<Longrightarrow> prim i b (replace_clip i p f b)"
| ins: "clip_id c = make_clip_id (b_next_clip b) \<Longrightarrow> valid_clip c \<Longrightarrow> n \<le> length (b_clips b)
     \<Longrightarrow> prim i b (touch i (clip_id c)
           (b\<lparr>b_clips := insert_at n c (b_clips b), b_next_clip := b_next_clip b + 1\<rparr>))"
| rem: "p < length (b_clips b)
     \<Longrightarrow> prim i b (touch i (clip_id (b_clips b ! p)) (b\<lparr>b_clips := remove_at p (b_clips b)\<rparr>))"
| move: "p < length (b_clips b) \<Longrightarrow> d < length (b_clips b)
     \<Longrightarrow> prim i b (move_clip i p d b)"
| bgm_ins: "bgm_clip_id c = make_bgm_clip_id (b_next_bgm b) \<Longrightarrow> valid_bgm_clip c
     \<Longrightarrow> prim i b (touch i (bgm_clip_id c)
           (b\<lparr>b_next_bgm := b_next_bgm b + 1, b_bgm := b_bgm b @ [c]\<rparr>))"
| bgm_repl: "p < length (b_bgm b) \<Longrightarrow> bgm_clip_id c = bgm_clip_id (b_bgm b ! p)
     \<Longrightarrow> (valid_bgm_clip (b_bgm b ! p) \<Longrightarrow> valid_bgm_clip c)
     \<Longrightarrow> prim i b (touch i (bgm_clip_id c) (b\<lparr>b_bgm := (b_bgm b)[p := c]\<rparr>))"
| bgm_rem: "p < length (b_bgm b)
     \<Longrightarrow> prim i b (touch i (bgm_clip_id (b_bgm b ! p)) (b\<lparr>b_bgm := remove_at p (b_bgm b)\<rparr>))"

abbreviation prims :: "nat \<Rightarrow> batch \<Rightarrow> batch \<Rightarrow> bool" where
  "prims i \<equiv> (prim i)\<^sup>*\<^sup>*"

abbreviation touched_ids :: "batch \<Rightarrow> string set" where
  "touched_ids b \<equiv> dict_keys (b_last_operation b)"

definition track_inv :: "batch \<Rightarrow> bool" where
  "track_inv b = (1 \<le> b_next_clip b \<and> 1 \<le> b_next_bgm b
     \<and> distinct (map clip_id (b_clips b)) \<and> distinct (map bgm_clip_id (b_bgm b))
     \<and> (\<forall>c \<in> set (b_clips b). valid_clip c \<and> clip_number (clip_id c) < b_next_clip b)
     \<and> (\<forall>c \<in> set (b_bgm b). valid_bgm_clip c \<and> clip_number (bgm_clip_id c) < b_next_bgm b))"

text \<open>Clips no operation touched are the old ones, in the old order.\<close>

definition touched_sound :: "edit_timeline_content \<Rightarrow> batch \<Rightarrow> bool" where
  "touched_sound x b =
     (filter (\<lambda>c. clip_id c \<notin> touched_ids b) (b_clips b)
        = filter (\<lambda>c. clip_id c \<notin> touched_ids b) (content_clips x)
    \<and> filter (\<lambda>c. bgm_clip_id c \<notin> touched_ids b) (b_bgm b)
        = filter (\<lambda>c. bgm_clip_id c \<notin> touched_ids b) (content_bgm x))"

definition touched_wf :: "nat \<Rightarrow> batch \<Rightarrow> bool" where
  "touched_wf n b = ((\<forall>k \<in> touched_ids b. is_clip_id k \<or> is_bgm_clip_id k)
     \<and> (\<forall>k v. map_of (b_last_operation b) k = Some v \<longrightarrow> v < n))"

text \<open>New clips take fresh numbers: what is on the tracks is old or numbered from the allocator on.\<close>

definition fresh_from :: "edit_timeline_content \<Rightarrow> nat \<Rightarrow> nat \<Rightarrow> batch \<Rightarrow> bool" where
  "fresh_from x nc nb b = (nc \<le> b_next_clip b \<and> nb \<le> b_next_bgm b
     \<and> (\<forall>c \<in> set (b_clips b). clip_id c \<in> clip_id ` set (content_clips x) \<or> nc \<le> clip_number (clip_id c))
     \<and> (\<forall>c \<in> set (b_bgm b). bgm_clip_id c \<in> bgm_clip_id ` set (content_bgm x)
           \<or> nb \<le> clip_number (bgm_clip_id c)))"

lemma touch_simps [simp]:
  "b_clips (touch i k b) = b_clips b" "b_bgm (touch i k b) = b_bgm b"
  "b_next_clip (touch i k b) = b_next_clip b" "b_next_bgm (touch i k b) = b_next_bgm b"
  "b_last_operation (touch i k b) = dict_set k i (b_last_operation b)"
  by (simp_all add: touch_def)

lemma replace_clip_simps [simp]:
  "b_clips (replace_clip i p f b) = (b_clips b)[p := f (b_clips b ! p)]"
  "b_bgm (replace_clip i p f b) = b_bgm b"
  "b_next_clip (replace_clip i p f b) = b_next_clip b"
  "b_next_bgm (replace_clip i p f b) = b_next_bgm b"
  "b_last_operation (replace_clip i p f b) =
     (if f (b_clips b ! p) \<noteq> b_clips b ! p
      then dict_set (clip_id (f (b_clips b ! p))) i (b_last_operation b) else b_last_operation b)"
  by (auto simp: replace_clip_def Let_def)

lemma move_clip_simps [simp]:
  "b_clips (move_clip i p d b) = insert_at d (b_clips b ! p) (remove_at p (b_clips b))"
  "b_bgm (move_clip i p d b) = b_bgm b" "b_next_clip (move_clip i p d b) = b_next_clip b"
  "b_next_bgm (move_clip i p d b) = b_next_bgm b"
  "b_last_operation (move_clip i p d b) = (if d \<noteq> p
      then dict_set (clip_id (b_clips b ! p)) i (b_last_operation b) else b_last_operation b)"
  by (simp_all add: move_clip_def Let_def)

lemma distinct_list_update_key:
  "distinct (map f xs) \<Longrightarrow> p < length xs \<Longrightarrow> f y = f (xs ! p) \<Longrightarrow> distinct (map f (xs[p := y]))"
  by (simp add: map_update) (metis list_update_id nth_map)

lemma set_list_update_cases: "c \<in> set (xs[p := y]) \<Longrightarrow> c \<in> set xs \<or> c = y"
  by (metis in_mono insert_iff set_update_subset_insert sup_commute)

lemma mem_list_update_other:
  "c \<in> set xs \<Longrightarrow> p < length xs \<Longrightarrow> c \<noteq> xs ! p \<Longrightarrow> c \<in> set (xs[p := y])"
  by (metis in_set_conv_nth length_list_update nth_list_update_neq)

lemma mem_insert_remove: "p < length xs \<Longrightarrow> set (insert_at d (xs ! p) (remove_at p xs)) = set xs"
  by (metis remove_at_decomp set_insert_at)

lemma distinct_map_move:
  assumes "distinct (map f xs)" "p < length xs"
  shows "distinct (map f (insert_at d (xs ! p) (remove_at p xs)))"
proof -
  have "map f (insert_at d (xs ! p) (remove_at p xs)) = insert_at d (f (xs ! p)) (remove_at p (map f xs))"
    by (simp add: map_insert_at map_remove_at)
  moreover have "distinct (insert_at p (map f xs ! p) (remove_at p (map f xs)))"
    using remove_at_decomp [of p "map f xs"] assms by simp
  ultimately show ?thesis using assms by simp
qed

lemma distinct_map_remove: "distinct (map f xs) \<Longrightarrow> distinct (map f (remove_at p xs))"
  by (simp add: map_remove_at distinct_remove_at)

lemma mem_remove_at:
  assumes "distinct xs" "p < length xs"
  shows "c \<in> set (remove_at p xs) \<longleftrightarrow> c \<in> set xs \<and> c \<noteq> xs ! p"
  using set_remove_at_distinct [OF assms] by auto

section \<open>Primitives keep the invariants\<close>

lemma prim_track_inv: "prim i b b' \<Longrightarrow> track_inv b \<Longrightarrow> track_inv b'"
proof (induction rule: prim.induct)
  case (repl p b f)
  have "valid_clip (f (b_clips b ! p))" using repl by (auto simp: track_inv_def)
  moreover have "clip_number (clip_id (f (b_clips b ! p))) < b_next_clip b"
    using repl nth_mem [of p "b_clips b"] by (auto simp: track_inv_def)
  ultimately show ?case
    using repl unfolding track_inv_def
    by (auto simp: distinct_list_update_key dest!: set_list_update_cases)
next
  case (ins c b n)
  have "make_clip_id (b_next_clip b) \<notin> clip_id ` set (b_clips b)"
    using ins.prems by (auto simp: track_inv_def) (metis clip_number_make less_irrefl)
  then show ?case
    using ins unfolding track_inv_def by (auto simp: map_insert_at less_Suc_eq)
next
  case (rem p b)
  then show ?case
    using set_remove_at_subset [of p "b_clips b"]
    by (auto simp: track_inv_def distinct_map_remove)
next
  case (move p b d)
  then show ?case by (auto simp: track_inv_def distinct_map_move mem_insert_remove simp del: set_insert_at)
next
  case (bgm_ins c b)
  have "make_bgm_clip_id (b_next_bgm b) \<notin> bgm_clip_id ` set (b_bgm b)"
    using bgm_ins.prems by (auto simp: track_inv_def) (metis clip_number_make_bgm less_irrefl)
  then show ?case
    using bgm_ins unfolding track_inv_def by (auto simp: less_Suc_eq)
next
  case (bgm_repl p b c)
  have "valid_bgm_clip c" using bgm_repl by (auto simp: track_inv_def)
  moreover have "clip_number (bgm_clip_id c) < b_next_bgm b"
    using bgm_repl nth_mem [of p "b_bgm b"] by (auto simp: track_inv_def)
  ultimately show ?case
    using bgm_repl unfolding track_inv_def
    by (auto simp: distinct_list_update_key dest!: set_list_update_cases)
next
  case (bgm_rem p b)
  then show ?case
    using set_remove_at_subset [of p "b_bgm b"]
    by (auto simp: track_inv_def distinct_map_remove)
qed (auto simp: track_inv_def)

lemma filter_insert_at: "\<not> P c \<Longrightarrow> filter P (insert_at n c xs) = filter P xs"
  unfolding insert_at_def by (metis append_take_drop_id filter.simps(2) filter_append)

lemma filter_remove_at: "p < length xs \<Longrightarrow> \<not> P (xs ! p) \<Longrightarrow> filter P (remove_at p xs) = filter P xs"
  by (metis filter_insert_at remove_at_decomp)

lemma filter_update:
  assumes "p < length xs" "\<not> P (xs ! p)" "\<not> P y"
  shows "filter P (xs[p := y]) = filter P xs"
proof -
  have "xs[p := y] = insert_at p y (remove_at p xs)"
    using assms(1) by (simp add: insert_at_def remove_at_def upd_conv_take_nth_drop min_def)
  then show ?thesis using assms by (simp add: filter_insert_at filter_remove_at)
qed

lemma prim_touched_mono: "prim i b b' \<Longrightarrow> touched_ids b \<subseteq> touched_ids b'"
  by (induction rule: prim.induct) (auto simp: dict_simps Let_def)

lemma touched_sound_step:
  assumes "touched_sound x b" "touched_ids b \<subseteq> touched_ids b'"
    and "filter (\<lambda>c. clip_id c \<notin> touched_ids b') (b_clips b') = filter (\<lambda>c. clip_id c \<notin> touched_ids b') (b_clips b)"
    and "filter (\<lambda>c. bgm_clip_id c \<notin> touched_ids b') (b_bgm b') = filter (\<lambda>c. bgm_clip_id c \<notin> touched_ids b') (b_bgm b)"
  shows "touched_sound x b'"
  using assms filter_narrow [of clip_id "touched_ids b" _ _ "touched_ids b'"]
    filter_narrow [of bgm_clip_id "touched_ids b" _ _ "touched_ids b'"]
  unfolding touched_sound_def by metis

lemma prim_untouched_order:
  "prim i b b' \<Longrightarrow>
     filter (\<lambda>c. clip_id c \<notin> touched_ids b') (b_clips b') = filter (\<lambda>c. clip_id c \<notin> touched_ids b') (b_clips b)
   \<and> filter (\<lambda>c. bgm_clip_id c \<notin> touched_ids b') (b_bgm b') = filter (\<lambda>c. bgm_clip_id c \<notin> touched_ids b') (b_bgm b)"
proof (induction rule: prim.induct)
  case (repl p b f)
  show ?case
  proof (cases "f (b_clips b ! p) = b_clips b ! p")
    case False
    then show ?thesis using repl by (auto simp: dict_simps intro!: filter_update)
  qed simp
next
  case (move p b d)
  show ?case
  proof (cases "d = p")
    case True
    then show ?thesis using move remove_at_decomp [of p "b_clips b"] by (simp add: Let_def)
  next
    case False
    then show ?thesis
      using move by (simp add: Let_def dict_simps filter_insert_at filter_remove_at)
  qed
qed (auto simp: dict_simps filter_insert_at intro!: filter_remove_at filter_update)

lemma prim_touched_sound: "prim i b b' \<Longrightarrow> touched_sound x b \<Longrightarrow> touched_sound x b'"
  using touched_sound_step prim_touched_mono prim_untouched_order by blast

lemma prim_touched_wf:
  "prim i b b' \<Longrightarrow> track_inv b \<Longrightarrow> touched_wf n b \<Longrightarrow> i < n \<Longrightarrow> touched_wf n b'"
  by (induction rule: prim.induct)
    (auto simp: touched_wf_def dict_simps track_inv_def valid_clip_def valid_bgm_clip_def
      is_clip_id_make is_bgm_clip_id_make split: if_splits)

lemma prim_fresh_from: "prim i b b' \<Longrightarrow> fresh_from x nc nb b \<Longrightarrow> fresh_from x nc nb b'"
proof (induction rule: prim.induct)
  case (repl p b f)
  then show ?case
    unfolding fresh_from_def by (auto dest!: set_list_update_cases) (metis nth_mem)+
next
  case (rem p b)
  then show ?case
    using set_remove_at_subset [of p "b_clips b"] unfolding fresh_from_def by auto
next
  case (move p b d)
  then show ?case by (simp add: fresh_from_def mem_insert_remove del: set_insert_at)
next
  case (bgm_repl p b c)
  then show ?case
    unfolding fresh_from_def by (auto dest!: set_list_update_cases) (metis nth_mem)+
next
  case (bgm_rem p b)
  then show ?case
    using set_remove_at_subset [of p "b_bgm b"] unfolding fresh_from_def by auto
qed (auto simp: fresh_from_def)

lemma prims_track_inv: "prims i b b' \<Longrightarrow> track_inv b \<Longrightarrow> track_inv b'"
  by (induction rule: rtranclp_induct) (auto intro: prim_track_inv)

lemma prims_touched_sound:
  "prims i b b' \<Longrightarrow> track_inv b \<Longrightarrow> touched_sound x b \<Longrightarrow> touched_sound x b'"
  by (induction rule: rtranclp_induct) (auto intro: prim_touched_sound prims_track_inv)

lemma prims_touched_wf:
  "prims i b b' \<Longrightarrow> track_inv b \<Longrightarrow> touched_wf n b \<Longrightarrow> i < n \<Longrightarrow> touched_wf n b'"
  by (induction rule: rtranclp_induct) (auto intro: prim_touched_wf prims_track_inv)

lemma prims_fresh_from: "prims i b b' \<Longrightarrow> fresh_from x nc nb b \<Longrightarrow> fresh_from x nc nb b'"
  by (induction rule: rtranclp_induct) (auto intro: prim_fresh_from)

section \<open>Loops that replace clips\<close>

abbreviation rw_step ::
  "nat \<Rightarrow> (nat \<Rightarrow> edit_clip \<Rightarrow> bool) \<Rightarrow> (edit_clip \<Rightarrow> edit_clip) \<Rightarrow> batch \<Rightarrow> nat \<Rightarrow> batch" where
  "rw_step i P f \<equiv> \<lambda>b q. if P q (b_clips b ! q) then replace_clip i q f b else b"

lemma replace_where_steps:
  assumes "n \<le> length (b_clips b)"
  shows "length (b_clips (foldl (rw_step i P f) b [0..<n])) = length (b_clips b)
     \<and> (\<forall>q < length (b_clips b). b_clips (foldl (rw_step i P f) b [0..<n]) ! q =
          (if q < n \<and> P q (b_clips b ! q) then f (b_clips b ! q) else b_clips b ! q))"
  using assms
proof (induction n)
  case (Suc n)
  then show ?case by (auto simp: nth_list_update less_Suc_eq)
qed simp

lemma replace_where_prims:
  assumes "\<And>c. clip_id (f c) = clip_id c" "\<And>c. valid_clip c \<Longrightarrow> valid_clip (f c)"
  shows "prims i b (replace_where i P f b)"
proof -
  have "prims i b (foldl (rw_step i P f) b [0..<n])" if "n \<le> length (b_clips b)" for n
    using that
  proof (induction n)
    case (Suc n)
    let ?m = "foldl (rw_step i P f) b [0..<n]"
    have "n < length (b_clips ?m)"
      using Suc.prems replace_where_steps [where n = n and b = b and i = i and P = P and f = f]
      by simp
    then have "prim i ?m (replace_clip i n f ?m)"
      using assms by (intro prim.repl) auto
    then show ?case using Suc by (auto intro: rtranclp.rtrancl_into_rtrancl)
  qed simp
  then show ?thesis by (simp add: replace_where_def)
qed

lemma replace_where_frame [simp]:
  "b_bgm (replace_where i P f b) = b_bgm b"
  "b_next_clip (replace_where i P f b) = b_next_clip b"
  "b_next_bgm (replace_where i P f b) = b_next_bgm b"
proof -
  have "b_bgm (foldl (rw_step i P f) b qs) = b_bgm b
      \<and> b_next_clip (foldl (rw_step i P f) b qs) = b_next_clip b
      \<and> b_next_bgm (foldl (rw_step i P f) b qs) = b_next_bgm b" for qs
    by (induction qs arbitrary: b) auto
  then show "b_bgm (replace_where i P f b) = b_bgm b"
    "b_next_clip (replace_where i P f b) = b_next_clip b"
    "b_next_bgm (replace_where i P f b) = b_next_bgm b"
    unfolding replace_where_def by blast+
qed

lemma replace_where_clips_at:
  "b_clips (replace_where i P f b) =
     map (\<lambda>q. if P q (b_clips b ! q) then f (b_clips b ! q) else b_clips b ! q) [0..<length (b_clips b)]"
  using replace_where_steps [where n = "length (b_clips b)" and b = b and i = i and P = P and f = f]
  by (auto simp: replace_where_def intro!: nth_equalityI)

lemma replace_where_clips:
  "b_clips (replace_where i (\<lambda>_. P) f b) = map (\<lambda>c. if P c then f c else c) (b_clips b)"
  unfolding replace_where_clips_at by (rule nth_equalityI) auto

lemma clear_transition_simps [simp]:
  "clip_id (clear_transition c) = clip_id c" "clip_unit_id (clear_transition c) = clip_unit_id c"
  "carries_narration (clear_transition c) = carries_narration c"
  "transition_to_next (clear_transition c) = None"
  by (simp_all add: clear_transition_def)

lemma set_carrier_simps [simp]:
  "clip_id (set_carrier v c) = clip_id c" "clip_unit_id (set_carrier v c) = clip_unit_id c"
  "carries_narration (set_carrier v c) = v" "transition_to_next (set_carrier v c) = transition_to_next c"
  by (simp_all add: set_carrier_def)

lemma valid_clip_fields:
  "valid_clip c \<Longrightarrow> valid_clip (clear_transition c)"
  "valid_clip c \<Longrightarrow> valid_clip (set_carrier v c)"
  by (simp_all add: valid_clip_def clear_transition_def set_carrier_def)

lemma reset_broken_cuts_prims: "prims i b (reset_broken_cuts i before b)"
  unfolding reset_broken_cuts_def Let_def
  by (rule replace_where_prims) (simp_all add: valid_clip_fields)

lemma reset_broken_cuts_clips:
  "b_clips (reset_broken_cuts i before b) =
     map (\<lambda>c. if broken_cut before (next_ids (b_clips b)) c then clear_transition c else c) (b_clips b)"
  unfolding reset_broken_cuts_def Let_def by (rule replace_where_clips)

section \<open>Checks return valid fields\<close>

lemma valid_sources_dest:
  assumes "valid_sources src" "src_media src u = Some m"
  shows "um_video_version m = Some v \<Longrightarrow> 1 \<le> v"
    and "um_video_duration_us m = Some d \<Longrightarrow> 0 \<le> d"
    and "um_narration_duration_us m = Some n \<Longrightarrow> 0 \<le> n"
  using assms unfolding valid_sources_def by (metis option.pred_inject(2))+

lemma check_trim_valid:
  assumes "check_trim src i cid u spec = Inr t" "valid_sources src"
  shows "pred_option valid_trim t"
proof (cases spec)
  case None
  then show ?thesis using assms by (simp add: check_trim_def)
next
  case (Some sp)
  with assms obtain v w where cv: "current_video src i cid u = Inr (v, w)"
    by (auto simp: check_trim_def result_simps)
  then have "1 \<le> v"
    using valid_sources_dest(1) [OF assms(2)]
    by (auto simp: current_video_def split: option.splits)
  moreover have "0 \<le> spec_source_in sp \<Longrightarrow> 0 \<le> seconds_to_microseconds (spec_source_in sp)"
    by (rule seconds_to_microseconds_nonneg)
  ultimately show ?thesis
    using assms Some cv by (auto simp: check_trim_def Let_def valid_trim_def split: if_splits)
qed

lemma check_hold_valid: "check_hold i cid v = Inr h \<Longrightarrow> 0 \<le> h"
  by (auto simp: check_hold_def seconds_to_microseconds_nonneg split: if_splits)

lemma check_volume_valid: "check_volume i cid v = Inr w \<Longrightarrow> valid_volume w"
  by (auto simp: check_volume_def valid_volume_def split: if_splits)

lemma microseconds_to_seconds_nonneg: "0 \<le> us \<Longrightarrow> 0 \<le> microseconds_to_seconds us"
  by (simp add: microseconds_to_seconds_def py_round3_def py_round_nonneg)

lemma check_transition_valid: "check_transition i cid sp = Inr t \<Longrightarrow> pred_option valid_transition t"
  using microseconds_to_seconds_nonneg [of 100000]
  by (auto simp: check_transition_def valid_transition_def split: option.splits if_splits
      intro!: seconds_to_microseconds_nonneg)

lemma default_source_volume_valid: "valid_volume (default_source_volume m)"
  by (simp add: default_source_volume_def valid_volume_def)

lemma seconds_at_least_zero_valid: "seconds_at_least_zero i cid fld v = Inr us \<Longrightarrow> 0 \<le> us"
  by (auto simp: seconds_at_least_zero_def seconds_to_microseconds_nonneg split: if_splits)

lemma check_bgm_volume_valid: "check_bgm_volume i cid v = Inr w \<Longrightarrow> valid_volume w"
  by (auto simp: check_bgm_volume_def valid_volume_def split: if_splits)

lemma bgm_range_valid:
  assumes "bgm_range src i cid ref s_in s_out = Inr (a, z)" "valid_sources src"
  shows "0 \<le> a \<and> a < z \<and> ref \<noteq> []"
proof -
  from assms obtain w where w: "bgm_duration src i cid ref = Inr w"
    by (auto simp: bgm_range_def result_simps)
  then have "0 < w \<and> ref \<noteq> []"
    using assms(2) by (auto simp: bgm_duration_def valid_sources_def split: option.splits)
  moreover have "0 \<le> s_in \<Longrightarrow> 0 \<le> seconds_to_microseconds s_in"
    by (rule seconds_to_microseconds_nonneg)
  ultimately show ?thesis
    using assms(1) w by (auto simp: bgm_range_def Let_def min_def not_le split: if_splits)
qed

section \<open>Operations are sequences of primitive changes\<close>

lemma position_SomeD:
  assumes "position i cid fld b = Inr (p, b')"
  shows "p < length (b_clips b)" "clip_id (b_clips b ! p) = cid" "b_clips b' = b_clips b"
    "b_bgm b' = b_bgm b" "b_next_clip b' = b_next_clip b" "b_next_bgm b' = b_next_bgm b"
    "b_last_operation b' = b_last_operation b"
  using assms find_index_SomeD [of "\<lambda>c. clip_id c = cid" "b_clips b" p]
  by (auto simp: position_def Let_def split: option.splits)

lemma position_prim: "position i cid fld b = Inr (p, b') \<Longrightarrow> prim i b b'"
  by (rule prim.mark) (auto dest: position_SomeD)

lemma insertion_point_SomeD:
  assumes "insertion_point i after b = Inr (p, b')"
  shows "p \<le> length (b_clips b)" "b_clips b' = b_clips b"
    "b_bgm b' = b_bgm b" "b_next_clip b' = b_next_clip b" "b_next_bgm b' = b_next_bgm b"
    "b_last_operation b' = b_last_operation b"
proof -
  have "p \<le> length (b_clips b) \<and> b_clips b' = b_clips b \<and> b_bgm b' = b_bgm b
    \<and> b_next_clip b' = b_next_clip b \<and> b_next_bgm b' = b_next_bgm b
    \<and> b_last_operation b' = b_last_operation b"
  proof (cases after)
    case None
    then show ?thesis using assms by (simp add: insertion_point_def)
  next
    case (Some cid)
    with assms obtain q where "position i cid ''after'' b = Inr (q, b')" "p = Suc q"
      by (auto simp: insertion_point_def result_simps)
    then show ?thesis using position_SomeD [of i cid "''after''" b q b'] by auto
  qed
  then show "p \<le> length (b_clips b)" "b_clips b' = b_clips b"
    "b_bgm b' = b_bgm b" "b_next_clip b' = b_next_clip b" "b_next_bgm b' = b_next_bgm b"
    "b_last_operation b' = b_last_operation b" by blast+
qed

lemma insertion_point_prim: "insertion_point i after b = Inr (p, b') \<Longrightarrow> prim i b b'"
  by (rule prim.mark) (auto dest: insertion_point_SomeD)

lemma bgm_position_SomeD:
  assumes "bgm_position i cid b = Inr (p, b')"
  shows "p < length (b_bgm b)" "bgm_clip_id (b_bgm b ! p) = cid" "b_clips b' = b_clips b"
    "b_bgm b' = b_bgm b" "b_next_clip b' = b_next_clip b" "b_next_bgm b' = b_next_bgm b"
    "b_last_operation b' = b_last_operation b"
  using assms find_index_SomeD [of "\<lambda>c. bgm_clip_id c = cid" "b_bgm b" p]
  by (auto simp: bgm_position_def Let_def split: option.splits)

lemma bgm_position_prim: "bgm_position i cid b = Inr (p, b') \<Longrightarrow> prim i b b'"
  by (rule prim.mark) (auto dest: bgm_position_SomeD)

lemma prim_ins_eq:
  assumes "b' = touch i k (b\<lparr>b_clips := insert_at n c (b_clips b), b_next_clip := Suc (b_next_clip b)\<rparr>)"
    and "clip_id c = k" "k = make_clip_id (b_next_clip b)" "valid_clip c" "n \<le> length (b_clips b)"
  shows "prim i b b'"
  using prim.ins [of c b n i] assms by simp

lemma prim_bgm_ins_eq:
  assumes "b' = touch i k (b\<lparr>b_next_bgm := Suc (b_next_bgm b), b_bgm := b_bgm b @ [c]\<rparr>)"
    and "bgm_clip_id c = k" "k = make_bgm_clip_id (b_next_bgm b)" "valid_bgm_clip c"
  shows "prim i b b'"
  using prim.bgm_ins [of c b i] assms by simp

lemma prim_bgm_repl_eq:
  assumes "b' = touch i (bgm_clip_id c) (b\<lparr>b_bgm := (b_bgm b)[p := c]\<rparr>)"
    and "p < length (b_bgm b)" "bgm_clip_id c = bgm_clip_id (b_bgm b ! p)"
    and "valid_bgm_clip (b_bgm b ! p) \<Longrightarrow> valid_bgm_clip c"
  shows "prim i b b'"
  unfolding assms(1) by (rule prim.bgm_repl) (rule assms(2-4), assumption?)+

lemma set_field_prims:
  assumes "set_field i cid check b = Inr b'"
    and "\<And>c f. check c = Inr f \<Longrightarrow> clip_id (f c) = clip_id c \<and> (valid_clip c \<longrightarrow> valid_clip (f c))"
  shows "prims i b b'"
proof -
  from assms(1) obtain p b1 f where p: "position i cid ''clip'' b = Inr (p, b1)"
    and f: "check (b_clips b1 ! p) = Inr f" and b': "b' = replace_clip i p f b1"
    by (auto simp: set_field_def result_simps)
  have "prim i b1 b'"
    unfolding b' using assms(2) [OF f] position_SomeD [OF p] by (intro prim.repl) auto
  with position_prim [OF p] show ?thesis by auto
qed

lemma apply_insert_prims:
  assumes op: "apply_insert src i op b = Inr b'" and src: "valid_sources src"
    and pos: "1 \<le> b_next_clip b"
  shows "prims i b b'"
proof -
  from op obtain u tr vol hold why trans p b1 where
    u: "source_unit src (ic_unit_id op) = Some u"
    and tr: "check_trim src i None (su_unit_id u) (ic_trim op) = Inr tr"
    and vol: "(case ic_source_volume op of Some v \<Rightarrow> check_volume i None v
                | None \<Rightarrow> Inr (default_source_volume (su_speech_mode u))) = Inr vol"
    and hold: "check_hold i None (ic_hold op) = Inr hold"
    and trans: "check_transition i None (ic_transition_to_next op) = Inr trans"
    and p: "insertion_point i (ic_after op) b = Inr (p, b1)"
    and b': "b' = reset_broken_cuts i (next_ids (b_clips b))
      (touch i (make_clip_id (b_next_clip b)) (b1\<lparr>b_clips := insert_at p
         \<lparr>clip_id = make_clip_id (b_next_clip b), clip_unit_id = su_unit_id u, clip_trim = tr,
          source_volume = vol, hold_us = hold,
          carries_narration = \<not> unit_has_carrier (su_unit_id u) (b_clips b), clip_reason = why,
          transition_to_next = trans\<rparr> (b_clips b1), b_next_clip := b_next_clip b1 + 1\<rparr>))"
    by (auto simp: apply_insert_def result_simps Let_def split: option.splits prod.splits)
  let ?c = "\<lparr>clip_id = make_clip_id (b_next_clip b), clip_unit_id = su_unit_id u, clip_trim = tr,
          source_volume = vol, hold_us = hold,
          carries_narration = \<not> unit_has_carrier (su_unit_id u) (b_clips b), clip_reason = why,
          transition_to_next = trans\<rparr>"
  note b1 = insertion_point_SomeD [OF p]
  have "su_unit_id u \<noteq> []"
    using src source_unit_SomeD(1) [OF u] by (auto simp: valid_sources_def list_all_iff)
  moreover have "valid_volume vol"
    using vol by (auto split: option.splits intro: check_volume_valid default_source_volume_valid)
  ultimately have valid: "valid_clip ?c"
    using pos check_trim_valid [OF tr src] check_hold_valid [OF hold] check_transition_valid [OF trans]
    by (simp add: valid_clip_def is_clip_id_make)
  let ?b2 = "touch i (make_clip_id (b_next_clip b))
      (b1\<lparr>b_clips := insert_at p ?c (b_clips b1), b_next_clip := b_next_clip b1 + 1\<rparr>)"
  have "prim i b1 ?b2"
    by (rule prim_ins_eq [where k = "make_clip_id (b_next_clip b)" and c = ?c and n = p])
      (use b1 valid in simp_all)
  moreover have "prims i ?b2 b'" unfolding b' by (rule reset_broken_cuts_prims)
  ultimately show ?thesis
    using insertion_point_prim [OF p] by (meson converse_rtranclp_into_rtranclp)
qed

lemma apply_place_narration_prims:
  assumes "apply_place_narration src i cid b = Inr b'"
  shows "prims i b b'"
proof -
  from assms obtain p b1 where p: "position i cid ''clip'' b = Inr (p, b1)"
    and b': "b' = replace_clip i p (set_carrier True)
       (replace_where i (\<lambda>q c. clip_unit_id c = clip_unit_id (b_clips b1 ! p) \<and> q \<noteq> p)
          (set_carrier False) b1)"
    by (auto simp: apply_place_narration_def result_simps Let_def split: if_splits)
  let ?m = "replace_where i (\<lambda>q c. clip_unit_id c = clip_unit_id (b_clips b1 ! p) \<and> q \<noteq> p)
          (set_carrier False) b1"
  have "prims i b1 ?m" by (rule replace_where_prims) (simp_all add: valid_clip_fields)
  moreover have "prim i ?m b'"
    unfolding b' using position_SomeD [OF p]
    by (intro prim.repl) (auto simp: replace_where_clips_at valid_clip_fields)
  ultimately show ?thesis
    using position_prim [OF p] by (meson converse_rtranclp_into_rtranclp rtranclp.rtrancl_into_rtrancl)
qed

lemma apply_delete_prims:
  assumes "apply_delete i cid b = Inr b'"
  shows "prims i b b'"
proof -
  from assms obtain p b1 where p: "position i cid ''clip'' b = Inr (p, b1)"
    by (auto simp: apply_delete_def result_simps)
  note b1 = position_SomeD [OF p]
  define b2 where "b2 = touch i (clip_id (b_clips b1 ! p)) (b1\<lparr>b_clips := remove_at p (b_clips b1)\<rparr>)"
  define b3 where "b3 = (if carries_narration (b_clips b1 ! p)
      then (case find_index (\<lambda>c. clip_unit_id c = clip_unit_id (b_clips b1 ! p)) (b_clips b2) of
              None \<Rightarrow> b2 | Some heir \<Rightarrow> replace_clip i heir (set_carrier True) b2) else b2)"
  have b': "b' = reset_broken_cuts i (next_ids (b_clips b1)) b3"
    using assms p unfolding apply_delete_def b3_def b2_def Let_def by auto
  have "prim i b1 b2" unfolding b2_def by (rule prim.rem) (use b1 in simp)
  moreover have "prims i b2 b3"
    by (auto simp: b3_def valid_clip_fields dest!: find_index_SomeD(1)
        split: option.splits intro!: r_into_rtranclp prim.repl)
  ultimately show ?thesis
    unfolding b' using position_prim [OF p]
    by (meson converse_rtranclp_into_rtranclp reset_broken_cuts_prims rtranclp_trans)
qed

lemma apply_move_prims:
  assumes "apply_move i cid after b = Inr b'"
  shows "prims i b b'"
proof -
  from assms obtain p b1 d b3 where p: "position i cid ''clip'' b = Inr (p, b1)"
    and d: "insertion_point i after (b1\<lparr>b_clips := remove_at p (b_clips b1)\<rparr>) = Inr (d, b3)"
    and b': "b' = reset_broken_cuts i (next_ids (b_clips b1))
      (let b4 = b3\<lparr>b_clips := insert_at d (b_clips b1 ! p) (b_clips b3)\<rparr>
       in if d \<noteq> p then touch i (clip_id (b_clips b1 ! p)) b4 else b4)"
    by (auto simp: apply_move_def result_simps Let_def split: if_splits)
  note b1 = position_SomeD [OF p] and b3 = insertion_point_SomeD [OF d]
  let ?m = "b3\<lparr>b_clips := b_clips b1\<rparr>"
  have "prim i b1 ?m" by (rule prim.mark) (use b3 in auto)
  moreover have "prim i ?m (let b4 = b3\<lparr>b_clips := insert_at d (b_clips b1 ! p) (b_clips b3)\<rparr>
       in if d \<noteq> p then touch i (clip_id (b_clips b1 ! p)) b4 else b4)"
    using prim.move [of p ?m d i] b1 b3 by (cases "d = p") (simp_all add: Let_def move_clip_def)
  ultimately have "prims i b1 (if d \<noteq> p
      then touch i (clip_id (b_clips b1 ! p)) (b3\<lparr>b_clips := insert_at d (b_clips b1 ! p) (b_clips b3)\<rparr>)
      else b3\<lparr>b_clips := insert_at d (b_clips b1 ! p) (b_clips b3)\<rparr>)"
    unfolding Let_def by (meson converse_rtranclp_into_rtranclp r_into_rtranclp)
  then show ?thesis
    unfolding b' Let_def using position_prim [OF p]
    by (meson converse_rtranclp_into_rtranclp reset_broken_cuts_prims rtranclp_trans)
qed

lemma apply_insert_bgm_prims:
  assumes op: "apply_insert_bgm src i op b = Inr b'" and src: "valid_sources src"
    and pos: "1 \<le> b_next_bgm b"
  shows "prims i b b'"
proof -
  from op obtain a z start vol fin fout where
    rng: "bgm_range src i None (ib_bgm_id op) (ib_source_in op) (ib_source_out op) = Inr (a, z)"
    and checks: "seconds_at_least_zero i None ''start'' (ib_start op) = Inr start"
      "check_bgm_volume i None (ib_volume op) = Inr vol"
      "seconds_at_least_zero i None ''fade_in'' (ib_fade_in op) = Inr fin"
      "seconds_at_least_zero i None ''fade_out'' (ib_fade_out op) = Inr fout"
    and b': "b' = touch i (make_bgm_clip_id (b_next_bgm b)) (b\<lparr>b_next_bgm := b_next_bgm b + 1,
       b_bgm := b_bgm b @ [\<lparr>bgm_clip_id = make_bgm_clip_id (b_next_bgm b), bgm_ref = ib_bgm_id op,
             bgm_start_us = start, bgm_in_us = a, bgm_out_us = z, bgm_volume = vol,
             bgm_fade_in_us = fin, bgm_fade_out_us = fout\<rparr>]\<rparr>)"
    by (auto simp: apply_insert_bgm_def Let_def elim!: ebindE)
  have "0 \<le> a \<and> a < z \<and> ib_bgm_id op \<noteq> []" by (rule bgm_range_valid [OF rng src])
  moreover have "0 \<le> start" "0 \<le> fin" "0 \<le> fout" "valid_volume vol"
    using checks by (blast intro: seconds_at_least_zero_valid check_bgm_volume_valid)+
  ultimately have "valid_bgm_clip \<lparr>bgm_clip_id = make_bgm_clip_id (b_next_bgm b),
      bgm_ref = ib_bgm_id op, bgm_start_us = start, bgm_in_us = a, bgm_out_us = z, bgm_volume = vol,
      bgm_fade_in_us = fin, bgm_fade_out_us = fout\<rparr>"
    using pos by (simp add: valid_bgm_clip_def is_bgm_clip_id_make)
  then have "prim i b b'"
    unfolding b' by (intro prim_bgm_ins_eq [OF _ _ refl]) simp_all
  then show ?thesis by (rule r_into_rtranclp)
qed

lemma optional_or_else:
  assumes "optional x f = Inr y" "\<And>a v. f a = Inr v \<Longrightarrow> P v" "P d"
  shows "P (or_else y d)"
  using assms by (auto simp: optional_def or_else_def result_simps split: option.splits)

lemma apply_set_bgm_prims:
  assumes op: "apply_set_bgm src i op b = Inr b'" and src: "valid_sources src"
  shows "prims i b b'"
proof -
  let ?cid = "sb_clip op"
  obtain p b1 where p: "bgm_position i ?cid b = Inr (p, b1)"
    using op by (auto simp: apply_set_bgm_def Let_def elim!: ebindE)
  let ?cur = "b_bgm b1 ! p"
  obtain a z start vol fin fout where
    rng: "(if sb_source_in op \<noteq> None \<or> sb_source_out op \<noteq> None
            then bgm_range src i (Some ?cid) (bgm_ref ?cur)
                   (or_else (sb_source_in op) (microseconds_to_seconds (bgm_in_us ?cur)))
                   (Some (or_else (sb_source_out op) (microseconds_to_seconds (bgm_out_us ?cur))))
            else Inr (bgm_in_us ?cur, bgm_out_us ?cur)) = Inr (a, z)"
    and start: "optional (sb_start op) (seconds_at_least_zero i (Some ?cid) ''start'') = Inr start"
    and vol: "optional (sb_volume op) (check_bgm_volume i (Some ?cid)) = Inr vol"
    and fin: "optional (sb_fade_in op) (seconds_at_least_zero i (Some ?cid) ''fade_in'') = Inr fin"
    and fout: "optional (sb_fade_out op) (seconds_at_least_zero i (Some ?cid) ''fade_out'') = Inr fout"
    and b': "b' = (let updated = ?cur\<lparr>bgm_in_us := a, bgm_out_us := z,
             bgm_start_us := or_else start (bgm_start_us ?cur),
             bgm_volume := or_else vol (bgm_volume ?cur),
             bgm_fade_in_us := or_else fin (bgm_fade_in_us ?cur),
             bgm_fade_out_us := or_else fout (bgm_fade_out_us ?cur)\<rparr>
       in if updated \<noteq> ?cur then touch i (bgm_clip_id updated) (b1\<lparr>b_bgm := (b_bgm b1)[p := updated]\<rparr>)
          else b1)"
    using op p by (auto simp: apply_set_bgm_def Let_def elim!: ebindE)
  have valid: "valid_bgm_clip (?cur\<lparr>bgm_in_us := a, bgm_out_us := z,
             bgm_start_us := or_else start (bgm_start_us ?cur),
             bgm_volume := or_else vol (bgm_volume ?cur),
             bgm_fade_in_us := or_else fin (bgm_fade_in_us ?cur),
             bgm_fade_out_us := or_else fout (bgm_fade_out_us ?cur)\<rparr>)" if "valid_bgm_clip ?cur"
  proof -
    have "0 \<le> a \<and> a < z"
      using rng that bgm_range_valid [OF _ src] by (auto simp: valid_bgm_clip_def split: if_splits)
    moreover have "0 \<le> or_else start (bgm_start_us ?cur)"
      using that by (intro optional_or_else [OF start, where P = "\<lambda>v. 0 \<le> v"])
        (auto simp: valid_bgm_clip_def intro: seconds_at_least_zero_valid)
    moreover have "valid_volume (or_else vol (bgm_volume ?cur))"
      using that by (intro optional_or_else [OF vol, where P = valid_volume])
        (auto simp: valid_bgm_clip_def intro: check_bgm_volume_valid)
    moreover have "0 \<le> or_else fin (bgm_fade_in_us ?cur)"
      using that by (intro optional_or_else [OF fin, where P = "\<lambda>v. 0 \<le> v"])
        (auto simp: valid_bgm_clip_def intro: seconds_at_least_zero_valid)
    moreover have "0 \<le> or_else fout (bgm_fade_out_us ?cur)"
      using that by (intro optional_or_else [OF fout, where P = "\<lambda>v. 0 \<le> v"])
        (auto simp: valid_bgm_clip_def intro: seconds_at_least_zero_valid)
    ultimately show ?thesis using that by (simp add: valid_bgm_clip_def)
  qed
  let ?new = "?cur\<lparr>bgm_in_us := a, bgm_out_us := z,
             bgm_start_us := or_else start (bgm_start_us ?cur),
             bgm_volume := or_else vol (bgm_volume ?cur),
             bgm_fade_in_us := or_else fin (bgm_fade_in_us ?cur),
             bgm_fade_out_us := or_else fout (bgm_fade_out_us ?cur)\<rparr>"
  have "b' = b1 \<or> prim i b1 b'"
  proof (cases "?new = ?cur")
    case False
    then have b'2: "b' = touch i (bgm_clip_id ?new) (b1\<lparr>b_bgm := (b_bgm b1)[p := ?new]\<rparr>)"
      unfolding b' Let_def by (simp only: if_True not_False_eq_True)
    have "p < length (b_bgm b1)" using bgm_position_SomeD [OF p] by simp
    then have "prim i b1 b'" by (rule prim_bgm_repl_eq [OF b'2]) (simp, rule valid)
    then show ?thesis ..
  next
    case True
    then have "b' = b1" unfolding b' Let_def by (simp only: simp_thms if_False)
    then show ?thesis ..
  qed
  then show ?thesis
    using bgm_position_prim [OF p] by (meson converse_rtranclp_into_rtranclp r_into_rtranclp)
qed

lemma apply_delete_bgm_prims:
  assumes "apply_delete_bgm i cid b = Inr b'"
  shows "prims i b b'"
proof -
  from assms obtain p b1 where p: "bgm_position i cid b = Inr (p, b1)"
    and b': "b' = touch i (bgm_clip_id (b_bgm b1 ! p)) (b1\<lparr>b_bgm := remove_at p (b_bgm b1)\<rparr>)"
    by (auto simp: apply_delete_bgm_def elim!: ebindE)
  have "prim i b1 b'" unfolding b' by (rule prim.bgm_rem) (use bgm_position_SomeD [OF p] in simp)
  then show ?thesis
    using bgm_position_prim [OF p] by (meson converse_rtranclp_into_rtranclp r_into_rtranclp)
qed

theorem apply_operation_prims:
  assumes "apply_operation src i op b = Inr b'" "valid_sources src" "1 \<le> b_next_clip b" "1 \<le> b_next_bgm b"
  shows "prims i b b'"
proof (cases op)
  case (SetTrim cid spec)
  then have "set_field i cid (\<lambda>c. ebind (check_trim src i (Some cid) (clip_unit_id c) spec)
       (\<lambda>t. Inr (\<lambda>c. c\<lparr>clip_trim := t\<rparr>))) b = Inr b'"
    using assms(1) by simp
  then show ?thesis
    by (rule set_field_prims)
      (auto simp: valid_clip_def elim!: ebindE dest: check_trim_valid [OF _ assms(2)])
next
  case (SetVolume cid v)
  then have "set_field i cid (\<lambda>_. ebind (check_volume i (Some cid) v)
       (\<lambda>v. Inr (\<lambda>c. c\<lparr>source_volume := v\<rparr>))) b = Inr b'"
    using assms(1) by simp
  then show ?thesis
  proof (rule set_field_prims, elim ebindE)
    fix c :: edit_clip and f :: "edit_clip \<Rightarrow> edit_clip" and a
    assume "check_volume i (Some cid) v = Inr a" and f: "Inr (\<lambda>c::edit_clip. c\<lparr>source_volume := a\<rparr>) = Inr f"
    then have "valid_volume a" by (blast intro: check_volume_valid)
    with f show "clip_id (f c) = clip_id c \<and> (valid_clip c \<longrightarrow> valid_clip (f c))"
      by (auto simp: valid_clip_def)
  qed
next
  case (SetHold cid h)
  then have "set_field i cid (\<lambda>_. ebind (check_hold i (Some cid) h)
       (\<lambda>h. Inr (\<lambda>c. c\<lparr>hold_us := h\<rparr>))) b = Inr b'"
    using assms(1) by simp
  then show ?thesis
  proof (rule set_field_prims, elim ebindE)
    fix c :: edit_clip and f :: "edit_clip \<Rightarrow> edit_clip" and a
    assume "check_hold i (Some cid) h = Inr a" and f: "Inr (\<lambda>c::edit_clip. c\<lparr>hold_us := a\<rparr>) = Inr f"
    then have "0 \<le> a" by (blast intro: check_hold_valid)
    with f show "clip_id (f c) = clip_id c \<and> (valid_clip c \<longrightarrow> valid_clip (f c))"
      by (auto simp: valid_clip_def)
  qed
next
  case (SetReason cid r)
  then have "set_field i cid (\<lambda>_. ebind (check_reason i (Some cid) r)
       (\<lambda>r. Inr (\<lambda>c. c\<lparr>clip_reason := r\<rparr>))) b = Inr b'"
    using assms(1) by simp
  then show ?thesis by (rule set_field_prims) (auto simp: valid_clip_def elim!: ebindE)
next
  case (SetTransition cid spec)
  then obtain p b1 tr where p: "position i cid ''clip'' b = Inr (p, b1)"
    and tr: "check_transition i (Some cid) spec = Inr tr"
    and b': "b' = replace_clip i p (\<lambda>c. c\<lparr>transition_to_next := tr\<rparr>) b1"
    using assms(1) by (auto simp: result_simps)
  have "prim i b1 b'"
    unfolding b' using position_SomeD [OF p] check_transition_valid [OF tr]
    by (intro prim.repl) (auto simp: valid_clip_def)
  with position_prim [OF p] show ?thesis by auto
qed (use assms in \<open>auto intro: apply_insert_prims apply_delete_prims apply_move_prims
      apply_place_narration_prims apply_insert_bgm_prims apply_set_bgm_prims apply_delete_bgm_prims\<close>)

end
