(* ===== verification/TimelineTracks.thy ===== *)
theory TimelineTracks
  imports TimelineInv
begin

text \<open>
  What the operations keep of the main track beyond the identity of its clips: who carries the
  narration of a unit, which cuts keep their transition, and that the last clip has none.
\<close>

section \<open>Narration carriers\<close>

definition carries :: "string \<Rightarrow> edit_clip \<Rightarrow> bool" where
  "carries u c = (clip_unit_id c = u \<and> carries_narration c)"

definition carriers :: "string \<Rightarrow> edit_clip list \<Rightarrow> nat" where
  "carriers u cs = length (filter (carries u) cs)"

abbreviation unit_ids :: "edit_clip list \<Rightarrow> string set" where
  "unit_ids cs \<equiv> clip_unit_id ` set cs"

text \<open>At most one carrier of \<open>u\<close>; exactly one while the unit has a clip\<close>

definition carrier_ok :: "bool \<Rightarrow> string \<Rightarrow> edit_clip list \<Rightarrow> bool" where
  "carrier_ok exact u cs =
     (carriers u cs \<le> 1 \<and> (exact \<longrightarrow> u \<in> unit_ids cs \<longrightarrow> carriers u cs = 1))"

lemma carriers_insert_at [simp]:
  "carriers u (insert_at n c cs) = carriers u cs + (if carries u c then 1 else 0)"
proof -
  have "carriers u cs = carriers u (take n cs) + carriers u (drop n cs)"
    unfolding carriers_def by (metis append_take_drop_id filter_append length_append)
  then show ?thesis by (simp add: insert_at_def carriers_def)
qed

lemma carriers_remove_at:
  "p < length cs \<Longrightarrow> carriers u cs = carriers u (remove_at p cs) + (if carries u (cs ! p) then 1 else 0)"
  by (metis carriers_insert_at remove_at_decomp)

lemma list_update_insert_at: "p < length cs \<Longrightarrow> cs[p := c] = insert_at p c (remove_at p cs)"
  by (simp add: insert_at_def remove_at_def upd_conv_take_nth_drop min_def)

lemma carriers_update:
  "p < length cs \<Longrightarrow> carriers u (cs[p := c]) + (if carries u (cs ! p) then 1 else 0)
     = carriers u cs + (if carries u c then 1 else 0)"
  using carriers_remove_at [of p cs u] by (simp add: list_update_insert_at)

lemma carriers_move: "p < length cs \<Longrightarrow> carriers u (insert_at d (cs ! p) (remove_at p cs)) = carriers u cs"
  using carriers_remove_at [of p cs u] by simp

lemma carriers_zero: "carriers u cs = 0 \<longleftrightarrow> (\<forall>c \<in> set cs. \<not> carries u c)"
  by (auto simp: carriers_def filter_empty_conv)

lemma carriers_pos_unit: "0 < carriers u cs \<Longrightarrow> u \<in> unit_ids cs"
  using carriers_zero [of u cs] by (auto simp: carries_def)

lemma unit_has_carrier_iff: "unit_has_carrier u cs \<longleftrightarrow> carriers u cs \<noteq> 0"
  by (auto simp: carriers_zero unit_has_carrier_def carries_def list_ex_iff)

lemma carriers_map_same:
  "(\<And>c. clip_unit_id (f c) = clip_unit_id c) \<Longrightarrow> (\<And>c. carries_narration (f c) = carries_narration c)
     \<Longrightarrow> carriers u (map f cs) = carriers u cs"
  by (induction cs) (simp_all add: carriers_def carries_def)

lemma carrier_ok_map_same:
  "(\<And>c. clip_unit_id (f c) = clip_unit_id c) \<Longrightarrow> (\<And>c. carries_narration (f c) = carries_narration c)
     \<Longrightarrow> carrier_ok ex u (map f cs) = carrier_ok ex u cs"
  by (simp add: carrier_ok_def carriers_map_same image_image)

lemma carrier_ok_reset [simp]:
  "carrier_ok ex u (b_clips (reset_broken_cuts i before b)) = carrier_ok ex u (b_clips b)"
  unfolding reset_broken_cuts_clips by (rule carrier_ok_map_same) auto

lemma carrier_ok_update_same:
  assumes "p < length cs" "clip_unit_id c = clip_unit_id (cs ! p)"
    "carries_narration c = carries_narration (cs ! p)"
  shows "carrier_ok ex u (cs[p := c]) = carrier_ok ex u cs"
proof -
  have "unit_ids (cs[p := c]) = unit_ids cs"
    using assms by (metis list.set_map list_update_id map_update)
  moreover have "carriers u (cs[p := c]) = carriers u cs"
    using carriers_update [OF assms(1), of u c] assms by (simp add: carries_def split: if_splits)
  ultimately show ?thesis by (simp add: carrier_ok_def)
qed

lemma one_carrier_iff: "one_narration_carrier_per_unit cs \<longleftrightarrow> (\<forall>u. carriers u cs \<le> 1)"
proof -
  have "carriers u cs = count_list (map clip_unit_id (filter carries_narration cs)) u" for u
    by (induction cs) (auto simp: carriers_def carries_def)
  moreover have "distinct xs \<longleftrightarrow> (\<forall>x. count_list xs x \<le> 1)" for xs :: "string list"
  proof (induction xs)
    case (Cons y ys)
    have "(\<forall>x. count_list (y # ys) x \<le> 1) \<longleftrightarrow> count_list ys y = 0 \<and> (\<forall>x. count_list ys x \<le> 1)"
      by (auto simp: le_Suc_eq)
    then show ?case using Cons by (simp add: count_list_0_iff)
  qed simp
  ultimately show ?thesis by (simp add: one_narration_carrier_per_unit_def)
qed


text \<open>Every operation keeps \<open>carrier_ok\<close>, for each unit on its own.\<close>

lemma apply_insertE:
  assumes "apply_insert src i op b = Inr b'"
  obtains x tr vol hold why trans c p b1 where
    "source_unit src (ic_unit_id op) = Some x"
    "check_trim src i None (su_unit_id x) (ic_trim op) = Inr tr"
    "check_reason i None (ic_reason op) = Inr why" "check_hold i None (ic_hold op) = Inr hold"
    "check_transition i None (ic_transition_to_next op) = Inr trans"
    "(case ic_source_volume op of Some v \<Rightarrow> check_volume i None v
        | None \<Rightarrow> Inr (default_source_volume (su_speech_mode x))) = Inr vol"
    "c = \<lparr>clip_id = make_clip_id (b_next_clip b), clip_unit_id = su_unit_id x, clip_trim = tr,
          source_volume = vol, hold_us = hold,
          carries_narration = (\<not> unit_has_carrier (su_unit_id x) (b_clips b)), clip_reason = why,
          transition_to_next = trans\<rparr>"
    "insertion_point i (ic_after op) b = Inr (p, b1)"
    "trans \<noteq> None \<Longrightarrow> p < length (b_clips b)"
    "b_clips b' = b_clips (reset_broken_cuts i (next_ids (b_clips b))
       (touch i (clip_id c) (b1\<lparr>b_clips := insert_at p c (b_clips b), b_next_clip := b_next_clip b1 + 1\<rparr>)))"
proof -
  from assms obtain x tr vol hold why trans p b1 where
    1: "source_unit src (ic_unit_id op) = Some x"
    and 2: "check_trim src i None (su_unit_id x) (ic_trim op) = Inr tr"
    and 3: "(case ic_source_volume op of Some v \<Rightarrow> check_volume i None v
        | None \<Rightarrow> Inr (default_source_volume (su_speech_mode x))) = Inr vol"
    and 4: "check_hold i None (ic_hold op) = Inr hold"
    and 5: "check_reason i None (ic_reason op) = Inr why"
    and 6: "check_transition i None (ic_transition_to_next op) = Inr trans"
    and 7: "insertion_point i (ic_after op) b = Inr (p, b1)"
    and 8: "(let c = \<lparr>clip_id = make_clip_id (b_next_clip b), clip_unit_id = su_unit_id x, clip_trim = tr,
          source_volume = vol, hold_us = hold,
          carries_narration = (\<not> unit_has_carrier (su_unit_id x) (b_clips b)), clip_reason = why,
          transition_to_next = trans\<rparr>;
         b2 = touch i (clip_id c) (b1\<lparr>b_clips := insert_at p c (b_clips b1), b_next_clip := b_next_clip b1 + 1\<rparr>)
       in ebind (require_next i p (transition_to_next c) b2)
            (\<lambda>_. Inr (reset_broken_cuts i (next_ids (b_clips b)) b2))) = Inr b'"
    by (auto simp: apply_insert_def Let_def split: option.splits prod.splits elim!: ebindE)
  note b1 = insertion_point_SomeD [OF 7]
  show ?thesis
    by (rule that [OF 1 2 5 4 6 3 refl 7])
      (use 8 b1 in \<open>auto simp: Let_def require_next_def result_simps\<close>)
qed

lemma apply_insert_carriers:
  assumes "apply_insert src i op b = Inr b'" "carrier_ok ex u (b_clips b)"
  shows "carrier_ok ex u (b_clips b')"
  using assms(1)
proof (rule apply_insertE)
  fix x tr vol hold why trans c p b1
  assume c: "c = \<lparr>clip_id = make_clip_id (b_next_clip b), clip_unit_id = su_unit_id x, clip_trim = tr,
          source_volume = vol, hold_us = hold,
          carries_narration = (\<not> unit_has_carrier (su_unit_id x) (b_clips b)), clip_reason = why,
          transition_to_next = trans\<rparr>"
    and b': "b_clips b' = b_clips (reset_broken_cuts i (next_ids (b_clips b))
        (touch i (clip_id c) (b1\<lparr>b_clips := insert_at p c (b_clips b), b_next_clip := b_next_clip b1 + 1\<rparr>)))"
  have "carrier_ok ex u (insert_at p c (b_clips b))"
  proof -
    have new: "carries u c = (u = su_unit_id x \<and> carriers u (b_clips b) = 0)"
        "clip_unit_id c = su_unit_id x"
      unfolding c by (auto simp: carries_def unit_has_carrier_iff)
    then show ?thesis
      using assms(2) by (cases "u = su_unit_id x") (auto simp: carrier_ok_def)
  qed
  then show ?thesis unfolding b' by simp
qed

lemma carriers_others_cleared:
  assumes "p < length cs" "clip_unit_id (cs ! p) = v"
  defines "ms \<equiv> map (\<lambda>q. if clip_unit_id (cs ! q) = v \<and> q \<noteq> p then set_carrier False (cs ! q) else cs ! q)
      [0..<length cs]"
  shows "carriers u (ms[p := set_carrier True (ms ! p)]) = (if u = v then 1 else carriers u cs)"
proof -
  let ?ns = "ms[p := set_carrier True (ms ! p)]"
  have len: "length ?ns = length cs" by (simp add: ms_def)
  have nth: "?ns ! q = (if q = p then set_carrier True (cs ! q)
      else if clip_unit_id (cs ! q) = v then set_carrier False (cs ! q) else cs ! q)"
    if "q < length cs" for q
    using that assms(1) by (auto simp: ms_def nth_list_update)
  have card: "carriers u xs = card {q. q < length xs \<and> carries u (xs ! q)}" for xs
    by (simp add: carriers_def length_filter_conv_card)
  show ?thesis
  proof (cases "u = v")
    case True
    then have "{q. q < length ?ns \<and> carries u (?ns ! q)} = {p}"
      using assms(1,2) unfolding len by (auto simp: nth carries_def split: if_splits)
    then show ?thesis using True unfolding card by simp
  next
    case False
    then have "{q. q < length ?ns \<and> carries u (?ns ! q)} = {q. q < length cs \<and> carries u (cs ! q)}"
      using assms(1,2) unfolding len by (auto simp: nth carries_def split: if_splits)
    then show ?thesis using False unfolding card by simp
  qed
qed

lemma apply_place_narration_carriers:
  assumes "apply_place_narration src i cid b = Inr b'" "carrier_ok ex u (b_clips b)"
  shows "carrier_ok ex u (b_clips b')"
    and "find_index (\<lambda>c. clip_id c = cid) (b_clips b) = Some p
          \<Longrightarrow> carriers (clip_unit_id (b_clips b ! p)) (b_clips b') = 1"
proof -
  from assms(1) obtain q b1 where q: "position i cid ''clip'' b = Inr (q, b1)"
    and b': "b' = replace_clip i q (set_carrier True)
       (replace_where i (\<lambda>r c. clip_unit_id c = clip_unit_id (b_clips b1 ! q) \<and> r \<noteq> q)
          (set_carrier False) b1)"
    by (auto simp: apply_place_narration_def result_simps Let_def split: if_splits)
  note b1 = position_SomeD [OF q]
  have clips: "carriers w (b_clips b') = (if w = clip_unit_id (b_clips b ! q) then 1 else carriers w (b_clips b))" for w
    unfolding b' replace_clip_simps replace_where_clips_at b1(3)
    using carriers_others_cleared [OF b1(1) refl, of w] b1(1) by simp
  have units: "unit_ids (b_clips b') = unit_ids (b_clips b)"
  proof -
    have "map clip_unit_id (b_clips b') = map clip_unit_id (b_clips b)"
      unfolding b' replace_clip_simps replace_where_clips_at using b1
      by (auto simp: map_update intro!: nth_equalityI)
        (auto simp: nth_list_update)
    then show ?thesis by (metis list.set_map)
  qed
  show "carrier_ok ex u (b_clips b')"
    using assms(2) by (simp add: carrier_ok_def clips units)
  show "carriers (clip_unit_id (b_clips b ! p)) (b_clips b') = 1"
    if "find_index (\<lambda>c. clip_id c = cid) (b_clips b) = Some p"
    using that q by (simp add: clips position_def Let_def)
qed


lemma apply_delete_carriers:
  assumes "apply_delete i cid b = Inr b'" "carrier_ok ex u (b_clips b)"
  shows "carrier_ok ex u (b_clips b')"
proof -
  from assms(1) obtain p b1 where p: "position i cid ''clip'' b = Inr (p, b1)"
    by (auto simp: apply_delete_def result_simps)
  note b1 = position_SomeD [OF p]
  let ?r = "b_clips b ! p" and ?rest = "remove_at p (b_clips b)"
  let ?heir = "find_index (\<lambda>c. clip_unit_id c = clip_unit_id ?r) ?rest"
  define cs where "cs = (if carries_narration ?r
      then (case ?heir of None \<Rightarrow> ?rest | Some h \<Rightarrow> ?rest[h := set_carrier True (?rest ! h)]) else ?rest)"
  have "carrier_ok ex u (b_clips b') = carrier_ok ex u cs"
    using assms(1) p b1 by (auto simp: apply_delete_def Let_def cs_def split: option.splits)
  moreover have "carrier_ok ex u cs"
  proof (cases "carries_narration ?r")
    case False
    then have "carriers u ?rest = carriers u (b_clips b)"
      using carriers_remove_at [OF b1(1), of u] by (simp add: carries_def)
    moreover have "unit_ids ?rest \<subseteq> unit_ids (b_clips b)" using set_remove_at_subset by fast
    ultimately show ?thesis using False assms(2) by (auto simp: cs_def carrier_ok_def)
  next
    case True
    show ?thesis
    proof (cases ?heir)
      case None
      then have "clip_unit_id ?r \<notin> unit_ids ?rest" by (auto simp: listop_simps)
      moreover have "carriers u ?rest = carriers u (b_clips b) - (if carries u ?r then 1 else 0)"
        using carriers_remove_at [OF b1(1), of u] by simp
      moreover have "unit_ids ?rest \<subseteq> unit_ids (b_clips b)" using set_remove_at_subset by fast
      ultimately show ?thesis
        using None True assms(2) carriers_pos_unit [of u ?rest]
        by (auto simp: cs_def carrier_ok_def carries_def)
    next
      case (Some h)
      note h = find_index_SomeD(1,2) [OF Some]
      have "unit_ids cs = unit_ids ?rest"
      proof -
        have "map clip_unit_id cs = map clip_unit_id ?rest"
          using Some True by (simp add: cs_def map_update) (metis h(1) list_update_id map_update nth_map)
        then show ?thesis by (metis list.set_map)
      qed
      moreover have "carriers u cs + (if carries u (?rest ! h) then 1 else 0)
          = carriers u ?rest + (if u = clip_unit_id ?r then 1 else 0)"
        using carriers_update [OF h(1), of u "set_carrier True (?rest ! h)"] Some True h(2)
        by (simp add: cs_def carries_def)
      moreover have "carriers u (b_clips b) = carriers u ?rest + (if u = clip_unit_id ?r then 1 else 0)"
        using carriers_remove_at [OF b1(1), of u] True by (simp add: carries_def)
      moreover have "unit_ids ?rest \<subseteq> unit_ids (b_clips b)" using set_remove_at_subset by fast
      moreover have "carriers u ?rest = 0 \<Longrightarrow> \<not> carries u (?rest ! h)"
        using h(1) by (simp add: carriers_zero)
      ultimately show ?thesis
        using assms(2) h(2) by (auto simp: carrier_ok_def carries_def split: if_splits)
    qed
  qed
  ultimately show ?thesis by simp
qed

lemma apply_move_carriers:
  assumes "apply_move i cid after b = Inr b'" "carrier_ok ex u (b_clips b)"
  shows "carrier_ok ex u (b_clips b')"
proof -
  from assms(1) obtain p b1 d b3 where p: "position i cid ''clip'' b = Inr (p, b1)"
    and d: "insertion_point i after (b1\<lparr>b_clips := remove_at p (b_clips b1)\<rparr>) = Inr (d, b3)"
    and b': "b' = reset_broken_cuts i (next_ids (b_clips b1))
      (let b4 = b3\<lparr>b_clips := insert_at d (b_clips b1 ! p) (b_clips b3)\<rparr>
       in if d \<noteq> p then touch i (clip_id (b_clips b1 ! p)) b4 else b4)"
    by (auto simp: apply_move_def result_simps Let_def split: if_splits)
  note b1 = position_SomeD [OF p] and b3 = insertion_point_SomeD [OF d]
  have "carrier_ok ex u (b_clips b') = carrier_ok ex u (insert_at d (b_clips b ! p) (remove_at p (b_clips b)))"
    unfolding b' Let_def using b1 b3 by auto
  then show ?thesis
    using assms(2) unfolding carrier_ok_def carriers_move [OF b1(1)] mem_insert_remove [OF b1(1)] ..
qed


lemma set_field_clips:
  assumes "set_field i cid check b = Inr b'"
  obtains p f where "p < length (b_clips b)"
    "clip_id (b_clips b ! p) = cid" "check (b_clips b ! p) = Inr f"
    "b_clips b' = (b_clips b)[p := f (b_clips b ! p)]"
proof -
  from assms obtain p b1 f where p: "position i cid ''clip'' b = Inr (p, b1)"
    and f: "check (b_clips b1 ! p) = Inr f" and b': "b' = replace_clip i p f b1"
    by (auto simp: set_field_def result_simps)
  show ?thesis by (rule that [of p f]) (use f b' position_SomeD [OF p] in simp_all)
qed

lemma set_field_carriers:
  assumes "set_field i cid check b = Inr b'" "carrier_ok ex u (b_clips b)"
    and "\<And>c f. check c = Inr f \<Longrightarrow> clip_unit_id (f c) = clip_unit_id c
          \<and> carries_narration (f c) = carries_narration c"
  shows "carrier_ok ex u (b_clips b')"
  using assms(1)
proof (rule set_field_clips)
  fix p f
  assume "p < length (b_clips b)" "check (b_clips b ! p) = Inr f"
    "b_clips b' = (b_clips b)[p := f (b_clips b ! p)]"
  then show ?thesis using assms(2,3) by (simp add: carrier_ok_update_same)
qed

lemma bgm_position_clips: "bgm_position i cid b = Inr (p, b1) \<Longrightarrow> b_clips b1 = b_clips b"
  by (simp add: bgm_position_SomeD)

lemma bgm_ops_clips:
  "apply_insert_bgm src i bop b = Inr b' \<Longrightarrow> b_clips b' = b_clips b"
  "apply_set_bgm src i sop b = Inr b' \<Longrightarrow> b_clips b' = b_clips b"
  "apply_delete_bgm i cid b = Inr b' \<Longrightarrow> b_clips b' = b_clips b"
  by (auto simp: apply_insert_bgm_def apply_set_bgm_def apply_delete_bgm_def Let_def
      dest!: bgm_position_clips elim!: ebindE split: if_splits)

theorem apply_operation_carriers:
  assumes "apply_operation src i op b = Inr b'" "carrier_ok ex u (b_clips b)"
  shows "carrier_ok ex u (b_clips b')"
proof (cases op)
  case (SetTransition cid spec)
  then obtain p b1 tr where p: "position i cid ''clip'' b = Inr (p, b1)"
    and b': "b' = replace_clip i p (\<lambda>c. c\<lparr>transition_to_next := tr\<rparr>) b1"
    using assms(1) by (auto simp: result_simps)
  then show ?thesis using assms(2) position_SomeD [OF p] by (simp add: carrier_ok_update_same)
qed (use assms in \<open>auto intro: apply_insert_carriers apply_delete_carriers apply_move_carriers
      apply_place_narration_carriers set_field_carriers elim!: ebindE dest: bgm_ops_clips
      simp: bgm_ops_clips\<close>)

section \<open>Cuts\<close>

text \<open>Adjacent clips, and the cuts that have a transition\<close>

definition adjacent :: "edit_clip list \<Rightarrow> (string \<times> string) list" where
  "adjacent cs = pairwise (map clip_id cs)"

definition transition_cuts :: "edit_clip list \<Rightarrow> (string \<times> string \<times> transition) list" where
  "transition_cuts cs = List.map_filter
     (\<lambda>(c, d). map_option (\<lambda>t. (clip_id c, clip_id d, t)) (transition_to_next c)) (pairwise cs)"

definition no_dangling :: "edit_clip list \<Rightarrow> bool" where
  "no_dangling cs = (cs = [] \<or> transition_to_next (last cs) = None)"

lemma pairwise_map: "pairwise (map f xs) = map (\<lambda>(x, y). (f x, f y)) (pairwise xs)"
  by (induction xs rule: pairwise.induct) auto

lemma next_ids_None: "(next_ids cs k = None) = (k \<notin> clip_id ` set cs)"
  by (induction cs) (auto simp: map_add_def split: option.splits)

lemma next_ids_nth:
  assumes "distinct (map clip_id cs)" "q < length cs"
  shows "next_ids cs (clip_id (cs ! q)) =
    Some (if Suc q < length cs then Some (clip_id (cs ! Suc q)) else None)"
  using assms
proof (induction cs arbitrary: q)
  case (Cons c cs)
  show ?case
  proof (cases q)
    case 0
    have "next_ids cs (clip_id c) = None" using Cons.prems by (simp add: next_ids_None)
    then show ?thesis using 0 by (auto simp: map_add_def split: list.splits)
  next
    case (Suc r)
    then show ?thesis using Cons by (simp add: map_add_def)
  qed
qed simp

lemma distinct_map_nth_eq:
  "distinct (map f xs) \<Longrightarrow> p < length xs \<Longrightarrow> q < length xs \<Longrightarrow> f (xs ! p) = f (xs ! q) \<Longrightarrow> p = q"
  by (metis distinct_conv_nth length_map nth_map)

lemma transition_cuts_iff:
  "(a, d, t) \<in> set (transition_cuts cs) \<longleftrightarrow> (\<exists>q. Suc q < length cs \<and> clip_id (cs ! q) = a
     \<and> clip_id (cs ! Suc q) = d \<and> transition_to_next (cs ! q) = Some t)"
proof -
  have "(a, d, t) \<in> set (transition_cuts cs) \<longleftrightarrow> (\<exists>x y. (x, y) \<in> set (pairwise cs) \<and> clip_id x = a
     \<and> clip_id y = d \<and> transition_to_next x = Some t)"
    by (force simp: transition_cuts_def map_filter_def)
  then show ?thesis by (auto simp: pairwise_nth)
qed

lemma adjacent_iff:
  "(a, d) \<in> set (adjacent cs) \<longleftrightarrow> (\<exists>q. Suc q < length cs \<and> clip_id (cs ! q) = a \<and> clip_id (cs ! Suc q) = d)"
proof -
  have "(a, d) \<in> set (adjacent cs) \<longleftrightarrow> (\<exists>x y. (x, y) \<in> set (pairwise cs) \<and> clip_id x = a \<and> clip_id y = d)"
    by (force simp: adjacent_def pairwise_map)
  then show ?thesis by (auto simp: pairwise_nth)
qed


definition reset_clips :: "edit_clip list \<Rightarrow> edit_clip list \<Rightarrow> edit_clip list" where
  "reset_clips cs ms =
     map (\<lambda>c. if broken_cut (next_ids cs) (next_ids ms) c then clear_transition c else c) ms"

lemma reset_broken_cuts_eq: "b_clips (reset_broken_cuts i (next_ids cs) b) = reset_clips cs (b_clips b)"
  by (simp add: reset_clips_def reset_broken_cuts_clips)

text \<open>A structural change of a track: what stays keeps its ID and transition.\<close>

definition keeps_transitions :: "edit_clip list \<Rightarrow> edit_clip list \<Rightarrow> bool" where
  "keeps_transitions cs ms = (distinct (map clip_id cs) \<and> distinct (map clip_id ms)
     \<and> (\<forall>m \<in> set ms. clip_id m \<in> clip_id ` set cs
          \<longrightarrow> (\<exists>c \<in> set cs. clip_id c = clip_id m \<and> transition_to_next c = transition_to_next m)))"

lemma reset_clips_ids [simp]: "map clip_id (reset_clips cs ms) = map clip_id ms"
  by (simp add: reset_clips_def)

lemma reset_clips_length [simp]: "length (reset_clips cs ms) = length ms"
  by (simp add: reset_clips_def)

lemma reset_clips_adjacent [simp]: "adjacent (reset_clips cs ms) = adjacent ms"
  by (simp add: adjacent_def)

lemma keeps_transitions_nth:
  assumes "keeps_transitions cs ms" "q < length ms" "clip_id (ms ! q) \<in> clip_id ` set cs"
  obtains r where "r < length cs" "clip_id (cs ! r) = clip_id (ms ! q)"
    "transition_to_next (cs ! r) = transition_to_next (ms ! q)"
  using assms unfolding keeps_transitions_def by (metis in_set_conv_nth nth_mem)

lemma reset_clips_nth:
  assumes k: "keeps_transitions cs ms" and q: "q < length ms"
  shows "transition_to_next (reset_clips cs ms ! q) =
    (if clip_id (ms ! q) \<in> clip_id ` set cs
        \<and> next_ids cs (clip_id (ms ! q)) \<noteq> next_ids ms (clip_id (ms ! q))
     then None else transition_to_next (ms ! q))"
proof (cases "next_ids cs (clip_id (ms ! q))")
  case None
  moreover from this have "clip_id (ms ! q) \<notin> clip_id ` set cs" by (simp add: next_ids_None)
  ultimately show ?thesis using q by (simp add: reset_clips_def broken_cut_def)
next
  case (Some n)
  then have "clip_id (ms ! q) \<in> clip_id ` set cs" using next_ids_None by (metis option.distinct(1))
  then show ?thesis using q Some by (auto simp: reset_clips_def broken_cut_def)
qed

lemma reset_clips_cuts:
  assumes k: "keeps_transitions cs ms"
  shows "(a, d, t) \<in> set (transition_cuts (reset_clips cs ms)) \<longleftrightarrow> (a, d) \<in> set (adjacent ms)
    \<and> ((a, d, t) \<in> set (transition_cuts cs) \<or> a \<notin> clip_id ` set cs \<and> (a, d, t) \<in> set (transition_cuts ms))"
    (is "?L \<longleftrightarrow> ?R")
proof -
  have dc: "distinct (map clip_id cs)" and dm: "distinct (map clip_id ms)"
    using k by (auto simp: keeps_transitions_def)
  have at: "transition_to_next (reset_clips cs ms ! q) = Some t \<longleftrightarrow>
      (a, d, t) \<in> set (transition_cuts cs) \<or> a \<notin> clip_id ` set cs \<and> (a, d, t) \<in> set (transition_cuts ms)"
    if q: "Suc q < length ms" "clip_id (ms ! q) = a" "clip_id (ms ! Suc q) = d" for q
  proof -
    have nm: "next_ids ms a = Some (Some d)" using next_ids_nth [OF dm, of q] q by simp
    have tm: "(a, d, t) \<in> set (transition_cuts ms) \<longleftrightarrow> transition_to_next (ms ! q) = Some t"
      unfolding transition_cuts_iff using q dm by (metis Suc_lessD distinct_map_nth_eq)
    show ?thesis
    proof (cases "a \<in> clip_id ` set cs")
      case False
      then have "(a, d, t) \<notin> set (transition_cuts cs)" by (force simp: transition_cuts_iff)
      then show ?thesis using False q tm reset_clips_nth [OF k, of q] by simp
    next
      case True
      obtain r where r: "r < length cs" "clip_id (cs ! r) = a"
          "transition_to_next (cs ! r) = transition_to_next (ms ! q)"
        using keeps_transitions_nth [OF k, of q] q True by (metis Suc_lessD)
      have "(a, d, t) \<in> set (transition_cuts cs) \<longleftrightarrow>
          Suc r < length cs \<and> clip_id (cs ! Suc r) = d \<and> transition_to_next (cs ! r) = Some t"
        unfolding transition_cuts_iff using r dc by (metis Suc_lessD distinct_map_nth_eq)
      moreover have "next_ids cs a = Some (Some d) \<longleftrightarrow> Suc r < length cs \<and> clip_id (cs ! Suc r) = d"
        using next_ids_nth [OF dc r(1)] r(2) by auto
      ultimately show ?thesis
        using True q r(3) nm reset_clips_nth [OF k, of q] by auto
    qed
  qed
  have ids: "clip_id (reset_clips cs ms ! q) = clip_id (ms ! q)" if "q < length ms" for q
    using that reset_clips_ids by (metis nth_map reset_clips_length)
  show ?thesis
    unfolding transition_cuts_iff [of a d t "reset_clips cs ms"] adjacent_iff
    using at ids by (metis Suc_lessD reset_clips_length)
qed

lemma reset_clips_no_dangling:
  assumes k: "keeps_transitions cs ms" and "no_dangling cs"
    and "ms \<noteq> [] \<Longrightarrow> clip_id (last ms) \<notin> clip_id ` set cs \<Longrightarrow> transition_to_next (last ms) = None"
  shows "no_dangling (reset_clips cs ms)"
proof (cases "ms = []")
  case False
  let ?q = "length ms - 1"
  have q: "?q < length ms" and last: "last ms = ms ! ?q" "last (reset_clips cs ms) = reset_clips cs ms ! ?q"
    using False by (simp_all add: last_conv_nth reset_clips_def)
  have dc: "distinct (map clip_id cs)" and dm: "distinct (map clip_id ms)"
    using k by (auto simp: keeps_transitions_def)
  have "transition_to_next (reset_clips cs ms ! ?q) = None"
  proof (cases "clip_id (ms ! ?q) \<in> clip_id ` set cs")
    case True
    then obtain r where r: "r < length cs" "clip_id (cs ! r) = clip_id (ms ! ?q)"
        "transition_to_next (cs ! r) = transition_to_next (ms ! ?q)"
      using keeps_transitions_nth [OF k q] by metis
    show ?thesis
    proof (cases "Suc r < length cs")
      case True
      have "next_ids ms (clip_id (ms ! ?q)) = Some None"
        unfolding next_ids_nth [OF dm q] using False by simp
      moreover have "next_ids cs (clip_id (ms ! ?q)) = Some (Some (clip_id (cs ! Suc r)))"
        using next_ids_nth [OF dc r(1)] True unfolding r(2) by simp
      ultimately show ?thesis
        unfolding reset_clips_nth [OF k q] using \<open>clip_id (ms ! ?q) \<in> clip_id ` set cs\<close> by simp
    next
      case False
      then have "cs \<noteq> []" "length cs - 1 = r" using r(1) by auto
      then have "transition_to_next (ms ! ?q) = None"
        using assms(2) r(3) by (simp add: no_dangling_def last_conv_nth)
      then show ?thesis unfolding reset_clips_nth [OF k q] by simp
    qed
  next
    case new: False
    then have "transition_to_next (ms ! ?q) = None" using assms(3) False unfolding last by blast
    then show ?thesis unfolding reset_clips_nth [OF k q] by simp
  qed
  then show ?thesis using last by (simp add: no_dangling_def)
qed (simp add: no_dangling_def reset_clips_def)


section \<open>Structural operations\<close>

definition structural :: "timeline_operation \<Rightarrow> bool" where
  "structural op = (case op of InsertClip _ \<Rightarrow> True | DeleteClip _ \<Rightarrow> True | MoveClip _ _ \<Rightarrow> True | _ \<Rightarrow> False)"

text \<open>The track before the broken cuts are reset\<close>

definition restructures :: "nat \<Rightarrow> edit_clip list \<Rightarrow> edit_clip list \<Rightarrow> bool" where
  "restructures n cs ms = (keeps_transitions cs ms
     \<and> clip_id ` set ms \<subseteq> insert (make_clip_id n) (clip_id ` set cs)
     \<and> make_clip_id n \<notin> clip_id ` set cs
     \<and> (ms \<noteq> [] \<longrightarrow> clip_id (last ms) \<notin> clip_id ` set cs \<longrightarrow> transition_to_next (last ms) = None))"

lemma keeps_transitions_subset:
  assumes "distinct (map clip_id cs)" "distinct (map clip_id ms)" "set ms \<subseteq> set cs"
  shows "keeps_transitions cs ms"
  using assms unfolding keeps_transitions_def by blast

lemma next_id_fresh: "track_inv b \<Longrightarrow> make_clip_id (b_next_clip b) \<notin> clip_id ` set (b_clips b)"
  by (auto simp: track_inv_def) (metis clip_number_make less_irrefl)

lemma apply_insert_restructures:
  assumes "apply_insert src i op b = Inr b'" "track_inv b"
  obtains ms where "restructures (b_next_clip b) (b_clips b) ms" "b_clips b' = reset_clips (b_clips b) ms"
  using assms(1)
proof (rule apply_insertE)
  fix x tr vol hold why trans c p b1
  assume c: "c = \<lparr>clip_id = make_clip_id (b_next_clip b), clip_unit_id = su_unit_id x, clip_trim = tr,
          source_volume = vol, hold_us = hold,
          carries_narration = (\<not> unit_has_carrier (su_unit_id x) (b_clips b)), clip_reason = why,
          transition_to_next = trans\<rparr>"
    and b': "b_clips b' = b_clips (reset_broken_cuts i (next_ids (b_clips b))
        (touch i (clip_id c) (b1\<lparr>b_clips := insert_at p c (b_clips b), b_next_clip := b_next_clip b1 + 1\<rparr>)))"
    and p: "insertion_point i (ic_after op) b = Inr (p, b1)"
    and tr: "trans \<noteq> None \<Longrightarrow> p < length (b_clips b)"
  let ?cs = "b_clips b" and ?ms = "insert_at p c (b_clips b)"
  have id: "clip_id c = make_clip_id (b_next_clip b)" and trans: "transition_to_next c = trans"
    by (simp_all add: c)
  note fresh = next_id_fresh [OF assms(2)]
  have "distinct (map clip_id ?cs)" using assms(2) by (simp add: track_inv_def)
  then have "keeps_transitions ?cs ?ms"
    using fresh id by (auto simp: keeps_transitions_def map_insert_at)
  moreover have "transition_to_next (last ?ms) = None" if "clip_id (last ?ms) \<notin> clip_id ` set ?cs"
  proof (cases "p < length ?cs")
    case True
    then have "last ?ms \<in> set ?cs"
      by (cases ?cs rule: rev_cases) (simp_all add: insert_at_def last_drop)
    then show ?thesis using that by blast
  next
    case False
    then have "last ?ms = c" "trans = None" using tr by (simp add: insert_at_def, blast)
    then show ?thesis using trans by simp
  qed
  ultimately have "restructures (b_next_clip b) ?cs ?ms"
    using fresh id by (auto simp: restructures_def)
  then show ?thesis
    by (rule that) (simp add: b' reset_broken_cuts_eq)
qed

lemma apply_delete_restructures:
  assumes "apply_delete i cid b = Inr b'" "track_inv b"
  obtains ms where "restructures (b_next_clip b) (b_clips b) ms" "b_clips b' = reset_clips (b_clips b) ms"
proof -
  from assms(1) obtain p b1 where p: "position i cid ''clip'' b = Inr (p, b1)"
    by (auto simp: apply_delete_def result_simps)
  note b1 = position_SomeD [OF p]
  let ?r = "b_clips b ! p" and ?rest = "remove_at p (b_clips b)"
  let ?heir = "find_index (\<lambda>c. clip_unit_id c = clip_unit_id ?r) ?rest"
  define ms where "ms = (if carries_narration ?r
      then (case ?heir of None \<Rightarrow> ?rest | Some h \<Rightarrow> ?rest[h := set_carrier True (?rest ! h)]) else ?rest)"
  have d: "distinct (map clip_id (b_clips b))" using assms(2) by (simp add: track_inv_def)
  have ids: "map clip_id ms = map clip_id ?rest"
    by (auto simp: ms_def map_update split: option.splits) 
      (metis find_index_SomeD(1) list_update_id map_update nth_map)
  have tr: "m \<in> set ?rest \<or> (\<exists>c \<in> set ?rest. m = set_carrier True c)" if "m \<in> set ms" for m
    using that
    by (auto simp: ms_def split: if_splits option.splits dest!: find_index_SomeD(1) set_list_update_cases)
  have "keeps_transitions (b_clips b) ms"
    unfolding keeps_transitions_def ids using d distinct_map_remove [OF d, of p] tr
      set_remove_at_subset [of p "b_clips b"] by fastforce
  moreover have "clip_id ` set ms \<subseteq> clip_id ` set (b_clips b)"
    using ids set_remove_at_subset [of p "b_clips b"] by (metis image_mono list.set_map)
  ultimately have "restructures (b_next_clip b) (b_clips b) ms"
    using next_id_fresh [OF assms(2)] unfolding restructures_def by (metis image_eqI insertCI last_in_set subset_iff)
  then show ?thesis
  proof (rule that)
    show "b_clips b' = reset_clips (b_clips b) ms"
      using assms(1) p b1
      by (auto simp: apply_delete_def Let_def ms_def reset_broken_cuts_eq split: option.splits)
  qed
qed

lemma apply_move_restructures:
  assumes "apply_move i cid after b = Inr b'" "track_inv b"
  obtains ms where "restructures (b_next_clip b) (b_clips b) ms" "b_clips b' = reset_clips (b_clips b) ms"
proof -
  from assms(1) obtain p b1 d b3 where p: "position i cid ''clip'' b = Inr (p, b1)"
    and d: "insertion_point i after (b1\<lparr>b_clips := remove_at p (b_clips b1)\<rparr>) = Inr (d, b3)"
    and b': "b' = reset_broken_cuts i (next_ids (b_clips b1))
      (let b4 = b3\<lparr>b_clips := insert_at d (b_clips b1 ! p) (b_clips b3)\<rparr>
       in if d \<noteq> p then touch i (clip_id (b_clips b1 ! p)) b4 else b4)"
    by (auto simp: apply_move_def result_simps Let_def split: if_splits)
  note b1 = position_SomeD [OF p] and b3 = insertion_point_SomeD [OF d]
  let ?ms = "insert_at d (b_clips b ! p) (remove_at p (b_clips b))"
  have dist: "distinct (map clip_id (b_clips b))" using assms(2) by (simp add: track_inv_def)
  have set: "set ?ms = set (b_clips b)" by (rule mem_insert_remove [OF b1(1)])
  then have "keeps_transitions (b_clips b) ?ms"
    using dist distinct_map_move [OF dist b1(1)] by (intro keeps_transitions_subset) auto
  then have "restructures (b_next_clip b) (b_clips b) ?ms"
    using next_id_fresh [OF assms(2)] set unfolding restructures_def by (metis image_eqI last_in_set subset_insertI)
  then show ?thesis
    by (rule that) (use b' b1 b3 in \<open>auto simp: Let_def reset_broken_cuts_eq\<close>)
qed


lemma apply_operation_restructures:
  assumes "structural op" "apply_operation src i op b = Inr b'" "track_inv b"
  obtains ms where "restructures (b_next_clip b) (b_clips b) ms" "b_clips b' = reset_clips (b_clips b) ms"
proof (cases op)
  case (InsertClip x)
  with assms that show ?thesis by (auto elim: apply_insert_restructures)
next
  case (DeleteClip x)
  with assms that show ?thesis by (auto elim: apply_delete_restructures)
next
  case (MoveClip x y)
  with assms that show ?thesis by (auto elim: apply_move_restructures)
qed (use assms in \<open>simp_all add: structural_def\<close>)

theorem structural_cuts:
  assumes "structural op" "apply_operation src i op b = Inr b'" "track_inv b"
    "a \<noteq> make_clip_id (b_next_clip b)"
  shows "(a, d, t) \<in> set (transition_cuts (b_clips b')) \<longleftrightarrow>
    (a, d, t) \<in> set (transition_cuts (b_clips b)) \<and> (a, d) \<in> set (adjacent (b_clips b'))"
  using assms(1-3)
proof (rule apply_operation_restructures)
  fix ms
  assume ms: "restructures (b_next_clip b) (b_clips b) ms" "b_clips b' = reset_clips (b_clips b) ms"
  then have "keeps_transitions (b_clips b) ms" by (simp add: restructures_def)
  moreover have "a \<in> clip_id ` set (b_clips b)" if "(a, d) \<in> set (adjacent ms)"
  proof -
    from that have "a \<in> clip_id ` set ms" by (auto simp: adjacent_iff)
    then show ?thesis using ms(1) assms(4) by (auto simp: restructures_def)
  qed
  ultimately show ?thesis
    unfolding ms(2) reset_clips_adjacent using reset_clips_cuts [of "b_clips b" ms a d t] by blast
qed

lemma no_dangling_cong:
  assumes "map transition_to_next cs = map transition_to_next ds"
  shows "no_dangling cs = no_dangling ds"
proof (cases "cs = []")
  case False
  then have "ds \<noteq> []" using assms by auto
  with False show ?thesis unfolding no_dangling_def by (metis assms last_map)
qed (use assms in \<open>simp add: no_dangling_def\<close>)

lemma no_dangling_update_same:
  assumes "p < length cs" "transition_to_next c = transition_to_next (cs ! p)"
  shows "no_dangling (cs[p := c]) = no_dangling cs"
  by (rule no_dangling_cong) (use assms in \<open>simp add: map_update, metis list_update_id nth_map\<close>)

lemma place_narration_transitions:
  assumes "apply_place_narration src i cid b = Inr b'"
  shows "map transition_to_next (b_clips b') = map transition_to_next (b_clips b)"
proof -
  from assms obtain q b1 where q: "position i cid ''clip'' b = Inr (q, b1)"
    and b': "b' = replace_clip i q (set_carrier True)
       (replace_where i (\<lambda>r c. clip_unit_id c = clip_unit_id (b_clips b1 ! q) \<and> r \<noteq> q)
          (set_carrier False) b1)"
    by (auto simp: apply_place_narration_def result_simps Let_def split: if_splits)
  note b1 = position_SomeD [OF q]
  show ?thesis
    unfolding b' replace_clip_simps replace_where_clips_at b1(3)
    by (rule nth_equalityI) (use b1(1) in \<open>auto simp: nth_list_update\<close>)
qed

lemma set_field_no_dangling:
  assumes "set_field i cid check b = Inr b'" "no_dangling (b_clips b)"
    and "\<And>c f. check c = Inr f \<Longrightarrow> transition_to_next (f c) = transition_to_next c"
  shows "no_dangling (b_clips b')"
  using assms(1)
proof (rule set_field_clips)
  fix p f
  assume "p < length (b_clips b)" "check (b_clips b ! p) = Inr f"
    "b_clips b' = (b_clips b)[p := f (b_clips b ! p)]"
  then show ?thesis using assms(2,3) by (simp add: no_dangling_update_same)
qed

lemma structural_no_dangling:
  assumes "structural op" "apply_operation src i op b = Inr b'" "track_inv b" "no_dangling (b_clips b)"
  shows "no_dangling (b_clips b')"
  using assms(1-3)
proof (rule apply_operation_restructures)
  fix ms
  assume "restructures (b_next_clip b) (b_clips b) ms" "b_clips b' = reset_clips (b_clips b) ms"
  then show ?thesis
    using assms(4) by (auto simp: restructures_def intro: reset_clips_no_dangling)
qed

theorem apply_operation_no_dangling:
  assumes "apply_operation src i op b = Inr b'" "track_inv b" "no_dangling (b_clips b)"
  shows "no_dangling (b_clips b')"
proof (cases "structural op")
  case False
  show ?thesis
  proof (cases op)
    case (SetTransition cid spec)
    then obtain p b1 tr where p: "position i cid ''clip'' b = Inr (p, b1)"
      and r: "require_next i p tr b1 = Inr ()"
      and b': "b' = replace_clip i p (\<lambda>c. c\<lparr>transition_to_next := tr\<rparr>) b1"
      using assms(1) by (auto simp: result_simps)
    note b1 = position_SomeD [OF p]
    have ne: "b_clips b \<noteq> []" using b1(1) by auto
    show ?thesis
    proof (cases "p = length (b_clips b) - 1")
      case True
      then have "tr = None" using r b1 by (auto simp: require_next_def result_simps)
      then show ?thesis using b' b1 True ne by (simp add: no_dangling_def last_list_update)
    next
      case p_last: False
      then show ?thesis
        using b' b1 ne assms(3) by (simp add: no_dangling_def last_list_update)
    qed
  next
    case (PlaceNarration cid)
    then have "apply_place_narration src i cid b = Inr b'" using assms(1) by simp
    from no_dangling_cong [OF place_narration_transitions [OF this]] assms(3) show ?thesis by simp
  next
    case (SetTrim cid v)
    then show ?thesis using assms by (auto intro: set_field_no_dangling elim!: ebindE)
  next
    case (SetVolume cid v)
    then show ?thesis using assms by (auto intro: set_field_no_dangling elim!: ebindE)
  next
    case (SetHold cid v)
    then show ?thesis using assms by (auto intro: set_field_no_dangling elim!: ebindE)
  next
    case (SetReason cid v)
    then show ?thesis using assms by (auto intro: set_field_no_dangling elim!: ebindE)
  next
    case (InsertBgm x)
    then show ?thesis using assms bgm_ops_clips(1) by fastforce
  next
    case (SetBgm x)
    then show ?thesis using assms bgm_ops_clips(2) by fastforce
  next
    case (DeleteBgm x)
    then show ?thesis using assms bgm_ops_clips(3) by fastforce
  qed (use False in \<open>simp_all add: structural_def\<close>)
qed (use assms structural_no_dangling in blast)

end
