(* ===== verification/TimelineBatch.thy ===== *)
theory TimelineBatch
  imports TimelineTracks
begin

text \<open>
  \<open>apply_operations\<close> as a whole.  \<open>batch_invariant\<close> is the interface between one operation and
  the batch: what every operation keeps, the batch keeps.  It is interpreted on the invariants of
  \<open>TimelineInv\<close> and \<open>TimelineTracks\<close>, and the guarantees of a batch edit rest on its facts.
\<close>

section \<open>Invariants of a batch\<close>

locale batch_invariant =
  fixes inv :: "nat \<Rightarrow> batch \<Rightarrow> bool"
  assumes step: "apply_operation src i op b = Inr b' \<Longrightarrow> valid_sources src \<Longrightarrow> i < n
      \<Longrightarrow> inv n b \<Longrightarrow> inv n b'"
begin

lemma run:
  "apply_from src i ops b = Inr b' \<Longrightarrow> valid_sources src \<Longrightarrow> i + length ops \<le> n \<Longrightarrow> inv n b \<Longrightarrow> inv n b'"
proof (induction ops arbitrary: i b)
  case (Cons op ops)
  then obtain b1 where "apply_operation src i op b = Inr b1" "apply_from src (Suc i) ops b1 = Inr b'"
    by (auto elim: ebindE)
  with Cons step [of src i op b b1 n] show ?case by auto
qed simp

lemma result:
  assumes "apply_operations x nc ops src nb w = Inr r" "valid_sources src"
    and "inv (length ops) (init_batch x nc nb)"
  obtains b where "apply_from src 0 ops (init_batch x nc nb) = Inr b" "inv (length ops) b"
    "finish_batch b = Inr r"
  using assms run [of src 0 ops "init_batch x nc nb"]
  by (auto simp: apply_operations_def elim!: ebindE)

end

text \<open>Facts carried along a sequence of primitive changes\<close>

lemma prims_keep_inv:
  assumes "prims i b b'" "track_inv b"
  shows "track_inv b'"
  using assms by (induction rule: rtranclp_induct) (auto intro: prim_track_inv)

lemma track_inv_pos: "track_inv b \<Longrightarrow> 1 \<le> b_next_clip b" "track_inv b \<Longrightarrow> 1 \<le> b_next_bgm b"
  by (simp_all add: track_inv_def)

lemma prims_keep:
  assumes "prims i b b'" "track_inv b" "P b"
    and "\<And>c c'. prim i c c' \<Longrightarrow> track_inv c \<Longrightarrow> P c \<Longrightarrow> P c'"
  shows "track_inv b' \<and> P b'"
  using assms(1-3)
proof (induction rule: rtranclp_induct)
  case (step c c')
  then show ?case using assms(4) prim_track_inv by blast
qed simp

lemma operation_keeps:
  assumes "apply_operation src i op b = Inr b'" "valid_sources src" "track_inv b \<and> P b"
    and "\<And>c c'. prim i c c' \<Longrightarrow> track_inv c \<Longrightarrow> P c \<Longrightarrow> P c'"
  shows "track_inv b' \<and> P b'"
  using assms apply_operation_prims [OF assms(1,2)] track_inv_pos prims_keep [of i b b' P] by blast

interpretation tracks: batch_invariant "\<lambda>n b. track_inv b \<and> touched_wf n b"
  by unfold_locales (erule operation_keeps, blast+, rule prim_touched_wf)

interpretation sound: batch_invariant "\<lambda>n b. track_inv b \<and> touched_sound x b" for x
  by unfold_locales (erule operation_keeps, blast+, rule prim_touched_sound, blast+)

interpretation fresh: batch_invariant "\<lambda>n b. track_inv b \<and> fresh_from x nc nb b" for x nc nb
  by unfold_locales (erule operation_keeps, blast+, rule prim_fresh_from)

interpretation narration: batch_invariant "\<lambda>n b. carrier_ok ex u (b_clips b)" for ex u
  by unfold_locales (rule apply_operation_carriers)

interpretation dangling: batch_invariant "\<lambda>n b. (track_inv b \<and> touched_wf n b) \<and> no_dangling (b_clips b)"
  by unfold_locales (metis tracks.step apply_operation_no_dangling)

section \<open>The start and the end of a batch\<close>

text \<open>What a document guarantees of the content and the counters a batch starts from\<close>

definition editable :: "edit_timeline_content \<Rightarrow> nat \<Rightarrow> nat \<Rightarrow> bool" where
  "editable x nc nb = (valid_content x \<and> 1 \<le> nc \<and> 1 \<le> nb \<and> ids_allocated nc nb x)"

lemma init_batch_simps [simp]:
  "b_clips (init_batch x nc nb) = content_clips x" "b_bgm (init_batch x nc nb) = content_bgm x"
  "b_next_clip (init_batch x nc nb) = nc" "b_next_bgm (init_batch x nc nb) = nb"
  "b_last_operation (init_batch x nc nb) = []"
  by (simp_all add: init_batch_def)

lemma init_track_inv: "editable x nc nb \<Longrightarrow> track_inv (init_batch x nc nb)"
  by (auto simp: editable_def track_inv_def valid_content_def content_validators_def unique_ids_def
      ids_allocated_def list_all_iff)

lemma init_touched: "touched_wf n (init_batch x nc nb)" "touched_sound x (init_batch x nc nb)"
  by (simp_all add: touched_wf_def touched_sound_def dict_simps)

lemma init_fresh: "fresh_from x nc nb (init_batch x nc nb)"
  by (simp add: fresh_from_def)

lemma finish_batch_eq:
  assumes "finish_batch b = Inr r"
  shows "content_clips (ab_content r) = b_clips b" "content_bgm (ab_content r) = sort_key bgm_order (b_bgm b)"
    "ab_next_clip_number r = b_next_clip b" "ab_next_bgm_number r = b_next_bgm b"
    "ab_last_operation r = b_last_operation b" "content_validators (ab_content r)"
  using assms by (auto simp: finish_batch_def Let_def split: if_splits)

lemma finish_batch_ok:
  assumes "track_inv b" "one_narration_carrier_per_unit (b_clips b)"
  shows "\<exists>r. finish_batch b = Inr r"
proof -
  have "distinct (map bgm_clip_id (sort_key bgm_order (b_bgm b)))"
    using assms(1) by (simp add: track_inv_def distinct_map)
  then show ?thesis
    using assms by (simp add: finish_batch_def Let_def content_validators_def unique_ids_def track_inv_def)
qed

lemma finish_editable:
  assumes "finish_batch b = Inr r" "track_inv b"
  shows "editable (ab_content r) (ab_next_clip_number r) (ab_next_bgm_number r)"
  using assms finish_batch_eq [OF assms(1)]
  by (auto simp: editable_def valid_content_def track_inv_def ids_allocated_def list_all_iff)


section \<open>Errors blame an operation\<close>

definition blames :: "nat \<Rightarrow> 'a result \<Rightarrow> bool" where
  "blames i m = (case m of Inr _ \<Rightarrow> True
     | Inl e \<Rightarrow> (case e of OperationInvalid j _ _ _ \<Rightarrow> j = i | _ \<Rightarrow> False))"

named_theorems blame_intros

lemma blames_Inr [blame_intros]: "blames i (Inr a)"
  by (simp add: blames_def)

lemma blames_invalid [blame_intros]: "blames i (Inl (invalid i c f w))"
  by (simp add: blames_def invalid_def)

lemma blames_ebind [blame_intros]: "blames i m \<Longrightarrow> (\<And>a. m = Inr a \<Longrightarrow> blames i (f a)) \<Longrightarrow> blames i (ebind m f)"
  by (cases m) (auto simp: blames_def)

lemma blames_ensure [blame_intros]: "blames i (ensure c (invalid i k f w))"
  by (simp add: ensure_def blame_intros)

lemma blames_if [blame_intros]: "(c \<Longrightarrow> blames i x) \<Longrightarrow> (\<not> c \<Longrightarrow> blames i y) \<Longrightarrow> blames i (if c then x else y)"
  by simp

lemma blames_option [blame_intros]:
  "(m = None \<Longrightarrow> blames i x) \<Longrightarrow> (\<And>a. m = Some a \<Longrightarrow> blames i (f a)) \<Longrightarrow> blames i (case m of None \<Rightarrow> x | Some a \<Rightarrow> f a)"
  by (cases m) simp_all

lemma blames_prod [blame_intros]: "(\<And>a b. p = (a, b) \<Longrightarrow> blames i (f a b)) \<Longrightarrow> blames i (case p of (a, b) \<Rightarrow> f a b)"
  by (cases p) simp

lemma position_blames [blame_intros]: "blames i (position i cid f b)"
  unfolding position_def Let_def by (intro blame_intros)

lemma insertion_point_blames [blame_intros]: "blames i (insertion_point i after b)"
  unfolding insertion_point_def by (intro blame_intros)

lemma bgm_position_blames [blame_intros]: "blames i (bgm_position i cid b)"
  unfolding bgm_position_def Let_def by (intro blame_intros)

lemma check_blames [blame_intros]:
  "blames i (current_video src i cid u)" "blames i (check_volume i cid v)" "blames i (check_hold i cid h)"
  "blames i (check_reason i cid t)" "blames i (check_transition i cid sp)" "blames i (require_next i p tr b)"
  "blames i (bgm_duration src i cid r)" "blames i (check_bgm_volume i cid v)"
  "blames i (seconds_at_least_zero i cid f v)"
  unfolding current_video_def check_volume_def check_hold_def check_reason_def check_transition_def
    require_next_def bgm_duration_def check_bgm_volume_def seconds_at_least_zero_def Let_def
  by (intro blame_intros)+

lemma check_trim_blames [blame_intros]: "blames i (check_trim src i cid u sp)"
  unfolding check_trim_def Let_def by (intro blame_intros)

lemma bgm_range_blames [blame_intros]: "blames i (bgm_range src i cid r a z)"
  unfolding bgm_range_def Let_def by (intro blame_intros)

lemma optional_blames [blame_intros]: "(\<And>a. blames i (f a)) \<Longrightarrow> blames i (optional x f)"
  unfolding optional_def by (intro blame_intros)

lemma set_field_blames [blame_intros]: "(\<And>c. blames i (check c)) \<Longrightarrow> blames i (set_field i cid check b)"
  unfolding set_field_def by (intro blame_intros)

lemma track_op_blames [blame_intros]:
  "blames i (apply_insert src i iop b)" "blames i (apply_delete i cid b)"
  "blames i (apply_move i cid after b)" "blames i (apply_place_narration src i cid b)"
  unfolding apply_insert_def apply_delete_def apply_move_def apply_place_narration_def Let_def
  by (intro blame_intros)+

lemma bgm_op_blames [blame_intros]:
  "blames i (apply_insert_bgm src i bop b)" "blames i (apply_set_bgm src i sop b)"
  "blames i (apply_delete_bgm i cid b)"
  unfolding apply_insert_bgm_def apply_set_bgm_def apply_delete_bgm_def Let_def
  by (intro blame_intros)+

theorem apply_operation_blames: "blames i (apply_operation src i op b)"
  by (cases op) (simp_all, (intro blame_intros)+)

lemma apply_from_blames:
  assumes "apply_from src i ops b = Inl e"
  shows "\<exists>j c f w. e = OperationInvalid j c f w \<and> i \<le> j \<and> j < i + length ops"
  using assms
proof (induction ops arbitrary: i b)
  case (Cons op ops)
  from Cons.prems consider "apply_operation src i op b = Inl e"
    | b1 where "apply_from src (Suc i) ops b1 = Inl e"
    by (auto simp: result_simps)
  then show ?case
  proof cases
    case 1
    then show ?thesis
      using apply_operation_blames [of i src op b] by (cases e) (auto simp: blames_def)
  next
    case 2
    then show ?thesis using Cons.IH by fastforce
  qed
qed simp

lemma max_index:
  assumes "touched_wf n b" "List.map_filter (\<lambda>x. map_of (b_last_operation b) (f x)) xs \<noteq> []"
  shows "Max (set (List.map_filter (\<lambda>x. map_of (b_last_operation b) (f x)) xs)) < n"
proof -
  let ?ys = "List.map_filter (\<lambda>x. map_of (b_last_operation b) (f x)) xs"
  have "Max (set ?ys) \<in> set ?ys" using assms(2) by simp
  then obtain x where "map_of (b_last_operation b) (f x) = Some (Max (set ?ys))"
    by (auto simp: map_filter_def)
  then show ?thesis using assms(1) unfolding touched_wf_def by blast
qed

lemma window_violation_index:
  assumes "touched_wf n b" "window_violation src (b_last_operation b) prev c = Some i"
  shows "i < n"
  using assms max_index [OF assms(1), of clip_id "case prev of None \<Rightarrow> [c] | Some p \<Rightarrow> [p, c]"]
  by (auto simp: window_violation_def Let_def split: if_splits option.splits)

lemma check_transition_windows_blames:
  assumes "touched_wf n b" "check_transition_windows src (b_last_operation b) prev cs = Inl e"
  shows "\<exists>j c f w. e = OperationInvalid j c f w \<and> j < n"
  using assms(2)
proof (induction cs arbitrary: prev)
  case (Cons c cs)
  then show ?case
    using window_violation_index [OF assms(1)]
    by (cases "window_violation src (b_last_operation b) prev c") (auto simp: invalid_def)
qed simp

lemma check_bgm_blames:
  assumes "touched_wf n b" "check_bgm src b = Inl e"
  shows "\<exists>j c f w. e = OperationInvalid j c f w \<and> j < n"
proof -
  have starts: "\<exists>j c f w. e = OperationInvalid j c f w \<and> j < n"
    if "check_bgm_starts (b_last_operation b) t cs = Inl e" for t cs
    using that
  proof (induction cs)
    case (Cons c cs)
    then show ?case
      using assms(1) by (auto simp: invalid_def touched_wf_def split: option.splits if_splits)
  qed simp
  have pairs: "\<exists>j c f w. e = OperationInvalid j c f w \<and> j < n"
    if "check_bgm_pairs (b_last_operation b) ps = Inl e" for ps
    using that
  proof (induction ps)
    case (Cons p ps)
    then show ?case
      using max_index [OF assms(1), of bgm_clip_id "[fst p, snd p]"]
      by (cases p) (auto simp: invalid_def Let_def split: if_splits)
  qed simp
  show ?thesis
    using assms(2) starts pairs by (auto simp: check_bgm_def Let_def result_simps split: if_splits)
qed


section \<open>Overlap checks\<close>

lemma check_bgm_pairs_ok:
  assumes "check_bgm_pairs ops ps = Inr ()" "(c, d) \<in> set ps"
    and "map_of ops (bgm_clip_id c) \<noteq> None \<or> map_of ops (bgm_clip_id d) \<noteq> None"
  shows "bgm_end c \<le> bgm_start_us d"
  using assms(1,2)
proof (induction ps)
  case (Cons p ps)
  show ?case
  proof (cases "p = (c, d)")
    case True
    have "List.map_filter (\<lambda>x. map_of ops (bgm_clip_id x)) [c, d] \<noteq> []"
      using assms(3) by (auto simp: map_filter_simps split: option.splits)
    then show ?thesis using Cons.prems True by (auto simp: Let_def split: if_splits)
  next
    case False
    then show ?thesis using Cons by (cases p) (auto simp: Let_def split: if_splits)
  qed
qed simp

definition bgm_disjoint :: "bgm_clip list \<Rightarrow> bool" where
  "bgm_disjoint cs = sorted_wrt (\<lambda>c d. bgm_end c \<le> bgm_start_us d) cs"

lemma bgm_disjointI:
  assumes valid: "\<forall>c \<in> set cs. valid_bgm_clip c"
    and adj: "\<And>c d. (c, d) \<in> set (pairwise cs) \<Longrightarrow> bgm_end c \<le> bgm_start_us d"
  shows "bgm_disjoint cs"
proof -
  let ?P = "\<lambda>c d. bgm_start_us c < bgm_end c \<and> bgm_start_us d < bgm_end d \<and> bgm_end c \<le> bgm_start_us d"
  have pos: "bgm_start_us c < bgm_end c" if "c \<in> set cs" for c
    using valid that by (auto simp: valid_bgm_clip_def bgm_end_def bgm_clip_length_us_def)
  have "transp ?P" by (rule transpI) auto
  moreover have "?P (cs ! i) (cs ! Suc i)" if "Suc i < length cs" for i
  proof -
    have "(cs ! i, cs ! Suc i) \<in> set (pairwise cs)" using that by (auto simp: pairwise_nth)
    then show ?thesis using that adj pos nth_mem [of i cs] nth_mem [of "Suc i" cs] by auto
  qed
  ultimately have "sorted_wrt ?P cs" by (simp add: sorted_wrt_iff_nth_Suc_transp)
  then show ?thesis unfolding bgm_disjoint_def by (rule sorted_wrt_mono_rel [rotated]) simp
qed

lemma untouched_old:
  assumes "touched_sound x b"
  shows "c \<in> set (b_bgm b) \<Longrightarrow> bgm_clip_id c \<notin> touched_ids b \<Longrightarrow> c \<in> set (content_bgm x)"
proof -
  assume "c \<in> set (b_bgm b)" "bgm_clip_id c \<notin> touched_ids b"
  then have "c \<in> set (filter (\<lambda>c. bgm_clip_id c \<notin> touched_ids b) (b_bgm b))" by simp
  then have "c \<in> set (filter (\<lambda>c. bgm_clip_id c \<notin> touched_ids b) (content_bgm x))"
    using assms by (simp only: touched_sound_def)
  then show ?thesis by simp
qed

lemma check_bgm_disjoint:
  assumes chk: "check_bgm src b = Inr ()" and inv: "track_inv b" "touched_sound x b"
    and old: "bgm_disjoint (sort_key bgm_order (content_bgm x))"
  shows "bgm_disjoint (sort_key bgm_order (b_bgm b))" (is "bgm_disjoint ?ys")
proof (rule bgm_disjointI)
  show "\<forall>c \<in> set ?ys. valid_bgm_clip c" using inv(1) by (auto simp: track_inv_def)
  fix c d
  assume cd: "(c, d) \<in> set (pairwise ?ys)"
  let ?ops = "b_last_operation b"
  obtain i where i: "Suc i < length ?ys" "?ys ! i = c" "?ys ! Suc i = d"
    using cd by (auto simp: pairwise_nth)
  then have mem: "c \<in> set (b_bgm b)" "d \<in> set (b_bgm b)"
    by (metis Suc_lessD nth_mem set_sort)+ 
  show "bgm_end c \<le> bgm_start_us d"
  proof (cases "map_of ?ops (bgm_clip_id c) \<noteq> None \<or> map_of ?ops (bgm_clip_id d) \<noteq> None")
    case True
    then have "filter (\<lambda>c. map_of ?ops (bgm_clip_id c) \<noteq> None) (b_bgm b) \<noteq> []"
      using mem by (auto simp: filter_empty_conv)
    then have "check_bgm_pairs ?ops (pairwise ?ys) = Inr ()"
      using chk by (auto simp: check_bgm_def Let_def result_simps)
    then show ?thesis using cd True by (rule check_bgm_pairs_ok)
  next
    case False
    let ?xs = "sort_key bgm_order (content_bgm x)"
    have both: "c \<in> set ?xs" "d \<in> set ?xs"
      using False mem untouched_old [OF inv(2)] by (auto simp: dict_keys_iff)
    have "sorted (map bgm_order ?ys)" by simp
    then have ord: "bgm_order c \<le> bgm_order d"
      using i by (metis Suc_lessD length_map lessI less_or_eq_imp_le nth_map sorted_nth_mono)
    have "distinct ?ys" using inv(1) by (auto simp: track_inv_def distinct_map)
    then have "c \<noteq> d" using i by (metis Suc_lessD n_not_Suc_n nth_eq_iff_index_eq)
    obtain p q where pq: "p < length ?xs" "?xs ! p = c" "q < length ?xs" "?xs ! q = d"
      using both by (metis in_set_conv_nth)
    show ?thesis
    proof (cases "p < q")
      case True
      then show ?thesis using old pq by (auto simp: bgm_disjoint_def sorted_wrt_iff_nth_less)
    next
      case False
      then have "q < p" using \<open>c \<noteq> d\<close> pq by (cases "p = q") auto
      then have "bgm_end d \<le> bgm_start_us c"
        using old pq by (auto simp: bgm_disjoint_def sorted_wrt_iff_nth_less)
      moreover have "bgm_start_us c \<le> bgm_start_us d"
        using ord by (auto simp: bgm_order_def less_eq_prod_def)
      moreover have "bgm_start_us d < bgm_end d"
        using mem(2) inv(1) by (auto simp: track_inv_def valid_bgm_clip_def bgm_end_def bgm_clip_length_us_def)
      ultimately show ?thesis by simp
    qed
  qed
qed

lemma clip_duration_nonneg:
  assumes "clip_duration src c = Some d" "valid_sources src" "valid_clip c"
  shows "0 \<le> d"
proof -
  from assms(1) obtain u m where u: "source_unit src (clip_unit_id c) = Some u"
    and m: "src_media src (clip_unit_id c) = Some m"
    and d: "d = clip_source_duration_us c m (scripted_duration_us u) + hold_us c"
    by (auto simp: clip_duration_def split: option.splits)
  have "0 \<le> scripted_duration_us u"
    using source_unit_SomeD(1) [OF u] assms(2) by (auto simp: valid_sources_def list_all_iff)
  then have "0 \<le> (case um_video_duration_us m of Some d \<Rightarrow> d | None \<Rightarrow> scripted_duration_us u)"
    using valid_sources_dest(2) [OF assms(2) m] by (auto split: option.splits)
  then have "0 \<le> clip_source_duration_us c m (scripted_duration_us u)"
    by (auto simp: clip_source_duration_us_def effective_source_range_us_def Let_def split: option.splits)
  then show ?thesis using assms(3) d by (simp add: valid_clip_def)
qed

lemma check_transition_windows_ok:
  assumes "check_transition_windows src ops prev cs = Inr ()" "q < length cs"
  shows "window_violation src ops (if q = 0 then prev else Some (cs ! (q - 1))) (cs ! q) = None"
  using assms
proof (induction cs arbitrary: prev q)
  case (Cons c cs)
  then have c: "window_violation src ops prev c = None" "check_transition_windows src ops (Some c) cs = Inr ()"
    by (auto split: option.splits)
  show ?case
  proof (cases q)
    case (Suc r)
    then show ?thesis using Cons.IH [OF c(2), of r] Cons.prems by (cases r) auto
  qed (use c in simp)
qed simp

text \<open>The half windows of the transitions into and out of a clip that an operation touched fit it\<close>

definition window_fits :: "episode_sources \<Rightarrow> edit_clip list \<Rightarrow> nat \<Rightarrow> bool" where
  "window_fits src cs q =
     (case clip_duration src (cs ! q) of None \<Rightarrow> True
      | Some d \<Rightarrow> (if q = 0 then 0 else transition_us (transition_to_next (cs ! (q - 1))))
                   + transition_us (transition_to_next (cs ! q)) \<le> 2 * d)"

lemma window_violation_fits:
  assumes "window_violation src ops (if q = 0 then None else Some (cs ! (q - 1))) (cs ! q) = None"
    and "q < length cs" "map_of ops (clip_id (cs ! q)) \<noteq> None"
    and "valid_sources src" "valid_clip (cs ! q)"
  shows "window_fits src cs q"
proof (cases "clip_duration src (cs ! q)")
  case (Some d)
  have "0 \<le> d" by (rule clip_duration_nonneg [OF Some assms(4,5)])
  moreover have "List.map_filter (\<lambda>x. map_of ops (clip_id x))
      (case (if q = 0 then None else Some (cs ! (q - 1))) of None \<Rightarrow> [cs ! q] | Some p \<Rightarrow> [p, cs ! q]) \<noteq> []"
    using assms(3) by (cases "q = 0") (auto simp: map_filter_simps split: option.splits)
  ultimately show ?thesis
    using assms(1) Some by (auto simp: window_fits_def window_violation_def Let_def split: if_splits)
qed (simp add: window_fits_def)


section \<open>Guarantees of \<open>apply_operations\<close>\<close>

lemma apply_operations_editable:
  assumes "apply_operations x nc ops src nb w = Inr r" "editable x nc nb" "valid_sources src"
  shows "editable (ab_content r) (ab_next_clip_number r) (ab_next_bgm_number r)"
  using assms(1,3) by (rule tracks.result) (use assms(2) in \<open>auto simp: init_track_inv init_touched
      intro: finish_editable\<close>)

lemma apply_operations_untouched:
  assumes "apply_operations x nc ops src nb w = Inr r" "editable x nc nb" "valid_sources src"
  shows "filter (\<lambda>c. map_of (ab_last_operation r) (clip_id c) = None) (content_clips (ab_content r))
      = filter (\<lambda>c. map_of (ab_last_operation r) (clip_id c) = None) (content_clips x)
    \<and> filter (\<lambda>c. map_of (ab_last_operation r) (bgm_clip_id c) = None) (content_bgm (ab_content r))
      = sort_key bgm_order (filter (\<lambda>c. map_of (ab_last_operation r) (bgm_clip_id c) = None) (content_bgm x))"
  using assms(1,3)
proof (rule sound.result)
  show "track_inv (init_batch x nc nb) \<and> touched_sound x (init_batch x nc nb)"
    using assms(2) by (simp add: init_track_inv init_touched)
  fix b
  assume "track_inv b \<and> touched_sound x b" "finish_batch b = Inr r"
  then show ?thesis
    by (simp add: finish_batch_eq touched_sound_def dict_keys_iff filter_sort)
qed

lemma apply_operations_counters:
  assumes "apply_operations x nc ops src nb w = Inr r" "editable x nc nb" "valid_sources src"
  shows "nc \<le> ab_next_clip_number r \<and> nb \<le> ab_next_bgm_number r"
  using assms(1,3)
proof (rule fresh.result)
  show "track_inv (init_batch x nc nb) \<and> fresh_from x nc nb (init_batch x nc nb)"
    using assms(2) by (simp add: init_track_inv init_fresh)
  fix b
  assume "track_inv b \<and> fresh_from x nc nb b" "finish_batch b = Inr r"
  then show ?thesis by (simp add: finish_batch_eq fresh_from_def)
qed

lemma apply_operations_touched_ids:
  assumes "apply_operations x nc ops src nb w = Inr r" "editable x nc nb" "valid_sources src"
  shows "\<forall>k \<in> dict_keys (ab_last_operation r). is_clip_id k \<or> is_bgm_clip_id k"
  using assms(1,3)
proof (rule tracks.result)
  show "track_inv (init_batch x nc nb) \<and> touched_wf (length ops) (init_batch x nc nb)"
    using assms(2) by (simp add: init_track_inv init_touched)
  fix b
  assume "track_inv b \<and> touched_wf (length ops) b" "finish_batch b = Inr r"
  then show ?thesis by (simp add: finish_batch_eq touched_wf_def)
qed

lemma apply_operations_no_dangling:
  assumes "apply_operations x nc ops src nb w = Inr r" "editable x nc nb" "valid_sources src"
    and "no_dangling (content_clips x)"
  shows "no_dangling (content_clips (ab_content r))"
  using assms(1,3)
  by (rule dangling.result) (use assms(2,4) in \<open>auto simp: init_track_inv init_touched finish_batch_eq\<close>)

lemma apply_operations_blames:
  assumes "apply_operations x nc ops src nb w = Inl e" "editable x nc nb" "valid_sources src"
  shows "\<exists>i c f why. e = OperationInvalid i c f why \<and> i < length ops"
proof (cases "apply_from src 0 ops (init_batch x nc nb)")
  case (Inl e')
  then show ?thesis
    using assms(1) apply_from_blames [OF Inl] by (simp add: apply_operations_def)
next
  case (Inr b)
  have inv: "track_inv b \<and> touched_wf (length ops) b"
    by (rule tracks.run [OF Inr assms(3)]) (simp_all add: init_track_inv init_touched assms(2))
  have "carrier_ok False u (b_clips b)" for u
    by (rule narration.run [OF Inr assms(3) order_refl])
      (use assms(2) in \<open>simp add: editable_def valid_content_def content_validators_def one_carrier_iff carrier_ok_def\<close>)
  then have "one_narration_carrier_per_unit (b_clips b)" by (simp add: one_carrier_iff carrier_ok_def)
  then obtain r where "finish_batch b = Inr r" using finish_batch_ok inv by blast
  with assms(1) Inr consider "check_transition_windows src (b_last_operation b) None (b_clips b) = Inl e"
    | "check_bgm src b = Inl e"
    by (auto simp: apply_operations_def result_simps split: if_splits)
  then show ?thesis
    using check_transition_windows_blames check_bgm_blames inv by cases blast+
qed

text \<open>Every unit on the track has exactly one clip that carries its narration.\<close>

definition narrated_once :: "edit_clip list \<Rightarrow> bool" where
  "narrated_once cs = list_all (\<lambda>c. carriers (clip_unit_id c) cs = 1) cs"

lemma narrated_once_iff: "narrated_once cs \<longleftrightarrow> (\<forall>u. carrier_ok True u cs)"
proof -
  have "carriers u cs \<le> 1" if "narrated_once cs" for u
    using that carriers_pos_unit [of u cs]
    by (cases "carriers u cs") (auto simp: narrated_once_def list_all_iff)
  then show ?thesis by (auto simp: narrated_once_def carrier_ok_def list_all_iff)
qed

lemma apply_operations_narrated_once:
  assumes "apply_operations x nc ops src nb w = Inr r" "valid_sources src"
    and "narrated_once (content_clips x)"
  shows "narrated_once (content_clips (ab_content r))"
  unfolding narrated_once_iff
proof
  fix u
  have "carrier_ok True u (b_clips (init_batch x nc nb))" using assms(3) by (simp add: narrated_once_iff)
  with assms(1,2) show "carrier_ok True u (content_clips (ab_content r))"
    by (rule narration.result) (simp add: finish_batch_eq)
qed

lemma apply_operations_windows:
  assumes "apply_operations x nc ops src nb True = Inr r"
  shows "apply_operations x nc ops src nb False = Inr r"
  using assms by (auto simp: apply_operations_def elim!: ebindE)

end
