(* ===== verification/TimelineDiff.thy ===== *)
theory TimelineDiff
  imports TimelineModel "HOL-Library.Sublist" "HOL-Library.Char_ord" "HOL-Library.List_Lexorder"
begin

text \<open>
  The difference between two contents (\<open>ContentDiff\<close>, \<open>diff_content\<close> and
  \<open>restore_changed_clip_ids\<close> of \<open>lib/edit_timeline/operations.py\<close>).  Moves are judged by a longest
  common subsequence: the table of lengths, row by row, and the walk back through it.
\<close>

section \<open>Longest common subsequence\<close>

text \<open>One row of \<open>lengths\<close>: \<open>upper\<close> is the row before, \<open>cur\<close> the value to the left\<close>

fun lcs_row :: "string \<Rightarrow> string list \<Rightarrow> nat list \<Rightarrow> nat \<Rightarrow> nat list" where
  "lcs_row a (b # bs) (p # q # upper) cur =
     (let v = (if a = b then p + 1 else max q cur) in v # lcs_row a bs (q # upper) v)"
| "lcs_row a _ _ cur = []"

fun lcs_rows :: "string list \<Rightarrow> string list \<Rightarrow> nat list \<Rightarrow> nat list list" where
  "lcs_rows [] right upper = []"
| "lcs_rows (a # left) right upper =
     (let row = 0 # lcs_row a right upper 0 in row # lcs_rows left right row)"

definition lcs_table :: "string list \<Rightarrow> string list \<Rightarrow> nat list list" where
  "lcs_table left right =
     (let zeros = replicate (length right + 1) 0 in zeros # lcs_rows left right zeros)"

function lcs_walk ::
  "nat list list \<Rightarrow> string list \<Rightarrow> string list \<Rightarrow> nat \<Rightarrow> nat \<Rightarrow> string set \<Rightarrow> string set" where
  "lcs_walk lengths left right i j kept =
     (if i = 0 \<or> j = 0 then kept
      else if left ! (i - 1) = right ! (j - 1)
      then lcs_walk lengths left right (i - 1) (j - 1) (insert (left ! (i - 1)) kept)
      else if lengths ! i ! (j - 1) \<le> lengths ! (i - 1) ! j
      then lcs_walk lengths left right (i - 1) j kept
      else lcs_walk lengths left right i (j - 1) kept)"
  by pat_completeness auto
termination by (relation "measure (\<lambda>(_, _, _, i, j, _). i + j)") auto

declare lcs_walk.simps [simp del]

definition longest_common_subsequence :: "string list \<Rightarrow> string list \<Rightarrow> string set" where
  "longest_common_subsequence left right =
     lcs_walk (lcs_table left right) left right (length left) (length right) {}"

section \<open>Differences\<close>

record content_diff =
  diff_added :: "string set"
  diff_removed :: "string set"
  diff_modified :: "string set"
  diff_moved :: "string set"

definition diff_changed :: "content_diff \<Rightarrow> string set" where
  "diff_changed d = diff_added d \<union> diff_removed d \<union> diff_modified d \<union> diff_moved d"

text \<open>The values of the two dictionaries, keyed by clip ID\<close>

definition clips_by_id :: "edit_timeline_content \<Rightarrow> (string \<times> (edit_clip + bgm_clip)) list" where
  "clips_by_id x = map (\<lambda>c. (clip_id c, Inl c)) (content_clips x)
     @ map (\<lambda>c. (bgm_clip_id c, Inr c)) (content_bgm x)"

text \<open>A later entry of a dict comprehension wins\<close>

definition by_id :: "edit_timeline_content \<Rightarrow> string \<rightharpoonup> edit_clip + bgm_clip" where
  "by_id x = map_of (rev (clips_by_id x))"

definition diff_content :: "edit_timeline_content \<Rightarrow> edit_timeline_content \<Rightarrow> content_diff" where
  "diff_content before after =
     (let old = fst ` set (clips_by_id before); new = fst ` set (clips_by_id after);
          common_before = filter (\<lambda>i. i \<in> new) (map clip_id (content_clips before));
          common_after = filter (\<lambda>i. i \<in> old) (map clip_id (content_clips after));
          in_order = longest_common_subsequence common_before common_after
      in \<lparr>diff_added = new - old, diff_removed = old - new,
          diff_modified = {i \<in> old \<inter> new. by_id before i \<noteq> by_id after i},
          diff_moved = set (filter (\<lambda>i. i \<notin> in_order) common_before)\<rparr>)"

definition restore_changed_clip_ids :: "edit_timeline_content \<Rightarrow> edit_timeline_content \<Rightarrow> string set" where
  "restore_changed_clip_ids before after =
     (let d = diff_content before after
      in if diff_moved d = {} then diff_changed d
         else diff_changed d \<union> (clip_id ` set (content_clips after) \<inter> clip_id ` set (content_clips before)))"

definition clip_id_order :: "string \<Rightarrow> bool \<times> nat" where
  "clip_id_order i = (take 1 i = ''b'', clip_number i)"

definition sorted_clip_ids :: "string set \<Rightarrow> string list" where
  "sorted_clip_ids ids = map snd (sorted_list_of_set ((\<lambda>i. (clip_id_order i, i)) ` ids))"


section \<open>The table holds the lengths\<close>

text \<open>\<open>lcs_len xs ys i j\<close> is the recurrence the table tabulates.\<close>

fun lcs_len :: "string list \<Rightarrow> string list \<Rightarrow> nat \<Rightarrow> nat \<Rightarrow> nat" where
  "lcs_len xs ys 0 j = 0"
| "lcs_len xs ys (Suc i) 0 = 0"
| "lcs_len xs ys (Suc i) (Suc j) =
     (if xs ! i = ys ! j then lcs_len xs ys i j + 1
      else max (lcs_len xs ys i (Suc j)) (lcs_len xs ys (Suc i) j))"

lemma lcs_row_eq:
  assumes "k + length bs = length ys" "bs = drop k ys" "i < length xs"
  shows "lcs_row (xs ! i) bs (map (lcs_len xs ys i) [k..<Suc (length ys)]) (lcs_len xs ys (Suc i) k)
     = map (lcs_len xs ys (Suc i)) [Suc k..<Suc (length ys)]"
  using assms(1,2)
proof (induction bs arbitrary: k)
  case (Cons b bs)
  have k: "k < length ys" using Cons.prems(1) unfolding length_Cons by linarith
  have b: "b = ys ! k" "bs = drop (Suc k) ys"
    using Cons.prems(2) k by (metis Cons_nth_drop_Suc list.inject)+
  have up: "[k..<Suc (length ys)] = k # Suc k # [Suc (Suc k)..<Suc (length ys)]"
    using k by (metis Suc_leI Suc_lessI less_Suc_eq upt_conv_Cons upt_eq_Cons_conv)
  have up': "[Suc k..<Suc (length ys)] = Suc k # [Suc (Suc k)..<Suc (length ys)]"
    using k by (simp add: upt_rec)
  have "lcs_row (xs ! i) bs (map (lcs_len xs ys i) [Suc k..<Suc (length ys)]) (lcs_len xs ys (Suc i) (Suc k))
     = map (lcs_len xs ys (Suc i)) [Suc (Suc k)..<Suc (length ys)]"
    using Cons.IH [of "Suc k"] Cons.prems(1) b(2) by simp
  then show ?case
    unfolding up up' using b(1) by (simp add: Let_def up' del: upt_Suc)
qed (simp del: upt_Suc)

lemma lcs_rows_eq:
  assumes "i + length as = length xs" "as = drop i xs"
  shows "lcs_rows as ys (map (lcs_len xs ys i) [0..<Suc (length ys)])
     = map (\<lambda>i. map (lcs_len xs ys i) [0..<Suc (length ys)]) [Suc i..<Suc (length xs)]"
  using assms
proof (induction as arbitrary: i)
  case (Cons a as)
  have i: "i < length xs" using Cons.prems(1) unfolding length_Cons by linarith
  have a: "a = xs ! i" "as = drop (Suc i) xs"
    using Cons.prems(2) i by (metis Cons_nth_drop_Suc list.inject)+
  have row: "0 # lcs_row a ys (map (lcs_len xs ys i) [0..<Suc (length ys)]) 0
      = map (lcs_len xs ys (Suc i)) [0..<Suc (length ys)]"
    using lcs_row_eq [of 0 ys ys i xs] i a(1) by (simp add: upt_conv_Cons del: upt_Suc)
  have up: "[Suc i..<Suc (length xs)] = Suc i # [Suc (Suc i)..<Suc (length xs)]"
    using i by (simp add: upt_rec)
  show ?case
    unfolding up using Cons.IH [of "Suc i"] Cons.prems(1) a(2) by (simp add: Let_def row del: upt_Suc)
qed (simp del: upt_Suc)

lemma lcs_table_nth:
  assumes "i \<le> length xs" "j \<le> length ys"
  shows "lcs_table xs ys ! i ! j = lcs_len xs ys i j"
proof -
  have zeros: "replicate (length ys + 1) 0 = map (lcs_len xs ys 0) [0..<Suc (length ys)]"
    by (rule nth_equalityI) (simp_all del: upt_Suc replicate.simps)
  have rows: "lcs_rows xs ys (map (lcs_len xs ys 0) [0..<Suc (length ys)])
      = map (\<lambda>i. map (lcs_len xs ys i) [0..<Suc (length ys)]) [Suc 0..<Suc (length xs)]"
    by (rule lcs_rows_eq) simp_all
  have up: "[0..<Suc (length xs)] = 0 # [Suc 0..<Suc (length xs)]"
    by (simp add: upt_conv_Cons del: upt_Suc)
  have "lcs_table xs ys = map (\<lambda>i. map (lcs_len xs ys i) [0..<Suc (length ys)]) [0..<Suc (length xs)]"
    unfolding lcs_table_def Let_def zeros rows up list.map ..
  then show ?thesis using assms by (simp del: upt_Suc)
qed

section \<open>The walk back finds a longest common subsequence\<close>

lemma subseq_snoc:
  assumes "subseq zs (xs @ [a])"
  shows "subseq zs xs \<or> (\<exists>ws. zs = ws @ [a] \<and> subseq ws xs)"
proof -
  from assms obtain us vs where zs: "zs = us @ vs" "subseq us xs" "subseq vs [a]"
    by (auto simp: subseq_appendE elim: subseq_appendE)
  then have "vs = [] \<or> vs = [a]" by (cases vs) (auto split: if_splits)
  then show ?thesis using zs by auto
qed

lemma subseq_butlast: "subseq zs xs \<Longrightarrow> subseq (butlast zs) xs"
  by (meson prefix_imp_subseq prefixeq_butlast subseq_order.trans)

lemma lcs_len_bound:
  assumes "subseq zs (take i xs)" "subseq zs (take j ys)" "i \<le> length xs" "j \<le> length ys"
  shows "length zs \<le> lcs_len xs ys i j"
  using assms
proof (induction xs ys i j arbitrary: zs rule: lcs_len.induct)
  case (3 xs ys i j)
  have tx: "take (Suc i) xs = take i xs @ [xs ! i]" and ty: "take (Suc j) ys = take j ys @ [ys ! j]"
    using 3(6,7) by (simp_all add: take_Suc_conv_app_nth)
  have x: "subseq zs (take i xs) \<or> (\<exists>ws. zs = ws @ [xs ! i] \<and> subseq ws (take i xs))"
    using 3(4) unfolding tx by (rule subseq_snoc)
  have y: "subseq zs (take j ys) \<or> (\<exists>ws. zs = ws @ [ys ! j] \<and> subseq ws (take j ys))"
    using 3(5) unfolding ty by (rule subseq_snoc)
  show ?case
  proof (cases "xs ! i = ys ! j")
    case True
    have b1: "subseq (butlast zs) (take i xs)" using x by (auto simp: subseq_butlast)
    have b2: "subseq (butlast zs) (take j ys)" using y by (auto simp: subseq_butlast)
    have "length (butlast zs) \<le> lcs_len xs ys i j"
      by (rule "3.IH"(1) [OF True b1 b2 Suc_leD [OF 3(6)] Suc_leD [OF 3(7)]])
    then have "length zs \<le> lcs_len xs ys i j + 1" unfolding length_butlast by linarith
    then show ?thesis unfolding lcs_len.simps if_P [OF True] .
  next
    case False
    then consider "subseq zs (take i xs)" | "subseq zs (take j ys)" using x y by auto
    then have "length zs \<le> max (lcs_len xs ys i (Suc j)) (lcs_len xs ys (Suc i) j)"
    proof cases
      case 1
      then show ?thesis
        using "3.IH"(2) [OF False _ 3(5) Suc_leD [OF 3(6)] 3(7)] unfolding le_max_iff_disj by blast
    next
      case 2
      then show ?thesis
        using "3.IH"(3) [OF False 3(4) _ 3(6) Suc_leD [OF 3(7)]] unfolding le_max_iff_disj by blast
    qed
    then show ?thesis unfolding lcs_len.simps if_not_P [OF False] .
  qed
qed auto

lemma lcs_walk_sound:
  assumes "i \<le> length xs" "j \<le> length ys"
  shows "\<exists>zs. lcs_walk (lcs_table xs ys) xs ys i j kept = set zs \<union> kept \<and> subseq zs (take i xs)
     \<and> subseq zs (take j ys) \<and> length zs = lcs_len xs ys i j"
  using assms
proof (induction "lcs_table xs ys" xs ys i j kept rule: lcs_walk.induct)
  case (1 xs ys i j kept)
  show ?case
  proof (cases "i = 0 \<or> j = 0")
    case True
    then have "lcs_len xs ys i j = 0" by (cases i; cases j) auto
    then show ?thesis using True by (subst lcs_walk.simps) (auto intro: exI [of _ "[]"])
  next
    case False
    then obtain k l where kl: "i = Suc k" "j = Suc l" by (metis not0_implies_Suc)
    have tx: "take i xs = take k xs @ [xs ! k]" and ty: "take j ys = take l ys @ [ys ! l]"
      using 1(4,5) kl by (simp_all add: take_Suc_conv_app_nth)
    note step = lcs_walk.simps [of "lcs_table xs ys" xs ys i j kept]
    show ?thesis
    proof (cases "xs ! k = ys ! l")
      case True
      with 1(1) [of ] 1(4,5) False kl obtain zs where zs:
        "lcs_walk (lcs_table xs ys) xs ys k l (insert (xs ! k) kept) = set zs \<union> insert (xs ! k) kept"
        "subseq zs (take k xs)" "subseq zs (take l ys)" "length zs = lcs_len xs ys k l" by auto
      show ?thesis
        by (rule exI [of _ "zs @ [xs ! k]"])
          (use zs True kl tx ty step in \<open>auto intro: list_emb_append_mono\<close>)
    next
      case neq: False
      show ?thesis
      proof (cases "lcs_table xs ys ! i ! (j - 1) \<le> lcs_table xs ys ! (i - 1) ! j")
        case True
        with 1(2) 1(4,5) False neq kl obtain zs where zs:
          "lcs_walk (lcs_table xs ys) xs ys k j kept = set zs \<union> kept"
          "subseq zs (take k xs)" "subseq zs (take j ys)" "length zs = lcs_len xs ys k j" by auto
        have "lcs_len xs ys i l \<le> lcs_len xs ys k j"
          using True kl 1(4,5) by (simp add: lcs_table_nth)
        then show ?thesis
          by (intro exI [of _ zs]) (use zs True False neq kl tx step in \<open>auto simp: max_def\<close>)
      next
        case ge: False
        with 1(3) 1(4,5) False neq kl obtain zs where zs:
          "lcs_walk (lcs_table xs ys) xs ys i l kept = set zs \<union> kept"
          "subseq zs (take i xs)" "subseq zs (take l ys)" "length zs = lcs_len xs ys i l" by auto
        have "lcs_len xs ys k j \<le> lcs_len xs ys i l"
          using ge kl 1(4,5) by (simp add: lcs_table_nth)
        then show ?thesis
          by (intro exI [of _ zs]) (use zs ge False neq kl ty step in \<open>auto simp: max_def\<close>)
      qed
    qed
  qed
qed


lemma longest_common_subsequence:
  obtains zs where "longest_common_subsequence xs ys = set zs" "subseq zs xs" "subseq zs ys"
    "\<And>ws. subseq ws xs \<Longrightarrow> subseq ws ys \<Longrightarrow> length ws \<le> length zs"
proof -
  obtain zs where zs: "longest_common_subsequence xs ys = set zs" "subseq zs xs" "subseq zs ys"
      "length zs = lcs_len xs ys (length xs) (length ys)"
    using lcs_walk_sound [of "length xs" xs "length ys" ys "{}"]
    by (auto simp: longest_common_subsequence_def)
  have "length ws \<le> length zs" if "subseq ws xs" "subseq ws ys" for ws
    using lcs_len_bound [of ws "length xs" xs "length ys" ys] that zs(4) by simp
  then show ?thesis using zs that by blast
qed

section \<open>What the difference covers\<close>

lemma subseq_distinct_filter:
  "subseq zs xs \<Longrightarrow> distinct xs \<Longrightarrow> filter (\<lambda>x. x \<in> set zs) xs = zs"
proof (induction rule: list_emb.induct)
  case (list_emb_Nil ys)
  then show ?case by simp
next
  case (list_emb_Cons xs ys y)
  then have "y \<notin> set xs" using list_emb_set [of "(=)" xs ys] by auto
  then show ?case using list_emb_Cons by simp
next
  case (list_emb_Cons2 x y xs ys)
  then have "filter (\<lambda>z. z \<in> set (x # xs)) ys = filter (\<lambda>z. z \<in> set xs) ys"
    by (intro filter_cong) auto
  then show ?case using list_emb_Cons2 by simp
qed

lemma map_key_eqI:
  assumes "map f xs = map f ys" "\<And>x y. x \<in> set xs \<Longrightarrow> y \<in> set ys \<Longrightarrow> f x = f y \<Longrightarrow> x = y"
  shows "xs = ys"
proof (rule nth_equalityI)
  show len: "length xs = length ys" using assms(1) by (metis length_map)
  fix i
  assume i: "i < length xs"
  then have "f (xs ! i) = f (ys ! i)" using assms(1) len by (metis nth_map)
  then show "xs ! i = ys ! i" using assms(2) i len by simp
qed

lemma clips_by_id_keys:
  "fst ` set (clips_by_id x) = clip_id ` set (content_clips x) \<union> bgm_clip_id ` set (content_bgm x)"
  by (simp add: clips_by_id_def image_Un image_image)

lemma valid_content_ids:
  assumes "valid_content x"
  shows "c \<in> set (content_clips x) \<Longrightarrow> is_clip_id (clip_id c)"
    and "b \<in> set (content_bgm x) \<Longrightarrow> is_bgm_clip_id (bgm_clip_id b)"
    and "distinct (map clip_id (content_clips x))" and "distinct (map bgm_clip_id (content_bgm x))"
  using assms by (auto simp: valid_content_def valid_clip_def valid_bgm_clip_def list_all_iff
      content_validators_def unique_ids_def)

lemma clip_ids_apart:
  assumes "valid_content v" "valid_content w" "i \<in> clip_id ` set (content_clips v)"
  shows "i \<notin> bgm_clip_id ` set (content_bgm w)"
proof
  assume "i \<in> bgm_clip_id ` set (content_bgm w)"
  then have "is_bgm_clip_id i" using valid_content_ids(2) [OF assms(2)] by blast
  moreover have "is_clip_id i" using valid_content_ids(1) [OF assms(1)] assms(3) by blast
  ultimately show False using clip_ids_disjoint by blast
qed

lemma by_id_clip:
  assumes "valid_content x"
  shows "c \<in> set (content_clips x) \<Longrightarrow> by_id x (clip_id c) = Some (Inl c)"
    and "b \<in> set (content_bgm x) \<Longrightarrow> by_id x (bgm_clip_id b) = Some (Inr b)"
proof -
  note v = valid_content_ids [OF assms]
  have "clip_id ` set (content_clips x) \<inter> bgm_clip_id ` set (content_bgm x) = {}"
    using clip_ids_apart [OF assms assms] by blast
  then have "distinct (map fst (clips_by_id x))"
    using v(3,4) by (simp add: clips_by_id_def comp_def)
  then have d: "distinct (map fst (rev (clips_by_id x)))" by (simp flip: rev_map)
  show "c \<in> set (content_clips x) \<Longrightarrow> by_id x (clip_id c) = Some (Inl c)"
    and "b \<in> set (content_bgm x) \<Longrightarrow> by_id x (bgm_clip_id b) = Some (Inr b)"
    unfolding by_id_def by (rule map_of_is_SomeI [OF d], simp add: clips_by_id_def)+
qed

text \<open>Common IDs in the order of each content\<close>

definition common_ids :: "edit_timeline_content \<Rightarrow> edit_timeline_content \<Rightarrow> string list" where
  "common_ids x y = filter (\<lambda>i. i \<in> clip_id ` set (content_clips y)) (map clip_id (content_clips x))"

lemma diff_moved_common:
  assumes "valid_content x" "valid_content y"
  shows "diff_moved (diff_content x y) =
    set (common_ids x y) - longest_common_subsequence (common_ids x y) (common_ids y x)"
proof -
  have ids: "filter (\<lambda>i. i \<in> fst ` set (clips_by_id w)) (map clip_id (content_clips v)) = common_ids v w"
    if "valid_content v" "valid_content w" for v w
    unfolding common_ids_def clips_by_id_keys using clip_ids_apart [OF that] by (intro filter_cong) auto
  show ?thesis
    unfolding diff_content_def Let_def ids [OF assms] ids [OF assms(2,1)] content_diff.select_convs by auto
qed

lemma diff_changedD:
  assumes "i \<notin> diff_changed (diff_content x y)"
  shows "i \<in> fst ` set (clips_by_id x) \<longleftrightarrow> i \<in> fst ` set (clips_by_id y)"
    and "i \<in> fst ` set (clips_by_id x) \<Longrightarrow> by_id x i = by_id y i"
    and "i \<notin> diff_moved (diff_content x y)"
  using assms by (auto simp: diff_changed_def diff_content_def Let_def)

lemma unchanged_id_order:
  assumes "valid_content x" "valid_content y" "diff_changed (diff_content x y) \<subseteq> M"
  shows "filter (\<lambda>i. i \<notin> M) (map clip_id (content_clips x)) = filter (\<lambda>i. i \<notin> M) (map clip_id (content_clips y))"
proof -
  obtain zs where zs: "longest_common_subsequence (common_ids x y) (common_ids y x) = set zs"
      "subseq zs (common_ids x y)" "subseq zs (common_ids y x)"
    using longest_common_subsequence [of "common_ids x y" "common_ids y x"] by metis
  have side: "filter (\<lambda>i. i \<notin> M) (map clip_id (content_clips v)) = filter (\<lambda>i. i \<notin> M) zs"
    if v: "valid_content v" "subseq zs (common_ids v w)"
      and mem: "\<And>i. i \<in> clip_id ` set (content_clips v) \<Longrightarrow> i \<notin> M
          \<Longrightarrow> i \<in> clip_id ` set (content_clips w) \<and> i \<in> set zs" for v w
  proof -
    have d: "distinct (common_ids v w)"
      unfolding common_ids_def using valid_content_ids(3) [OF v(1)] by (rule distinct_filter)
    have "filter (\<lambda>i. i \<notin> M) (map clip_id (content_clips v))
        = filter (\<lambda>i. i \<notin> M) (filter (\<lambda>i. i \<in> set zs) (common_ids v w))"
      unfolding common_ids_def filter_filter using mem by (intro filter_cong) auto
    also have "\<dots> = filter (\<lambda>i. i \<notin> M) zs" using subseq_distinct_filter [OF v(2) d] by simp
    finally show ?thesis .
  qed
  have moved: "i \<in> set zs" if "i \<in> set (common_ids x y)" "i \<notin> M" for i
    using that assms(3) diff_changedD(3) [of i x y] unfolding diff_moved_common [OF assms(1,2)] zs(1) by blast
  have both: "i \<in> clip_id ` set (content_clips x) \<longleftrightarrow> i \<in> clip_id ` set (content_clips y)" if "i \<notin> M" for i
    using that assms(3) diff_changedD(1) [of i x y] clip_ids_apart [OF assms(1,2), of i] clip_ids_apart [OF assms(2,1), of i]
    unfolding clips_by_id_keys by blast
  have "filter (\<lambda>i. i \<notin> M) (map clip_id (content_clips x)) = filter (\<lambda>i. i \<notin> M) zs"
    by (rule side [OF assms(1) zs(2)]) (use both moved in \<open>auto simp: common_ids_def\<close>)
  moreover have "filter (\<lambda>i. i \<notin> M) (map clip_id (content_clips y)) = filter (\<lambda>i. i \<notin> M) zs"
    by (rule side [OF assms(2) zs(3)]) (use both moved in \<open>auto simp: common_ids_def\<close>)
  ultimately show ?thesis by simp
qed

text \<open>Clips outside a set that covers the difference are the same clips in the same order.\<close>

definition agree_outside :: "string set \<Rightarrow> edit_timeline_content \<Rightarrow> edit_timeline_content \<Rightarrow> bool" where
  "agree_outside M x y =
     (filter (\<lambda>c. clip_id c \<notin> M) (content_clips x) = filter (\<lambda>c. clip_id c \<notin> M) (content_clips y)
    \<and> {c \<in> set (content_bgm x). bgm_clip_id c \<notin> M} = {c \<in> set (content_bgm y). bgm_clip_id c \<notin> M})"

theorem diff_covers:
  assumes "valid_content x" "valid_content y" "diff_changed (diff_content x y) \<subseteq> M"
  shows "agree_outside M x y"
proof -
  have same: "by_id x i = by_id y i" if "i \<notin> M" "i \<in> fst ` set (clips_by_id x)" for i
    using that assms(3) diff_changedD(2) [of i x y] by blast
  have ids: "map clip_id (filter (\<lambda>c. clip_id c \<notin> M) (content_clips x))
      = map clip_id (filter (\<lambda>c. clip_id c \<notin> M) (content_clips y))"
    using unchanged_id_order [OF assms] by (simp add: filter_map comp_def)
  have clips: "filter (\<lambda>c. clip_id c \<notin> M) (content_clips x) = filter (\<lambda>c. clip_id c \<notin> M) (content_clips y)"
  proof (rule map_key_eqI [OF ids])
    fix c d
    assume c: "c \<in> set (filter (\<lambda>c. clip_id c \<notin> M) (content_clips x))"
      and d: "d \<in> set (filter (\<lambda>c. clip_id c \<notin> M) (content_clips y))" and id: "clip_id c = clip_id d"
    have "by_id x (clip_id c) = by_id y (clip_id c)"
      by (rule same) (use c in \<open>auto simp: clips_by_id_keys\<close>)
    moreover have "by_id x (clip_id c) = Some (Inl c)" using c by (intro by_id_clip(1) [OF assms(1)]) simp
    moreover have "by_id y (clip_id d) = Some (Inl d)" using d by (intro by_id_clip(1) [OF assms(2)]) simp
    ultimately have "Inl c = (Inl d :: edit_clip + bgm_clip)" using id by (metis option.inject)
    then show "c = d" by (rule Inl_inject)
  qed
  have mem: "c \<in> set (content_bgm w)"
    if "c \<in> set (content_bgm v)" "bgm_clip_id c \<notin> M" "valid_content v" "valid_content w"
      and "by_id v (bgm_clip_id c) = by_id w (bgm_clip_id c)" for c v w
  proof -
    have "by_id w (bgm_clip_id c) = Some (Inr c)" using by_id_clip(2) [OF that(3,1)] that(5) by simp
    then show ?thesis unfolding by_id_def by (auto dest!: map_of_SomeD simp: clips_by_id_def)
  qed
  have bsame: "by_id x (bgm_clip_id c) = by_id y (bgm_clip_id c)"
    if "c \<in> set (content_bgm x) \<union> set (content_bgm y)" "bgm_clip_id c \<notin> M" for c
  proof (rule same [OF that(2)])
    have "bgm_clip_id c \<in> fst ` set (clips_by_id x) \<longleftrightarrow> bgm_clip_id c \<in> fst ` set (clips_by_id y)"
      using that(2) assms(3) by (intro diff_changedD(1)) blast
    moreover have "bgm_clip_id c \<in> fst ` set (clips_by_id x) \<or> bgm_clip_id c \<in> fst ` set (clips_by_id y)"
      using that(1) unfolding clips_by_id_keys by blast
    ultimately show "bgm_clip_id c \<in> fst ` set (clips_by_id x)" by blast
  qed
  have "{c \<in> set (content_bgm x). bgm_clip_id c \<notin> M} = {c \<in> set (content_bgm y). bgm_clip_id c \<notin> M}"
  proof (rule set_eqI)
    fix c :: bgm_clip
    show "c \<in> {c \<in> set (content_bgm x). bgm_clip_id c \<notin> M} \<longleftrightarrow> c \<in> {c \<in> set (content_bgm y). bgm_clip_id c \<notin> M}"
    proof (cases "bgm_clip_id c \<in> M")
      case c: False
      have "c \<in> set (content_bgm y)" if "c \<in> set (content_bgm x)"
        by (rule mem [OF that c assms(1,2)]) (use bsame [OF _ c] that in blast)
      moreover have "c \<in> set (content_bgm x)" if "c \<in> set (content_bgm y)"
        by (rule mem [OF that c assms(2,1)]) (use bsame [OF _ c] that in \<open>metis UnI2\<close>)
      ultimately show ?thesis by blast
    qed simp
  qed
  with clips show ?thesis unfolding agree_outside_def by blast
qed

text \<open>
  No smaller set of clips explains the new order: taking any other clips out so that the common
  rest is in the same order takes out at least as many.
\<close>

lemma diff_moved_minimal:
  assumes "valid_content x" "valid_content y"
    and "filter (\<lambda>i. i \<notin> M) (common_ids x y) = filter (\<lambda>i. i \<notin> M) (common_ids y x)"
  shows "card (diff_moved (diff_content x y)) \<le> card (M \<inter> set (common_ids x y))"
proof -
  let ?xs = "common_ids x y" and ?ys = "common_ids y x"
  obtain zs where zs: "longest_common_subsequence ?xs ?ys = set zs" "subseq zs ?xs"
      "\<And>ws. subseq ws ?xs \<Longrightarrow> subseq ws ?ys \<Longrightarrow> length ws \<le> length zs"
    using longest_common_subsequence [of ?xs ?ys] by metis
  have d: "distinct ?xs"
    unfolding common_ids_def using valid_content_ids(3) [OF assms(1)] by (rule distinct_filter)
  let ?ws = "filter (\<lambda>i. i \<notin> M) ?xs"
  have "length ?ws \<le> length zs"
    by (rule zs(3)) (simp, metis assms(3) subseq_filter_left)
  moreover have "length ?ws = card (set ?xs - M)"
    using d by (simp add: distinct_card [symmetric] set_diff_eq)
  moreover have "length zs = card (set zs)"
    using zs(2) d subseq_distinct_filter by (metis distinct_card distinct_filter)
  moreover have "set zs \<subseteq> set ?xs" using zs(2) by (auto dest: list_emb_set)
  moreover have "card (set ?xs - set zs) = card (set ?xs) - card (set zs)"
    using calculation(4) by (simp add: card_Diff_subset)
  moreover have "card (set ?xs) = card (set ?xs - M) + card (M \<inter> set ?xs)"
    by (metis Diff_disjoint Int_commute card_Int_Diff finite_set inf.commute add.commute)
  ultimately show ?thesis
    unfolding diff_moved_common [OF assms(1,2)] zs(1) by linarith
qed

lemma restore_superset: "diff_changed (diff_content x y) \<subseteq> restore_changed_clip_ids x y"
  by (simp add: restore_changed_clip_ids_def Let_def)

lemma restore_order:
  assumes "valid_content x" "valid_content y"
  shows "common_ids x y = common_ids y x \<or> set (common_ids x y) \<subseteq> restore_changed_clip_ids x y"
proof (cases "diff_moved (diff_content x y) = {}")
  case True
  obtain zs where zs: "longest_common_subsequence (common_ids x y) (common_ids y x) = set zs"
      "subseq zs (common_ids x y)" "subseq zs (common_ids y x)"
    using longest_common_subsequence [of "common_ids x y" "common_ids y x"] by metis
  have d: "distinct (common_ids v w)" if "valid_content v" for v w
    unfolding common_ids_def using valid_content_ids(3) [OF that] by (rule distinct_filter)
  have all: "set (common_ids x y) \<subseteq> set zs" "set (common_ids y x) \<subseteq> set zs"
    using True unfolding diff_moved_common [OF assms] zs(1) by (auto simp: common_ids_def)
  have "common_ids x y = zs"
    using subseq_distinct_filter [OF zs(2) d [OF assms(1)]] all(1) by (simp add: filter_id_conv subset_iff)
  moreover have "common_ids y x = zs"
    using subseq_distinct_filter [OF zs(3) d [OF assms(2)]] all(2) by (simp add: filter_id_conv subset_iff)
  ultimately show ?thesis by simp
next
  case False
  then show ?thesis by (auto simp: restore_changed_clip_ids_def Let_def common_ids_def)
qed

lemma agree_outside_trans: "agree_outside M x y \<Longrightarrow> agree_outside M y z \<Longrightarrow> agree_outside M x z"
  by (simp add: agree_outside_def)

lemma agree_outside_refl [simp]: "agree_outside M x x"
  by (simp add: agree_outside_def)

lemma agree_outside_mono:
  assumes "agree_outside M x y" "M \<subseteq> N"
  shows "agree_outside N x y"
proof -
  have "{c \<in> set (content_bgm x). bgm_clip_id c \<notin> N} = {c \<in> set (content_bgm y). bgm_clip_id c \<notin> N}"
    using assms unfolding agree_outside_def by blast
  moreover have "filter (\<lambda>c. clip_id c \<notin> N) (content_clips x) = filter (\<lambda>c. clip_id c \<notin> N) (content_clips y)"
    using assms unfolding agree_outside_def by (blast intro: filter_narrow)
  ultimately show ?thesis unfolding agree_outside_def by blast
qed

end
