(* ===== verification/TimelineService.thy ===== *)
theory TimelineService
  imports TimelineBatch TimelineDiff
begin

text \<open>
  The store and the service of edit timelines (\<open>lib/edit_timeline/store.py\<close>, \<open>service.py\<close>).  A
  store maps the file of an episode and an ID to what the file holds; each \<open>_sync\<close> method of the
  service, which the code runs under the lock of the episode, is a function on the store.  Random
  tokens, the clock, the loader of episode facts and Unicode case folding are arguments.
\<close>

section \<open>The store\<close>

datatype stored = Unreadable | Document edit_timeline_document

type_synonym store = "((nat \<times> string) \<times> stored) list"

text \<open>\<open>_parse_document\<close>\<close>

definition parse_document :: "string \<Rightarrow> stored \<Rightarrow> edit_timeline_document result" where
  "parse_document tid f =
     (case f of Unreadable \<Rightarrow> Inl TimelineInvalid
      | Document d \<Rightarrow> if doc_id d \<noteq> tid then Inl TimelineInvalid else Inr d)"

definition episode_files :: "store \<Rightarrow> ((nat \<times> string) \<times> stored) list" where
  "episode_files st = filter (\<lambda>((ep, tid), _). is_timeline_id tid) (sort_key fst st)"

definition document_order :: "edit_timeline_document \<Rightarrow> nat \<times> string \<times> string" where
  "document_order d = (doc_episode d, doc_created_at d, doc_id d)"

text \<open>\<open>list_documents\<close>, which skips files it cannot parse unless \<open>strict\<close>\<close>

fun collect_documents ::
  "nat option \<Rightarrow> bool \<Rightarrow> ((nat \<times> string) \<times> stored) list \<Rightarrow> edit_timeline_document list result" where
  "collect_documents episode strict [] = Inr []"
| "collect_documents episode strict (((ep, tid), f) # files) =
     (if episode \<noteq> None \<and> episode \<noteq> Some ep then collect_documents episode strict files
      else case parse_document tid f of
             Inl e \<Rightarrow> if strict then Inl e else collect_documents episode strict files
           | Inr d \<Rightarrow> ebind (collect_documents episode strict files)
               (\<lambda>ds. Inr (if doc_episode d = ep then d # ds else ds)))"

definition list_documents :: "store \<Rightarrow> nat option \<Rightarrow> bool \<Rightarrow> edit_timeline_document list result" where
  "list_documents st episode strict =
     ebind (collect_documents episode strict (episode_files st)) (\<lambda>ds. Inr (sort_key document_order ds))"

definition has_documents :: "store \<Rightarrow> nat \<Rightarrow> bool" where
  "has_documents st episode = list_ex (\<lambda>((ep, tid), _). ep = episode \<and> is_timeline_id tid) st"

definition find_document :: "store \<Rightarrow> string \<Rightarrow> edit_timeline_document result" where
  "find_document st tid =
     (if \<not> is_timeline_id tid then Inl TimelineNotFound
      else case find (\<lambda>((ep, t), _). t = tid) (episode_files st) of
             None \<Rightarrow> Inl TimelineNotFound
           | Some ((ep, _), f) \<Rightarrow> ebind (parse_document tid f)
               (\<lambda>d. if doc_episode d \<noteq> ep then Inl TimelineInvalid else Inr d))"

definition write_document :: "edit_timeline_document \<Rightarrow> store \<Rightarrow> store" where
  "write_document d st = dict_set (doc_episode d, doc_id d) (Document d) st"

definition delete_document :: "edit_timeline_document \<Rightarrow> store \<Rightarrow> store" where
  "delete_document d st = dict_pop (doc_episode d, doc_id d) st"

text \<open>\<open>read_timeline_document\<close>: by episode and ID, without the lock\<close>

definition read_timeline_document :: "store \<Rightarrow> nat \<Rightarrow> string \<Rightarrow> edit_timeline_document option" where
  "read_timeline_document st episode tid =
     (if \<not> is_timeline_id tid then None
      else case map_of st (episode, tid) of None \<Rightarrow> None
           | Some f \<Rightarrow> (case parse_document tid f of Inl _ \<Rightarrow> None
               | Inr d \<Rightarrow> if doc_episode d = episode then Some d else None))"

section \<open>New documents\<close>

definition ascii :: "string \<Rightarrow> text_value" where
  "ascii s = map of_char s"

definition MECHANICAL_CREATION_SUMMARY :: text_value where
  "MECHANICAL_CREATION_SUMMARY = [25353, 24403, 21069, 33050, 26412, 26426, 26800, 26032, 24314, 65306, 27599, 20010, 35270, 39057, 21333, 20803, 25972, 27573, 20351, 29992, 12289, 20840, 37096, 30828, 20999]"

definition REVISION_SUMMARY_MAX_LENGTH :: nat where [simp]: "REVISION_SUMMARY_MAX_LENGTH = 200"

definition copy_summary :: "text_value \<Rightarrow> nat \<Rightarrow> text_value" where
  "copy_summary name n = [22797, 21046, 33258, 12300] @ name @ [12301, 30340, 20462, 35746, 32] @ ascii (decimal n)"

definition restore_summary :: "nat \<Rightarrow> text_value" where
  "restore_summary n = [22238, 28378, 21040, 20462, 35746, 32] @ ascii (decimal n) @ [65292, 25764, 38144, 20043, 21518, 30340, 25913, 21160, 65307, 22238, 28378, 21069, 30340, 20462, 35746, 20173, 20445, 30041, 22312, 21382, 21490, 37324]"

definition mechanical_clip :: "nat \<Rightarrow> script_unit \<Rightarrow> edit_clip" where
  "mechanical_clip index u = \<lparr>clip_id = make_clip_id index, clip_unit_id = su_unit_id u,
     clip_trim = None, source_volume = default_source_volume (su_speech_mode u), hold_us = 0,
     carries_narration = True, clip_reason = None, transition_to_next = None\<rparr>"

definition mechanical_content :: "script_unit list \<Rightarrow> edit_timeline_content result" where
  "mechanical_content units =
     (let x = \<lparr>content_clips = map (\<lambda>(i, u). mechanical_clip i u) (enumerate 1 units), content_bgm = []\<rparr>
      in if valid_content x then Inr x else Inl ValidationError)"

definition normalized_name :: "(text_value \<Rightarrow> text_value) \<Rightarrow> text_value \<Rightarrow> text_value result" where
  "normalized_name strip_whitespace name =
     (let n = strip_whitespace name
      in if 1 \<le> length n \<and> length n \<le> 40 then Inr n else Inl TimelineNameInvalid)"

definition ensure_name_free ::
  "(text_value \<Rightarrow> text_value) \<Rightarrow> store \<Rightarrow> nat \<Rightarrow> text_value \<Rightarrow> string option \<Rightarrow> unit result" where
  "ensure_name_free casefold st episode name excluding =
     ebind (list_documents st (Some episode) False) (\<lambda>ds.
       ensure (\<not> list_ex (\<lambda>d. Some (doc_id d) \<noteq> excluding \<and> casefold (doc_name d) = casefold name) ds)
         TimelineNameConflict)"

definition successors :: "edit_timeline_content \<Rightarrow> string \<rightharpoonup> string" where
  "successors x = map_of (rev (pairwise (map clip_id (content_clips x))))"

text \<open>What building a document through Pydantic does: reject what the validators reject\<close>

definition validated :: "edit_timeline_document \<Rightarrow> edit_timeline_document result" where
  "validated d = (if valid_document d then Inr d else Inl ValidationError)"

definition new_document ::
  "string \<Rightarrow> string \<Rightarrow> nat \<Rightarrow> text_value \<Rightarrow> edit_timeline_content \<Rightarrow> text_value \<Rightarrow> revision_author \<Rightarrow> nat \<Rightarrow> nat
    \<Rightarrow> edit_timeline_document result" where
  "new_document token now episode name x summary author nc nb =
     validated \<lparr>doc_id = ''tl-'' @ token, doc_episode = episode, doc_name = name, doc_created_at = now,
       next_clip_number = nc, next_bgm_number = nb,
       doc_revisions = [\<lparr>rev_number = 1, rev_parent = None, rev_author = author, rev_summary = summary,
         rev_created_at = now, rev_content = x, changed_clip_ids = None, restored_from = None\<rparr>]\<rparr>"


section \<open>Reading\<close>

definition base_revision :: "edit_timeline_document \<Rightarrow> int \<Rightarrow> timeline_revision result" where
  "base_revision d n = (case revision d n of None \<Rightarrow> Inl (RevisionNotFound n) | Some r \<Rightarrow> Inr r)"

record timeline_summary =
  ts_id :: string
  ts_name :: text_value
  ts_episode :: nat
  ts_revision :: nat
  ts_clip_count :: nat
  ts_created_at :: string
  ts_updated_at :: string
  ts_updated_by :: revision_author
  ts_update_summary :: text_value

definition summarize :: "edit_timeline_document \<Rightarrow> timeline_summary" where
  "summarize d = \<lparr>ts_id = doc_id d, ts_name = doc_name d, ts_episode = doc_episode d,
     ts_revision = rev_number (latest d), ts_clip_count = length (content_clips (rev_content (latest d))),
     ts_created_at = doc_created_at d, ts_updated_at = rev_created_at (latest d),
     ts_updated_by = rev_author (latest d), ts_update_summary = rev_summary (latest d)\<rparr>"

definition list_timelines :: "store \<Rightarrow> nat option \<Rightarrow> timeline_summary list result" where
  "list_timelines st episode = ebind (list_documents st episode False) (\<lambda>ds. Inr (map summarize ds))"

record revision_summary =
  rs_number :: nat
  rs_parent :: "nat option"
  rs_author :: revision_author
  rs_summary :: text_value
  rs_created_at :: string
  rs_clip_count :: nat
  rs_changed_clip_ids :: "string list option"
  rs_restored_from :: "nat option"

definition list_revisions :: "store \<Rightarrow> string \<Rightarrow> (nat \<times> revision_summary list) result" where
  "list_revisions st tid = ebind (find_document st tid) (\<lambda>d.
     Inr (rev_number (latest d), map (\<lambda>r. \<lparr>rs_number = rev_number r, rs_parent = rev_parent r,
       rs_author = rev_author r, rs_summary = rev_summary r, rs_created_at = rev_created_at r,
       rs_clip_count = length (content_clips (rev_content r)), rs_changed_clip_ids = changed_clip_ids r,
       rs_restored_from = restored_from r\<rparr>) (doc_revisions d)))"

section \<open>Creating, copying, renaming and deleting\<close>

type_synonym 'a written_store = "('a \<times> store) result"

text \<open>
  \<open>units\<close> are the units \<open>load_episode_script_units\<close> returns for the episode (or its error).
\<close>

definition create_from_script ::
  "(text_value \<Rightarrow> text_value) \<Rightarrow> store \<Rightarrow> script_unit list result \<Rightarrow> string \<Rightarrow> string \<Rightarrow> nat \<Rightarrow> text_value
    \<Rightarrow> revision_author \<Rightarrow> edit_timeline_document written_store" where
  "create_from_script casefold st units token now episode name author =
     ebind units (\<lambda>us.
     ebind (mechanical_content us) (\<lambda>x.
     ebind (ensure_name_free casefold st episode name None) (\<lambda>_.
     ebind (new_document token now episode name x MECHANICAL_CREATION_SUMMARY author
              (length (content_clips x) + 1) 1) (\<lambda>d.
       Inr (d, write_document d st)))))"

definition copy_timeline ::
  "(text_value \<Rightarrow> text_value) \<Rightarrow> store \<Rightarrow> string \<Rightarrow> string \<Rightarrow> string \<Rightarrow> int option \<Rightarrow> text_value
    \<Rightarrow> revision_author \<Rightarrow> edit_timeline_document written_store" where
  "copy_timeline casefold st tid token now number name author =
     ebind (find_document st tid) (\<lambda>source.
     ebind (base_revision source (case number of Some n \<Rightarrow> n | None \<Rightarrow> int (rev_number (latest source)))) (\<lambda>target.
     ebind (ensure_name_free casefold st (doc_episode source) name None) (\<lambda>_.
     ebind (new_document token now (doc_episode source) name (rev_content target)
              (copy_summary (doc_name source) (rev_number target)) author
              (next_clip_number source) (next_bgm_number source)) (\<lambda>d.
       Inr (d, write_document d st)))))"

definition rename_timeline ::
  "(text_value \<Rightarrow> text_value) \<Rightarrow> store \<Rightarrow> string \<Rightarrow> text_value \<Rightarrow> edit_timeline_document written_store" where
  "rename_timeline casefold st tid name =
     ebind (find_document st tid) (\<lambda>d.
       if doc_name d = name then Inr (d, st)
       else ebind (ensure_name_free casefold st (doc_episode d) name (Some tid)) (\<lambda>_.
         let renamed = d\<lparr>doc_name := name\<rparr> in Inr (renamed, write_document renamed st)))"

definition delete_timeline :: "store \<Rightarrow> string \<Rightarrow> edit_timeline_document written_store" where
  "delete_timeline st tid = ebind (find_document st tid) (\<lambda>d. Inr (d, delete_document d st))"

section \<open>Appending revisions\<close>

record written =
  wr_document :: edit_timeline_document
  wr_base_revision :: nat
  wr_previous_latest :: timeline_revision
  wr_affected :: "string set"
  wr_deleted :: "string set"

definition restore_timeline :: "store \<Rightarrow> string \<Rightarrow> string \<Rightarrow> int \<Rightarrow> revision_author \<Rightarrow> written written_store" where
  "restore_timeline st tid now number author =
     ebind (find_document st tid) (\<lambda>d.
     ebind (base_revision d number) (\<lambda>target.
     let last_rev = latest d in
     if rev_content target = rev_content last_rev then Inl RevisionUnchanged
     else
       let changed = restore_changed_clip_ids (rev_content last_rev) (rev_content target);
           r = \<lparr>rev_number = rev_number last_rev + 1, rev_parent = Some (rev_number last_rev),
             rev_author = author, rev_summary = restore_summary (nat number), rev_created_at = now,
             rev_content = rev_content target, changed_clip_ids = Some (sorted_clip_ids changed),
             restored_from = Some (nat number)\<rparr>
       in ebind (validated (d\<lparr>doc_revisions := doc_revisions d @ [r]\<rparr>)) (\<lambda>updated.
          let changes = diff_content (rev_content last_rev) (rev_content target)
          in Inr (\<lparr>wr_document = updated, wr_base_revision = rev_number last_rev,
                wr_previous_latest = last_rev, wr_affected = changed - diff_removed changes,
                wr_deleted = diff_removed changes\<rparr>, write_document updated st))))"

text \<open>The clips others changed after revision \<open>base\<close>\<close>

definition revision_changes :: "timeline_revision \<Rightarrow> timeline_revision \<Rightarrow> string set" where
  "revision_changes previous r = (case changed_clip_ids r of Some ids \<Rightarrow> set ids
     | None \<Rightarrow> diff_changed (diff_content (rev_content previous) (rev_content r)))"

definition changes_since :: "edit_timeline_document \<Rightarrow> nat \<Rightarrow> string set" where
  "changes_since d base = \<Union> (set (map (\<lambda>(p, r). revision_changes p r)
     (zip (butlast (drop (base - 1) (doc_revisions d))) (drop base (doc_revisions d)))))"

definition transition_targets :: "timeline_operation list \<Rightarrow> string list" where
  "transition_targets ops = List.map_filter (\<lambda>op. case op of SetTransition cid _ \<Rightarrow> Some cid | _ \<Rightarrow> None) ops"

definition conflict :: "string set \<Rightarrow> edit_timeline_error" where
  "conflict ids = RevisionConflict (sorted_clip_ids ids)"

definition check_conflicts ::
  "edit_timeline_document \<Rightarrow> timeline_revision \<Rightarrow> timeline_operation list \<Rightarrow> episode_sources \<Rightarrow> applied_batch result" where
  "check_conflicts d base ops src =
     (let since_base = changes_since d (rev_number base);
          apply_to = (\<lambda>x windows. apply_operations x (next_clip_number d) ops src (next_bgm_number d) windows)
      in ebind (apply_to (rev_content base) False) (\<lambda>on_base.
         let touched = ab_referenced on_base \<union> dict_keys (ab_last_operation on_base) in
         if touched \<inter> since_base \<noteq> {} then Inl (conflict (touched \<inter> since_base))
         else ebind (apply_to (rev_content (latest d)) False) (\<lambda>on_latest.
           if dict_keys (ab_last_operation on_latest) \<inter> since_base \<noteq> {}
           then Inl (conflict (dict_keys (ab_last_operation on_latest) \<inter> since_base))
           else
             let base_next = successors (ab_content on_base); latest_next = successors (ab_content on_latest);
                 moved_cuts = set (filter (\<lambda>c. base_next c \<noteq> latest_next c) (transition_targets ops))
             in if moved_cuts \<noteq> {} then Inl (conflict moved_cuts)
                else apply_to (rev_content (latest d)) True)))"

definition edit_sync ::
  "store \<Rightarrow> string \<Rightarrow> string \<Rightarrow> int \<Rightarrow> text_value \<Rightarrow> timeline_operation list \<Rightarrow> episode_sources \<Rightarrow> revision_author
    \<Rightarrow> written written_store" where
  "edit_sync st tid now base_number summary ops src author =
     ebind (find_document st tid) (\<lambda>d.
     ebind (base_revision d base_number) (\<lambda>base.
     let last_rev = latest d in
     ebind (if rev_number base \<noteq> rev_number last_rev then check_conflicts d base ops src
            else apply_operations (rev_content last_rev) (next_clip_number d) ops src (next_bgm_number d) True)
       (\<lambda>applied.
         let changes = diff_content (rev_content last_rev) (ab_content applied);
             r = \<lparr>rev_number = rev_number last_rev + 1, rev_parent = Some (rev_number last_rev),
               rev_author = author, rev_summary = summary, rev_created_at = now,
               rev_content = ab_content applied,
               changed_clip_ids = Some (sorted_clip_ids (dict_keys (ab_last_operation applied))),
               restored_from = None\<rparr>
         in ebind (validated (d\<lparr>next_clip_number := ab_next_clip_number applied,
                next_bgm_number := ab_next_bgm_number applied, doc_revisions := doc_revisions d @ [r]\<rparr>)) (\<lambda>updated.
            Inr (\<lparr>wr_document = updated, wr_base_revision = rev_number base, wr_previous_latest = last_rev,
                wr_affected = (ab_targets applied \<union> diff_added changes \<union> diff_modified changes) - diff_removed changes,
                wr_deleted = diff_removed changes\<rparr>, write_document updated st)))))"

text \<open>
  \<open>edit\<close> before it takes the lock: checks on the request and a first read, on the store \<open>st0\<close> of
  that moment; the result is the summary it will write and the units whose media it loads.
\<close>

definition edit_request ::
  "store \<Rightarrow> string \<Rightarrow> int \<Rightarrow> text_value \<Rightarrow> timeline_operation list \<Rightarrow> (text_value \<times> string set) result" where
  "edit_request st0 tid base_number summary ops =
     (let s = strip summary in
      if s = [] \<or> length s > REVISION_SUMMARY_MAX_LENGTH then Inl RevisionSummaryInvalid
      else if ops = [] then Inl OperationsEmpty
      else ebind (find_document st0 tid) (\<lambda>d.
           ebind (base_revision d base_number) (\<lambda>base.
             Inr (s, clip_unit_id ` set (content_clips (rev_content base))
               \<union> clip_unit_id ` set (content_clips (rev_content (latest d)))
               \<union> set (List.map_filter (\<lambda>op. case op of InsertClip i \<Rightarrow> Some (ic_unit_id i) | _ \<Rightarrow> None) ops)))))"

text \<open>The whole edit; \<open>st1\<close> is the store when the lock is taken, \<open>load\<close> the loader of episode facts\<close>

definition edit_timeline ::
  "(string set \<Rightarrow> episode_sources) \<Rightarrow> store \<Rightarrow> store \<Rightarrow> string \<Rightarrow> string \<Rightarrow> int \<Rightarrow> text_value \<Rightarrow> timeline_operation list
    \<Rightarrow> revision_author \<Rightarrow> written written_store" where
  "edit_timeline load st0 st1 tid now base_number summary ops author =
     ebind (edit_request st0 tid base_number summary ops) (\<lambda>(s, units).
       edit_sync st1 tid now base_number s ops (load units) author)"

text \<open>The revisions others wrote between the base and this one\<close>

definition concurrent_revisions :: "written \<Rightarrow> timeline_revision list" where
  "concurrent_revisions w = drop (wr_base_revision w)
     (take (rev_number (wr_previous_latest w)) (doc_revisions (wr_document w)))"


section \<open>Documents the service keeps\<close>

definition content_ok :: "edit_timeline_content \<Rightarrow> bool" where
  "content_ok x = (valid_content x \<and> no_dangling (content_clips x) \<and> narrated_once (content_clips x))"

text \<open>Every revision names all the clips in which it differs from the one before.\<close>

definition changes_sound :: "timeline_revision list \<Rightarrow> bool" where
  "changes_sound rs = list_all (\<lambda>(p, r). agree_outside (revision_changes p r) (rev_content p) (rev_content r)) (pairwise rs)"

definition document_ok :: "edit_timeline_document \<Rightarrow> bool" where
  "document_ok d = (valid_document d \<and> list_all (\<lambda>r. content_ok (rev_content r)) (doc_revisions d)
     \<and> changes_sound (doc_revisions d))"

lemma pairwise_zip: "pairwise xs = zip (butlast xs) (tl xs)"
  by (induction xs rule: pairwise.induct) auto

lemma pairwise_append: "xs \<noteq> [] \<Longrightarrow> pairwise (xs @ [y]) = pairwise xs @ [(last xs, y)]"
  by (induction xs rule: pairwise.induct) auto

lemma agree_chain:
  assumes "changes_sound rs" "rs \<noteq> []"
  shows "agree_outside (\<Union> (set (map (\<lambda>(p, r). revision_changes p r) (pairwise rs))))
    (rev_content (hd rs)) (rev_content (last rs))"
  using assms
proof (induction rs rule: pairwise.induct)
  case (1 p r rs)
  let ?U = "\<Union> (set (map (\<lambda>(p, r). revision_changes p r) (pairwise (p # r # rs))))"
  have head: "agree_outside ?U (rev_content p) (rev_content r)"
  proof (rule agree_outside_mono)
    show "agree_outside (revision_changes p r) (rev_content p) (rev_content r)"
      using "1.prems"(1) by (simp add: changes_sound_def)
  qed simp
  have tail: "agree_outside ?U (rev_content r) (rev_content (last (r # rs)))"
  proof (rule agree_outside_mono)
    show "agree_outside (\<Union> (set (map (\<lambda>(p, r). revision_changes p r) (pairwise (r # rs)))))
        (rev_content r) (rev_content (last (r # rs)))"
      using "1.IH" "1.prems"(1) by (simp add: changes_sound_def)
  qed auto
  show ?case using agree_outside_trans [OF head tail] by simp
qed (auto simp: changes_sound_def)

lemma changes_sound_drop: "changes_sound rs \<Longrightarrow> changes_sound (drop n rs)"
proof -
  assume "changes_sound rs"
  moreover have "set (pairwise (drop n rs)) \<subseteq> set (pairwise rs)"
  proof (rule subrelI)
    fix x y
    assume "(x, y) \<in> set (pairwise (drop n rs))"
    then obtain i where "Suc i < length (drop n rs)" "drop n rs ! i = x" "drop n rs ! Suc i = y"
      unfolding pairwise_nth by blast
    then show "(x, y) \<in> set (pairwise rs)"
      unfolding pairwise_nth by (intro exI [of _ "n + i"]) (auto simp: add.commute)
  qed
  ultimately show ?thesis by (auto simp: changes_sound_def list_all_iff)
qed

lemma revision_SomeD:
  assumes "revision d n = Some r" "valid_document d"
  shows "1 \<le> rev_number r" "rev_number r \<le> length (doc_revisions d)" "n = int (rev_number r)"
    "r = doc_revisions d ! (rev_number r - 1)" "r \<in> set (doc_revisions d)"
proof -
  from assms(1) have n: "1 \<le> n" "n \<le> int (length (doc_revisions d))" and r: "r = doc_revisions d ! (nat n - 1)"
    by (auto simp: revision_def split: if_splits)
  have i: "nat n - 1 < length (doc_revisions d)" using n by linarith
  have "rev_number r = map rev_number (doc_revisions d) ! (nat n - 1)" using r i by simp
  also have "\<dots> = [1..<Suc (length (doc_revisions d))] ! (nat n - 1)"
    using assms(2) by (simp add: valid_document_def revision_chain_def)
  also have "\<dots> = nat n" using n i by (simp del: upt_Suc)
  finally have "rev_number r = nat n" .
  then show "1 \<le> rev_number r" "rev_number r \<le> length (doc_revisions d)" "n = int (rev_number r)"
    "r = doc_revisions d ! (rev_number r - 1)" "r \<in> set (doc_revisions d)"
    using n r i by auto
qed

lemma revision_last:
  "doc_revisions d \<noteq> [] \<Longrightarrow> revision d (int (length (doc_revisions d))) = Some (latest d)"
  by (cases "doc_revisions d" rule: rev_cases) (simp_all add: revision_def latest_def nat_add_distrib)

lemma latest_number:
  assumes "valid_document d"
  shows "rev_number (latest d) = length (doc_revisions d)"
proof -
  have "doc_revisions d \<noteq> []" using assms by (simp add: valid_document_def)
  then show ?thesis using revision_SomeD(3) [OF revision_last assms] by simp
qed

lemma latest_mem: "valid_document d \<Longrightarrow> latest d \<in> set (doc_revisions d)"
  by (simp add: latest_def valid_document_def)

theorem changes_since_cover:
  assumes "document_ok d" "revision d n = Some base"
  shows "agree_outside (changes_since d (rev_number base)) (rev_content base) (rev_content (latest d))"
proof -
  have vd: "valid_document d" using assms(1) by (simp add: document_ok_def)
  note b = revision_SomeD [OF assms(2) vd]
  let ?rs = "drop (rev_number base - 1) (doc_revisions d)"
  have ne: "?rs \<noteq> []" using b(1,2) by simp
  have "zip (butlast ?rs) (drop (rev_number base) (doc_revisions d)) = pairwise ?rs"
    using b(1) by (simp add: pairwise_zip drop_Suc tl_drop flip: drop_Suc)
  then have "changes_since d (rev_number base) = \<Union> (set (map (\<lambda>(p, r). revision_changes p r) (pairwise ?rs)))"
    by (simp add: changes_since_def)
  moreover have "hd ?rs = base" using b ne by (simp add: hd_drop_conv_nth)
  moreover have "last ?rs = latest d" using ne by (simp add: latest_def)
  moreover have "changes_sound ?rs" using assms(1) by (simp add: document_ok_def changes_sound_drop)
  ultimately show ?thesis using agree_chain [OF _ ne] by simp
qed


section \<open>Revisions the service appends\<close>

lemma set_sorted_clip_ids: "finite ids \<Longrightarrow> set (sorted_clip_ids ids) = ids"
  by (simp add: sorted_clip_ids_def image_image)

lemma finite_clips_by_id: "finite (fst ` set (clips_by_id x))"
  by simp

lemma diff_changed_keys: "diff_changed (diff_content x y) \<subseteq> fst ` set (clips_by_id x) \<union> fst ` set (clips_by_id y)"
  by (auto simp: diff_changed_def diff_content_def Let_def clips_by_id_keys)

lemma restore_changed_keys:
  "restore_changed_clip_ids x y \<subseteq> fst ` set (clips_by_id x) \<union> fst ` set (clips_by_id y)"
  using diff_changed_keys [of x y] by (auto simp: restore_changed_clip_ids_def Let_def clips_by_id_keys)

lemma clips_by_id_patterns:
  "valid_content x \<Longrightarrow> i \<in> fst ` set (clips_by_id x) \<Longrightarrow> is_clip_id i \<or> is_bgm_clip_id i"
  unfolding clips_by_id_keys using valid_content_ids(1,2) by blast

lemma document_okD:
  assumes "document_ok d"
  shows "valid_document d" "r \<in> set (doc_revisions d) \<Longrightarrow> content_ok (rev_content r)" "changes_sound (doc_revisions d)"
  using assms by (auto simp: document_ok_def list_all_iff)

lemma content_ok_valid: "content_ok x \<Longrightarrow> valid_content x"
  by (simp add: content_ok_def)

lemma revision_editable:
  assumes "document_ok d" "r \<in> set (doc_revisions d)"
  shows "editable (rev_content r) (next_clip_number d) (next_bgm_number d)"
  using assms by (auto simp: document_ok_def valid_document_def revision_chain_def editable_def
      content_ok_def list_all_iff)

text \<open>Appending a revision that continues the chain keeps the document.\<close>

lemma append_revision:
  assumes "document_ok d" "content_ok (rev_content r)"
    and "rev_number r = rev_number (latest d) + 1" "rev_parent r = Some (rev_number (latest d))"
    and "rev_summary r \<noteq> []" "changed_clip_ids r = Some (sorted_clip_ids M)" "finite M"
    and "\<forall>i \<in> M. is_clip_id i \<or> is_bgm_clip_id i" "pred_option (\<lambda>n. 1 \<le> n) (restored_from r)"
    and "agree_outside M (rev_content (latest d)) (rev_content r)"
    and "next_clip_number d \<le> nc" "next_bgm_number d \<le> nb" "ids_allocated nc nb (rev_content r)"
  shows "document_ok (d\<lparr>next_clip_number := nc, next_bgm_number := nb, doc_revisions := doc_revisions d @ [r]\<rparr>)"
    (is "document_ok ?d")
proof -
  note ok = document_okD [OF assms(1)]
  have n: "rev_number (latest d) = length (doc_revisions d)" by (rule latest_number [OF ok(1)])
  have ne: "doc_revisions d \<noteq> []" using ok(1) by (simp add: valid_document_def)
  have "valid_revision r"
    using assms(2-9) n ne set_sorted_clip_ids [OF assms(7)]
    by (auto simp: valid_revision_def content_ok_def list_all_iff Suc_le_eq)
  moreover have "ids_allocated nc nb (rev_content q)" if "q \<in> set (doc_revisions d)" for q
    using that ok(1) assms(11,12)
    by (fastforce simp: valid_document_def revision_chain_def list_all_iff ids_allocated_def)
  ultimately have "valid_document ?d"
    using ok(1) assms(3,11-13) n
    by (auto simp: valid_document_def revision_chain_def list_all_iff)
  moreover have "changes_sound (doc_revisions d @ [r])"
    using ok(3) assms(6,10) ne set_sorted_clip_ids [OF assms(7)]
    by (simp add: changes_sound_def pairwise_append revision_changes_def latest_def)
  ultimately show ?thesis using assms(1,2) by (simp add: document_ok_def)
qed

lemma append_revision_same:
  assumes "document_ok d" "content_ok (rev_content r)"
    and "rev_number r = rev_number (latest d) + 1" "rev_parent r = Some (rev_number (latest d))"
    and "rev_summary r \<noteq> []" "changed_clip_ids r = Some (sorted_clip_ids M)" "finite M"
    and "\<forall>i \<in> M. is_clip_id i \<or> is_bgm_clip_id i" "pred_option (\<lambda>n. 1 \<le> n) (restored_from r)"
    and "agree_outside M (rev_content (latest d)) (rev_content r)"
    and "ids_allocated (next_clip_number d) (next_bgm_number d) (rev_content r)"
  shows "document_ok (d\<lparr>doc_revisions := doc_revisions d @ [r]\<rparr>)"
  using append_revision [OF assms(1-10) order_refl order_refl assms(11)] by simp

lemma apply_operations_agree:
  assumes "apply_operations x nc ops src nb w = Inr r" "editable x nc nb" "valid_sources src"
  shows "agree_outside (dict_keys (ab_last_operation r)) x (ab_content r)"
proof -
  note u = apply_operations_untouched [OF assms]
  have "{c \<in> set (content_bgm x). bgm_clip_id c \<notin> dict_keys (ab_last_operation r)}
      = set (filter (\<lambda>c. map_of (ab_last_operation r) (bgm_clip_id c) = None) (content_bgm x))"
    by (auto simp: dict_keys_iff)
  also have "\<dots> = set (filter (\<lambda>c. map_of (ab_last_operation r) (bgm_clip_id c) = None) (content_bgm (ab_content r)))"
    using u by simp
  also have "\<dots> = {c \<in> set (content_bgm (ab_content r)). bgm_clip_id c \<notin> dict_keys (ab_last_operation r)}"
    by (auto simp: dict_keys_iff)
  finally show ?thesis using u by (simp add: agree_outside_def dict_keys_iff)
qed

lemma check_conflicts_InrD:
  assumes "check_conflicts d base ops src = Inr applied"
  obtains on_base where
    "apply_operations (rev_content base) (next_clip_number d) ops src (next_bgm_number d) False = Inr on_base"
    "(ab_referenced on_base \<union> dict_keys (ab_last_operation on_base)) \<inter> changes_since d (rev_number base) = {}"
    "apply_operations (rev_content (latest d)) (next_clip_number d) ops src (next_bgm_number d) True = Inr applied"
    "dict_keys (ab_last_operation applied) \<inter> changes_since d (rev_number base) = {}"
    "\<forall>c \<in> set (transition_targets ops). successors (ab_content on_base) c = successors (ab_content applied) c"
proof -
  from assms obtain on_base on_latest where
    ob: "apply_operations (rev_content base) (next_clip_number d) ops src (next_bgm_number d) False = Inr on_base"
    and t: "(ab_referenced on_base \<union> dict_keys (ab_last_operation on_base)) \<inter> changes_since d (rev_number base) = {}"
    and ol: "apply_operations (rev_content (latest d)) (next_clip_number d) ops src (next_bgm_number d) False = Inr on_latest"
    and u: "dict_keys (ab_last_operation on_latest) \<inter> changes_since d (rev_number base) = {}"
    and m: "filter (\<lambda>c. successors (ab_content on_base) c \<noteq> successors (ab_content on_latest) c) (transition_targets ops) = []"
    and ap: "apply_operations (rev_content (latest d)) (next_clip_number d) ops src (next_bgm_number d) True = Inr applied"
    unfolding check_conflicts_def Let_def by (elim ebindE) (simp split: if_splits, elim ebindE, simp split: if_splits)
  have "on_latest = applied" using apply_operations_windows [OF ap] ol by simp
  then show ?thesis using that [OF ob t ap] u m by (auto simp: filter_empty_conv)
qed


text \<open>What \<open>edit_sync\<close> and \<open>restore_timeline\<close> return, given the document they find\<close>

lemma edit_syncE:
  assumes "edit_sync st tid now n s ops src author = Inr (w, st')" "find_document st tid = Inr d"
  obtains base applied where "revision d n = Some base"
    "(if rev_number base \<noteq> rev_number (latest d) then check_conflicts d base ops src
      else apply_operations (rev_content (latest d)) (next_clip_number d) ops src (next_bgm_number d) True) = Inr applied"
    "wr_document w = d\<lparr>next_clip_number := ab_next_clip_number applied,
       next_bgm_number := ab_next_bgm_number applied, doc_revisions := doc_revisions d @
       [\<lparr>rev_number = rev_number (latest d) + 1, rev_parent = Some (rev_number (latest d)),
         rev_author = author, rev_summary = s, rev_created_at = now, rev_content = ab_content applied,
         changed_clip_ids = Some (sorted_clip_ids (dict_keys (ab_last_operation applied))),
         restored_from = None\<rparr>]\<rparr>"
    "wr_base_revision w = rev_number base" "wr_previous_latest w = latest d"
    "st' = write_document (wr_document w) st"
  using assms
  by (auto simp: edit_sync_def base_revision_def validated_def Let_def elim!: ebindE split: option.splits if_splits)

lemma edit_applied:
  assumes "(if rev_number base \<noteq> rev_number (latest d) then check_conflicts d base ops src
      else apply_operations (rev_content (latest d)) (next_clip_number d) ops src (next_bgm_number d) True) = Inr applied"
  shows "apply_operations (rev_content (latest d)) (next_clip_number d) ops src (next_bgm_number d) True = Inr applied"
  using assms by (auto split: if_splits elim: check_conflicts_InrD)

definition edited_document ::
  "edit_timeline_document \<Rightarrow> applied_batch \<Rightarrow> text_value \<Rightarrow> string \<Rightarrow> revision_author \<Rightarrow> edit_timeline_document" where
  "edited_document d applied s now author = d\<lparr>next_clip_number := ab_next_clip_number applied,
     next_bgm_number := ab_next_bgm_number applied, doc_revisions := doc_revisions d @
     [\<lparr>rev_number = rev_number (latest d) + 1, rev_parent = Some (rev_number (latest d)),
       rev_author = author, rev_summary = s, rev_created_at = now, rev_content = ab_content applied,
       changed_clip_ids = Some (sorted_clip_ids (dict_keys (ab_last_operation applied))),
       restored_from = None\<rparr>]\<rparr>"

lemma edited_document_ok:
  assumes ap: "(if rev_number base \<noteq> rev_number (latest d) then check_conflicts d base ops src
      else apply_operations (rev_content (latest d)) (next_clip_number d) ops src (next_bgm_number d) True) = Inr applied"
    and "document_ok d" "valid_sources src" "s \<noteq> []"
  shows "document_ok (edited_document d applied s now author)"
proof -
  note vd = document_okD(1) [OF assms(2)]
  note run = edit_applied [OF ap]
  have ok: "content_ok (rev_content (latest d))" by (rule document_okD(2) [OF assms(2) latest_mem [OF vd]])
  have ed: "editable (rev_content (latest d)) (next_clip_number d) (next_bgm_number d)"
    by (rule revision_editable [OF assms(2) latest_mem [OF vd]])
  note new = apply_operations_editable [OF run ed assms(3)]
  have "content_ok (ab_content applied)"
    using new ok apply_operations_no_dangling [OF run ed assms(3)]
      apply_operations_narrated_once [OF run assms(3)]
    by (simp add: content_ok_def editable_def)
  then show ?thesis
    unfolding edited_document_def
    using append_revision [OF assms(2), where M = "dict_keys (ab_last_operation applied)"]
      assms(4) apply_operations_touched_ids [OF run ed assms(3)] apply_operations_agree [OF run ed assms(3)]
      apply_operations_counters [OF run ed assms(3)] new
    by (simp add: editable_def)
qed

theorem edit_document_ok:
  assumes "edit_sync st tid now n s ops src author = Inr (w, st')" "find_document st tid = Inr d"
    and "document_ok d" "valid_sources src" "s \<noteq> []"
  shows "document_ok (wr_document w)"
  using assms(1,2)
  by (rule edit_syncE) (use edited_document_ok assms(3-5) in \<open>fastforce simp: edited_document_def\<close>)

lemma edit_sync_eq:
  assumes "find_document st tid = Inr d" "revision d n = Some base" "document_ok d" "valid_sources src" "s \<noteq> []"
  shows "edit_sync st tid now n s ops src author =
    ebind (if rev_number base \<noteq> rev_number (latest d) then check_conflicts d base ops src
        else apply_operations (rev_content (latest d)) (next_clip_number d) ops src (next_bgm_number d) True)
      (\<lambda>applied. let updated = edited_document d applied s now author;
          changes = diff_content (rev_content (latest d)) (ab_content applied)
        in Inr (\<lparr>wr_document = updated, wr_base_revision = rev_number base, wr_previous_latest = latest d,
          wr_affected = (ab_targets applied \<union> diff_added changes \<union> diff_modified changes) - diff_removed changes,
          wr_deleted = diff_removed changes\<rparr>, write_document updated st))"
    (is "_ = ebind ?m ?f")
proof (cases ?m)
  case (Inl e)
  then show ?thesis using assms(1,2) by (simp add: edit_sync_def base_revision_def Let_def)
next
  case (Inr applied)
  have "valid_document (edited_document d applied s now author)"
    by (rule document_okD(1) [OF edited_document_ok [OF Inr assms(3-5)]])
  then show ?thesis
    using assms(1,2) Inr
    by (simp add: edit_sync_def base_revision_def Let_def validated_def edited_document_def)
qed

lemma restoreE:
  assumes "restore_timeline st tid now n author = Inr (w, st')" "find_document st tid = Inr d"
  obtains target where "revision d n = Some target" "rev_content target \<noteq> rev_content (latest d)"
    "wr_document w = d\<lparr>doc_revisions := doc_revisions d @
       [\<lparr>rev_number = rev_number (latest d) + 1, rev_parent = Some (rev_number (latest d)),
         rev_author = author, rev_summary = restore_summary (nat n), rev_created_at = now,
         rev_content = rev_content target,
         changed_clip_ids = Some (sorted_clip_ids (restore_changed_clip_ids (rev_content (latest d)) (rev_content target))),
         restored_from = Some (nat n)\<rparr>]\<rparr>"
    "wr_base_revision w = rev_number (latest d)" "wr_previous_latest w = latest d"
    "st' = write_document (wr_document w) st"
  using assms
  by (auto simp: restore_timeline_def base_revision_def validated_def Let_def elim!: ebindE split: option.splits if_splits)

lemma restore_agree:
  assumes "valid_content x" "valid_content y"
  shows "agree_outside (restore_changed_clip_ids x y) x y"
  using diff_covers [OF assms restore_superset] .

theorem restore_document_ok:
  assumes "restore_timeline st tid now n author = Inr (w, st')" "find_document st tid = Inr d" "document_ok d"
  shows "document_ok (wr_document w)"
  using assms(1,2)
proof (rule restoreE)
  fix target
  assume t: "revision d n = Some target"
    and w: "wr_document w = d\<lparr>doc_revisions := doc_revisions d @
       [\<lparr>rev_number = rev_number (latest d) + 1, rev_parent = Some (rev_number (latest d)),
         rev_author = author, rev_summary = restore_summary (nat n), rev_created_at = now,
         rev_content = rev_content target,
         changed_clip_ids = Some (sorted_clip_ids (restore_changed_clip_ids (rev_content (latest d)) (rev_content target))),
         restored_from = Some (nat n)\<rparr>]\<rparr>"
  let ?M = "restore_changed_clip_ids (rev_content (latest d)) (rev_content target)"
  note vd = document_okD(1) [OF assms(3)]
  note rv = revision_SomeD [OF t vd]
  have old: "content_ok (rev_content (latest d))" by (rule document_okD(2) [OF assms(3) latest_mem [OF vd]])
  have new: "content_ok (rev_content target)" by (rule document_okD(2) [OF assms(3) rv(5)])
  have M: "?M \<subseteq> fst ` set (clips_by_id (rev_content (latest d))) \<union> fst ` set (clips_by_id (rev_content target))"
    by (rule restore_changed_keys)
  have "finite ?M" by (rule finite_subset [OF M]) simp
  moreover have "\<forall>i \<in> ?M. is_clip_id i \<or> is_bgm_clip_id i"
    using M clips_by_id_patterns [OF content_ok_valid [OF old]] clips_by_id_patterns [OF content_ok_valid [OF new]]
    by blast
  moreover have "agree_outside ?M (rev_content (latest d)) (rev_content target)"
    by (rule restore_agree [OF content_ok_valid [OF old] content_ok_valid [OF new]])
  moreover have "ids_allocated (next_clip_number d) (next_bgm_number d) (rev_content target)"
    using revision_editable [OF assms(3) rv(5)] by (simp add: editable_def)
  ultimately show ?thesis
    unfolding w
    by (intro append_revision_same [OF assms(3)])
      (use new rv(1,3) in \<open>simp_all add: restore_summary_def\<close>)
qed

section \<open>What a store holds\<close>

definition file_ok :: "nat \<times> string \<Rightarrow> stored \<Rightarrow> bool" where
  "file_ok k f = (is_timeline_id (snd k) \<and> (case f of Unreadable \<Rightarrow> True
     | Document d \<Rightarrow> doc_episode d = fst k \<and> doc_id d = snd k \<and> document_ok d))"

definition timeline_ids :: "store \<Rightarrow> string list" where
  "timeline_ids st = map (\<lambda>((_, tid), _). tid) st"

definition documents_of :: "store \<Rightarrow> edit_timeline_document set" where
  "documents_of st = {d. \<exists>k. (k, Document d) \<in> set st}"

text \<open>Display names are unique within an episode, up to case.\<close>

definition names_unique :: "(text_value \<Rightarrow> text_value) \<Rightarrow> store \<Rightarrow> bool" where
  "names_unique casefold st = (\<forall>d \<in> documents_of st. \<forall>e \<in> documents_of st.
     doc_episode d = doc_episode e \<longrightarrow> casefold (doc_name d) = casefold (doc_name e) \<longrightarrow> doc_id d = doc_id e)"

definition store_ok :: "(text_value \<Rightarrow> text_value) \<Rightarrow> store \<Rightarrow> bool" where
  "store_ok casefold st = (distinct (timeline_ids st) \<and> (\<forall>(k, f) \<in> set st. file_ok k f) \<and> names_unique casefold st)"

lemma store_okD:
  assumes "store_ok casefold st"
  shows "distinct (timeline_ids st)" "(k, f) \<in> set st \<Longrightarrow> file_ok k f" "names_unique casefold st" "distinct (map fst st)"
proof -
  show "distinct (timeline_ids st)" "(k, f) \<in> set st \<Longrightarrow> file_ok k f" "names_unique casefold st"
    using assms by (auto simp: store_ok_def)
  have "timeline_ids st = map snd (map fst st)" by (auto simp: timeline_ids_def)
  then show "distinct (map fst st)" using assms unfolding store_ok_def by (metis distinct_map)
qed

lemma find_document_InrD:
  assumes "find_document st tid = Inr d"
  shows "((doc_episode d, tid), Document d) \<in> set st" "doc_id d = tid" "is_timeline_id tid"
proof -
  from assms have "is_timeline_id tid" by (auto simp: find_document_def split: if_splits)
  moreover obtain ep t f where f: "find (\<lambda>((ep, t), _). t = tid) (episode_files st) = Some ((ep, t), f)"
      and p: "parse_document tid f = Inr d" "doc_episode d = ep"
    using assms by (auto simp: find_document_def result_simps split: if_splits option.splits)
  moreover have "t = tid" "((ep, t), f) \<in> set st"
    using f by (auto simp: find_Some_iff episode_files_def dest!: nth_mem)
  ultimately show "((doc_episode d, tid), Document d) \<in> set st" "doc_id d = tid" "is_timeline_id tid"
    by (auto simp: parse_document_def split: stored.splits if_splits)
qed

lemma find_document_ok:
  assumes "find_document st tid = Inr d" "store_ok casefold st"
  shows "document_ok d" "((doc_episode d, doc_id d), Document d) \<in> set st" "d \<in> documents_of st"
  using find_document_InrD [OF assms(1)] store_okD(2) [OF assms(2), of "(doc_episode d, tid)" "Document d"]
  by (auto simp: file_ok_def documents_of_def)


lemma documents_of_iff:
  assumes "store_ok casefold st"
  shows "d \<in> documents_of st \<longleftrightarrow> ((doc_episode d, doc_id d), Document d) \<in> set st \<and> is_timeline_id (doc_id d)"
proof
  assume "d \<in> documents_of st"
  then obtain k where k: "(k, Document d) \<in> set st" by (auto simp: documents_of_def)
  then have "file_ok k (Document d)" by (rule store_okD(2) [OF assms])
  then have "k = (doc_episode d, doc_id d)" "is_timeline_id (doc_id d)"
    by (cases k, simp add: file_ok_def)+
  with k show "((doc_episode d, doc_id d), Document d) \<in> set st \<and> is_timeline_id (doc_id d)" by simp
qed (auto simp: documents_of_def)

lemma set_sort_files: "set (episode_files st) = {((ep, tid), f). ((ep, tid), f) \<in> set st \<and> is_timeline_id tid}"
  by (auto simp: episode_files_def)

definition listed :: "nat option \<Rightarrow> ((nat \<times> string) \<times> stored) list \<Rightarrow> edit_timeline_document set" where
  "listed ep files = {d. \<exists>t f. ((doc_episode d, t), f) \<in> set files
     \<and> (ep = None \<or> ep = Some (doc_episode d)) \<and> parse_document t f = Inr d}"

lemma parse_document_eq: "parse_document t f = Inr d \<longleftrightarrow> f = Document d \<and> t = doc_id d"
  by (auto simp: parse_document_def split: stored.splits)

lemma listed_iff: "d \<in> listed ep files \<longleftrightarrow>
    ((doc_episode d, doc_id d), Document d) \<in> set files \<and> (ep = None \<or> ep = Some (doc_episode d))"
  by (simp add: listed_def parse_document_eq)

lemma listed_Cons:
  "listed ep (((e, t), f) # files) = (if ep \<noteq> None \<and> ep \<noteq> Some e then {}
     else case parse_document t f of Inl _ \<Rightarrow> {} | Inr d \<Rightarrow> if doc_episode d = e then {d} else {}) \<union> listed ep files"
proof (rule set_eqI)
  fix d
  show "d \<in> listed ep (((e, t), f) # files) \<longleftrightarrow> d \<in> (if ep \<noteq> None \<and> ep \<noteq> Some e then {}
     else case parse_document t f of Inl _ \<Rightarrow> {} | Inr d \<Rightarrow> if doc_episode d = e then {d} else {}) \<union> listed ep files"
  proof (cases "parse_document t f")
    case (Inl x)
    then have "\<not> (f = Document d \<and> t = doc_id d)" using parse_document_eq [of t f d] by simp
    then show ?thesis using Inl by (auto simp: listed_iff)
  next
    case (Inr c)
    then have "f = Document c" "t = doc_id c" by (simp_all add: parse_document_eq)
    then show ?thesis by (auto simp: listed_iff parse_document_def)
  qed
qed

lemma collect_documents_ok:
  "\<exists>ds. collect_documents ep False files = Inr ds \<and> set ds = listed ep files"
proof (induction ep False files rule: collect_documents.induct)
  case (1 ep)
  show ?case by (simp add: listed_def)
next
  case (2 ep e t f files)
  show ?case
  proof (cases "ep \<noteq> None \<and> ep \<noteq> Some e")
    case True
    then show ?thesis using 2(1) by (simp add: listed_Cons)
  next
    case False
    then show ?thesis
      using 2(2,3) by (cases "parse_document t f") (auto simp: listed_Cons)
  qed
qed

lemma list_documents_ok:
  assumes "list_documents st (Some ep) False = Inr ds" "store_ok casefold st"
  shows "set ds = {d \<in> documents_of st. doc_episode d = ep}"
proof -
  have "set ds = listed (Some ep) (episode_files st)"
  proof -
    obtain cs where "collect_documents (Some ep) False (episode_files st) = Inr cs"
        "set cs = listed (Some ep) (episode_files st)"
      using collect_documents_ok by metis
    then show ?thesis using assms(1) by (simp add: list_documents_def) (metis set_sort)
  qed
  also have "\<dots> = {d \<in> documents_of st. doc_episode d = ep}"
  proof (rule set_eqI)
    fix d
    have "d \<in> listed (Some ep) (episode_files st) \<longleftrightarrow>
        doc_episode d = ep \<and> ((doc_episode d, doc_id d), Document d) \<in> set st \<and> is_timeline_id (doc_id d)"
      by (auto simp: listed_iff set_sort_files)
    also have "\<dots> \<longleftrightarrow> doc_episode d = ep \<and> d \<in> documents_of st"
      using documents_of_iff [OF assms(2)] by blast
    finally show "d \<in> listed (Some ep) (episode_files st) \<longleftrightarrow> d \<in> {d \<in> documents_of st. doc_episode d = ep}"
      by blast
  qed
  finally show ?thesis .
qed

lemma ensure_name_freeD:
  assumes "ensure_name_free casefold st ep name excl = Inr ()" "store_ok casefold st"
    and "e \<in> documents_of st" "doc_episode e = ep" "casefold (doc_name e) = casefold name"
  shows "Some (doc_id e) = excl"
  using assms list_documents_ok [OF _ assms(2)]
  by (auto simp: ensure_name_free_def result_simps list_ex_iff) 

text \<open>Writing a document: a new one, or a new state of the one found\<close>

lemma documents_write:
  assumes "store_ok casefold st"
  shows "documents_of (write_document d st) = insert d {e \<in> documents_of st. (doc_episode e, doc_id e) \<noteq> (doc_episode d, doc_id d)}"
proof -
  have "k = (doc_episode e, doc_id e)" if "(k, Document e) \<in> set st" for k e
    using store_okD(2) [OF assms that] by (auto simp: file_ok_def prod_eq_iff)
  then show ?thesis
    unfolding documents_of_def write_document_def set_dict_set [OF store_okD(4) [OF assms]] by fastforce
qed

lemma dict_set_keys:
  "map fst (dict_set k v d) = (if k \<in> fst ` set d then map fst d else map fst d @ [k])"
  by (induction k v d rule: dict_set.induct) auto

lemma write_store_ok:
  assumes st: "store_ok casefold st" and d: "document_ok d"
    and key: "(\<exists>f. ((doc_episode d, doc_id d), f) \<in> set st) \<or> doc_id d \<notin> set (timeline_ids st)"
    and name: "\<And>e. e \<in> documents_of st \<Longrightarrow> doc_episode e = doc_episode d \<Longrightarrow> casefold (doc_name e) = casefold (doc_name d)
        \<Longrightarrow> doc_id e = doc_id d"
  shows "store_ok casefold (write_document d st)"
proof -
  have ids: "timeline_ids st' = map snd (map fst st')" for st' by (auto simp: timeline_ids_def)
  have "distinct (timeline_ids (write_document d st))"
    using key store_okD(1) [OF st] unfolding ids write_document_def dict_set_keys by force
  moreover have "file_ok k f" if "(k, f) \<in> set (write_document d st)" for k f
  proof (cases "(k, f) \<in> set st")
    case True
    then show ?thesis by (rule store_okD(2) [OF st])
  next
    case False
    then have "k = (doc_episode d, doc_id d)" "f = Document d"
      using that unfolding write_document_def set_dict_set [OF store_okD(4) [OF st]] by auto
    then show ?thesis using d by (simp add: file_ok_def document_ok_def valid_document_def)
  qed
  moreover have "names_unique casefold (write_document d st)"
    unfolding names_unique_def documents_write [OF st]
  proof (intro ballI impI)
    fix a b
    assume ab: "a \<in> insert d {e \<in> documents_of st. (doc_episode e, doc_id e) \<noteq> (doc_episode d, doc_id d)}"
      "b \<in> insert d {e \<in> documents_of st. (doc_episode e, doc_id e) \<noteq> (doc_episode d, doc_id d)}"
      and eq: "doc_episode a = doc_episode b" "casefold (doc_name a) = casefold (doc_name b)"
    show "doc_id a = doc_id b"
    proof (cases "a = d \<or> b = d")
      case True
      then show ?thesis using ab eq name [of a] name [of b] by auto
    next
      case False
      then have "a \<in> documents_of st" "b \<in> documents_of st" using ab by auto
      then show ?thesis using eq store_okD(3) [OF st] unfolding names_unique_def by blast
    qed
  qed
  ultimately show ?thesis by (auto simp: store_ok_def)
qed

lemma delete_store_ok:
  assumes "store_ok casefold st"
  shows "store_ok casefold (delete_document d st)"
proof -
  have "distinct (timeline_ids (delete_document d st))"
    using store_okD(1) [OF assms] by (auto simp: timeline_ids_def delete_document_def dict_pop_def distinct_map_filter)
  moreover have "documents_of (delete_document d st) \<subseteq> documents_of st"
    by (auto simp: documents_of_def delete_document_def set_dict_pop)
  then have "names_unique casefold (delete_document d st)"
    using store_okD(3) [OF assms] unfolding names_unique_def by blast
  moreover have "set (delete_document d st) \<subseteq> set st"
    by (auto simp: delete_document_def set_dict_pop)
  ultimately show ?thesis using assms unfolding store_ok_def by blast
qed


section \<open>Read your writes\<close>

text \<open>
  What the service needs of a store: writing a document makes it the one its ID finds, and leaves
  every other ID alone.
\<close>

locale document_store =
  fixes ok :: "'st \<Rightarrow> bool"
    and lookup :: "'st \<Rightarrow> string \<Rightarrow> edit_timeline_document result"
    and put :: "edit_timeline_document \<Rightarrow> 'st \<Rightarrow> 'st"
    and storable :: "edit_timeline_document \<Rightarrow> 'st \<Rightarrow> bool"
  assumes lookup_put: "ok st \<Longrightarrow> storable d st \<Longrightarrow> lookup (put d st) (doc_id d) = Inr d"
    and lookup_other: "ok st \<Longrightarrow> tid \<noteq> doc_id d \<Longrightarrow> lookup (put d st) tid = lookup st tid"
    and lookup_id: "lookup st tid = Inr d \<Longrightarrow> doc_id d = tid"
    and ok_put: "ok st \<Longrightarrow> storable d st \<Longrightarrow> ok (put d st)"
begin

text \<open>Writing in turn: the last document written under an ID is the one found.\<close>

lemma lookup_put_twice:
  assumes "ok st" "storable d st" "storable e (put d st)"
  shows "lookup (put e (put d st)) (doc_id d) = Inr (if doc_id e = doc_id d then e else d)"
  using assms lookup_put lookup_other [OF ok_put] ok_put by (metis (full_types))

lemma update_visible:
  assumes "ok st" "lookup st tid = Inr d" "doc_id e = doc_id d" "storable e st"
  shows "lookup (put e st) tid = Inr e" and "t \<noteq> tid \<Longrightarrow> lookup (put e st) t = lookup st t"
  using assms lookup_put lookup_other lookup_id by metis+

end

lemma find_by_filter: "find P xs = (case filter P xs of [] \<Rightarrow> None | x # _ \<Rightarrow> Some x)"
  by (induction xs) auto

lemma filter_swap: "filter P (filter Q xs) = filter Q (filter P xs)"
  by (induction xs) auto

lemma filter_dict_set_other:
  "\<not> P (k, v) \<Longrightarrow> (\<And>u. P (k, u) \<longleftrightarrow> P (k, v)) \<Longrightarrow> filter P (dict_set k v d) = filter P d"
  by (induction k v d rule: dict_set.induct) auto

lemma find_write_other:
  assumes "tid \<noteq> doc_id d"
  shows "find_document (write_document d st) tid = find_document st tid"
proof -
  let ?P = "\<lambda>((ep, t), _). t = tid" and ?Q = "\<lambda>((ep, t), _). is_timeline_id t"
  have a: "filter ?P (filter ?Q (sort_key fst st')) = filter ?Q (sort_key fst (filter ?P st'))" for st' :: store
    unfolding filter_swap [of ?P ?Q] filter_sort ..
  have b: "filter ?P (write_document d st) = filter ?P st"
    unfolding write_document_def using assms by (intro filter_dict_set_other) auto
  have "find ?P (episode_files (write_document d st)) = find ?P (episode_files st)"
    unfolding find_by_filter episode_files_def a b ..
  then show ?thesis by (simp only: find_document_def)
qed

lemma find_unique:
  "x \<in> set xs \<Longrightarrow> P x \<Longrightarrow> (\<And>y. y \<in> set xs \<Longrightarrow> P y \<Longrightarrow> y = x) \<Longrightarrow> find P xs = Some x"
proof (induction xs)
  case (Cons a xs)
  show ?case
  proof (cases "P a")
    case True
    have "a = x" by (rule Cons.prems(3)) (use True in simp_all)
    then show ?thesis using True by simp
  next
    case False
    then have "x \<in> set xs" using Cons.prems(1,2) by (metis set_ConsD)
    then have "find P xs = Some x"
      using Cons.prems(2) by (rule Cons.IH) (rule Cons.prems(3), simp_all)
    then show ?thesis using False by simp
  qed
qed simp

lemma find_document_iff:
  assumes "store_ok casefold st"
  shows "find_document st tid = Inr d \<longleftrightarrow> d \<in> documents_of st \<and> doc_id d = tid"
proof
  assume "d \<in> documents_of st \<and> doc_id d = tid"
  then have d: "((doc_episode d, tid), Document d) \<in> set st" "is_timeline_id tid" "doc_id d = tid"
    using documents_of_iff [OF assms] by auto
  have "find (\<lambda>((ep, t), _). t = tid) (episode_files st) = Some ((doc_episode d, tid), Document d)"
  proof (rule find_unique)
    show "((doc_episode d, tid), Document d) \<in> set (episode_files st)" using d by (simp add: set_sort_files)
    fix y
    assume y: "y \<in> set (episode_files st)" "(\<lambda>((ep, t), _). t = tid) y"
    have inj: "inj_on (\<lambda>((_, t), _). t) (set st)"
      using store_okD(1) [OF assms] by (simp add: timeline_ids_def distinct_map)
    show "y = ((doc_episode d, tid), Document d)"
      by (rule inj_onD [OF inj]) (use d(1) y in \<open>auto simp: set_sort_files\<close>)
  qed simp
  then show "find_document st tid = Inr d"
    using d by (simp add: find_document_def parse_document_def)
qed (use find_document_ok [OF _ assms] find_document_InrD in blast)

definition storable :: "(text_value \<Rightarrow> text_value) \<Rightarrow> edit_timeline_document \<Rightarrow> store \<Rightarrow> bool" where
  "storable casefold d st = (document_ok d
     \<and> ((\<exists>f. ((doc_episode d, doc_id d), f) \<in> set st) \<or> doc_id d \<notin> set (timeline_ids st))
     \<and> (\<forall>e \<in> documents_of st. doc_episode e = doc_episode d \<longrightarrow> casefold (doc_name e) = casefold (doc_name d)
          \<longrightarrow> doc_id e = doc_id d))"

lemma storable_write: "store_ok casefold st \<Longrightarrow> storable casefold d st \<Longrightarrow> store_ok casefold (write_document d st)"
  using write_store_ok [of casefold st d] unfolding storable_def by blast

interpretation files: document_store "store_ok casefold" find_document write_document "storable casefold" for casefold
proof
  fix st d and tid :: string
  show "find_document (write_document d st) (doc_id d) = Inr d" if "store_ok casefold st" "storable casefold d st"
    using find_document_iff [OF storable_write [OF that]] documents_write [OF that(1)] by simp
  show "find_document (write_document d st) tid = find_document st tid" if "tid \<noteq> doc_id d"
    using that by (rule find_write_other)
  show "doc_id d = tid" if "find_document st tid = Inr d" using that by (rule find_document_InrD(2))
  show "store_ok casefold (write_document d st)" if "store_ok casefold st" "storable casefold d st"
    using that by (rule storable_write)
qed

end
