(* ===== verification/TimelineEdits.thy ===== *)
theory TimelineEdits
  imports TimelineBatch
begin

text \<open>
  What a batch edit guarantees: the properties of \<open>apply_operations\<close>, each with an instance on a
  small episode (two units, two clips, one BGM clip) that the definitions evaluate.
\<close>

section \<open>A small episode\<close>

definition demo_sources :: episode_sources where
  "demo_sources = \<lparr>src_episode = 1,
     src_units = [\<lparr>su_unit_id = ''U1'', su_speech_mode = Some NARRATOR_VOICEOVER, scripted_duration_us = 4000000, subtitle_text = []\<rparr>,
                  \<lparr>su_unit_id = ''U2'', su_speech_mode = None, scripted_duration_us = 3000000, subtitle_text = []\<rparr>],
     src_media = [''U1'' \<mapsto> \<lparr>um_video_version = Some 1, um_video_duration_us = Some 4000000, um_narration_duration_us = Some 2000000\<rparr>,
                  ''U2'' \<mapsto> \<lparr>um_video_version = Some 2, um_video_duration_us = Some 3000000, um_narration_duration_us = None\<rparr>],
     src_tts_narration = True,
     src_bgm = [''theme'' \<mapsto> \<lparr>bm_name = [], bm_duration_us = 20000000\<rparr>]\<rparr>"

definition demo_clip :: "nat \<Rightarrow> string \<Rightarrow> transition option \<Rightarrow> edit_clip" where
  "demo_clip n u t = \<lparr>clip_id = make_clip_id n, clip_unit_id = u, clip_trim = None, source_volume = 1/10,
     hold_us = 0, carries_narration = True, clip_reason = None, transition_to_next = t\<rparr>"

definition demo_content :: edit_timeline_content where
  "demo_content = \<lparr>content_clips = [demo_clip 1 ''U1'' (Some \<lparr>tr_type = DISSOLVE, tr_duration_us = 500000\<rparr>), demo_clip 2 ''U2'' None],
     content_bgm = [\<lparr>bgm_clip_id = make_bgm_clip_id 1, bgm_ref = ''theme'', bgm_start_us = 0, bgm_in_us = 0, bgm_out_us = 2000000,
       bgm_volume = 1/2, bgm_fade_in_us = 0, bgm_fade_out_us = 0\<rparr>]\<rparr>"

definition demo_ops :: "timeline_operation list" where
  "demo_ops = [InsertClip \<lparr>ic_unit_id = ''U1'', ic_after = Some (make_clip_id 1), ic_source_volume = None,
      ic_trim = Some \<lparr>spec_source_in = 1/2, spec_source_out = 2\<rparr>, ic_hold = 0, ic_reason = None, ic_transition_to_next = None\<rparr>,
    DeleteClip (make_clip_id 1),
    InsertBgm \<lparr>ib_bgm_id = ''theme'', ib_start = 3, ib_source_in = 0, ib_source_out = Some 5, ib_volume = 1/2, ib_fade_in = 0, ib_fade_out = 0\<rparr>]"



lemma digit_char_eval:
  "digit_char 0 = CHR ''0''" "digit_char (Suc 0) = CHR ''1''" "digit_char 1 = CHR ''1''"
  "digit_char (Suc (Suc 0)) = CHR ''2''" "digit_char 2 = CHR ''2''" "digit_char (Suc (Suc (Suc 0))) = CHR ''3''" "digit_char 3 = CHR ''3''" "digit_char 4 = CHR ''4''"
  "digit_char 5 = CHR ''5''" "digit_char 6 = CHR ''6''" "digit_char 7 = CHR ''7''"
  "digit_char 8 = CHR ''8''" "digit_char 9 = CHR ''9''"
  by code_simp+

lemmas timeline_eval =
  apply_operations_def finish_batch_def check_bgm_def bgm_end_def bgm_order_def timeline_duration_def
  window_violation_def transition_us_def bgm_clip_length_us_def clip_duration_def
  clip_source_duration_us_def effective_source_range_us_def set_field_def
  apply_insert_def apply_delete_def apply_move_def apply_place_narration_def
  apply_insert_bgm_def apply_set_bgm_def apply_delete_bgm_def
  optional_def or_else_def seconds_at_least_zero_def check_bgm_volume_def bgm_range_def bgm_duration_def
  bgm_position_def unit_has_carrier_def reset_broken_cuts_def clear_transition_def broken_cut_def
  replace_where_def require_next_def check_transition_def check_reason_def strip_def lstrip_def rstrip_def is_space_def space_codes_def
  check_hold_def check_volume_def check_trim_def current_video_def replace_clip_def touch_def
  insertion_point_def position_def invalid_def init_batch_def source_unit_def
  default_source_volume_def seconds_to_microseconds_def microseconds_to_seconds_def py_round_def py_round3_def
  valid_content_def content_validators_def unique_ids_def one_narration_carrier_per_unit_def
  valid_clip_def valid_bgm_clip_def valid_trim_def valid_transition_def valid_volume_def ids_allocated_def
  is_clip_id_def is_bgm_clip_id_def clip_number_def make_clip_id_def make_bgm_clip_id_def
  is_positive_decimal_def is_digit_def digits_value_def digit_char_eval decimal.simps
  insert_at_def remove_at_def Let_def map_filter_simps set_carrier_def

lemmas demo_eval = timeline_eval demo_content_def demo_clip_def demo_ops_def demo_sources_def upt_rec

definition demo_applied :: applied_batch where
  "demo_applied = \<lparr>
     ab_content = \<lparr>content_clips =
       [\<lparr>clip_id = ''c3'', clip_unit_id = ''U1'',
         clip_trim = Some \<lparr>trim_in_us = 500000, trim_out_us = 2000000, basis_version = 1\<rparr>,
         source_volume = 3 / 10, hold_us = 0, carries_narration = True, clip_reason = None,
         transition_to_next = None\<rparr>, demo_clip 2 ''U2'' None],
       content_bgm = content_bgm demo_content @
         [\<lparr>bgm_clip_id = ''b2'', bgm_ref = ''theme'', bgm_start_us = 3000000, bgm_in_us = 0,
           bgm_out_us = 5000000, bgm_volume = 1 / 2, bgm_fade_in_us = 0, bgm_fade_out_us = 0\<rparr>]\<rparr>,
     ab_next_clip_number = 4, ab_next_bgm_number = 3, ab_targets = {''c1''}, ab_referenced = {''c1''},
     ab_last_operation = [(''c3'', 1), (''c1'', 1), (''b2'', 2)]\<rparr>"

lemma demo_editable: "editable demo_content 3 2"
  by (simp add: editable_def demo_eval)

lemma demo_valid_sources: "valid_sources demo_sources"
  by (simp add: valid_sources_def demo_sources_def)

lemma demo_run: "apply_operations demo_content 3 demo_ops demo_sources 2 True = Inr demo_applied"
  by (simp add: demo_applied_def demo_eval)


section \<open>Properties\<close>

text \<open>
  Property C1: a successful batch on a document's content yields content every validator of the
  model accepts (fields in range, IDs unique on both tracks, at most one narration carrier per
  unit), with every ID below the counters it returns.
\<close>

theorem batch_content_valid:
  assumes "apply_operations x nc ops src nb w = Inr r" "editable x nc nb" "valid_sources src"
  shows "editable (ab_content r) (ab_next_clip_number r) (ab_next_bgm_number r)"
  using assms by (rule apply_operations_editable)

theorem batch_content_valid_witness: "editable (ab_content demo_applied) 4 3"
  using batch_content_valid [OF demo_run demo_editable demo_valid_sources]
  by (simp add: demo_applied_def)




text \<open>
  Property C3: if every unit on the main track has exactly one clip carrying its narration, the
  same holds after the batch, whatever it inserts, deletes, moves or reassigns.
\<close>

theorem batch_narrated_once:
  assumes "apply_operations x nc ops src nb w = Inr r" "valid_sources src"
    and "narrated_once (content_clips x)"
  shows "narrated_once (content_clips (ab_content r))"
  using assms by (rule apply_operations_narrated_once)

theorem batch_narrated_once_witness: "narrated_once (content_clips (ab_content demo_applied))"
  by (rule batch_narrated_once [OF demo_run demo_valid_sources])
    (simp add: narrated_once_def carriers_def carries_def demo_content_def demo_clip_def)

text \<open>
  The last clip of the main track has no transition after a batch if it had none
  before.
\<close>

theorem batch_no_dangling:
  assumes "apply_operations x nc ops src nb w = Inr r" "editable x nc nb" "valid_sources src"
    and "no_dangling (content_clips x)"
  shows "no_dangling (content_clips (ab_content r))"
  using assms by (rule apply_operations_no_dangling)

theorem batch_no_dangling_witness: "no_dangling (content_clips (ab_content demo_applied))"
  by (rule batch_no_dangling [OF demo_run demo_editable demo_valid_sources])
    (simp add: no_dangling_def demo_content_def demo_clip_def)

text \<open>
  Property C4: inserting, deleting or moving a clip keeps the transition of every cut between clips
  that are still adjacent, drops it everywhere else, and adds none but that of the inserted clip.
\<close>

theorem structural_edit_cuts:
  assumes "apply_operation src i op b = Inr b'" "structural op" "track_inv b"
  shows "{(a, d, t) \<in> set (transition_cuts (b_clips b')). a \<noteq> make_clip_id (b_next_clip b)} =
    {(a, d, t) \<in> set (transition_cuts (b_clips b)). (a, d) \<in> set (adjacent (b_clips b'))}"
proof -
  have "a \<noteq> make_clip_id (b_next_clip b)" if "(a, d, t) \<in> set (transition_cuts (b_clips b))" for a d t
    using that next_id_fresh [OF assms(3)] by (auto simp: transition_cuts_iff) (metis Suc_lessD image_eqI nth_mem)
  then show ?thesis using structural_cuts [OF assms(2,1,3)] by blast
qed

definition demo_batch :: batch where
  "demo_batch = init_batch demo_content 3 2"

theorem structural_edit_cuts_witness:
  "\<exists>b'. apply_operation demo_sources 0 (MoveClip ''c1'' (Some ''c2'')) demo_batch = Inr b'
    \<and> {(a, d, t) \<in> set (transition_cuts (b_clips b')). a \<noteq> ''c3''} =
      {(a, d, t) \<in> set (transition_cuts (b_clips demo_batch)). (a, d) \<in> set (adjacent (b_clips b'))}"
proof -
  have "returns (apply_operation demo_sources 0 (MoveClip ''c1'' (Some ''c2'')) demo_batch)"
    by (simp add: demo_batch_def demo_eval)
  then obtain b' where run: "apply_operation demo_sources 0 (MoveClip ''c1'' (Some ''c2'')) demo_batch = Inr b'"
    by (auto simp: returns_iff)
  have "make_clip_id (b_next_clip demo_batch) = ''c3''" by (simp add: demo_batch_def demo_eval)
  then show ?thesis
    using structural_edit_cuts [OF run] run demo_editable
    by (auto simp: structural_def demo_batch_def init_track_inv)
qed

text \<open>
  Clips whose ID the batch does not report as touched are the old clips, unchanged and
  in their old order, on both tracks.
\<close>

theorem batch_untouched:
  assumes "apply_operations x nc ops src nb w = Inr r" "editable x nc nb" "valid_sources src"
  shows "filter (\<lambda>c. map_of (ab_last_operation r) (clip_id c) = None) (content_clips (ab_content r))
      = filter (\<lambda>c. map_of (ab_last_operation r) (clip_id c) = None) (content_clips x)
    \<and> filter (\<lambda>c. map_of (ab_last_operation r) (bgm_clip_id c) = None) (content_bgm (ab_content r))
      = sort_key bgm_order (filter (\<lambda>c. map_of (ab_last_operation r) (bgm_clip_id c) = None) (content_bgm x))"
  using assms by (rule apply_operations_untouched)

theorem batch_untouched_witness:
  "filter (\<lambda>c. map_of (ab_last_operation demo_applied) (clip_id c) = None) (content_clips (ab_content demo_applied))
    = [demo_clip 2 ''U2'' None]"
  using batch_untouched [OF demo_run demo_editable demo_valid_sources]
  by (simp add: demo_applied_def demo_content_def demo_clip_def make_clip_id_def decimal.simps digit_char_eval)


text \<open>
  Clips a batch adds carry numbers no clip of the document ever had: an ID of the
  result is an ID of the content it started from, or is numbered from the document's counter on.
\<close>

theorem batch_ids_fresh:
  assumes "apply_operations x nc ops src nb w = Inr r" "editable x nc nb" "valid_sources src"
  shows "nc \<le> ab_next_clip_number r \<and> nb \<le> ab_next_bgm_number r
    \<and> list_all (\<lambda>c. clip_id c \<in> clip_id ` set (content_clips x) \<or> nc \<le> clip_number (clip_id c))
        (content_clips (ab_content r))
    \<and> list_all (\<lambda>c. bgm_clip_id c \<in> bgm_clip_id ` set (content_bgm x) \<or> nb \<le> clip_number (bgm_clip_id c))
        (content_bgm (ab_content r))"
  using assms(1,3)
proof (rule fresh.result)
  show "track_inv (init_batch x nc nb) \<and> fresh_from x nc nb (init_batch x nc nb)"
    using assms(2) by (simp add: init_track_inv init_fresh)
  fix b
  assume "track_inv b \<and> fresh_from x nc nb b" "finish_batch b = Inr r"
  then show ?thesis by (auto simp: finish_batch_eq fresh_from_def list_all_iff)
qed

theorem batch_ids_fresh_witness: "2 \<le> ab_next_bgm_number demo_applied"
  using batch_ids_fresh [OF demo_run demo_editable demo_valid_sources] by simp

text \<open>
  A checked batch on a BGM track without overlaps leaves one without overlaps, in
  order of start: every clip ends before any later one starts, including the pairs it did not
  touch.
\<close>

theorem batch_bgm_disjoint:
  assumes "apply_operations x nc ops src nb True = Inr r" "editable x nc nb" "valid_sources src"
    and "bgm_disjoint (sort_key bgm_order (content_bgm x))"
  shows "bgm_disjoint (content_bgm (ab_content r))"
proof -
  obtain b where b: "apply_from src 0 ops (init_batch x nc nb) = Inr b" "check_bgm src b = Inr ()"
      "finish_batch b = Inr r"
    using assms(1) by (auto simp: apply_operations_def elim!: ebindE)
  have "track_inv b \<and> touched_sound x b"
    by (rule sound.run [OF b(1) assms(3) order_refl])
      (simp add: init_track_inv init_touched assms(2))
  then show ?thesis
    unfolding finish_batch_eq [OF b(3)] using check_bgm_disjoint [OF b(2)] assms(4) by blast
qed

theorem batch_bgm_disjoint_witness: "bgm_disjoint (content_bgm (ab_content demo_applied))"
  by (rule batch_bgm_disjoint [OF demo_run demo_editable demo_valid_sources])
    (simp add: bgm_disjoint_def demo_content_def)

text \<open>
  After a checked batch, the transitions into and out of every clip an operation
  touched fit the clip: half of each window lies inside it and the two halves do not meet.
\<close>

theorem batch_windows_fit:
  assumes "apply_operations x nc ops src nb True = Inr r" "editable x nc nb" "valid_sources src"
    and "q < length (content_clips (ab_content r))"
    and "map_of (ab_last_operation r) (clip_id (content_clips (ab_content r) ! q)) \<noteq> None"
  shows "window_fits src (content_clips (ab_content r)) q"
proof -
  obtain b where b: "apply_from src 0 ops (init_batch x nc nb) = Inr b"
      "check_transition_windows src (b_last_operation b) None (b_clips b) = Inr ()"
      "finish_batch b = Inr r"
    using assms(1) by (auto simp: apply_operations_def elim!: ebindE)
  note r = finish_batch_eq [OF b(3)]
  have "track_inv b \<and> touched_sound x b"
    by (rule sound.run [OF b(1) assms(3) order_refl])
      (simp add: init_track_inv init_touched assms(2))
  then have "valid_clip (b_clips b ! q)" using assms(4) by (auto simp: r track_inv_def)
  then show ?thesis
    using check_transition_windows_ok [OF b(2), of q] window_violation_fits assms(3-5)
    unfolding r by blast
qed

theorem batch_windows_fit_witness: "window_fits demo_sources (content_clips (ab_content demo_applied)) 0"
  by (rule batch_windows_fit [OF demo_run demo_editable demo_valid_sources])
    (simp_all add: demo_applied_def)

definition current_range_us :: "episode_sources \<Rightarrow> edit_clip \<Rightarrow> (int \<times> int) option" where
  "current_range_us src c =
     (case src_media src (clip_unit_id c) of None \<Rightarrow> None
      | Some m \<Rightarrow> map_option (effective_source_range_us c (um_video_version m)) (um_video_duration_us m))"

text \<open>
  A trim the edit accepts lies inside the current video and is at least 100 ms long,
  and the reader plays exactly that part of the video.
\<close>

theorem set_trim_effective:
  assumes "apply_operation src i (SetTrim cid (Some sp)) b = Inr b'"
    and "find_index (\<lambda>c. clip_id c = cid) (b_clips b) = Some p"
  shows "\<exists>t m d. clip_trim (b_clips b' ! p) = Some t
    \<and> src_media src (clip_unit_id (b_clips b ! p)) = Some m \<and> um_video_duration_us m = Some d
    \<and> 0 \<le> trim_in_us t \<and> trim_in_us t + 100000 \<le> trim_out_us t \<and> trim_out_us t \<le> d
    \<and> current_range_us src (b_clips b' ! p) = Some (trim_in_us t, trim_out_us t)"
proof -
  obtain b1 f where q: "position i cid ''clip'' b = Inr (p, b1)"
    and t: "ebind (check_trim src i (Some cid) (clip_unit_id (b_clips b1 ! p)) (Some sp))
       (\<lambda>t. Inr (\<lambda>c::edit_clip. c\<lparr>clip_trim := t\<rparr>)) = Inr f"
    and b': "b' = replace_clip i p f b1"
    using assms by (auto simp: set_field_def result_simps position_def Let_def split: option.splits)
  note b1 = position_SomeD [OF q]
  from t obtain tr where tr: "check_trim src i (Some cid) (clip_unit_id (b_clips b ! p)) (Some sp) = Inr tr"
      and f: "f = (\<lambda>c. c\<lparr>clip_trim := tr\<rparr>)"
    using b1(3) by (auto elim: ebindE)
  then obtain v w where cv: "current_video src i (Some cid) (clip_unit_id (b_clips b ! p)) = Inr (v, w)"
    by (auto simp: check_trim_def elim!: ebindE)
  then obtain m where m: "src_media src (clip_unit_id (b_clips b ! p)) = Some m"
      "um_video_version m = Some v" "um_video_duration_us m = Some w"
    by (auto simp: current_video_def split: option.splits)
  have "0 \<le> seconds_to_microseconds (spec_source_in sp)" if "0 \<le> spec_source_in sp"
    using that by (rule seconds_to_microseconds_nonneg)
  then obtain t where t: "tr = Some t" "basis_version t = v" "0 \<le> trim_in_us t"
      "trim_in_us t + 100000 \<le> trim_out_us t" "trim_out_us t \<le> w"
    using tr cv by (auto simp: check_trim_def Let_def split: if_splits)
  have "b_clips b' ! p = (b_clips b ! p)\<lparr>clip_trim := Some t\<rparr>"
    using b1 by (simp add: b' f t(1))
  then show ?thesis
    using m t by (auto simp: current_range_us_def effective_source_range_us_def Let_def min_def max_def)
qed

theorem set_trim_effective_witness:
  "\<exists>b' t. apply_operation demo_sources 0 (SetTrim ''c2'' (Some \<lparr>spec_source_in = 1, spec_source_out = 3\<rparr>)) demo_batch
      = Inr b' \<and> clip_trim (b_clips b' ! 1) = Some t \<and> trim_out_us t \<le> 3000000"
proof -
  have "returns (apply_operation demo_sources 0
      (SetTrim ''c2'' (Some \<lparr>spec_source_in = 1, spec_source_out = 3\<rparr>)) demo_batch)"
    by (simp add: demo_batch_def demo_eval)
  then obtain b' where run: "apply_operation demo_sources 0
      (SetTrim ''c2'' (Some \<lparr>spec_source_in = 1, spec_source_out = 3\<rparr>)) demo_batch = Inr b'"
    by (auto simp: returns_iff)
  have "find_index (\<lambda>c. clip_id c = ''c2'') (b_clips demo_batch) = Some 1"
    by (simp add: demo_batch_def demo_eval)
  from set_trim_effective [OF run this] run show ?thesis
    by (auto simp: demo_batch_def demo_eval)
qed

end
