(* ===== verification/TimelineHistory.thy ===== *)
theory TimelineHistory
  imports TimelineService TimelineEdits
begin

text \<open>
  The life of a store: the step relation of the service's writes, one step per critical section
  (the code runs each under the lock of the episode), and what every store reachable from the
  empty one satisfies.
\<close>

section \<open>Steps\<close>

inductive service_step :: "(text_value \<Rightarrow> text_value) \<Rightarrow> store \<Rightarrow> store \<Rightarrow> bool" for casefold where
  create: "create_from_script casefold st (Inr units) token now ep name author = Inr (d, st')
     \<Longrightarrow> ''tl-'' @ token \<notin> set (timeline_ids st) \<Longrightarrow> service_step casefold st st'"
| copy: "copy_timeline casefold st tid token now n name author = Inr (d, st')
     \<Longrightarrow> ''tl-'' @ token \<notin> set (timeline_ids st) \<Longrightarrow> service_step casefold st st'"
| rename: "normalized_name strip_whitespace raw = Inr name
     \<Longrightarrow> rename_timeline casefold st tid name = Inr (d, st') \<Longrightarrow> service_step casefold st st'"
| delete: "delete_timeline st tid = Inr (d, st') \<Longrightarrow> service_step casefold st st'"
| restore: "restore_timeline st tid now n author = Inr (w, st') \<Longrightarrow> service_step casefold st st'"
| edit: "edit_sync st tid now n s ops src author = Inr (w, st') \<Longrightarrow> valid_sources src \<Longrightarrow> s \<noteq> []
     \<Longrightarrow> service_step casefold st st'"

definition reachable_store :: "(text_value \<Rightarrow> text_value) \<Rightarrow> store \<Rightarrow> bool" where
  "reachable_store casefold st = (service_step casefold)\<^sup>*\<^sup>* [] st"

inductive_cases service_stepE: "service_step casefold st st'"

section \<open>New timelines\<close>

lemma mechanical_clip_simps [simp]:
  "clip_id (mechanical_clip i u) = make_clip_id i" "clip_unit_id (mechanical_clip i u) = su_unit_id u"
  "carries_narration (mechanical_clip i u)" "transition_to_next (mechanical_clip i u) = None"
  "source_volume (mechanical_clip i u) = default_source_volume (su_speech_mode u)"
  "clip_trim (mechanical_clip i u) = None" "hold_us (mechanical_clip i u) = 0"
  by (simp_all add: mechanical_clip_def)

lemma all_carry_narrated:
  assumes "\<forall>c \<in> set cs. carries_narration c" "one_narration_carrier_per_unit cs"
  shows "narrated_once cs"
proof -
  have "carriers (clip_unit_id c) cs = 1" if "c \<in> set cs" for c
  proof -
    have "carriers (clip_unit_id c) cs \<noteq> 0" using that assms(1) unfolding carriers_zero carries_def by blast
    moreover have "carriers (clip_unit_id c) cs \<le> 1" using assms(2) by (simp add: one_carrier_iff)
    ultimately show ?thesis by linarith
  qed
  then show ?thesis by (simp add: narrated_once_def list_all_iff)
qed

lemma mechanical_content_ok:
  assumes "mechanical_content us = Inr x"
  shows "content_ok x" "ids_allocated (length (content_clips x) + 1) 1 x"
proof -
  let ?cs = "map (\<lambda>(i, u). mechanical_clip i u) (enumerate 1 us)"
  from assms have x: "x = \<lparr>content_clips = ?cs, content_bgm = []\<rparr>" and v: "valid_content x"
    by (auto simp: mechanical_content_def Let_def split: if_splits)
  have carry: "carries_narration c \<and> transition_to_next c = None" if "c \<in> set ?cs" for c
    using that by auto
  have "no_dangling ?cs"
  proof (cases "?cs = []")
    case False
    have "transition_to_next (last ?cs) = None" using carry [OF last_in_set [OF False]] by (rule conjunct2)
    then show ?thesis by (simp only: no_dangling_def simp_thms)
  qed (simp only: no_dangling_def simp_thms)
  moreover have "narrated_once ?cs"
    by (rule all_carry_narrated) (use carry v in \<open>simp_all add: x valid_content_def content_validators_def\<close>)
  ultimately show "content_ok x" using v by (simp add: content_ok_def x)
  show "ids_allocated (length (content_clips x) + 1) 1 x"
    by (auto simp: ids_allocated_def x list_all_iff in_set_enumerate_eq)
qed

lemma new_documentD:
  assumes "new_document token now ep name x summary author nc nb = Inr d" "content_ok x"
  shows "document_ok d" "doc_id d = ''tl-'' @ token" "doc_episode d = ep" "doc_name d = name"
    "rev_content (latest d) = x"
  using assms by (auto simp: new_document_def validated_def document_ok_def changes_sound_def latest_def
      split: if_splits)

lemma storable_new:
  assumes "store_ok casefold st" "new_document token now ep name x summary author nc nb = Inr d" "content_ok x"
    and "ensure_name_free casefold st ep name None = Inr u" "''tl-'' @ token \<notin> set (timeline_ids st)"
  shows "storable casefold d st"
  unfolding storable_def
  using new_documentD [OF assms(2,3)] assms(5) ensure_name_freeD [OF _ assms(1)] assms(4)
  by (metis option.distinct(1) old.unit.exhaust)

lemma createE:
  assumes "create_from_script casefold st (Inr us) token now ep name author = Inr (d, st')"
  obtains x u where "mechanical_content us = Inr x" "ensure_name_free casefold st ep name None = Inr u"
    "new_document token now ep name x MECHANICAL_CREATION_SUMMARY author (length (content_clips x) + 1) 1 = Inr d"
    "st' = write_document d st"
  using assms by (auto simp: create_from_script_def elim!: ebindE)

lemma copyE:
  assumes "copy_timeline casefold st tid token now n name author = Inr (d, st')"
  obtains src target u where "find_document st tid = Inr src"
    "revision src (case n of Some k \<Rightarrow> k | None \<Rightarrow> int (rev_number (latest src))) = Some target"
    "ensure_name_free casefold st (doc_episode src) name None = Inr u"
    "new_document token now (doc_episode src) name (rev_content target) (copy_summary (doc_name src) (rev_number target))
       author (next_clip_number src) (next_bgm_number src) = Inr d"
    "st' = write_document d st"
  using assms by (auto simp: copy_timeline_def base_revision_def elim!: ebindE split: option.splits)

lemma copied_content_ok:
  assumes "store_ok casefold st" "find_document st tid = Inr src" "revision src n = Some target"
  shows "content_ok (rev_content target)"
proof -
  note ok = find_document_ok(1) [OF assms(2,1)]
  show ?thesis by (rule document_okD(2) [OF ok]) (rule revision_SomeD(5) [OF assms(3) document_okD(1) [OF ok]])
qed

section \<open>Updates of a document\<close>

text \<open>What an update keeps: the identity of the document and the history it extends\<close>

definition extends :: "edit_timeline_document \<Rightarrow> edit_timeline_document \<Rightarrow> bool" where
  "extends d e = (doc_id e = doc_id d \<and> doc_episode e = doc_episode d \<and> doc_created_at e = doc_created_at d
     \<and> next_clip_number d \<le> next_clip_number e \<and> next_bgm_number d \<le> next_bgm_number e
     \<and> (\<exists>rs. doc_revisions e = doc_revisions d @ rs))"

lemma extends_refl: "extends d d"
  by (simp add: extends_def)

lemma storable_update:
  assumes "store_ok casefold st" "find_document st tid = Inr d" "document_ok e" "extends d e"
    and "doc_name e = doc_name d"
  shows "storable casefold e st"
  using find_document_ok [OF assms(2,1)] assms(3-5) store_okD(3) [OF assms(1)]
  unfolding storable_def extends_def names_unique_def by metis

lemma edit_extends:
  assumes "edit_sync st tid now n s ops src author = Inr (w, st')" "find_document st tid = Inr d"
    and "document_ok d" "valid_sources src"
  shows "extends d (wr_document w)" "doc_name (wr_document w) = doc_name d"
    "length (doc_revisions (wr_document w)) = Suc (length (doc_revisions d))" "st' = write_document (wr_document w) st"
proof -
  have "extends d (wr_document w) \<and> doc_name (wr_document w) = doc_name d
    \<and> length (doc_revisions (wr_document w)) = Suc (length (doc_revisions d)) \<and> st' = write_document (wr_document w) st"
    using assms(1,2)
  proof (rule edit_syncE)
    fix base applied
    assume ap: "(if rev_number base \<noteq> rev_number (latest d) then check_conflicts d base ops src
      else apply_operations (rev_content (latest d)) (next_clip_number d) ops src (next_bgm_number d) True) = Inr applied"
    note vd = document_okD(1) [OF assms(3)]
    note ed = revision_editable [OF assms(3) latest_mem [OF vd]]
    assume "wr_document w = d\<lparr>next_clip_number := ab_next_clip_number applied,
       next_bgm_number := ab_next_bgm_number applied, doc_revisions := doc_revisions d @
       [\<lparr>rev_number = rev_number (latest d) + 1, rev_parent = Some (rev_number (latest d)),
         rev_author = author, rev_summary = s, rev_created_at = now, rev_content = ab_content applied,
         changed_clip_ids = Some (sorted_clip_ids (dict_keys (ab_last_operation applied))),
         restored_from = None\<rparr>]\<rparr>" "st' = write_document (wr_document w) st"
    then show ?thesis
      using apply_operations_counters [OF edit_applied [OF ap] ed assms(4)] by (simp add: extends_def)
  qed
  then show "extends d (wr_document w)" "doc_name (wr_document w) = doc_name d"
    "length (doc_revisions (wr_document w)) = Suc (length (doc_revisions d))" "st' = write_document (wr_document w) st"
    by blast+
qed

lemma restore_extends:
  assumes "restore_timeline st tid now n author = Inr (w, st')" "find_document st tid = Inr d"
  shows "extends d (wr_document w)" "doc_name (wr_document w) = doc_name d" "st' = write_document (wr_document w) st"
  using assms by (auto elim!: restoreE simp: extends_def)


lemma rename_storable:
  assumes "store_ok casefold st" "normalized_name sw raw = Inr name"
    and "rename_timeline casefold st tid name = Inr (d, st')"
  obtains "st' = st" "find_document st tid = Inr d"
    | e where "find_document st tid = Inr e" "d = e\<lparr>doc_name := name\<rparr>" "storable casefold d st"
      "st' = write_document d st"
proof -
  from assms(3) obtain e where e: "find_document st tid = Inr e"
    by (auto simp: rename_timeline_def elim: ebindE)
  note ok = find_document_ok [OF e assms(1)]
  show ?thesis
  proof (cases "doc_name e = name")
    case True
    then show ?thesis using that(1) e assms(3) by (simp add: rename_timeline_def)
  next
    case False
    let ?d = "e\<lparr>doc_name := name\<rparr>"
    from False e assms(3) obtain u where free: "ensure_name_free casefold st (doc_episode e) name (Some tid) = Inr u"
      and d: "d = ?d" "st' = write_document ?d st"
      by (auto simp: rename_timeline_def Let_def elim: ebindE)
    have name: "1 \<le> length name" "length name \<le> 40"
      using assms(2) by (auto simp: normalized_name_def Let_def split: if_splits)
    have "document_ok ?d"
      using ok(1) name by (simp add: document_ok_def valid_document_def revision_chain_def)
    moreover have "doc_id e = tid" using e by (rule find_document_InrD(2))
    ultimately have "storable casefold ?d st"
      using ok(2) ensure_name_freeD [OF _ assms(1), of "doc_episode e" name "Some tid"] free
      by (auto simp: storable_def) 
    then show ?thesis using that(2) e d by simp
  qed
qed

theorem step_store_ok:
  assumes "service_step casefold st st'" "store_ok casefold st"
  shows "store_ok casefold st'"
  using assms
proof cases
  case (create units token now ep name author d)
  from create(1) show ?thesis
  proof (rule createE)
    fix x u
    assume a: "mechanical_content units = Inr x" "ensure_name_free casefold st ep name None = Inr u"
      "new_document token now ep name x MECHANICAL_CREATION_SUMMARY author (length (content_clips x) + 1) 1 = Inr d"
      "st' = write_document d st"
    show ?thesis
      unfolding a(4) using storable_new [OF assms(2) a(3) mechanical_content_ok(1) [OF a(1)] a(2) create(2)]
      by (rule storable_write [OF assms(2)])
  qed
next
  case (copy tid token now n name author d)
  from copy(1) show ?thesis
  proof (rule copyE)
    fix src target u
    assume a: "find_document st tid = Inr src"
      "revision src (case n of Some k \<Rightarrow> k | None \<Rightarrow> int (rev_number (latest src))) = Some target"
      "ensure_name_free casefold st (doc_episode src) name None = Inr u"
      "new_document token now (doc_episode src) name (rev_content target) (copy_summary (doc_name src) (rev_number target))
         author (next_clip_number src) (next_bgm_number src) = Inr d"
      "st' = write_document d st"
    show ?thesis
      unfolding a(5)
      using storable_new [OF assms(2) a(4) copied_content_ok [OF assms(2) a(1,2)] a(3) copy(2)]
      by (rule storable_write [OF assms(2)])
  qed
next
  case (rename sw raw name tid d)
  from assms(2) rename show ?thesis
    by (rule rename_storable) (use assms(2) storable_write in auto)
next
  case (delete tid d)
  then show ?thesis
    using delete_store_ok [OF assms(2)] by (auto simp: delete_timeline_def elim!: ebindE)
next
  case (restore tid now n author w)
  then obtain d where d: "find_document st tid = Inr d"
    by (auto simp: restore_timeline_def elim: ebindE)
  note ok = find_document_ok(1) [OF d assms(2)]
  note e = restore_extends [OF restore d]
  show ?thesis
    unfolding e(3)
    by (rule storable_write [OF assms(2) storable_update [OF assms(2) d restore_document_ok [OF restore d ok] e(1,2)]])
next
  case (edit tid now n s ops src author w)
  then obtain d where d: "find_document st tid = Inr d"
    by (auto simp: edit_sync_def elim: ebindE)
  note ok = find_document_ok(1) [OF d assms(2)]
  note e = edit_extends [OF edit(1) d ok edit(2)]
  show ?thesis
    unfolding e(4)
    by (rule storable_write [OF assms(2) storable_update [OF assms(2) d edit_document_ok [OF edit(1) d ok edit(2,3)] e(1,2)]])
qed

lemma store_ok_Nil: "store_ok casefold []"
  by (simp add: store_ok_def timeline_ids_def names_unique_def documents_of_def)

lemma reachable_store_ok: "reachable_store casefold st \<Longrightarrow> store_ok casefold st"
  unfolding reachable_store_def
  by (induction rule: rtranclp_induct) (auto simp: store_ok_Nil intro: step_store_ok)

text \<open>What a step does to a document that was there before and is there after\<close>

lemma step_extends:
  assumes "service_step casefold st st'" "store_ok casefold st"
    and "find_document st tid = Inr d" "find_document st' tid = Inr e"
  shows "extends d e"
proof -
  have written: "extends d e" if "st' = write_document f st" "storable casefold f st"
      "doc_id f = tid \<Longrightarrow> extends d f" for f
  proof (cases "doc_id f = tid")
    case True
    then show ?thesis
      using files.lookup_put [OF assms(2) that(2)] assms(4) that by simp
  next
    case False
    then have "d = e" using files.lookup_other [OF assms(2), of tid f] assms(3,4) that(1) by simp
    then show ?thesis by (simp add: extends_refl)
  qed
  have present: "tid \<in> set (timeline_ids st)"
    using find_document_InrD(1) [OF assms(3)] by (force simp: timeline_ids_def)
  from assms(1) show ?thesis
  proof cases
    case (create units token now ep name author f)
    from create(1) show ?thesis
    proof (rule createE)
      fix x u
      assume a: "mechanical_content units = Inr x" "ensure_name_free casefold st ep name None = Inr u"
        "new_document token now ep name x MECHANICAL_CREATION_SUMMARY author (length (content_clips x) + 1) 1 = Inr f"
        "st' = write_document f st"
      note c = mechanical_content_ok(1) [OF a(1)]
      show ?thesis
        by (rule written [OF a(4) storable_new [OF assms(2) a(3) c a(2) create(2)]])
          (use new_documentD(2) [OF a(3) c] create(2) present in auto)
    qed
  next
    case (copy tid' token now n name author f)
    from copy(1) show ?thesis
    proof (rule copyE)
      fix src target u
      assume a: "find_document st tid' = Inr src"
        "revision src (case n of Some k \<Rightarrow> k | None \<Rightarrow> int (rev_number (latest src))) = Some target"
        "ensure_name_free casefold st (doc_episode src) name None = Inr u"
        "new_document token now (doc_episode src) name (rev_content target) (copy_summary (doc_name src) (rev_number target))
           author (next_clip_number src) (next_bgm_number src) = Inr f"
        "st' = write_document f st"
      note c = copied_content_ok [OF assms(2) a(1,2)]
      show ?thesis
        by (rule written [OF a(5) storable_new [OF assms(2) a(4) c a(3) copy(2)]])
          (use new_documentD(2) [OF a(4) c] copy(2) present in auto)
    qed
  next
    case (rename sw raw name tid' f)
    from assms(2) rename show ?thesis
    proof (rule rename_storable)
      assume "st' = st"
      then show ?thesis using assms(3,4) by (simp add: extends_refl)
    next
      fix g
      assume g: "find_document st tid' = Inr g" "f = g\<lparr>doc_name := name\<rparr>" "storable casefold f st"
        "st' = write_document f st"
      have "extends d f" if "doc_id f = tid"
        using that g(1,2) assms(3) find_document_InrD(2) [OF g(1)] by (auto simp: extends_def)
      then show ?thesis by (rule written [OF g(4,3)])
    qed
  next
    case (delete tid' f)
    then have f: "find_document st tid' = Inr f" "st' = delete_document f st"
      by (auto simp: delete_timeline_def elim: ebindE)
    note ok' = delete_store_ok [OF assms(2), of f]
    have "e \<in> documents_of st'" "doc_id e = tid" using assms(4) ok' f(2) by (auto simp: find_document_iff)
    moreover have "documents_of st' \<subseteq> documents_of st"
      by (auto simp: f(2) documents_of_def delete_document_def set_dict_pop)
    ultimately have "find_document st tid = Inr e" by (auto simp: find_document_iff [OF assms(2)])
    then show ?thesis using assms(3) by (simp add: extends_refl)
  next
    case (restore tid' now n author w)
    then obtain g where g: "find_document st tid' = Inr g"
      by (auto simp: restore_timeline_def elim: ebindE)
    note x = restore_extends [OF restore g]
    note ok = find_document_ok(1) [OF g assms(2)]
    have "extends d (wr_document w)" if "doc_id (wr_document w) = tid"
      using that x(1) g assms(3) find_document_InrD(2) [OF g] by (auto simp: extends_def)
    then show ?thesis
      by (rule written [OF x(3) storable_update [OF assms(2) g restore_document_ok [OF restore g ok] x(1,2)]])
  next
    case (edit tid' now n s ops src author w)
    then obtain g where g: "find_document st tid' = Inr g"
      by (auto simp: edit_sync_def elim: ebindE)
    note ok = find_document_ok(1) [OF g assms(2)]
    note x = edit_extends [OF edit(1) g ok edit(2)]
    have "extends d (wr_document w)" if "doc_id (wr_document w) = tid"
      using that x(1) g assms(3) find_document_InrD(2) [OF g] by (auto simp: extends_def)
    then show ?thesis
      by (rule written [OF x(4) storable_update [OF assms(2) g edit_document_ok [OF edit(1) g ok edit(2,3)] x(1,2)]])
  qed
qed


section \<open>Edits on a stale base\<close>

lemma edit_sync_cases:
  assumes "store_ok casefold st" "find_document st tid = Inr d"
    and "edit_sync st tid now n s ops src author = Inr (w, st')" "valid_sources src"
  obtains base applied where "revision d n = Some base"
    "rev_content (latest (wr_document w)) = ab_content applied"
    "apply_operations (rev_content (latest d)) (next_clip_number d) ops src (next_bgm_number d) True = Inr applied"
    "dict_keys (ab_last_operation applied) \<inter> changes_since d (rev_number base) = {}"
    "rev_number base \<noteq> rev_number (latest d) \<Longrightarrow> check_conflicts d base ops src = Inr applied"
  using assms(3,2)
proof (rule edit_syncE)
  fix base applied
  assume b: "revision d n = Some base"
    and ap: "(if rev_number base \<noteq> rev_number (latest d) then check_conflicts d base ops src
      else apply_operations (rev_content (latest d)) (next_clip_number d) ops src (next_bgm_number d) True) = Inr applied"
    and w: "wr_document w = d\<lparr>next_clip_number := ab_next_clip_number applied,
       next_bgm_number := ab_next_bgm_number applied, doc_revisions := doc_revisions d @
       [\<lparr>rev_number = rev_number (latest d) + 1, rev_parent = Some (rev_number (latest d)),
         rev_author = author, rev_summary = s, rev_created_at = now, rev_content = ab_content applied,
         changed_clip_ids = Some (sorted_clip_ids (dict_keys (ab_last_operation applied))),
         restored_from = None\<rparr>]\<rparr>"
  note vd = document_okD(1) [OF find_document_ok(1) [OF assms(2,1)]]
  have disj: "dict_keys (ab_last_operation applied) \<inter> changes_since d (rev_number base) = {}"
  proof (cases "rev_number base = rev_number (latest d)")
    case True
    then have "changes_since d (rev_number base) = {}"
      using latest_number [OF vd] by (simp add: changes_since_def)
    then show ?thesis by simp
  next
    case False
    then show ?thesis using ap by (auto elim: check_conflicts_InrD)
  qed
  have "rev_content (latest (wr_document w)) = ab_content applied" by (simp add: w latest_def)
  then show ?thesis
    by (rule that [OF b _ edit_applied [OF ap] disj]) (use ap in simp)
qed

lemma agree_outside_disjoint:
  assumes "agree_outside M x y" "M \<inter> K = {}"
  shows "filter (\<lambda>c. clip_id c \<in> K) (content_clips x) = filter (\<lambda>c. clip_id c \<in> K) (content_clips y)
    \<and> {c \<in> set (content_bgm x). bgm_clip_id c \<in> K} = {c \<in> set (content_bgm y). bgm_clip_id c \<in> K}"
proof -
  have "agree_outside (- K) x y" using assms by (intro agree_outside_mono [OF assms(1)]) auto
  then show ?thesis by (simp add: agree_outside_def)
qed

section \<open>A timeline with two revisions\<close>

definition demo_author :: revision_author where
  "demo_author = \<lparr>author_kind = Creator, author_user_id = None\<rparr>"

definition demo_held :: edit_timeline_content where
  "demo_held = demo_content\<lparr>content_clips := [demo_clip 1 ''U1'' (Some \<lparr>tr_type = DISSOLVE, tr_duration_us = 500000\<rparr>),
     (demo_clip 2 ''U2'' None)\<lparr>hold_us := 1000000\<rparr>]\<rparr>"

definition demo_document :: edit_timeline_document where
  "demo_document = \<lparr>doc_id = ''tl-0000000a'', doc_episode = 1, doc_name = [65], doc_created_at = ''t0'',
     next_clip_number = 3, next_bgm_number = 2, doc_revisions =
       [\<lparr>rev_number = 1, rev_parent = None, rev_author = demo_author, rev_summary = [65], rev_created_at = ''t0'',
         rev_content = demo_content, changed_clip_ids = None, restored_from = None\<rparr>,
        \<lparr>rev_number = 2, rev_parent = Some 1, rev_author = demo_author, rev_summary = [65], rev_created_at = ''t1'',
         rev_content = demo_held, changed_clip_ids = Some [''c2''], restored_from = None\<rparr>]\<rparr>"

definition demo_store :: store where
  "demo_store = [((1, ''tl-0000000a''), Document demo_document)]"

lemma demo_document_ok: "document_ok demo_document"
proof -
  have v: "valid_document demo_document"
    by (simp add: demo_document_def valid_document_def revision_chain_def valid_revision_def is_timeline_id_def
        is_lower_hex_def demo_eval demo_held_def upt_rec)
  have "content_ok demo_content" "content_ok demo_held"
    by (simp_all add: content_ok_def no_dangling_def narrated_once_def carriers_def carries_def demo_eval demo_held_def)
  moreover have "changes_sound (doc_revisions demo_document)"
    by (simp add: changes_sound_def demo_document_def revision_changes_def agree_outside_def demo_eval demo_held_def)
  ultimately show ?thesis using v by (simp add: document_ok_def demo_document_def)
qed

lemma demo_store_ok: "store_ok id demo_store"
  using demo_document_ok
  by (simp add: store_ok_def timeline_ids_def demo_store_def file_ok_def names_unique_def documents_of_def
      document_ok_def valid_document_def) (simp add: demo_document_def)

lemma demo_find: "find_document demo_store ''tl-0000000a'' = Inr demo_document"
  using demo_store_ok by (simp add: find_document_iff documents_of_def demo_store_def demo_document_def)

lemma demo_stale_edit:
  "\<exists>w st'. edit_sync demo_store ''tl-0000000a'' ''t2'' 1 [66] [SetVolume ''c1'' (1/2)] demo_sources demo_author = Inr (w, st')"
proof -
  let ?ops = "[SetVolume ''c1'' (1/2)]"
  have base: "revision demo_document 1 = Some (doc_revisions demo_document ! 0)"
    by (simp add: revision_def demo_document_def)
  have "returns (check_conflicts demo_document (doc_revisions demo_document ! 0) ?ops demo_sources)"
    by (simp add: check_conflicts_def changes_since_def revision_changes_def demo_document_def latest_def demo_eval
        demo_held_def transition_targets_def dict_keys_def)
  then obtain applied where
    ap: "check_conflicts demo_document (doc_revisions demo_document ! 0) ?ops demo_sources = Inr applied"
    by (auto simp: returns_iff)
  have "rev_number (doc_revisions demo_document ! 0) \<noteq> rev_number (latest demo_document)"
    by (simp add: demo_document_def latest_def)
  then show ?thesis
    using ap edit_sync_eq [OF demo_find base demo_document_ok demo_valid_sources, of "[66]"]
    by (simp add: Let_def)
qed


section \<open>Properties\<close>

text \<open>
  Property C6: in every store the service can reach from the empty one, a timeline that is found is
  a valid document (revisions numbered from 1, all IDs allocated), every revision of it has unique
  clip IDs, one narration carrier per unit on the track and no transition after the last clip, and
  every revision names all the clips it changed; display names are unique within an episode.
\<close>

theorem reachable_documents_ok:
  assumes "reachable_store casefold st" "find_document st tid = Inr d" "find_document st tid' = Inr e"
  shows "document_ok d \<and> (doc_episode d = doc_episode e \<and> casefold (doc_name d) = casefold (doc_name e)
    \<longrightarrow> tid = tid')"
proof -
  note ok = reachable_store_ok [OF assms(1)]
  have "tid = doc_id d" "tid' = doc_id e" using find_document_InrD(2) assms(2,3) by metis+
  then show ?thesis
    using find_document_ok [OF assms(2) ok] find_document_ok [OF assms(3) ok] store_okD(3) [OF ok]
    unfolding names_unique_def by blast
qed

lemma demo_created:
  "\<exists>d st'. create_from_script id [] (Inr (src_units demo_sources)) ''0000000a'' ''t0'' 1 [65] demo_author = Inr (d, st')"
proof -
  have "returns (create_from_script id [] (Inr (src_units demo_sources)) ''0000000a'' ''t0'' 1 [65] demo_author)"
    by (simp add: create_from_script_def mechanical_content_def mechanical_clip_def ensure_name_free_def
        list_documents_def episode_files_def ensure_def new_document_def validated_def valid_document_def
        revision_chain_def valid_revision_def is_timeline_id_def is_lower_hex_def MECHANICAL_CREATION_SUMMARY_def
        demo_eval)
  then show ?thesis by (auto simp: returns_iff)
qed

theorem reachable_documents_ok_witness:
  "\<exists>st d. reachable_store id st \<and> find_document st ''tl-0000000a'' = Inr d \<and> document_ok d"
proof -
  obtain d st where c: "create_from_script id [] (Inr (src_units demo_sources)) ''0000000a'' ''t0'' 1 [65] demo_author
      = Inr (d, st)"
    using demo_created by blast
  then have step: "service_step id [] st" by (rule service_step.create) (simp add: timeline_ids_def)
  then have r: "reachable_store id st" by (simp add: reachable_store_def)
  have "st = write_document d [] \<and> doc_id d = ''tl-0000000a''"
    using c by (auto simp: new_document_def validated_def elim!: createE split: if_splits)
  then have "find_document st ''tl-0000000a'' = Inr d"
    unfolding find_document_iff [OF reachable_store_ok [OF r]] by (simp add: documents_of_def write_document_def)
  with r reachable_documents_ok [OF r this this] show ?thesis by blast
qed

text \<open>
  History is append-only.  A write that leaves a timeline in the store keeps its
  identity, its episode and its old revisions, in place, and never lowers the counters that
  allocate clip numbers.
\<close>

theorem history_append_only:
  assumes "service_step casefold st st'" "store_ok casefold st"
    and "find_document st tid = Inr d" "find_document st' tid = Inr e"
  shows "doc_episode e = doc_episode d \<and> take (length (doc_revisions d)) (doc_revisions e) = doc_revisions d
    \<and> next_clip_number d \<le> next_clip_number e \<and> next_bgm_number d \<le> next_bgm_number e"
  using step_extends [OF assms] by (auto simp: extends_def)

theorem history_append_only_witness:
  "\<exists>st' e. service_step id demo_store st' \<and> find_document st' ''tl-0000000a'' = Inr e
    \<and> take 2 (doc_revisions e) = doc_revisions demo_document"
proof -
  obtain w st' where e: "edit_sync demo_store ''tl-0000000a'' ''t2'' 1 [66] [SetVolume ''c1'' (1/2)] demo_sources
      demo_author = Inr (w, st')"
    using demo_stale_edit by blast
  then have step: "service_step id demo_store st'" by (rule service_step.edit) (simp_all add: demo_valid_sources)
  note x = edit_extends [OF e demo_find demo_document_ok demo_valid_sources]
  have "find_document st' ''tl-0000000a'' = Inr (wr_document w)"
    unfolding x(4)
    by (rule files.update_visible(1) [OF demo_store_ok demo_find])
      (use x storable_update [OF demo_store_ok demo_find edit_document_ok [OF e demo_find demo_document_ok demo_valid_sources]]
       in \<open>auto simp: extends_def\<close>)
  moreover have "length (doc_revisions demo_document) = 2" by (simp add: demo_document_def)
  ultimately show ?thesis
    using step history_append_only [OF step demo_store_ok demo_find] by metis
qed

text \<open>
  Property C5: an edit based on an old revision never overwrites what others changed since.  Clips
  changed between the base and the latest revision are the same clips, in the same order, in the
  new revision, and the new revision is the batch applied to the latest one.
\<close>

theorem edit_keeps_concurrent_changes:
  assumes "store_ok casefold st" "find_document st tid = Inr d" "revision d n = Some base"
    and "edit_sync st tid now n s ops src author = Inr (w, st')" "valid_sources src"
  shows "filter (\<lambda>c. clip_id c \<in> changes_since d (rev_number base)) (content_clips (rev_content (latest (wr_document w))))
      = filter (\<lambda>c. clip_id c \<in> changes_since d (rev_number base)) (content_clips (rev_content (latest d)))
    \<and> {c \<in> set (content_bgm (rev_content (latest (wr_document w)))). bgm_clip_id c \<in> changes_since d (rev_number base)}
      = {c \<in> set (content_bgm (rev_content (latest d))). bgm_clip_id c \<in> changes_since d (rev_number base)}
    \<and> (\<exists>applied. apply_operations (rev_content (latest d)) (next_clip_number d) ops src (next_bgm_number d) True
          = Inr applied \<and> ab_content applied = rev_content (latest (wr_document w)))"
proof -
  note ok = find_document_ok(1) [OF assms(2,1)]
  note ed = revision_editable [OF ok latest_mem [OF document_okD(1) [OF ok]]]
  from assms(1,2,4,5) show ?thesis
  proof (rule edit_sync_cases)
    fix base' applied
    assume b: "revision d n = Some base'" and new: "rev_content (latest (wr_document w)) = ab_content applied"
      and run: "apply_operations (rev_content (latest d)) (next_clip_number d) ops src (next_bgm_number d) True = Inr applied"
      and disj: "dict_keys (ab_last_operation applied) \<inter> changes_since d (rev_number base') = {}"
    from b assms(3) have "base' = base" by simp
    with disj have "dict_keys (ab_last_operation applied) \<inter> changes_since d (rev_number base) = {}" by simp
    note same = agree_outside_disjoint [OF apply_operations_agree [OF run ed assms(5)] this]
    show ?thesis
      unfolding new by (intro conjI exI [of _ applied] refl run)
        (rule conjunct1 [OF same, symmetric], rule conjunct2 [OF same, symmetric])
  qed
qed

lemma demo_base: "revision demo_document 1 = Some (doc_revisions demo_document ! 0)"
  by (simp add: revision_def demo_document_def)

theorem edit_keeps_concurrent_changes_witness:
  "\<exists>w st'. edit_sync demo_store ''tl-0000000a'' ''t2'' 1 [66] [SetVolume ''c1'' (1/2)] demo_sources demo_author = Inr (w, st')
    \<and> (demo_clip 2 ''U2'' None)\<lparr>hold_us := 1000000\<rparr> \<in> set (content_clips (rev_content (latest (wr_document w))))"
proof -
  obtain w st' where e: "edit_sync demo_store ''tl-0000000a'' ''t2'' 1 [66] [SetVolume ''c1'' (1/2)] demo_sources
      demo_author = Inr (w, st')"
    using demo_stale_edit by blast
  have "changes_since demo_document (rev_number (doc_revisions demo_document ! 0)) = {''c2''}"
    by (simp add: changes_since_def demo_document_def revision_changes_def)
  then have "filter (\<lambda>c. clip_id c \<in> {''c2''}) (content_clips (rev_content (latest (wr_document w))))
      = filter (\<lambda>c. clip_id c \<in> {''c2''}) (content_clips (rev_content (latest demo_document)))"
    using edit_keeps_concurrent_changes [OF demo_store_ok demo_find demo_base e demo_valid_sources] by simp
  also have "\<dots> = [(demo_clip 2 ''U2'' None)\<lparr>hold_us := 1000000\<rparr>]"
    by (simp add: latest_def demo_document_def demo_held_def demo_eval)
  finally have "(demo_clip 2 ''U2'' None)\<lparr>hold_us := 1000000\<rparr>
      \<in> set (filter (\<lambda>c. clip_id c \<in> {''c2''}) (content_clips (rev_content (latest (wr_document w)))))"
    by simp
  then show ?thesis using e by auto
qed

text \<open>
  What an accepted edit is about is what its author saw.  Every clip the batch names or
  changes, judged on the base revision, is the same clip, in the same relative order, in the base
  and in the latest revision, and every clip that gets a transition is followed by the same clip
  when the batch is applied to either.
\<close>

theorem edit_base_still_true:
  assumes "store_ok casefold st" "find_document st tid = Inr d" "revision d n = Some base"
    and "edit_sync st tid now n s ops src author = Inr (w, st')" "valid_sources src"
    and "rev_number base \<noteq> rev_number (latest d)"
  shows "\<exists>on_base. apply_operations (rev_content base) (next_clip_number d) ops src (next_bgm_number d) False = Inr on_base
    \<and> (let T = ab_referenced on_base \<union> dict_keys (ab_last_operation on_base)
       in filter (\<lambda>c. clip_id c \<in> T) (content_clips (rev_content base))
            = filter (\<lambda>c. clip_id c \<in> T) (content_clips (rev_content (latest d)))
          \<and> {c \<in> set (content_bgm (rev_content base)). bgm_clip_id c \<in> T}
            = {c \<in> set (content_bgm (rev_content (latest d))). bgm_clip_id c \<in> T})
    \<and> list_all (\<lambda>c. successors (ab_content on_base) c = successors (rev_content (latest (wr_document w))) c)
        (transition_targets ops)"
proof -
  note ok = find_document_ok(1) [OF assms(2,1)]
  note cover = changes_since_cover [OF ok assms(3)]
  from assms(1,2,4,5) show ?thesis
  proof (rule edit_sync_cases)
    fix base' applied
    assume b: "revision d n = Some base'" and new: "rev_content (latest (wr_document w)) = ab_content applied"
      and chk: "rev_number base' \<noteq> rev_number (latest d) \<Longrightarrow> check_conflicts d base' ops src = Inr applied"
    from b assms(3) have "base' = base" by simp
    with chk assms(6) have "check_conflicts d base ops src = Inr applied" by simp
    then show ?thesis
    proof (rule check_conflicts_InrD)
      fix on_base
      assume ob: "apply_operations (rev_content base) (next_clip_number d) ops src (next_bgm_number d) False = Inr on_base"
        and dis: "(ab_referenced on_base \<union> dict_keys (ab_last_operation on_base)) \<inter> changes_since d (rev_number base) = {}"
        and suc: "\<forall>c \<in> set (transition_targets ops). successors (ab_content on_base) c = successors (ab_content applied) c"
      have "changes_since d (rev_number base) \<inter> (ab_referenced on_base \<union> dict_keys (ab_last_operation on_base)) = {}"
        using dis by blast
      from agree_outside_disjoint [OF cover this] ob suc show ?thesis
        unfolding new Let_def list_all_iff by blast
    qed
  qed
qed

theorem edit_base_still_true_witness:
  "\<exists>w st' on_base. edit_sync demo_store ''tl-0000000a'' ''t2'' 1 [66] [SetVolume ''c1'' (1/2)] demo_sources demo_author
      = Inr (w, st')
    \<and> apply_operations demo_content 3 [SetVolume ''c1'' (1/2)] demo_sources 2 False = Inr on_base"
proof -
  obtain w st' where e: "edit_sync demo_store ''tl-0000000a'' ''t2'' 1 [66] [SetVolume ''c1'' (1/2)] demo_sources
      demo_author = Inr (w, st')"
    using demo_stale_edit by blast
  have "rev_number (doc_revisions demo_document ! 0) \<noteq> rev_number (latest demo_document)"
    by (simp add: demo_document_def latest_def)
  from edit_base_still_true [OF demo_store_ok demo_find demo_base e demo_valid_sources this] e show ?thesis
    by (auto simp: demo_document_def)
qed


text \<open>
  Restoring a revision appends one whose content is exactly the restored one, keeps the
  whole history before it, and lists every clip in which the new revision differs from the latest
  one; the store then finds the restored document.
\<close>

theorem restore_brings_back:
  assumes "store_ok casefold st" "find_document st tid = Inr d" "revision d n = Some target"
    and "restore_timeline st tid now n author = Inr (w, st')"
  shows "find_document st' tid = Inr (wr_document w) \<and> rev_content (latest (wr_document w)) = rev_content target
    \<and> butlast (doc_revisions (wr_document w)) = doc_revisions d
    \<and> agree_outside (set (the (changed_clip_ids (latest (wr_document w))))) (rev_content (latest d)) (rev_content target)"
proof -
  note ok = find_document_ok(1) [OF assms(2,1)]
  note x = restore_extends [OF assms(4,2)]
  have found: "find_document st' tid = Inr (wr_document w)"
    unfolding x(3)
    by (rule files.update_visible(1) [OF assms(1,2)])
      (use x storable_update [OF assms(1,2) restore_document_ok [OF assms(4,2) ok]] in \<open>auto simp: extends_def\<close>)
  from assms(4,2) show ?thesis
  proof (rule restoreE)
    fix t
    assume t: "revision d n = Some t"
      and w: "wr_document w = d\<lparr>doc_revisions := doc_revisions d @
       [\<lparr>rev_number = rev_number (latest d) + 1, rev_parent = Some (rev_number (latest d)),
         rev_author = author, rev_summary = restore_summary (nat n), rev_created_at = now,
         rev_content = rev_content t,
         changed_clip_ids = Some (sorted_clip_ids (restore_changed_clip_ids (rev_content (latest d)) (rev_content t))),
         restored_from = Some (nat n)\<rparr>]\<rparr>"
    note vd = document_okD(1) [OF ok]
    have "t = target" using t assms(3) by simp
    have valid: "valid_content (rev_content (latest d))" "valid_content (rev_content t)"
      using document_okD(2) [OF ok latest_mem [OF vd]] document_okD(2) [OF ok revision_SomeD(5) [OF t vd]]
      by (simp_all add: content_ok_def)
    have "finite (restore_changed_clip_ids (rev_content (latest d)) (rev_content t))"
      by (rule finite_subset [OF restore_changed_keys]) simp
    then have "set (the (changed_clip_ids (latest (wr_document w))))
        = restore_changed_clip_ids (rev_content (latest d)) (rev_content t)"
      by (simp add: w latest_def [of "d\<lparr>doc_revisions := _\<rparr>"] set_sorted_clip_ids)
    moreover have "rev_content (latest (wr_document w)) = rev_content t"
      "butlast (doc_revisions (wr_document w)) = doc_revisions d"
      by (simp_all add: w latest_def)
    ultimately show ?thesis using found restore_agree [OF valid] \<open>t = target\<close> by simp
  qed
qed

lemma restore_timeline_eq:
  assumes "store_ok casefold st" "find_document st tid = Inr d" "revision d n = Some target"
    and "rev_content target \<noteq> rev_content (latest d)"
  shows "returns (restore_timeline st tid now n author)"
proof -
  note ok = find_document_ok(1) [OF assms(2,1)]
  note vd = document_okD(1) [OF ok]
  note rv = revision_SomeD [OF assms(3) vd]
  let ?M = "restore_changed_clip_ids (rev_content (latest d)) (rev_content target)"
  let ?r = "\<lparr>rev_number = rev_number (latest d) + 1, rev_parent = Some (rev_number (latest d)),
         rev_author = author, rev_summary = restore_summary (nat n), rev_created_at = now,
         rev_content = rev_content target, changed_clip_ids = Some (sorted_clip_ids ?M), restored_from = Some (nat n)\<rparr>"
  have old: "content_ok (rev_content (latest d))" by (rule document_okD(2) [OF ok latest_mem [OF vd]])
  have new: "content_ok (rev_content target)" by (rule document_okD(2) [OF ok rv(5)])
  have fin: "finite ?M" by (rule finite_subset [OF restore_changed_keys]) simp
  have pat: "\<forall>i \<in> ?M. is_clip_id i \<or> is_bgm_clip_id i"
    using restore_changed_keys clips_by_id_patterns [OF content_ok_valid [OF old]]
      clips_by_id_patterns [OF content_ok_valid [OF new]] by blast
  have alloc: "ids_allocated (next_clip_number d) (next_bgm_number d) (rev_content target)"
    using revision_editable [OF ok rv(5)] by (simp add: editable_def)
  have "document_ok (d\<lparr>doc_revisions := doc_revisions d @ [?r]\<rparr>)"
    by (rule append_revision_same [OF ok _ _ _ _ _ fin pat])
      (use new rv(1,3) alloc restore_agree [OF content_ok_valid [OF old] content_ok_valid [OF new]]
       in \<open>simp_all add: restore_summary_def\<close>)
  then show ?thesis
    using assms by (simp add: restore_timeline_def base_revision_def Let_def validated_def document_ok_def)
qed

theorem restore_brings_back_witness:
  "\<exists>w st'. restore_timeline demo_store ''tl-0000000a'' ''t2'' 1 demo_author = Inr (w, st')
    \<and> rev_content (latest (wr_document w)) = demo_content"
proof -
  have ne: "rev_content (doc_revisions demo_document ! 0) \<noteq> rev_content (latest demo_document)"
    by (simp add: demo_document_def latest_def demo_held_def demo_eval)
  obtain w st' where r: "restore_timeline demo_store ''tl-0000000a'' ''t2'' 1 demo_author = Inr (w, st')"
    using restore_timeline_eq [OF demo_store_ok demo_find demo_base ne, of "''t2''" demo_author]
    by (auto simp: returns_iff)
  with restore_brings_back [OF demo_store_ok demo_find demo_base r] show ?thesis
    by (auto simp: demo_document_def)
qed

lemma check_conflicts_InlE:
  assumes "check_conflicts d base ops src = Inl e"
  obtains w where "apply_operations (rev_content base) (next_clip_number d) ops src (next_bgm_number d) w = Inl e"
    | w where "apply_operations (rev_content (latest d)) (next_clip_number d) ops src (next_bgm_number d) w = Inl e"
    | M where "e = conflict M" "M \<noteq> {}" "M \<subseteq> changes_since d (rev_number base) \<union> set (transition_targets ops)"
proof (cases "apply_operations (rev_content base) (next_clip_number d) ops src (next_bgm_number d) False")
  case (Inl e')
  then show ?thesis using assms that(1) by (simp add: check_conflicts_def Let_def)
next
  case ob: (Inr on_base)
  let ?K = "changes_since d (rev_number base)"
  let ?T = "ab_referenced on_base \<union> dict_keys (ab_last_operation on_base)"
  show ?thesis
  proof (cases "?T \<inter> ?K = {}")
    case False
    then have "e = conflict (?T \<inter> ?K)" using assms ob by (simp add: check_conflicts_def Let_def)
    then show ?thesis using False by (rule that(3)) blast
  next
    case t: True
    show ?thesis
    proof (cases "apply_operations (rev_content (latest d)) (next_clip_number d) ops src (next_bgm_number d) False")
      case (Inl e')
      then show ?thesis using assms ob t that(2) by (simp add: check_conflicts_def Let_def)
    next
      case ol: (Inr on_latest)
      let ?L = "dict_keys (ab_last_operation on_latest)"
      let ?C = "set (filter (\<lambda>c. successors (ab_content on_base) c \<noteq> successors (ab_content on_latest) c)
          (transition_targets ops))"
      have e: "(if ?L \<inter> ?K \<noteq> {} then Inl (conflict (?L \<inter> ?K)) else if ?C \<noteq> {} then Inl (conflict ?C)
          else apply_operations (rev_content (latest d)) (next_clip_number d) ops src (next_bgm_number d) True) = Inl e"
        using assms unfolding check_conflicts_def Let_def ob ol ebind_Inr if_not_P [OF not_not [THEN iffD2, OF t]] .
      show ?thesis
      proof (cases "?L \<inter> ?K = {}")
        case False
        then have "e = conflict (?L \<inter> ?K)" using e by (simp only: if_P Inl_inject simp_thms sum.inject)
        then show ?thesis using False by (rule that(3)) blast
      next
        case l: True
        show ?thesis
        proof (cases "?C = {}")
          case False
          then have "e = conflict ?C" using e l by (simp del: set_filter)
          then show ?thesis using False by (rule that(3)) auto
        next
          case True
          then show ?thesis using e l that(2) by (simp del: set_filter)
        qed
      qed
    qed
  qed
qed

text \<open>
  An edit fails for one of three reasons only: the base revision does not exist, an
  operation is invalid (and is named by its index), or the clips listed in a revision conflict were
  changed since the base or sit at a cut that moved.  The document it builds is never rejected by
  its own validators.
\<close>

theorem edit_errors:
  assumes "store_ok casefold st" "find_document st tid = Inr d" "valid_sources src" "s \<noteq> []"
    and "edit_sync st tid now n s ops src author = Inl e"
  shows "(\<exists>i c f why. e = OperationInvalid i c f why \<and> i < length ops)
    \<or> (e = RevisionNotFound n \<and> revision d n = None)
    \<or> (\<exists>base ids. revision d n = Some base \<and> e = RevisionConflict ids \<and> ids \<noteq> []
          \<and> set ids \<subseteq> changes_since d (rev_number base) \<union> set (transition_targets ops))"
proof (cases "revision d n")
  case None
  then show ?thesis using assms(2,5) by (simp add: edit_sync_def base_revision_def)
next
  case (Some base)
  note ok = find_document_ok(1) [OF assms(2,1)]
  note vd = document_okD(1) [OF ok]
  note on_latest = apply_operations_blames [OF _ revision_editable [OF ok latest_mem [OF vd]] assms(3)]
  note on_base = apply_operations_blames [OF _ revision_editable [OF ok revision_SomeD(5) [OF Some vd]] assms(3)]
  have ids: "sorted_clip_ids M \<noteq> [] \<and> set (sorted_clip_ids M) = M" if "M \<noteq> {}" "finite M" for M
    using that set_sorted_clip_ids [of M] by (metis set_empty)
  have run: "(if rev_number base \<noteq> rev_number (latest d) then check_conflicts d base ops src
      else apply_operations (rev_content (latest d)) (next_clip_number d) ops src (next_bgm_number d) True) = Inl e"
    using assms(5) edit_sync_eq [OF assms(2) Some ok assms(3,4)] by (auto simp: result_simps Let_def)
  show ?thesis
  proof (cases "rev_number base = rev_number (latest d)")
    case True
    then show ?thesis using run on_latest by simp
  next
    case False
    then have chk: "check_conflicts d base ops src = Inl e" using run by simp
    have since: "finite (changes_since d (rev_number base))"
      by (auto simp: changes_since_def revision_changes_def intro!: finite_subset [OF diff_changed_keys] split: option.splits)
    from chk show ?thesis
    proof (rule check_conflicts_InlE)
      fix M
      assume M: "e = conflict M" "M \<noteq> {}" "M \<subseteq> changes_since d (rev_number base) \<union> set (transition_targets ops)"
      then have "finite M" using since finite_subset by blast
      then show ?thesis using ids [OF M(2)] M Some by (auto simp: conflict_def)
    qed (use on_base on_latest in blast)+
  qed
qed

theorem edit_errors_witness:
  "edit_sync demo_store ''tl-0000000a'' ''t2'' 7 [66] [SetVolume ''c1'' (1/2)] demo_sources demo_author = Inl (RevisionNotFound 7)
    \<and> revision demo_document 7 = None"
proof -
  have none: "revision demo_document 7 = None" by (simp add: revision_def demo_document_def)
  have e: "edit_sync demo_store ''tl-0000000a'' ''t2'' 7 [66] [SetVolume ''c1'' (1/2)] demo_sources demo_author = Inl (RevisionNotFound 7)"
    using demo_find none by (simp add: edit_sync_def base_revision_def)
  have "[66] \<noteq> ([] :: text_value)" by simp
  from edit_errors [OF demo_store_ok demo_find demo_valid_sources this e] e none show ?thesis by blast
qed


text \<open>
  Property C7: the difference of two contents is complete and its moves are least.  Clips it does not
  list are the same clips in the same order in both; and any set of clips whose removal puts the
  common rest in the same order has at least as many as it reports moved.
\<close>

theorem diff_content_correct:
  assumes "valid_content x" "valid_content y"
  shows "agree_outside (diff_changed (diff_content x y)) x y
    \<and> (filter (\<lambda>i. i \<notin> M) (common_ids x y) = filter (\<lambda>i. i \<notin> M) (common_ids y x)
        \<longrightarrow> card (diff_moved (diff_content x y)) \<le> card (M \<inter> set (common_ids x y)))"
  using diff_covers [OF assms order_refl] diff_moved_minimal [OF assms] by blast

theorem diff_content_correct_witness:
  "agree_outside (diff_changed (diff_content demo_content demo_held)) demo_content demo_held"
proof -
  have "valid_content demo_content" "valid_content demo_held"
    using demo_document_ok by (auto simp: document_ok_def demo_document_def content_ok_def)
  then show ?thesis using diff_content_correct by blast
qed

text \<open>
  What a restore reports as changed covers every reordering: the clips both contents
  have are in the same order, or all of them are reported.
\<close>

theorem restore_reports_reordering:
  assumes "valid_content x" "valid_content y"
  shows "common_ids x y = common_ids y x \<or> set (common_ids x y) \<subseteq> restore_changed_clip_ids x y"
  using assms by (rule restore_order)

theorem restore_reports_reordering_witness:
  "common_ids demo_content demo_held = common_ids demo_held demo_content
    \<or> set (common_ids demo_content demo_held) \<subseteq> restore_changed_clip_ids demo_content demo_held"
proof -
  have "valid_content demo_content" "valid_content demo_held"
    using demo_document_ok by (auto simp: document_ok_def demo_document_def content_ok_def)
  then show ?thesis by (rule restore_reports_reordering)
qed

text \<open>
  A timeline can be created mechanically from a script exactly when its unit IDs are
  unique and not empty.
\<close>

theorem mechanical_content_returns:
  "returns (mechanical_content us) \<longleftrightarrow> distinct (map su_unit_id us) \<and> list_all (\<lambda>u. su_unit_id u \<noteq> []) us"
proof -
  let ?cs = "map (\<lambda>(i, u). mechanical_clip i u) (enumerate 1 us)"
  have units: "map clip_unit_id ?cs = map su_unit_id us"
    by (rule nth_equalityI) (auto simp: nth_enumerate_eq)
  have "filter carries_narration ?cs = ?cs" by (rule filter_True) auto
  then have one: "one_narration_carrier_per_unit ?cs \<longleftrightarrow> distinct (map su_unit_id us)"
    by (simp only: one_narration_carrier_per_unit_def units)
  have "map clip_id ?cs = map make_clip_id [1..<Suc (length us)]"
    by (rule nth_equalityI) (auto simp: nth_enumerate_eq simp del: upt_Suc)
  then have "distinct (map clip_id ?cs)"
    by (simp only: distinct_map inj_on_def distinct_upt) (metis clip_number_make)
  moreover have "list_all valid_clip ?cs \<longleftrightarrow> list_all (\<lambda>u. su_unit_id u \<noteq> []) us"
  proof -
    have "valid_clip (mechanical_clip i u) \<longleftrightarrow> su_unit_id u \<noteq> []" if "1 \<le> i" for i u
      using that by (simp add: mechanical_clip_def valid_clip_def is_clip_id_make default_source_volume_valid)
    then have "list_all valid_clip ?cs \<longleftrightarrow> list_all (\<lambda>(i, u). su_unit_id u \<noteq> []) (enumerate 1 us)"
      by (auto simp: list_all_iff in_set_enumerate_eq)
    also have "\<dots> \<longleftrightarrow> list_all (\<lambda>u. su_unit_id u \<noteq> []) us"
    proof -
      have "set us = snd ` set (enumerate 1 us)" by (metis list.set_map map_snd_enumerate)
      then show ?thesis by (auto simp: list_all_iff)
    qed
    finally show ?thesis .
  qed
  ultimately have "valid_content \<lparr>content_clips = ?cs, content_bgm = []\<rparr> \<longleftrightarrow>
      distinct (map su_unit_id us) \<and> list_all (\<lambda>u. su_unit_id u \<noteq> []) us"
    using one by (simp only: valid_content_def content_validators_def unique_ids_def
        edit_timeline_content.select_convs list.pred_inject list.map distinct.simps simp_thms) blast
  then show ?thesis by (simp add: mechanical_content_def Let_def)
qed

end
