(* ===== verification/TimelineReadout.thy ===== *)
theory TimelineReadout
  imports TimelineHistory
begin

text \<open>
  The read side of edit timelines: \<open>place_bgm\<close> (\<open>lib/edit_timeline/bgm.py\<close>) and the readout with
  its issues (\<open>readout.py\<close>).  The check for glyphs missing from the subtitle font is an argument.
\<close>

section \<open>Placing the BGM track\<close>

definition BGM_CUTOFF_FADE_MICROSECONDS :: int where [simp]: "BGM_CUTOFF_FADE_MICROSECONDS = 1000000"

record placed_bgm =
  pb_clip_id :: string
  pb_ref :: string
  pb_start_us :: int
  pb_source_in_us :: int
  pb_duration_us :: int
  pb_volume :: volume
  pb_fade_in_us :: int
  pb_fade_out_us :: int
  pb_truncated :: bool

definition pb_end_us :: "placed_bgm \<Rightarrow> int" where
  "pb_end_us p = pb_start_us p + pb_duration_us p"

definition fit_fades :: "bgm_clip \<Rightarrow> int \<Rightarrow> bool \<Rightarrow> int \<times> int" where
  "fit_fades c len truncated =
     (if truncated
      then let fade_out = min BGM_CUTOFF_FADE_MICROSECONDS len
           in (min (bgm_fade_in_us c) (len - fade_out), fade_out)
      else let total = bgm_fade_in_us c + bgm_fade_out_us c
           in if total \<le> len then (bgm_fade_in_us c, bgm_fade_out_us c)
              else (bgm_fade_in_us c * len div total, bgm_fade_out_us c * len div total))"

definition place_one :: "int \<Rightarrow> bgm_clip \<Rightarrow> placed_bgm option" where
  "place_one duration_us c =
     (let natural_end = bgm_start_us c + bgm_clip_length_us c; stop = min natural_end duration_us in
      if stop \<le> bgm_start_us c then None
      else let len = stop - bgm_start_us c; truncated = stop < natural_end;
               (fade_in, fade_out) = fit_fades c len truncated
           in Some \<lparr>pb_clip_id = bgm_clip_id c, pb_ref = bgm_ref c, pb_start_us = bgm_start_us c,
                pb_source_in_us = bgm_in_us c, pb_duration_us = len, pb_volume = bgm_volume c,
                pb_fade_in_us = fade_in, pb_fade_out_us = fade_out, pb_truncated = truncated\<rparr>)"

definition place_bgm :: "bgm_clip list \<Rightarrow> int \<Rightarrow> placed_bgm list" where
  "place_bgm cs duration_us = List.map_filter (place_one duration_us) (sort_key bgm_start_us cs)"

definition bgm_ids :: "bgm_clip list \<Rightarrow> string list" where
  "bgm_ids cs = dedup_first (map bgm_ref cs)"

section \<open>Issues\<close>

datatype issue_severity = INFO | WARNING | BLOCKING

datatype issue_scope = SCOPE_ALL | WITH_NARRATION

datatype issue_code = TRIM_IGNORED | UNIT_DELETED | UNIT_UNUSED | VIDEO_MISSING | HOLD_TOO_LONG
  | NARRATION_MISSING | NARRATION_OVERRUN | NARRATION_SOURCE_COLLISION | SUBTITLE_MISSING_GLYPHS
  | BGM_MISSING

fun ISSUE_LEVELS :: "issue_code \<Rightarrow> issue_severity \<times> issue_scope" where
  "ISSUE_LEVELS TRIM_IGNORED = (INFO, SCOPE_ALL)"
| "ISSUE_LEVELS UNIT_DELETED = (INFO, SCOPE_ALL)"
| "ISSUE_LEVELS UNIT_UNUSED = (INFO, SCOPE_ALL)"
| "ISSUE_LEVELS VIDEO_MISSING = (BLOCKING, SCOPE_ALL)"
| "ISSUE_LEVELS HOLD_TOO_LONG = (WARNING, SCOPE_ALL)"
| "ISSUE_LEVELS NARRATION_MISSING = (BLOCKING, WITH_NARRATION)"
| "ISSUE_LEVELS NARRATION_OVERRUN = (WARNING, WITH_NARRATION)"
| "ISSUE_LEVELS NARRATION_SOURCE_COLLISION = (WARNING, WITH_NARRATION)"
| "ISSUE_LEVELS SUBTITLE_MISSING_GLYPHS = (WARNING, SCOPE_ALL)"
| "ISSUE_LEVELS BGM_MISSING = (BLOCKING, SCOPE_ALL)"

definition HOLD_WARNING_MICROSECONDS :: int where [simp]: "HOLD_WARNING_MICROSECONDS = 2000000"

text \<open>The parameters an issue carries, one constructor per set of keys\<close>

datatype issue_params =
    NoParams
  | TrimVersions int int
  | HoldLimit seconds seconds
  | MissingCharacters text_value
  | NextNarration string seconds
  | TimelineEnd seconds
  | Collision string string volume seconds
  | MissingBgm string

record timeline_issue =
  is_code :: issue_code
  is_severity :: issue_severity
  is_applies_to :: issue_scope
  is_clip_ids :: "string list"
  is_unit_id :: "string option"
  is_params :: issue_params

definition timeline_issue :: "issue_code \<Rightarrow> string list \<Rightarrow> string option \<Rightarrow> issue_params \<Rightarrow> timeline_issue" where
  "timeline_issue code ids u ps = \<lparr>is_code = code, is_severity = fst (ISSUE_LEVELS code),
     is_applies_to = snd (ISSUE_LEVELS code), is_clip_ids = ids, is_unit_id = u, is_params = ps\<rparr>"

definition trim_applies :: "edit_clip \<Rightarrow> unit_media \<Rightarrow> bool" where
  "trim_applies c m = (case clip_trim c of None \<Rightarrow> False
     | Some t \<Rightarrow> um_video_version m = Some (basis_version t))"

text \<open>The loop over the clips: its issues, and \<open>used\<close>, the clips of each unit in order\<close>

definition trim_issue :: "episode_sources \<Rightarrow> edit_clip \<Rightarrow> timeline_issue list" where
  "trim_issue src c =
     (case (clip_trim c, src_media src (clip_unit_id c)) of
        (Some t, Some m) \<Rightarrow> (case um_video_version m of None \<Rightarrow> []
          | Some v \<Rightarrow> if trim_applies c m then []
                      else [timeline_issue TRIM_IGNORED [clip_id c] (Some (clip_unit_id c)) (TrimVersions (basis_version t) v)])
      | _ \<Rightarrow> [])"

definition hold_issue :: "edit_clip \<Rightarrow> timeline_issue list" where
  "hold_issue c = (if hold_us c > HOLD_WARNING_MICROSECONDS
     then [timeline_issue HOLD_TOO_LONG [clip_id c] (Some (clip_unit_id c))
             (HoldLimit (microseconds_to_seconds (hold_us c)) (microseconds_to_seconds HOLD_WARNING_MICROSECONDS))]
     else [])"

fun clip_issues ::
  "episode_sources \<Rightarrow> edit_clip list \<Rightarrow> (string \<times> string list) list \<Rightarrow> timeline_issue list
    \<Rightarrow> timeline_issue list \<times> (string \<times> string list) list" where
  "clip_issues src [] used issues = (issues, used)"
| "clip_issues src (c # cs) used issues =
     (if source_unit src (clip_unit_id c) = None
      then clip_issues src cs used (issues @ [timeline_issue UNIT_DELETED [clip_id c] (Some (clip_unit_id c)) NoParams])
      else clip_issues src cs
        (dict_set (clip_unit_id c)
           ((case map_of used (clip_unit_id c) of None \<Rightarrow> [] | Some ids \<Rightarrow> ids) @ [clip_id c]) used)
        (issues @ trim_issue src c @ hold_issue c))"

definition unit_issues :: "(text_value \<Rightarrow> text_value) \<Rightarrow> episode_sources \<Rightarrow> string \<times> string list \<Rightarrow> timeline_issue list" where
  "unit_issues missing_glyphs src entry =
     (let (u, ids) = entry;
          missing = (case source_unit src u of Some x \<Rightarrow> missing_glyphs (subtitle_text x) | None \<Rightarrow> [])
      in (if (case src_media src u of None \<Rightarrow> True | Some m \<Rightarrow> um_video_version m = None)
          then [timeline_issue VIDEO_MISSING ids (Some u) NoParams] else [])
         @ (if missing \<noteq> [] then [timeline_issue SUBTITLE_MISSING_GLYPHS ids (Some u) (MissingCharacters missing)] else []))"

definition structural_issues ::
  "(text_value \<Rightarrow> text_value) \<Rightarrow> edit_timeline_content \<Rightarrow> episode_sources \<Rightarrow> timeline_issue list" where
  "structural_issues missing_glyphs x src =
     (let (issues, used) = clip_issues src (content_clips x) [] []
      in issues @ concat (map (unit_issues missing_glyphs src) used)
         @ map (\<lambda>u. timeline_issue UNIT_UNUSED [] (Some (su_unit_id u)) NoParams)
             (filter (\<lambda>u. map_of used (su_unit_id u) = None) (src_units src)))"

section \<open>Narration\<close>

record placed_clip =
  pc_clip :: edit_clip
  pc_start_us :: int
  pc_duration_us :: int

record narration =
  na_carrier :: placed_clip
  na_position :: nat
  na_end_us :: int

fun collect_narrations ::
  "episode_sources \<Rightarrow> nat \<Rightarrow> placed_clip list \<Rightarrow> timeline_issue list \<times> narration list" where
  "collect_narrations src pos [] = ([], [])"
| "collect_narrations src pos (p # ps) =
     (let (issues, ns) = collect_narrations src (Suc pos) ps; c = pc_clip p
      in case (source_unit src (clip_unit_id c), src_media src (clip_unit_id c)) of
           (Some u, Some m) \<Rightarrow>
             if \<not> carries_narration c \<or> su_speech_mode u \<noteq> Some NARRATOR_VOICEOVER then (issues, ns)
             else (case um_narration_duration_us m of
                     None \<Rightarrow> (timeline_issue NARRATION_MISSING [clip_id c] (Some (clip_unit_id c)) NoParams # issues, ns)
                   | Some d \<Rightarrow> (issues, \<lparr>na_carrier = p, na_position = pos, na_end_us = pc_start_us p + d\<rparr> # ns))
         | _ \<Rightarrow> (issues, ns))"

definition collision_cause :: "episode_sources \<Rightarrow> placed_clip \<Rightarrow> string option" where
  "collision_cause src p =
     (case source_unit src (clip_unit_id (pc_clip p)) of
        None \<Rightarrow> None
      | Some u \<Rightarrow> if pc_duration_us p = 0 then None
                  else if su_speech_mode u = Some CHARACTER_SPEECH then Some ''dialogue''
                  else if source_volume (pc_clip p) > VOICEOVER_SOURCE_VOLUME then Some ''source_volume''
                  else None)"

definition collision_issue :: "narration \<Rightarrow> placed_clip \<Rightarrow> string \<Rightarrow> timeline_issue" where
  "collision_issue n p cause = timeline_issue NARRATION_SOURCE_COLLISION
     [clip_id (pc_clip (na_carrier n)), clip_id (pc_clip p)] (Some (clip_unit_id (pc_clip (na_carrier n))))
     (Collision cause (clip_unit_id (pc_clip p)) (source_volume (pc_clip p))
        (microseconds_to_seconds (min (na_end_us n) (pc_start_us p + pc_duration_us p) - pc_start_us p)))"

text \<open>The inner loop, which stops at the first clip that starts after the narration\<close>

fun collisions :: "episode_sources \<Rightarrow> narration \<Rightarrow> placed_clip list \<Rightarrow> timeline_issue list" where
  "collisions src n [] = []"
| "collisions src n (p # ps) =
     (if pc_start_us p \<ge> na_end_us n then []
      else (case collision_cause src p of None \<Rightarrow> [] | Some cause \<Rightarrow> [collision_issue n p cause])
           @ collisions src n ps)"

definition overrun_issues :: "narration \<Rightarrow> narration option \<Rightarrow> int \<Rightarrow> timeline_issue list" where
  "overrun_issues n following total_us =
     (let carrier = pc_clip (na_carrier n) in
      (case following of None \<Rightarrow> []
       | Some f \<Rightarrow> if na_end_us n > pc_start_us (na_carrier f)
           then [timeline_issue NARRATION_OVERRUN [clip_id carrier, clip_id (pc_clip (na_carrier f))]
                   (Some (clip_unit_id carrier))
                   (NextNarration (clip_unit_id (pc_clip (na_carrier f)))
                     (microseconds_to_seconds (min (na_end_us n) (na_end_us f) - pc_start_us (na_carrier f))))]
           else [])
      @ (if na_end_us n > total_us
         then [timeline_issue NARRATION_OVERRUN [clip_id carrier] (Some (clip_unit_id carrier))
                 (TimelineEnd (microseconds_to_seconds (na_end_us n - total_us)))]
         else []))"

fun narration_loop ::
  "episode_sources \<Rightarrow> placed_clip list \<Rightarrow> int \<Rightarrow> narration list \<Rightarrow> timeline_issue list" where
  "narration_loop src placed total_us [] = []"
| "narration_loop src placed total_us (n # ns) =
     overrun_issues n (case ns of [] \<Rightarrow> None | f # _ \<Rightarrow> Some f) total_us
     @ collisions src n (drop (na_position n + 1) placed)
     @ narration_loop src placed total_us ns"

definition narration_issues :: "placed_clip list \<Rightarrow> episode_sources \<Rightarrow> int \<Rightarrow> timeline_issue list" where
  "narration_issues placed src total_us =
     (if \<not> src_tts_narration src then []
      else let (issues, ns) = collect_narrations src 0 placed
           in issues @ narration_loop src placed total_us ns)"

definition bgm_missing_issues :: "edit_timeline_content \<Rightarrow> (string \<Rightarrow> bool) \<Rightarrow> timeline_issue list" where
  "bgm_missing_issues x available =
     map (\<lambda>c. timeline_issue BGM_MISSING [bgm_clip_id c] None (MissingBgm (bgm_ref c)))
       (filter (\<lambda>c. \<not> available (bgm_ref c)) (sort_key bgm_start_us (content_bgm x)))"


section \<open>The readout\<close>

datatype clip_status = READY | STATUS_VIDEO_MISSING | STATUS_UNIT_DELETED

record trim_view =
  tv_source_in :: seconds
  tv_source_out :: seconds
  tv_basis_version :: int

record transition_view =
  trv_type :: transition_type
  trv_duration :: seconds

record narration_view =
  nv_start :: seconds
  nv_end :: "seconds option"

record clip_view =
  cv_id :: string
  cv_unit_id :: string
  cv_status :: clip_status
  cv_start :: seconds
  cv_duration :: seconds
  cv_video_version :: "int option"
  cv_source_duration :: "seconds option"
  cv_trim :: "trim_view option"
  cv_source_volume :: volume
  cv_hold :: seconds
  cv_carries_narration :: bool
  cv_narration :: "narration_view option"
  cv_reason :: "text_value option"
  cv_transition_to_next :: "transition_view option"

record bgm_view =
  bv_id :: string
  bv_bgm_id :: string
  bv_name :: "text_value option"
  bv_start :: seconds
  bv_end :: seconds
  bv_source_in :: seconds
  bv_source_out :: seconds
  bv_volume :: volume
  bv_fade_in :: seconds
  bv_fade_out :: seconds

record timeline_identity =
  ti_id :: string
  ti_name :: text_value
  ti_episode :: nat

record readout =
  ro_timeline :: timeline_identity
  ro_revision :: nat
  ro_latest_revision :: nat
  ro_duration :: seconds
  ro_clips :: "clip_view list"
  ro_bgm :: "bgm_view list"
  ro_issues :: "timeline_issue list"

definition clip_view :: "edit_clip \<Rightarrow> episode_sources \<Rightarrow> int \<Rightarrow> clip_view \<times> int" where
  "clip_view c src start_us =
     (let m = src_media src (clip_unit_id c);
          (status, duration_us, narr) = (case (source_unit src (clip_unit_id c), m) of
             (Some u, Some md) \<Rightarrow>
               (if um_video_version md \<noteq> None then READY else STATUS_VIDEO_MISSING,
                clip_source_duration_us c md (scripted_duration_us u) + hold_us c,
                if carries_narration c \<and> su_speech_mode u = Some NARRATOR_VOICEOVER
                then Some \<lparr>nv_start = microseconds_to_seconds start_us,
                  nv_end = map_option (\<lambda>d. microseconds_to_seconds (start_us + d)) (um_narration_duration_us md)\<rparr>
                else None)
           | _ \<Rightarrow> (STATUS_UNIT_DELETED, 0, None))
      in (\<lparr>cv_id = clip_id c, cv_unit_id = clip_unit_id c, cv_status = status,
            cv_start = microseconds_to_seconds start_us, cv_duration = microseconds_to_seconds duration_us,
            cv_video_version = Option.bind m um_video_version,
            cv_source_duration = (case m of None \<Rightarrow> None
              | Some md \<Rightarrow> if um_video_version md \<noteq> None
                           then map_option microseconds_to_seconds (um_video_duration_us md) else None),
            cv_trim = map_option (\<lambda>t. \<lparr>tv_source_in = microseconds_to_seconds (trim_in_us t),
              tv_source_out = microseconds_to_seconds (trim_out_us t), tv_basis_version = basis_version t\<rparr>) (clip_trim c),
            cv_source_volume = source_volume c, cv_hold = microseconds_to_seconds (hold_us c),
            cv_carries_narration = carries_narration c, cv_narration = narr, cv_reason = clip_reason c,
            cv_transition_to_next = map_option (\<lambda>t. \<lparr>trv_type = tr_type t,
              trv_duration = microseconds_to_seconds (tr_duration_us t)\<rparr>) (transition_to_next c)\<rparr>,
          duration_us))"

fun place_clips :: "episode_sources \<Rightarrow> int \<Rightarrow> edit_clip list \<Rightarrow> clip_view list \<times> placed_clip list \<times> int" where
  "place_clips src cursor_us [] = ([], [], cursor_us)"
| "place_clips src cursor_us (c # cs) =
     (let (view, duration_us) = clip_view c src cursor_us;
          (views, placed, total) = place_clips src (cursor_us + duration_us) cs
      in (view # views, \<lparr>pc_clip = c, pc_start_us = cursor_us, pc_duration_us = duration_us\<rparr> # placed, total))"

definition bgm_view :: "episode_sources \<Rightarrow> placed_bgm list \<Rightarrow> bgm_clip \<Rightarrow> bgm_view" where
  "bgm_view src placements c =
     (let p = map_of (rev (map (\<lambda>p. (pb_clip_id p, p)) placements)) (bgm_clip_id c)
      in \<lparr>bv_id = bgm_clip_id c, bv_bgm_id = bgm_ref c, bv_name = map_option bm_name (src_bgm src (bgm_ref c)),
           bv_start = microseconds_to_seconds (bgm_start_us c),
           bv_end = microseconds_to_seconds (case p of Some q \<Rightarrow> pb_end_us q | None \<Rightarrow> bgm_start_us c),
           bv_source_in = microseconds_to_seconds (bgm_in_us c),
           bv_source_out = microseconds_to_seconds (bgm_out_us c), bv_volume = bgm_volume c,
           bv_fade_in = microseconds_to_seconds (case p of Some q \<Rightarrow> pb_fade_in_us q | None \<Rightarrow> bgm_fade_in_us c),
           bv_fade_out = microseconds_to_seconds (case p of Some q \<Rightarrow> pb_fade_out_us q | None \<Rightarrow> bgm_fade_out_us c)\<rparr>)"

definition project_readout ::
  "(text_value \<Rightarrow> text_value) \<Rightarrow> edit_timeline_document \<Rightarrow> timeline_revision \<Rightarrow> episode_sources \<Rightarrow> readout" where
  "project_readout missing_glyphs d r src =
     (let x = rev_content r;
          (views, placed, cursor_us) = place_clips src 0 (content_clips x);
          placements = place_bgm (content_bgm x) cursor_us
      in \<lparr>ro_timeline = \<lparr>ti_id = doc_id d, ti_name = doc_name d, ti_episode = doc_episode d\<rparr>,
           ro_revision = rev_number r, ro_latest_revision = rev_number (latest d),
           ro_duration = microseconds_to_seconds cursor_us, ro_clips = views,
           ro_bgm = map (bgm_view src placements) (sort_key bgm_start_us (content_bgm x)),
           ro_issues = structural_issues missing_glyphs x src @ narration_issues placed src cursor_us
             @ bgm_missing_issues x (\<lambda>b. src_bgm src b \<noteq> None)\<rparr>)"

text \<open>
  What the service returns: the readout of a stored revision, and the result of a write, cut down to
  the clips it affected.  \<open>load\<close> loads the facts about the episode for a set of units; a write loads
  them again when the new revision has a clip of another unit.
\<close>

definition read_timeline ::
  "(text_value \<Rightarrow> text_value) \<Rightarrow> (string set \<Rightarrow> episode_sources) \<Rightarrow> store \<Rightarrow> string \<Rightarrow> int option \<Rightarrow> readout result" where
  "read_timeline missing_glyphs load st tid number =
     ebind (find_document st tid) (\<lambda>d.
     ebind (base_revision d (case number of Some n \<Rightarrow> n | None \<Rightarrow> int (rev_number (latest d)))) (\<lambda>r.
       Inr (project_readout missing_glyphs d r (load (clip_unit_id ` set (content_clips (rev_content r)))))))"

record write_result =
  ed_timeline :: timeline_identity
  ed_revision :: nat
  ed_base_revision :: nat
  ed_concurrent_revisions :: "timeline_revision list"
  ed_duration :: seconds
  ed_clips :: "clip_view list"
  ed_bgm :: "bgm_view list"
  ed_deleted_clip_ids :: "string list"
  ed_issues :: "timeline_issue list"

definition write_result ::
  "(text_value \<Rightarrow> text_value) \<Rightarrow> (string set \<Rightarrow> episode_sources) \<Rightarrow> string set \<Rightarrow> episode_sources \<Rightarrow> written
    \<Rightarrow> timeline_revision list \<Rightarrow> write_result" where
  "write_result missing_glyphs load units src w concurrent =
     (let last_rev = latest (wr_document w);
          on_track = clip_unit_id ` set (content_clips (rev_content last_rev));
          src' = (if \<not> on_track \<subseteq> units then load on_track else src);
          ro = project_readout missing_glyphs (wr_document w) last_rev src'
      in \<lparr>ed_timeline = ro_timeline ro, ed_revision = rev_number last_rev, ed_base_revision = wr_base_revision w,
           ed_concurrent_revisions = concurrent, ed_duration = ro_duration ro,
           ed_clips = filter (\<lambda>v. cv_id v \<in> wr_affected w) (ro_clips ro),
           ed_bgm = filter (\<lambda>v. bv_id v \<in> wr_affected w) (ro_bgm ro),
           ed_deleted_clip_ids = sorted_clip_ids (wr_deleted w), ed_issues = ro_issues ro\<rparr>)"

section \<open>Placed clips\<close>

lemma clip_view_duration: "snd (clip_view c src start) = (case clip_duration src c of None \<Rightarrow> 0 | Some d \<Rightarrow> d)"
  by (simp add: clip_view_def clip_duration_def Let_def split: option.splits)

lemma place_clips_Cons:
  "place_clips src cursor (c # cs) =
     (let d = (case clip_duration src c of None \<Rightarrow> 0 | Some d \<Rightarrow> d); rest = place_clips src (cursor + d) cs
      in (fst (clip_view c src cursor) # fst rest,
          \<lparr>pc_clip = c, pc_start_us = cursor, pc_duration_us = d\<rparr> # fst (snd rest), snd (snd rest)))"
  by (simp add: clip_view_duration Let_def split_beta)

declare place_clips.simps(2) [simp del]

lemma timeline_duration_Cons [simp]:
  "timeline_duration src (c # cs) =
     (case clip_duration src c of None \<Rightarrow> 0 | Some d \<Rightarrow> d) + timeline_duration src cs"
  by (simp add: timeline_duration_def map_filter_simps split: option.splits)

lemma timeline_duration_Nil [simp]: "timeline_duration src [] = 0"
  by (simp add: timeline_duration_def map_filter_simps)

lemma place_clips_total: "snd (snd (place_clips src cursor cs)) = cursor + timeline_duration src cs"
  by (induction cs arbitrary: cursor) (simp_all add: place_clips_Cons Let_def)

lemma place_clips_length [simp]:
  "length (fst (place_clips src cursor cs)) = length cs"
  "length (fst (snd (place_clips src cursor cs))) = length cs"
  by (induction cs arbitrary: cursor) (simp_all add: place_clips_Cons Let_def)

lemma place_clips_nth:
  assumes "i < length cs"
  shows "fst (snd (place_clips src cursor cs)) ! i =
      \<lparr>pc_clip = cs ! i, pc_start_us = cursor + timeline_duration src (take i cs),
       pc_duration_us = (case clip_duration src (cs ! i) of None \<Rightarrow> 0 | Some d \<Rightarrow> d)\<rparr>
    \<and> fst (place_clips src cursor cs) ! i = fst (clip_view (cs ! i) src (cursor + timeline_duration src (take i cs)))"
  using assms
proof (induction cs arbitrary: i cursor)
  case (Cons c cs)
  then show ?case
    by (cases i) (simp_all add: place_clips_Cons Let_def add.assoc)
qed simp


section \<open>The BGM that sounds\<close>

lemma place_oneE:
  assumes "place_one D c = Some p" "valid_bgm_clip c"
  obtains "pb_clip_id p = bgm_clip_id c" "pb_start_us p = bgm_start_us c" "pb_source_in_us p = bgm_in_us c"
    "pb_end_us p = min (bgm_end c) D" "0 < pb_duration_us p"
    "0 \<le> pb_fade_in_us p" "0 \<le> pb_fade_out_us p" "pb_fade_in_us p + pb_fade_out_us p \<le> pb_duration_us p"
    "pb_truncated p \<longleftrightarrow> D < bgm_end c"
    "pb_truncated p \<Longrightarrow> pb_fade_out_us p = min BGM_CUTOFF_FADE_MICROSECONDS (pb_duration_us p)"
proof -
  define stop where "stop = min (bgm_end c) D"
  define len where "len = stop - bgm_start_us c"
  define fades where "fades = fit_fades c len (stop < bgm_end c)"
  have pos: "0 < len" and p: "p = \<lparr>pb_clip_id = bgm_clip_id c, pb_ref = bgm_ref c,
      pb_start_us = bgm_start_us c, pb_source_in_us = bgm_in_us c, pb_duration_us = len,
      pb_volume = bgm_volume c, pb_fade_in_us = fst fades, pb_fade_out_us = snd fades,
      pb_truncated = (stop < bgm_end c)\<rparr>"
    using assms(1)
    by (auto simp: place_one_def Let_def stop_def len_def fades_def bgm_end_def split_beta split: if_splits)
  let ?a = "bgm_fade_in_us c" and ?b = "bgm_fade_out_us c"
  have nonneg: "0 \<le> ?a" "0 \<le> ?b" using assms(2) by (auto simp: valid_bgm_clip_def)
  have fades_ok: "0 \<le> fst fades \<and> 0 \<le> snd fades \<and> fst fades + snd fades \<le> len"
  proof (cases "stop < bgm_end c \<or> ?a + ?b \<le> len")
    case True
    then show ?thesis using nonneg pos by (auto simp: fades_def fit_fades_def Let_def)
  next
    case False
    then have tot: "0 < ?a + ?b" using pos by linarith
    have eq: "fst fades = ?a * len div (?a + ?b)" "snd fades = ?b * len div (?a + ?b)"
      using False by (simp_all add: fades_def fit_fades_def Let_def)
    have "(?a * len div (?a + ?b) + ?b * len div (?a + ?b)) * (?a + ?b) \<le> ?a * len + ?b * len"
      using pos_mod_sign [OF tot, of "?a * len"] pos_mod_sign [OF tot, of "?b * len"]
        div_mult_mod_eq [of "?a * len" "?a + ?b"] div_mult_mod_eq [of "?b * len" "?a + ?b"]
      by (simp only: distrib_right)
    then have "(fst fades + snd fades) * (?a + ?b) \<le> len * (?a + ?b)"
      unfolding eq by (simp add: algebra_simps)
    then have "fst fades + snd fades \<le> len" using tot by simp
    then show ?thesis using nonneg pos tot unfolding eq by (simp add: pos_imp_zdiv_nonneg_iff)
  qed
  have "pb_truncated p \<longleftrightarrow> D < bgm_end c" by (auto simp: p stop_def)
  moreover have "pb_truncated p \<Longrightarrow> pb_fade_out_us p = min BGM_CUTOFF_FADE_MICROSECONDS (pb_duration_us p)"
    by (simp add: p fades_def fit_fades_def Let_def)
  moreover have "pb_end_us p = min (bgm_end c) D" by (simp add: p pb_end_us_def len_def stop_def)
  ultimately show thesis using that fades_ok pos by (simp add: p)
qed

lemma set_map_filter: "set (List.map_filter f xs) = {y. \<exists>x \<in> set xs. f x = Some y}"
  by (induction xs) (auto simp: map_filter_simps split: option.splits)

lemma set_place_bgm: "set (place_bgm cs D) = {p. \<exists>c \<in> set cs. place_one D c = Some p}"
  by (auto simp: place_bgm_def set_map_filter)

lemma sorted_wrt_map_filter:
  assumes "sorted_wrt P xs" "\<And>x y a b. P x y \<Longrightarrow> x \<in> set xs \<Longrightarrow> y \<in> set xs \<Longrightarrow> f x = Some a \<Longrightarrow> f y = Some b \<Longrightarrow> Q a b"
  shows "sorted_wrt Q (List.map_filter f xs)"
  using assms
proof (induction xs)
  case (Cons x xs)
  have rest: "sorted_wrt Q (List.map_filter f xs)"
    by (rule Cons.IH) (use Cons.prems in \<open>auto\<close>)
  show ?case
    using Cons.prems rest
    by (cases "f x") (auto simp: map_filter_simps set_map_filter)
qed (simp add: map_filter_simps)

lemma place_bgm_sorted:
  assumes "bgm_disjoint (sort_key bgm_start_us cs)" "\<forall>c \<in> set cs. valid_bgm_clip c"
  shows "sorted_wrt (\<lambda>p q. pb_end_us p \<le> pb_start_us q) (place_bgm cs D)"
  unfolding place_bgm_def
proof (rule sorted_wrt_map_filter)
  show "sorted_wrt (\<lambda>c d. bgm_end c \<le> bgm_start_us d) (sort_key bgm_start_us cs)"
    using assms(1) by (simp add: bgm_disjoint_def)
next
  fix c d p q
  assume le: "bgm_end c \<le> bgm_start_us d" and mem: "c \<in> set (sort_key bgm_start_us cs)" "d \<in> set (sort_key bgm_start_us cs)"
    and pl: "place_one D c = Some p" "place_one D d = Some q"
  have v: "valid_bgm_clip c" "valid_bgm_clip d" using assms(2) mem by auto
  have "pb_end_us p \<le> bgm_end c" by (rule place_oneE [OF pl(1) v(1)]) simp
  moreover have "pb_start_us q = bgm_start_us d" by (rule place_oneE [OF pl(2) v(2)])
  ultimately show "pb_end_us p \<le> pb_start_us q" using le by simp
qed

section \<open>Issues by kind\<close>

text \<open>The issues of one kind, in the order the readout reports them\<close>

definition issues_of :: "issue_code \<Rightarrow> timeline_issue list \<Rightarrow> timeline_issue list" where
  "issues_of k xs = filter (\<lambda>i. is_code i = k) xs"

named_theorems issue_simps \<open>which issues of a kind a part of the readout reports\<close>

lemma is_code_timeline_issue [simp]: "is_code (timeline_issue k ids u ps) = k"
  by (simp add: timeline_issue_def)

lemma issues_of_Nil [simp]: "issues_of k [] = []"
  by (simp add: issues_of_def)

lemma issues_of_Cons [issue_simps]: "issues_of k (x # xs) = (if is_code x = k then [x] else []) @ issues_of k xs"
  by (simp add: issues_of_def)

lemma issues_of_append [issue_simps]: "issues_of k (xs @ ys) = issues_of k xs @ issues_of k ys"
  by (simp add: issues_of_def)

lemma issues_of_concat [issue_simps]: "issues_of k (concat xss) = concat (map (issues_of k) xss)"
  by (induction xss) (simp_all add: issues_of_def)

lemma issues_of_same [issue_simps]: "\<forall>i \<in> set xs. is_code i = k \<Longrightarrow> issues_of k xs = xs"
  by (simp add: issues_of_def)

lemma issues_of_other: "\<forall>i \<in> set xs. is_code i \<noteq> k \<Longrightarrow> issues_of k xs = []"
  by (simp add: issues_of_def)

text \<open>A unit is in the script; a unit has a video to show\<close>

definition in_script :: "episode_sources \<Rightarrow> string \<Rightarrow> bool" where
  "in_script src u = (source_unit src u \<noteq> None)"

definition has_video :: "episode_sources \<Rightarrow> string \<Rightarrow> bool" where
  "has_video src u = (Option.bind (src_media src u) um_video_version \<noteq> None)"

definition clips_of :: "string \<Rightarrow> edit_clip list \<Rightarrow> string list" where
  "clips_of u cs = map clip_id (filter (\<lambda>c. clip_unit_id c = u) cs)"

lemma clip_issues_fst:
  "fst (clip_issues src cs used acc) = acc @ concat (map (\<lambda>c. if in_script src (clip_unit_id c)
     then trim_issue src c @ hold_issue c
     else [timeline_issue UNIT_DELETED [clip_id c] (Some (clip_unit_id c)) NoParams]) cs)"
  by (induction src cs used acc rule: clip_issues.induct) (simp_all add: in_script_def)

text \<open>The dictionary of used units: its keys in order of first use, each with its clips in track order\<close>

definition used_units :: "episode_sources \<Rightarrow> edit_clip list \<Rightarrow> string list" where
  "used_units src cs = dedup_first (map clip_unit_id (filter (\<lambda>c. in_script src (clip_unit_id c)) cs))"

lemma dict_set_map:
  "distinct us \<Longrightarrow> dict_set k v (map (\<lambda>u. (u, g u)) us) =
     (if k \<in> set us then map (\<lambda>u. (u, if u = k then v else g u)) us else map (\<lambda>u. (u, g u)) us @ [(k, v)])"
  by (induction us) auto

lemma dedup_first_snoc:
  "dedup_first (xs @ [x]) = (if x \<in> set xs then dedup_first xs else dedup_first xs @ [x])"
  by (induction xs) auto

lemma clip_issues_append:
  "clip_issues src (xs @ ys) used acc = (case clip_issues src xs used acc of (i, u) \<Rightarrow> clip_issues src ys u i)"
  by (induction src xs used acc rule: clip_issues.induct) simp_all

lemma clips_of_snoc: "clips_of u (cs @ [c]) = clips_of u cs @ (if clip_unit_id c = u then [clip_id c] else [])"
  by (simp add: clips_of_def)

lemma set_used_units: "set (used_units src cs) = {u. in_script src u \<and> u \<in> clip_unit_id ` set cs}"
  by (auto simp: used_units_def)

lemma clips_of_unused: "u \<notin> clip_unit_id ` set cs \<Longrightarrow> clips_of u cs = []"
  by (auto simp: clips_of_def filter_empty_conv)

lemma clip_issues_snd:
  "snd (clip_issues src cs [] acc) = map (\<lambda>u. (u, clips_of u cs)) (used_units src cs)"
proof (induction cs rule: rev_induct)
  case (snoc c cs)
  let ?u = "clip_unit_id c"
  obtain i d where run: "clip_issues src cs [] acc = (i, d)" by (cases "clip_issues src cs [] acc") auto
  have d: "d = map (\<lambda>u. (u, clips_of u cs)) (used_units src cs)" using snoc run by simp
  show ?case
  proof (cases "in_script src ?u")
    case False
    then have "?u \<notin> set (used_units src cs)" by (simp add: set_used_units)
    moreover have "used_units src (cs @ [c]) = used_units src cs" using False by (simp add: used_units_def)
    ultimately show ?thesis
      using False by (auto simp: clip_issues_append run d in_script_def clips_of_snoc)
  next
    case True
    have dist: "distinct (used_units src cs)" by (simp add: used_units_def)
    have look: "map_of d ?u = (if ?u \<in> set (used_units src cs) then Some (clips_of ?u cs) else None)"
      unfolding d by (simp add: map_of_map_restrict restrict_map_def)
    have uu: "used_units src (cs @ [c]) =
        (if ?u \<in> set (used_units src cs) then used_units src cs else used_units src cs @ [?u])"
      using True by (simp add: used_units_def dedup_first_snoc)
    show ?thesis
    proof (cases "?u \<in> set (used_units src cs)")
      case old: True
      then show ?thesis
        using True look uu dict_set_map [OF dist, of ?u _ "\<lambda>u. clips_of u cs"]
        by (auto simp: clip_issues_append run in_script_def clips_of_snoc d intro!: map_cong)
    next
      case False
      then have "clips_of ?u cs = []" using True by (auto simp: set_used_units intro!: clips_of_unused)
      then show ?thesis
        using True False look uu dict_set_map [OF dist, of ?u _ "\<lambda>u. clips_of u cs"]
        by (auto simp: clip_issues_append run in_script_def clips_of_snoc d intro!: map_cong)
    qed
  qed
qed (simp add: used_units_def)

lemma structural_issues_eq:
  "structural_issues mg x src =
     concat (map (\<lambda>c. if in_script src (clip_unit_id c) then trim_issue src c @ hold_issue c
       else [timeline_issue UNIT_DELETED [clip_id c] (Some (clip_unit_id c)) NoParams]) (content_clips x))
     @ concat (map (\<lambda>u. unit_issues mg src (u, clips_of u (content_clips x))) (used_units src (content_clips x)))
     @ map (\<lambda>u. timeline_issue UNIT_UNUSED [] (Some (su_unit_id u)) NoParams)
         (filter (\<lambda>u. su_unit_id u \<notin> clip_unit_id ` set (content_clips x)) (src_units src))"
proof -
  have inl: "in_script src (su_unit_id u)" if "u \<in> set (src_units src)" for u
    using that by (auto simp: in_script_def source_unit_def find_None_iff)
  have unused: "map_of (snd (clip_issues src (content_clips x) [] [])) (su_unit_id u) = None
      \<longleftrightarrow> su_unit_id u \<notin> clip_unit_id ` set (content_clips x)" if "u \<in> set (src_units src)" for u
    using inl [OF that]
    by (simp add: clip_issues_snd map_of_map_restrict restrict_map_def set_used_units)
  have "filter (\<lambda>u. map_of (snd (clip_issues src (content_clips x) [] [])) (su_unit_id u) = None) (src_units src)
      = filter (\<lambda>u. su_unit_id u \<notin> clip_unit_id ` set (content_clips x)) (src_units src)"
    by (rule filter_cong) (auto simp: unused)
  then show ?thesis
    by (simp add: structural_issues_def split_beta Let_def clip_issues_fst clip_issues_snd comp_def)
qed


lemma issues_of_structural [issue_simps]:
  "issues_of UNIT_DELETED (structural_issues mg x src) =
     map (\<lambda>c. timeline_issue UNIT_DELETED [clip_id c] (Some (clip_unit_id c)) NoParams)
       (filter (\<lambda>c. \<not> in_script src (clip_unit_id c)) (content_clips x))" (is ?deleted)
  "issues_of VIDEO_MISSING (structural_issues mg x src) =
     map (\<lambda>u. timeline_issue VIDEO_MISSING (clips_of u (content_clips x)) (Some u) NoParams)
       (filter (\<lambda>u. \<not> has_video src u) (used_units src (content_clips x)))" (is ?missing)
  "issues_of UNIT_UNUSED (structural_issues mg x src) =
     map (\<lambda>u. timeline_issue UNIT_UNUSED [] (Some (su_unit_id u)) NoParams)
       (filter (\<lambda>u. su_unit_id u \<notin> clip_unit_id ` set (content_clips x)) (src_units src))" (is ?unused)
proof -
  let ?cs = "content_clips x"
  let ?per_clip = "\<lambda>c. if in_script src (clip_unit_id c) then trim_issue src c @ hold_issue c
     else [timeline_issue UNIT_DELETED [clip_id c] (Some (clip_unit_id c)) NoParams]"
  let ?per_unit = "\<lambda>u. unit_issues mg src (u, clips_of u ?cs)"
  have trim: "is_code i = TRIM_IGNORED \<or> is_code i = HOLD_TOO_LONG" if "i \<in> set (trim_issue src c @ hold_issue c)" for i c
    using that by (auto simp: trim_issue_def hold_issue_def split: option.splits if_splits)
  have none: "issues_of k (trim_issue src c @ hold_issue c) = []" if "k \<noteq> TRIM_IGNORED" "k \<noteq> HOLD_TOO_LONG" for k c
    by (rule issues_of_other) (use that trim in fastforce)
  have del: "issues_of UNIT_DELETED (concat (map ?per_clip cs)) =
      map (\<lambda>c. timeline_issue UNIT_DELETED [clip_id c] (Some (clip_unit_id c)) NoParams)
        (filter (\<lambda>c. \<not> in_script src (clip_unit_id c)) cs)" for cs
    by (induction cs) (simp_all add: issue_simps none [unfolded issues_of_append])
  have nodel: "issues_of k (concat (map ?per_clip cs)) = []"
    if "k \<noteq> UNIT_DELETED" "k \<noteq> TRIM_IGNORED" "k \<noteq> HOLD_TOO_LONG" for k cs
    using that by (induction cs) (auto simp: issue_simps none [unfolded issues_of_append])
  have vid: "issues_of VIDEO_MISSING (concat (map ?per_unit us)) =
      map (\<lambda>u. timeline_issue VIDEO_MISSING (clips_of u ?cs) (Some u) NoParams)
        (filter (\<lambda>u. \<not> has_video src u) us)" for us
    by (induction us)
      (auto simp: issue_simps unit_issues_def has_video_def Let_def split: option.splits)
  have novid: "issues_of k (concat (map ?per_unit us)) = []"
    if "k \<noteq> VIDEO_MISSING" "k \<noteq> SUBTITLE_MISSING_GLYPHS" for k us
    using that by (induction us) (auto simp: issue_simps unit_issues_def Let_def)
  have unused: "issues_of k (map (\<lambda>u. timeline_issue UNIT_UNUSED [] (Some (su_unit_id u)) NoParams) us) =
      (if k = UNIT_UNUSED then map (\<lambda>u. timeline_issue UNIT_UNUSED [] (Some (su_unit_id u)) NoParams) us else [])" for k us
    by (auto simp: issues_of_def filter_empty_conv)
  show ?deleted ?missing ?unused
    unfolding structural_issues_eq by (simp_all add: issues_of_append del nodel vid novid unused)
qed

section \<open>Narration that runs over other clips\<close>

lemma collisions_all:
  assumes "sorted_wrt (\<lambda>p q. pc_start_us p \<le> pc_start_us q) ps"
  shows "collisions src n ps =
    concat (map (\<lambda>p. case collision_cause src p of None \<Rightarrow> [] | Some cause \<Rightarrow> [collision_issue n p cause])
      (filter (\<lambda>p. pc_start_us p < na_end_us n) ps))"
  using assms
proof (induction ps)
  case (Cons p ps)
  show ?case
  proof (cases "pc_start_us p \<ge> na_end_us n")
    case True
    then have "filter (\<lambda>p. pc_start_us p < na_end_us n) (p # ps) = []"
      using Cons.prems by (auto simp: filter_empty_conv)
    then show ?thesis using True by simp
  next
    case False
    then show ?thesis using Cons by simp
  qed
qed simp

lemma timeline_duration_nonneg:
  assumes "valid_sources src" "\<forall>c \<in> set cs. valid_clip c"
  shows "0 \<le> timeline_duration src cs"
  using assms(2)
proof (induction cs)
  case (Cons c cs)
  have "0 \<le> (case clip_duration src c of None \<Rightarrow> 0 | Some d \<Rightarrow> d)"
    using clip_duration_nonneg [of src c] assms(1) Cons.prems by (auto split: option.splits)
  then show ?case using Cons by simp
qed simp

lemma place_clips_sorted:
  assumes "valid_sources src" "\<forall>c \<in> set cs. valid_clip c"
  shows "sorted_wrt (\<lambda>p q. pc_start_us p + pc_duration_us p \<le> pc_start_us q \<and> pc_start_us p \<le> pc_start_us q)
    (fst (snd (place_clips src cursor cs)))"
  using assms(2)
proof (induction cs arbitrary: cursor)
  case (Cons c cs)
  let ?d = "case clip_duration src c of None \<Rightarrow> 0 | Some d \<Rightarrow> d"
  have d: "0 \<le> ?d"
    using clip_duration_nonneg [of src c] assms(1) Cons.prems by (auto split: option.splits)
  have later: "cursor + ?d \<le> pc_start_us p" if "p \<in> set (fst (snd (place_clips src (cursor + ?d) cs)))" for p
  proof -
    obtain i where i: "i < length cs" "fst (snd (place_clips src (cursor + ?d) cs)) ! i = p"
      using \<open>p \<in> set _\<close> by (auto simp: in_set_conv_nth)
    have "0 \<le> timeline_duration src (take i cs)"
      using Cons.prems by (intro timeline_duration_nonneg [OF assms(1)]) (auto dest: in_set_takeD)
    then show ?thesis using place_clips_nth [OF i(1), of src "cursor + ?d"] i(2) by auto
  qed
  show ?case using Cons later d by (fastforce simp: place_clips_Cons Let_def)
qed simp


section \<open>Properties\<close>

text \<open>
  What \<open>place_bgm\<close> places is audible and inside the timeline: every piece comes from a
  BGM clip of the track, ends at the clip's end or where the timeline ends, is not empty, and its
  fades fit into it; a piece cut off by the end of the timeline fades out there for one second (or
  for its whole length).
\<close>

theorem placed_bgm_fits:
  assumes "p \<in> set (place_bgm cs D)" "\<forall>c \<in> set cs. valid_bgm_clip c"
  shows "0 < pb_duration_us p \<and> pb_end_us p \<le> D
    \<and> 0 \<le> pb_fade_in_us p \<and> 0 \<le> pb_fade_out_us p \<and> pb_fade_in_us p + pb_fade_out_us p \<le> pb_duration_us p
    \<and> (pb_truncated p \<longrightarrow> pb_end_us p = D \<and> pb_fade_out_us p = min BGM_CUTOFF_FADE_MICROSECONDS (pb_duration_us p))
    \<and> (\<exists>c \<in> set cs. bgm_clip_id c = pb_clip_id p \<and> bgm_start_us c = pb_start_us p \<and> bgm_in_us c = pb_source_in_us p
         \<and> pb_source_in_us p + pb_duration_us p \<le> bgm_out_us c \<and> (\<not> pb_truncated p \<longrightarrow> pb_end_us p = bgm_end c))"
proof -
  obtain c where c: "c \<in> set cs" "place_one D c = Some p" using assms(1) by (auto simp: set_place_bgm)
  have "valid_bgm_clip c" using assms(2) c(1) by blast
  with c(2) show ?thesis
    by (rule place_oneE)
      (use c(1) in \<open>auto simp: pb_end_us_def bgm_end_def bgm_clip_length_us_def intro!: bexI [of _ c]\<close>)
qed

definition demo_bgm :: "nat \<Rightarrow> int \<Rightarrow> bgm_clip" where
  "demo_bgm n start = \<lparr>bgm_clip_id = make_bgm_clip_id n, bgm_ref = ''theme'', bgm_start_us = start,
     bgm_in_us = 1000000, bgm_out_us = 6000000, bgm_volume = 1/2, bgm_fade_in_us = 3000000, bgm_fade_out_us = 3000000\<rparr>"

lemmas readout_eval = demo_bgm_def place_bgm_def place_one_def fit_fades_def pb_end_us_def map_filter_simps
  bgm_clip_length_us_def bgm_end_def Let_def

lemma demo_bgm_valid: "0 < n \<Longrightarrow> 0 \<le> start \<Longrightarrow> valid_bgm_clip (demo_bgm n start)"
  by (simp add: valid_bgm_clip_def demo_bgm_def is_bgm_clip_id_make valid_volume_def)

lemma demo_bgm_placed: "place_bgm [demo_bgm 2 5000000, demo_bgm 3 0] 7000000 =
    [\<lparr>pb_clip_id = make_bgm_clip_id 3, pb_ref = ''theme'', pb_start_us = 0, pb_source_in_us = 1000000,
       pb_duration_us = 5000000, pb_volume = 1/2, pb_fade_in_us = 2500000, pb_fade_out_us = 2500000, pb_truncated = False\<rparr>,
     \<lparr>pb_clip_id = make_bgm_clip_id 2, pb_ref = ''theme'', pb_start_us = 5000000, pb_source_in_us = 1000000,
       pb_duration_us = 2000000, pb_volume = 1/2, pb_fade_in_us = 1000000, pb_fade_out_us = 1000000, pb_truncated = True\<rparr>]"
  by (simp add: readout_eval)

theorem placed_bgm_fits_witness: "\<exists>p \<in> set (place_bgm [demo_bgm 2 5000000, demo_bgm 3 0] 7000000). pb_end_us p \<le> 7000000 \<and> pb_truncated p"
  using placed_bgm_fits [of "(place_bgm [demo_bgm 2 5000000, demo_bgm 3 0] 7000000) ! 1" "[demo_bgm 2 5000000, demo_bgm 3 0]" 7000000]
  by (simp add: demo_bgm_placed demo_bgm_valid)

text \<open>
  On a track whose clips do not overlap, one piece of BGM sounds at a time: the placed
  pieces come in order, each ending before the next one starts.
\<close>

theorem placed_bgm_disjoint:
  assumes "bgm_disjoint (sort_key bgm_start_us cs)" "\<forall>c \<in> set cs. valid_bgm_clip c"
  shows "sorted_wrt (\<lambda>p q. pb_end_us p \<le> pb_start_us q) (place_bgm cs D)"
  using assms by (rule place_bgm_sorted)

theorem placed_bgm_disjoint_witness:
  "sorted_wrt (\<lambda>p q. pb_end_us p \<le> pb_start_us q) (place_bgm [demo_bgm 2 5000000, demo_bgm 3 0] 7000000)"
  by (rule placed_bgm_disjoint)
    (simp_all add: demo_bgm_valid bgm_disjoint_def, simp add: readout_eval)

text \<open>
  The readout lists the clips of the revision in track order; a clip starts at the sum of
  the durations of the clips before it, the readout's duration is the sum of all of them (the
  duration the checks of a batch edit use), and a clip whose unit left the script lasts 0.
\<close>

theorem readout_tiles:
  assumes "i < length (content_clips (rev_content r))"
  shows "let cs = content_clips (rev_content r); ro = project_readout mg d r src; v = ro_clips ro ! i in
    map cv_id (ro_clips ro) = map clip_id cs
    \<and> ro_duration ro = microseconds_to_seconds (timeline_duration src cs)
    \<and> cv_start v = microseconds_to_seconds (timeline_duration src (take i cs))
    \<and> cv_duration v = microseconds_to_seconds (case clip_duration src (cs ! i) of None \<Rightarrow> 0 | Some t \<Rightarrow> t)
    \<and> (cv_status v = STATUS_UNIT_DELETED \<longleftrightarrow> clip_duration src (cs ! i) = None)
    \<and> (cv_status v = READY \<longrightarrow> has_video src (clip_unit_id (cs ! i)))"
proof -
  let ?cs = "content_clips (rev_content r)"
  have views: "ro_clips (project_readout mg d r src) = fst (place_clips src 0 ?cs)"
    and dur: "ro_duration (project_readout mg d r src) = microseconds_to_seconds (timeline_duration src ?cs)"
    by (simp_all add: project_readout_def Let_def split_beta place_clips_total)
  have ids: "map cv_id (fst (place_clips src cursor cs)) = map clip_id cs" for cursor cs
    by (induction cs arbitrary: cursor) (auto simp: place_clips_Cons Let_def clip_view_def split: prod.splits)
  have "cv_start (fst (clip_view c src t)) = microseconds_to_seconds t
      \<and> cv_duration (fst (clip_view c src t)) = microseconds_to_seconds (case clip_duration src c of None \<Rightarrow> 0 | Some t \<Rightarrow> t)
      \<and> (cv_status (fst (clip_view c src t)) = STATUS_UNIT_DELETED \<longleftrightarrow> clip_duration src c = None)
      \<and> (cv_status (fst (clip_view c src t)) = READY \<longrightarrow> has_video src (clip_unit_id c))" for c t
    by (simp add: clip_view_def clip_duration_def has_video_def Let_def split: option.splits)
  then show ?thesis
    using place_clips_nth [OF assms, of src 0] by (simp add: views dur ids Let_def)
qed

definition demo_revision :: timeline_revision where
  "demo_revision = \<lparr>rev_number = 1, rev_parent = None, rev_author = \<lparr>author_kind = Creator, author_user_id = None\<rparr>,
     rev_summary = [65], rev_created_at = ''2025'', rev_content = demo_content, changed_clip_ids = None, restored_from = None\<rparr>"

theorem readout_tiles_witness:
  "cv_start (ro_clips (project_readout (\<lambda>_. []) demo_document demo_revision demo_sources) ! 1) = 4"
  using readout_tiles [of 1 demo_revision "\<lambda>_. []" demo_document demo_sources]
  by (simp add: demo_revision_def Let_def demo_eval numeral_2_eq_2)

text \<open>
  The structural issues are exactly these, in this order within each kind: one
  \<open>UNIT_DELETED\<close> per clip whose unit left the script; one \<open>VIDEO_MISSING\<close> per unit in the script that
  is on the track and has no video, naming all its clips in track order; one \<open>UNIT_UNUSED\<close> per unit
  of the script no clip of the track uses.
\<close>

theorem structural_issues_exact:
  "issues_of UNIT_DELETED (structural_issues mg x src) =
     map (\<lambda>c. timeline_issue UNIT_DELETED [clip_id c] (Some (clip_unit_id c)) NoParams)
       (filter (\<lambda>c. \<not> in_script src (clip_unit_id c)) (content_clips x))
   \<and> issues_of VIDEO_MISSING (structural_issues mg x src) =
     map (\<lambda>u. timeline_issue VIDEO_MISSING (clips_of u (content_clips x)) (Some u) NoParams)
       (filter (\<lambda>u. \<not> has_video src u) (used_units src (content_clips x)))
   \<and> issues_of UNIT_UNUSED (structural_issues mg x src) =
     map (\<lambda>u. timeline_issue UNIT_UNUSED [] (Some (su_unit_id u)) NoParams)
       (filter (\<lambda>u. su_unit_id u \<notin> clip_unit_id ` set (content_clips x)) (src_units src))"
  by (intro conjI issues_of_structural)

text \<open>
  Stopping at the first clip that starts after a narration loses no collision: for the
  narration of the clip at a position, the loop reports every later clip that starts before the
  narration ends and has dialogue or is too loud, and each overlap it reports is longer than 0.
\<close>

theorem narration_collisions_exact:
  assumes "valid_sources src" "\<forall>c \<in> set cs. valid_clip c"
  shows "let later = drop k (fst (snd (place_clips src 0 cs))) in
    collisions src n later =
      concat (map (\<lambda>p. case collision_cause src p of None \<Rightarrow> [] | Some cause \<Rightarrow> [collision_issue n p cause])
        (filter (\<lambda>p. pc_start_us p < na_end_us n) later))
    \<and> (\<forall>p \<in> set later. pc_start_us p < na_end_us n \<and> collision_cause src p \<noteq> None
         \<longrightarrow> 0 < min (na_end_us n) (pc_start_us p + pc_duration_us p) - pc_start_us p)"
proof -
  let ?ps = "fst (snd (place_clips src 0 cs))"
  have "sorted_wrt (\<lambda>p q. pc_start_us p + pc_duration_us p \<le> pc_start_us q \<and> pc_start_us p \<le> pc_start_us q) (drop k ?ps)"
    by (rule sorted_wrt_drop [OF place_clips_sorted [OF assms]])
  then have sorted: "sorted_wrt (\<lambda>p q. pc_start_us p \<le> pc_start_us q) (drop k ?ps)"
    by (rule sorted_wrt_mono_rel [rotated]) simp
  have "0 < pc_duration_us p" if p: "p \<in> set (drop k ?ps)" "collision_cause src p \<noteq> None" for p
  proof -
    have "p \<in> set ?ps" using p(1) by (rule in_set_dropD)
    then obtain i where i: "i < length cs" "?ps ! i = p" by (auto simp: in_set_conv_nth)
    have "pc_duration_us p = (case clip_duration src (cs ! i) of None \<Rightarrow> 0 | Some d \<Rightarrow> d)"
      using place_clips_nth [OF i(1), of src 0] i(2) by auto
    then have "0 \<le> pc_duration_us p"
      using clip_duration_nonneg [of src "cs ! i"] assms i(1) by (auto split: option.splits)
    then show ?thesis using p(2) by (auto simp: collision_cause_def split: option.splits if_splits)
  qed
  then show ?thesis using collisions_all [OF sorted] by (auto simp: Let_def)
qed

theorem narration_collisions_exact_witness:
  "let n = \<lparr>na_carrier = \<lparr>pc_clip = hd (content_clips demo_content), pc_start_us = 0, pc_duration_us = 4000000\<rparr>,
             na_position = 0, na_end_us = 9000000\<rparr>;
       later = drop 1 (fst (snd (place_clips demo_sources 0 (content_clips demo_content))))
   in collisions demo_sources n later =
        concat (map (\<lambda>p. case collision_cause demo_sources p of None \<Rightarrow> [] | Some cause \<Rightarrow> [collision_issue n p cause])
          (filter (\<lambda>p. pc_start_us p < 9000000) later))"
  using narration_collisions_exact [OF demo_valid_sources, of "content_clips demo_content" 1
      "\<lparr>na_carrier = \<lparr>pc_clip = hd (content_clips demo_content), pc_start_us = 0, pc_duration_us = 4000000\<rparr>, na_position = 0, na_end_us = 9000000\<rparr>"] demo_editable
  by (simp add: Let_def editable_def valid_content_def list_all_iff)

end
