(* ===== verification/TaskModel.thy ===== *)
theory TaskModel
  imports Prelude
begin

text \<open>
  The tables of the generation queue (\<open>lib/db/models/task.py\<close>): tasks, batches and their members,
  worker leases, and the provider calls a retry reopens.  A table is a list of rows; queries read
  rows in list order, which stands for the arbitrary order in which a database returns rows its
  \<open>ORDER BY\<close> does not tell apart.  Times are integers, JSON columns are text.
\<close>

section \<open>Rows\<close>

datatype task_status = Queued | Running | Succeeded | Failed | Cancelled

record task =
  tk_id :: string
  tk_batch :: "string option"
  tk_project :: string
  tk_type :: string
  tk_media :: string
  tk_resource :: string
  tk_resource_type :: "string option"
  tk_script :: "string option"
  tk_payload :: string
  tk_status :: task_status
  tk_result :: "string option"
  tk_error :: "string option"
  tk_source :: string
  tk_dependency :: "string option"
  tk_dependency_group :: "string option"
  tk_dependency_index :: "int option"
  tk_cancelled_by :: "string option"
  tk_provider :: "string option"
  tk_job :: "string option"
  tk_endpoint :: "string option"
  tk_base_url :: "string option"
  tk_checkpoint :: "string option"
  tk_queued_at :: int
  tk_started_at :: "int option"
  tk_finished_at :: "int option"
  tk_updated_at :: int
  tk_user :: string

text \<open>A batch, with the unit IDs its two JSON columns list\<close>

record generation_batch =
  gb_id :: string
  gb_project :: string
  gb_operation :: string
  gb_requested :: "string list"
  gb_blocked :: "string list"
  gb_source :: string
  gb_user :: string
  gb_created_at :: int

record batch_task =
  bm_batch :: string
  bm_task :: string
  bm_unit :: string
  bm_deduped :: bool

record worker_lease =
  wl_name :: string
  wl_owner :: string
  wl_until :: rat
  wl_updated_at :: int

datatype call_status = CallPending | CallSuccess | CallFailed

record api_call =
  ac_id :: nat
  ac_task :: "string option"
  ac_status :: call_status
  ac_finished_at :: "int option"
  ac_error :: "string option"
  ac_error_code :: "string option"

section \<open>Terminal states and their events\<close>

definition ACTIVE_TASK_STATUSES :: "task_status list" where
  "ACTIVE_TASK_STATUSES = [Queued, Running]"

definition TERMINAL_TASK_STATUSES :: "task_status list" where
  "TERMINAL_TASK_STATUSES = [Succeeded, Failed, Cancelled]"

abbreviation active :: "task \<Rightarrow> bool" where
  "active t \<equiv> tk_status t \<in> set ACTIVE_TASK_STATUSES"

abbreviation terminal :: "task \<Rightarrow> bool" where
  "terminal t \<equiv> tk_status t \<in> set TERMINAL_TASK_STATUSES"

record terminal_event =
  ev_task :: string
  ev_project :: string
  ev_status :: task_status
  ev_type :: string

text \<open>A repository: the database and the events collected in its session\<close>

record repo =
  tasks :: "task list"
  batches :: "generation_batch list"
  memberships :: "batch_task list"
  leases :: "worker_lease list"
  api_calls :: "api_call list"
  terminal_events :: "terminal_event list"

section \<open>The index of active tasks\<close>

definition coalesce :: "string option \<Rightarrow> string" where
  "coalesce x = (case x of None \<Rightarrow> [] | Some v \<Rightarrow> v)"

type_synonym dedupe_key = "string \<times> string \<times> string \<times> string \<times> string \<times> string"

definition dedupe_key :: "task \<Rightarrow> dedupe_key" where
  "dedupe_key t = (tk_project t, tk_user t, tk_type t, tk_resource t, coalesce (tk_script t), coalesce (tk_resource_type t))"

text \<open>The partial unique index \<open>idx_tasks_dedupe_active\<close> with the primary key\<close>

definition indexes_ok :: "task list \<Rightarrow> bool" where
  "indexes_ok ts = (distinct (map tk_id ts) \<and> distinct (map dedupe_key (filter active ts)))"

section \<open>Errors\<close>

datatype queue_error =
    BatchUnitsRequired
  | BatchUnitNotOwned string
  | TaskMissing string
  | TaskNotCancellable string
  | NotEligible string
  | NoSettleableCall string
  | CheckpointRejected string
  | ActiveRequestConflict string
  | IntegrityError

type_synonym 'a queue_result = "queue_error + 'a"

section \<open>Reading and writing rows\<close>

definition find_task :: "string \<Rightarrow> repo \<Rightarrow> task option" where
  "find_task tid s = find (\<lambda>t. tk_id t = tid) (tasks s)"

definition update_tasks :: "(task \<Rightarrow> bool) \<Rightarrow> (task \<Rightarrow> task) \<Rightarrow> repo \<Rightarrow> repo" where
  "update_tasks P f s = s\<lparr>tasks := map (\<lambda>t. if P t then f t else t) (tasks s)\<rparr>"

definition matching :: "(task \<Rightarrow> bool) \<Rightarrow> repo \<Rightarrow> nat" where
  "matching P s = length (filter P (tasks s))"

text \<open>\<open>_record_terminal_event\<close>\<close>

definition record_terminal_event :: "terminal_event \<Rightarrow> repo \<Rightarrow> repo" where
  "record_terminal_event e s =
     (if ev_status e \<in> set TERMINAL_TASK_STATUSES then s\<lparr>terminal_events := terminal_events s @ [e]\<rparr> else s)"

definition event_of :: "task \<Rightarrow> task_status \<Rightarrow> terminal_event" where
  "event_of t st = \<lparr>ev_task = tk_id t, ev_project = tk_project t, ev_status = st, ev_type = tk_type t\<rparr>"

lemmas status_simps [simp] = ACTIVE_TASK_STATUSES_def TERMINAL_TASK_STATUSES_def

lemma find_task_SomeD: "find_task tid s = Some t \<Longrightarrow> t \<in> set (tasks s) \<and> tk_id t = tid"
  by (auto simp: find_task_def find_Some_iff)

lemma find_task_None: "find_task tid s = None \<longleftrightarrow> tid \<notin> tk_id ` set (tasks s)"
  by (auto simp: find_task_def find_None_iff)

lemma distinct_same_id:
  "distinct (map tk_id ts) \<Longrightarrow> t \<in> set ts \<Longrightarrow> u \<in> set ts \<Longrightarrow> tk_id t = tk_id u \<Longrightarrow> t = u"
  unfolding distinct_map by (blast dest: inj_onD)

lemma find_task_iff:
  "distinct (map tk_id (tasks s)) \<Longrightarrow> find_task tid s = Some t \<longleftrightarrow> t \<in> set (tasks s) \<and> tk_id t = tid"
proof
  assume d: "distinct (map tk_id (tasks s))" and t: "t \<in> set (tasks s) \<and> tk_id t = tid"
  then obtain u where "find_task tid s = Some u"
    using find_task_None [of tid s] by (cases "find_task tid s") auto
  with find_task_SomeD [OF this] t distinct_same_id [OF d] show "find_task tid s = Some t" by auto
qed (rule find_task_SomeD)

lemma update_tasks_simps [simp]:
  "tasks (update_tasks P f s) = map (\<lambda>t. if P t then f t else t) (tasks s)"
  "batches (update_tasks P f s) = batches s" "memberships (update_tasks P f s) = memberships s"
  "leases (update_tasks P f s) = leases s" "api_calls (update_tasks P f s) = api_calls s"
  "terminal_events (update_tasks P f s) = terminal_events s"
  by (simp_all add: update_tasks_def)

lemma record_event_simps [simp]:
  "tasks (record_terminal_event e s) = tasks s" "batches (record_terminal_event e s) = batches s"
  "memberships (record_terminal_event e s) = memberships s" "leases (record_terminal_event e s) = leases s"
  "api_calls (record_terminal_event e s) = api_calls s"
  by (simp_all add: record_terminal_event_def)

lemma event_of_simps [simp]:
  "ev_task (event_of t st) = tk_id t" "ev_status (event_of t st) = st"
  "ev_project (event_of t st) = tk_project t" "ev_type (event_of t st) = tk_type t"
  by (simp_all add: event_of_def)

lemma matching_0: "matching P s = 0 \<longleftrightarrow> (\<forall>t \<in> set (tasks s). \<not> P t)"
  by (auto simp: matching_def filter_empty_conv)

lemma dedupe_key_update:
  assumes "tk_project t' = tk_project t" "tk_user t' = tk_user t" "tk_type t' = tk_type t"
    "tk_resource t' = tk_resource t" "tk_script t' = tk_script t" "tk_resource_type t' = tk_resource_type t"
  shows "dedupe_key t' = dedupe_key t"
  using assms by (simp add: dedupe_key_def)

end
