(* ===== verification/TaskOps.thy ===== *)
theory TaskOps
  imports TaskModel "HOL-Library.List_Lexorder" "HOL-Library.Char_ord"
begin

text \<open>
  The operations of \<open>TaskRepository\<close> (\<open>lib/db/repositories/task_repo.py\<close>), each a function of
  the repository.  An operation that reads a row and updates it later takes two states, the one its
  \<open>SELECT\<close> saw and the one its \<open>UPDATE\<close> runs on, so that others may write in between.  An error
  leaves the database as it was, since nothing has been committed.  How a failure text is shortened
  (\<open>bound_reason\<close>) and wrapped for a blocked dependent (\<open>_encode_bounded_cascade_failure\<close>) are
  arguments.
\<close>

type_synonym bound_text = "string \<Rightarrow> string"
type_synonym blocked_text = "string \<Rightarrow> string \<Rightarrow> string"

section \<open>Enqueueing\<close>

record enqueue_request =
  rq_project :: string
  rq_type :: string
  rq_media :: string
  rq_resource :: string
  rq_payload :: string
  rq_script :: "string option"
  rq_resource_type :: "string option"
  rq_source :: string
  rq_dependency :: "string option"
  rq_dependency_group :: "string option"
  rq_dependency_index :: "int option"
  rq_user :: string
  rq_provider :: "string option"
  rq_batch :: "string option"
  rq_batch_unit :: "string option"
  rq_batch_units :: "string list"

record enqueue_result =
  er_task :: string
  er_status :: task_status
  er_deduped :: bool
  er_existing :: "string option"
  er_existing_payload :: "string option"

definition require_batch_units :: "string \<Rightarrow> string \<Rightarrow> string list \<Rightarrow> string \<Rightarrow> repo \<Rightarrow> unit queue_result" where
  "require_batch_units project batch units user s =
     (let b = find (\<lambda>b. gb_id b = batch \<and> gb_project b = project \<and> gb_user b = user) (batches s);
          requested = (case b of Some x \<Rightarrow> gb_requested x | None \<Rightarrow> []);
          blocked = (case b of Some x \<Rightarrow> gb_blocked x | None \<Rightarrow> []);
          bad = find (\<lambda>u. u \<notin> set requested \<or> u \<in> set blocked) units
      in if b = None \<or> bad \<noteq> None
         then Inl (BatchUnitNotOwned (case bad of Some u \<Rightarrow> u | None \<Rightarrow> hd units)) else Inr ())"

definition active_dedupe_clauses ::
  "string \<Rightarrow> string \<Rightarrow> string \<Rightarrow> string option \<Rightarrow> string option \<Rightarrow> task \<Rightarrow> bool" where
  "active_dedupe_clauses project user type script rtype t =
     (tk_project t = project \<and> tk_user t = user \<and> tk_type t = type
      \<and> coalesce (tk_script t) = coalesce script \<and> coalesce (tk_resource_type t) = coalesce rtype \<and> active t)"

definition new_task :: "string \<Rightarrow> int \<Rightarrow> enqueue_request \<Rightarrow> task" where
  "new_task tid now r = \<lparr>tk_id = tid, tk_batch = rq_batch r, tk_project = rq_project r, tk_type = rq_type r,
     tk_media = rq_media r, tk_resource = rq_resource r, tk_resource_type = rq_resource_type r,
     tk_script = rq_script r, tk_payload = rq_payload r, tk_status = Queued, tk_result = None, tk_error = None,
     tk_source = rq_source r, tk_dependency = rq_dependency r, tk_dependency_group = rq_dependency_group r,
     tk_dependency_index = rq_dependency_index r, tk_cancelled_by = None, tk_provider = rq_provider r,
     tk_job = None, tk_endpoint = None, tk_base_url = None, tk_checkpoint = None, tk_queued_at = now,
     tk_started_at = None, tk_finished_at = None, tk_updated_at = now, tk_user = rq_user r\<rparr>"

text \<open>\<open>session.flush()\<close> of one new task: the indexes may refuse it\<close>

definition insert_task :: "task \<Rightarrow> repo \<Rightarrow> repo queue_result" where
  "insert_task t s = (if indexes_ok (tasks s @ [t]) then Inr (s\<lparr>tasks := tasks s @ [t]\<rparr>) else Inl IntegrityError)"

definition add_members :: "string \<Rightarrow> string \<Rightarrow> bool \<Rightarrow> string list \<Rightarrow> repo \<Rightarrow> repo queue_result" where
  "add_members batch tid deduped units s =
     (let new = map (\<lambda>u. \<lparr>bm_batch = batch, bm_task = tid, bm_unit = u, bm_deduped = deduped\<rparr>) units
      in if distinct (map (\<lambda>m. (bm_batch m, bm_unit m)) (memberships s @ new))
         then Inr (s\<lparr>memberships := memberships s @ new\<rparr>) else Inl IntegrityError)"

definition batch_unit_ids :: "enqueue_request \<Rightarrow> string list" where
  "batch_unit_ids r = dedup_first (rq_batch_units r
     @ (case rq_batch_unit r of Some u \<Rightarrow> if u = [] then [] else [u] | None \<Rightarrow> []))"

text \<open>The newest active task with the key of the request\<close>

definition active_twin :: "enqueue_request \<Rightarrow> repo \<Rightarrow> task option" where
  "active_twin r s =
     (case sort_key (\<lambda>t. - tk_queued_at t)
        (filter (\<lambda>t. active_dedupe_clauses (rq_project r) (rq_user r) (rq_type r) (rq_script r) (rq_resource_type r) t
                     \<and> tk_resource t = rq_resource r) (tasks s)) of [] \<Rightarrow> None | t # _ \<Rightarrow> Some t)"

text \<open>The \<open>flush\<close> of the new row, and the look-up of the active twin when the index refuses it\<close>

definition flush_task ::
  "(string \<Rightarrow> string \<Rightarrow> bool) option \<Rightarrow> string \<Rightarrow> int \<Rightarrow> enqueue_request \<Rightarrow> repo \<Rightarrow> (enqueue_result \<times> repo) queue_result" where
  "flush_task dedupe_guard fresh now r s =
     (case insert_task (new_task fresh now r) s of
        Inr s1 \<Rightarrow> Inr (\<lparr>er_task = fresh, er_status = Queued, er_deduped = False, er_existing = None,
                        er_existing_payload = None\<rparr>, s1)
      | Inl e \<Rightarrow> (case active_twin r s of
          None \<Rightarrow> Inl e
        | Some t \<Rightarrow> if (case dedupe_guard of None \<Rightarrow> True | Some g \<Rightarrow> g (tk_payload t) (tk_id t))
                    then Inr (\<lparr>er_task = tk_id t, er_status = tk_status t, er_deduped = True,
                           er_existing = Some (tk_id t), er_existing_payload = Some (tk_payload t)\<rparr>, s)
                    else Inl (ActiveRequestConflict (tk_id t))))"

definition check_batch :: "enqueue_request \<Rightarrow> repo \<Rightarrow> unit queue_result" where
  "check_batch r s =
     (let units = batch_unit_ids r in
      if units \<noteq> [] \<and> rq_batch r = None then Inl BatchUnitsRequired
      else case rq_batch r of None \<Rightarrow> Inr ()
           | Some b \<Rightarrow> if units = [] then Inl BatchUnitsRequired
                       else require_batch_units (rq_project r) b units (rq_user r) s)"

definition enqueue ::
  "(string \<Rightarrow> string \<Rightarrow> bool) option \<Rightarrow> string \<Rightarrow> int \<Rightarrow> enqueue_request \<Rightarrow> repo \<Rightarrow> (enqueue_result \<times> repo) queue_result" where
  "enqueue dedupe_guard fresh now r s =
     ebind (check_batch r s) (\<lambda>_.
     ebind (flush_task dedupe_guard fresh now r s) (\<lambda>(res, s1).
       case rq_batch r of None \<Rightarrow> Inr (res, s1)
       | Some b \<Rightarrow> ebind (add_members b (er_task res) (er_deduped res) (batch_unit_ids r) s1) (\<lambda>s2. Inr (res, s2))))"

definition get_active_tasks_for_resources ::
  "string \<Rightarrow> string \<Rightarrow> string list \<Rightarrow> string option \<Rightarrow> string option \<Rightarrow> string \<Rightarrow> repo \<Rightarrow> task list" where
  "get_active_tasks_for_resources project type resources script rtype user s =
     (if resources = [] then []
      else sort_key (\<lambda>t. (tk_queued_at t, tk_id t))
        (filter (\<lambda>t. active_dedupe_clauses project user type script rtype t \<and> tk_resource t \<in> set resources) (tasks s)))"

section \<open>Batches\<close>

definition create_batch :: "generation_batch \<Rightarrow> repo \<Rightarrow> repo queue_result" where
  "create_batch b s = (if gb_id b \<in> gb_id ` set (batches s) then Inl IntegrityError
     else Inr (s\<lparr>batches := batches s @ [b]\<rparr>))"

definition attach_batch_task :: "string \<Rightarrow> string \<Rightarrow> string \<Rightarrow> string \<Rightarrow> bool \<Rightarrow> string \<Rightarrow> repo \<Rightarrow> repo queue_result" where
  "attach_batch_task project batch tid u deduped user s =
     ebind (require_batch_units project batch [u] user s) (\<lambda>_.
       if list_ex (\<lambda>t. tk_id t = tid \<and> tk_project t = project \<and> tk_user t = user) (tasks s)
       then add_members batch tid deduped [u] s else Inl (BatchUnitNotOwned u))"

text \<open>The members of a batch with their tasks, and how many tasks of each type are queued\<close>

record batch_view =
  bv_batch :: generation_batch
  bv_members :: "(task \<times> string \<times> bool) list"
  bv_depth :: "(string \<times> nat) list"

definition get_batch :: "string \<Rightarrow> string \<Rightarrow> string \<Rightarrow> repo \<Rightarrow> batch_view option" where
  "get_batch project batch user s =
     map_option (\<lambda>b.
       let members = List.map_filter (\<lambda>m. map_option (\<lambda>t. (t, bm_unit m, bm_deduped m))
                (find (\<lambda>t. tk_id t = bm_task m \<and> tk_project t = gb_project b \<and> tk_user t = gb_user b) (tasks s)))
              (filter (\<lambda>m. bm_batch m = batch) (memberships s));
           types = dedup_first (map (tk_type \<circ> fst) members);
           queued = (\<lambda>ty. filter (\<lambda>t. tk_project t = gb_project b \<and> tk_user t = gb_user b \<and> tk_type t = ty
                       \<and> tk_status t = Queued) (tasks s))
       in \<lparr>bv_batch = b, bv_members = members,
            bv_depth = map (\<lambda>ty. (ty, length (queued ty))) (filter (\<lambda>ty. queued ty \<noteq> []) types)\<rparr>)
     (find (\<lambda>b. gb_id b = batch \<and> gb_project b = project \<and> gb_user b = user) (batches s))"

definition delete_fresh_batch :: "string \<Rightarrow> string \<Rightarrow> string \<Rightarrow> repo \<Rightarrow> nat \<times> repo" where
  "delete_fresh_batch project batch user s =
     (let gone = (\<lambda>b. gb_id b = batch \<and> gb_project b = project \<and> gb_user b = user
             \<and> \<not> list_ex (\<lambda>t. tk_batch t = Some (gb_id b)) (tasks s)
             \<and> \<not> list_ex (\<lambda>m. bm_batch m = gb_id b) (memberships s))
      in (length (filter gone (batches s)), s\<lparr>batches := filter (\<lambda>b. \<not> gone b) (batches s)\<rparr>))"

section \<open>Claiming\<close>

definition dependency_met :: "repo \<Rightarrow> task \<Rightarrow> bool" where
  "dependency_met s t = (case tk_dependency t of None \<Rightarrow> True
     | Some d \<Rightarrow> list_ex (\<lambda>u. tk_id u = d \<and> tk_status u = Succeeded) (tasks s))"

definition claimable :: "string \<Rightarrow> string set \<Rightarrow> string set \<Rightarrow> repo \<Rightarrow> task \<Rightarrow> bool" where
  "claimable media full excluded s t =
     (tk_status t = Queued \<and> tk_media t = media
      \<and> (full = {} \<or> tk_type t = ''reference_video''
           \<or> (case tk_provider t of None \<Rightarrow> True | Some p \<Rightarrow> p \<notin> full))
      \<and> (excluded = {} \<or> tk_id t \<notin> excluded) \<and> dependency_met s t)"

definition claim_select :: "string \<Rightarrow> string set \<Rightarrow> string set \<Rightarrow> repo \<Rightarrow> string option" where
  "claim_select media full excluded s =
     (case sort_key tk_queued_at (filter (claimable media full excluded s) (tasks s)) of
        [] \<Rightarrow> None | t # _ \<Rightarrow> Some (tk_id t))"

definition claim_update :: "string \<Rightarrow> int \<Rightarrow> repo \<Rightarrow> (task \<times> repo) option" where
  "claim_update tid now s =
     (let P = (\<lambda>t. tk_id t = tid \<and> tk_status t = Queued);
          s1 = update_tasks P (\<lambda>t. t\<lparr>tk_status := Running, tk_started_at := Some now, tk_updated_at := now\<rparr>) s
      in if matching P s = 0 then None else map_option (\<lambda>t. (t, s1)) (find_task tid s1))"

text \<open>\<open>s0\<close> is what the \<open>SELECT\<close> sees, \<open>s1\<close> what the \<open>UPDATE\<close> runs on\<close>

definition claim_next :: "string \<Rightarrow> string set \<Rightarrow> string set \<Rightarrow> int \<Rightarrow> repo \<Rightarrow> repo \<Rightarrow> (task \<times> repo) option" where
  "claim_next media full excluded now s0 s1 =
     Option.bind (claim_select media full excluded s0) (\<lambda>tid. claim_update tid now s1)"

section \<open>Finishing\<close>

text \<open>Update the row when it is in one of the given states, and record its event\<close>

definition finish_row :: "task_status list \<Rightarrow> (task \<Rightarrow> task) \<Rightarrow> string \<Rightarrow> repo \<Rightarrow> (task \<times> repo) option" where
  "finish_row from f tid s =
     (let P = (\<lambda>t. tk_id t = tid \<and> tk_status t \<in> set from); s1 = update_tasks P f s
      in if matching P s = 0 then None
         else map_option (\<lambda>t. (t, record_terminal_event (event_of t (tk_status t)) s1)) (find_task tid s1))"

definition succeeded_row :: "string \<Rightarrow> int \<Rightarrow> task \<Rightarrow> task" where
  "succeeded_row result now t = t\<lparr>tk_status := Succeeded, tk_result := Some result, tk_error := None,
     tk_finished_at := Some now, tk_updated_at := now\<rparr>"

definition failed_row :: "string \<Rightarrow> int \<Rightarrow> task \<Rightarrow> task" where
  "failed_row message now t = t\<lparr>tk_status := Failed, tk_error := Some message,
     tk_finished_at := Some now, tk_updated_at := now\<rparr>"

definition cancelled_row :: "string \<Rightarrow> int \<Rightarrow> task \<Rightarrow> task" where
  "cancelled_row by now t = t\<lparr>tk_status := Cancelled, tk_cancelled_by := Some by,
     tk_finished_at := Some now, tk_updated_at := now\<rparr>"

definition mark_succeeded :: "string \<Rightarrow> string \<Rightarrow> int \<Rightarrow> repo \<Rightarrow> nat \<times> repo" where
  "mark_succeeded tid result now s =
     (case finish_row [Running] (succeeded_row result now) tid s of None \<Rightarrow> (0, s) | Some (_, s1) \<Rightarrow> (1, s1))"

definition mark_failed_running :: "bound_text \<Rightarrow> string \<Rightarrow> string \<Rightarrow> int \<Rightarrow> repo \<Rightarrow> (task \<times> repo) option" where
  "mark_failed_running bound tid message now s = finish_row [Running] (failed_row (bound message) now) tid s"

definition mark_failed_queued_dep :: "bound_text \<Rightarrow> string \<Rightarrow> string \<Rightarrow> int \<Rightarrow> repo \<Rightarrow> (task \<times> repo) option" where
  "mark_failed_queued_dep bound tid message now s = finish_row [Queued] (failed_row (bound message) now) tid s"

text \<open>\<open>SELECT ... WHERE dependency_task_id = :id AND status = 'queued' ORDER BY queued_at\<close>\<close>

definition queued_dependents :: "string \<Rightarrow> repo \<Rightarrow> task list" where
  "queued_dependents tid s =
     sort_key tk_queued_at (filter (\<lambda>t. tk_dependency t = Some tid \<and> tk_status t = Queued) (tasks s))"

definition dependent_ids :: "string \<Rightarrow> repo \<Rightarrow> string list" where
  "dependent_ids tid s = map tk_id (queued_dependents tid s)"

lemma matching_update_less:
  assumes "P t" "t \<in> set (tasks s)" "\<And>u. P u \<Longrightarrow> Q u" "\<And>u. P u \<Longrightarrow> \<not> Q (f u)"
  shows "matching Q (update_tasks P f s) < matching Q s"
proof -
  have eq: "filter Q (map (\<lambda>t. if P t then f t else t) ts) = filter (\<lambda>t. Q t \<and> \<not> P t) ts" for ts
    using assms(3,4) by (induction ts) auto
  have "filter (\<lambda>t. Q t \<and> \<not> P t) (tasks s) = filter (\<lambda>t. \<not> P t) (filter Q (tasks s))"
    by (simp add: conj_commute)
  moreover have "length (filter (\<lambda>t. \<not> P t) (filter Q (tasks s))) < length (filter Q (tasks s))"
    using assms(1-3) by (intro length_filter_less [of t]) auto
  ultimately show ?thesis unfolding matching_def update_tasks_simps eq by simp
qed

lemma finish_rowE:
  assumes "finish_row from f tid s = Some (t, s1)" "\<And>u. tk_id (f u) = tk_id u"
  obtains u where "u \<in> set (tasks s)" "tk_id u = tid" "tk_status u \<in> set from"
    "t \<in> set (tasks s1)" "tk_id t = tid"
    "s1 = record_terminal_event (event_of t (tk_status t))
       (update_tasks (\<lambda>t. tk_id t = tid \<and> tk_status t \<in> set from) f s)"
  using assms(1)
  by (auto simp: finish_row_def Let_def matching_0 split: if_splits dest!: find_task_SomeD)

lemma finish_row_fewer_queued:
  assumes "finish_row [Queued] f tid s = Some (t, s1)" "\<And>u. tk_id (f u) = tk_id u" "\<And>u. tk_status (f u) \<noteq> Queued"
  shows "matching (\<lambda>t. tk_status t = Queued) s1 < matching (\<lambda>t. tk_status t = Queued) s"
  using assms(1,2)
proof (rule finish_rowE)
  fix u
  assume u: "u \<in> set (tasks s)" "tk_id u = tid" "tk_status u \<in> set [Queued]"
    and s1: "s1 = record_terminal_event (event_of t (tk_status t))
       (update_tasks (\<lambda>t. tk_id t = tid \<and> tk_status t \<in> set [Queued]) f s)"
  have "matching (\<lambda>t. tk_status t = Queued)
      (update_tasks (\<lambda>t. tk_id t = tid \<and> tk_status t \<in> set [Queued]) f s) < matching (\<lambda>t. tk_status t = Queued) s"
    by (rule matching_update_less [OF _ u(1)]) (use u assms(3) in auto)
  then show ?thesis by (simp add: s1 matching_def)
qed

text \<open>
  \<open>_cascade_failed_queued\<close>, depth first, with the pairs (blocking task, dependent) still to visit as
  a work list; the number of rows it marks is counted.
\<close>

function cascade_failed ::
  "bound_text \<Rightarrow> blocked_text \<Rightarrow> string \<Rightarrow> int \<Rightarrow> (string \<times> string) list \<Rightarrow> repo \<Rightarrow> nat \<times> repo" where
  "cascade_failed bound blocked reason now [] s = (0, s)"
| "cascade_failed bound blocked reason now ((parent, dep) # work) s =
     (case mark_failed_queued_dep bound dep (blocked parent reason) now s of
        None \<Rightarrow> cascade_failed bound blocked reason now work s
      | Some (_, s1) \<Rightarrow>
          let (n, s2) = cascade_failed bound blocked reason now (map (Pair dep) (dependent_ids dep s1) @ work) s1
          in (n + 1, s2))"
  by pat_completeness auto
termination
proof (relation "measures [\<lambda>(_, _, _, _, _, s). matching (\<lambda>t. tk_status t = Queued) s, \<lambda>(_, _, _, _, work, _). length work]")
  fix bound :: bound_text and blocked reason now and parent dep :: string and work s x t s1
  assume "mark_failed_queued_dep bound dep (blocked parent reason) now s = Some x" "(t, s1) = x"
  then have "finish_row [Queued] (failed_row (bound (blocked parent reason)) now) dep s = Some (t, s1)"
    by (simp add: mark_failed_queued_dep_def)
  then have "matching (\<lambda>t. tk_status t = Queued) s1 < matching (\<lambda>t. tk_status t = Queued) s"
    by (rule finish_row_fewer_queued) (simp_all add: failed_row_def)
  then show "((bound, blocked, reason, now, map (Pair dep) (dependent_ids dep s1) @ work, s1),
      bound, blocked, reason, now, (parent, dep) # work, s)
    \<in> measures [\<lambda>(_, _, _, _, _, s). matching (\<lambda>t. tk_status t = Queued) s, \<lambda>(_, _, _, _, work, _). length work]"
    by simp
qed simp_all

definition mark_failed :: "bound_text \<Rightarrow> blocked_text \<Rightarrow> string \<Rightarrow> string \<Rightarrow> int \<Rightarrow> repo \<Rightarrow> nat \<times> repo" where
  "mark_failed bound blocked tid message now s =
     (case mark_failed_running bound tid message now s of
        None \<Rightarrow> (0, s)
      | Some (_, s1) \<Rightarrow> (1, snd (cascade_failed bound blocked message now (map (Pair tid) (dependent_ids tid s1)) s1)))"

section \<open>Cancelling\<close>

text \<open>\<open>_mark_cancelled\<close>: the row itself, then its queued dependents, depth first\<close>

function cancel_cascade :: "int \<Rightarrow> string list \<Rightarrow> repo \<Rightarrow> task list \<times> repo" where
  "cancel_cascade now [] s = ([], s)"
| "cancel_cascade now (tid # work) s =
     (case finish_row [Queued] (cancelled_row ''cascade'' now) tid s of
        None \<Rightarrow> cancel_cascade now work s
      | Some (t, s1) \<Rightarrow> let (ts, s2) = cancel_cascade now (dependent_ids tid s1 @ work) s1 in (t # ts, s2))"
  by pat_completeness auto
termination
proof (relation "measures [\<lambda>(_, _, s). matching (\<lambda>t. tk_status t = Queued) s, \<lambda>(_, work, _). length work]")
  fix now tid work s x t s1
  assume "finish_row [Queued] (cancelled_row ''cascade'' now) tid s = Some x" "(t, s1) = x"
  then have "finish_row [Queued] (cancelled_row ''cascade'' now) tid s = Some (t, s1)" by simp
  then have "matching (\<lambda>t. tk_status t = Queued) s1 < matching (\<lambda>t. tk_status t = Queued) s"
    by (rule finish_row_fewer_queued) (simp_all add: cancelled_row_def)
  then show "((now, dependent_ids tid s1 @ work, s1), now, tid # work, s)
    \<in> measures [\<lambda>(_, _, s). matching (\<lambda>t. tk_status t = Queued) s, \<lambda>(_, work, _). length work]"
    by simp
qed simp_all

definition mark_cancelled :: "task_status list \<Rightarrow> string \<Rightarrow> string \<Rightarrow> int \<Rightarrow> repo \<Rightarrow> (task list \<times> repo) option" where
  "mark_cancelled from by tid now s =
     map_option (\<lambda>(t, s1). let (ts, s2) = cancel_cascade now (dependent_ids tid s1) s1 in (t # ts, s2))
       (finish_row from (cancelled_row by now) tid s)"

text \<open>
  \<open>_collect_queued_dependents\<close> follows the rows as they are, so a cycle of dependencies would never
  end: not returning is \<open>None\<close>.
\<close>

partial_function (option) collect_queued_dependents :: "repo \<Rightarrow> task list \<Rightarrow> task list option" where
  "collect_queued_dependents s work =
     (case work of [] \<Rightarrow> Some []
      | t # rest \<Rightarrow> Option.bind (collect_queued_dependents s (queued_dependents (tk_id t) s @ rest)) (\<lambda>ts. Some (t # ts)))"

definition get_cancel_preview :: "string \<Rightarrow> repo \<Rightarrow> (task \<times> task list) queue_result option" where
  "get_cancel_preview tid s =
     (case find_task tid s of
        None \<Rightarrow> Some (Inl (TaskMissing tid))
      | Some t \<Rightarrow> if tk_status t = Running then Some (Inl (TaskNotCancellable tid))
                  else map_option (\<lambda>ts. Inr (t, ts)) (collect_queued_dependents s (queued_dependents tid s)))"

record cancel_result =
  cr_cancelled :: "task list"
  cr_skipped_terminal :: "task list"

text \<open>\<open>s0\<close> is what the first read sees, \<open>s1\<close> what the \<open>UPDATE\<close> and the refresh see\<close>

definition cancel_task :: "string \<Rightarrow> int \<Rightarrow> repo \<Rightarrow> repo \<Rightarrow> (cancel_result \<times> repo) queue_result" where
  "cancel_task tid now s0 s1 =
     (case find_task tid s0 of
        None \<Rightarrow> Inl (TaskMissing tid)
      | Some t \<Rightarrow>
          if terminal t then Inr (\<lparr>cr_cancelled = [], cr_skipped_terminal = [t]\<rparr>, s1)
          else (case mark_cancelled [Queued] ''user'' tid now s1 of
                  Some (ts, s2) \<Rightarrow> Inr (\<lparr>cr_cancelled = ts, cr_skipped_terminal = []\<rparr>, s2)
                | None \<Rightarrow> (case find_task tid s1 of
                     Some u \<Rightarrow> if terminal u then Inr (\<lparr>cr_cancelled = [], cr_skipped_terminal = [u]\<rparr>, s1)
                               else Inl (TaskNotCancellable tid)
                   | None \<Rightarrow> Inl (TaskMissing tid))))"

definition finalize_interrupted :: "string \<Rightarrow> int \<Rightarrow> repo \<Rightarrow> nat \<times> repo" where
  "finalize_interrupted tid now s =
     (case mark_cancelled [Queued, Running] ''interrupted'' tid now s of None \<Rightarrow> (0, s) | Some (_, s1) \<Rightarrow> (1, s1))"

definition cancel_all_targets :: "string \<Rightarrow> string list \<Rightarrow> repo \<Rightarrow> task list" where
  "cancel_all_targets project excluded_media s =
     filter (\<lambda>t. tk_project t = project \<and> tk_status t = Queued \<and> tk_media t \<notin> set excluded_media) (tasks s)"

definition get_cancel_all_preview :: "string \<Rightarrow> string list \<Rightarrow> repo \<Rightarrow> nat" where
  "get_cancel_all_preview project excluded_media s = length (cancel_all_targets project excluded_media s)"

definition cancel_all_queued :: "string \<Rightarrow> string list \<Rightarrow> int \<Rightarrow> repo \<Rightarrow> repo \<Rightarrow> (nat \<times> nat) \<times> repo" where
  "cancel_all_queued project excluded_media now s0 s1 =
     (let ids = map tk_id (cancel_all_targets project excluded_media s0) in
      if ids = [] then ((0, 0), s1)
      else let P = (\<lambda>t. tk_id t \<in> set ids \<and> tk_status t = Queued);
               count = matching P s1;
               s2 = update_tasks P (cancelled_row ''user'' now) s1;
               s3 = fold (\<lambda>t. record_terminal_event ((event_of t Cancelled)\<lparr>ev_project := project\<rparr>))
                      (filter (\<lambda>t. tk_id t \<in> set ids \<and> tk_status t = Cancelled) (tasks s2)) s2
           in ((count, length ids - count), s3))"

section \<open>Retrying a download\<close>

text \<open>
  \<open>failure_code\<close> reads the machine code of a stored failure (\<open>parse_failure\<close>).  The task row turns
  active again, so the index of active tasks may refuse the update.
\<close>

definition settleable_call :: "string \<Rightarrow> api_call \<Rightarrow> bool" where
  "settleable_call tid c = (ac_task c = Some tid \<and> ac_status c \<in> {CallFailed, CallPending})"

definition latest_call :: "string \<Rightarrow> repo \<Rightarrow> nat option" where
  "latest_call tid s = (case sort_key (\<lambda>c. - int (ac_id c)) (filter (settleable_call tid) (api_calls s)) of
     [] \<Rightarrow> None | c # _ \<Rightarrow> Some (ac_id c))"

definition retry_eligible :: "(string \<Rightarrow> string option) \<Rightarrow> task \<Rightarrow> bool" where
  "retry_eligible failure_code t = (tk_status t = Failed
     \<and> failure_code (coalesce (tk_error t)) = Some ''artifact_download_failed''
     \<and> coalesce (tk_job t) \<noteq> [] \<and> coalesce (tk_provider t) \<noteq> [])"

text \<open>The two updates of a retry: the call waits for settlement again, the task runs again\<close>

definition reopen_call :: "nat \<Rightarrow> repo \<Rightarrow> repo" where
  "reopen_call call s = s\<lparr>api_calls := map (\<lambda>c. if ac_id c = call \<and> ac_status c \<in> {CallFailed, CallPending}
     then c\<lparr>ac_status := CallPending, ac_finished_at := None, ac_error := None, ac_error_code := None\<rparr> else c) (api_calls s)\<rparr>"

definition rerun_row :: "int \<Rightarrow> task \<Rightarrow> task" where
  "rerun_row now t = t\<lparr>tk_status := Running, tk_error := None, tk_finished_at := None, tk_started_at := Some now,
     tk_updated_at := now\<rparr>"

definition retry_artifact_download ::
  "(string \<Rightarrow> string option) \<Rightarrow> string \<Rightarrow> int \<Rightarrow> repo \<Rightarrow> (task \<times> repo) queue_result" where
  "retry_artifact_download failure_code tid now s =
     (case find_task tid s of
        None \<Rightarrow> Inl (NotEligible tid)
      | Some t \<Rightarrow>
          if \<not> retry_eligible failure_code t then Inl (NotEligible tid)
          else (case latest_call tid s of
             None \<Rightarrow> Inl (NoSettleableCall tid)
           | Some call \<Rightarrow>
               let s1 = update_tasks (\<lambda>t. tk_id t = tid \<and> tk_status t = Failed) (rerun_row now) (reopen_call call s)
               in if \<not> indexes_ok (tasks s1) then Inl IntegrityError
                  else (case find_task tid s1 of Some u \<Rightarrow> Inr (u, s1) | None \<Rightarrow> Inl (NotEligible tid))))"

lemma reopen_call_simps [simp]:
  "tasks (reopen_call call s) = tasks s" "batches (reopen_call call s) = batches s"
  "memberships (reopen_call call s) = memberships s" "leases (reopen_call call s) = leases s"
  "terminal_events (reopen_call call s) = terminal_events s"
  by (simp_all add: reopen_call_def)

lemma rerun_row_simps [simp]:
  "tk_id (rerun_row now t) = tk_id t" "tk_status (rerun_row now t) = Running" "tk_dependency (rerun_row now t) = tk_dependency t"
  "dedupe_key (rerun_row now t) = dedupe_key t" "tk_job (rerun_row now t) = tk_job t"
  by (simp_all add: rerun_row_def dedupe_key_def)

section \<open>What the worker writes while a task runs\<close>

definition persist_provider_job_id ::
  "string \<Rightarrow> string \<Rightarrow> string option \<Rightarrow> string option \<Rightarrow> int \<Rightarrow> repo \<Rightarrow> repo" where
  "persist_provider_job_id tid job endpoint base_url now =
     update_tasks (\<lambda>t. tk_id t = tid) (\<lambda>t. t\<lparr>tk_job := Some job, tk_updated_at := now,
       tk_endpoint := (case endpoint of None \<Rightarrow> tk_endpoint t | e \<Rightarrow> e),
       tk_base_url := (case base_url of None \<Rightarrow> tk_base_url t | u \<Rightarrow> u)\<rparr>)"

definition persist_execution_checkpoint :: "string \<Rightarrow> string \<Rightarrow> string \<Rightarrow> int \<Rightarrow> repo \<Rightarrow> repo queue_result" where
  "persist_execution_checkpoint tid checkpoint provider now s =
     (let P = (\<lambda>t. tk_id t = tid \<and> tk_type t \<in> {''video'', ''reference_video''} \<and> tk_status t = Running
                 \<and> tk_checkpoint t = None \<and> tk_job t = None)
      in if matching P s \<noteq> 1 then Inl (CheckpointRejected tid)
         else Inr (update_tasks P (\<lambda>t. t\<lparr>tk_checkpoint := Some checkpoint, tk_provider := Some provider,
                tk_updated_at := now\<rparr>) s))"

definition persist_execution_provider_id :: "string \<Rightarrow> string \<Rightarrow> int \<Rightarrow> repo \<Rightarrow> repo" where
  "persist_execution_provider_id tid provider now =
     update_tasks (\<lambda>t. tk_id t = tid) (\<lambda>t. t\<lparr>tk_provider := Some provider, tk_updated_at := now\<rparr>)"

section \<open>After a restart\<close>

definition list_orphan_tasks_on_start :: "repo \<Rightarrow> task list" where
  "list_orphan_tasks_on_start s = sort_key tk_updated_at (filter (\<lambda>t. tk_status t = Running) (tasks s))"

text \<open>One claimed task goes back to the queue (\<open>_requeue_single_task\<close> of the worker)\<close>

definition requeue_single_task :: "string \<Rightarrow> int \<Rightarrow> repo \<Rightarrow> bool \<times> repo" where
  "requeue_single_task tid now s =
     (let P = (\<lambda>t. tk_id t = tid \<and> tk_status t = Running)
      in (matching P s \<noteq> 0, update_tasks P (\<lambda>t. t\<lparr>tk_status := Queued, tk_started_at := None, tk_updated_at := now\<rparr>) s))"

definition requeue_running :: "int \<Rightarrow> int \<Rightarrow> repo \<Rightarrow> nat \<times> repo" where
  "requeue_running limit now s =
     (let n = nat (max 1 (min 5000 limit));
          ids = map tk_id (take n (sort_key tk_updated_at (filter (\<lambda>t. tk_status t = Running) (tasks s))))
      in if ids = [] then (0, s)
         else let s1 = update_tasks (\<lambda>t. tk_id t \<in> set ids \<and> tk_status t = Running)
                (\<lambda>t. t\<lparr>tk_status := Queued, tk_started_at := None, tk_finished_at := None, tk_updated_at := now,
                    tk_result := None, tk_error := None\<rparr>) s
              in (matching (\<lambda>t. tk_id t \<in> set ids \<and> tk_status t = Queued) s1, s1))"

section \<open>Lists and counts\<close>

record task_filters =
  fl_project :: "string option"
  fl_status :: "task_status option"
  fl_type :: "string option"
  fl_source :: "string option"

text \<open>A filter that is absent or empty does not restrict; status strings outside the enumeration are not modelled\<close>

definition truthy :: "string option \<Rightarrow> bool" where
  "truthy x = (coalesce x \<noteq> [])"

definition passes :: "task_filters \<Rightarrow> task \<Rightarrow> bool" where
  "passes f t = ((truthy (fl_project f) \<longrightarrow> fl_project f = Some (tk_project t))
     \<and> (fl_status f \<noteq> None \<longrightarrow> fl_status f = Some (tk_status t))
     \<and> (truthy (fl_type f) \<longrightarrow> fl_type f = Some (tk_type t))
     \<and> (truthy (fl_source f) \<longrightarrow> fl_source f = Some (tk_source t)))"

record task_page =
  pg_items :: "task list"
  pg_total :: nat
  pg_page :: int
  pg_size :: int

definition list_tasks :: "task_filters \<Rightarrow> int \<Rightarrow> int \<Rightarrow> repo \<Rightarrow> task_page" where
  "list_tasks f page page_size s =
     (let page = max 1 page; page_size = max 1 (min 500 page_size); offset = (page - 1) * page_size;
          found = filter (passes f) (tasks s)
      in \<lparr>pg_items = take (nat page_size) (drop (nat offset)
             (sort_key (\<lambda>t. (- tk_updated_at t, - tk_queued_at t)) found)),
           pg_total = length found, pg_page = page, pg_size = page_size\<rparr>)"

record task_stats =
  st_queued :: nat
  st_running :: nat
  st_succeeded :: nat
  st_failed :: nat
  st_cancelled :: nat
  st_total :: nat

definition get_stats :: "string option \<Rightarrow> repo \<Rightarrow> task_stats" where
  "get_stats project s =
     (let found = filter (\<lambda>t. truthy project \<longrightarrow> project = Some (tk_project t)) (tasks s);
          count = (\<lambda>st. length (filter (\<lambda>t. tk_status t = st) found))
      in \<lparr>st_queued = count Queued, st_running = count Running, st_succeeded = count Succeeded,
           st_failed = count Failed, st_cancelled = count Cancelled,
           st_total = count Queued + count Running + count Succeeded + count Failed + count Cancelled\<rparr>)"

section \<open>The worker lease\<close>

definition acquire_or_renew_lease :: "string \<Rightarrow> string \<Rightarrow> rat \<Rightarrow> rat \<Rightarrow> int \<Rightarrow> repo \<Rightarrow> bool \<times> repo" where
  "acquire_or_renew_lease name owner ttl now_epoch updated_at s =
     (let until = now_epoch + max 1 ttl;
          P = (\<lambda>l. wl_name l = name \<and> (wl_owner l = owner \<or> wl_until l \<le> now_epoch))
      in if list_ex P (leases s)
         then (True, s\<lparr>leases := map (\<lambda>l. if P l then l\<lparr>wl_owner := owner, wl_until := until, wl_updated_at := updated_at\<rparr> else l) (leases s)\<rparr>)
         else if list_ex (\<lambda>l. wl_name l = name) (leases s) then (False, s)
         else (True, s\<lparr>leases := leases s @ [\<lparr>wl_name = name, wl_owner = owner, wl_until = until, wl_updated_at = updated_at\<rparr>]\<rparr>))"

definition release_lease :: "string \<Rightarrow> string \<Rightarrow> repo \<Rightarrow> repo" where
  "release_lease name owner s = s\<lparr>leases := filter (\<lambda>l. \<not> (wl_name l = name \<and> wl_owner l = owner)) (leases s)\<rparr>"

definition is_worker_online :: "string \<Rightarrow> rat \<Rightarrow> repo \<Rightarrow> bool" where
  "is_worker_online name now_epoch s =
     (case find (\<lambda>l. wl_name l = name) (leases s) of None \<Rightarrow> False | Some l \<Rightarrow> now_epoch < wl_until l)"

definition get_worker_lease :: "string \<Rightarrow> rat \<Rightarrow> repo \<Rightarrow> (worker_lease \<times> bool) option" where
  "get_worker_lease name now_epoch s =
     map_option (\<lambda>l. (l, now_epoch < wl_until l)) (find (\<lambda>l. wl_name l = name) (leases s))"

section \<open>Events of finished tasks\<close>

text \<open>\<open>lib/generation/task_terminal_events.py\<close>: the changes published per project, in order of first event\<close>

record task_change =
  ch_action :: string
  ch_entity :: string
  ch_type :: string

fun status_action :: "task_status \<Rightarrow> string option" where
  "status_action Succeeded = Some ''task_succeeded''"
| "status_action Failed = Some ''task_failed''"
| "status_action Cancelled = Some ''task_cancelled''"
| "status_action Queued = None"
| "status_action Running = None"

definition build_task_terminal_change :: "terminal_event \<Rightarrow> task_change option" where
  "build_task_terminal_change e =
     (case status_action (ev_status e) of None \<Rightarrow> None
      | Some a \<Rightarrow> if ev_task e = [] then None
                  else Some \<lparr>ch_action = a, ch_entity = ev_task e, ch_type = ev_type e\<rparr>)"

fun group_changes ::
  "terminal_event list \<Rightarrow> (string \<times> task_change list) list \<Rightarrow> (string \<times> task_change list) list" where
  "group_changes [] groups = groups"
| "group_changes (e # es) groups =
     (if ev_project e = [] then group_changes es groups
      else case build_task_terminal_change e of
             None \<Rightarrow> group_changes es groups
           | Some c \<Rightarrow> group_changes es (dict_set (ev_project e)
               ((case map_of groups (ev_project e) of None \<Rightarrow> [] | Some cs \<Rightarrow> cs) @ [c]) groups))"

definition emit_task_terminal_events :: "terminal_event list \<Rightarrow> (string \<times> task_change list) list" where
  "emit_task_terminal_events es = group_changes es []"

end
