(* ===== verification/TaskSteps.thy ===== *)
theory TaskSteps
  imports TaskOps
begin

text \<open>
  The queue as a transition system.  \<open>queue_step\<close> is what one statement may do to the database;
  \<open>runs\<close> is what a client may do with the operations of the repository, stale reads included.  Every
  run is a sequence of steps (\<open>runs_steps\<close>), so that an invariant of the steps holds in every state
  the operations reach.
\<close>

section \<open>Row updates\<close>

text \<open>The updates that finish a row, and the states they start from\<close>

definition finisher :: "task_status list \<Rightarrow> (task \<Rightarrow> task) \<Rightarrow> bool" where
  "finisher from f \<longleftrightarrow> (\<exists>r now. from = [Running] \<and> f = succeeded_row r now)
     \<or> set from \<subseteq> {Queued, Running} \<and> (\<exists>x now. f = failed_row x now \<or> f = cancelled_row x now)"

lemma finisherI [intro]:
  "finisher [Running] (succeeded_row r now)" "finisher [Running] (failed_row m now)"
  "finisher [Queued] (failed_row m now)" "finisher [Queued] (cancelled_row m now)"
  "finisher [Queued, Running] (cancelled_row m now)"
  unfolding finisher_def by (rule disjI1, blast) (rule disjI2, force)+

text \<open>The columns no statement ever changes\<close>

type_synonym task_identity =
  "string \<times> dedupe_key \<times> string option \<times> string option \<times> int \<times> string \<times> string"

definition identity :: "task \<Rightarrow> task_identity" where
  "identity t = (tk_id t, dedupe_key t, tk_dependency t, tk_batch t, tk_queued_at t, tk_media t, tk_payload t)"

lemma identityD:
  assumes "identity t' = identity t"
  shows "tk_id t' = tk_id t" "dedupe_key t' = dedupe_key t" "tk_dependency t' = tk_dependency t"
    "tk_batch t' = tk_batch t" "tk_queued_at t' = tk_queued_at t" "tk_project t' = tk_project t"
    "tk_type t' = tk_type t"
  using assms by (simp_all add: identity_def dedupe_key_def)

lemma finisher_row:
  assumes "finisher from f"
  shows "identity (f t) = identity t" "terminal (f t)" "set from \<subseteq> {Queued, Running}"
    "tk_status (f t) = Succeeded \<longrightarrow> from = [Running]"
    "tk_finished_at (f t) \<noteq> None" "tk_started_at (f t) = tk_started_at t" "tk_job (f t) = tk_job t"
  using assms
  by (auto simp: finisher_def identity_def dedupe_key_def succeeded_row_def failed_row_def cancelled_row_def)

text \<open>How a statement may change one row, in the state it runs on\<close>

definition row_step :: "repo \<Rightarrow> task \<Rightarrow> task \<Rightarrow> bool" where
  "row_step s t t' \<longleftrightarrow> identity t' = identity t \<and>
     (tk_status t' = tk_status t \<and> tk_started_at t' = tk_started_at t \<and> tk_finished_at t' = tk_finished_at t
        \<and> (tk_job t' = tk_job t \<or> tk_status t = Running)
      \<or> tk_status t = Queued \<and> tk_status t' = Running \<and> dependency_met s t \<and> tk_started_at t' \<noteq> None
        \<and> tk_finished_at t' = tk_finished_at t \<and> tk_job t' = tk_job t
      \<or> active t \<and> terminal t' \<and> (tk_status t' = Succeeded \<longrightarrow> tk_status t = Running)
        \<and> tk_finished_at t' \<noteq> None \<and> tk_started_at t' = tk_started_at t \<and> tk_job t' = tk_job t
      \<or> tk_status t = Running \<and> tk_status t' = Queued \<and> tk_started_at t' = None
        \<and> tk_finished_at t' \<in> {None, tk_finished_at t} \<and> tk_job t' = tk_job t
      \<or> tk_status t = Failed \<and> tk_status t' = Running \<and> tk_job t \<noteq> None \<and> tk_started_at t' \<noteq> None
        \<and> tk_finished_at t' = None \<and> tk_job t' = tk_job t)"

lemma row_step_refl [simp]: "row_step s t t"
  by (simp add: row_step_def)

lemma row_stepD:
  assumes "row_step s t t'"
  shows "tk_id t' = tk_id t" "dedupe_key t' = dedupe_key t" "tk_dependency t' = tk_dependency t"
    "tk_batch t' = tk_batch t" "tk_queued_at t' = tk_queued_at t" "tk_project t' = tk_project t" "tk_type t' = tk_type t"
    "tk_status t \<in> {Succeeded, Cancelled} \<Longrightarrow> tk_status t' = tk_status t"
    "active t' \<Longrightarrow> \<not> active t \<Longrightarrow> tk_status t = Failed"
  using assms by (auto simp: row_step_def dest: identityD)

section \<open>Steps\<close>

inductive queue_step :: "repo \<Rightarrow> repo \<Rightarrow> bool" where
  add: "insert_task t s = Inr s' \<Longrightarrow> tk_status t = Queued \<Longrightarrow> tk_started_at t = None \<Longrightarrow> tk_finished_at t = None
    \<Longrightarrow> tk_job t = None \<Longrightarrow> tk_dependency t \<noteq> Some (tk_id t)
    \<Longrightarrow> \<forall>u \<in> set (tasks s). tk_dependency u \<noteq> Some (tk_id t)
    \<Longrightarrow> \<forall>b. tk_batch t = Some b \<longrightarrow> b \<in> gb_id ` set (batches s) \<Longrightarrow> queue_step s s'"
| claim: "claim_update tid now s = Some (t, s')
    \<Longrightarrow> \<forall>u \<in> set (tasks s). tk_id u = tid \<longrightarrow> dependency_met s u \<Longrightarrow> queue_step s s'"
| finish: "finish_row from f tid s = Some (t, s') \<Longrightarrow> finisher from f \<Longrightarrow> queue_step s s'"
| cancel_many: "snd (cancel_all_queued project excluded now s0 s) = s'
    \<Longrightarrow> \<forall>t \<in> set (tasks s). tk_id t \<in> tk_id ` set (cancel_all_targets project excluded s0) \<longrightarrow> tk_project t = project
    \<Longrightarrow> queue_step s s'"
| requeue: "snd (requeue_running limit now s) = s' \<Longrightarrow> queue_step s s'"
| put_back: "snd (requeue_single_task tid now s) = s' \<Longrightarrow> queue_step s s'"
| retry: "retry_artifact_download failure_code tid now s = Inr (t, s') \<Longrightarrow> queue_step s s'"
| job: "persist_provider_job_id tid job endpoint base_url now s = s'
    \<Longrightarrow> \<forall>t \<in> set (tasks s). tk_id t = tid \<longrightarrow> tk_status t = Running \<Longrightarrow> queue_step s s'"
| checkpoint: "persist_execution_checkpoint tid cp provider now s = Inr s' \<Longrightarrow> queue_step s s'"
| provider: "persist_execution_provider_id tid provider now s = s' \<Longrightarrow> queue_step s s'"
| new_batch: "create_batch b s = Inr s' \<Longrightarrow> queue_step s s'"
| members: "add_members b tid deduped units s = Inr s' \<Longrightarrow> b \<in> gb_id ` set (batches s)
    \<Longrightarrow> tid \<in> tk_id ` set (tasks s) \<Longrightarrow> queue_step s s'"
| drop_batch: "snd (delete_fresh_batch project b user s) = s' \<Longrightarrow> queue_step s s'"
| lease: "snd (acquire_or_renew_lease name owner ttl now_epoch updated_at s) = s' \<Longrightarrow> queue_step s s'"
| unlease: "release_lease name owner s = s' \<Longrightarrow> queue_step s s'"

text \<open>Effect of a step on the task table: a new row at the end, or row steps\<close>

definition rows_step :: "repo \<Rightarrow> repo \<Rightarrow> bool" where
  "rows_step s s' \<longleftrightarrow> (\<exists>g. tasks s' = map g (tasks s) \<and> (\<forall>t \<in> set (tasks s). row_step s t (g t)))
     \<and> (indexes_ok (tasks s) \<longrightarrow> indexes_ok (tasks s'))"

definition new_row :: "repo \<Rightarrow> task \<Rightarrow> bool" where
  "new_row s t \<longleftrightarrow> tk_status t = Queued \<and> tk_started_at t = None \<and> tk_finished_at t = None \<and> tk_job t = None
     \<and> tk_dependency t \<noteq> Some (tk_id t) \<and> (\<forall>u \<in> set (tasks s). tk_dependency u \<noteq> Some (tk_id t))
     \<and> (\<forall>b. tk_batch t = Some b \<longrightarrow> b \<in> gb_id ` set (batches s)) \<and> indexes_ok (tasks s @ [t])"

lemma indexes_ok_rows:
  assumes "indexes_ok ts" "\<forall>t \<in> set ts. tk_id (g t) = tk_id t \<and> dedupe_key (g t) = dedupe_key t \<and> (active (g t) \<longrightarrow> active t)"
  shows "indexes_ok (map g ts)"
proof -
  have ids: "map (tk_id \<circ> g) ts = map tk_id ts" using assms(2) by simp
  have "map dedupe_key (filter active (map g ts)) = map dedupe_key (filter (\<lambda>t. active (g t)) (filter active ts))"
    using assms(2) by (induction ts) auto
  then have "distinct (map dedupe_key (filter active (map g ts)))"
    using assms(1) by (simp only: indexes_ok_def distinct_map_filter)
  then show ?thesis using assms(1) unfolding indexes_ok_def map_map ids by blast
qed

lemma rows_stepI:
  assumes "tasks s' = map g (tasks s)" "\<And>t. t \<in> set (tasks s) \<Longrightarrow> row_step s t (g t)"
    and "\<And>t. t \<in> set (tasks s) \<Longrightarrow> active (g t) \<Longrightarrow> active t"
  shows "rows_step s s'"
  unfolding rows_step_def
proof
  show "\<exists>g. tasks s' = map g (tasks s) \<and> (\<forall>t \<in> set (tasks s). row_step s t (g t))" using assms by blast
  show "indexes_ok (tasks s) \<longrightarrow> indexes_ok (tasks s')"
    unfolding assms(1) using assms(2,3) by (auto intro!: indexes_ok_rows dest: row_stepD)
qed

lemma rows_step_same: "tasks s' = tasks s \<Longrightarrow> rows_step s s'"
  by (rule rows_stepI [where g = id]) simp_all


lemma update_rows_step:
  assumes "s' = update_tasks P f s" "\<And>t. t \<in> set (tasks s) \<Longrightarrow> P t \<Longrightarrow> row_step s t (f t)"
    and "\<And>t. t \<in> set (tasks s) \<Longrightarrow> P t \<Longrightarrow> active (f t) \<Longrightarrow> active t"
  shows "rows_step s s'"
  by (rule rows_stepI [where g = "\<lambda>t. if P t then f t else t"])
    (use assms in \<open>auto split: if_splits\<close>)

lemma finisher_row_step:
  assumes "finisher from f" "tk_status t \<in> set from"
  shows "row_step s t (f t)"
proof -
  consider r now where "from = [Running]" "f = succeeded_row r now"
    | x now where "set from \<subseteq> {Queued, Running}" "f = failed_row x now"
    | x now where "set from \<subseteq> {Queued, Running}" "f = cancelled_row x now"
    using assms(1) unfolding finisher_def by blast
  then show ?thesis
  proof cases
    case 1
    then show ?thesis using assms(2) by (simp add: row_step_def succeeded_row_def identity_def dedupe_key_def)
  next
    case 2
    then have "tk_status t \<in> {Queued, Running}" using assms(2) by blast
    then show ?thesis using 2 by (auto simp: row_step_def failed_row_def identity_def dedupe_key_def)
  next
    case 3
    then have "tk_status t \<in> {Queued, Running}" using assms(2) by blast
    then show ?thesis using 3 by (auto simp: row_step_def cancelled_row_def identity_def dedupe_key_def)
  qed
qed

lemma finish_rows_step:
  assumes "finish_row from f tid s = Some (t, s')" "finisher from f"
  shows "rows_step s s'"
proof (rule finish_rowE [OF assms(1)])
  show "\<And>u. tk_id (f u) = tk_id u" using finisher_row(1) [OF assms(2)] by (auto dest: identityD)
  fix u
  assume s': "s' = record_terminal_event (event_of t (tk_status t))
       (update_tasks (\<lambda>t. tk_id t = tid \<and> tk_status t \<in> set from) f s)"
  show ?thesis
  proof (rule rows_stepI [where g = "\<lambda>t. if tk_id t = tid \<and> tk_status t \<in> set from then f t else t"])
    fix t
    show "row_step s t (if tk_id t = tid \<and> tk_status t \<in> set from then f t else t)"
      using finisher_row_step [OF assms(2), of t] by simp
    show "active (if tk_id t = tid \<and> tk_status t \<in> set from then f t else t) \<Longrightarrow> active t"
      using finisher_row(2) [OF assms(2), of t] by (auto split: if_splits)
  qed (simp add: s')
qed

lemma fold_events_tasks: "tasks (fold (\<lambda>t. record_terminal_event (e t)) ts s) = tasks s"
  by (induction ts arbitrary: s) simp_all

lemma cancel_all_tasks:
  "tasks (snd (cancel_all_queued project excluded now s0 s)) =
     map (\<lambda>t. if tk_id t \<in> tk_id ` set (cancel_all_targets project excluded s0) \<and> tk_status t = Queued
         then cancelled_row ''user'' now t else t) (tasks s)"
  by (auto simp: cancel_all_queued_def Let_def fold_events_tasks)

lemma retry_rows_step:
  assumes "retry_artifact_download failure_code tid now s = Inr (t, s')"
  shows "rows_step s s'"
proof -
  let ?P = "\<lambda>t. tk_id t = tid \<and> tk_status t = Failed"
  let ?f = "rerun_row now"
  obtain u where u: "find_task tid s = Some u" "retry_eligible failure_code u"
    and ok: "indexes_ok (tasks s')" and s': "tasks s' = map (\<lambda>t. if ?P t then ?f t else t) (tasks s)"
    using assms by (auto simp: retry_artifact_download_def Let_def split: option.splits if_splits)
  show ?thesis
  proof (cases "distinct (map tk_id (tasks s))")
    case True
    have row: "row_step s t (if ?P t then ?f t else t)" if "t \<in> set (tasks s)" for t
    proof (cases "?P t")
      case P: True
      then have "t = u"
        using find_task_SomeD [OF u(1)] that distinct_same_id [OF True] by blast
      then have "tk_job t \<noteq> None" using u(2) by (auto simp: retry_eligible_def coalesce_def split: option.splits)
      then show ?thesis using P by (simp add: row_step_def identity_def dedupe_key_def rerun_row_def)
    next
      case False
      then show ?thesis by (simp only: if_False row_step_refl)
    qed
    have "\<exists>g. tasks s' = map g (tasks s) \<and> (\<forall>t \<in> set (tasks s). row_step s t (g t))"
      by (rule exI [of _ "\<lambda>t. if ?P t then ?f t else t"], intro conjI ballI, rule s', rule row)
    then show ?thesis using ok unfolding rows_step_def by blast
  next
    case False
    have "map tk_id (tasks s') = map tk_id (tasks s)" unfolding s' by simp
    then have "distinct (map tk_id (tasks s))" using ok by (simp add: indexes_ok_def)
    then show ?thesis using False by blast
  qed
qed

lemma queue_step_rows:
  assumes "queue_step s s'"
  shows "(\<exists>t. tasks s' = tasks s @ [t] \<and> new_row s t \<and> terminal_events s' = terminal_events s \<and> batches s' = batches s
      \<and> memberships s' = memberships s) \<or> rows_step s s'"
  using assms
proof (cases rule: queue_step.cases)
  case (add t)
  then show ?thesis by (auto simp: insert_task_def new_row_def split: if_splits)
next
  case (claim tid now t)
  have "rows_step s s'"
  proof (rule update_rows_step)
    show "s' = update_tasks (\<lambda>t. tk_id t = tid \<and> tk_status t = Queued)
        (\<lambda>t. t\<lparr>tk_status := Running, tk_started_at := Some now, tk_updated_at := now\<rparr>) s"
      using claim(1) by (auto simp: claim_update_def Let_def split: if_splits)
  qed (use claim(2) in \<open>auto simp: row_step_def identity_def dedupe_key_def\<close>)
  then show ?thesis ..
next
  case (finish fr f tid t)
  then show ?thesis using finish_rows_step by blast
next
  case (cancel_many project excluded now s0)
  have "rows_step s s'"
    by (rule rows_stepI [where g = "\<lambda>t. if tk_id t \<in> tk_id ` set (cancel_all_targets project excluded s0)
          \<and> tk_status t = Queued then cancelled_row ''user'' now t else t"])
      (auto simp: cancel_many(1) [symmetric] cancel_all_tasks row_step_def identity_def dedupe_key_def
         cancelled_row_def split: if_splits)
  then show ?thesis ..
next
  case (requeue limit now)
  have "rows_step s s'"
  proof (cases "take (nat (max 1 (min 5000 limit))) (sort_key tk_updated_at (filter (\<lambda>t. tk_status t = Running) (tasks s))) = []")
    case True
    then show ?thesis using requeue by (simp add: requeue_running_def Let_def rows_step_same)
  next
    case False
    then show ?thesis
      using requeue
      by (auto simp: requeue_running_def Let_def row_step_def identity_def dedupe_key_def
          intro!: update_rows_step [OF refl])
  qed
  then show ?thesis ..
next
  case (put_back tid now)
  then have "rows_step s s'"
    by (auto simp: requeue_single_task_def Let_def row_step_def identity_def dedupe_key_def intro!: update_rows_step [OF refl])
  then show ?thesis ..
next
  case (retry failure_code tid now t)
  then show ?thesis using retry_rows_step by blast
next
  case (job tid job endpoint base_url now)
  then have "rows_step s s'"
    by (auto simp: persist_provider_job_id_def row_step_def identity_def dedupe_key_def intro!: update_rows_step [OF refl])
  then show ?thesis ..
next
  case (checkpoint tid cp provider now)
  then have "rows_step s s'"
    by (auto simp: persist_execution_checkpoint_def Let_def row_step_def identity_def dedupe_key_def
        split: if_splits intro!: update_rows_step [OF refl])
  then show ?thesis ..
next
  case (provider tid provider now)
  then have "rows_step s s'"
    by (auto simp: persist_execution_provider_id_def row_step_def identity_def dedupe_key_def intro!: update_rows_step [OF refl])
  then show ?thesis ..
next
  case (new_batch b)
  then have "rows_step s s'" by (auto simp: create_batch_def split: if_splits intro!: rows_step_same)
  then show ?thesis ..
next
  case (members b tid deduped units)
  then have "rows_step s s'" by (auto simp: add_members_def Let_def split: if_splits intro!: rows_step_same)
  then show ?thesis ..
next
  case (drop_batch project b user)
  then have "rows_step s s'" by (auto simp: delete_fresh_batch_def Let_def intro!: rows_step_same)
  then show ?thesis ..
next
  case (lease name owner ttl now_epoch updated_at)
  then have "rows_step s s'" by (auto simp: acquire_or_renew_lease_def Let_def split: if_splits intro!: rows_step_same)
  then show ?thesis ..
next
  case (unlease name owner)
  then have "rows_step s s'" by (auto simp: release_lease_def intro!: rows_step_same)
  then show ?thesis ..
qed

end
