(* ===== verification/TaskInv.thy ===== *)
theory TaskInv
  imports TaskSteps
begin

text \<open>
  Invariants of the queue.  The locale \<open>queue_invariant\<close> carries a property of the database along
  steps, the locale \<open>finishing\<close> a relation along the cascades; each is interpreted for every
  invariant and for the step relation itself.
\<close>

section \<open>Invariants along steps\<close>

abbreviation queue_steps :: "repo \<Rightarrow> repo \<Rightarrow> bool" where
  "queue_steps \<equiv> queue_step\<^sup>*\<^sup>*"

locale queue_invariant =
  fixes I :: "repo \<Rightarrow> bool"
  assumes step: "I s \<Longrightarrow> queue_step s s' \<Longrightarrow> I s'"
begin

lemma steps: "queue_steps s s' \<Longrightarrow> I s \<Longrightarrow> I s'"
  by (induction rule: rtranclp_induct) (auto intro: step)

end

text \<open>A relation that contains the update of one finished row and composes contains the cascades\<close>

locale finishing =
  fixes R :: "repo \<Rightarrow> repo \<Rightarrow> bool"
  assumes refl: "R s s"
    and trans: "R s s1 \<Longrightarrow> R s1 s2 \<Longrightarrow> R s s2"
    and finish: "finish_row from f tid s = Some (t, s1) \<Longrightarrow> finisher from f \<Longrightarrow> R s s1"
begin

lemma failed: "R s (snd (cascade_failed bound blocked reason now work s))"
proof (induction bound blocked reason now work s rule: cascade_failed.induct)
  case (2 bound blocked reason now parent dep work s)
  show ?case
  proof (cases "mark_failed_queued_dep bound dep (blocked parent reason) now s")
    case None
    then show ?thesis using 2(1) by simp
  next
    case (Some x)
    obtain t s1 where x: "x = (t, s1)" by (cases x) auto
    have "R s s1"
      using Some x by (auto simp: mark_failed_queued_dep_def intro: finish)
    then show ?thesis using Some x 2(2) [OF Some x [symmetric]] by (auto simp: split_beta intro: trans)
  qed
qed (simp add: refl)

lemma mark_failed: "R s (snd (mark_failed bound blocked tid message now s))"
proof (cases "mark_failed_running bound tid message now s")
  case (Some x)
  obtain t s1 where x: "x = (t, s1)" by (cases x) auto
  have "R s s1" using Some x by (auto simp: mark_failed_running_def intro: finish)
  then show ?thesis using Some x failed by (auto simp: mark_failed_def intro: trans)
qed (simp add: mark_failed_def refl)

lemma cancelled: "R s (snd (cancel_cascade now work s))"
proof (induction now work s rule: cancel_cascade.induct)
  case (2 now tid work s)
  show ?case
  proof (cases "finish_row [Queued] (cancelled_row ''cascade'' now) tid s")
    case None
    then show ?thesis using 2(1) by simp
  next
    case (Some x)
    obtain t s1 where x: "x = (t, s1)" by (cases x) auto
    have "R s s1" using Some x by (auto intro: finish)
    then show ?thesis using Some x 2(2) [OF Some x [symmetric]] by (auto simp: split_beta intro: trans)
  qed
qed (simp add: refl)

lemma mark_cancelled:
  assumes "mark_cancelled from by tid now s = Some (ts, s')" "from = [Queued] \<or> from = [Queued, Running]"
  shows "R s s'"
proof -
  obtain t s1 where f: "finish_row from (cancelled_row by now) tid s = Some (t, s1)"
    and s': "s' = snd (cancel_cascade now (dependent_ids tid s1) s1)"
    using assms(1) by (auto simp: mark_cancelled_def split_beta)
  have "R s s1" using f assms(2) by (auto intro: finish)
  then show ?thesis unfolding s' by (rule trans) (rule cancelled)
qed

end

interpretation by_steps: finishing queue_steps
proof
  fix "from" f tid s t s1
  assume "finish_row from f tid s = Some (t, s1)" "finisher from f"
  then show "queue_steps s s1" by (intro r_into_rtranclp queue_step.finish)
qed simp_all

section \<open>The invariants\<close>

lemma row_cases:
  assumes "queue_step s s'"
  obtains (new) t where "tasks s' = tasks s @ [t]" "new_row s t" "terminal_events s' = terminal_events s"
      "batches s' = batches s" "memberships s' = memberships s"
  | (rows) g where "tasks s' = map g (tasks s)" "\<forall>t \<in> set (tasks s). row_step s t (g t)"
      "indexes_ok (tasks s) \<Longrightarrow> indexes_ok (tasks s')"
  using queue_step_rows [OF assms] unfolding rows_step_def by blast

text \<open>IDs are unique and at most one active task has a key\<close>

interpretation indexes: queue_invariant "\<lambda>s. indexes_ok (tasks s)"
proof
  fix s s'
  assume ok: "indexes_ok (tasks s)" and "queue_step s s'"
  from this(2) show "indexes_ok (tasks s')"
  proof (cases rule: row_cases)
    case (new t)
    then show ?thesis by (simp add: new_row_def)
  qed (use ok in simp)
qed

text \<open>A row keeps its identity, and a succeeded or cancelled task its state\<close>

interpretation kept: queue_invariant "\<lambda>s. \<exists>t \<in> set (tasks s). tk_id t = i \<and> tk_dependency t = d \<and> tk_project t = p
    \<and> tk_batch t = b" for i d p b
proof
  fix s s'
  assume t: "\<exists>t \<in> set (tasks s). tk_id t = i \<and> tk_dependency t = d \<and> tk_project t = p \<and> tk_batch t = b"
    and "queue_step s s'"
  from this(2) show "\<exists>t \<in> set (tasks s'). tk_id t = i \<and> tk_dependency t = d \<and> tk_project t = p \<and> tk_batch t = b"
  proof (cases rule: row_cases)
    case (rows g)
    obtain t where t: "t \<in> set (tasks s)" "tk_id t = i" "tk_dependency t = d" "tk_project t = p" "tk_batch t = b"
      using t by blast
    with rows have "g t \<in> set (tasks s')" "row_step s t (g t)" by auto
    then show ?thesis using t row_stepD [of s t "g t"] by metis
  qed (use t in auto)
qed

interpretation final: queue_invariant "\<lambda>s. \<exists>t \<in> set (tasks s). tk_id t = i \<and> tk_status t = st \<and> st \<in> {Succeeded, Cancelled}"
  for i st
proof
  fix s s'
  assume t: "\<exists>t \<in> set (tasks s). tk_id t = i \<and> tk_status t = st \<and> st \<in> {Succeeded, Cancelled}" and "queue_step s s'"
  from this(2) show "\<exists>t \<in> set (tasks s'). tk_id t = i \<and> tk_status t = st \<and> st \<in> {Succeeded, Cancelled}"
  proof (cases rule: row_cases)
    case (rows g)
    obtain t where t: "t \<in> set (tasks s)" "tk_id t = i" "tk_status t = st" "st \<in> {Succeeded, Cancelled}"
      using t by blast
    with rows have "g t \<in> set (tasks s')" "row_step s t (g t)" by auto
    then show ?thesis using t row_stepD(1,8) [of s t "g t"] by metis
  qed (use t in auto)
qed

lemma dependency_met_iff:
  "dependency_met s t \<longleftrightarrow> (\<forall>d. tk_dependency t = Some d \<longrightarrow> (\<exists>u \<in> set (tasks s). tk_id u = d \<and> tk_status u = Succeeded))"
  by (auto simp: dependency_met_def list_ex_iff split: option.splits)

lemma dependency_met_steps:
  assumes "queue_steps s s'" "dependency_met s t" "tk_dependency t' = tk_dependency t"
  shows "dependency_met s' t'"
  using assms(2,3) final.steps [OF assms(1), of _ Succeeded] by (auto simp: dependency_met_iff)

text \<open>A task runs, or has a provider job, only when the task it depends on has succeeded\<close>

definition dependencies_first :: "repo \<Rightarrow> bool" where
  "dependencies_first s \<longleftrightarrow> (\<forall>t \<in> set (tasks s). tk_status t = Running \<or> tk_status t = Succeeded \<or> tk_job t \<noteq> None
     \<longrightarrow> dependency_met s t)"

interpretation deps: queue_invariant dependencies_first
proof
  fix s s'
  assume inv: "dependencies_first s" and st: "queue_step s s'"
  have met: "dependency_met s' t'" if "dependency_met s t" "tk_dependency t' = tk_dependency t" for t t'
    using dependency_met_steps [OF r_into_rtranclp [of queue_step, OF st] that] .
  from st show "dependencies_first s'"
  proof (cases rule: row_cases)
    case (new t)
    then show ?thesis using inv met by (auto simp: dependencies_first_def new_row_def)
  next
    case (rows g)
    have "dependency_met s' (g t)"
      if t: "t \<in> set (tasks s)" and r: "tk_status (g t) = Running \<or> tk_status (g t) = Succeeded \<or> tk_job (g t) \<noteq> None" for t
    proof (rule met)
      have rs: "row_step s t (g t)" using rows(2) t by blast
      show "tk_dependency (g t) = tk_dependency t" by (rule row_stepD(3) [OF rs])
      show "dependency_met s t"
        using inv t r rs unfolding dependencies_first_def row_step_def by auto
    qed
    then show ?thesis unfolding dependencies_first_def rows(1) by auto
  qed
qed

text \<open>The times of a row agree with its state\<close>

definition times_ok :: "repo \<Rightarrow> bool" where
  "times_ok s \<longleftrightarrow> (\<forall>t \<in> set (tasks s).
     (tk_finished_at t \<noteq> None \<longleftrightarrow> terminal t) \<and> (tk_status t \<in> {Running, Succeeded} \<longrightarrow> tk_started_at t \<noteq> None)
     \<and> (tk_status t = Queued \<longrightarrow> tk_started_at t = None))"

interpretation times: queue_invariant times_ok
proof
  fix s s'
  assume inv: "times_ok s" and "queue_step s s'"
  from this(2) show "times_ok s'"
  proof (cases rule: row_cases)
    case (new t)
    then show ?thesis using inv by (auto simp: times_ok_def new_row_def)
  next
    case (rows g)
    have "(tk_finished_at (g t) \<noteq> None \<longleftrightarrow> terminal (g t))
        \<and> (tk_status (g t) \<in> {Running, Succeeded} \<longrightarrow> tk_started_at (g t) \<noteq> None)
        \<and> (tk_status (g t) = Queued \<longrightarrow> tk_started_at (g t) = None)" if "t \<in> set (tasks s)" for t
    proof -
      have "row_step s t (g t)" using rows(2) that by blast
      moreover have "(tk_finished_at t \<noteq> None \<longleftrightarrow> terminal t)
          \<and> (tk_status t \<in> {Running, Succeeded} \<longrightarrow> tk_started_at t \<noteq> None)
          \<and> (tk_status t = Queued \<longrightarrow> tk_started_at t = None)"
        using inv that unfolding times_ok_def by blast
      ultimately show ?thesis
        unfolding row_step_def by (cases "tk_status t"; cases "tk_status (g t)"; simp)
    qed
    then show ?thesis unfolding times_ok_def rows(1) by auto
  qed
qed

text \<open>Dependencies point backwards: every row a row depends on was added before it\<close>

definition dependencies_ordered :: "repo \<Rightarrow> bool" where
  "dependencies_ordered s \<longleftrightarrow> (\<forall>i < length (tasks s). \<forall>j < length (tasks s).
     tk_dependency (tasks s ! i) = Some (tk_id (tasks s ! j)) \<longrightarrow> j < i)"

interpretation ordered: queue_invariant dependencies_ordered
proof
  fix s s'
  assume inv: "dependencies_ordered s" and "queue_step s s'"
  from this(2) show "dependencies_ordered s'"
  proof (cases rule: row_cases)
    case (new t)
    have "j < i" if ij: "i \<le> length (tasks s)" "j \<le> length (tasks s)"
      and dep: "tk_dependency ((tasks s @ [t]) ! i) = Some (tk_id ((tasks s @ [t]) ! j))" for i j
    proof -
      consider "i = length (tasks s)" "j = length (tasks s)" | "i = length (tasks s)" "j < length (tasks s)"
        | "i < length (tasks s)" "j = length (tasks s)" | "i < length (tasks s)" "j < length (tasks s)"
        using ij by linarith
      then show ?thesis
      proof cases
        case 3
        then have "tasks s ! i \<in> set (tasks s)" by simp
        then show ?thesis using new(2) dep 3 by (auto simp: new_row_def nth_append)
      qed (use new(2) dep inv in \<open>auto simp: new_row_def nth_append dependencies_ordered_def\<close>)
    qed
    then show ?thesis unfolding dependencies_ordered_def new(1) by (simp add: less_Suc_eq_le)
  next
    case (rows g)
    have "tk_id (g t) = tk_id t" "tk_dependency (g t) = tk_dependency t" if "t \<in> set (tasks s)" for t
      using rows(2) that row_stepD by blast+
    then show ?thesis using inv unfolding dependencies_ordered_def rows(1) by simp
  qed
qed

text \<open>Every finished task was reported: its event is in the list the queue publishes\<close>

definition reported :: "repo \<Rightarrow> bool" where
  "reported s \<longleftrightarrow> (\<forall>t \<in> set (tasks s). terminal t \<longrightarrow> event_of t (tk_status t) \<in> set (terminal_events s))"

lemma record_events [simp]:
  "terminal_events (record_terminal_event e s) =
     terminal_events s @ (if ev_status e \<in> set TERMINAL_TASK_STATUSES then [e] else [])"
  by (simp add: record_terminal_event_def)

lemma fold_events:
  assumes "\<forall>t \<in> set ts. ev_status (e t) \<in> set TERMINAL_TASK_STATUSES"
  shows "terminal_events (fold (\<lambda>t. record_terminal_event (e t)) ts s) = terminal_events s @ map e ts"
  using assms by (induction ts arbitrary: s) auto

lemma cancel_all_events:
  "terminal_events (snd (cancel_all_queued project excluded now s0 s)) = terminal_events s
     @ map (\<lambda>t. (event_of t Cancelled)\<lparr>ev_project := project\<rparr>)
         (filter (\<lambda>t. tk_id t \<in> tk_id ` set (cancel_all_targets project excluded s0) \<and> tk_status t = Cancelled)
            (tasks (snd (cancel_all_queued project excluded now s0 s))))"
proof (cases "cancel_all_targets project excluded s0 = []")
  case False
  then show ?thesis
    by (simp add: cancel_all_queued_def Let_def fold_events fold_events_tasks del: update_tasks_simps(1))
qed (simp add: cancel_all_queued_def)

lemma reported_rows:
  assumes "reported s" "tasks s' = map g (tasks s)" "set (terminal_events s) \<subseteq> set (terminal_events s')"
    and "\<And>t. t \<in> set (tasks s) \<Longrightarrow> terminal (g t) \<Longrightarrow>
      (tk_status (g t) = tk_status t \<and> identity (g t) = identity t) \<or> event_of (g t) (tk_status (g t)) \<in> set (terminal_events s')"
  shows "reported s'"
  unfolding reported_def assms(2)
proof (clarsimp simp del: status_simps)
  fix t
  assume t: "t \<in> set (tasks s)" "terminal (g t)"
  from assms(4) [OF t] show "event_of (g t) (tk_status (g t)) \<in> set (terminal_events s')"
  proof
    assume same: "tk_status (g t) = tk_status t \<and> identity (g t) = identity t"
    then have "event_of (g t) (tk_status (g t)) = event_of t (tk_status t)"
      by (auto simp: event_of_def dest: identityD)
    then show ?thesis using assms(1,3) t same by (auto simp: reported_def)
  qed
qed

lemma reported_update:
  assumes "reported s" "s' = update_tasks P f s"
    and "\<And>t. P t \<Longrightarrow> \<not> terminal (f t) \<or> tk_status (f t) = tk_status t \<and> identity (f t) = identity t"
  shows "reported s'"
  by (rule reported_rows [OF assms(1), where g = "\<lambda>t. if P t then f t else t"])
    (use assms(2,3) in \<open>auto split: if_splits\<close>)

lemma reported_same: "reported s \<Longrightarrow> tasks s' = tasks s \<Longrightarrow> terminal_events s' = terminal_events s \<Longrightarrow> reported s'"
  by (simp add: reported_def)

interpretation events: queue_invariant "\<lambda>s. indexes_ok (tasks s) \<and> reported s"
proof
  fix s s'
  assume inv: "indexes_ok (tasks s) \<and> reported s" and st: "queue_step s s'"
  have rep: "reported s" using inv by blast
  from st have "reported s'"
  proof (cases rule: queue_step.cases)
    case (add t)
    then show ?thesis using rep by (auto simp: insert_task_def reported_def split: if_splits)
  next
    case (claim tid now t)
    then show ?thesis
      by (auto simp: claim_update_def Let_def split: if_splits intro!: reported_update [OF rep refl])
  next
    case (finish fr f tid t)
    have ids: "tk_id (f u) = tk_id u" for u using finisher_row(1) [OF finish(2)] by (rule identityD)
    show ?thesis
    proof (rule finish_rowE [OF finish(1) ids])
      assume t: "t \<in> set (tasks s')" "tk_id t = tid"
        and s': "s' = record_terminal_event (event_of t (tk_status t))
          (update_tasks (\<lambda>t. tk_id t = tid \<and> tk_status t \<in> set fr) f s)"
      have dist: "distinct (map tk_id (tasks s'))"
        using indexes.step [OF conjunct1 [OF inv] st] by (simp add: indexes_ok_def)
      show ?thesis
      proof (rule reported_rows [OF rep, where g = "\<lambda>t. if tk_id t = tid \<and> tk_status t \<in> set fr then f t else t"])
        fix u
        let ?g = "\<lambda>t. if tk_id t = tid \<and> tk_status t \<in> set fr then f t else t"
        assume u: "u \<in> set (tasks s)" "terminal (?g u)"
        have mem: "?g u \<in> set (tasks s')" using u(1) by (auto simp: s')
        show "tk_status (?g u) = tk_status u \<and> identity (?g u) = identity u
          \<or> event_of (?g u) (tk_status (?g u)) \<in> set (terminal_events s')"
        proof (cases "tk_id u = tid \<and> tk_status u \<in> set fr")
          case True
          then have "?g u = t" using distinct_same_id [OF dist mem t(1)] t(2) ids by simp
          then show ?thesis using u(2) by (simp add: s')
        next
          case False
          then show ?thesis by (simp only: if_False simp_thms)
        qed
      qed (simp_all add: s')
    qed
  next
    case (cancel_many project excluded now s0)
    let ?T = "tk_id ` set (cancel_all_targets project excluded s0)"
    let ?g = "\<lambda>t. if tk_id t \<in> ?T \<and> tk_status t = Queued then cancelled_row ''user'' now t else t"
    have tasks': "tasks s' = map ?g (tasks s)" by (rule cancel_all_tasks [of project excluded now s0 s, unfolded cancel_many(1)])
    have ev: "terminal_events s' = terminal_events s @ map (\<lambda>t. (event_of t Cancelled)\<lparr>ev_project := project\<rparr>)
        (filter (\<lambda>t. tk_id t \<in> ?T \<and> tk_status t = Cancelled) (tasks s'))"
      by (rule cancel_all_events [of project excluded now s0 s, unfolded cancel_many(1)])
    show ?thesis
    proof (rule reported_rows [OF rep tasks'])
      fix t
      assume t: "t \<in> set (tasks s)"
      show "tk_status (?g t) = tk_status t \<and> identity (?g t) = identity t
        \<or> event_of (?g t) (tk_status (?g t)) \<in> set (terminal_events s')"
      proof (cases "tk_id t \<in> ?T \<and> tk_status t = Queued")
        case True
        then have g: "?g t = cancelled_row ''user'' now t" by simp
        have "?g t \<in> set (filter (\<lambda>t. tk_id t \<in> ?T \<and> tk_status t = Cancelled) (tasks s'))"
          unfolding tasks' using t True g by (force simp: cancelled_row_def)
        moreover have "event_of (?g t) (tk_status (?g t)) = (event_of (?g t) Cancelled)\<lparr>ev_project := project\<rparr>"
          using cancel_many(2) t True by (simp add: event_of_def cancelled_row_def)
        ultimately show ?thesis unfolding ev by simp
      next
        case False
        then show ?thesis by (simp only: if_False simp_thms)
      qed
    qed (simp add: ev)
  next
    case (requeue limit now)
    then show ?thesis using rep
      by (auto simp: requeue_running_def Let_def intro!: reported_update [OF rep refl])
  next
    case (put_back tid now)
    then show ?thesis
      by (auto simp: requeue_single_task_def Let_def intro!: reported_update [OF rep refl])
  next
    case (retry failure_code tid now t)
    let ?P = "\<lambda>t. tk_id t = tid \<and> tk_status t = Failed"
    let ?f = "rerun_row now"
    have "tasks s' = map (\<lambda>t. if ?P t then ?f t else t) (tasks s)" "terminal_events s' = terminal_events s"
      using retry by (auto simp: retry_artifact_download_def Let_def split: option.splits if_splits)
    then show ?thesis
      by (intro reported_rows [OF rep, where g = "\<lambda>t. if ?P t then ?f t else t"]) (auto split: if_splits)
  next
    case (job tid job endpoint base_url now)
    show ?thesis
      by (rule reported_update [OF rep job(1) [symmetric, unfolded persist_provider_job_id_def]])
        (simp add: identity_def dedupe_key_def)
  next
    case (checkpoint tid cp provider now)
    then show ?thesis
      by (auto simp: persist_execution_checkpoint_def Let_def identity_def dedupe_key_def split: if_splits
          intro!: reported_update [OF rep refl])
  next
    case (provider tid provider now)
    show ?thesis
      by (rule reported_update [OF rep provider [symmetric, unfolded persist_execution_provider_id_def]])
        (simp add: identity_def dedupe_key_def)
  qed (use rep in \<open>auto simp: create_batch_def add_members_def delete_fresh_batch_def acquire_or_renew_lease_def
        release_lease_def Let_def split: if_splits intro: reported_same\<close>)
  then show "indexes_ok (tasks s') \<and> reported s'" using indexes.step [OF conjunct1 [OF inv] st] by blast
qed

end
