(* ===== verification/TaskRuns.thy ===== *)
theory TaskRuns
  imports TaskInv
begin

text \<open>
  Runs of the queue: the operations of the repository in any order, by any number of clients, with
  the reads of an operation possibly older than its write.  Every run is a sequence of statements
  (\<open>runs_steps\<close>), so the invariants hold in every reachable database (\<open>reachable_queue_ok\<close>).
\<close>

section \<open>Batches, members and leases\<close>

definition references_ok :: "repo \<Rightarrow> bool" where
  "references_ok s \<longleftrightarrow> distinct (map gb_id (batches s))
     \<and> distinct (map (\<lambda>m. (bm_batch m, bm_unit m)) (memberships s))
     \<and> (\<forall>t \<in> set (tasks s). \<forall>b. tk_batch t = Some b \<longrightarrow> b \<in> gb_id ` set (batches s))
     \<and> (\<forall>m \<in> set (memberships s). bm_batch m \<in> gb_id ` set (batches s) \<and> bm_task m \<in> tk_id ` set (tasks s))"

definition leases_ok :: "repo \<Rightarrow> bool" where
  "leases_ok s \<longleftrightarrow> distinct (map wl_name (leases s))"

lemma finish_row_others:
  assumes "finish_row from f tid s = Some (t, s')"
  shows "batches s' = batches s" "memberships s' = memberships s" "leases s' = leases s"
  using assms by (auto simp: finish_row_def Let_def split: if_splits)

lemma fold_events_others:
  "batches (fold (\<lambda>t. record_terminal_event (e t)) ts r) = batches r"
  "memberships (fold (\<lambda>t. record_terminal_event (e t)) ts r) = memberships r"
  "leases (fold (\<lambda>t. record_terminal_event (e t)) ts r) = leases r"
  by (induction ts arbitrary: r) simp_all

lemma cancel_all_others:
  assumes "snd (cancel_all_queued project excluded now s0 s) = s'"
  shows "batches s' = batches s" "memberships s' = memberships s" "leases s' = leases s"
  using assms by (auto simp: cancel_all_queued_def Let_def fold_events_others split: if_splits)

text \<open>Statements on tasks and provider calls leave the other tables alone\<close>

lemma insert_task_others:
  assumes "insert_task t s = Inr s'"
  shows "batches s' = batches s" "memberships s' = memberships s" "leases s' = leases s"
  using assms by (auto simp: insert_task_def split: if_splits)

lemma claim_update_others:
  assumes "claim_update tid now s = Some (t, s')"
  shows "batches s' = batches s" "memberships s' = memberships s" "leases s' = leases s"
  using assms by (auto simp: claim_update_def Let_def split: if_splits)

lemma requeue_others:
  assumes "snd (requeue_running limit now s) = s'"
  shows "batches s' = batches s" "memberships s' = memberships s" "leases s' = leases s"
  using assms by (auto simp: requeue_running_def Let_def)

lemma put_back_others:
  assumes "snd (requeue_single_task tid now s) = s'"
  shows "batches s' = batches s" "memberships s' = memberships s" "leases s' = leases s"
  using assms by (auto simp: requeue_single_task_def Let_def)

lemma retry_others:
  assumes "retry_artifact_download failure_code tid now s = Inr (t, s')"
  shows "batches s' = batches s" "memberships s' = memberships s" "leases s' = leases s"
  using assms by (auto simp: retry_artifact_download_def Let_def split: if_splits option.splits)

lemma job_others:
  assumes "persist_provider_job_id tid job endpoint base_url now s = s'"
  shows "batches s' = batches s" "memberships s' = memberships s" "leases s' = leases s"
  using assms by (auto simp: persist_provider_job_id_def)

lemma provider_others:
  assumes "persist_execution_provider_id tid provider now s = s'"
  shows "batches s' = batches s" "memberships s' = memberships s" "leases s' = leases s"
  using assms by (auto simp: persist_execution_provider_id_def)

lemma checkpoint_others:
  assumes "persist_execution_checkpoint tid cp provider now s = Inr s'"
  shows "batches s' = batches s" "memberships s' = memberships s" "leases s' = leases s"
  using assms by (auto simp: persist_execution_checkpoint_def Let_def split: if_splits)

lemma lease_others:
  assumes "snd (acquire_or_renew_lease name owner ttl now_epoch u s) = s'"
  shows "batches s' = batches s" "memberships s' = memberships s"
  using assms by (auto simp: acquire_or_renew_lease_def Let_def)

lemma release_others:
  assumes "release_lease name owner s = s'"
  shows "batches s' = batches s" "memberships s' = memberships s"
  using assms by (auto simp: release_lease_def)

lemmas task_statement_others = insert_task_others claim_update_others finish_row_others cancel_all_others requeue_others put_back_others
  retry_others job_others checkpoint_others provider_others lease_others release_others
lemmas task_statement_leases = insert_task_others(3) claim_update_others(3) requeue_others(3) put_back_others(3) retry_others(3) job_others(3) checkpoint_others(3) provider_others(3)

lemma statement_kinds:
  assumes "queue_step s s'"
  obtains (same) "batches s' = batches s" "memberships s' = memberships s"
  | (new_batch) b where "create_batch b s = Inr s'"
  | (members) b tid deduped units where "add_members b tid deduped units s = Inr s'"
      "b \<in> gb_id ` set (batches s)" "tid \<in> tk_id ` set (tasks s)"
  | (drop_batch) project b user where "snd (delete_fresh_batch project b user s) = s'"
  using assms
proof (cases rule: queue_step.cases)
  case (add t)
  then show ?thesis by (intro same task_statement_others)
next
  case (claim tid now t)
  then show ?thesis by (intro same task_statement_others)
next
  case (finish fr f tid t)
  then show ?thesis by (intro same task_statement_others)
next
  case (cancel_many project excluded now s0)
  then show ?thesis by (intro same task_statement_others)
next
  case (requeue limit now)
  then show ?thesis by (intro same task_statement_others)
next
  case (put_back tid now)
  then show ?thesis by (intro same task_statement_others)
next
  case (retry failure_code tid now t)
  then show ?thesis by (intro same task_statement_others)
next
  case (job tid job endpoint base_url now)
  then show ?thesis by (intro same task_statement_others)
next
  case (checkpoint tid cp provider now)
  then show ?thesis by (intro same task_statement_others)
next
  case (provider tid provider now)
  then show ?thesis by (intro same task_statement_others)
next
  case (lease name owner ttl now_epoch updated_at)
  then show ?thesis by (intro same task_statement_others)
next
  case (unlease name owner)
  then show ?thesis by (intro same task_statement_others)
qed (blast intro: new_batch members drop_batch)+

lemma row_fields:
  assumes "queue_step s s'" "t' \<in> set (tasks s')"
  obtains (old) t where "t \<in> set (tasks s)" "tk_id t' = tk_id t" "tk_batch t' = tk_batch t"
  | (new) "tasks s' = tasks s @ [t']" "new_row s t'" "batches s' = batches s" "memberships s' = memberships s"
  using assms(1)
proof (cases rule: row_cases)
  case (new t)
  then show ?thesis using assms(2) that by auto
next
  case (rows g)
  then obtain t where "t \<in> set (tasks s)" "t' = g t" using assms(2) by auto
  then show ?thesis using rows(2) row_stepD(1,4) [of s t "g t"] that(1) [of t] by blast
qed

lemma ids_mono: "queue_step s s' \<Longrightarrow> tk_id ` set (tasks s) \<subseteq> tk_id ` set (tasks s')"
proof (erule row_cases)
  fix g
  assume g: "tasks s' = map g (tasks s)" "\<forall>t \<in> set (tasks s). row_step s t (g t)"
  have "tk_id t \<in> tk_id ` g ` set (tasks s)" if "t \<in> set (tasks s)" for t
    using row_stepD(1) [of s t "g t"] g(2) that by (metis imageI)
  then show ?thesis unfolding g(1) set_map by blast
qed auto

interpretation refs: queue_invariant references_ok
proof
  fix s s'
  assume inv: "references_ok s" and st: "queue_step s s'"
  note ids = ids_mono [OF st]
  have batch_of: "b \<in> gb_id ` set (batches s)" if "t' \<in> set (tasks s')" "tk_batch t' = Some b" for t' b
    using st that(1)
  proof (cases rule: row_fields)
    case (old t)
    then have "tk_batch t = Some b" using that(2) by simp
    then show ?thesis using inv old(1) unfolding references_ok_def by blast
  next
    case new
    then show ?thesis using that(2) unfolding new_row_def by blast
  qed
  have members: "bm_batch m \<in> gb_id ` set (batches s)" "bm_task m \<in> tk_id ` set (tasks s')"
    if "m \<in> set (memberships s)" for m
    using inv that ids by (auto simp: references_ok_def)
  from st show "references_ok s'"
  proof (cases rule: statement_kinds)
    case same
    then show ?thesis using inv batch_of members unfolding references_ok_def by (simp only: same) blast
  next
    case (new_batch b)
    then show ?thesis using inv by (auto simp: create_batch_def references_ok_def split: if_splits)
  next
    case (members b tid deduped units)
    let ?new = "map (\<lambda>u. \<lparr>bm_batch = b, bm_task = tid, bm_unit = u, bm_deduped = deduped\<rparr>) units"
    have dist: "distinct (map (\<lambda>m. (bm_batch m, bm_unit m)) (memberships s @ ?new))"
      and s': "s' = s\<lparr>memberships := memberships s @ ?new\<rparr>"
      using members(1) by (simp_all only: add_members_def Let_def split: if_splits) simp_all
    show ?thesis
      unfolding references_ok_def using inv dist members(2,3)
      by (auto simp add: s' references_ok_def simp del: map_append)
  next
    case (drop_batch project b user)
    have tasks': "tasks s' = tasks s" and members': "memberships s' = memberships s"
      and batches': "batches s' = filter (\<lambda>x. \<not> (gb_id x = b \<and> gb_project x = project \<and> gb_user x = user
        \<and> \<not> list_ex (\<lambda>t. tk_batch t = Some (gb_id x)) (tasks s) \<and> \<not> list_ex (\<lambda>m. bm_batch m = gb_id x) (memberships s))) (batches s)"
      using drop_batch by (auto simp: delete_fresh_batch_def Let_def)
    have used: "c \<in> gb_id ` set (batches s')"
      if c: "c \<in> gb_id ` set (batches s)" and used: "(\<exists>t \<in> set (tasks s). tk_batch t = Some c) \<or> (\<exists>m \<in> set (memberships s). bm_batch m = c)" for c
    proof -
      obtain x where "x \<in> set (batches s)" "gb_id x = c" using c by blast
      then have "x \<in> set (batches s')" using used by (auto simp: batches' list_ex_iff)
      then show ?thesis using \<open>gb_id x = c\<close> by blast
    qed
    have "distinct (map gb_id (batches s'))"
      using inv unfolding batches' references_ok_def by (simp only: distinct_map_filter)
    then show ?thesis
      unfolding references_ok_def tasks' members' using inv used unfolding references_ok_def by blast
  qed
qed

lemma leases_kept: "leases s' = leases s \<Longrightarrow> leases_ok s \<Longrightarrow> leases_ok s'"
  by (simp add: leases_ok_def)

interpretation lease_names: queue_invariant leases_ok
proof
  fix s s'
  assume inv: "leases_ok s" and "queue_step s s'"
  from this(2) show "leases_ok s'"
  proof (cases rule: queue_step.cases)
    case (finish fr f tid t)
    then show ?thesis using inv finish_row_others by (simp add: leases_ok_def)
  next
    case (cancel_many project excluded now s0)
    then show ?thesis using inv cancel_all_others(3) [OF cancel_many(1)] by (simp add: leases_ok_def)
  next
    case (lease name owner ttl now_epoch updated_at)
    let ?P = "\<lambda>l. wl_name l = name \<and> (wl_owner l = owner \<or> wl_until l \<le> now_epoch)"
    show ?thesis
    proof (cases "list_ex ?P (leases s)")
      case True
      then have "map wl_name (leases s') = map wl_name (leases s)"
        unfolding lease [symmetric] acquire_or_renew_lease_def Let_def by simp
      then show ?thesis using inv by (simp only: leases_ok_def)
    next
      case False
      then show ?thesis using inv lease
        by (auto simp: leases_ok_def acquire_or_renew_lease_def Let_def list_ex_iff split: if_splits)
    qed
  next
    case (unlease name owner)
    then show ?thesis using inv by (auto simp: leases_ok_def release_lease_def distinct_map_filter)
  next
    case (new_batch b)
    then show ?thesis using inv by (auto simp: leases_ok_def create_batch_def split: if_splits)
  next
    case (members b tid deduped units)
    then show ?thesis using inv by (auto simp: leases_ok_def add_members_def Let_def split: if_splits)
  next
    case (drop_batch project b user)
    then show ?thesis using inv by (auto simp: leases_ok_def delete_fresh_batch_def Let_def)
  qed (rule leases_kept [OF _ inv], rule task_statement_leases, assumption)+
qed

section \<open>Runs\<close>

text \<open>
  \<open>s0\<close> is an earlier state of the same run: what a client read before its write.  A new task gets an
  ID no row has or depends on (\<open>uuid4\<close>); the worker stores provider jobs for running tasks only.
\<close>

definition fresh_id :: "string \<Rightarrow> enqueue_request \<Rightarrow> repo \<Rightarrow> bool" where
  "fresh_id i r s \<longleftrightarrow> i \<notin> tk_id ` set (tasks s) \<and> rq_dependency r \<noteq> Some i
     \<and> (\<forall>u \<in> set (tasks s). tk_dependency u \<noteq> Some i)"

inductive runs :: "bound_text \<Rightarrow> blocked_text \<Rightarrow> (string \<Rightarrow> string option) \<Rightarrow> repo \<Rightarrow> repo \<Rightarrow> bool"
  for bound blocked failure_code where
  start: "runs bound blocked failure_code s s"
| enqueue: "runs bound blocked failure_code s s1 \<Longrightarrow> fresh_id i r s1 \<Longrightarrow> enqueue guard i now r s1 = Inr (res, s2)
    \<Longrightarrow> runs bound blocked failure_code s s2"
| claim: "runs bound blocked failure_code s s0 \<Longrightarrow> runs bound blocked failure_code s0 s1
    \<Longrightarrow> claim_next media full excluded now s0 s1 = Some (t, s2) \<Longrightarrow> runs bound blocked failure_code s s2"
| succeed: "runs bound blocked failure_code s s1 \<Longrightarrow> mark_succeeded tid result now s1 = (n, s2)
    \<Longrightarrow> runs bound blocked failure_code s s2"
| fail: "runs bound blocked failure_code s s1 \<Longrightarrow> mark_failed bound blocked tid message now s1 = (n, s2)
    \<Longrightarrow> runs bound blocked failure_code s s2"
| cancel: "runs bound blocked failure_code s s0 \<Longrightarrow> runs bound blocked failure_code s0 s1
    \<Longrightarrow> cancel_task tid now s0 s1 = Inr (c, s2) \<Longrightarrow> runs bound blocked failure_code s s2"
| interrupt: "runs bound blocked failure_code s s1 \<Longrightarrow> finalize_interrupted tid now s1 = (n, s2)
    \<Longrightarrow> runs bound blocked failure_code s s2"
| cancel_all: "runs bound blocked failure_code s s0 \<Longrightarrow> runs bound blocked failure_code s0 s1
    \<Longrightarrow> cancel_all_queued project excluded now s0 s1 = (counts, s2) \<Longrightarrow> runs bound blocked failure_code s s2"
| requeue: "runs bound blocked failure_code s s1 \<Longrightarrow> requeue_running limit now s1 = (n, s2)
    \<Longrightarrow> runs bound blocked failure_code s s2"
| put_back: "runs bound blocked failure_code s s1 \<Longrightarrow> requeue_single_task tid now s1 = (ok, s2)
    \<Longrightarrow> runs bound blocked failure_code s s2"
| retry: "runs bound blocked failure_code s s1 \<Longrightarrow> retry_artifact_download failure_code tid now s1 = Inr (t, s2)
    \<Longrightarrow> runs bound blocked failure_code s s2"
| job: "runs bound blocked failure_code s s1 \<Longrightarrow> \<forall>t \<in> set (tasks s1). tk_id t = tid \<longrightarrow> tk_status t = Running
    \<Longrightarrow> persist_provider_job_id tid j endpoint base_url now s1 = s2 \<Longrightarrow> runs bound blocked failure_code s s2"
| checkpoint: "runs bound blocked failure_code s s1 \<Longrightarrow> persist_execution_checkpoint tid cp provider now s1 = Inr s2
    \<Longrightarrow> runs bound blocked failure_code s s2"
| provider: "runs bound blocked failure_code s s1 \<Longrightarrow> persist_execution_provider_id tid provider now s1 = s2
    \<Longrightarrow> runs bound blocked failure_code s s2"
| new_batch: "runs bound blocked failure_code s s1 \<Longrightarrow> create_batch b s1 = Inr s2 \<Longrightarrow> runs bound blocked failure_code s s2"
| attach: "runs bound blocked failure_code s s1 \<Longrightarrow> attach_batch_task project b tid u deduped user s1 = Inr s2
    \<Longrightarrow> runs bound blocked failure_code s s2"
| drop_batch: "runs bound blocked failure_code s s1 \<Longrightarrow> delete_fresh_batch project b user s1 = (n, s2)
    \<Longrightarrow> runs bound blocked failure_code s s2"
| lease: "runs bound blocked failure_code s s1 \<Longrightarrow> acquire_or_renew_lease name owner ttl now_epoch updated_at s1 = (ok, s2)
    \<Longrightarrow> runs bound blocked failure_code s s2"
| unlease: "runs bound blocked failure_code s s1 \<Longrightarrow> release_lease name owner s1 = s2 \<Longrightarrow> runs bound blocked failure_code s s2"

section \<open>Every run is a sequence of statements\<close>

lemma sort_key_head:
  assumes "sort_key f xs = x # ys"
  shows "x \<in> set xs" "\<And>y. y \<in> set xs \<Longrightarrow> f x \<le> f y"
proof -
  have "set (x # ys) = set xs" using assms by (metis set_sort)
  then show "x \<in> set xs" by auto
  fix y
  assume "y \<in> set xs"
  then have "y = x \<or> y \<in> set ys" using \<open>set (x # ys) = set xs\<close> by auto
  moreover have "sorted (map f (x # ys))" using sorted_sort_key [of f xs] assms by simp
  ultimately show "f x \<le> f y" by auto
qed

lemma claim_selectD:
  assumes "claim_select media full excluded s = Some tid"
  obtains t where "t \<in> set (tasks s)" "tk_id t = tid" "claimable media full excluded s t"
    "\<And>u. u \<in> set (tasks s) \<Longrightarrow> claimable media full excluded s u \<Longrightarrow> tk_queued_at t \<le> tk_queued_at u"
proof -
  obtain t ts where srt: "sort_key tk_queued_at (filter (claimable media full excluded s) (tasks s)) = t # ts" "tk_id t = tid"
    using assms by (auto simp: claim_select_def split: list.splits)
  show ?thesis using sort_key_head [OF srt(1)] srt(2) that by auto
qed

lemma same_row:
  assumes "distinct (map tk_id (tasks s1))" "queue_steps s0 s1"
    and "t \<in> set (tasks s0)" "u \<in> set (tasks s1)" "tk_id u = tk_id t"
  shows "tk_dependency u = tk_dependency t" "tk_project u = tk_project t" "tk_batch u = tk_batch t"
proof -
  have "\<exists>x \<in> set (tasks s1). tk_id x = tk_id t \<and> tk_dependency x = tk_dependency t \<and> tk_project x = tk_project t
      \<and> tk_batch x = tk_batch t"
    by (rule kept.steps [OF assms(2)]) (use assms(3) in blast)
  then obtain x where x: "x \<in> set (tasks s1)" "tk_id x = tk_id t" "tk_dependency x = tk_dependency t"
      "tk_project x = tk_project t" "tk_batch x = tk_batch t"
    by blast
  have "u = x" using distinct_same_id [OF assms(1,4) x(1)] assms(5) x(2) by simp
  then show "tk_dependency u = tk_dependency t" "tk_project u = tk_project t" "tk_batch u = tk_batch t"
    using x by simp_all
qed

lemma claim_steps:
  assumes "indexes_ok (tasks s1)" "queue_steps s0 s1" "claim_next media full excluded now s0 s1 = Some (t, s2)"
  shows "queue_step s1 s2"
proof -
  obtain tid where sel: "claim_select media full excluded s0 = Some tid" and upd: "claim_update tid now s1 = Some (t, s2)"
    using assms(3) by (auto simp: claim_next_def bind_eq_Some_conv)
  obtain t0 where t0: "t0 \<in> set (tasks s0)" "tk_id t0 = tid" "claimable media full excluded s0 t0"
    using claim_selectD [OF sel] by metis
  have dist: "distinct (map tk_id (tasks s1))" using assms(1) by (simp add: indexes_ok_def)
  have "\<forall>u \<in> set (tasks s1). tk_id u = tid \<longrightarrow> dependency_met s1 u"
  proof (intro ballI impI)
    fix u
    assume "u \<in> set (tasks s1)" "tk_id u = tid"
    then have "tk_dependency u = tk_dependency t0" using same_row(1) [OF dist assms(2) t0(1)] t0(2) by simp
    then show "dependency_met s1 u"
      using dependency_met_steps [OF assms(2), of t0 u] t0(3) by (simp add: claimable_def)
  qed
  with upd show ?thesis by (rule queue_step.claim)
qed

lemma active_twinD:
  assumes "active_twin r s = Some t"
  shows "t \<in> set (tasks s)" "active t" "dedupe_key t = dedupe_key (new_task i now r)"
proof -
  obtain ts where "sort_key (\<lambda>t. - tk_queued_at t)
        (filter (\<lambda>t. active_dedupe_clauses (rq_project r) (rq_user r) (rq_type r) (rq_script r) (rq_resource_type r) t
                     \<and> tk_resource t = rq_resource r) (tasks s)) = t # ts"
    using assms by (auto simp: active_twin_def split: list.splits)
  from sort_key_head(1) [OF this]
  show "t \<in> set (tasks s)" "active t" "dedupe_key t = dedupe_key (new_task i now r)"
    by (auto simp: active_dedupe_clauses_def dedupe_key_def new_task_def)
qed

lemma flush_taskE:
  assumes "flush_task guard i now r s = Inr (res, s')"
  obtains (added) "insert_task (new_task i now r) s = Inr s'" "er_task res = i" "er_status res = Queued" "\<not> er_deduped res"
  | (deduped) t where "s' = s" "active_twin r s = Some t" "er_task res = tk_id t" "er_status res = tk_status t" "er_deduped res"
      "\<not> indexes_ok (tasks s @ [new_task i now r])"
  using assms
  by (fastforce simp: flush_task_def insert_task_def split: sum.splits option.splits if_splits)

lemma enqueueE:
  assumes "enqueue guard i now r s = Inr (res, s2)"
  obtains s' where "check_batch r s = Inr ()" "flush_task guard i now r s = Inr (res, s')"
    "case rq_batch r of None \<Rightarrow> s2 = s' | Some b \<Rightarrow> add_members b (er_task res) (er_deduped res) (batch_unit_ids r) s' = Inr s2"
proof -
  obtain s' where "check_batch r s = Inr ()" "flush_task guard i now r s = Inr (res, s')"
    "case rq_batch r of None \<Rightarrow> s2 = s' | Some b \<Rightarrow> add_members b (er_task res) (er_deduped res) (batch_unit_ids r) s' = Inr s2"
    using assms unfolding enqueue_def
    by (auto elim!: ebindE split: option.splits)
  then show ?thesis by (rule that)
qed

lemma enqueue_steps:
  assumes "fresh_id i r s1" "enqueue guard i now r s1 = Inr (res, s2)"
  shows "queue_steps s1 s2"
  using assms(2)
proof (rule enqueueE)
  fix s'
  assume chk: "check_batch r s1 = Inr ()" and flush: "flush_task guard i now r s1 = Inr (res, s')"
    and mem: "case rq_batch r of None \<Rightarrow> s2 = s' | Some b \<Rightarrow> add_members b (er_task res) (er_deduped res) (batch_unit_ids r) s' = Inr s2"
  have batch: "\<forall>b. rq_batch r = Some b \<longrightarrow> b \<in> gb_id ` set (batches s1)"
    using chk by (auto simp: check_batch_def Let_def require_batch_units_def find_None_iff split: if_splits)
  have "queue_steps s1 s' \<and> er_task res \<in> tk_id ` set (tasks s') \<and> batches s' = batches s1"
    using flush
  proof (cases rule: flush_taskE)
    case added
    then have "queue_step s1 s'"
      using assms(1) batch by (intro queue_step.add [of "new_task i now r"]) (auto simp: new_task_def fresh_id_def)
    then show ?thesis using added by (auto simp: insert_task_def new_task_def split: if_splits)
  next
    case (deduped t)
    then show ?thesis using active_twinD(1) [OF deduped(2)] by auto
  qed
  note first = this
  show ?thesis
  proof (cases "rq_batch r")
    case None
    then show ?thesis using first mem by simp
  next
    case (Some b)
    have "queue_step s' s2" using mem Some first batch by (auto intro: queue_step.members)
    with first show ?thesis by (auto intro: rtranclp.rtrancl_into_rtrancl)
  qed
qed

lemma cancel_steps: "cancel_task tid now s0 s1 = Inr (c, s2) \<Longrightarrow> queue_steps s1 s2"
  by (auto simp: cancel_task_def split: option.splits if_splits intro: by_steps.mark_cancelled)

lemma attach_step:
  assumes "attach_batch_task project b tid u deduped user s1 = Inr s2"
  shows "queue_step s1 s2"
proof (rule queue_step.members)
  show "add_members b tid deduped [u] s1 = Inr s2"
    using assms by (auto simp: attach_batch_task_def result_simps split: if_splits)
  show "b \<in> gb_id ` set (batches s1)"
    using assms by (auto simp: attach_batch_task_def require_batch_units_def Let_def result_simps find_None_iff
        split: if_splits option.splits)
  show "tid \<in> tk_id ` set (tasks s1)"
    using assms by (auto simp: attach_batch_task_def list_ex_iff result_simps split: if_splits)
qed

lemma cancel_all_steps:
  assumes "indexes_ok (tasks s1)" "queue_steps s0 s1" "cancel_all_queued project excluded now s0 s1 = (counts, s2)"
  shows "queue_step s1 s2"
proof (rule queue_step.cancel_many)
  show "snd (cancel_all_queued project excluded now s0 s1) = s2" using assms(3) by simp
  have dist: "distinct (map tk_id (tasks s1))" using assms(1) by (simp add: indexes_ok_def)
  show "\<forall>t \<in> set (tasks s1). tk_id t \<in> tk_id ` set (cancel_all_targets project excluded s0) \<longrightarrow> tk_project t = project"
  proof (intro ballI impI)
    fix t
    assume t: "t \<in> set (tasks s1)" "tk_id t \<in> tk_id ` set (cancel_all_targets project excluded s0)"
    then obtain u where "u \<in> set (tasks s0)" "tk_project u = project" "tk_id t = tk_id u"
      by (auto simp: cancel_all_targets_def)
    then show "tk_project t = project" using same_row(2) [OF dist assms(2) _ t(1)] by simp
  qed
qed

lemma stale_steps:
  assumes "indexes_ok (tasks s)" "queue_steps s s0" "indexes_ok (tasks s0) \<Longrightarrow> queue_steps s0 s1"
    and "indexes_ok (tasks s1) \<Longrightarrow> queue_steps s0 s1 \<Longrightarrow> queue_steps s1 s2"
  shows "queue_steps s s2"
proof -
  have 0: "queue_steps s0 s1" by (rule assms(3) [OF indexes.steps [OF assms(2,1)]])
  have 1: "queue_steps s s1" using assms(2) 0 by (rule rtranclp_trans)
  have "queue_steps s1 s2" by (rule assms(4) [OF indexes.steps [OF 1 assms(1)] 0])
  with 1 show ?thesis by (rule rtranclp_trans)
qed

lemma runs_refine:
  assumes "runs bound blocked failure_code s s'" "indexes_ok (tasks s)"
  shows "queue_steps s s'"
  using assms
proof (induction rule: runs.induct)
  case (claim s s0 s1 media full excluded now t s2)
  show ?case
    by (rule stale_steps [OF claim(6) claim(4) [OF claim(6)] claim(5)], assumption)
      (blast intro: claim_steps [OF _ _ claim(3)])
next
  case (cancel s s0 s1 tid now c s2)
  show ?case
    by (rule stale_steps [OF cancel(6) cancel(4) [OF cancel(6)] cancel(5)], assumption)
      (rule cancel_steps [OF cancel(3)])
next
  case (cancel_all s s0 s1 project excluded now counts s2)
  show ?case
    by (rule stale_steps [OF cancel_all(6) cancel_all(4) [OF cancel_all(6)] cancel_all(5)], assumption)
      (blast intro: cancel_all_steps [OF _ _ cancel_all(3)])
next
  case (enqueue s s1 i r guard now res s2)
  then show ?case using enqueue_steps by (blast intro: rtranclp_trans)
next
  case (succeed s s1 tid result now n s2)
  have "queue_steps s1 s2"
    using succeed by (auto simp: mark_succeeded_def split: option.splits intro!: r_into_rtranclp queue_step.finish)
  then show ?case using succeed by (blast intro: rtranclp_trans)
next
  case (fail s s1 tid message now n s2)
  then have "queue_steps s1 s2" using by_steps.mark_failed [of s1 bound blocked tid message now] by simp
  then show ?case using fail by (blast intro: rtranclp_trans)
next
  case (interrupt s s1 tid now n s2)
  have "queue_steps s1 s2"
    using interrupt by (auto simp: finalize_interrupted_def split: option.splits intro: by_steps.mark_cancelled)
  then show ?case using interrupt by (blast intro: rtranclp_trans)
next
  case (requeue s s1 limit now n s2)
  then have "queue_step s1 s2" by (auto intro: queue_step.requeue [of limit now])
  then show ?case using requeue by (blast intro: rtranclp.rtrancl_into_rtrancl)
next
  case (put_back s s1 tid now ok s2)
  then have "queue_step s1 s2" by (auto intro: queue_step.put_back [of tid now])
  then show ?case using put_back by (blast intro: rtranclp.rtrancl_into_rtrancl)
next
  case (drop_batch s s1 project b user n s2)
  then have "queue_step s1 s2" by (auto intro: queue_step.drop_batch [of project b user])
  then show ?case using drop_batch by (blast intro: rtranclp.rtrancl_into_rtrancl)
next
  case (lease s s1 name owner ttl now_epoch updated_at ok s2)
  then have "queue_step s1 s2" by (auto intro: queue_step.lease [of name owner ttl now_epoch updated_at])
  then show ?case using lease by (blast intro: rtranclp.rtrancl_into_rtrancl)
qed (blast intro: queue_step.intros attach_step rtranclp.rtrancl_into_rtrancl rtranclp.rtrancl_refl)+

section \<open>Reachable databases\<close>

definition empty_repo :: repo where
  "empty_repo = \<lparr>tasks = [], batches = [], memberships = [], leases = [], api_calls = [], terminal_events = []\<rparr>"

definition queue_ok :: "repo \<Rightarrow> bool" where
  "queue_ok s \<longleftrightarrow> indexes_ok (tasks s) \<and> dependencies_first s \<and> dependencies_ordered s \<and> times_ok s \<and> reported s
     \<and> references_ok s \<and> leases_ok s"

interpretation queue: queue_invariant queue_ok
proof
  fix s s'
  assume "queue_ok s" and st: "queue_step s s'"
  then show "queue_ok s'"
    using indexes.step [OF _ st] deps.step [OF _ st] ordered.step [OF _ st] times.step [OF _ st] events.step [OF _ st]
      refs.step [OF _ st] lease_names.step [OF _ st]
    unfolding queue_ok_def by blast
qed

lemma empty_queue_ok: "queue_ok empty_repo"
  by (simp add: queue_ok_def empty_repo_def indexes_ok_def dependencies_first_def dependencies_ordered_def times_ok_def
      reported_def references_ok_def leases_ok_def)

lemma runs_queue_ok:
  assumes "runs bound blocked failure_code s s'" "queue_ok s"
  shows "queue_ok s'"
proof (rule queue.steps [OF runs_refine [OF assms(1)] assms(2)])
  show "indexes_ok (tasks s)" using assms(2) by (simp add: queue_ok_def)
qed

end
