(* ===== verification/TaskCascade.thy ===== *)
theory TaskCascade
  imports TaskRuns
begin

text \<open>
  What the cascades do: failing or cancelling a task takes exactly the queued tasks with it that
  depend on it through queued tasks, and the preview of a cancellation lists them in order.
\<close>

section \<open>The tasks a cascade reaches\<close>

definition queued_in :: "task list \<Rightarrow> string \<Rightarrow> bool" where
  "queued_in ts i \<longleftrightarrow> (\<exists>t \<in> set ts. tk_id t = i \<and> tk_status t = Queued)"

definition waits_for :: "task list \<Rightarrow> (string \<times> string) set" where
  "waits_for ts = {(p, c). \<exists>t \<in> set ts. tk_id t = c \<and> tk_dependency t = Some p \<and> tk_status t = Queued}"

definition doomed :: "task list \<Rightarrow> string set \<Rightarrow> string set" where
  "doomed ts W = {i. \<exists>w \<in> W. queued_in ts w \<and> (w, i) \<in> (waits_for ts)\<^sup>*}"

text \<open>One row leaves the queue\<close>

definition take_out :: "(task \<Rightarrow> task) \<Rightarrow> string \<Rightarrow> task list \<Rightarrow> task list" where
  "take_out g w ts = map (\<lambda>t. if tk_id t = w \<and> tk_status t = Queued then g t else t) ts"

definition leaves_queue :: "(task \<Rightarrow> task) \<Rightarrow> bool" where
  "leaves_queue g \<longleftrightarrow> (\<forall>t. identity (g t) = identity t \<and> tk_status (g t) \<noteq> Queued)"

lemma leaves_queueD:
  assumes "leaves_queue g"
  shows "tk_id (g t) = tk_id t" "tk_dependency (g t) = tk_dependency t" "tk_queued_at (g t) = tk_queued_at t"
    "tk_status (g t) \<noteq> Queued"
  using assms unfolding leaves_queue_def by (blast dest: identityD)+

lemma leaves_queue_rows [intro, simp]:
  "leaves_queue (failed_row m now)" "leaves_queue (cancelled_row m now)"
  "leaves_queue (\<lambda>t. failed_row (f t) now t)"
  by (simp_all add: leaves_queue_def failed_row_def cancelled_row_def identity_def dedupe_key_def)

lemma take_out_ids:
  assumes "leaves_queue g"
  shows "map tk_id (take_out g w ts) = map tk_id ts"
  using leaves_queueD(1) [OF assms] by (simp add: take_out_def)

lemma take_out_queued:
  assumes "leaves_queue g"
  shows "t \<in> set (take_out g w ts) \<and> tk_status t = Queued \<longleftrightarrow> t \<in> set ts \<and> tk_status t = Queued \<and> tk_id t \<noteq> w"
  using leaves_queueD(4) [OF assms] by (auto simp: take_out_def)

lemma queued_in_take_out:
  assumes "leaves_queue g"
  shows "queued_in (take_out g w ts) i \<longleftrightarrow> queued_in ts i \<and> i \<noteq> w"
  using take_out_queued [OF assms] unfolding queued_in_def by metis

lemma waits_for_take_out:
  assumes "leaves_queue g"
  shows "waits_for (take_out g w ts) = {(p, c) \<in> waits_for ts. c \<noteq> w}"
  using take_out_queued [OF assms, of _ w ts] unfolding waits_for_def by blast

lemma take_out_mem:
  assumes "leaves_queue g" "u \<in> set (take_out g w ts)"
  obtains v where "v \<in> set ts" "tk_id u = tk_id v" "tk_dependency u = tk_dependency v"
  using assms(2) leaves_queueD(1,2) [OF assms(1)] that by (auto simp: take_out_def split: if_splits)

lemma waits_for_queued: "(p, c) \<in> waits_for ts \<Longrightarrow> queued_in ts c"
  by (auto simp: waits_for_def queued_in_def)

lemma doomed_queued: "i \<in> doomed ts W \<Longrightarrow> queued_in ts i"
  unfolding doomed_def by (auto elim: rtranclE intro: waits_for_queued)

lemma doomed_Un: "doomed ts (V \<union> W) = doomed ts V \<union> doomed ts W"
  by (auto simp: doomed_def)

lemma doomed_closed: "p \<in> doomed ts W \<Longrightarrow> (p, c) \<in> waits_for ts \<Longrightarrow> c \<in> doomed ts W"
  unfolding doomed_def by (blast intro: rtrancl_into_rtrancl)

lemma doomed_not_queued: "\<not> queued_in ts w \<Longrightarrow> doomed ts (insert w W) = doomed ts W"
  by (auto simp: doomed_def)

lemma doomed_take_out:
  assumes g: "leaves_queue g" and w: "queued_in ts w"
  shows "doomed ts (insert w W) = insert w (doomed (take_out g w ts) ({c. (w, c) \<in> waits_for (take_out g w ts)} \<union> W))"
    (is "_ = insert w (doomed ?ts (?C \<union> W))")
proof
  have sub: "waits_for ?ts \<subseteq> waits_for ts" unfolding waits_for_take_out [OF g] by blast
  show "insert w (doomed ?ts (?C \<union> W)) \<subseteq> doomed ts (insert w W)"
  proof
    fix i
    assume "i \<in> insert w (doomed ?ts (?C \<union> W))"
    then consider "i = w" | c where "c \<in> ?C \<union> W" "queued_in ?ts c" "(c, i) \<in> (waits_for ?ts)\<^sup>*"
      unfolding doomed_def by blast
    then show "i \<in> doomed ts (insert w W)"
    proof cases
      case 1
      then show ?thesis using w by (auto simp: doomed_def)
    next
      case 2
      have path: "(c, i) \<in> (waits_for ts)\<^sup>*" using 2(3) rtrancl_mono [OF sub] by blast
      show ?thesis
      proof (cases "c \<in> W")
        case True
        then show ?thesis using path 2(2) queued_in_take_out [OF g] by (auto simp: doomed_def)
      next
        case False
        then have "(w, c) \<in> waits_for ts" using 2(1) sub by blast
        then have "(w, i) \<in> (waits_for ts)\<^sup>*" using path by (rule converse_rtrancl_into_rtrancl)
        then show ?thesis using w by (auto simp: doomed_def)
      qed
    qed
  qed
  have reach: "i = w \<or> i \<in> doomed ?ts (?C \<union> W)"
    if "(v, i) \<in> (waits_for ts)\<^sup>*" "v \<in> insert w W" "queued_in ts v" for v i
    using that(1)
  proof (induction rule: rtrancl_induct)
    case base
    then show ?case
      using that(2,3) queued_in_take_out [OF g] by (auto simp: doomed_def)
  next
    case (step p c)
    show ?case
    proof (cases "c = w")
      case False
      then have e: "(p, c) \<in> waits_for ?ts" using step(2) waits_for_take_out [OF g] by blast
      from step(3) show ?thesis
      proof
        assume "p = w"
        then have "c \<in> ?C" using e by blast
        then show ?thesis using waits_for_queued [OF e] by (auto simp: doomed_def)
      qed (use doomed_closed e in blast)
    qed simp
  qed
  show "doomed ts (insert w W) \<subseteq> insert w (doomed ?ts (?C \<union> W))"
    using reach by (auto simp: doomed_def)
qed

section \<open>Failing\<close>

lemma finish_row_take_out:
  assumes "finish_row [Queued] f w s = Some (t, s1)"
  shows "tasks s1 = take_out f w (tasks s)" "queued_in (tasks s) w"
  using assms
  by (auto simp: finish_row_def Let_def take_out_def queued_in_def matching_0 intro!: map_cong split: if_splits)

lemma finish_row_fails:
  assumes "finish_row from f w s = None" "\<And>u. tk_id (f u) = tk_id u" "t \<in> set (tasks s)" "tk_id t = w"
  shows "tk_status t \<notin> set from"
proof
  assume t: "tk_status t \<in> set from"
  then have m: "matching (\<lambda>t. tk_id t = w \<and> tk_status t \<in> set from) s \<noteq> 0" using assms(3,4) by (auto simp: matching_0)
  let ?s = "update_tasks (\<lambda>t. tk_id t = w \<and> tk_status t \<in> set from) f s"
  have "tk_id (f t) = w" "f t \<in> set (tasks ?s)" using t assms(2-4) by auto
  then have "find_task w ?s \<noteq> None" unfolding find_task_None by blast
  then show False using assms(1) m by (auto simp: finish_row_def Let_def)
qed

lemma finish_row_None:
  assumes "finish_row [Queued] f w s = None" "\<And>u. tk_id (f u) = tk_id u"
  shows "\<not> queued_in (tasks s) w"
  using finish_row_fails [OF assms] by (auto simp: queued_in_def)

lemma dependent_ids_waits: "set (dependent_ids w s) = {c. (w, c) \<in> waits_for (tasks s)}"
  by (auto simp: dependent_ids_def queued_dependents_def waits_for_def image_iff)

definition mark_all :: "(task \<Rightarrow> task) \<Rightarrow> string set \<Rightarrow> task list \<Rightarrow> task list" where
  "mark_all g D ts = map (\<lambda>t. if tk_id t \<in> D then g t else t) ts"

lemma take_out_mark_all:
  assumes dist: "distinct (map tk_id ts)" and g: "leaves_queue g" and w: "queued_in ts w"
    and D: "\<And>i. i \<in> D \<Longrightarrow> i \<noteq> w"
  shows "mark_all g D (take_out g w ts) = mark_all g (insert w D) ts"
proof -
  have "tk_status t = Queued" if "t \<in> set ts" "tk_id t = w" for t
    using w that distinct_same_id [OF dist] unfolding queued_in_def by metis
  then show ?thesis
    unfolding mark_all_def take_out_def map_map
    using leaves_queueD(1) [OF g] D by (intro map_cong) auto
qed

lemma sweep_step:
  assumes "distinct (map tk_id ts)" "leaves_queue g" "queued_in ts w" "ts1 = take_out g w ts"
    "V = {c. (w, c) \<in> waits_for ts1} \<union> W"
  shows "mark_all g (doomed ts1 V) ts1 = mark_all g (doomed ts (insert w W)) ts"
proof -
  have "mark_all g (doomed ts1 V) ts1 = mark_all g (insert w (doomed ts1 V)) ts"
    unfolding assms(4)
  proof (rule take_out_mark_all [OF assms(1-3)])
    fix i
    assume "i \<in> doomed (take_out g w ts) V"
    then have "queued_in (take_out g w ts) i" by (rule doomed_queued)
    then show "i \<noteq> w" using queued_in_take_out [OF assms(2)] by blast
  qed
  then show ?thesis unfolding assms(4,5) by (simp only: doomed_take_out [OF assms(2,3)])
qed

lemma cascade_failed_rows:
  assumes "distinct (map tk_id (tasks s))"
    and "\<forall>(p, w) \<in> set work. \<forall>t \<in> set (tasks s). tk_id t = w \<longrightarrow> tk_dependency t = Some p"
  shows "tasks (snd (cascade_failed bound blocked reason now work s)) =
    mark_all (\<lambda>t. failed_row (bound (blocked (the (tk_dependency t)) reason)) now t)
      (doomed (tasks s) (snd ` set work)) (tasks s)"
  using assms
proof (induction bound blocked reason now work s rule: cascade_failed.induct)
  case (1 bound blocked reason now s)
  then show ?case by (simp add: doomed_def mark_all_def)
next
  case (2 bound blocked reason now parent dep work s)
  let ?g = "\<lambda>t. failed_row (bound (blocked (the (tk_dependency t)) reason)) now t"
  let ?f = "failed_row (bound (blocked parent reason)) now"
  show ?case
  proof (cases "mark_failed_queued_dep bound dep (blocked parent reason) now s")
    case None
    then have "\<not> queued_in (tasks s) dep"
      by (intro finish_row_None [of ?f]) (auto simp: mark_failed_queued_dep_def failed_row_def)
    then show ?thesis using None 2(1) 2(3,4) by (simp add: doomed_not_queued)
  next
    case (Some x)
    obtain t s1 where x: "x = (t, s1)" by (cases x) auto
    have fin: "finish_row [Queued] ?f dep s = Some (t, s1)" using Some x by (simp add: mark_failed_queued_dep_def)
    note out = finish_row_take_out [OF fin]
    have dep: "tk_dependency u = Some parent" if "u \<in> set (tasks s)" "tk_id u = dep" for u using 2(4) that by auto
    have tasks1: "tasks s1 = take_out ?g dep (tasks s)"
      unfolding out(1) take_out_def using dep by (intro map_cong) auto
    have g: "leaves_queue ?g" by simp
    let ?W = "{c. (dep, c) \<in> waits_for (tasks s1)} \<union> snd ` set work"
    have work: "snd ` set (map (Pair dep) (dependent_ids dep s1) @ work) = ?W"
      by (simp add: image_Un image_image dependent_ids_waits)
    have dist1: "distinct (map tk_id (tasks s1))" using 2(3) unfolding tasks1 take_out_ids [OF g] .
    have deps1: "\<forall>(p, w) \<in> set (map (Pair dep) (dependent_ids dep s1) @ work).
        \<forall>t \<in> set (tasks s1). tk_id t = w \<longrightarrow> tk_dependency t = Some p"
    proof -
      have "tk_dependency u = Some p" if pw: "(p, w) \<in> set work" and u: "u \<in> set (tasks s1)" "tk_id u = w" for p w u
      proof -
        obtain v where "v \<in> set (tasks s)" "tk_id u = tk_id v" "tk_dependency u = tk_dependency v"
          using take_out_mem [OF g u(1) [unfolded tasks1]] .
        then show ?thesis using 2(4) pw u(2) by auto
      qed
      moreover have "tk_dependency u = Some dep"
        if c: "(dep, c) \<in> waits_for (tasks s1)" and u: "u \<in> set (tasks s1)" "tk_id u = c" for c u
      proof -
        obtain v where v: "v \<in> set (tasks s1)" "tk_id v = c" "tk_dependency v = Some dep"
          using c by (auto simp: waits_for_def)
        then show ?thesis using distinct_same_id [OF dist1 u(1) v(1)] u(2) by simp
      qed
      ultimately show ?thesis by (auto simp: dependent_ids_waits)
    qed
    have "tasks (snd (cascade_failed bound blocked reason now ((parent, dep) # work) s)) =
        mark_all ?g (doomed (tasks s1) ?W) (tasks s1)"
      using 2(2) [OF Some x [symmetric] dist1 deps1] Some x unfolding work by (simp add: split_beta)
    also have "\<dots> = mark_all ?g (doomed (tasks s) (insert dep (snd ` set work))) (tasks s)"
      by (rule sweep_step [OF 2(3) g out(2) tasks1 refl])
    finally show ?thesis by simp
  qed
qed

text \<open>The queued tasks that wait for \<open>tid\<close>, directly or through others\<close>

definition dependents_of :: "task list \<Rightarrow> string \<Rightarrow> string set" where
  "dependents_of ts tid = {i. (tid, i) \<in> (waits_for ts)\<^sup>+}"

lemma doomed_children: "doomed ts {c. (w, c) \<in> waits_for ts} = dependents_of ts w"
proof
  show "doomed ts {c. (w, c) \<in> waits_for ts} \<subseteq> dependents_of ts w"
    by (auto simp: doomed_def dependents_of_def intro: rtrancl_into_trancl2)
  show "dependents_of ts w \<subseteq> doomed ts {c. (w, c) \<in> waits_for ts}"
  proof
    fix i
    assume "i \<in> dependents_of ts w"
    then obtain c where "(w, c) \<in> waits_for ts" "(c, i) \<in> (waits_for ts)\<^sup>*"
      unfolding dependents_of_def by (auto dest: tranclD)
    then show "i \<in> doomed ts {c. (w, c) \<in> waits_for ts}"
      using waits_for_queued by (auto simp: doomed_def)
  qed
qed

lemma dependents_of_queued: "i \<in> dependents_of ts w \<Longrightarrow> queued_in ts i"
  using doomed_children doomed_queued by metis

lemma waits_for_mark_all:
  assumes "leaves_queue g"
  shows "waits_for (mark_all g D ts) = {(p, c) \<in> waits_for ts. c \<notin> D}"
  using leaves_queueD [OF assms] by (fastforce simp: waits_for_def mark_all_def split: if_splits)

lemma no_dependents_left:
  assumes "leaves_queue g" "waits_for ts1 = waits_for ts"
  shows "dependents_of (mark_all g (dependents_of ts w) ts1) w = {}"
proof -
  have "(w, c) \<notin> waits_for (mark_all g (dependents_of ts w) ts1)" for c
    unfolding waits_for_mark_all [OF assms(1)] assms(2) by (auto simp: dependents_of_def)
  then show ?thesis unfolding dependents_of_def by (auto dest: tranclD)
qed

text \<open>Taking a running row out of the active states changes nothing for the queued ones\<close>

lemma finish_row_running:
  assumes "finish_row [Running] f w s = Some (t, s1)" "leaves_queue f" "distinct (map tk_id (tasks s))"
  shows "tasks s1 = mark_all f {w} (tasks s)" "waits_for (tasks s1) = waits_for (tasks s)" "\<not> queued_in (tasks s) w"
    "\<exists>t \<in> set (tasks s). tk_id t = w \<and> tk_status t = Running"
proof -
  let ?P = "\<lambda>t. tk_id t = w \<and> tk_status t = Running"
  have tasks1: "tasks s1 = map (\<lambda>t. if ?P t then f t else t) (tasks s)" and ex: "\<exists>t \<in> set (tasks s). ?P t"
    using assms(1) by (auto simp: finish_row_def Let_def matching_0 split: if_splits)
  then obtain u where u: "u \<in> set (tasks s)" "?P u" by blast
  have only: "?P t" if "t \<in> set (tasks s)" "tk_id t = w" for t
    using distinct_same_id [OF assms(3) that(1) u(1)] u(2) that(2) by simp
  show rows: "tasks s1 = mark_all f {w} (tasks s)"
    unfolding tasks1 mark_all_def using only by (intro map_cong) auto
  show nq: "\<not> queued_in (tasks s) w" using only by (auto simp: queued_in_def)
  show "waits_for (tasks s1) = waits_for (tasks s)"
    unfolding rows waits_for_mark_all [OF assms(2)] using nq waits_for_queued by auto
  show "\<exists>t \<in> set (tasks s). ?P t" by (rule ex)
qed

lemma mark_failed_rows:
  assumes "mark_failed bound blocked tid message now s = (n, s')" "n \<noteq> 0" "distinct (map tk_id (tasks s))"
  shows "tasks s' = mark_all (\<lambda>t. if tk_id t = tid then failed_row (bound message) now t
      else failed_row (bound (blocked (the (tk_dependency t)) message)) now t)
    (insert tid (dependents_of (tasks s) tid)) (tasks s)"
    "dependents_of (tasks s') tid = {}"
proof -
  let ?g = "\<lambda>t. failed_row (bound (blocked (the (tk_dependency t)) message)) now t"
  let ?D = "dependents_of (tasks s) tid"
  obtain t s1 where run: "mark_failed_running bound tid message now s = Some (t, s1)"
    and s': "s' = snd (cascade_failed bound blocked message now (map (Pair tid) (dependent_ids tid s1)) s1)"
    using assms(1,2) by (auto simp: mark_failed_def split: option.splits)
  note f = finish_row_running [OF run [unfolded mark_failed_running_def] leaves_queue_rows(1) assms(3)]
  have ids: "map tk_id (tasks s1) = map tk_id (tasks s)"
    unfolding f(1) mark_all_def by (simp add: failed_row_def)
  have dist1: "distinct (map tk_id (tasks s1))" using assms(3) unfolding ids .
  have deps: "\<forall>(p, w) \<in> set (map (Pair tid) (dependent_ids tid s1)).
      \<forall>t \<in> set (tasks s1). tk_id t = w \<longrightarrow> tk_dependency t = Some p"
    using distinct_same_id [OF dist1]
    by (auto simp: dependent_ids_def queued_dependents_def)
  have "snd ` set (map (Pair tid) (dependent_ids tid s1)) = {c. (tid, c) \<in> waits_for (tasks s1)}"
    by (simp add: image_image dependent_ids_waits)
  then have casc: "tasks s' = mark_all ?g ?D (tasks s1)"
    unfolding s' using cascade_failed_rows [OF dist1 deps, of bound blocked message now]
    by (simp add: doomed_children) (simp add: dependents_of_def f(2))
  show "dependents_of (tasks s') tid = {}"
    unfolding casc by (rule no_dependents_left [OF _ f(2)]) simp
  have "tid \<notin> ?D" using f(3) dependents_of_queued by blast
  then show "tasks s' = mark_all (\<lambda>t. if tk_id t = tid then failed_row (bound message) now t else ?g t) (insert tid ?D) (tasks s)"
    unfolding casc f(1) by (auto simp: mark_all_def failed_row_def)
qed

section \<open>Cancelling\<close>

lemma cancel_cascade_rows:
  assumes "distinct (map tk_id (tasks s))"
  shows "tasks (snd (cancel_cascade now work s)) =
    mark_all (cancelled_row ''cascade'' now) (doomed (tasks s) (set work)) (tasks s)"
  using assms
proof (induction now work s rule: cancel_cascade.induct)
  case (1 now s)
  then show ?case by (simp add: doomed_def mark_all_def)
next
  case (2 now tid work s)
  let ?g = "cancelled_row ''cascade'' now"
  have g: "leaves_queue ?g" by simp
  show ?case
  proof (cases "finish_row [Queued] ?g tid s")
    case None
    then have "\<not> queued_in (tasks s) tid" by (rule finish_row_None) (simp add: cancelled_row_def)
    then show ?thesis using None 2(1,3) by (simp add: doomed_not_queued)
  next
    case (Some x)
    obtain t s1 where x: "x = (t, s1)" by (cases x) auto
    note out = finish_row_take_out [OF Some [unfolded x]]
    have dist1: "distinct (map tk_id (tasks s1))" using 2(3) unfolding out(1) take_out_ids [OF g] .
    have "tasks (snd (cancel_cascade now (tid # work) s)) =
        mark_all ?g (doomed (tasks s1) ({c. (tid, c) \<in> waits_for (tasks s1)} \<union> set work)) (tasks s1)"
      using 2(2) [OF Some x [symmetric] dist1] Some x by (simp add: split_beta dependent_ids_waits)
    also have "\<dots> = mark_all ?g (doomed (tasks s) (insert tid (set work))) (tasks s)"
      by (rule sweep_step [OF 2(3) g out(2,1) refl])
    finally show ?thesis by simp
  qed
qed

section \<open>The preview of a cancellation\<close>

lemma waits_for_parent:
  assumes "distinct (map tk_id ts)" "(p, c) \<in> waits_for ts" "(q, c) \<in> waits_for ts"
  shows "p = q"
  using assms(2,3) distinct_same_id [OF assms(1)] unfolding waits_for_def by fastforce

text \<open>A set of queued tasks none of which waits for another\<close>

definition independent :: "task list \<Rightarrow> string list \<Rightarrow> bool" where
  "independent ts W \<longleftrightarrow> distinct W \<and> (\<forall>w \<in> set W. queued_in ts w)
     \<and> (\<forall>x \<in> set W. \<forall>y \<in> set W. (x, y) \<in> (waits_for ts)\<^sup>* \<longrightarrow> x = y)"

lemma distinct_dependent_ids:
  assumes "distinct (map tk_id (tasks s))"
  shows "distinct (dependent_ids w s)"
  using assms by (auto simp: dependent_ids_def queued_dependents_def distinct_map intro: inj_on_subset)

lemma independent_step:
  assumes dist: "distinct (map tk_id ts)" and acyc: "acyclic (waits_for ts)" and g: "leaves_queue g"
    and ind: "independent ts (w # W)" and ts1: "ts1 = take_out g w ts"
    and C: "distinct C" "set C = {c. (w, c) \<in> waits_for ts1}"
  shows "independent ts1 (C @ W)"
proof -
  let ?E = "waits_for ts"
  have E1: "waits_for ts1 = {(p, c) \<in> ?E. c \<noteq> w}" unfolding ts1 by (rule waits_for_take_out [OF g])
  have sub: "(waits_for ts1)\<^sup>* \<subseteq> ?E\<^sup>*" by (rule rtrancl_mono) (auto simp: E1)
  have w: "w \<notin> set W" "distinct W" and q: "queued_in ts v" if "v \<in> set (w # W)" for v
    using ind that by (auto simp: independent_def)
  have anti: "x = y" if "x \<in> set (w # W)" "y \<in> set (w # W)" "(x, y) \<in> ?E\<^sup>*" for x y
    using ind that unfolding independent_def by blast
  have child: "(w, c) \<in> ?E" if "c \<in> set C" for c using that C(2) E1 by blast
  have no_cycle: "(c, w) \<notin> ?E\<^sup>*" if "c \<in> set C" for c
    using rtrancl_into_trancl2 [OF child [OF that]] acyc by (auto simp: acyclic_def)
  have same: "x = y" if x: "x \<in> set (C @ W)" and y: "y \<in> set (C @ W)" and path: "(x, y) \<in> ?E\<^sup>*" for x y
  proof (rule ccontr)
    assume ne: "x \<noteq> y"
    show False
    proof (cases "y \<in> set C")
      case True
      obtain p where p: "(x, p) \<in> ?E\<^sup>*" "(p, y) \<in> ?E" using path ne by (auto elim: rtranclE)
      have "p = w" by (rule waits_for_parent [OF dist p(2) child [OF True]])
      then have "(x, w) \<in> ?E\<^sup>*" using p(1) by simp
      then show False using x no_cycle anti [of x w] w(1) [of w] by auto
    next
      case False
      then have yW: "y \<in> set W" using y by simp
      have "(w, y) \<in> ?E\<^sup>*" if "x \<in> set C"
        using child [OF that] path by (rule converse_rtrancl_into_rtrancl)
      then show False using x ne anti [of w y] anti [of x y] yW w(1) [of w] path by auto
    qed
  qed
  have "queued_in ts1 v" if "v \<in> set (C @ W)" for v
  proof (cases "v \<in> set C")
    case True
    then show ?thesis using C(2) waits_for_queued by blast
  next
    case False
    then show ?thesis using that q [of v] w(1) [of w] queued_in_take_out [OF g, of w ts v] unfolding ts1 by auto
  qed
  moreover have "set C \<inter> set W = {}"
  proof -
    have "c \<notin> set W" if "c \<in> set C" for c
      using anti [of w c] r_into_rtrancl [OF child [OF that]] w(1) [of w] by auto
    then show ?thesis by blast
  qed
  ultimately show ?thesis using same sub C(1) w(2) [of w] by (auto simp: independent_def)
qed

lemma queued_dependents_take_out:
  assumes "leaves_queue g" "tasks s1 = take_out g w (tasks s)" "(i, w) \<notin> waits_for (tasks s)"
  shows "queued_dependents i s1 = queued_dependents i s"
proof -
  have "filter (\<lambda>t. tk_dependency t = Some i \<and> tk_status t = Queued) (take_out g w ts) =
      filter (\<lambda>t. tk_dependency t = Some i \<and> tk_status t = Queued) ts" if "(i, w) \<notin> waits_for ts" for ts
    using that leaves_queueD(4) [OF assms(1)] by (induction ts) (auto simp: take_out_def waits_for_def)
  then show ?thesis using assms(2,3) by (simp add: queued_dependents_def)
qed

lemma collect_simps:
  "collect_queued_dependents s [] = Some []"
  "collect_queued_dependents s (t # rest) =
     map_option ((#) t) (collect_queued_dependents s (queued_dependents (tk_id t) s @ rest))"
  by (subst collect_queued_dependents.simps; simp split: bind_splits)+

lemma cancel_order:
  assumes "distinct (map tk_id (tasks s))" "acyclic (waits_for (tasks s))" "independent (tasks s) work"
    and "map tk_id rows = work" "\<forall>i \<in> doomed (tasks s) (set work). queued_dependents i s0 = queued_dependents i s"
  shows "\<exists>rs. collect_queued_dependents s0 rows = Some rs \<and> map tk_id rs = map tk_id (fst (cancel_cascade now work s))"
  using assms
proof (induction now work s arbitrary: rows rule: cancel_cascade.induct)
  case (1 now s)
  then show ?case by (simp add: collect_simps)
next
  case (2 now w W s)
  let ?g = "cancelled_row ''cascade'' now"
  have g: "leaves_queue ?g" by simp
  obtain r R where rows: "rows = r # R" "tk_id r = w" "map tk_id R = W" using 2(6) by (cases rows) auto
  have q: "queued_in (tasks s) w" using 2(5) by (simp add: independent_def)
  show ?case
  proof (cases "finish_row [Queued] ?g w s")
    case None
    then have "\<not> queued_in (tasks s) w" by (rule finish_row_None) (simp add: cancelled_row_def)
    then show ?thesis using q by blast
  next
    case (Some x)
    obtain t s1 where x: "x = (t, s1)" by (cases x) auto
    note out = finish_row_take_out [OF Some [unfolded x]]
    have dist1: "distinct (map tk_id (tasks s1))" using 2(3) unfolding out(1) take_out_ids [OF g] .
    have sub: "waits_for (tasks s1) \<subseteq> waits_for (tasks s)" unfolding out(1) waits_for_take_out [OF g] by blast
    have acyc1: "acyclic (waits_for (tasks s1))" using 2(4) sub by (rule acyclic_subset)
    have ind1: "independent (tasks s1) (dependent_ids w s1 @ W)"
      by (rule independent_step [OF 2(3,4) g 2(5) out(1) distinct_dependent_ids [OF dist1] dependent_ids_waits])
    have doomed_w: "doomed (tasks s) (insert w (set W)) =
        insert w (doomed (tasks s1) ({c. (w, c) \<in> waits_for (tasks s1)} \<union> set W))"
      unfolding out(1) by (rule doomed_take_out [OF g q])
    have "(w, w) \<notin> waits_for (tasks s)" using 2(4) by (auto simp: acyclic_def)
    then have same_w: "queued_dependents w s1 = queued_dependents w s"
      by (rule queued_dependents_take_out [OF g out(1)])
    have w0: "queued_dependents w s0 = queued_dependents w s1"
      using 2(7) doomed_w same_w by simp
    have no_edge: "(i, w) \<notin> waits_for (tasks s)" if i: "i \<in> doomed (tasks s1) (set (dependent_ids w s1 @ W))" for i
    proof
      assume e: "(i, w) \<in> waits_for (tasks s)"
      obtain v where v: "v \<in> set (dependent_ids w s1 @ W)" "(v, i) \<in> (waits_for (tasks s1))\<^sup>*"
        using i by (auto simp: doomed_def)
      have "(v, i) \<in> (waits_for (tasks s))\<^sup>*" using v(2) rtrancl_mono [OF sub] by blast
      then have path: "(v, w) \<in> (waits_for (tasks s))\<^sup>+" using e by (rule rtrancl_into_trancl1)
      show False
      proof (cases "v \<in> set W")
        case True
        then have "v = w" using 2(5) trancl_into_rtrancl [OF path] by (auto simp: independent_def)
        then show False using True 2(5) by (simp add: independent_def)
      next
        case False
        then have "(w, v) \<in> waits_for (tasks s)" using v(1) sub by (auto simp: dependent_ids_waits)
        then have "(w, w) \<in> (waits_for (tasks s))\<^sup>+" using path by (rule trancl_into_trancl2)
        then show False using 2(4) by (simp add: acyclic_def)
      qed
    qed
    have agree: "\<forall>i \<in> doomed (tasks s1) (set (dependent_ids w s1 @ W)). queued_dependents i s0 = queued_dependents i s1"
    proof
      fix i
      assume i: "i \<in> doomed (tasks s1) (set (dependent_ids w s1 @ W))"
      have "i \<in> doomed (tasks s) (set (w # W))"
        using i unfolding list.set doomed_w by (simp add: dependent_ids_waits)
      then have "queued_dependents i s0 = queued_dependents i s" using 2(7) by blast
      also have "\<dots> = queued_dependents i s1"
        by (rule queued_dependents_take_out [OF g out(1) no_edge [OF i], symmetric])
      finally show "queued_dependents i s0 = queued_dependents i s1" .
    qed
    have "map tk_id (queued_dependents w s0 @ R) = dependent_ids w s1 @ W"
      using rows w0 by (simp add: dependent_ids_def)
    from 2(2) [OF Some x [symmetric] dist1 acyc1 ind1 this agree]
    obtain rs where "collect_queued_dependents s0 (queued_dependents w s0 @ R) = Some rs"
      "map tk_id rs = map tk_id (fst (cancel_cascade now (dependent_ids w s1 @ W) s1))"
      by blast
    moreover have "tk_id t = w" by (rule finish_rowE [OF Some [unfolded x]]) (simp_all add: cancelled_row_def)
    ultimately show ?thesis
      using rows Some x by (simp add: collect_simps split_beta)
  qed
qed

end
