(* ===== verification/TaskProps.thy ===== *)
theory TaskProps
  imports TaskCascade
begin

text \<open>
  Properties of the task queue, each with an instance on a small queue: a running task, a queued one
  that depends on it, a third that depends on the second, and a task on its own.
\<close>

section \<open>Lemmas\<close>

lemma waits_for_acyclic:
  assumes "dependencies_ordered s" "distinct (map tk_id (tasks s))"
  shows "acyclic (waits_for (tasks s))"
proof -
  define rank where "rank i = (case find_index (\<lambda>t. tk_id t = i) (tasks s) of None \<Rightarrow> 0 | Some k \<Rightarrow> - int (Suc k))" for i
  have "rank c < rank p" if pc: "(p, c) \<in> waits_for (tasks s)" for p c
  proof -
    obtain i where i: "i < length (tasks s)" "tk_id (tasks s ! i) = c" "tk_dependency (tasks s ! i) = Some p"
      using pc unfolding waits_for_def by (auto simp: in_set_conv_nth)
    have "find_index (\<lambda>t. tk_id t = c) (tasks s) = Some i"
      using find_index_distinct [OF assms(2) i(1)] i(2) by simp
    then have c: "rank c = - int (Suc i)" by (simp add: rank_def)
    show ?thesis
    proof (cases "find_index (\<lambda>t. tk_id t = p) (tasks s)")
      case None
      then show ?thesis using c by (simp add: rank_def)
    next
      case (Some j)
      then have "j < length (tasks s)" "tk_id (tasks s ! j) = p" by (rule find_index_SomeD)+
      then have "j < i" using assms(1) i by (auto simp: dependencies_ordered_def)
      then show ?thesis using c Some by (simp add: rank_def)
    qed
  qed
  then show ?thesis by (rule acyclicI_order)
qed

lemma queue_okD:
  assumes "queue_ok s"
  shows "distinct (map tk_id (tasks s))" "acyclic (waits_for (tasks s))" "indexes_ok (tasks s)"
proof -
  show 1: "distinct (map tk_id (tasks s))" "indexes_ok (tasks s)" using assms by (auto simp: queue_ok_def indexes_ok_def)
  show "acyclic (waits_for (tasks s))"
    using assms waits_for_acyclic [OF _ 1(1)] by (simp add: queue_ok_def)
qed

text \<open>The dependents of one task are independent of each other\<close>

lemma independent_dependents:
  assumes "distinct (map tk_id (tasks s))" "acyclic (waits_for (tasks s))"
  shows "independent (tasks s) (dependent_ids w s)"
  unfolding independent_def
proof (intro conjI ballI impI)
  show "distinct (dependent_ids w s)" by (rule distinct_dependent_ids [OF assms(1)])
  fix x
  assume x: "x \<in> set (dependent_ids w s)"
  then have wx: "(w, x) \<in> waits_for (tasks s)" by (simp add: dependent_ids_waits)
  then show "queued_in (tasks s) x" by (rule waits_for_queued)
  fix y
  assume y: "y \<in> set (dependent_ids w s)" and path: "(x, y) \<in> (waits_for (tasks s))\<^sup>*"
  then have wy: "(w, y) \<in> waits_for (tasks s)" by (simp add: dependent_ids_waits)
  show "x = y"
  proof (rule ccontr)
    assume "x \<noteq> y"
    then obtain p where p: "(x, p) \<in> (waits_for (tasks s))\<^sup>*" "(p, y) \<in> waits_for (tasks s)"
      using path by (auto elim: rtranclE)
    have "p = w" by (rule waits_for_parent [OF assms(1) p(2) wy])
    then have "(w, w) \<in> (waits_for (tasks s))\<^sup>+" using wx p(1) by (auto intro: rtrancl_into_trancl2)
    then show False using assms(2) by (simp add: acyclic_def)
  qed
qed

lemma finish_row_queued:
  assumes "finish_row [Queued] f w s = Some (t, s1)" "leaves_queue f" "distinct (map tk_id (tasks s))"
  shows "tasks s1 = mark_all f {w} (tasks s)" "tk_id t = w"
proof -
  note out = finish_row_take_out [OF assms(1)]
  have "tk_status t = Queued" if "t \<in> set (tasks s)" "tk_id t = w" for t
    using out(2) that distinct_same_id [OF assms(3)] unfolding queued_in_def by metis
  then show "tasks s1 = mark_all f {w} (tasks s)"
    unfolding out(1) take_out_def mark_all_def by (intro map_cong) auto
  show "tk_id t = w" by (rule finish_rowE [OF assms(1)]) (use leaves_queueD(1) [OF assms(2)] in auto)
qed

lemma mark_all_twice:
  assumes "w \<notin> D" "\<And>t. tk_id (f t) = tk_id t"
  shows "mark_all g D (mark_all f {w} ts) = mark_all (\<lambda>t. if tk_id t = w then f t else g t) (insert w D) ts"
  unfolding mark_all_def map_map using assms by (induction ts) auto

lemma mark_cancelled_queued:
  assumes "mark_cancelled [Queued] who tid now s = Some (ts, s')" "queue_ok s"
  shows "tasks s' = mark_all (\<lambda>t. cancelled_row (if tk_id t = tid then who else ''cascade'') now t)
      (insert tid (dependents_of (tasks s) tid)) (tasks s)"
    and "\<exists>rs. collect_queued_dependents s (queued_dependents tid s) = Some rs \<and> map tk_id ts = tid # map tk_id rs"
    and "queued_in (tasks s) tid"
proof -
  note ok = queue_okD [OF assms(2)]
  let ?E = "waits_for (tasks s)"
  obtain t s1 where fin: "finish_row [Queued] (cancelled_row who now) tid s = Some (t, s1)"
    and ts: "ts = t # fst (cancel_cascade now (dependent_ids tid s1) s1)"
    and s': "s' = snd (cancel_cascade now (dependent_ids tid s1) s1)"
    using assms(1) by (auto simp: mark_cancelled_def split_beta)
  have g: "leaves_queue (cancelled_row who now)" by simp
  note out = finish_row_take_out [OF fin]
  have dist1: "distinct (map tk_id (tasks s1))" using ok(1) unfolding out(1) take_out_ids [OF g] .
  have sub: "waits_for (tasks s1) \<subseteq> ?E" unfolding out(1) waits_for_take_out [OF g] by blast
  have acyc1: "acyclic (waits_for (tasks s1))" using ok(2) sub by (rule acyclic_subset)
  have irr: "(tid, tid) \<notin> ?E\<^sup>+" using ok(2) by (simp add: acyclic_def)
  have same: "queued_dependents tid s1 = queued_dependents tid s"
    using irr by (intro queued_dependents_take_out [OF g out(1)]) auto
  have agree: "queued_dependents i s = queued_dependents i s1" if "i \<in> doomed (tasks s1) (set (dependent_ids tid s1))" for i
  proof (rule queued_dependents_take_out [OF g out(1), symmetric])
    have "i \<in> dependents_of (tasks s1) tid" using that by (simp add: dependent_ids_waits doomed_children)
    then have "(tid, i) \<in> ?E\<^sup>+" using trancl_mono [OF _ sub] by (auto simp: dependents_of_def)
    then show "(i, tid) \<notin> ?E" using irr trancl_into_trancl by metis
  qed
  have rows: "map tk_id (queued_dependents tid s) = dependent_ids tid s1" by (simp add: dependent_ids_def same)
  obtain rs where "collect_queued_dependents s (queued_dependents tid s) = Some rs"
      "map tk_id rs = map tk_id (fst (cancel_cascade now (dependent_ids tid s1) s1))"
    using cancel_order [OF dist1 acyc1 independent_dependents [OF dist1 acyc1] rows ballI [OF agree]] by blast
  then show "\<exists>rs. collect_queued_dependents s (queued_dependents tid s) = Some rs \<and> map tk_id ts = tid # map tk_id rs"
    using finish_row_queued(2) [OF fin g ok(1)] by (simp add: ts)
  show "queued_in (tasks s) tid" by (rule out(2))
  let ?D = "dependents_of (tasks s1) tid"
  have D: "?D = dependents_of (tasks s) tid"
  proof
    show "?D \<subseteq> dependents_of (tasks s) tid" using trancl_mono [OF _ sub] by (auto simp: dependents_of_def)
    show "dependents_of (tasks s) tid \<subseteq> ?D"
    proof
      fix i
      assume "i \<in> dependents_of (tasks s) tid"
      then have "(tid, i) \<in> ?E\<^sup>+" by (simp add: dependents_of_def)
      then have "(tid, i) \<in> (waits_for (tasks s1))\<^sup>+"
      proof (induction rule: trancl_induct)
        case (base c)
        then have "c \<noteq> tid" using irr by blast
        then show ?case using base waits_for_take_out [OF g] out(1) by auto
      next
        case (step p c)
        then have "c \<noteq> tid" using irr trancl_into_trancl by metis
        then have "(p, c) \<in> waits_for (tasks s1)" using step(2) waits_for_take_out [OF g] out(1) by auto
        then show ?case using step(3) by (rule trancl_into_trancl [rotated])
      qed
      then show "i \<in> ?D" by (simp add: dependents_of_def)
    qed
  qed
  have notin: "tid \<notin> dependents_of (tasks s) tid" using irr by (simp add: dependents_of_def)
  have rows': "tasks s' = mark_all (cancelled_row ''cascade'' now) ?D (tasks s1)"
    unfolding s' cancel_cascade_rows [OF dist1] by (simp add: dependent_ids_waits doomed_children)
  show "tasks s' = mark_all (\<lambda>t. cancelled_row (if tk_id t = tid then who else ''cascade'') now t)
      (insert tid (dependents_of (tasks s) tid)) (tasks s)"
    unfolding rows' D unfolding finish_row_queued(1) [OF fin g ok(1)]
    by (subst mark_all_twice [OF notin leaves_queueD(1) [OF g]], rule arg_cong [where f = "\<lambda>h. mark_all h _ _"])
      (simp add: fun_eq_iff)
qed

section \<open>A small queue\<close>

definition demo_request :: "string \<Rightarrow> string option \<Rightarrow> enqueue_request" where
  "demo_request resource dep = \<lparr>rq_project = ''p'', rq_type = ''video'', rq_media = ''video'', rq_resource = resource,
     rq_payload = ''{}'', rq_script = Some ''s'', rq_resource_type = None, rq_source = ''webui'', rq_dependency = dep,
     rq_dependency_group = None, rq_dependency_index = None, rq_user = ''u'', rq_provider = Some ''v'',
     rq_batch = None, rq_batch_unit = None, rq_batch_units = []\<rparr>"

definition demo_running :: task where
  "demo_running = (new_task ''a'' 1 (demo_request ''r1'' None))\<lparr>tk_status := Running, tk_started_at := Some 5\<rparr>"

definition demo_queue :: repo where
  "demo_queue = \<lparr>tasks = [demo_running, new_task ''b'' 2 (demo_request ''r2'' (Some ''a'')),
       new_task ''c'' 3 (demo_request ''r3'' (Some ''b'')), new_task ''d'' 4 (demo_request ''r4'' None)],
     batches = [], memberships = [], leases = [], api_calls = [], terminal_events = []\<rparr>"

lemmas demo_queue_eval = demo_queue_def demo_running_def demo_request_def new_task_def

lemma demo_queue_ok: "queue_ok demo_queue"
  by (simp add: queue_ok_def indexes_ok_def dependencies_first_def dependencies_ordered_def times_ok_def reported_def
      references_ok_def leases_ok_def dedupe_key_def coalesce_def dependency_met_def demo_queue_eval All_less_Suc
      numeral_eq_Suc)

section \<open>Properties\<close>

text \<open>
  Property C8: the operations of the repository, in any order and with stale reads, only do what
  single statements do: every run from a database with intact indexes is a sequence of steps.
\<close>

theorem runs_refine_steps:
  assumes "runs bound blocked failure_code s s'" "indexes_ok (tasks s)"
  shows "queue_steps s s'"
  using assms by (rule runs_refine)

text \<open>
  Property C9: in every database the operations reach from the empty one, IDs are unique, at most one
  active task has a deduplication key, a task runs or holds a provider job only after the task it
  depends on succeeded, times agree with states, every finished task has been reported, and batch
  members refer to batches and tasks that exist, one per unit of a batch.
\<close>

theorem reachable_queue_ok:
  assumes "runs bound blocked failure_code empty_repo s"
  shows "distinct (map tk_id (tasks s)) \<and> distinct (map dedupe_key (filter active (tasks s)))
    \<and> dependencies_first s \<and> times_ok s \<and> reported s \<and> references_ok s \<and> leases_ok s"
  using runs_queue_ok [OF assms empty_queue_ok] by (simp add: queue_ok_def indexes_ok_def del: status_simps)

definition demo_enqueued :: repo where
  "demo_enqueued = empty_repo\<lparr>tasks := [new_task ''a'' 1 (demo_request ''r1'' None)]\<rparr>"

lemma demo_first_enqueue:
  "enqueue None ''a'' 1 (demo_request ''r1'' None) empty_repo
     = Inr (\<lparr>er_task = ''a'', er_status = Queued, er_deduped = False, er_existing = None, er_existing_payload = None\<rparr>, demo_enqueued)"
  by (simp add: enqueue_def check_batch_def flush_task_def insert_task_def batch_unit_ids_def indexes_ok_def
      demo_enqueued_def demo_request_def new_task_def empty_repo_def)

lemma demo_run_once: "runs bound blocked failure_code empty_repo demo_enqueued"
  by (rule runs.enqueue [OF runs.start _ demo_first_enqueue]) (simp add: fresh_id_def empty_repo_def demo_request_def)

theorem runs_refine_steps_witness: "queue_steps empty_repo demo_enqueued"
  by (rule runs_refine_steps [OF demo_run_once [of id "\<lambda>_. id" "\<lambda>_. None"]]) (simp add: empty_repo_def indexes_ok_def)

theorem reachable_queue_ok_witness: "times_ok demo_enqueued \<and> tasks demo_enqueued \<noteq> []"
  using reachable_queue_ok [OF demo_run_once [of id "\<lambda>_. id" "\<lambda>_. None"]] by (simp add: demo_enqueued_def)










text \<open>A cancelled task that is written late: as succeeded, as failed, as cancelled, and its provider\<close>

definition demo_cancelled_row :: task where
  "demo_cancelled_row = (new_task ''x'' 9 (demo_request ''r9'' None))\<lparr>tk_status := Cancelled, tk_finished_at := Some 9\<rparr>"

definition demo_cancelled :: repo where
  "demo_cancelled = demo_queue\<lparr>tasks := tasks demo_queue @ [demo_cancelled_row]\<rparr>"




text \<open>
  Property C11: a claim that returns a task took the oldest queued task the worker may run: that one was
  claimable and no claimable task was queued earlier, it was still queued when the update ran, and only
  its row changed.
\<close>

theorem claim_takes_oldest:
  assumes "indexes_ok (tasks s1)" "claim_next media full excluded now s0 s1 = Some (t, s2)"
  shows "(\<exists>u \<in> set (tasks s0). tk_id u = tk_id t \<and> claimable media full excluded s0 u
      \<and> (\<forall>v \<in> set (tasks s0). claimable media full excluded s0 v \<longrightarrow> tk_queued_at u \<le> tk_queued_at v))
    \<and> queued_in (tasks s1) (tk_id t)
    \<and> tasks s2 = mark_all (\<lambda>u. u\<lparr>tk_status := Running, tk_started_at := Some now, tk_updated_at := now\<rparr>) {tk_id t} (tasks s1)"
proof -
  obtain tid where sel: "claim_select media full excluded s0 = Some tid" and upd: "claim_update tid now s1 = Some (t, s2)"
    using assms(2) by (auto simp: claim_next_def bind_eq_Some_conv)
  let ?P = "\<lambda>t. tk_id t = tid \<and> tk_status t = Queued"
  let ?f = "\<lambda>u. u\<lparr>tk_status := Running, tk_started_at := Some now, tk_updated_at := now\<rparr>"
  have s2: "s2 = update_tasks ?P ?f s1" and ex: "\<exists>u \<in> set (tasks s1). ?P u" and t: "find_task tid s2 = Some t"
    using upd by (auto simp: claim_update_def Let_def matching_0 split: if_splits)
  have id: "tk_id t = tid" using find_task_SomeD [OF t] by simp
  obtain u where u: "u \<in> set (tasks s1)" "?P u" using ex by blast
  have only: "?P v" if "v \<in> set (tasks s1)" "tk_id v = tid" for v
    using distinct_same_id [of "tasks s1" v u] assms(1) u that by (simp add: indexes_ok_def)
  have "tasks s2 = mark_all ?f {tid} (tasks s1)"
    unfolding s2 mark_all_def update_tasks_simps using only by (intro map_cong) auto
  moreover have "queued_in (tasks s1) tid" using u by (auto simp: queued_in_def)
  moreover have "\<exists>u \<in> set (tasks s0). tk_id u = tid \<and> claimable media full excluded s0 u
      \<and> (\<forall>v \<in> set (tasks s0). claimable media full excluded s0 v \<longrightarrow> tk_queued_at u \<le> tk_queued_at v)"
    by (rule claim_selectD [OF sel]) blast
  ultimately show ?thesis unfolding id by blast
qed

lemma demo_claim:
  "claim_next ''video'' {} {} 7 demo_queue demo_queue = Some ((new_task ''d'' 4 (demo_request ''r4'' None))
     \<lparr>tk_status := Running, tk_started_at := Some 7, tk_updated_at := 7\<rparr>,
     demo_queue\<lparr>tasks := take 3 (tasks demo_queue) @ [(new_task ''d'' 4 (demo_request ''r4'' None))
     \<lparr>tk_status := Running, tk_started_at := Some 7, tk_updated_at := 7\<rparr>]\<rparr>)"
  by (simp add: claim_next_def claim_select_def claimable_def dependency_met_def claim_update_def Let_def matching_def
      update_tasks_def find_task_def demo_queue_eval)

theorem claim_takes_oldest_witness: "queued_in (tasks demo_queue) ''d''"
  using claim_takes_oldest [OF queue_okD(3) [OF demo_queue_ok] demo_claim] by (simp add: new_task_def)

text \<open>
  Property C12: failing a running task fails exactly the queued tasks that wait for it, directly or
  through other queued tasks, each with a reason naming the task it waited for; every other row is
  untouched, and no queued task waits for the failed one afterwards.
\<close>

theorem failure_takes_dependents:
  assumes "mark_failed bound blocked tid message now s = (n, s')" "n \<noteq> 0" "queue_ok s"
  shows "tasks s' = mark_all (\<lambda>t. if tk_id t = tid then failed_row (bound message) now t
        else failed_row (bound (blocked (the (tk_dependency t)) message)) now t)
      (insert tid (dependents_of (tasks s) tid)) (tasks s)
    \<and> dependents_of (tasks s') tid = {}"
  using mark_failed_rows [OF assms(1,2) queue_okD(1) [OF assms(3)]] by blast

lemma demo_fails: "\<exists>s'. mark_failed id (\<lambda>p m. p @ m) ''a'' ''boom'' 9 demo_queue = (1, s') \<and> map tk_status (tasks s') = [Failed, Failed, Failed, Queued]"
  by (simp add: mark_failed_def mark_failed_running_def mark_failed_queued_dep_def finish_row_def Let_def matching_def
      find_task_def update_tasks_def failed_row_def dependent_ids_def queued_dependents_def record_terminal_event_def
      event_of_def demo_queue_eval)

theorem failure_takes_dependents_witness:
  "\<exists>s'. mark_failed id (\<lambda>p m. p @ m) ''a'' ''boom'' 9 demo_queue = (1, s') \<and> dependents_of (tasks s') ''a'' = {}"
proof -
  obtain s' where run: "mark_failed id (\<lambda>p m. p @ m) ''a'' ''boom'' 9 demo_queue = (1, s')" using demo_fails by blast
  have "dependents_of (tasks s') ''a'' = {}"
    by (rule conjunct2 [OF failure_takes_dependents [OF run _ demo_queue_ok]]) simp
  with run show ?thesis by blast
qed

text \<open>
  Property C13: cancelling a queued task does what its preview announces.  The preview returns, the
  cancelled tasks are the task itself and then the announced ones in the same order, and exactly the
  rows of the task and of the queued tasks that wait for it are cancelled, when nobody writes between the
  preview, the read and the update.
\<close>

theorem cancel_does_preview:
  assumes "cancel_task tid now s s = Inr (r, s')" "queue_ok s" "find_task tid s = Some t" "tk_status t = Queued"
  shows "(\<exists>ts. get_cancel_preview tid s = Some (Inr (t, ts)) \<and> map tk_id (cr_cancelled r) = tid # map tk_id ts)
    \<and> tasks s' = mark_all (\<lambda>t. cancelled_row (if tk_id t = tid then ''user'' else ''cascade'') now t)
        (insert tid (dependents_of (tasks s) tid)) (tasks s)"
proof -
  obtain ts where ts: "mark_cancelled [Queued] ''user'' tid now s = Some (ts, s')" "cr_cancelled r = ts"
    using assms by (auto simp: cancel_task_def split: option.splits)
  from mark_cancelled_queued [OF ts(1) assms(2)] show ?thesis
    using assms(3,4) ts(2) by (auto simp: get_cancel_preview_def)
qed

lemma demo_cancels: "\<exists>r s'. cancel_task ''b'' 9 demo_queue demo_queue = Inr (r, s') \<and> map tk_id (cr_cancelled r) = [''b'', ''c'']"
  by (simp add: cancel_task_def mark_cancelled_def finish_row_def Let_def matching_def
      find_task_def update_tasks_def cancelled_row_def dependent_ids_def queued_dependents_def record_terminal_event_def
      event_of_def demo_queue_eval)

theorem cancel_does_preview_witness:
  "\<exists>t ts. get_cancel_preview ''b'' demo_queue = Some (Inr (t, ts)) \<and> map tk_id ts = [''c'']"
proof -
  obtain r s' where run: "cancel_task ''b'' 9 demo_queue demo_queue = Inr (r, s')" "map tk_id (cr_cancelled r) = [''b'', ''c'']"
    using demo_cancels by (elim exE conjE)
  have "find_task ''b'' demo_queue = Some (new_task ''b'' 2 (demo_request ''r2'' (Some ''a'')))"
    by (simp add: find_task_def demo_queue_eval)
  from cancel_does_preview [OF run(1) demo_queue_ok this] run(2) show ?thesis by (auto simp: new_task_def)
qed

text \<open>
  The preview of a cancellation always returns: dependencies of queued tasks form no cycle.
\<close>

theorem preview_terminates:
  assumes "queue_ok s"
  shows "\<exists>r. get_cancel_preview tid s = Some r"
proof -
  note ok = queue_okD [OF assms]
  obtain rs where "collect_queued_dependents s (queued_dependents tid s) = Some rs"
    using cancel_order [OF ok(1,2) independent_dependents [OF ok(1,2)], of "queued_dependents tid s" tid s]
    by (auto simp: dependent_ids_def)
  then show ?thesis by (cases "find_task tid s") (auto simp: get_cancel_preview_def)
qed

theorem preview_terminates_witness: "\<exists>r. get_cancel_preview ''b'' demo_queue = Some r"
  by (rule preview_terminates [OF demo_queue_ok])

text \<open>
  Enqueueing either adds the new task, last and queued, when no active task has its
  deduplication key, or adds nothing and returns the active task that has it; without a batch it
  fails only when the caller's guard rejects that active task or the ID is taken.
\<close>

theorem enqueue_dedupes:
  assumes "queue_ok s" "i \<notin> tk_id ` set (tasks s)" "rq_batch r = None" "batch_unit_ids r = []"
  shows "(if \<exists>t \<in> set (tasks s). active t \<and> dedupe_key t = dedupe_key (new_task i now r)
     then (\<exists>t \<in> set (tasks s). active t \<and> dedupe_key t = dedupe_key (new_task i now r)
        \<and> enqueue guard i now r s =
            (if (case guard of None \<Rightarrow> True | Some g \<Rightarrow> g (tk_payload t) (tk_id t))
             then Inr (\<lparr>er_task = tk_id t, er_status = tk_status t, er_deduped = True, er_existing = Some (tk_id t),
                er_existing_payload = Some (tk_payload t)\<rparr>, s)
             else Inl (ActiveRequestConflict (tk_id t))))
     else enqueue guard i now r s = Inr (\<lparr>er_task = i, er_status = Queued, er_deduped = False, er_existing = None,
            er_existing_payload = None\<rparr>, s\<lparr>tasks := tasks s @ [new_task i now r]\<rparr>))"
proof (cases "\<exists>t \<in> set (tasks s). active t \<and> dedupe_key t = dedupe_key (new_task i now r)")
  case True
  then obtain t0 where t0: "t0 \<in> set (tasks s)" "active t0" "dedupe_key t0 = dedupe_key (new_task i now r)" by blast
  then have "\<not> indexes_ok (tasks s @ [new_task i now r])"
    by (auto simp: indexes_ok_def image_iff new_task_def)
  moreover have "active_twin r s \<noteq> None"
  proof -
    have "active_dedupe_clauses (rq_project r) (rq_user r) (rq_type r) (rq_script r) (rq_resource_type r) t0
        \<and> tk_resource t0 = rq_resource r"
      using t0(2,3) by (simp add: active_dedupe_clauses_def dedupe_key_def new_task_def)
    then have "filter (\<lambda>t. active_dedupe_clauses (rq_project r) (rq_user r) (rq_type r) (rq_script r) (rq_resource_type r) t
        \<and> tk_resource t = rq_resource r) (tasks s) \<noteq> []"
      using t0(1) by (auto simp: filter_empty_conv)
    then show ?thesis
      by (auto simp: active_twin_def split: list.splits dest!: arg_cong [where f = set] simp del: set_filter)
  qed
  ultimately obtain t where t: "active_twin r s = Some t" "insert_task (new_task i now r) s = Inl IntegrityError"
    by (auto simp: insert_task_def)
  have "enqueue guard i now r s = (if (case guard of None \<Rightarrow> True | Some g \<Rightarrow> g (tk_payload t) (tk_id t))
      then Inr (\<lparr>er_task = tk_id t, er_status = tk_status t, er_deduped = True, er_existing = Some (tk_id t),
          er_existing_payload = Some (tk_payload t)\<rparr>, s) else Inl (ActiveRequestConflict (tk_id t)))"
    using assms(3,4) t by (simp add: enqueue_def check_batch_def flush_task_def)
  with True active_twinD [OF t(1)] show ?thesis unfolding if_P [OF True] by blast
next
  case False
  have "insert_task (new_task i now r) s = Inr (s\<lparr>tasks := tasks s @ [new_task i now r]\<rparr>)"
    using False assms(2) queue_okD(3) [OF assms(1)]
    by (auto simp: insert_task_def indexes_ok_def image_iff new_task_def)
  then show ?thesis
    unfolding if_not_P [OF False] using assms(3,4) by (simp add: enqueue_def check_batch_def flush_task_def)
qed

theorem enqueue_dedupes_witness:
  "enqueue None ''e'' 9 (demo_request ''r2'' None) demo_queue = Inr (\<lparr>er_task = ''b'', er_status = Queued, er_deduped = True,
     er_existing = Some ''b'', er_existing_payload = Some ''{}''\<rparr>, demo_queue)"
  using enqueue_dedupes [OF demo_queue_ok, of "''e''" "demo_request ''r2'' None" 9 None]
  by (simp add: demo_queue_eval batch_unit_ids_def dedupe_key_def coalesce_def)

section \<open>Tasks that never start, and retries\<close>

text \<open>
  Enqueueing does not look at the state of the dependency.  A task enqueued with a
  cancelled dependency is accepted, and after any further run no claim can select it: it stays
  queued until it is cancelled.
\<close>

theorem cancelled_dependency_never_starts:
  assumes "queue_ok s" "d \<in> set (tasks s)" "tk_status d = Cancelled" "fresh_id i r s"
    and "rq_dependency r = Some (tk_id d)" "rq_batch r = None" "batch_unit_ids r = []"
    and "\<forall>t \<in> set (tasks s). active t \<longrightarrow> dedupe_key t \<noteq> dedupe_key (new_task i now r)"
  shows "\<exists>s1. enqueue guard i now r s = Inr (\<lparr>er_task = i, er_status = Queued, er_deduped = False,
        er_existing = None, er_existing_payload = None\<rparr>, s1)
    \<and> (\<forall>s2. runs bound blocked failure_code s1 s2 \<longrightarrow> claim_select media full excluded s2 \<noteq> Some i)"
proof -
  define s1 where "s1 = s\<lparr>tasks := tasks s @ [new_task i now r]\<rparr>"
  have i: "i \<notin> tk_id ` set (tasks s)" using assms(4) by (simp add: fresh_id_def)
  have ins: "insert_task (new_task i now r) s = Inr s1"
    using assms(8) i queue_okD(3) [OF assms(1)]
    by (auto simp: insert_task_def indexes_ok_def image_iff new_task_def s1_def)
  then have enq: "enqueue guard i now r s = Inr (\<lparr>er_task = i, er_status = Queued, er_deduped = False,
        er_existing = None, er_existing_payload = None\<rparr>, s1)"
    using assms(6,7) by (simp add: enqueue_def check_batch_def flush_task_def)
  have ok1: "indexes_ok (tasks s1)" using ins by (auto simp: insert_task_def s1_def split: if_splits)
  have "claim_select media full excluded s2 \<noteq> Some i" if run: "runs bound blocked failure_code s1 s2" for s2
  proof
    assume "claim_select media full excluded s2 = Some i"
    then obtain u where u: "u \<in> set (tasks s2)" "tk_id u = i" "claimable media full excluded s2 u"
      by (rule claim_selectD)
    note steps = runs_refine [OF run ok1]
    have ok2: "distinct (map tk_id (tasks s2))"
      using indexes.steps [OF steps ok1] by (simp add: indexes_ok_def)
    have "tk_dependency u = tk_dependency (new_task i now r)"
      by (rule same_row(1) [OF ok2 steps _ u(1)]) (simp_all add: s1_def u(2) new_task_def)
    then have dep: "tk_dependency u = Some (tk_id d)" using assms(5) by (simp add: new_task_def)
    then obtain e where e: "e \<in> set (tasks s2)" "tk_id e = tk_id d" "tk_status e = Succeeded"
      using u(3) by (auto simp: claimable_def dependency_met_iff)
    have "\<exists>t \<in> set (tasks s2). tk_id t = tk_id d \<and> tk_status t = Cancelled \<and> Cancelled \<in> {Succeeded, Cancelled}"
      by (rule final.steps [OF steps]) (use assms(2,3) in \<open>auto simp: s1_def\<close>)
    then obtain f where "f \<in> set (tasks s2)" "tk_id f = tk_id d" "tk_status f = Cancelled" by blast
    then show False using distinct_same_id [OF ok2 e(1)] e by auto
  qed
  with enq show ?thesis by blast
qed

lemma demo_cancelled_ok: "queue_ok (demo_cancelled\<lparr>terminal_events := [event_of (tasks demo_cancelled ! 4) Cancelled]\<rparr>)"
  by (simp add: queue_ok_def indexes_ok_def dependencies_first_def dependencies_ordered_def times_ok_def reported_def
      references_ok_def leases_ok_def dedupe_key_def coalesce_def dependency_met_def demo_cancelled_def demo_cancelled_row_def demo_queue_eval
      All_less_Suc numeral_eq_Suc)

theorem cancelled_dependency_never_starts_witness:
  "\<exists>s1. enqueue None ''z'' 10 (demo_request ''r10'' (Some ''x''))
      (demo_cancelled\<lparr>terminal_events := [event_of (tasks demo_cancelled ! 4) Cancelled]\<rparr>)
    = Inr (\<lparr>er_task = ''z'', er_status = Queued, er_deduped = False, er_existing = None, er_existing_payload = None\<rparr>, s1)"
proof -
  let ?s = "demo_cancelled\<lparr>terminal_events := [event_of (tasks demo_cancelled ! 4) Cancelled]\<rparr>"
  have "tasks demo_cancelled ! 4 \<in> set (tasks ?s)" "tk_status (tasks demo_cancelled ! 4) = Cancelled"
    "fresh_id ''z'' (demo_request ''r10'' (Some ''x'')) ?s" "rq_dependency (demo_request ''r10'' (Some ''x'')) = Some (tk_id (tasks demo_cancelled ! 4))"
    "rq_batch (demo_request ''r10'' (Some ''x'')) = None" "batch_unit_ids (demo_request ''r10'' (Some ''x'')) = []"
    "\<forall>t \<in> set (tasks ?s). active t \<longrightarrow> dedupe_key t \<noteq> dedupe_key (new_task ''z'' 10 (demo_request ''r10'' (Some ''x'')))"
    by (simp_all add: demo_cancelled_def demo_cancelled_row_def demo_queue_eval fresh_id_def batch_unit_ids_def dedupe_key_def coalesce_def
        numeral_eq_Suc)
  from cancelled_dependency_never_starts [OF demo_cancelled_ok this, of None id "\<lambda>_. id" "\<lambda>_. None" "''video''" "{}" "{}"]
  show ?thesis by blast
qed

text \<open>
  Property C14: a retry of a failed download puts the task back to running exactly when no other active
  task has its deduplication key; otherwise the index of active tasks refuses the update and the
  retry raises \<open>IntegrityError\<close>, not the error of a task that cannot be retried.
\<close>

theorem retry_needs_free_key:
  assumes "queue_ok s" "find_task tid s = Some t" "retry_eligible failure_code t" "latest_call tid s \<noteq> None"
  shows "if \<exists>u \<in> set (tasks s). active u \<and> dedupe_key u = dedupe_key t
    then retry_artifact_download failure_code tid now s = Inl IntegrityError
    else (\<exists>u s'. retry_artifact_download failure_code tid now s = Inr (u, s') \<and> tk_id u = tid \<and> tk_status u = Running
      \<and> tasks s' = mark_all (rerun_row now) {tid} (tasks s))"
proof -
  let ?P = "\<lambda>t. tk_id t = tid \<and> tk_status t = Failed"
  let ?f = "rerun_row now"
  let ?ts = "map (\<lambda>t. if ?P t then ?f t else t) (tasks s)"
  note dist = queue_okD(1) [OF assms(1)]
  have t: "t \<in> set (tasks s)" "tk_id t = tid" "tk_status t = Failed"
    using find_task_SomeD [OF assms(2)] assms(3) by (auto simp: retry_eligible_def)
  have only: "u = t" if "u \<in> set (tasks s)" "tk_id u = tid" for u using distinct_same_id [OF dist that(1) t(1)] that t by simp
  have rows: "?ts = mark_all ?f {tid} (tasks s)"
    unfolding mark_all_def using only t(3) by (intro map_cong) auto
  have ids: "map tk_id ?ts = map tk_id (tasks s)" by simp
  obtain us vs where split: "tasks s = us @ t # vs" using t(1) by (meson split_list)
  have others: "tk_id u \<noteq> tid" if "u \<in> set us \<union> set vs" for u
    using dist that t(2) unfolding split by (auto simp: image_iff)
  have "map (\<lambda>t. if ?P t then ?f t else t) us = us" "map (\<lambda>t. if ?P t then ?f t else t) vs = vs"
    using others by (auto intro!: map_idI)
  then have ts: "?ts = us @ ?f t # vs" unfolding split using t by simp
  have keys: "indexes_ok ?ts \<longleftrightarrow> \<not> (\<exists>u \<in> set (tasks s). active u \<and> dedupe_key u = dedupe_key t)"
  proof -
    have "dedupe_key (?f t) = dedupe_key t" by simp
    then show ?thesis
      using queue_okD(3) [OF assms(1)] t(3) ids unfolding indexes_ok_def ts
      by (auto simp: split image_iff)
  qed
  obtain call where call: "latest_call tid s = Some call" using assms(4) by blast
  let ?s = "update_tasks ?P ?f (reopen_call call s)"
  have run: "retry_artifact_download failure_code tid now s =
      (if \<not> indexes_ok ?ts then Inl IntegrityError
       else case find_task tid ?s of Some u \<Rightarrow> Inr (u, ?s) | None \<Rightarrow> Inl (NotEligible tid))"
    using assms(2,3) call by (simp add: retry_artifact_download_def Let_def)
  show ?thesis
  proof (cases "indexes_ok ?ts")
    case True
    have "?f t \<in> set (tasks ?s)" "tk_id (?f t) = tid" using t by (auto intro: image_eqI [of _ _ t])
    moreover have "distinct (map tk_id (tasks ?s))" using dist ids by (simp only: update_tasks_simps reopen_call_simps)
    ultimately have "find_task tid ?s = Some (?f t)" by (simp add: find_task_iff)
    then have "retry_artifact_download failure_code tid now s = Inr (?f t, ?s)"
      unfolding run using True by simp
    moreover have "tasks ?s = mark_all ?f {tid} (tasks s)" using rows by (simp only: update_tasks_simps reopen_call_simps)
    ultimately show ?thesis using True keys t(2) by auto
  next
    case False
    then have "\<exists>u \<in> set (tasks s). active u \<and> dedupe_key u = dedupe_key t" using keys by blast
    then show ?thesis unfolding run if_P [OF False] by (simp only: if_True)
  qed
qed

definition demo_downloads :: repo where
  "demo_downloads = \<lparr>tasks = [(new_task ''a'' 1 (demo_request ''r1'' None))\<lparr>tk_status := Failed, tk_error := Some ''x'',
        tk_job := Some ''j'', tk_started_at := Some 2, tk_finished_at := Some 3\<rparr>, new_task ''b'' 4 (demo_request ''r1'' None)],
     batches = [], memberships = [], leases = [],
     api_calls = [\<lparr>ac_id = 1, ac_task = Some ''a'', ac_status = CallFailed, ac_finished_at = Some 3, ac_error = None, ac_error_code = None\<rparr>],
     terminal_events = [\<lparr>ev_task = ''a'', ev_project = ''p'', ev_status = Failed, ev_type = ''video''\<rparr>]\<rparr>"

lemma demo_downloads_ok: "queue_ok demo_downloads"
  by (simp add: queue_ok_def indexes_ok_def dependencies_first_def dependencies_ordered_def times_ok_def reported_def
      references_ok_def leases_ok_def dedupe_key_def coalesce_def dependency_met_def demo_downloads_def demo_request_def
      new_task_def event_of_def All_less_Suc numeral_eq_Suc)

theorem retry_needs_free_key_witness:
  "retry_artifact_download (\<lambda>_. Some ''artifact_download_failed'') ''a'' 9 demo_downloads = Inl IntegrityError"
proof -
  let ?t = "tasks demo_downloads ! 0"
  have "find_task ''a'' demo_downloads = Some ?t" "retry_eligible (\<lambda>_. Some ''artifact_download_failed'') ?t"
    "latest_call ''a'' demo_downloads \<noteq> None"
    by (simp_all add: find_task_def retry_eligible_def latest_call_def settleable_call_def demo_downloads_def new_task_def
        demo_request_def coalesce_def)
  from retry_needs_free_key [OF demo_downloads_ok this, of 9] show ?thesis
    by (simp add: demo_downloads_def new_task_def demo_request_def dedupe_key_def coalesce_def)
qed

section \<open>The worker lease and the task list\<close>

text \<open>Calls on a lease by other workers, with the time of each\<close>

datatype lease_call = Acquire string rat rat | Release string

fun lease_run :: "string \<Rightarrow> lease_call list \<Rightarrow> repo \<Rightarrow> bool list \<times> repo" where
  "lease_run name [] s = ([], s)"
| "lease_run name (Acquire owner ttl now_epoch # cs) s =
     (let (ok, s1) = acquire_or_renew_lease name owner ttl now_epoch 0 s; (oks, s2) = lease_run name cs s1 in (ok # oks, s2))"
| "lease_run name (Release owner # cs) s = lease_run name cs (release_lease name owner s)"

definition lease_of :: "string \<Rightarrow> string \<Rightarrow> rat \<Rightarrow> repo \<Rightarrow> bool" where
  "lease_of name owner until s \<longleftrightarrow> leases_ok s \<and> (\<exists>l \<in> set (leases s). wl_name l = name \<and> wl_owner l = owner \<and> wl_until l = until)"

fun by_others :: "string \<Rightarrow> rat \<Rightarrow> lease_call \<Rightarrow> bool" where
  "by_others owner until (Acquire o' ttl now_epoch) \<longleftrightarrow> o' \<noteq> owner \<and> now_epoch < until"
| "by_others owner until (Release o') \<longleftrightarrow> o' \<noteq> owner"

lemma same_lease: "leases_ok s \<Longrightarrow> l \<in> set (leases s) \<Longrightarrow> m \<in> set (leases s) \<Longrightarrow> wl_name l = wl_name m \<Longrightarrow> l = m"
  unfolding leases_ok_def distinct_map by (blast dest: inj_onD)

lemma lease_refused:
  assumes "lease_of name owner until s" "o' \<noteq> owner" "now_epoch < until"
  shows "acquire_or_renew_lease name o' ttl now_epoch u s = (False, s)"
proof -
  obtain l where l: "l \<in> set (leases s)" "wl_name l = name" "wl_owner l = owner" "wl_until l = until" and ok: "leases_ok s"
    using assms(1) by (auto simp: lease_of_def)
  have "\<not> (wl_name m = name \<and> (wl_owner m = o' \<or> wl_until m \<le> now_epoch))" if m: "m \<in> set (leases s)" for m
  proof
    assume asm: "wl_name m = name \<and> (wl_owner m = o' \<or> wl_until m \<le> now_epoch)"
    then have "wl_name m = wl_name l" using l(2) by simp
    then have "m = l" by (rule same_lease [OF ok m l(1)])
    then show False using asm l(3,4) assms(2,3) by simp
  qed
  then have "\<not> list_ex (\<lambda>m. wl_name m = name \<and> (wl_owner m = o' \<or> wl_until m \<le> now_epoch)) (leases s)"
    unfolding list_ex_iff by blast
  moreover have "list_ex (\<lambda>m. wl_name m = name) (leases s)" using l by (auto simp: list_ex_iff)
  ultimately show ?thesis by (simp add: acquire_or_renew_lease_def Let_def)
qed

lemma lease_kept:
  assumes "lease_of name owner until s" "o' \<noteq> owner"
  shows "lease_of name owner until (release_lease name o' s)"
  using assms by (auto simp: lease_of_def release_lease_def leases_ok_def distinct_map_filter)

lemma lease_run_others:
  assumes "lease_of name owner until s" "list_all (by_others owner until) cs"
  shows "lease_of name owner until (snd (lease_run name cs s)) \<and> True \<notin> set (fst (lease_run name cs s))"
  using assms
proof (induction name cs s rule: lease_run.induct)
  case (2 name o' ttl now_epoch cs s)
  then have refused: "acquire_or_renew_lease name o' ttl now_epoch 0 s = (False, s)" by (simp add: lease_refused)
  have "lease_of name owner until (snd (lease_run name cs s)) \<and> True \<notin> set (fst (lease_run name cs s))"
    using 2 refused by (intro "2.IH" [OF refused [symmetric] refl]) simp_all
  then show ?case by (simp add: refused split_beta)
qed (simp_all add: lease_kept)

text \<open>
  The lease is exclusive.  A worker that acquired it keeps it until it expires: whatever
  other workers try before that, every attempt is refused and the row still names the holder.
\<close>

theorem lease_exclusive:
  assumes "leases_ok s" "acquire_or_renew_lease name owner ttl now_epoch u s = (True, s1)"
    and "list_all (by_others owner (now_epoch + max 1 ttl)) cs"
  shows "True \<notin> set (fst (lease_run name cs s1)) \<and> lease_of name owner (now_epoch + max 1 ttl) (snd (lease_run name cs s1))"
proof -
  let ?P = "\<lambda>l. wl_name l = name \<and> (wl_owner l = owner \<or> wl_until l \<le> now_epoch)"
  have "queue_step s s1" by (rule queue_step.lease [of name owner ttl now_epoch u]) (simp add: assms(2))
  then have "leases_ok s1" by (rule lease_names.step [OF assms(1)])
  moreover have "\<exists>l \<in> set (leases s1). wl_name l = name \<and> wl_owner l = owner \<and> wl_until l = now_epoch + max 1 ttl"
  proof (cases "list_ex ?P (leases s)")
    case True
    then obtain l where "l \<in> set (leases s)" "?P l" by (auto simp: list_ex_iff)
    let ?f = "\<lambda>l. l\<lparr>wl_owner := owner, wl_until := now_epoch + max 1 ttl, wl_updated_at := u\<rparr>"
    have "leases s1 = map (\<lambda>l. if ?P l then ?f l else l) (leases s)"
      using assms(2) True by (auto simp: acquire_or_renew_lease_def Let_def)
    then have "?f l \<in> set (leases s1)" using \<open>l \<in> set (leases s)\<close> \<open>?P l\<close> by (auto intro!: image_eqI [of _ _ l])
    then show ?thesis using \<open>?P l\<close> by (intro bexI [of _ "?f l"]) simp_all
  next
    case False
    then show ?thesis using assms(2) by (auto simp: acquire_or_renew_lease_def Let_def split: if_splits)
  qed
  ultimately have "lease_of name owner (now_epoch + max 1 ttl) s1" by (simp add: lease_of_def)
  from lease_run_others [OF this assms(3)] show ?thesis by blast
qed

theorem lease_exclusive_witness:
  "fst (lease_run ''w'' [Acquire ''B'' 10 3, Release ''B'', Acquire ''C'' 10 9] (snd (acquire_or_renew_lease ''w'' ''A'' 10 0 0 empty_repo)))
     = [False, False]"
proof -
  let ?s = "snd (acquire_or_renew_lease ''w'' ''A'' 10 0 0 empty_repo)"
  let ?cs = "[Acquire ''B'' 10 3, Release ''B'', Acquire ''C'' 10 9]"
  have "leases_ok empty_repo" "acquire_or_renew_lease ''w'' ''A'' 10 0 0 empty_repo = (True, ?s)"
    "list_all (by_others ''A'' (0 + max 1 10)) ?cs"
    by (simp_all add: leases_ok_def empty_repo_def acquire_or_renew_lease_def Let_def)
  from lease_exclusive [OF this] have "True \<notin> set (fst (lease_run ''w'' ?cs ?s))" by blast
  moreover have "length (fst (lease_run ''w'' ?cs ?s)) = 2" by (simp add: split_beta)
  ultimately show ?thesis by (auto simp: numeral_2_eq_2 length_Suc_conv)
qed

lemma concat_pages: "concat (map (\<lambda>p. take n (drop ((p - 1) * n) xs)) [1..<Suc k]) = take (k * n) xs"
proof (induction k)
  case (Suc k)
  have "concat (map (\<lambda>p. take n (drop ((p - 1) * n) xs)) [1..<Suc (Suc k)]) = take (k * n) xs @ take n (drop (k * n) xs)"
    using Suc by simp
  also have "\<dots> = take (k * n + n) xs" by (rule take_add [symmetric])
  also have "k * n + n = Suc k * n" by simp
  finally show ?case .
qed simp

text \<open>
  The pages of the task list partition it.  With pages of \<open>n\<close> tasks, as many pages as the
  reported total needs contain, one after the other, exactly the tasks that pass the filters, latest
  update first.
\<close>

theorem pages_partition:
  assumes "1 \<le> n" "n \<le> 500" "pg_total (list_tasks f 1 (int n) s) \<le> k * n"
  shows "concat (map (\<lambda>p. pg_items (list_tasks f (int p) (int n) s)) [1..<Suc k]) =
    sort_key (\<lambda>t. (- tk_updated_at t, - tk_queued_at t)) (filter (passes f) (tasks s))"
proof -
  let ?xs = "sort_key (\<lambda>t. (- tk_updated_at t, - tk_queued_at t)) (filter (passes f) (tasks s))"
  have size: "max 1 (min 500 (int n)) = int n" using assms(1,2) by simp
  have page: "pg_items (list_tasks f (int p) (int n) s) = take n (drop ((p - 1) * n) ?xs)" if "1 \<le> p" for p
  proof -
    have "nat ((int p - 1) * int n) = (p - 1) * n" using that by (simp add: nat_mult_distrib of_nat_diff [symmetric] nat_diff_distrib)
    then show ?thesis using that by (simp add: list_tasks_def Let_def size)
  qed
  have "concat (map (\<lambda>p. pg_items (list_tasks f (int p) (int n) s)) [1..<Suc k]) =
      concat (map (\<lambda>p. take n (drop ((p - 1) * n) ?xs)) [1..<Suc k])"
    by (intro arg_cong [where f = concat] map_cong refl page) auto
  also have "\<dots> = take (k * n) ?xs" by (rule concat_pages)
  also have "\<dots> = ?xs" using assms(3) by (simp add: list_tasks_def Let_def)
  finally show ?thesis .
qed

theorem pages_partition_witness:
  "concat (map (\<lambda>p. pg_items (list_tasks \<lparr>fl_project = None, fl_status = None, fl_type = None, fl_source = None\<rparr> (int p) 3 demo_queue)) [1..<3])
     = rev (tasks demo_queue)"
  using pages_partition [of 3 "\<lparr>fl_project = None, fl_status = None, fl_type = None, fl_source = None\<rparr>" demo_queue 2]
  by (simp add: list_tasks_def Let_def passes_def truthy_def coalesce_def demo_queue_eval numeral_3_eq_3)

end
