(* ===== verification/Slots.thy ===== *)
theory Slots
  imports Prelude
begin

text \<open>
  The ledger of running tasks (\<open>SlotTable\<close> in \<open>lib/generation/generation_worker.py\<close>): for each
  provider and media type a dictionary from task IDs to occupants.  The ledger knows no limits; who
  asks for room passes one.  An \<open>asyncio\<close> future is how far it has come.
\<close>

section \<open>The ledger\<close>

datatype future = Unfinished | Returned | Raised | Stopped

definition future_done :: "future \<Rightarrow> bool" where
  "future_done f = (f \<noteq> Unfinished)"

record occupant =
  oc_task :: future
  oc_pending :: bool

type_synonym lane = "string \<times> string"
type_synonym bucket = "(string \<times> occupant) list"
type_synonym slot_table = "(lane \<times> bucket) list"

definition register :: "lane \<Rightarrow> string \<Rightarrow> occupant \<Rightarrow> slot_table \<Rightarrow> slot_table" where
  "register l tid x slots =
     dict_set l (dict_set tid x (case map_of slots l of None \<Rightarrow> [] | Some b \<Rightarrow> b)) slots"

definition promote :: "lane \<Rightarrow> string \<Rightarrow> slot_table \<Rightarrow> slot_table" where
  "promote l tid slots =
     (case map_of slots l of None \<Rightarrow> slots
      | Some b \<Rightarrow> (case map_of b tid of None \<Rightarrow> slots
          | Some x \<Rightarrow> dict_set l (dict_set tid (x\<lparr>oc_pending := False\<rparr>) b) slots))"

definition release :: "lane \<Rightarrow> string \<Rightarrow> slot_table \<Rightarrow> slot_table" where
  "release l tid slots =
     (case map_of slots l of None \<Rightarrow> slots
      | Some b \<Rightarrow> let b' = dict_pop tid b in if b' = [] then dict_pop l slots else dict_set l b' slots)"

definition occupied :: "lane \<Rightarrow> slot_table \<Rightarrow> nat" where
  "occupied l slots = (case map_of slots l of None \<Rightarrow> 0 | Some b \<Rightarrow> length b)"

definition has_room :: "lane \<Rightarrow> int \<Rightarrow> slot_table \<Rightarrow> bool" where
  "has_room l capacity slots =
     (if capacity \<le> 0 then False
      else int (case map_of slots l of None \<Rightarrow> 0 | Some b \<Rightarrow> length b) < capacity)"

definition occupied_providers :: "string \<Rightarrow> slot_table \<Rightarrow> string list" where
  "occupied_providers media slots = map (fst \<circ> fst) (filter (\<lambda>((_, m), b). m = media \<and> b \<noteq> []) slots)"

definition finished_occupant :: "occupant \<Rightarrow> bool" where
  "finished_occupant x = (\<not> oc_pending x \<and> future_done (oc_task x))"

fun drain_finished :: "slot_table \<Rightarrow> (string \<times> future) list \<times> slot_table" where
  "drain_finished [] = ([], [])"
| "drain_finished ((l, b) # slots) =
     (let done = filter (finished_occupant \<circ> snd) b;
          left = filter (Not \<circ> finished_occupant \<circ> snd) b;
          (finished, rest) = drain_finished slots
      in (map (\<lambda>(tid, x). (tid, oc_task x)) done @ finished, if left = [] then rest else (l, left) # rest))"

definition active_task_ids :: "slot_table \<Rightarrow> string list" where
  "active_task_ids slots = concat (map (map fst \<circ> snd) slots)"

definition all_active_tasks :: "slot_table \<Rightarrow> future list" where
  "all_active_tasks slots = concat (map (map (oc_task \<circ> snd) \<circ> snd) slots)"

text \<open>A future comes to its end: every entry that refers to it sees that\<close>

definition settle_future :: "lane \<Rightarrow> string \<Rightarrow> future \<Rightarrow> slot_table \<Rightarrow> slot_table" where
  "settle_future l tid f slots =
     (case map_of slots l of None \<Rightarrow> slots
      | Some b \<Rightarrow> (case map_of b tid of None \<Rightarrow> slots
          | Some x \<Rightarrow> dict_set l (dict_set tid (x\<lparr>oc_task := f\<rparr>) b) slots))"

section \<open>Shape\<close>

text \<open>Dictionaries have each key once, and no bucket is left empty\<close>

definition slots_ok :: "slot_table \<Rightarrow> bool" where
  "slots_ok slots = (distinct (map fst slots) \<and> list_all (\<lambda>(l, b). b \<noteq> [] \<and> distinct (map fst b)) slots)"

text \<open>What the ledger stands for: the occupant of a lane with an ID\<close>

definition slot :: "slot_table \<Rightarrow> lane \<Rightarrow> string \<Rightarrow> occupant option" where
  "slot slots l tid = Option.bind (map_of slots l) (\<lambda>b. map_of b tid)"

lemma slots_ok_Nil [simp]: "slots_ok []"
  by (simp add: slots_ok_def)

lemma slots_ok_Cons [simp]:
  "slots_ok ((l, b) # slots) \<longleftrightarrow> l \<notin> fst ` set slots \<and> b \<noteq> [] \<and> distinct (map fst b) \<and> slots_ok slots"
  by (auto simp: slots_ok_def)

lemma slots_okD: "slots_ok slots \<Longrightarrow> map_of slots l = Some b \<Longrightarrow> b \<noteq> [] \<and> distinct (map fst b)"
  by (auto simp: slots_ok_def list_all_iff dest: map_of_SomeD)

lemma dict_set_not_Nil [simp]: "dict_set k v d \<noteq> []"
  by (cases d) (auto split: prod.splits if_splits)

lemma slots_ok_dict_set: "slots_ok slots \<Longrightarrow> b \<noteq> [] \<Longrightarrow> distinct (map fst b) \<Longrightarrow> slots_ok (dict_set l b slots)"
  by (auto simp: slots_ok_def distinct_dict_set list_all_iff set_dict_set)

lemma slots_ok_dict_pop: "slots_ok slots \<Longrightarrow> slots_ok (dict_pop l slots)"
  by (auto simp: slots_ok_def distinct_dict_pop list_all_iff set_dict_pop)

lemma slots_ok_register: "slots_ok slots \<Longrightarrow> slots_ok (register l tid x slots)"
  unfolding register_def
  by (rule slots_ok_dict_set) (auto simp: distinct_dict_set dest: slots_okD split: option.splits)

lemma slots_ok_promote: "slots_ok slots \<Longrightarrow> slots_ok (promote l tid slots)"
  unfolding promote_def
  by (auto intro!: slots_ok_dict_set simp: distinct_dict_set dest: slots_okD split: option.splits)

lemma slots_ok_settle: "slots_ok slots \<Longrightarrow> slots_ok (settle_future l tid f slots)"
  unfolding settle_future_def
  by (auto intro!: slots_ok_dict_set simp: distinct_dict_set dest: slots_okD split: option.splits)

lemma slots_ok_release: "slots_ok slots \<Longrightarrow> slots_ok (release l tid slots)"
  unfolding release_def
  by (auto intro!: slots_ok_dict_set simp: distinct_dict_pop slots_ok_dict_pop Let_def dest: slots_okD
      split: option.splits)

lemma slots_ok_drain: "slots_ok slots \<Longrightarrow> slots_ok (snd (drain_finished slots)) \<and> fst ` set (snd (drain_finished slots)) \<subseteq> fst ` set slots"
proof (induction slots rule: drain_finished.induct)
  case (2 l b slots)
  obtain finished rest where r: "drain_finished slots = (finished, rest)" by force
  show ?case using 2 r by (auto simp: Let_def distinct_map_filter)
qed simp

section \<open>The ledger as a finite map\<close>

lemma slot_register: "slot (register l tid x slots) = (slot slots)(l := (slot slots l)(tid \<mapsto> x))"
  by (auto simp: slot_def register_def dict_simps fun_eq_iff split: option.splits)

lemma slot_promote:
  "slot (promote l tid slots) = (slot slots)(l := (slot slots l)(tid := map_option (\<lambda>x. x\<lparr>oc_pending := False\<rparr>) (slot slots l tid)))"
  by (auto simp: slot_def promote_def dict_simps fun_eq_iff split: option.splits)

lemma slot_settle:
  "slot (settle_future l tid f slots) = (slot slots)(l := (slot slots l)(tid := map_option (\<lambda>x. x\<lparr>oc_task := f\<rparr>) (slot slots l tid)))"
  by (auto simp: slot_def settle_future_def dict_simps fun_eq_iff split: option.splits)

lemma slot_release: "slot (release l tid slots) = (slot slots)(l := (slot slots l)(tid := None))"
proof (cases "map_of slots l")
  case None
  then show ?thesis by (auto simp: slot_def release_def fun_eq_iff)
next
  case (Some b)
  have "slot (release l tid slots) l' t = ((slot slots)(l := (slot slots l)(tid := None))) l' t" for l' t
  proof (cases "dict_pop tid b = []")
    case True
    have "map_of (dict_pop tid b) = (map_of b)(tid := None)" by (rule map_of_dict_pop)
    then have "(map_of b)(tid := None) = Map.empty" using True by simp
    then have "t \<noteq> tid \<longrightarrow> map_of b t = None" by (metis fun_upd_other)
    then show ?thesis using Some True by (auto simp: slot_def release_def dict_simps)
  next
    case False
    then show ?thesis using Some by (auto simp: slot_def release_def dict_simps fun_eq_iff)
  qed
  then show ?thesis by (intro ext)
qed

lemma slot_Cons: "slot ((l, b) # slots) = (slot slots)(l := map_of b)"
  by (auto simp: slot_def fun_eq_iff)

lemma slot_outside: "l \<notin> fst ` set slots \<Longrightarrow> slot slots l = Map.empty"
  by (simp add: slot_def fun_eq_iff map_of_eq_None_iff [THEN iffD2])

lemma slot_Cons_ex:
  assumes "k \<notin> fst ` set slots"
  shows "(\<exists>l x. slot ((k, b) # slots) l t = Some x \<and> P x) \<longleftrightarrow>
    (\<exists>x. map_of b t = Some x \<and> P x) \<or> (\<exists>l x. slot slots l t = Some x \<and> P x)"
proof
  assume "\<exists>l x. slot ((k, b) # slots) l t = Some x \<and> P x"
  then show "(\<exists>x. map_of b t = Some x \<and> P x) \<or> (\<exists>l x. slot slots l t = Some x \<and> P x)"
    by (auto simp: slot_Cons split: if_splits)
next
  assume "(\<exists>x. map_of b t = Some x \<and> P x) \<or> (\<exists>l x. slot slots l t = Some x \<and> P x)"
  then show "\<exists>l x. slot ((k, b) # slots) l t = Some x \<and> P x"
  proof
    assume "\<exists>l x. slot slots l t = Some x \<and> P x"
    then obtain l x where x: "slot slots l t = Some x" "P x" by blast
    then have "l \<noteq> k" using slot_outside [OF assms] by auto
    then show ?thesis using x by (intro exI [of _ l] exI [of _ x]) (simp add: slot_Cons)
  next
    assume "\<exists>x. map_of b t = Some x \<and> P x"
    then show ?thesis by (intro exI [of _ k]) (simp add: slot_Cons)
  qed
qed

lemma map_of_filter_snd:
  "distinct (map fst b) \<Longrightarrow> map_of (filter (P \<circ> snd) b) t = (case map_of b t of None \<Rightarrow> None | Some x \<Rightarrow> if P x then Some x else None)"
proof (induction b)
  case (Cons e b)
  obtain k x where e: "e = (k, x)" by (cases e)
  have "k \<notin> fst ` set (filter (P \<circ> snd) b)" "map_of b k = None" using Cons.prems e by (auto simp: map_of_eq_None_iff)
  then show ?case using Cons e by (auto simp: map_of_eq_None_iff)
qed simp

lemma drain_rest:
  assumes "slots_ok slots"
  shows "slot (snd (drain_finished slots)) l t =
    (case slot slots l t of None \<Rightarrow> None | Some x \<Rightarrow> if finished_occupant x then None else Some x)"
  using assms
proof (induction slots arbitrary: l t rule: drain_finished.induct)
  case (2 k b slots)
  obtain finished rest where r: "drain_finished slots = (finished, rest)" by force
  have ok: "slots_ok slots" "distinct (map fst b)" "k \<notin> fst ` set slots" using 2(2) by auto
  have out: "slot rest k = Map.empty"
    using slots_ok_drain [OF ok(1)] ok(3) r by (intro slot_outside) auto
  have b: "map_of (filter (Not \<circ> finished_occupant \<circ> snd) b) t
      = (case map_of b t of None \<Rightarrow> None | Some x \<Rightarrow> if finished_occupant x then None else Some x)"
    using map_of_filter_snd [OF ok(2), of "Not \<circ> finished_occupant" t] by (auto split: option.splits)
  have IH: "slot rest l t = (case slot slots l t of None \<Rightarrow> None | Some x \<Rightarrow> if finished_occupant x then None else Some x)"
    using 2(1) [OF refl refl ok(1), of l t] by (simp add: r)
  show ?case
  proof (cases "filter (Not \<circ> finished_occupant \<circ> snd) b = []")
    case True
    then have "(case map_of b t of None \<Rightarrow> None | Some x \<Rightarrow> if finished_occupant x then None else Some x) = None"
      using b by simp
    then show ?thesis using True IH out by (cases "l = k") (simp_all add: r slot_Cons)
  next
    case False
    then show ?thesis using IH b by (simp add: r slot_Cons)
  qed
qed (simp add: slot_def)

lemma drain_list:
  "slots_ok slots \<Longrightarrow> (t, f) \<in> set (fst (drain_finished slots)) \<longleftrightarrow> (\<exists>l x. slot slots l t = Some x \<and> finished_occupant x \<and> oc_task x = f)"
proof (induction slots rule: drain_finished.induct)
  case (2 k b slots)
  obtain finished rest where r: "drain_finished slots = (finished, rest)" by force
  have ok: "slots_ok slots" "distinct (map fst b)" "k \<notin> fst ` set slots" using 2(2) by auto
  have here: "(t, f) \<in> (\<lambda>(tid, x). (tid, oc_task x)) ` set (filter (finished_occupant \<circ> snd) b)
      \<longleftrightarrow> (\<exists>x. map_of b t = Some x \<and> finished_occupant x \<and> oc_task x = f)"
    using ok(2) by (force simp: map_of_eq_Some_iff)
  have there: "(t, f) \<in> set finished \<longleftrightarrow> (\<exists>l x. slot slots l t = Some x \<and> finished_occupant x \<and> oc_task x = f)"
    using 2(1) [OF refl refl ok(1)] by (simp add: r)
  have split: "(\<exists>l x. slot ((k, b) # slots) l t = Some x \<and> finished_occupant x \<and> oc_task x = f)
      \<longleftrightarrow> (\<exists>x. map_of b t = Some x \<and> finished_occupant x \<and> oc_task x = f)
        \<or> (\<exists>l x. slot slots l t = Some x \<and> finished_occupant x \<and> oc_task x = f)"
    by (rule slot_Cons_ex [OF ok(3)])
  show ?case unfolding split using here there by (simp add: r Let_def)
qed (simp add: slot_def)

lemma occupied_card: "slots_ok slots \<Longrightarrow> occupied l slots = card (dom (slot slots l))"
proof (cases "map_of slots l")
  case (Some b)
  assume "slots_ok slots"
  then have "distinct (map fst b)" using Some slots_okD by blast
  moreover have "slot slots l = map_of b" using Some by (auto simp: slot_def)
  ultimately show ?thesis
    using Some distinct_card [of "map fst b"] by (simp add: occupied_def dom_map_of_conv_image_fst)
qed (simp add: occupied_def slot_def dom_def)

lemma finite_slot [simp]: "finite (dom (slot slots l))"
proof (cases "map_of slots l")
  case (Some b)
  then have "slot slots l = map_of b" by (simp add: slot_def fun_eq_iff)
  then show ?thesis by (simp add: finite_dom_map_of)
qed (simp add: slot_def dom_def)

lemma has_room_iff: "has_room l cap slots \<longleftrightarrow> int (occupied l slots) < cap"
  by (simp add: has_room_def occupied_def)

lemma occupied_providers_iff:
  assumes "slots_ok slots"
  shows "p \<in> set (occupied_providers m slots) \<longleftrightarrow> occupied (p, m) slots \<noteq> 0"
proof -
  have "distinct (map fst slots)" using assms by (simp add: slots_ok_def)
  then have "p \<in> set (occupied_providers m slots) \<longleftrightarrow> (\<exists>b. map_of slots (p, m) = Some b \<and> b \<noteq> [])"
    by (force simp: occupied_providers_def map_of_eq_Some_iff)
  then show ?thesis by (auto simp: occupied_def split: option.splits)
qed

lemma active_task_ids_iff:
  assumes "slots_ok slots"
  shows "t \<in> set (active_task_ids slots) \<longleftrightarrow> (\<exists>l. slot slots l t \<noteq> None)"
  using assms
proof (induction slots)
  case (Cons e slots)
  obtain k b where e: "e = (k, b)" by (cases e)
  have "(\<exists>l. slot ((k, b) # slots) l t \<noteq> None) \<longleftrightarrow> map_of b t \<noteq> None \<or> (\<exists>l. slot slots l t \<noteq> None)"
    using slot_Cons_ex [of k slots b t "\<lambda>_. True"] Cons.prems by (simp add: e)
  then show ?case using Cons by (auto simp: e active_task_ids_def map_of_eq_None_iff)
qed (simp add: active_task_ids_def slot_def)

section \<open>The interface the worker relies on\<close>

locale ledger =
  fixes wf :: "'s \<Rightarrow> bool" and look :: "'s \<Rightarrow> 'l \<Rightarrow> 'i \<Rightarrow> 'o option"
    and put :: "'l \<Rightarrow> 'i \<Rightarrow> 'o \<Rightarrow> 's \<Rightarrow> 's" and drop :: "'l \<Rightarrow> 'i \<Rightarrow> 's \<Rightarrow> 's" and count :: "'l \<Rightarrow> 's \<Rightarrow> nat"
  assumes wf_put: "wf s \<Longrightarrow> wf (put l i x s)" and wf_drop: "wf s \<Longrightarrow> wf (drop l i s)"
    and look_put: "look (put l i x s) = (look s)(l := (look s l)(i \<mapsto> x))"
    and look_drop: "look (drop l i s) = (look s)(l := (look s l)(i := None))"
    and count_card: "wf s \<Longrightarrow> count l s = card (dom (look s l))" and finite_look: "finite (dom (look s l))"
begin

lemma count_put:
  assumes "wf s"
  shows "count l' (put l i x s) = (if l' = l \<and> look s l i = None then Suc (count l s) else count l' s)"
  using assms by (auto simp: count_card wf_put look_put finite_look card_insert_if dom_def [symmetric] insert_absorb)

lemma count_drop:
  assumes "wf s"
  shows "count l' (drop l i s) = (if l' = l \<and> look s l i \<noteq> None then count l s - 1 else count l' s)"
  using assms by (auto simp: count_card wf_drop look_drop finite_look card_Diff_singleton_if)

lemma put_within:
  assumes "wf s" "int (count l s) < cap"
  shows "int (count l (put l i x s)) \<le> cap"
  using assms by (auto simp: count_put)

lemma drop_put: "look (drop l i (put l i x s)) = (look s)(l := (look s l)(i := None))"
  by (simp add: look_put look_drop)

end

interpretation slots: ledger slots_ok slot register release occupied
  by unfold_locales
    (simp_all add: slots_ok_register slots_ok_release slot_register slot_release occupied_card)

end
