(* ===== verification/Capacity.thy ===== *)
theory Capacity
  imports Prelude
begin

text \<open>
  How many tasks a provider may run (\<open>CapacityTable\<close> in \<open>lib/generation/generation_worker.py\<close>, with
  the constants of \<open>render_lane.py\<close>).  The registry of providers, the environment, the stored
  settings and the resolution of an endpoint are arguments; an unresolvable endpoint is \<open>None\<close>.
\<close>

section \<open>The table\<close>

definition RENDER_MEDIA_TYPE :: string where "RENDER_MEDIA_TYPE = ''render''"
definition RENDER_PROVIDER_ID :: string where "RENDER_PROVIDER_ID = ''render''"
definition RENDER_LANE_CONCURRENCY :: int where "RENDER_LANE_CONCURRENCY = 1"

type_synonym lanes = "(string \<times> int) list"

record capacity_table =
  ct_limits :: "(string \<times> lanes) list"
  ct_defaults :: lanes

definition lane_get :: "lanes \<Rightarrow> string \<Rightarrow> int" where
  "lane_get lanes media = (case map_of lanes media of None \<Rightarrow> 0 | Some n \<Rightarrow> n)"

definition capacity_get :: "capacity_table \<Rightarrow> string \<Rightarrow> string \<Rightarrow> int" where
  "capacity_get c provider media =
     (if media = RENDER_MEDIA_TYPE then (if provider = RENDER_PROVIDER_ID then RENDER_LANE_CONCURRENCY else 0)
      else case map_of (ct_limits c) provider of
             None \<Rightarrow> lane_get (ct_defaults c) media
           | Some lanes \<Rightarrow> lane_get lanes media)"

definition replace :: "(string \<times> lanes) list \<Rightarrow> capacity_table \<Rightarrow> capacity_table" where
  "replace new_limits c = c\<lparr>ct_limits := new_limits\<rparr>"

section \<open>Reading limits\<close>

definition read_int_env :: "(string \<Rightarrow> string option) \<Rightarrow> string \<Rightarrow> int \<Rightarrow> int \<Rightarrow> int" where
  "read_int_env env name fallback minimum =
     (case env name of None \<Rightarrow> fallback
      | Some raw \<Rightarrow> (case py_int raw of None \<Rightarrow> fallback | Some v \<Rightarrow> max minimum v))"

definition parse_lane_max :: "(string \<times> string) list \<Rightarrow> string \<Rightarrow> int \<Rightarrow> int" where
  "parse_lane_max config key fallback =
     (case map_of config key of None \<Rightarrow> fallback
      | Some raw \<Rightarrow> (case py_int raw of None \<Rightarrow> fallback | Some v \<Rightarrow> max 0 v))"

definition lane_limits :: "string list \<Rightarrow> int \<Rightarrow> int \<Rightarrow> int \<Rightarrow> lanes" where
  "lane_limits media_types image_max video_max audio_max =
     [(''image'', if ''image'' \<in> set media_types then image_max else 0),
      (''video'', if ''video'' \<in> set media_types then video_max else 0),
      (''audio'', if ''audio'' \<in> set media_types then audio_max else 0)]"

text \<open>A provider of the registry: the columns the table reads\<close>

record provider_meta =
  pm_media_types :: "string list"
  pm_default_concurrency :: lanes

definition lane_default :: "provider_meta \<Rightarrow> string \<Rightarrow> int \<Rightarrow> int" where
  "lane_default meta lane global_default =
     (case map_of (pm_default_concurrency meta) lane of None \<Rightarrow> global_default | Some n \<Rightarrow> n)"

definition default_lanes :: "int \<Rightarrow> int \<Rightarrow> int \<Rightarrow> lanes" where
  "default_lanes image_max video_max audio_max =
     [(''image'', image_max), (''video'', video_max), (''audio'', audio_max), (''text'', 1), (RENDER_MEDIA_TYPE, RENDER_LANE_CONCURRENCY)]"

definition from_env :: "(string \<times> provider_meta) list \<Rightarrow> (string \<Rightarrow> string option) \<Rightarrow> capacity_table" where
  "from_env registry env =
     (let image_max = read_int_env env ''IMAGE_MAX_WORKERS'' 5 1;
          video_max = read_int_env env ''VIDEO_MAX_WORKERS'' 3 1;
          audio_max = read_int_env env ''AUDIO_MAX_WORKERS'' 10 1
      in \<lparr>ct_limits = map (\<lambda>(pid, meta). (pid, lane_limits (pm_media_types meta) (lane_default meta ''image'' image_max)
              (lane_default meta ''video'' video_max) (lane_default meta ''audio'' audio_max))) registry,
            ct_defaults = default_lanes image_max video_max audio_max\<rparr>)"

section \<open>The stored settings\<close>

definition COMFYUI_LANE_DEFAULT :: int where "COMFYUI_LANE_DEFAULT = 1"

definition is_comfyui_protocol :: "string \<Rightarrow> bool" where
  "is_comfyui_protocol discovery_format = (discovery_format = ''comfyui'')"

text \<open>A user's provider with its columns, and a model row of it\<close>

record custom_provider =
  cu_provider_id :: string
  cu_discovery_format :: string
  cu_image_max :: "int option"
  cu_video_max :: "int option"
  cu_audio_max :: "int option"

record custom_model =
  cm_endpoint :: string
  cm_enabled :: bool

definition custom_lane_default :: "custom_provider \<Rightarrow> int option \<Rightarrow> int \<Rightarrow> int" where
  "custom_lane_default provider column global_default =
     (case column of Some n \<Rightarrow> n
      | None \<Rightarrow> if is_comfyui_protocol (cu_discovery_format provider) then COMFYUI_LANE_DEFAULT else global_default)"

text \<open>The media types of the enabled models, with the endpoints resolved so far\<close>

fun model_media ::
  "(string \<Rightarrow> string option) \<Rightarrow> custom_model list \<Rightarrow> (string \<times> string) list \<Rightarrow> string list \<times> (string \<times> string) list" where
  "model_media resolve [] cache = ([], cache)"
| "model_media resolve (m # ms) cache =
     (if \<not> cm_enabled m then model_media resolve ms cache
      else case map_of cache (cm_endpoint m) of
             Some media \<Rightarrow> (let (rest, cache') = model_media resolve ms cache in (media # rest, cache'))
           | None \<Rightarrow> (case resolve (cm_endpoint m) of
               None \<Rightarrow> model_media resolve ms cache
             | Some media \<Rightarrow>
                 (let (rest, cache') = model_media resolve ms (dict_set (cm_endpoint m) media cache)
                  in (media # rest, cache'))))"

fun custom_limits ::
  "(string \<Rightarrow> string option) \<Rightarrow> int \<times> int \<times> int \<Rightarrow> (custom_provider \<times> custom_model list) list
     \<Rightarrow> (string \<times> string) list \<Rightarrow> (string \<times> lanes) list \<Rightarrow> (string \<times> lanes) list" where
  "custom_limits resolve defaults [] cache limits = limits"
| "custom_limits resolve defaults ((provider, models) # rest) cache limits =
     (let (image_max, video_max, audio_max) = defaults;
          (media_types, cache') = model_media resolve models cache;
          lanes = lane_limits media_types (custom_lane_default provider (cu_image_max provider) image_max)
            (custom_lane_default provider (cu_video_max provider) video_max)
            (custom_lane_default provider (cu_audio_max provider) audio_max)
      in custom_limits resolve defaults rest cache' (dict_set (cu_provider_id provider) lanes limits))"

definition from_db ::
  "(string \<times> provider_meta) list \<Rightarrow> (string \<Rightarrow> string option) \<Rightarrow> (string \<times> (string \<times> string) list) list
     \<Rightarrow> (custom_provider \<times> custom_model list) list \<Rightarrow> (string \<Rightarrow> string option) \<Rightarrow> capacity_table" where
  "from_db registry env all_configs customs resolve =
     (let image_max = read_int_env env ''IMAGE_MAX_WORKERS'' 5 1;
          video_max = read_int_env env ''VIDEO_MAX_WORKERS'' 3 1;
          audio_max = read_int_env env ''AUDIO_MAX_WORKERS'' 10 1;
          built_in = map (\<lambda>(pid, meta).
            let config = (case map_of all_configs pid of None \<Rightarrow> [] | Some c \<Rightarrow> c)
            in (pid, lane_limits (pm_media_types meta)
                 (parse_lane_max config ''image_max_workers'' (lane_default meta ''image'' image_max))
                 (parse_lane_max config ''video_max_workers'' (lane_default meta ''video'' video_max))
                 (parse_lane_max config ''audio_max_workers'' (lane_default meta ''audio'' audio_max)))) registry
      in \<lparr>ct_limits = custom_limits resolve (image_max, video_max, audio_max) customs [] built_in,
            ct_defaults = default_lanes image_max video_max audio_max\<rparr>)"

section \<open>What the table answers\<close>

lemma lane_get_limits:
  "lane_get (lane_limits media_types image_max video_max audio_max) lane =
     (if lane \<notin> set media_types then 0
      else if lane = ''image'' then image_max else if lane = ''video'' then video_max else if lane = ''audio'' then audio_max else 0)"
  by (simp add: lane_get_def lane_limits_def)

text \<open>The cache of resolved endpoints changes nothing\<close>

definition media_of :: "(string \<Rightarrow> string option) \<Rightarrow> custom_model list \<Rightarrow> string list" where
  "media_of resolve ms = List.map_filter (\<lambda>m. if cm_enabled m then resolve (cm_endpoint m) else None) ms"

definition cache_ok :: "(string \<Rightarrow> string option) \<Rightarrow> (string \<times> string) list \<Rightarrow> bool" where
  "cache_ok resolve cache \<longleftrightarrow> (\<forall>e m. map_of cache e = Some m \<longrightarrow> resolve e = Some m)"

lemma model_media_cache:
  "cache_ok resolve cache \<Longrightarrow> fst (model_media resolve ms cache) = media_of resolve ms
     \<and> cache_ok resolve (snd (model_media resolve ms cache))"
proof (induction resolve ms cache rule: model_media.induct)
  case (2 resolve m ms cache)
  show ?case
  proof (cases "cm_enabled m")
    case False
    then show ?thesis using 2 by (simp add: media_of_def)
  next
    case True
    show ?thesis
    proof (cases "map_of cache (cm_endpoint m)")
      case None
      show ?thesis
      proof (cases "resolve (cm_endpoint m)")
        case N: None
        then show ?thesis using 2(2) [OF _ None N] 2(5) True None by (simp add: media_of_def)
      next
        case (Some media)
        have "cache_ok resolve (dict_set (cm_endpoint m) media cache)"
          using 2(5) Some by (auto simp: cache_ok_def dict_simps)
        then show ?thesis using 2(3) [OF _ None Some] True None Some by (simp add: media_of_def split_beta)
      qed
    next
      case (Some media)
      then have "resolve (cm_endpoint m) = Some media" using 2(5) by (simp add: cache_ok_def)
      then show ?thesis using 2(4) [OF _ Some] 2(5) True Some by (simp add: media_of_def split_beta)
    qed
  qed
qed (simp add: media_of_def)

definition custom_lanes :: "(string \<Rightarrow> string option) \<Rightarrow> int \<times> int \<times> int \<Rightarrow> custom_provider \<times> custom_model list \<Rightarrow> lanes" where
  "custom_lanes resolve defaults = (\<lambda>(provider, models).
     case defaults of (image_max, video_max, audio_max) \<Rightarrow>
       lane_limits (media_of resolve models) (custom_lane_default provider (cu_image_max provider) image_max)
         (custom_lane_default provider (cu_video_max provider) video_max)
         (custom_lane_default provider (cu_audio_max provider) audio_max))"

lemma custom_limits_map:
  "cache_ok resolve cache \<Longrightarrow> map_of (custom_limits resolve defaults customs cache limits) =
     map_of limits ++ map_of (rev (map (\<lambda>c. (cu_provider_id (fst c), custom_lanes resolve defaults c)) customs))"
proof (induction resolve defaults customs cache limits rule: custom_limits.induct)
  case (2 resolve defaults provider models rest cache limits)
  obtain image_max video_max audio_max where d: "defaults = (image_max, video_max, audio_max)" by (cases defaults)
  obtain media cache' where m: "model_media resolve models cache = (media, cache')" by force
  have ok: "media = media_of resolve models" "cache_ok resolve cache'"
    using model_media_cache [OF 2(2), of models] m by auto
  show ?case
    using 2(1) [OF d [symmetric] refl refl m [symmetric] refl refl] ok
    by (simp add: d m custom_lanes_def dict_simps map_add_def fun_eq_iff split: option.splits)
qed simp

end
