(* ===== verification/Worker.thy ===== *)
theory Worker
  imports TaskOps Slots Capacity
begin

text \<open>
  The generation worker (\<open>GenerationWorker\<close> in \<open>lib/generation/generation_worker.py\<close>): the claim
  cycle over the lanes, the way of one task to its end, the collection of finished tasks, and the
  turns of the main loop.  The end of a task is a function of the fates of its writes.  The failure texts, the projection of a task to its provider, and which
  statements the database refuses are fields of an environment; a statement that is refused inside a
  \<open>try\<close> of the code leaves the database as it was.
\<close>

section \<open>Environment and state\<close>

record env =
  en_bound :: bound_text
  en_blocked :: blocked_text
  en_encode :: "string \<Rightarrow> (string \<times> string) list \<Rightarrow> string"
  en_projection :: "task \<Rightarrow> string"
  en_refresh_ok :: "string \<Rightarrow> bool"
  en_requeue_ok :: "string \<Rightarrow> bool"
  en_interrupt_ok :: "string \<Rightarrow> bool"
  en_now :: int

record worker =
  wk_repo :: repo
  wk_slots :: slot_table
  wk_capacity :: capacity_table

definition is_video_task :: "task \<Rightarrow> bool" where
  "is_video_task t = (tk_type t \<in> {''video'', ''reference_video''})"

definition reload_limits :: "capacity_table option \<Rightarrow> worker \<Rightarrow> worker" where
  "reload_limits loaded w =
     (case loaded of None \<Rightarrow> w | Some new \<Rightarrow> w\<lparr>wk_capacity := replace (ct_limits new) (wk_capacity w)\<rparr>)"

definition fail_task :: "env \<Rightarrow> string \<Rightarrow> string \<Rightarrow> repo \<Rightarrow> repo" where
  "fail_task env tid message r = snd (mark_failed (en_bound env) (en_blocked env) tid message (en_now env) r)"

section \<open>Claiming\<close>

definition pool_full_providers :: "string \<Rightarrow> worker \<Rightarrow> string list" where
  "pool_full_providers media w =
     filter (\<lambda>p. let cap = capacity_get (wk_capacity w) p media
                 in 0 < cap \<and> \<not> has_room (p, media) cap (wk_slots w))
       (occupied_providers media (wk_slots w))"

text \<open>The three ways a claimed task may go\<close>

definition refuse :: "env \<Rightarrow> string \<Rightarrow> string \<Rightarrow> task \<Rightarrow> worker \<Rightarrow> worker" where
  "refuse env media provider t w = w\<lparr>wk_repo := fail_task env (tk_id t)
     (en_encode env ''provider_unsupported_media'' [(''provider_id'', provider), (''media_type'', media)]) (wk_repo w)\<rparr>"

definition requeue :: "env \<Rightarrow> string \<Rightarrow> repo \<Rightarrow> bool \<times> repo" where
  "requeue env tid r = (if en_requeue_ok env tid then requeue_single_task tid (en_now env) r else (False, r))"

definition refresh :: "env \<Rightarrow> string \<Rightarrow> string \<Rightarrow> repo \<Rightarrow> repo" where
  "refresh env tid provider r =
     (if en_refresh_ok env tid then persist_execution_provider_id tid provider (en_now env) r else r)"

definition put_back :: "env \<Rightarrow> string \<Rightarrow> task \<Rightarrow> worker \<Rightarrow> worker" where
  "put_back env provider t w =
     w\<lparr>wk_repo := snd (requeue env (tk_id t) (refresh env (tk_id t) provider (wk_repo w)))\<rparr>"

definition dispatch :: "string \<Rightarrow> string \<Rightarrow> task \<Rightarrow> worker \<Rightarrow> worker" where
  "dispatch media provider t w = w\<lparr>wk_slots :=
     register (provider, media) (tk_id t) \<lparr>oc_task = Unfinished, oc_pending = False\<rparr> (wk_slots w)\<rparr>"

text \<open>One turn of \<open>while True\<close> in \<open>_claim_tasks\<close>: it leaves the loop or goes round again\<close>

datatype turn = Leave bool worker | Again "string set" bool worker

definition claim_turn :: "env \<Rightarrow> string \<Rightarrow> string set \<Rightarrow> bool \<Rightarrow> worker \<Rightarrow> turn" where
  "claim_turn env media attempted claimed w =
     (case claim_next media (set (pool_full_providers media w)) attempted (en_now env) (wk_repo w) (wk_repo w) of
        None \<Rightarrow> Leave claimed w
      | Some (t, r) \<Rightarrow>
          let w1 = w\<lparr>wk_repo := r\<rparr>;
              provider = en_projection env t;
              cap = capacity_get (wk_capacity w1) provider media
          in if cap \<le> 0 then Again attempted True (refuse env media provider t w1)
             else if \<not> has_room (provider, media) cap (wk_slots w1) then
               let w2 = put_back env provider t w1
               in if is_video_task t then Again (insert (tk_id t) attempted) claimed w2 else Leave claimed w2
             else let w2 = dispatch media provider t w1
               in if media \<in> {''text'', RENDER_MEDIA_TYPE} then Leave True w2 else Again attempted True w2)"

partial_function (option) claim_lane ::
  "env \<Rightarrow> string \<Rightarrow> string set \<Rightarrow> bool \<Rightarrow> worker \<Rightarrow> (bool \<times> worker) option" where
  "claim_lane env media attempted claimed w =
     (case claim_turn env media attempted claimed w of
        Leave c w' \<Rightarrow> Some (c, w')
      | Again a c w' \<Rightarrow> claim_lane env media a c w')"

fun claim_tasks :: "env \<Rightarrow> string list \<Rightarrow> bool \<Rightarrow> worker \<Rightarrow> (bool \<times> worker) option" where
  "claim_tasks env [] claimed w = Some (claimed, w)"
| "claim_tasks env (media # lanes) claimed w =
     Option.bind (claim_lane env media {} claimed w) (\<lambda>(c, w'). claim_tasks env lanes c w')"

section \<open>A task to its end\<close>

text \<open>
  What the execution of a claimed task came to: broken off before its \<open>try\<close>, ended there by the projection to
  its provider, or in one of the four ways the executor ends
\<close>

datatype outcome =
    NeverEntered
  | ProjectionRaised
  | ExecReturned string
  | ExecProviderChanged string string
  | ExecRaised string
  | ExecInterrupted

text \<open>
  The fate of one write under \<open>asyncio.shield\<close>: it is carried out; the database refuses it, so that it
  raises and changes nothing; or the process interrupts the wait for it.  Then the shield lets it go on: it is
  carried out before or after what follows, or the database refuses it, which nobody sees.  An interruption of
  a later wait of the same path, which has no more writes to tasks, is one of this kind too.
\<close>

datatype late = Before | After | Never

datatype fate = Carried | Refused | Broken late

definition shielded :: "fate \<Rightarrow> (repo \<Rightarrow> repo) \<Rightarrow> repo \<Rightarrow> repo \<times> future" where
  "shielded fate write r =
     (case fate of
        Carried \<Rightarrow> (write r, Returned)
      | Refused \<Rightarrow> (r, Raised)
      | Broken late \<Rightarrow> (if late = Never then r else write r, Stopped))"

text \<open>
  The fates of the writes of one task: the writes that move it to another provider, when they are broken
  off, with whether they are still carried out (whether the database refuses them is in \<open>env\<close>); the write
  that ends it; and the write of an interruption
\<close>

record fates =
  fa_refresh :: "bool option"
  fa_requeue :: "bool option"
  fa_end :: fate
  fa_interrupt :: fate

definition end_failed :: "env \<Rightarrow> fates \<Rightarrow> string \<Rightarrow> string \<Rightarrow> repo \<Rightarrow> repo \<times> future" where
  "end_failed env fates tid message = shielded (fa_end fates) (fail_task env tid message)"

definition fail_task_of_deleted_project :: "env \<Rightarrow> fates \<Rightarrow> string \<Rightarrow> repo \<Rightarrow> repo \<times> future" where
  "fail_task_of_deleted_project env fates tid =
     shielded (fa_end fates) (fail_task env tid (en_encode env ''project_deleted_during_task'' []))"

definition interrupt :: "env \<Rightarrow> string \<Rightarrow> repo \<Rightarrow> repo" where
  "interrupt env tid r = snd (finalize_interrupted tid (en_now env) r)"

text \<open>The \<open>except asyncio.CancelledError\<close>: the interruption is raised again, unless its write raises\<close>

definition interrupted :: "env \<Rightarrow> fates \<Rightarrow> string \<Rightarrow> repo \<Rightarrow> repo \<times> future" where
  "interrupted env fates tid r =
     (let (r1, f) = shielded (fa_interrupt fates) (interrupt env tid) r
      in (r1, if f = Raised then Raised else Stopped))"

definition store_result :: "env \<Rightarrow> fates \<Rightarrow> string \<Rightarrow> string \<Rightarrow> repo \<Rightarrow> repo \<times> future" where
  "store_result env fates tid result r =
     (let store = (\<lambda>r. snd (mark_succeeded tid result (en_now env) r)) in
      case fa_end fates of
        Broken late \<Rightarrow>
          (let (r1, f) = interrupted env fates tid (if late = Before then store r else r)
           in (if late = After then store r1 else r1, f))
      | fate \<Rightarrow> shielded fate store r)"

definition move_task :: "env \<Rightarrow> fates \<Rightarrow> string \<Rightarrow> string \<Rightarrow> string \<Rightarrow> repo \<Rightarrow> repo \<times> future" where
  "move_task env fates tid claimed actual r =
     (case fa_refresh fates of
        Some carried \<Rightarrow> (if carried then refresh env tid actual r else r, Stopped)
      | None \<Rightarrow>
          let r1 = refresh env tid actual r in
          (case fa_requeue fates of
             Some carried \<Rightarrow> (if carried then snd (requeue env tid r1) else r1, Stopped)
           | None \<Rightarrow>
               (case requeue env tid r1 of
                  (True, r2) \<Rightarrow> (r2, Returned)
                | (False, r2) \<Rightarrow> end_failed env fates tid (en_encode env ''dispatch_provider_requeue_failed''
                    [(''claimed_provider_id'', claimed), (''actual_provider_id'', actual)]) r2)))"

definition run_claimed_task :: "env \<Rightarrow> bool \<Rightarrow> fates \<Rightarrow> string \<Rightarrow> outcome \<Rightarrow> repo \<Rightarrow> repo \<times> future" where
  "run_claimed_task env revoked fates tid outcome r =
     (case outcome of
        NeverEntered \<Rightarrow> (r, Stopped)
      | ProjectionRaised \<Rightarrow> (r, Raised)
      | ExecInterrupted \<Rightarrow> interrupted env fates tid r
      | ExecProviderChanged claimed actual \<Rightarrow>
          if revoked then fail_task_of_deleted_project env fates tid r
          else move_task env fates tid claimed actual r
      | ExecRaised message \<Rightarrow>
          if revoked then fail_task_of_deleted_project env fates tid r
          else end_failed env fates tid message r
      | ExecReturned result \<Rightarrow>
          if revoked then fail_task_of_deleted_project env fates tid r
          else store_result env fates tid result r)"

text \<open>The ledger entry of the task comes to the same end\<close>

definition process_task :: "env \<Rightarrow> bool \<Rightarrow> fates \<Rightarrow> lane \<Rightarrow> string \<Rightarrow> outcome \<Rightarrow> worker \<Rightarrow> worker" where
  "process_task env revoked fates l tid outcome w =
     (let (r, f) = run_claimed_task env revoked fates tid outcome (wk_repo w)
      in w\<lparr>wk_repo := r, wk_slots := settle_future l tid f (wk_slots w)\<rparr>)"

section \<open>Collecting finished tasks\<close>

definition collect :: "env \<Rightarrow> string \<times> future \<Rightarrow> repo \<Rightarrow> repo" where
  "collect env = (\<lambda>(tid, f) r. if f = Stopped \<and> en_interrupt_ok env tid then interrupt env tid r else r)"

definition drain_finished_tasks :: "env \<Rightarrow> worker \<Rightarrow> worker" where
  "drain_finished_tasks env w =
     (let (finished, slots) = drain_finished (wk_slots w)
      in w\<lparr>wk_slots := slots, wk_repo := fold (collect env) finished (wk_repo w)\<rparr>)"

section \<open>The main loop\<close>

text \<open>
  What the loop remembers between turns: the lease, when it was first missed, whether orphans were
  scanned for and whether a first settlement took place.  A turn reads the lease and the clock.
\<close>

record loop_state =
  lp_owns_lease :: bool
  lp_lost_at :: "rat option"
  lp_scanned :: bool
  lp_settled :: bool

definition loop_start :: loop_state where
  "loop_start = \<lparr>lp_owns_lease = False, lp_lost_at = None, lp_scanned = False, lp_settled = False\<rparr>"

definition ORPHAN_RESCAN_LEASE_LOST_MULT :: rat where "ORPHAN_RESCAN_LEASE_LOST_MULT = 3"

record loop_actions =
  la_handle_orphans :: bool
  la_settle_before_start :: bool
  la_claim :: bool

definition loop_turn :: "rat \<Rightarrow> bool \<Rightarrow> rat \<Rightarrow> loop_state \<Rightarrow> loop_actions \<times> loop_state" where
  "loop_turn ttl owns clock s =
     (let had = lp_owns_lease s;
          lost = (if had \<and> \<not> owns \<and> lp_lost_at s = None then Some clock else lp_lost_at s);
          expired = (case lost of Some t \<Rightarrow> owns \<and> ttl * ORPHAN_RESCAN_LEASE_LOST_MULT < clock - t | None \<Rightarrow> False);
          scanned = lp_scanned s \<and> \<not> expired;
          scan = owns \<and> \<not> scanned
      in (\<lparr>la_handle_orphans = scan, la_settle_before_start = scan \<and> \<not> lp_settled s, la_claim = owns\<rparr>,
          \<lparr>lp_owns_lease = owns, lp_lost_at = (if owns then None else lost),
             lp_scanned = scanned \<or> scan, lp_settled = lp_settled s \<or> scan\<rparr>))"

fun loop_run :: "rat \<Rightarrow> (bool \<times> rat) list \<Rightarrow> loop_state \<Rightarrow> loop_actions list" where
  "loop_run ttl [] s = []"
| "loop_run ttl ((owns, clock) # turns) s =
     (let (actions, s') = loop_turn ttl owns clock s in actions # loop_run ttl turns s')"

end
