(* ===== verification/Recovery.thy ===== *)
theory Recovery
  imports Worker
begin

text \<open>
  What the worker does after a restart (\<open>lib/generation/restart_recovery.py\<close> and
  \<open>lib/generation/video_resume.py\<close>): each task found running is failed, or resumed by the job the
  provider already has.  Reading a checkpoint (\<open>load_task_video_checkpoint\<close>) is the argument \<open>load\<close>: the
  provider of the checkpoint, or \<open>None\<close> when it is refused.  Cleaning files, and the settlement of
  provider calls in the ledger of costs, are not modelled.
\<close>

section \<open>Which tasks may be resumed\<close>

datatype resume_state = NoCheckpointNoJob | CheckpointWithoutJob | Ready | IdentityUnrecoverable

definition classify_video_resume_state :: "(task \<Rightarrow> string option) \<Rightarrow> task \<Rightarrow> resume_state \<times> string option" where
  "classify_video_resume_state load t =
     (let has_checkpoint_attempt = tk_checkpoint t \<notin> {None, Some ''''};
          has_job = coalesce (tk_job t) \<noteq> ''''
      in if \<not> has_job then (if has_checkpoint_attempt then CheckpointWithoutJob else NoCheckpointNoJob, None)
         else if \<not> has_checkpoint_attempt then (IdentityUnrecoverable, None)
         else (case load t of None \<Rightarrow> (IdentityUnrecoverable, None) | Some p \<Rightarrow> (Ready, Some p)))"

definition NON_RESUMABLE_VIDEO_PROVIDERS :: "string list" where
  "NON_RESUMABLE_VIDEO_PROVIDERS = [''grok'', ''vidu'']"

definition orphan_media :: "task \<Rightarrow> string" where
  "orphan_media t = (if tk_media t \<noteq> '''' then tk_media t
     else if is_video_task t then ''video'' else if tk_type t = ''tts'' then ''audio'' else ''image'')"

text \<open>The verdict on one orphan: its failure code with parameters, or the provider to resume with\<close>

datatype verdict = Doomed string "(string \<times> string) list" | Resumable string

definition unrecoverable_params :: "(string \<times> string) list" where
  "unrecoverable_params = [(''detail'', ''missing, malformed, or mismatched video submission checkpoint'')]"

definition judge_orphan :: "env \<Rightarrow> (task \<Rightarrow> string option) \<Rightarrow> task \<Rightarrow> verdict" where
  "judge_orphan env load t =
     (if orphan_media t = ''image'' then Doomed ''restart_lost_image'' []
      else if orphan_media t = ''audio'' then Doomed ''restart_lost_audio'' []
      else if orphan_media t = ''text'' then Doomed ''restart_lost_text'' []
      else if orphan_media t = RENDER_MEDIA_TYPE then Doomed ''restart_lost_render'' []
      else let (state, checkpoint) = (if is_video_task t then classify_video_resume_state load t else (Ready, None)) in
        if state \<noteq> Ready then
          (case state of NoCheckpointNoJob \<Rightarrow> Doomed ''restart_lost_no_job_id'' []
           | CheckpointWithoutJob \<Rightarrow> Doomed ''restart_lost_checkpoint_no_job_id'' []
           | _ \<Rightarrow> Doomed ''execution_identity_unrecoverable'' unrecoverable_params)
        else
          let provider = (case checkpoint of Some p \<Rightarrow> p
                | None \<Rightarrow> if coalesce (tk_provider t) \<noteq> '''' then coalesce (tk_provider t) else en_projection env t)
          in if provider \<in> set NON_RESUMABLE_VIDEO_PROVIDERS
             then Doomed ''resume_unsupported_provider'' [(''provider_id'', provider)]
             else if coalesce (tk_job t) = '''' then Doomed ''restart_lost_no_job_id'' []
             else Resumable provider)"

section \<open>The scan\<close>

type_synonym buckets = "(string \<times> task list) list"

definition add_resumable :: "string \<Rightarrow> task \<Rightarrow> buckets \<Rightarrow> buckets" where
  "add_resumable provider t buckets =
     dict_set provider ((case map_of buckets provider of None \<Rightarrow> [] | Some ts \<Rightarrow> ts) @ [t\<lparr>tk_provider := Some provider\<rparr>]) buckets"

definition handle_orphan ::
  "env \<Rightarrow> (task \<Rightarrow> string option) \<Rightarrow> string list \<Rightarrow> task \<Rightarrow> buckets \<times> repo \<Rightarrow> buckets \<times> repo" where
  "handle_orphan env load active_ids t st =
     (let (buckets, r) = st in
      if tk_id t \<in> set active_ids then st
      else (case judge_orphan env load t of
              Doomed code params \<Rightarrow> (buckets, fail_task env (tk_id t) (en_encode env code params) r)
            | Resumable provider \<Rightarrow> (add_resumable provider t buckets, r)))"

definition handle_orphans :: "env \<Rightarrow> (task \<Rightarrow> string option) \<Rightarrow> worker \<Rightarrow> buckets \<times> repo" where
  "handle_orphans env load w =
     fold (handle_orphan env load (active_task_ids (wk_slots w))) (list_orphan_tasks_on_start (wk_repo w)) ([], wk_repo w)"

section \<open>Dispatching resumptions\<close>

text \<open>
  A dispatcher resumes the tasks of one provider: \<open>dp_waiting\<close> and \<open>dp_inside\<close> are the tasks before and
  after \<open>sem.acquire\<close>, \<open>dp_permits\<close> is what the semaphore was made with.
\<close>

record dispatcher =
  dp_provider :: string
  dp_permits :: int
  dp_waiting :: "string list"
  dp_inside :: "string list"

definition video_lane :: "string \<Rightarrow> lane" where
  "video_lane provider = (provider, ''video'')"

definition enter_pending :: "string \<Rightarrow> string list \<Rightarrow> slot_table \<Rightarrow> slot_table" where
  "enter_pending provider = fold (\<lambda>tid. register (video_lane provider) tid \<lparr>oc_task = Unfinished, oc_pending = True\<rparr>)"

definition dispatch_provider_bucket ::
  "env \<Rightarrow> capacity_table option \<Rightarrow> bool \<Rightarrow> string \<Rightarrow> string list \<Rightarrow> worker \<Rightarrow> dispatcher option \<times> worker" where
  "dispatch_provider_bucket env loaded stopping provider tids w =
     (let w1 = (if capacity_get (wk_capacity w) provider ''video'' \<le> 0 then reload_limits loaded w else w);
          cap = capacity_get (wk_capacity w1) provider ''video''
      in if cap \<le> 0 then
           (None, w1\<lparr>wk_repo := fold (\<lambda>tid. fail_task env tid
              (en_encode env ''resume_unsupported_capacity_zero'' [(''provider_id'', provider)])) tids (wk_repo w1)\<rparr>)
         else let entered = (if stopping then [] else tids)
           in (Some \<lparr>dp_provider = provider, dp_permits = cap, dp_waiting = entered, dp_inside = []\<rparr>,
               w1\<lparr>wk_slots := enter_pending provider entered (wk_slots w1)\<rparr>))"

text \<open>A waiting task gets a permit; when the worker is stopping it gives it back at once\<close>

definition acquire :: "bool \<Rightarrow> string \<Rightarrow> dispatcher \<Rightarrow> slot_table \<Rightarrow> (dispatcher \<times> slot_table) option" where
  "acquire stopping tid d slots =
     (if tid \<notin> set (dp_waiting d) \<or> dp_permits d \<le> int (length (dp_inside d)) then None
      else if stopping then Some (d\<lparr>dp_waiting := remove1 tid (dp_waiting d)\<rparr>, release (video_lane (dp_provider d)) tid slots)
      else Some (d\<lparr>dp_waiting := remove1 tid (dp_waiting d), dp_inside := tid # dp_inside d\<rparr>,
                 promote (video_lane (dp_provider d)) tid slots))"

text \<open>The \<open>finally\<close> of a resumption\<close>

definition finish_resumption :: "string \<Rightarrow> dispatcher \<Rightarrow> slot_table \<Rightarrow> (dispatcher \<times> slot_table) option" where
  "finish_resumption tid d slots =
     (if tid \<notin> set (dp_inside d) then None
      else Some (d\<lparr>dp_inside := remove1 tid (dp_inside d)\<rparr>, release (video_lane (dp_provider d)) tid slots))"

section \<open>One resumption\<close>

text \<open>
  What came of a resumption: the process broke it off before it began, the projection of a task without a
  checkpoint raised, or one of the ways its executor ends
\<close>

datatype resume_outcome =
    ResumeNotEntered
  | ResumeProjectionRaised
  | Resumed string
  | ResumeUnsupported string
  | ResumeEndpointChanged string
  | ResumeExpired string
  | ResumeRaised string
  | ResumeInterrupted

text \<open>\<open>deleted\<close>: the project was deleted before the restart; \<open>revoked\<close>: while the task ran\<close>

definition run_resumption ::
  "env \<Rightarrow> (task \<Rightarrow> string option) \<Rightarrow> bool \<Rightarrow> bool \<Rightarrow> fates \<Rightarrow> task \<Rightarrow> resume_outcome \<Rightarrow> repo \<Rightarrow> repo \<times> future" where
  "run_resumption env load deleted revoked fates t outcome r =
     (let tid = tk_id t; fail = (\<lambda>code params. end_failed env fates tid (en_encode env code params) r);
          state = fst (classify_video_resume_state load t)
      in if outcome = ResumeNotEntered then (r, Stopped)
         else if deleted then fail ''project_deleted_during_task'' []
         else if is_video_task t \<and> state \<noteq> Ready then
           (case state of NoCheckpointNoJob \<Rightarrow> fail ''restart_lost_no_job_id'' []
            | CheckpointWithoutJob \<Rightarrow> fail ''restart_lost_checkpoint_no_job_id'' []
            | _ \<Rightarrow> fail ''execution_identity_unrecoverable'' unrecoverable_params)
         else if coalesce (tk_job t) = '''' then fail ''restart_lost_resume_no_job_id'' []
         else (case outcome of
             ResumeNotEntered \<Rightarrow> (r, Stopped)
           | ResumeProjectionRaised \<Rightarrow> (r, Raised)
           | ResumeInterrupted \<Rightarrow> interrupted env fates tid r
           | ResumeUnsupported m \<Rightarrow> fail ''resume_unsupported_detail'' [(''detail'', m)]
           | ResumeEndpointChanged m \<Rightarrow> fail ''resume_endpoint_changed_detail'' [(''detail'', m)]
           | ResumeExpired m \<Rightarrow> fail ''resume_expired_detail'' [(''detail'', m)]
           | ResumeRaised m \<Rightarrow>
               if revoked then fail_task_of_deleted_project env fates tid r else end_failed env fates tid m r
           | Resumed result \<Rightarrow>
               if revoked then fail_task_of_deleted_project env fates tid r else store_result env fates tid result r))"

text \<open>\<open>_run_one\<close> around it: an interruption, of the wait for a permit too, is written once more; \<open>fate\<close> is of that write\<close>

definition run_one ::
  "env \<Rightarrow> (task \<Rightarrow> string option) \<Rightarrow> bool \<Rightarrow> bool \<Rightarrow> fates \<Rightarrow> fate \<Rightarrow> task \<Rightarrow> resume_outcome \<Rightarrow> repo \<Rightarrow> repo \<times> future" where
  "run_one env load deleted revoked fates fate t outcome r =
     (let (r1, f) = run_resumption env load deleted revoked fates t outcome r
      in if f = Stopped then (fst (shielded fate (interrupt env (tk_id t)) r1), Stopped) else (r1, f))"

end
