(* ===== verification/WorkerClaims.thy ===== *)
theory WorkerClaims
  imports Worker TaskCascade
begin

text \<open>
  The claim cycle of the worker: how each turn changes the queue and the ledger, an induction rule
  over the turns of a lane, that a lane ends, and what a relation that every turn keeps says of the
  whole cycle.
\<close>

section \<open>Statements of the worker on the queue\<close>

definition waiting :: "string set \<Rightarrow> task \<Rightarrow> bool" where
  "waiting A t \<longleftrightarrow> tk_status t = Queued \<and> tk_id t \<notin> A"

lemma matching_map:
  assumes "tasks s' = map g (tasks s)" "\<And>t. t \<in> set (tasks s) \<Longrightarrow> P (g t) \<Longrightarrow> Q t"
  shows "matching P s' \<le> matching Q s"
proof -
  have "length (filter P (map g ts)) \<le> length (filter Q ts)" if "set ts \<subseteq> set (tasks s)" for ts
    using that assms(2) by (induction ts) auto
  then show ?thesis unfolding matching_def assms(1) by blast
qed

lemma matching_update_le:
  "(\<And>t. t \<in> set (tasks s) \<Longrightarrow> R t \<Longrightarrow> P (f t) \<Longrightarrow> Q t) \<Longrightarrow> (\<And>t. t \<in> set (tasks s) \<Longrightarrow> \<not> R t \<Longrightarrow> P t \<Longrightarrow> Q t)
    \<Longrightarrow> matching P (update_tasks R f s) \<le> matching Q s"
  by (rule matching_map [where g = "\<lambda>t. if R t then f t else t"]) (auto split: if_splits)

text \<open>Finishing rows puts none into the queue\<close>

interpretation no_new_waiting: finishing "\<lambda>s s'. \<forall>A. matching (waiting A) s' \<le> matching (waiting A) s"
proof
  fix "from" f tid s t s1
  assume fin: "finish_row from f tid s = Some (t, s1)" "finisher from f"
  show "\<forall>A. matching (waiting A) s1 \<le> matching (waiting A) s"
  proof
    fix A
    have "s1 = record_terminal_event (event_of t (tk_status t))
        (update_tasks (\<lambda>t. tk_id t = tid \<and> tk_status t \<in> set from) f s)"
      using fin(1) by (auto simp: finish_row_def Let_def split: if_splits)
    then have "matching (waiting A) s1 = matching (waiting A) (update_tasks (\<lambda>t. tk_id t = tid \<and> tk_status t \<in> set from) f s)"
      by (simp add: matching_def)
    also have "\<dots> \<le> matching (waiting A) s"
    proof (intro matching_update_le)
      fix t
      have "tk_status (f t) \<noteq> Queued" using finisher_row(2) [OF fin(2), of t] by auto
      then show "waiting A (f t) \<Longrightarrow> waiting A t" by (simp add: waiting_def)
    qed
    finally show "matching (waiting A) s1 \<le> matching (waiting A) s" .
  qed
qed (auto intro: order_trans)

lemma fail_task_waiting: "matching (waiting A) (fail_task env tid message r) \<le> matching (waiting A) r"
  using no_new_waiting.mark_failed by (simp add: fail_task_def)

definition claimed_row :: "int \<Rightarrow> task \<Rightarrow> task" where
  "claimed_row now t = t\<lparr>tk_status := Running, tk_started_at := Some now, tk_updated_at := now\<rparr>"

lemma claim_nextE:
  assumes "claim_next media full excluded now s s = Some (t, r)"
  obtains u where "u \<in> set (tasks s)" "claimable media full excluded s u" "tk_id u = tk_id t"
    "r = update_tasks (\<lambda>v. tk_id v = tk_id t \<and> tk_status v = Queued) (claimed_row now) s" "t \<in> set (tasks r)"
proof -
  obtain tid where sel: "claim_select media full excluded s = Some tid" and upd: "claim_update tid now s = Some (t, r)"
    using assms by (auto simp: claim_next_def bind_eq_Some_conv)
  obtain u where u: "u \<in> set (tasks s)" "tk_id u = tid" "claimable media full excluded s u"
    using claim_selectD [OF sel] by metis
  have r: "r = update_tasks (\<lambda>v. tk_id v = tid \<and> tk_status v = Queued) (claimed_row now) s" "find_task tid r = Some t"
    using upd by (auto simp: claim_update_def Let_def claimed_row_def [abs_def] split: if_splits)
  have t: "t \<in> set (tasks r)" "tk_id t = tid" using find_task_SomeD [OF r(2)] by auto
  show ?thesis by (rule that [OF u(1,3)]) (use t in \<open>simp_all only: u(2) r(1)\<close>)
qed

lemma claim_next_row:
  assumes "claim_next media full excluded now s s = Some (t, r)" "distinct (map tk_id (tasks s))"
  obtains u where "u \<in> set (tasks s)" "claimable media full excluded s u" "t = claimed_row now u"
    "r = update_tasks (\<lambda>v. tk_id v = tk_id u \<and> tk_status v = Queued) (claimed_row now) s" "t \<in> set (tasks r)"
proof (rule claim_nextE [OF assms(1)])
  fix u
  assume u: "u \<in> set (tasks s)" "claimable media full excluded s u" "tk_id u = tk_id t"
    and r: "r = update_tasks (\<lambda>v. tk_id v = tk_id t \<and> tk_status v = Queued) (claimed_row now) s" and t: "t \<in> set (tasks r)"
  have ids: "distinct (map tk_id (tasks r))"
  proof -
    have "map tk_id (tasks r) = map tk_id (tasks s)" by (simp add: r claimed_row_def)
    then show ?thesis using assms(2) by simp
  qed
  have "claimed_row now u \<in> set (tasks r)"
    using u by (force simp: r claimable_def)
  then have "t = claimed_row now u"
    using distinct_same_id [OF ids t] u(3) by (simp add: claimed_row_def)
  then show ?thesis using that [OF u(1,2) _ _ t] r u(3) by simp
qed

lemma claim_next_waiting:
  assumes "claim_next media full A now s s = Some (t, r)"
  shows "matching (waiting A) r < matching (waiting A) s"
proof (rule claim_nextE [OF assms])
  fix u
  assume u: "u \<in> set (tasks s)" "claimable media full A s u" "tk_id u = tk_id t"
    and r: "r = update_tasks (\<lambda>v. tk_id v = tk_id t \<and> tk_status v = Queued) (claimed_row now) s"
  have "tk_id t \<notin> A" "tk_status u = Queued" using u(2,3) by (auto simp: claimable_def)
  then show ?thesis
    unfolding r by (intro matching_update_less [OF _ u(1)]) (use u(3) in \<open>auto simp: waiting_def claimed_row_def\<close>)
qed

lemma refresh_waiting: "matching (waiting A) (refresh env tid p r) \<le> matching (waiting A) r"
  by (auto simp: refresh_def persist_execution_provider_id_def waiting_def intro: matching_update_le)

lemma requeue_waiting: "matching (waiting (insert tid A)) (snd (requeue env tid r)) \<le> matching (waiting A) r"
proof (cases "en_requeue_ok env tid")
  case False
  then have "snd (requeue env tid r) = r" by (simp add: requeue_def)
  moreover have "matching (waiting (insert tid A)) r \<le> matching (waiting A) r"
    by (rule matching_map [where g = "\<lambda>t. t"]) (auto simp: waiting_def)
  ultimately show ?thesis by simp
next
  case True
  then show ?thesis
    by (auto simp: requeue_def requeue_single_task_def Let_def waiting_def intro: matching_update_le)
qed

section \<open>Turns of a lane\<close>

text \<open>A turn that claims something, with the task as it was claimed\<close>

lemma claim_turn_cases:
  obtains (idle) "claim_next media (set (pool_full_providers media w)) A (en_now env) (wk_repo w) (wk_repo w) = None"
      "claim_turn env media A c w = Leave c w"
  | (refused) t r where "claim_next media (set (pool_full_providers media w)) A (en_now env) (wk_repo w) (wk_repo w) = Some (t, r)"
      "capacity_get (wk_capacity w) (en_projection env t) media \<le> 0"
      "claim_turn env media A c w = Again A True (refuse env media (en_projection env t) t (w\<lparr>wk_repo := r\<rparr>))"
  | (video_full) t r where "claim_next media (set (pool_full_providers media w)) A (en_now env) (wk_repo w) (wk_repo w) = Some (t, r)"
      "0 < capacity_get (wk_capacity w) (en_projection env t) media"
      "\<not> has_room (en_projection env t, media) (capacity_get (wk_capacity w) (en_projection env t) media) (wk_slots w)"
      "is_video_task t"
      "claim_turn env media A c w = Again (insert (tk_id t) A) c (put_back env (en_projection env t) t (w\<lparr>wk_repo := r\<rparr>))"
  | (other_full) t r where "claim_next media (set (pool_full_providers media w)) A (en_now env) (wk_repo w) (wk_repo w) = Some (t, r)"
      "0 < capacity_get (wk_capacity w) (en_projection env t) media"
      "\<not> has_room (en_projection env t, media) (capacity_get (wk_capacity w) (en_projection env t) media) (wk_slots w)"
      "\<not> is_video_task t"
      "claim_turn env media A c w = Leave c (put_back env (en_projection env t) t (w\<lparr>wk_repo := r\<rparr>))"
  | (dispatched) t r where "claim_next media (set (pool_full_providers media w)) A (en_now env) (wk_repo w) (wk_repo w) = Some (t, r)"
      "0 < capacity_get (wk_capacity w) (en_projection env t) media"
      "has_room (en_projection env t, media) (capacity_get (wk_capacity w) (en_projection env t) media) (wk_slots w)"
      "claim_turn env media A c w = (if media \<in> {''text'', RENDER_MEDIA_TYPE}
         then Leave True (dispatch media (en_projection env t) t (w\<lparr>wk_repo := r\<rparr>))
         else Again A True (dispatch media (en_projection env t) t (w\<lparr>wk_repo := r\<rparr>)))"
proof (cases "claim_next media (set (pool_full_providers media w)) A (en_now env) (wk_repo w) (wk_repo w)")
  case None
  show ?thesis by (rule idle [OF None]) (simp add: claim_turn_def None)
next
  case (Some x)
  obtain t r where x: "x = (t, r)" by (cases x)
  let ?cap = "capacity_get (wk_capacity w) (en_projection env t) media"
  let ?room = "has_room (en_projection env t, media) ?cap (wk_slots w)"
  note turn = claim_turn_def [of env media A c w, unfolded Some x option.case prod.case Let_def, simplified]
  consider "?cap \<le> 0" | "0 < ?cap" "\<not> ?room" "is_video_task t" | "0 < ?cap" "\<not> ?room" "\<not> is_video_task t" | "0 < ?cap" ?room
    by linarith
  then show ?thesis
  proof cases
    case 1
    then show ?thesis using refused [OF Some [unfolded x]] by (simp add: turn)
  next
    case 2
    then show ?thesis using video_full [OF Some [unfolded x]] by (simp add: turn)
  next
    case 3
    then show ?thesis using other_full [OF Some [unfolded x]] by (simp add: turn)
  next
    case 4
    then show ?thesis using dispatched [OF Some [unfolded x]] by (simp add: turn)
  qed
qed

lemma turn_waiting:
  assumes "claim_turn env media A c w = Again A' c' w'"
  shows "matching (waiting A') (wk_repo w') < matching (waiting A) (wk_repo w)"
proof (cases rule: claim_turn_cases [of media w A env c])
  case (refused t r)
  then show ?thesis
    using assms le_less_trans [OF fail_task_waiting claim_next_waiting [OF refused(1)]] by (auto simp: refuse_def)
next
  case (video_full t r)
  have "matching (waiting (insert (tk_id t) A)) (snd (requeue env (tk_id t) (refresh env (tk_id t) (en_projection env t) r)))
      \<le> matching (waiting A) (refresh env (tk_id t) (en_projection env t) r)"
    by (rule requeue_waiting)
  also have "\<dots> \<le> matching (waiting A) r" by (rule refresh_waiting)
  also have "\<dots> < matching (waiting A) (wk_repo w)" by (rule claim_next_waiting [OF video_full(1)])
  finally show ?thesis using assms video_full(5) by (auto simp: put_back_def)
next
  case (dispatched t r)
  then show ?thesis
    using assms claim_next_waiting [OF dispatched(1)] by (auto simp: dispatch_def split: if_splits)
qed (use assms in auto)

lemma claim_lane_returns: "\<exists>res. claim_lane env media A c w = Some res"
proof (induction "matching (waiting A) (wk_repo w)" arbitrary: A c w rule: less_induct)
  case less
  show ?case
  proof (cases "claim_turn env media A c w")
    case (Again A' c' w')
    then show ?thesis
      using less [OF turn_waiting [OF Again]] by (subst claim_lane.simps) simp
  qed (subst claim_lane.simps, simp)
qed

lemma claim_tasks_returns: "\<exists>res. claim_tasks env lanes c w = Some res"
proof (induction lanes arbitrary: c w)
  case (Cons media lanes)
  obtain c' w' where "claim_lane env media {} c w = Some (c', w')"
    using claim_lane_returns [of env media "{}" c w] by auto
  then show ?case using Cons [of c' w'] by simp
qed simp

fun turn_worker :: "turn \<Rightarrow> worker" where
  "turn_worker (Leave c w) = w"
| "turn_worker (Again A c w) = w"

text \<open>What every turn keeps, a lane keeps: the attempted tasks may take part\<close>

lemma claim_lane_induct:
  assumes lane: "claim_lane env media A c w = Some (c', w')" and start: "I A w"
    and again: "\<And>A c w A' c' w'. I A w \<Longrightarrow> claim_turn env media A c w = Again A' c' w' \<Longrightarrow> I A' w'"
    and leave: "\<And>A c w c' w'. I A w \<Longrightarrow> claim_turn env media A c w = Leave c' w' \<Longrightarrow> P w'"
  shows "P w'"
  using lane start
proof (induction "matching (waiting A) (wk_repo w)" arbitrary: A c w rule: less_induct)
  case less
  show ?case
  proof (cases "claim_turn env media A c w")
    case (Leave c1 w1)
    then show ?thesis using less.prems leave by (subst (asm) claim_lane.simps) simp
  next
    case (Again A1 c1 w1)
    then have "claim_lane env media A1 c1 w1 = Some (c', w')"
      using less.prems(1) by (subst (asm) claim_lane.simps) simp
    then show ?thesis using less.hyps [OF turn_waiting [OF Again]] again [OF less.prems(2) Again] by blast
  qed
qed

lemma claim_tasks_induct:
  assumes "claim_tasks env lanes c w = Some (c', w')" "I w"
    and turn: "\<And>media A c w. media \<in> set lanes \<Longrightarrow> I w \<Longrightarrow> I (turn_worker (claim_turn env media A c w))"
  shows "I w'"
  using assms
proof (induction lanes arbitrary: c w)
  case (Cons media lanes)
  obtain c1 w1 where lane: "claim_lane env media {} c w = Some (c1, w1)" and rest: "claim_tasks env lanes c1 w1 = Some (c', w')"
    using Cons.prems(1) by (auto simp: bind_eq_Some_conv)
  have "I w1"
  proof (rule claim_lane_induct [OF lane, where I = "\<lambda>_. I"])
    show "I w" by (rule Cons.prems(2))
    fix A c w A' c' w'
    assume "I w" "claim_turn env media A c w = Again A' c' w'"
    then show "I w'" using Cons.prems(3) [of media w A c] by simp
  next
    fix A c w c' w'
    assume "I w" "claim_turn env media A c w = Leave c' w'"
    then show "I w'" using Cons.prems(3) [of media w A c] by simp
  qed
  then show ?case using Cons.IH [OF rest] Cons.prems(3) by simp
qed simp

end
