(* ===== verification/WorkerProps.thy ===== *)
theory WorkerProps
  imports WorkerClaims
begin

text \<open>
  Properties of the worker: its statements are runs of the queue, claims respect the capacities,
  a claimed task has a slot unless the database refused to put it back, and a lane leaves no task that
  could run, with the exception that \<open>lane_leaves_nothing\<close> names.
\<close>

section \<open>The worker and the queue\<close>

lemma turn_runs:
  assumes "runs (en_bound env) (en_blocked env) code s (wk_repo w)"
  shows "runs (en_bound env) (en_blocked env) code s (wk_repo (turn_worker (claim_turn env media A c w)))"
proof -
  let ?R = "runs (en_bound env) (en_blocked env) code s"
  have claim: "?R r" if "claim_next media full A (en_now env) (wk_repo w) (wk_repo w) = Some (t, r)" for full t r
    by (rule runs.claim [OF assms runs.start that])
  have fail: "?R (fail_task env tid m r)" if "?R r" for tid m r
    unfolding fail_task_def by (rule runs.fail [OF that]) (rule prod.collapse [symmetric])
  have requeued: "?R (wk_repo (put_back env p t (w\<lparr>wk_repo := r\<rparr>)))" if "?R r" for p t r
  proof -
    have "?R (refresh env (tk_id t) p r)" using that by (auto simp: refresh_def intro: runs.provider)
    then show ?thesis
      by (auto simp: put_back_def requeue_def intro: runs.put_back [OF _ prod.collapse [symmetric]])
  qed
  show ?thesis
    by (cases rule: claim_turn_cases [of media w A env c])
      (auto simp: assms claim fail requeued refuse_def dispatch_def)
qed

lemma claim_tasks_runs:
  assumes "claim_tasks env lanes c w = Some (c', w')"
  shows "runs (en_bound env) (en_blocked env) code (wk_repo w) (wk_repo w')"
  by (rule claim_tasks_induct [OF assms]) (auto intro: runs.start turn_runs)

lemma interrupt_runs: "runs b bl code s r \<Longrightarrow> runs b bl code s (interrupt env tid r)"
  unfolding interrupt_def by (rule runs.interrupt [OF _ prod.collapse [symmetric]])

lemma fail_task_runs:
  "runs (en_bound env) (en_blocked env) code s r \<Longrightarrow> runs (en_bound env) (en_blocked env) code s (fail_task env tid m r)"
  unfolding fail_task_def by (rule runs.fail [OF _ prod.collapse [symmetric]])

lemma succeeded_runs: "runs b bl code s r \<Longrightarrow> runs b bl code s (snd (mark_succeeded tid result now r))"
  by (rule runs.succeed [OF _ prod.collapse [symmetric]])

lemma requeue_runs:
  assumes "runs b bl code s r"
  shows "runs b bl code s (snd (requeue env tid (refresh env tid p r)))"
proof -
  have "runs b bl code s (refresh env tid p r)" using assms by (auto simp: refresh_def intro: runs.provider)
  then show ?thesis by (auto simp: requeue_def intro: runs.put_back [OF _ prod.collapse [symmetric]])
qed

lemma shielded_runs:
  "runs b bl code s r \<Longrightarrow> runs b bl code s (write r) \<Longrightarrow> runs b bl code s (fst (shielded fate write r))"
  by (simp add: shielded_def split: fate.split)

lemma interrupted_runs: "runs b bl code s r \<Longrightarrow> runs b bl code s (fst (interrupted env fates tid r))"
  unfolding interrupted_def using shielded_runs [of b bl code s r "interrupt env tid"] interrupt_runs [of b bl code s r]
  by (simp add: split_beta)

lemma store_result_runs: "runs b bl code s r \<Longrightarrow> runs b bl code s (fst (store_result env fates tid result r))"
  unfolding store_result_def Let_def
  by (cases "fa_end fates") (simp_all add: split_beta shielded_runs succeeded_runs interrupted_runs)

lemma move_task_runs:
  assumes "runs (en_bound env) (en_blocked env) code s r"
  shows "runs (en_bound env) (en_blocked env) code s (fst (move_task env fates tid claimed actual r))"
proof -
  have r1: "runs (en_bound env) (en_blocked env) code s (refresh env tid actual r)"
    using assms by (auto simp: refresh_def intro: runs.provider)
  have r2: "runs (en_bound env) (en_blocked env) code s (snd (requeue env tid (refresh env tid actual r)))"
    by (rule requeue_runs [OF assms])
  obtain ok r' where r': "requeue env tid (refresh env tid actual r) = (ok, r')" by force
  show ?thesis
    using assms r1 r2 [unfolded r'] fail_task_runs [OF r2 [unfolded r']]
    by (simp add: move_task_def Let_def r' end_failed_def shielded_runs split: option.split bool.split)
qed

lemma run_claimed_task_runs:
  "runs (en_bound env) (en_blocked env) code r (fst (run_claimed_task env revoked fates tid outcome r))"
  using runs.start [of "en_bound env" "en_blocked env" code r]
  by (cases outcome)
    (simp_all add: run_claimed_task_def fail_task_of_deleted_project_def end_failed_def shielded_runs fail_task_runs
      interrupted_runs move_task_runs store_result_runs)

lemma collect_runs:
  "runs b bl code s r \<Longrightarrow> runs b bl code s (fold (collect env) finished r)"
proof (induction finished arbitrary: r)
  case (Cons e finished)
  have "runs b bl code s (collect env e r)"
    using Cons.prems by (cases e) (auto simp: collect_def intro: interrupt_runs)
  then show ?case using Cons.IH by simp
qed simp

text \<open>
  What the worker and its resumptions may do, in any order: claim cycles, tasks that end, collections,
  reloads, and the entries of resumed tasks, which wait, are promoted and are released; and what the
  other clients of the queue do meanwhile
\<close>

inductive worker_runs :: "(string \<Rightarrow> string option) \<Rightarrow> env \<Rightarrow> worker \<Rightarrow> worker \<Rightarrow> bool" for code env where
  start: "worker_runs code env w w"
| claims: "worker_runs code env w w1 \<Longrightarrow> claim_tasks env lanes False w1 = Some (c, w2) \<Longrightarrow> worker_runs code env w w2"
| ends: "worker_runs code env w w1 \<Longrightarrow> process_task env revoked fates l tid outcome w1 = w2 \<Longrightarrow> worker_runs code env w w2"
| collects: "worker_runs code env w w1 \<Longrightarrow> drain_finished_tasks env w1 = w2 \<Longrightarrow> worker_runs code env w w2"
| reloads: "worker_runs code env w w1 \<Longrightarrow> reload_limits loaded w1 = w2 \<Longrightarrow> worker_runs code env w w2"
| enters: "worker_runs code env w w1 \<Longrightarrow> w1\<lparr>wk_slots := register l tid x (wk_slots w1)\<rparr> = w2 \<Longrightarrow> worker_runs code env w w2"
| promotes: "worker_runs code env w w1 \<Longrightarrow> w1\<lparr>wk_slots := promote l tid (wk_slots w1)\<rparr> = w2 \<Longrightarrow> worker_runs code env w w2"
| releases: "worker_runs code env w w1 \<Longrightarrow> w1\<lparr>wk_slots := release l tid (wk_slots w1)\<rparr> = w2 \<Longrightarrow> worker_runs code env w w2"
| others: "worker_runs code env w w1 \<Longrightarrow> runs (en_bound env) (en_blocked env) code (wk_repo w1) r
    \<Longrightarrow> w1\<lparr>wk_repo := r\<rparr> = w2 \<Longrightarrow> worker_runs code env w w2"

lemma runs_trans:
  assumes "runs b bl code s1 s2" "runs b bl code s s1"
  shows "runs b bl code s s2"
  using assms by (induction rule: runs.induct) (blast intro: runs.intros)+

lemma worker_runs_queue:
  assumes "worker_runs code env w w'"
  shows "runs (en_bound env) (en_blocked env) code (wk_repo w) (wk_repo w')"
  using assms
proof (induction rule: worker_runs.induct)
  case (claims w w1 lanes c w2)
  then show ?case using claim_tasks_runs [OF claims(2)] runs_trans by blast
next
  case (ends w w1 revoked fates l tid outcome w2)
  have "wk_repo w2 = fst (run_claimed_task env revoked fates tid outcome (wk_repo w1))"
    unfolding ends(2) [symmetric] process_task_def by (simp add: split_beta)
  then show ?case using run_claimed_task_runs ends(3) runs_trans by metis
next
  case (collects w w1 w2)
  then show ?case using collect_runs [OF collects(3)] by (auto simp: drain_finished_tasks_def split_beta)
next
  case (reloads w w1 loaded w2)
  then show ?case by (auto simp: reload_limits_def split: option.splits)
next
  case (others w w1 r w2)
  then show ?case using runs_trans by fastforce
qed (auto intro: runs.start)

section \<open>The ledger during a claim cycle\<close>

lemma turn_ledger:
  obtains (same) "wk_slots (turn_worker (claim_turn env media A c w)) = wk_slots w"
  | (dispatched) t r where "claim_next media (set (pool_full_providers media w)) A (en_now env) (wk_repo w) (wk_repo w) = Some (t, r)"
      "has_room (en_projection env t, media) (capacity_get (wk_capacity w) (en_projection env t) media) (wk_slots w)"
      "turn_worker (claim_turn env media A c w) = dispatch media (en_projection env t) t (w\<lparr>wk_repo := r\<rparr>)"
  by (cases rule: claim_turn_cases [of media w A env c])
    (auto simp: refuse_def put_back_def intro: same dispatched)

lemma turn_capacity [simp]: "wk_capacity (turn_worker (claim_turn env media A c w)) = wk_capacity w"
  by (cases rule: claim_turn_cases [of media w A env c]) (auto simp: refuse_def put_back_def dispatch_def)

lemma turn_slots_ok: "slots_ok (wk_slots w) \<Longrightarrow> slots_ok (wk_slots (turn_worker (claim_turn env media A c w)))"
  by (cases rule: turn_ledger [of env media A c w]) (simp_all add: dispatch_def slots_ok_register)

lemma turn_keeps_slot:
  "slot (wk_slots w) l i \<noteq> None \<Longrightarrow> slot (wk_slots (turn_worker (claim_turn env media A c w))) l i \<noteq> None"
  by (cases rule: turn_ledger [of env media A c w]) (auto simp: dispatch_def slot_register)

lemma turn_occupied:
  assumes "slots_ok (wk_slots w)"
  shows "int (occupied (p, m) (wk_slots (turn_worker (claim_turn env media A c w))))
    \<le> max (int (occupied (p, m) (wk_slots w))) (capacity_get (wk_capacity w) p m)"
proof (cases rule: turn_ledger [of env media A c w])
  case (dispatched t r)
  show ?thesis
  proof (cases "(p, m) = (en_projection env t, media)")
    case True
    then show ?thesis
      using dispatched(2) slots.put_within [OF assms, of "(p, m)"] by (auto simp: dispatched(3) dispatch_def has_room_iff)
  next
    case False
    then show ?thesis
      using slots.count_put [OF assms, of "(p, m)" "(en_projection env t, media)"] by (auto simp: dispatched(3) dispatch_def)
  qed
qed simp

lemma turn_occupied_mono:
  assumes "slots_ok (wk_slots w)"
  shows "occupied l (wk_slots w) \<le> occupied l (wk_slots (turn_worker (claim_turn env media A c w)))"
  by (cases rule: turn_ledger [of env media A c w]) (auto simp: dispatch_def slots.count_put [OF assms])

text \<open>
  Property C27: claims respect the capacities.  After a claim cycle a lane of a provider holds at most
  as many tasks as its capacity, or as it held before, and no task that held a slot has lost it.
\<close>

theorem claims_within_capacity:
  assumes "claim_tasks env lanes c w = Some (c', w')" "slots_ok (wk_slots w)"
  shows "int (occupied (p, m) (wk_slots w')) \<le> max (int (occupied (p, m) (wk_slots w))) (capacity_get (wk_capacity w) p m)
    \<and> set (active_task_ids (wk_slots w)) \<subseteq> set (active_task_ids (wk_slots w'))"
proof -
  let ?I = "\<lambda>v :: worker. slots_ok (wk_slots v) \<and> wk_capacity v = wk_capacity w
    \<and> int (occupied (p, m) (wk_slots v)) \<le> max (int (occupied (p, m) (wk_slots w))) (capacity_get (wk_capacity w) p m)
    \<and> (\<forall>l i. slot (wk_slots w) l i \<noteq> None \<longrightarrow> slot (wk_slots v) l i \<noteq> None)"
  have "?I w'"
  proof (rule claim_tasks_induct [OF assms(1)])
    fix media A c v
    assume I: "?I v"
    then have "int (occupied (p, m) (wk_slots (turn_worker (claim_turn env media A c v))))
        \<le> max (int (occupied (p, m) (wk_slots w))) (capacity_get (wk_capacity w) p m)"
      using turn_occupied [of v p m env media A c] by (auto simp: le_max_iff_disj)
    then show "?I (turn_worker (claim_turn env media A c v))"
      using I turn_slots_ok turn_keeps_slot by (metis turn_capacity)
  qed (use assms(2) in simp)
  then show ?thesis using active_task_ids_iff assms(2) by blast
qed

section \<open>Every claimed task has a slot\<close>

interpretation fewer_active: finishing "\<lambda>s s'. {t \<in> set (tasks s'). active t} \<subseteq> {t \<in> set (tasks s). active t}"
proof
  fix "from" f tid s t s1
  assume fin: "finish_row from f tid s = Some (t, s1)" "finisher from f"
  have "tasks s1 = map (\<lambda>t. if tk_id t = tid \<and> tk_status t \<in> set from then f t else t) (tasks s)"
    using fin(1) by (auto simp: finish_row_def Let_def split: if_splits)
  moreover have "\<not> active (f u)" for u using finisher_row(2) [OF fin(2), of u] by auto
  ultimately show "{t \<in> set (tasks s1). active t} \<subseteq> {t \<in> set (tasks s). active t}"
    by (auto split: if_splits)
qed blast+

lemma fail_task_running:
  assumes "t \<in> set (tasks (fail_task env tid m r))" "tk_status t = Running"
  shows "t \<in> set (tasks r)" "tk_id t \<noteq> tid"
proof -
  show "t \<in> set (tasks r)"
    using fewer_active.mark_failed [of "en_bound env" "en_blocked env" tid m "en_now env" r] assms by (auto simp: fail_task_def)
  show "tk_id t \<noteq> tid"
  proof
    assume id: "tk_id t = tid"
    show False
    proof (cases "mark_failed_running (en_bound env) tid m (en_now env) r")
      case None
      then have "tk_status t \<notin> set [Running]"
        by (intro finish_row_fails [OF _ _ \<open>t \<in> set (tasks r)\<close> id, of _ "failed_row (en_bound env m) (en_now env)"])
          (simp_all add: mark_failed_running_def failed_row_def)
      then show False using assms(2) by simp
    next
      case (Some x)
      obtain u s1 where x: "x = (u, s1)" by (cases x)
      let ?g = "\<lambda>t. if tk_id t = tid \<and> tk_status t \<in> set [Running] then failed_row (en_bound env m) (en_now env) t else t"
      have s1: "tasks s1 = map ?g (tasks r)"
        using Some x by (auto simp: mark_failed_running_def finish_row_def Let_def split: if_splits)
      have "fail_task env tid m r =
          snd (cascade_failed (en_bound env) (en_blocked env) m (en_now env) (map (Pair tid) (dependent_ids tid s1)) s1)"
        by (simp add: fail_task_def mark_failed_def Some x)
      then have "t \<in> set (tasks s1)"
        using assms fewer_active.failed [of "en_bound env" "en_blocked env" m "en_now env" "map (Pair tid) (dependent_ids tid s1)" s1]
        by auto
      then obtain u where u: "t = ?g u" unfolding s1 by (auto simp only: list.set_map)
      then have "\<not> (tk_id u = tid \<and> tk_status u \<in> set [Running])" using assms(2) by (auto simp: failed_row_def split: if_splits)
      moreover then have "t = u" using u by (simp only: if_False)
      ultimately show False using id assms(2) by simp
    qed
  qed
qed

lemma refresh_row:
  assumes "t \<in> set (tasks (refresh env i p r))"
  shows "\<exists>t' \<in> set (tasks r). tk_status t' = tk_status t \<and> tk_id t' = tk_id t \<and> tk_media t' = tk_media t \<and> tk_dependency t' = tk_dependency t"
proof (cases "en_refresh_ok env i")
  case True
  then obtain t' where "t' \<in> set (tasks r)" "t = (if tk_id t' = i then t'\<lparr>tk_provider := Some p, tk_updated_at := en_now env\<rparr> else t')"
    using assms by (auto simp: refresh_def persist_execution_provider_id_def)
  then show ?thesis by (intro bexI [of _ t']) simp_all
next
  case False
  then show ?thesis using assms by (intro bexI [of _ t]) (simp_all add: refresh_def)
qed

lemma requeue_row:
  assumes "t \<in> set (tasks (snd (requeue env i r)))" "tk_status t = Running"
  shows "t \<in> set (tasks r)" "tk_id t = i \<Longrightarrow> \<not> en_requeue_ok env i"
proof -
  have "t \<in> set (tasks r) \<and> (tk_id t = i \<longrightarrow> \<not> en_requeue_ok env i)"
  proof (cases "en_requeue_ok env i")
    case True
    let ?f = "\<lambda>t. t\<lparr>tk_status := Queued, tk_started_at := None, tk_updated_at := en_now env\<rparr>"
    obtain t' where t': "t' \<in> set (tasks r)" "t = (if tk_id t' = i \<and> tk_status t' = Running then ?f t' else t')"
      using True assms(1) by (auto simp: requeue_def requeue_single_task_def Let_def)
    have "\<not> (tk_id t' = i \<and> tk_status t' = Running)" using t'(2) assms(2) by (auto split: if_splits)
    then have "t = t'" using t'(2) by (simp only: if_False)
    then show ?thesis using \<open>\<not> (tk_id t' = i \<and> tk_status t' = Running)\<close> t'(1) assms(2) by simp
  qed (use assms in \<open>simp add: requeue_def\<close>)
  then show "t \<in> set (tasks r)" "tk_id t = i \<Longrightarrow> \<not> en_requeue_ok env i" by blast+
qed

lemma put_back_running:
  assumes "t \<in> set (tasks (wk_repo (put_back env p u v)))" "tk_status t = Running"
  shows "\<exists>t' \<in> set (tasks (wk_repo v)). tk_status t' = Running \<and> tk_id t' = tk_id t \<and> tk_media t' = tk_media t"
    "tk_id t = tk_id u \<Longrightarrow> \<not> en_requeue_ok env (tk_id u)"
proof -
  have t: "t \<in> set (tasks (snd (requeue env (tk_id u) (refresh env (tk_id u) p (wk_repo v)))))"
    using assms(1) by (simp add: put_back_def)
  show "\<exists>t' \<in> set (tasks (wk_repo v)). tk_status t' = Running \<and> tk_id t' = tk_id t \<and> tk_media t' = tk_media t"
    using refresh_row [OF requeue_row(1) [OF t assms(2)]] assms(2) by auto
  show "tk_id t = tk_id u \<Longrightarrow> \<not> en_requeue_ok env (tk_id u)" by (rule requeue_row(2) [OF t assms(2)])
qed

text \<open>A running task, of the tasks that ran before (\<open>old\<close>), is accounted for\<close>

definition has_slot :: "worker \<Rightarrow> string list \<Rightarrow> task \<Rightarrow> bool" where
  "has_slot w lanes t \<longleftrightarrow> tk_media t \<in> set lanes \<and> (\<exists>p. 0 < capacity_get (wk_capacity w) p (tk_media t)
     \<and> slot (wk_slots w) (p, tk_media t) (tk_id t) \<noteq> None)"

definition accounted :: "env \<Rightarrow> string set \<Rightarrow> string list \<Rightarrow> worker \<Rightarrow> task \<Rightarrow> bool" where
  "accounted env old lanes w t \<longleftrightarrow> tk_id t \<in> old \<or> \<not> en_requeue_ok env (tk_id t) \<or> has_slot w lanes t"

lemma accounted_turn:
  "accounted env old lanes w t \<Longrightarrow> accounted env old lanes (turn_worker (claim_turn env media A c w)) t"
  using turn_keeps_slot [of w _ _ env media A c] unfolding accounted_def has_slot_def by fastforce

lemma accounted_cong: "accounted env old lanes w t \<Longrightarrow> tk_id t' = tk_id t \<Longrightarrow> tk_media t' = tk_media t \<Longrightarrow> accounted env old lanes w t'"
  by (simp add: accounted_def has_slot_def)

lemma turn_accounted:
  assumes "media \<in> set lanes" "distinct (map tk_id (tasks (wk_repo w)))"
    and old: "\<And>t. t \<in> set (tasks (wk_repo w)) \<Longrightarrow> tk_status t = Running \<Longrightarrow> accounted env old lanes w t"
    and t': "t' \<in> set (tasks (wk_repo (turn_worker (claim_turn env media A c w))))" "tk_status t' = Running"
  shows "accounted env old lanes (turn_worker (claim_turn env media A c w)) t'"
proof -
  let ?w = "turn_worker (claim_turn env media A c w)"
  have before: "accounted env old lanes ?w t'"
    if "x \<in> set (tasks (wk_repo w))" "tk_status x = Running" "tk_id t' = tk_id x" "tk_media t' = tk_media x" for x
    using accounted_cong [OF accounted_turn [OF old [OF that(1,2)]] that(3,4)] .
  have claimed: "accounted env old lanes ?w t'"
    if "claim_next media full A (en_now env) (wk_repo w) (wk_repo w) = Some (t, r)" "x \<in> set (tasks r)" "tk_status x = Running"
      "tk_id t' = tk_id x" "tk_media t' = tk_media x" "tk_id x \<noteq> tk_id t" for full t r x
  proof (rule claim_next_row [OF that(1) assms(2)])
    fix u
    assume "r = update_tasks (\<lambda>v. tk_id v = tk_id u \<and> tk_status v = Queued) (claimed_row (en_now env)) (wk_repo w)"
      "t = claimed_row (en_now env) u"
    then have "x \<in> set (tasks (wk_repo w))" using that(2,6) by (auto simp: claimed_row_def split: if_splits)
    then show ?thesis using before that(3-5) by blast
  qed
  show ?thesis
  proof (cases rule: claim_turn_cases [of media w A env c])
    case idle
    then show ?thesis using before t' by simp
  next
    case (refused t r)
    then have "t' \<in> set (tasks (fail_task env (tk_id t) (en_encode env ''provider_unsupported_media''
        [(''provider_id'', en_projection env t), (''media_type'', media)]) r))"
      using t'(1) by (simp add: refuse_def)
    from fail_task_running [OF this t'(2)] show ?thesis using claimed [OF refused(1)] t'(2) by simp
  next
    case (video_full t r)
    then have t'': "t' \<in> set (tasks (wk_repo (put_back env (en_projection env t) t (w\<lparr>wk_repo := r\<rparr>))))" using t'(1) by simp
    show ?thesis
    proof (cases "tk_id t' = tk_id t")
      case True
      then show ?thesis using put_back_running(2) [OF t'' t'(2)] by (simp add: accounted_def)
    next
      case False
      then show ?thesis using put_back_running(1) [OF t'' t'(2)] claimed [OF video_full(1)] by fastforce
    qed
  next
    case (other_full t r)
    then have t'': "t' \<in> set (tasks (wk_repo (put_back env (en_projection env t) t (w\<lparr>wk_repo := r\<rparr>))))" using t'(1) by simp
    show ?thesis
    proof (cases "tk_id t' = tk_id t")
      case True
      then show ?thesis using put_back_running(2) [OF t'' t'(2)] by (simp add: accounted_def)
    next
      case False
      then show ?thesis using put_back_running(1) [OF t'' t'(2)] claimed [OF other_full(1)] by fastforce
    qed
  next
    case (dispatched t r)
    have w': "?w = dispatch media (en_projection env t) t (w\<lparr>wk_repo := r\<rparr>)" using dispatched(4) by simp
    show ?thesis
    proof (cases "tk_id t' = tk_id t")
      case True
      have "tk_media t' = media"
      proof (rule claim_next_row [OF dispatched(1) assms(2)])
        fix u
        assume u: "u \<in> set (tasks (wk_repo w))" "claimable media (set (pool_full_providers media w)) A (wk_repo w) u"
          "t = claimed_row (en_now env) u"
          and r: "r = update_tasks (\<lambda>v. tk_id v = tk_id u \<and> tk_status v = Queued) (claimed_row (en_now env)) (wk_repo w)"
        have "t' \<in> set (tasks r)" using t'(1) by (simp add: w' dispatch_def)
        then obtain x where x: "x \<in> set (tasks (wk_repo w))" "tk_id x = tk_id t'" "tk_media x = tk_media t'"
          by (auto simp: r claimed_row_def split: if_splits)
        have "x = u" using distinct_same_id [OF assms(2) x(1) u(1)] x(2) True u(3) by (simp add: claimed_row_def)
        then show ?thesis using x(3) u(2) by (simp add: claimable_def)
      qed
      then show ?thesis
        using assms(1) dispatched(2) True by (auto simp: accounted_def has_slot_def w' dispatch_def slot_register)
    next
      case False
      then show ?thesis using claimed [OF dispatched(1), of t'] t' by (simp add: w' dispatch_def)
    qed
  qed
qed

lemma turn_indexes:
  assumes "indexes_ok (tasks (wk_repo w))"
  shows "indexes_ok (tasks (wk_repo (turn_worker (claim_turn env media A c w))))"
  using indexes.steps [OF runs_refine [OF turn_runs [OF runs.start] assms] assms] .

text \<open>
  Property C29: every task a claim cycle starts is in the ledger.  A task that runs after the cycle ran
  before it, or holds a slot of its lane with a provider that may run it; the exception is a task whose
  way back into the queue the database refused, which \<open>_claim_tasks\<close> does not notice.
\<close>

theorem claimed_tasks_hold_slots:
  assumes "claim_tasks env lanes c w = Some (c', w')" "indexes_ok (tasks (wk_repo w))"
    and "t \<in> set (tasks (wk_repo w'))" "tk_status t = Running" "en_requeue_ok env (tk_id t)"
  shows "(\<exists>u \<in> set (tasks (wk_repo w)). tk_id u = tk_id t \<and> tk_status u = Running) \<or> has_slot w' lanes t"
proof -
  let ?old = "tk_id ` {u \<in> set (tasks (wk_repo w)). tk_status u = Running}"
  let ?I = "\<lambda>v. indexes_ok (tasks (wk_repo v))
    \<and> (\<forall>t \<in> set (tasks (wk_repo v)). tk_status t = Running \<longrightarrow> accounted env ?old lanes v t)"
  have "?I w'"
  proof (rule claim_tasks_induct [OF assms(1)])
    show "?I w" using assms(2) by (auto simp: accounted_def)
  next
    fix media A c v
    assume m: "media \<in> set lanes" and I: "?I v"
    then have "distinct (map tk_id (tasks (wk_repo v)))" by (simp add: indexes_ok_def)
    then have "accounted env ?old lanes (turn_worker (claim_turn env media A c v)) t"
      if "t \<in> set (tasks (wk_repo (turn_worker (claim_turn env media A c v))))" "tk_status t = Running" for t
      using turn_accounted [OF m] I that by blast
    then show "?I (turn_worker (claim_turn env media A c v))" using turn_indexes I by blast
  qed
  then have "accounted env ?old lanes w' t" using assms(3,4) by blast
  then show ?thesis using assms(5) by (auto simp: accounted_def)
qed

section \<open>What a lane leaves behind\<close>

text \<open>The columns by which a row is routed\<close>

definition route :: "task \<Rightarrow> string \<times> string \<times> string \<times> string option" where
  "route t = (tk_id t, tk_media t, tk_type t, tk_provider t)"

interpretation same_routes: finishing "\<lambda>s s'. route ` set (tasks s') \<subseteq> route ` set (tasks s)"
proof
  fix "from" f tid s t s1
  assume fin: "finish_row from f tid s = Some (t, s1)" "finisher from f"
  have "tasks s1 = map (\<lambda>t. if tk_id t = tid \<and> tk_status t \<in> set from then f t else t) (tasks s)"
    using fin(1) by (auto simp: finish_row_def Let_def split: if_splits)
  moreover have "route (f u) = route u" for u
    using fin(2) by (auto simp: finisher_def route_def succeeded_row_def failed_row_def cancelled_row_def)
  ultimately show "route ` set (tasks s1) \<subseteq> route ` set (tasks s)" by (auto split: if_splits)
qed blast+

lemma claim_next_Nothing:
  assumes "claim_next media full A now s s = None" "u \<in> set (tasks s)"
  shows "\<not> claimable media full A s u"
proof
  assume u: "claimable media full A s u"
  let ?q = "sort_key tk_queued_at (filter (claimable media full A s) (tasks s))"
  have set_q: "set ?q = {t \<in> set (tasks s). claimable media full A s t}" by auto
  then obtain t ts where q: "?q = t # ts" using u assms(2) by (cases ?q) auto
  then have t: "t \<in> set (tasks s)" "claimable media full A s t" using set_q by auto
  let ?s = "update_tasks (\<lambda>v. tk_id v = tk_id t \<and> tk_status v = Queued)
      (\<lambda>v. v\<lparr>tk_status := Running, tk_started_at := Some now, tk_updated_at := now\<rparr>) s"
  have "matching (\<lambda>v. tk_id v = tk_id t \<and> tk_status v = Queued) s \<noteq> 0"
    using t by (auto simp: matching_0 claimable_def)
  moreover have "map tk_id (tasks ?s) = map tk_id (tasks s)" by simp
  then have "tk_id ` set (tasks ?s) = tk_id ` set (tasks s)" by (metis list.set_map)
  then have "find_task (tk_id t) ?s \<noteq> None" unfolding find_task_None using t(1) by simp
  ultimately show False
    using assms(1) q by (auto simp: claim_next_def claim_select_def claim_update_def Let_def)
qed

definition provider_full :: "worker \<Rightarrow> string \<Rightarrow> string \<Rightarrow> bool" where
  "provider_full w media p \<longleftrightarrow> 0 < capacity_get (wk_capacity w) p media
     \<and> \<not> has_room (p, media) (capacity_get (wk_capacity w) p media) (wk_slots w)"

lemma pool_full_iff:
  assumes "slots_ok (wk_slots w)"
  shows "p \<in> set (pool_full_providers media w) \<longleftrightarrow> provider_full w media p"
  using occupied_providers_iff [OF assms, of p media]
  by (auto simp: pool_full_providers_def provider_full_def has_room_iff Let_def)

lemma provider_full_turn:
  assumes "slots_ok (wk_slots w)" "provider_full w media' p"
  shows "provider_full (turn_worker (claim_turn env media A c w)) media' p"
  using assms turn_occupied_mono [OF assms(1), of "(p, media')" env media A c] by (simp add: provider_full_def has_room_iff)

lemma turn_routes:
  assumes "t' \<in> set (tasks (wk_repo (turn_worker (claim_turn env media A c w))))" "\<not> is_video_task t'"
    and "claim_turn env media A c w = Again A' c' w'" "distinct (map tk_id (tasks (wk_repo w)))"
  shows "route t' \<in> route ` set (tasks (wk_repo w))"
proof -
  have claim: "route ` set (tasks r) \<subseteq> route ` set (tasks (wk_repo w))"
    if "claim_next media full A (en_now env) (wk_repo w) (wk_repo w) = Some (t, r)" for full t r
  proof (rule claim_nextE [OF that])
    assume r: "r = update_tasks (\<lambda>v. tk_id v = tk_id t \<and> tk_status v = Queued) (claimed_row (en_now env)) (wk_repo w)"
    have "route (claimed_row now v) = route v" for now v by (simp add: claimed_row_def route_def)
    then show ?thesis by (auto simp: r)
  qed
  show ?thesis
  proof (cases rule: claim_turn_cases [of media w A env c])
    case (refused t r)
    then have "t' \<in> set (tasks (fail_task env (tk_id t) (en_encode env ''provider_unsupported_media''
        [(''provider_id'', en_projection env t), (''media_type'', media)]) r))"
      using assms(1) by (simp add: refuse_def)
    then have "route t' \<in> route ` set (tasks r)"
      using same_routes.mark_failed unfolding fail_task_def by blast
    then show ?thesis using claim [OF refused(1)] by blast
  next
    case (video_full t r)
    let ?p = "en_projection env t"
    have t': "t' \<in> set (tasks (snd (requeue env (tk_id t) (refresh env (tk_id t) ?p r))))"
      using assms(1) video_full(5) by (simp add: put_back_def)
    obtain x where x: "x \<in> set (tasks (refresh env (tk_id t) ?p r))" "route t' = route x"
    proof (cases "en_requeue_ok env (tk_id t)")
      case True
      then obtain x where "x \<in> set (tasks (refresh env (tk_id t) ?p r))"
          "t' = (if tk_id x = tk_id t \<and> tk_status x = Running
             then x\<lparr>tk_status := Queued, tk_started_at := None, tk_updated_at := en_now env\<rparr> else x)"
        using t' by (auto simp: requeue_def requeue_single_task_def Let_def)
      then show ?thesis using that by (simp add: route_def)
    qed (use t' that in \<open>simp add: requeue_def\<close>)
    show ?thesis
    proof (cases "en_refresh_ok env (tk_id t)")
      case True
      then obtain y where y: "y \<in> set (tasks r)"
          "x = (if tk_id y = tk_id t then y\<lparr>tk_provider := Some ?p, tk_updated_at := en_now env\<rparr> else y)"
        using x(1) by (auto simp: refresh_def persist_execution_provider_id_def)
      show ?thesis
      proof (cases "tk_id y = tk_id t")
        case same: True
        have "tk_type t' = tk_type y" using x(2) y(2) by (simp add: route_def)
        moreover have "y = t"
        proof (rule claim_next_row [OF video_full(1) assms(4)])
          fix u
          assume r: "r = update_tasks (\<lambda>v. tk_id v = tk_id u \<and> tk_status v = Queued) (claimed_row (en_now env)) (wk_repo w)"
            and t: "t \<in> set (tasks r)"
          have "map tk_id (tasks r) = map tk_id (tasks (wk_repo w))" by (simp add: r claimed_row_def)
          then show "y = t" using distinct_same_id [OF _ y(1) t same] assms(4) by simp
        qed
        ultimately show ?thesis using video_full(4) assms(2) by (simp add: is_video_task_def)
      next
        case False
        then have "route t' = route y" using x(2) y(2) by simp
        then show ?thesis using claim [OF video_full(1)] y(1) by auto
      qed
    next
      case False
      then show ?thesis using claim [OF video_full(1)] x by (auto simp: refresh_def)
    qed
  next
    case (dispatched t r)
    then show ?thesis using assms claim [OF dispatched(1)] by (auto simp: dispatch_def split: if_splits)
  qed (use assms in auto)
qed

text \<open>
  Property C28: a claim cycle of a lane leaves no task behind that could run.  When each task of the
  lane that is no video is stored with the provider it is routed to, then after the cycle every queued
  task of the lane whose dependency is met has a full provider; the one exception is a storyboard video
  that is stored with a full provider, although it is routed to another.
\<close>

theorem lane_leaves_nothing:
  assumes "claim_lane env media {} c w = Some (c', w')" "slots_ok (wk_slots w)" "indexes_ok (tasks (wk_repo w))"
    and "media \<notin> {''text'', RENDER_MEDIA_TYPE}" "en_projection env = (\<lambda>t. provider (tk_id t))"
    and stored: "\<forall>t \<in> set (tasks (wk_repo w)). tk_media t = media \<and> \<not> is_video_task t \<longrightarrow> tk_provider t = Some (provider (tk_id t))"
    and t: "t \<in> set (tasks (wk_repo w'))" "tk_status t = Queued" "tk_media t = media" "dependency_met (wk_repo w') t"
  shows "provider_full w' media (provider (tk_id t))
    \<or> tk_type t = ''video'' \<and> (\<exists>p. tk_provider t = Some p \<and> p \<noteq> provider (tk_id t) \<and> provider_full w' media p)"
proof -
  let ?stored = "\<lambda>v. \<forall>t \<in> set (tasks (wk_repo v)). tk_media t = media \<and> \<not> is_video_task t \<longrightarrow> tk_provider t = Some (provider (tk_id t))"
  let ?I = "\<lambda>A v. slots_ok (wk_slots v) \<and> indexes_ok (tasks (wk_repo v)) \<and> ?stored v
    \<and> (\<forall>i \<in> A. provider_full v media (provider i))"
  let ?P = "\<lambda>v. \<forall>t \<in> set (tasks (wk_repo v)). tk_status t = Queued \<longrightarrow> tk_media t = media \<longrightarrow> dependency_met (wk_repo v) t \<longrightarrow>
    provider_full v media (provider (tk_id t)) \<or> tk_type t = ''video''
      \<and> (\<exists>p. tk_provider t = Some p \<and> p \<noteq> provider (tk_id t) \<and> provider_full v media p)"
  have "?P w'"
  proof (rule claim_lane_induct [OF assms(1), where I = ?I])
    show "?I {} w" using assms(2,3) stored by blast
  next
    fix A c v A' c' v'
    assume I: "?I A v" and turn: "claim_turn env media A c v = Again A' c' v'"
    have ids: "distinct (map tk_id (tasks (wk_repo v)))" using I by (simp add: indexes_ok_def)
    have v': "v' = turn_worker (claim_turn env media A c v)" by (simp add: turn)
    have "tk_provider t = Some (provider (tk_id t))"
      if t: "t \<in> set (tasks (wk_repo v'))" "tk_media t = media" "\<not> is_video_task t" for t
    proof -
      have "route t \<in> route ` set (tasks (wk_repo v))" using turn_routes [OF _ t(3) turn ids] t(1) v' by simp
      then show ?thesis using I t(2,3) by (auto simp: route_def is_video_task_def)
    qed
    moreover have "provider_full v' media (provider i)" if "i \<in> A'" for i
    proof (cases "i \<in> A")
      case True
      then show ?thesis unfolding v' using I by (intro provider_full_turn) auto
    next
      case False
      show ?thesis
      proof (cases rule: claim_turn_cases [of media v A env c])
        case (video_full t r)
        then have "i = tk_id t" using turn that False by simp
        then have "provider_full v media (provider i)" using video_full(2,3) by (simp add: provider_full_def assms(5))
        then show ?thesis unfolding v' using I by (intro provider_full_turn) auto
      qed (use turn that False in \<open>auto split: if_splits\<close>)
    qed
    ultimately show "?I A' v'" using turn_slots_ok turn_indexes I v' by blast
  next
    fix A c v c' v'
    assume I: "?I A v" and turn: "claim_turn env media A c v = Leave c' v'"
    have pool: "p \<in> set (pool_full_providers media v) \<longleftrightarrow> provider_full v media p" for p
      using pool_full_iff I by blast
    show "?P v'"
    proof (cases rule: claim_turn_cases [of media v A env c])
      case idle
      have "provider_full v media (provider (tk_id t)) \<or> tk_type t = ''video''
          \<and> (\<exists>p. tk_provider t = Some p \<and> p \<noteq> provider (tk_id t) \<and> provider_full v media p)"
        if t: "t \<in> set (tasks (wk_repo v))" "tk_status t = Queued" "tk_media t = media" "dependency_met (wk_repo v) t" for t
      proof -
        have "\<not> claimable media (set (pool_full_providers media v)) A (wk_repo v) t"
          by (rule claim_next_Nothing [OF idle(1) t(1)])
        then consider "tk_id t \<in> A"
          | p where "tk_type t \<noteq> ''reference_video''" "tk_provider t = Some p" "p \<in> set (pool_full_providers media v)"
          using t(2-4) by (auto simp: claimable_def split: option.splits)
        then show ?thesis
        proof cases
          case 1
          then show ?thesis using I by blast
        next
          case 2
          then show ?thesis using I t(1,3) pool by (cases "p = provider (tk_id t)") (auto simp: is_video_task_def)
        qed
      qed
      then show ?thesis using idle(2) turn by simp
    next
      case (other_full t r)
      have False
      proof (rule claim_next_row [OF other_full(1)])
        show "distinct (map tk_id (tasks (wk_repo v)))" using I by (simp add: indexes_ok_def)
        fix u
        assume u: "u \<in> set (tasks (wk_repo v))" "claimable media (set (pool_full_providers media v)) A (wk_repo v) u"
          "t = claimed_row (en_now env) u"
        have "tk_provider u = Some (provider (tk_id u))"
          using I u other_full(4) by (auto simp: claimable_def claimed_row_def is_video_task_def)
        moreover have "provider (tk_id u) \<in> set (pool_full_providers media v)"
          using other_full(2,3) u(3) by (simp add: pool provider_full_def assms(5) claimed_row_def)
        moreover have "tk_type u \<noteq> ''reference_video''"
          using other_full(4) u(3) by (simp add: claimed_row_def is_video_task_def)
        ultimately show False using u(2) by (auto simp: claimable_def)
      qed
      then show ?thesis ..
    next
      case (dispatched t r)
      then show ?thesis using turn assms(4) by (auto split: if_splits)
    qed (use turn in simp_all)
  qed
  then show ?thesis using t by blast
qed

end
