(* ===== verification/WorkerEnds.thy ===== *)
theory WorkerEnds
  imports WorkerProps TaskProps
begin

text \<open>
  How a task of the worker ends, what a collection of finished tasks does, when the main loop scans
  for orphans, what the capacity table answers, and the ledger as a finite map.
\<close>

section \<open>The row of a task after a write\<close>

lemma running_finishes:
  assumes "t \<in> set (tasks r)" "tk_id t = tid" "tk_status t \<in> set from" "\<And>u. tk_id (f u) = tk_id u"
  shows "\<exists>x. finish_row from f tid r = Some x"
  using finish_row_fails [OF _ assms(4,1,2)] assms(3) by (cases "finish_row from f tid r") auto

lemma finish_row_only:
  assumes "finish_row from f tid r = Some (x, r1)" "distinct (map tk_id (tasks r))" "t \<in> set (tasks r)" "tk_id t = tid"
    and "tk_status t \<in> set from" "\<And>u. tk_id (f u) = tk_id u" "t' \<in> set (tasks r1)" "tk_id t' = tid"
  shows "t' = f t"
proof -
  have rows: "tasks r1 = map (\<lambda>t. if tk_id t = tid \<and> tk_status t \<in> set from then f t else t) (tasks r)"
    using assms(1) by (auto simp: finish_row_def Let_def split: if_splits)
  obtain u where u: "u \<in> set (tasks r)" "t' = (if tk_id u = tid \<and> tk_status u \<in> set from then f u else u)"
    using assms(7) unfolding rows by (auto simp only: list.set_map)
  have "tk_id u = tid" using u(2) assms(6,8) by (simp split: if_splits)
  then have "u = t" using distinct_same_id [OF assms(2) u(1) assms(3)] assms(4) by simp
  then show ?thesis using u(2) assms(4,5) by simp
qed

lemma finish_row_ids: "finish_row from f tid r = Some (x, r1) \<Longrightarrow> (\<And>u. tk_id (f u) = tk_id u) \<Longrightarrow>
    map tk_id (tasks r1) = map tk_id (tasks r)"
  by (auto simp: finish_row_def Let_def split: if_splits)

lemma row_after_fail:
  assumes "distinct (map tk_id (tasks r))" "t \<in> set (tasks r)" "tk_id t = tid" "tk_status t = Running"
    and "t' \<in> set (tasks (fail_task env tid m r))" "tk_id t' = tid"
  shows "tk_status t' = Failed \<and> tk_error t' = Some (en_bound env m)"
proof -
  obtain n r' where n: "mark_failed (en_bound env) (en_blocked env) tid m (en_now env) r = (n, r')" by force
  obtain x where "finish_row [Running] (failed_row (en_bound env m) (en_now env)) tid r = Some x"
    using running_finishes [OF assms(2,3), of "[Running]" "failed_row (en_bound env m) (en_now env)"] assms(4)
    by (auto simp: failed_row_def)
  then have "n \<noteq> 0" using n by (auto simp: mark_failed_def mark_failed_running_def split: prod.splits)
  note rows = mark_failed_rows(1) [OF n this assms(1)]
  have "t' \<in> set (tasks r')" using assms(5) n by (simp add: fail_task_def)
  then obtain u where "u \<in> set (tasks r)" "t' = (if tk_id u \<in> insert tid (dependents_of (tasks r) tid)
      then if tk_id u = tid then failed_row (en_bound env m) (en_now env) u
        else failed_row (en_bound env (en_blocked env (the (tk_dependency u)) m)) (en_now env) u else u)"
    unfolding rows mark_all_def by (auto simp only: list.set_map)
  then show ?thesis using assms(6) by (auto simp: failed_row_def split: if_splits)
qed

lemma row_after_interrupt:
  assumes "distinct (map tk_id (tasks r))" "t \<in> set (tasks r)" "tk_id t = tid" "tk_status t = Running"
    and "t' \<in> set (tasks (interrupt env tid r))" "tk_id t' = tid"
  shows "tk_status t' = Cancelled"
proof -
  let ?f = "cancelled_row ''interrupted'' (en_now env)"
  obtain x r1 where fin: "finish_row [Queued, Running] ?f tid r = Some (x, r1)"
    using running_finishes [OF assms(2,3), of "[Queued, Running]" ?f] assms(4) by (auto simp: cancelled_row_def)
  have dist: "distinct (map tk_id (tasks r1))"
    using finish_row_ids [OF fin] assms(1) by (simp add: cancelled_row_def)
  have "tasks (interrupt env tid r) =
      mark_all (cancelled_row ''cascade'' (en_now env)) (doomed (tasks r1) (set (dependent_ids tid r1))) (tasks r1)"
    unfolding cancel_cascade_rows [OF dist, symmetric]
    by (simp add: interrupt_def finalize_interrupted_def mark_cancelled_def fin split_beta)
  then obtain u where u: "u \<in> set (tasks r1)" "tk_id u = tid" "t' = u \<or> t' = cancelled_row ''cascade'' (en_now env) u"
    using assms(5,6) unfolding mark_all_def by (auto simp: cancelled_row_def split: if_splits)
  have "u = ?f t"
    by (rule finish_row_only [OF fin assms(1-3) _ _ u(1,2)]) (simp_all add: assms(4) cancelled_row_def)
  then show ?thesis using u(3) by (auto simp: cancelled_row_def)
qed

lemma row_after_success:
  assumes "distinct (map tk_id (tasks r))" "t \<in> set (tasks r)" "tk_id t = tid" "tk_status t = Running"
    and "t' \<in> set (tasks (snd (mark_succeeded tid result now r)))" "tk_id t' = tid"
  shows "tk_status t' = Succeeded \<and> tk_result t' = Some result"
proof -
  obtain x r1 where fin: "finish_row [Running] (succeeded_row result now) tid r = Some (x, r1)"
    using running_finishes [OF assms(2,3), of "[Running]" "succeeded_row result now"] assms(4) by (auto simp: succeeded_row_def)
  have "t' \<in> set (tasks r1)" using assms(5) fin by (simp add: mark_succeeded_def)
  then have "t' = succeeded_row result now t"
    using assms(4,6) by (intro finish_row_only [OF fin assms(1-3)]) (simp_all add: succeeded_row_def)
  then show ?thesis by (simp add: succeeded_row_def)
qed

text \<open>Writes that come too late change nothing\<close>

lemma finish_row_late:
  assumes "distinct (map tk_id (tasks r))" "t \<in> set (tasks r)" "tk_id t = tid" "tk_status t \<notin> set from"
  shows "finish_row from f tid r = None"
proof -
  have "\<forall>u \<in> set (tasks r). \<not> (tk_id u = tid \<and> tk_status u \<in> set from)"
    using distinct_same_id [OF assms(1) _ assms(2)] assms(3,4) by metis
  then show ?thesis by (simp add: finish_row_def Let_def matching_0)
qed

lemma succeed_late:
  "distinct (map tk_id (tasks r)) \<Longrightarrow> t \<in> set (tasks r) \<Longrightarrow> tk_id t = tid \<Longrightarrow> tk_status t \<noteq> Running
    \<Longrightarrow> mark_succeeded tid result now r = (0, r)"
  using finish_row_late [of r t tid "[Running]"] by (simp add: mark_succeeded_def)

lemma interrupt_late:
  "distinct (map tk_id (tasks r)) \<Longrightarrow> t \<in> set (tasks r) \<Longrightarrow> tk_id t = tid \<Longrightarrow> \<not> active t \<Longrightarrow> interrupt env tid r = r"
  using finish_row_late [of r t tid "[Queued, Running]"] by (simp add: interrupt_def finalize_interrupted_def mark_cancelled_def)

lemma row_after_requeue:
  assumes "distinct (map tk_id (tasks r))" "t \<in> set (tasks r)" "tk_id t = tid" "tk_status t = Running"
    and "requeue env tid (refresh env tid p r) = (ok, r')" "t' \<in> set (tasks r')" "tk_id t' = tid"
  shows "ok = en_requeue_ok env tid" "tk_status t' = (if ok then Queued else Running)"
    "en_refresh_ok env tid \<Longrightarrow> tk_provider t' = Some p" "distinct (map tk_id (tasks r'))"
proof -
  let ?r = "refresh env tid p r"
  let ?g = "\<lambda>t. if en_refresh_ok env tid \<and> tk_id t = tid then t\<lparr>tk_provider := Some p, tk_updated_at := en_now env\<rparr> else t"
  have rows: "tasks ?r = map ?g (tasks r)"
    by (simp add: refresh_def persist_execution_provider_id_def)
  have "map tk_id (tasks ?r) = map tk_id (tasks r)" by (simp add: rows)
  then have dist: "distinct (map tk_id (tasks ?r))" using assms(1) by simp
  have gt: "?g t \<in> set (tasks ?r)" "tk_id (?g t) = tid" "tk_status (?g t) = Running"
    using assms(2-4) unfolding rows by auto
  have some: "matching (\<lambda>t. tk_id t = tid \<and> tk_status t = Running) ?r \<noteq> 0"
    unfolding matching_0 using gt by blast
  then show ok: "ok = en_requeue_ok env tid"
    using assms(5) by (simp add: requeue_def requeue_single_task_def Let_def split: if_splits)
  let ?f = "\<lambda>t. t\<lparr>tk_status := Queued, tk_started_at := None, tk_updated_at := en_now env\<rparr>"
  have rows': "tasks r' = map (\<lambda>t. if ok \<and> tk_id t = tid \<and> tk_status t = Running then ?f t else t) (tasks ?r)"
    using assms(5) unfolding ok by (auto simp: requeue_def requeue_single_task_def Let_def split: if_splits)
  have "map tk_id (tasks r') = map tk_id (tasks ?r)" by (simp add: rows')
  then show "distinct (map tk_id (tasks r'))" using dist by simp
  obtain u where u: "u \<in> set (tasks ?r)" "t' = (if ok \<and> tk_id u = tid \<and> tk_status u = Running then ?f u else u)"
    using assms(6) unfolding rows' by (auto simp only: list.set_map)
  have "tk_id u = tid" using u(2) assms(7) by (simp split: if_splits)
  then have "u = ?g t" using distinct_same_id [OF dist u(1) gt(1)] gt(2) by simp
  then show "tk_status t' = (if ok then Queued else Running)" "en_refresh_ok env tid \<Longrightarrow> tk_provider t' = Some p"
    using u(2) gt assms(3) by (auto split: if_splits)
qed

text \<open>A write under a shield, and the write of an interruption\<close>

definition written :: "fate \<Rightarrow> bool" where
  "written fate \<longleftrightarrow> fate \<noteq> Refused \<and> fate \<noteq> Broken Never"

lemma written_simps [simp]: "written Carried" "\<not> written Refused" "written (Broken late) \<longleftrightarrow> late \<noteq> Never"
  by (simp_all add: written_def)

lemma row_after_shielded:
  assumes "distinct (map tk_id (tasks r))" "t \<in> set (tasks r)" "tk_id t = tid"
    and "shielded fate write r = (r', f)" "t' \<in> set (tasks r')" "tk_id t' = tid"
    and "\<forall>u \<in> set (tasks (write r)). tk_id u = tid \<longrightarrow> P u"
  shows "written fate \<Longrightarrow> P t'" "\<not> written fate \<Longrightarrow> t' = t" "future_done f" "f = Returned \<Longrightarrow> written fate"
    "f = Raised \<Longrightarrow> fate = Refused"
proof -
  have same: "u = t" if "u \<in> set (tasks r)" "tk_id u = tid" for u
    using distinct_same_id [OF assms(1) that(1) assms(2)] that(2) assms(3) by simp
  show "written fate \<Longrightarrow> P t'" "\<not> written fate \<Longrightarrow> t' = t" "future_done f" "f = Returned \<Longrightarrow> written fate"
    "f = Raised \<Longrightarrow> fate = Refused"
    using assms(4-7) same by (auto simp: shielded_def future_done_def split: fate.splits if_splits)
qed

lemma row_after_interrupted:
  assumes "distinct (map tk_id (tasks r))" "t \<in> set (tasks r)" "tk_id t = tid" "tk_status t = Running"
    and "interrupted env fates tid r = (r', f)" "t' \<in> set (tasks r')" "tk_id t' = tid"
  shows "tk_status t' = (if written (fa_interrupt fates) then Cancelled else Running)"
    "\<not> written (fa_interrupt fates) \<Longrightarrow> t' = t" "future_done f" "f \<noteq> Returned" "f = Raised \<Longrightarrow> fa_interrupt fates = Refused"
proof -
  obtain f1 where f1: "shielded (fa_interrupt fates) (interrupt env tid) r = (r', f1)" "f = (if f1 = Raised then Raised else Stopped)"
    using assms(5) by (auto simp: interrupted_def split: prod.splits)
  have "\<forall>u \<in> set (tasks (interrupt env tid r)). tk_id u = tid \<longrightarrow> tk_status u = Cancelled"
    using row_after_interrupt [OF assms(1-4)] by blast
  note row = row_after_shielded [OF assms(1-3) f1(1) assms(6,7) this]
  show "tk_status t' = (if written (fa_interrupt fates) then Cancelled else Running)"
    using row(1,2) assms(4) by auto
  show "\<not> written (fa_interrupt fates) \<Longrightarrow> t' = t" by (rule row(2))
  show "future_done f" "f \<noteq> Returned" "f = Raised \<Longrightarrow> fa_interrupt fates = Refused"
    using f1(2) row(5) by (auto simp: future_done_def split: if_splits)
qed

text \<open>The state in which the write of a result leaves its task\<close>

definition stored_status :: "fates \<Rightarrow> task_status" where
  "stored_status fates = (case fa_end fates of
     Carried \<Rightarrow> Succeeded
   | Refused \<Rightarrow> Running
   | Broken late \<Rightarrow> if late = Before then Succeeded else if written (fa_interrupt fates) then Cancelled
       else if late = After then Succeeded else Running)"

lemma store_broken:
  assumes ok: "indexes_ok (tasks r)" and t: "t \<in> set (tasks r)" "tk_id t = tid" "tk_status t = Running"
    and broken: "fa_end fates = Broken late" and store: "store_result env fates tid result r = (r', f)"
    and t': "t' \<in> set (tasks r')" "tk_id t' = tid"
  shows "tk_status t' = stored_status fates" "tk_status t' = Succeeded \<Longrightarrow> tk_result t' = Some result"
    "future_done f" "f \<noteq> Returned" "f = Raised \<Longrightarrow> fa_interrupt fates = Refused"
proof -
  have dist: "distinct (map tk_id (tasks r))" using ok by (simp add: indexes_ok_def)
  note row = dist t
  let ?store = "\<lambda>r. snd (mark_succeeded tid result (en_now env) r)"
  define s where "s = (if late = Before then ?store r else r)"
  obtain r1 where r1: "interrupted env fates tid s = (r1, f)" "r' = (if late = After then ?store r1 else r1)"
    using store broken by (auto simp: store_result_def s_def Let_def split: prod.splits)
  have success: "tk_status u = Succeeded \<and> tk_result u = Some result" if "u \<in> set (tasks (?store r))" "tk_id u = tid" for u
    using row_after_success [OF row that] .
  show "future_done f" "f \<noteq> Returned" "f = Raised \<Longrightarrow> fa_interrupt fates = Refused"
    using r1(1) by (auto simp: interrupted_def shielded_def future_done_def split: fate.splits if_splits)
  have "tk_status t' = stored_status fates \<and> (tk_status t' = Succeeded \<longrightarrow> tk_result t' = Some result)"
  proof (cases late)
    case Before
    obtain x r2 where fin: "finish_row [Running] (succeeded_row result (en_now env)) tid r = Some (x, r2)"
      using running_finishes [OF t(1,2), of "[Running]" "succeeded_row result (en_now env)"] t(3) by (auto simp: succeeded_row_def)
    have r2: "?store r = r2" "map tk_id (tasks r2) = map tk_id (tasks r)"
      using fin finish_row_ids [OF fin] by (simp_all add: mark_succeeded_def succeeded_row_def)
    have "tid \<in> set (map tk_id (tasks (?store r)))" unfolding r2 using t by auto
    then obtain u where u: "u \<in> set (tasks (?store r))" "tk_id u = tid" by auto
    have "interrupt env tid s = s"
      unfolding s_def using dist success [OF u] Before by (auto simp: r2 intro!: interrupt_late [OF _ u [unfolded r2]])
    then have "r' = ?store r"
      using r1 Before by (auto simp: s_def interrupted_def shielded_def split: fate.splits if_splits)
    then show ?thesis using success t' broken Before by (simp add: stored_status_def)
  next
    case After
    have s: "s = r" using After by (simp add: s_def)
    show ?thesis
    proof (cases "written (fa_interrupt fates)")
      case True
      have "r1 = interrupt env tid r"
        using r1(1) True by (auto simp: s interrupted_def shielded_def split: fate.splits if_splits)
      moreover have sub: "queue_steps r (interrupt env tid r)" using runs_refine [OF interrupt_runs [OF runs.start] ok] .
      ultimately have dist1: "distinct (map tk_id (tasks r1))" using indexes.steps [OF sub ok] by (simp add: indexes_ok_def)
      obtain u where u: "u \<in> set (tasks r1)" "tk_id u = tid"
        using kept.steps [OF sub, of tid "tk_dependency t" "tk_project t" "tk_batch t"] t \<open>r1 = _\<close> by blast
      have "tk_status u = Cancelled" by (rule row_after_interrupt [OF row]) (use u \<open>r1 = _\<close> in simp_all)
      then have "r' = r1" using r1(2) After succeed_late [OF dist1 u] by simp
      then have "tk_status t' = Cancelled" using row_after_interrupt [OF row] t' \<open>r1 = _\<close> by simp
      then show ?thesis using broken After True by (simp add: stored_status_def)
    next
      case False
      then have "r' = ?store r"
        using r1 After by (auto simp: s interrupted_def shielded_def split: fate.splits if_splits)
      then show ?thesis using success t' broken After False by (simp add: stored_status_def)
    qed
  next
    case Never
    then have "interrupted env fates tid r = (r', f)" using r1 by (simp add: s_def)
    from row_after_interrupted(1) [OF row this t'] show ?thesis using broken Never by (simp add: stored_status_def)
  qed
  then show "tk_status t' = stored_status fates" "tk_status t' = Succeeded \<Longrightarrow> tk_result t' = Some result" by blast+
qed

lemma row_after_store:
  assumes ok: "indexes_ok (tasks r)" and t: "t \<in> set (tasks r)" "tk_id t = tid" "tk_status t = Running"
    and store: "store_result env fates tid result r = (r', f)" and t': "t' \<in> set (tasks r')" "tk_id t' = tid"
  shows "tk_status t' = stored_status fates" "tk_status t' = Succeeded \<Longrightarrow> tk_result t' = Some result"
    "future_done f" "f = Returned \<Longrightarrow> tk_status t' = Succeeded" "f = Raised \<Longrightarrow> fa_end fates = Refused \<or> fa_interrupt fates = Refused"
proof -
  have dist: "distinct (map tk_id (tasks r))" using ok by (simp add: indexes_ok_def)
  have "tk_status t' = stored_status fates \<and> (tk_status t' = Succeeded \<longrightarrow> tk_result t' = Some result) \<and> future_done f
    \<and> (f = Returned \<longrightarrow> tk_status t' = Succeeded) \<and> (f = Raised \<longrightarrow> fa_end fates = Refused \<or> fa_interrupt fates = Refused)"
  proof (cases "\<exists>late. fa_end fates = Broken late")
    case True
    then show ?thesis using store_broken [OF ok t _ store t'] by blast
  next
    case False
    let ?P = "\<lambda>u. tk_status u = Succeeded \<and> tk_result u = Some result"
    have sh: "shielded (fa_end fates) (\<lambda>r. snd (mark_succeeded tid result (en_now env) r)) r = (r', f)"
      using store False by (auto simp: store_result_def Let_def split: fate.splits)
    have "\<forall>u \<in> set (tasks (snd (mark_succeeded tid result (en_now env) r))). tk_id u = tid \<longrightarrow> ?P u"
      using row_after_success [OF dist t] by blast
    note row = row_after_shielded [OF dist t(1,2) sh t' this]
    show ?thesis
    proof (cases "fa_end fates")
      case Carried
      then have "?P t'" "f \<noteq> Raised" using row(1,5) by auto
      then show ?thesis using Carried row(3) by (simp add: stored_status_def)
    next
      case Refused
      then have "t' = t" "f \<noteq> Returned" using row(2,4) by auto
      then show ?thesis using Refused row(3) t(3) by (simp add: stored_status_def)
    next
      case (Broken late)
      then show ?thesis using False by blast
    qed
  qed
  then show "tk_status t' = stored_status fates" "tk_status t' = Succeeded \<Longrightarrow> tk_result t' = Some result"
    "future_done f" "f = Returned \<Longrightarrow> tk_status t' = Succeeded" "f = Raised \<Longrightarrow> fa_end fates = Refused \<or> fa_interrupt fates = Refused"
    by blast+
qed

lemma interrupt_active:
  assumes "t \<in> set (tasks (interrupt env tid r))" "active t"
  shows "t \<in> set (tasks r)" "tk_id t \<noteq> tid"
proof -
  let ?f = "cancelled_row ''interrupted'' (en_now env)"
  have "t \<in> set (tasks r) \<and> tk_id t \<noteq> tid"
  proof (cases "finish_row [Queued, Running] ?f tid r")
    case None
    then have t: "t \<in> set (tasks r)" using assms(1) by (simp add: interrupt_def finalize_interrupted_def mark_cancelled_def)
    have "tk_status t \<notin> set [Queued, Running]" if "tk_id t = tid"
      by (rule finish_row_fails [OF None _ t that]) (simp add: cancelled_row_def)
    then show ?thesis using t assms(2) by auto
  next
    case (Some x)
    obtain u r1 where x: "x = (u, r1)" by (cases x)
    let ?g = "\<lambda>t. if tk_id t = tid \<and> tk_status t \<in> set [Queued, Running] then ?f t else t"
    have r1: "tasks r1 = map ?g (tasks r)" using Some x by (auto simp: finish_row_def Let_def split: if_splits)
    have "interrupt env tid r = snd (cancel_cascade (en_now env) (dependent_ids tid r1) r1)"
      by (simp add: interrupt_def finalize_interrupted_def mark_cancelled_def Some x split_beta)
    then have "t \<in> set (tasks r1)"
      using assms fewer_active.cancelled [of "en_now env" "dependent_ids tid r1" r1] by auto
    then obtain v where v: "v \<in> set (tasks r)" "t = ?g v" unfolding r1 by (auto simp only: list.set_map)
    then have out: "\<not> (tk_id v = tid \<and> tk_status v \<in> set [Queued, Running])"
      using assms(2) by (auto simp: cancelled_row_def split: if_splits)
    then have "t = v" using v(2) by (simp only: if_False)
    then show ?thesis using out assms(2) v(1) by auto
  qed
  then show "t \<in> set (tasks r)" "tk_id t \<noteq> tid" by blast+
qed

lemma row_after_failing:
  assumes "distinct (map tk_id (tasks r))" "t \<in> set (tasks r)" "tk_id t = tid" "tk_status t = Running"
    and "shielded (fa_end fates) (fail_task env tid m) r = (r', f)" "t' \<in> set (tasks r')" "tk_id t' = tid"
  shows "tk_status t' = (if written (fa_end fates) then Failed else Running)" "tk_status t' = Failed \<Longrightarrow> tk_error t' = Some (en_bound env m)"
    "future_done f" "f = Returned \<Longrightarrow> tk_status t' = Failed" "f = Raised \<Longrightarrow> fa_end fates = Refused"
proof -
  have "\<forall>u \<in> set (tasks (fail_task env tid m r)). tk_id u = tid \<longrightarrow> tk_status u = Failed \<and> tk_error u = Some (en_bound env m)"
    using row_after_fail [OF assms(1-4)] by blast
  note row = row_after_shielded [OF assms(1-3,5-7) this]
  have failed: "tk_status t' = Failed \<and> tk_error t' = Some (en_bound env m)" if "written (fa_end fates)" using row(1) that .
  have kept: "tk_status t' = Running" if "\<not> written (fa_end fates)" using row(2) [OF that] assms(4) by simp
  show "tk_status t' = (if written (fa_end fates) then Failed else Running)" using failed kept by simp
  show "tk_error t' = Some (en_bound env m)" if "tk_status t' = Failed" using failed kept that by force
  show "future_done f" by (rule row(3))
  show "tk_status t' = Failed" if "f = Returned" using failed row(4) [OF that] by simp
  show "fa_end fates = Refused" if "f = Raised" using row(5) [OF that] .
qed

section \<open>The end of a task\<close>

text \<open>The state a running task is in after its execution, by what the execution came to and what became of the writes\<close>

definition end_status :: "env \<Rightarrow> bool \<Rightarrow> fates \<Rightarrow> string \<Rightarrow> outcome \<Rightarrow> task_status" where
  "end_status env revoked fates tid outcome =
     (let failed = (if written (fa_end fates) then Failed else Running) in
      case outcome of
        NeverEntered \<Rightarrow> Running
      | ProjectionRaised \<Rightarrow> Running
      | ExecInterrupted \<Rightarrow> if written (fa_interrupt fates) then Cancelled else Running
      | ExecRaised _ \<Rightarrow> failed
      | ExecReturned _ \<Rightarrow> if revoked then failed else stored_status fates
      | ExecProviderChanged _ _ \<Rightarrow> if revoked then failed
          else if fa_refresh fates \<noteq> None \<or> fa_requeue fates = Some False then Running
          else if en_requeue_ok env tid then Queued
          else if fa_requeue fates = None then failed else Running)"

lemma row_after_move:
  assumes "distinct (map tk_id (tasks r))" "t \<in> set (tasks r)" "tk_id t = tid" "tk_status t = Running"
    and "move_task env fates tid claimed actual r = (r', f)" "t' \<in> set (tasks r')" "tk_id t' = tid"
  shows "tk_status t' = end_status env False fates tid (ExecProviderChanged claimed actual)"
    "tk_status t' = Queued \<Longrightarrow> en_refresh_ok env tid \<Longrightarrow> tk_provider t' = Some actual"
    "future_done f" "f = Returned \<Longrightarrow> tk_status t' \<noteq> Running" "f = Raised \<Longrightarrow> fa_end fates = Refused"
proof -
  let ?r1 = "refresh env tid actual r"
  obtain ok r2 where r2: "requeue env tid ?r1 = (ok, r2)" by force
  note returned = row_after_requeue [OF assms(1-4) r2]
  have ids1: "map tk_id (tasks ?r1) = map tk_id (tasks r)" by (simp add: refresh_def persist_execution_provider_id_def)
  have ids: "map tk_id (tasks r2) = map tk_id (tasks ?r1)"
    using r2 by (auto simp: requeue_def requeue_single_task_def Let_def split: if_splits)
  have "tid \<in> set (map tk_id (tasks r2))" unfolding ids ids1 using assms(2,3) by auto
  then obtain u where u: "u \<in> set (tasks r2)" "tk_id u = tid" by auto
  have ok: "ok = en_requeue_ok env tid" by (rule returned(1) [OF u])
  have same: "tk_status v = Running" if "v \<in> set (tasks r)" "tk_id v = tid" for v
    using distinct_same_id [OF assms(1) that(1) assms(2)] that(2) assms(3,4) by simp
  have running: "tk_status v = Running" if "v \<in> set (tasks ?r1) \<or> v \<in> set (tasks r)" "tk_id v = tid" for v
  proof -
    have "map (\<lambda>v. (tk_id v, tk_status v)) (tasks ?r1) = map (\<lambda>v. (tk_id v, tk_status v)) (tasks r)"
      by (simp add: refresh_def persist_execution_provider_id_def)
    then have "(\<lambda>v. (tk_id v, tk_status v)) ` set (tasks ?r1) = (\<lambda>v. (tk_id v, tk_status v)) ` set (tasks r)"
      by (metis set_map)
    then have "(tk_id v, tk_status v) \<in> (\<lambda>v. (tk_id v, tk_status v)) ` set (tasks r)" using that(1) by blast
    then obtain w where "w \<in> set (tasks r)" "tk_id w = tk_id v" "tk_status w = tk_status v" by auto
    then show ?thesis using same [of w] that(2) by simp
  qed
  note fate = assms(5) [unfolded move_task_def Let_def r2]
  have "tk_status t' = end_status env False fates tid (ExecProviderChanged claimed actual)
    \<and> (tk_status t' = Queued \<longrightarrow> en_refresh_ok env tid \<longrightarrow> tk_provider t' = Some actual)
    \<and> future_done f \<and> (f = Returned \<longrightarrow> tk_status t' \<noteq> Running) \<and> (f = Raised \<longrightarrow> fa_end fates = Refused)"
  proof (cases "fa_refresh fates \<noteq> None \<or> fa_requeue fates = Some False")
    case True
    then have "r' = ?r1 \<or> r' = r" "f = Stopped" using fate by (auto split: option.splits if_splits)
    then show ?thesis using True running assms(6,7) by (auto simp: end_status_def Let_def future_done_def)
  next
    case go: False
    show ?thesis
    proof (cases "ok \<or> fa_requeue fates \<noteq> None")
      case True
      then have "r' = r2" "f \<noteq> Raised" "future_done f" "f = Returned \<Longrightarrow> ok"
        using fate go by (auto simp: future_done_def split: option.splits if_splits bool.splits)
      then show ?thesis
        using True go ok returned(2,3) [of t'] assms(6,7) by (auto simp: end_status_def Let_def)
    next
      case False
      then have failing: "shielded (fa_end fates) (fail_task env tid (en_encode env ''dispatch_provider_requeue_failed''
          [(''claimed_provider_id'', claimed), (''actual_provider_id'', actual)])) r2 = (r', f)"
        using fate go by (auto simp: end_failed_def split: option.splits)
      have "tk_status u = Running" using returned(2) [OF u] False by simp
      note row = row_after_failing [OF returned(4) [OF u] u this failing assms(6,7)]
      then show ?thesis using False go ok by (auto simp: end_status_def Let_def split: if_splits)
    qed
  qed
  then show "tk_status t' = end_status env False fates tid (ExecProviderChanged claimed actual)"
    "tk_status t' = Queued \<Longrightarrow> en_refresh_ok env tid \<Longrightarrow> tk_provider t' = Some actual"
    "future_done f" "f = Returned \<Longrightarrow> tk_status t' \<noteq> Running" "f = Raised \<Longrightarrow> fa_end fates = Refused"
    by blast+
qed

text \<open>
  Property C31: where a running task is after its execution, for everything the execution may come to and
  every fate of the writes that end it.  \<open>end_status\<close> is its state: succeeded with its result when the
  executor returned, failed with the message when it raised, back in the queue with its new provider when that
  changed, cancelled when the process was interrupted, and still running when no such write was carried
  out.  That is never so when its future returned.  When its future was interrupted, the next collection
  ends the task if the database takes the statement.  Its future raises only when the projection raised
  before the \<open>try\<close> or the database refused a write that ends the task; no collection ends such a task.
\<close>

theorem task_reaches_end:
  assumes "indexes_ok (tasks r)" "t \<in> set (tasks r)" "tk_id t = tid" "tk_status t = Running"
    and run: "run_claimed_task env revoked fates tid outcome r = (r', f)"
    and t': "t' \<in> set (tasks r')" "tk_id t' = tid"
  shows "tk_status t' = end_status env revoked fates tid outcome \<and> future_done f
    \<and> (f = Returned \<longrightarrow> tk_status t' \<noteq> Running)
    \<and> (f = Raised \<longrightarrow> outcome = ProjectionRaised \<or> fa_end fates = Refused \<or> fa_interrupt fates = Refused)
    \<and> (f = Stopped \<and> en_interrupt_ok env tid \<longrightarrow> (\<forall>u \<in> set (tasks (collect env (tid, f) r')). tk_id u = tid \<longrightarrow> \<not> active u))
    \<and> (\<forall>result. outcome = ExecReturned result \<and> tk_status t' = Succeeded \<longrightarrow> tk_result t' = Some result)
    \<and> (\<forall>message. outcome = ExecRaised message \<and> \<not> revoked \<and> tk_status t' = Failed \<longrightarrow> tk_error t' = Some (en_bound env message))
    \<and> (\<forall>claimed actual. outcome = ExecProviderChanged claimed actual \<and> tk_status t' = Queued \<and> en_refresh_ok env tid
         \<longrightarrow> tk_provider t' = Some actual)"
proof -
  have dist: "distinct (map tk_id (tasks r))" using assms(1) by (simp add: indexes_ok_def)
  note row = dist assms(2-4)
  note fate = run [unfolded run_claimed_task_def fail_task_of_deleted_project_def end_failed_def] end_status_def
  have collected: "f = Stopped \<and> en_interrupt_ok env tid \<longrightarrow>
      (\<forall>u \<in> set (tasks (collect env (tid, f) r')). tk_id u = tid \<longrightarrow> \<not> active u)"
    using interrupt_active(2) by (auto simp: collect_def)
  have same: "t' = t" if "r' = r" using distinct_same_id [OF dist _ assms(2)] assms(3) t' that by simp
  consider (early) "outcome = NeverEntered \<or> outcome = ProjectionRaised" | (interrupted) "outcome = ExecInterrupted"
    | (failed) m where "revoked \<or> outcome = ExecRaised m" "outcome \<notin> {NeverEntered, ProjectionRaised, ExecInterrupted}"
    | (returned) result where "\<not> revoked" "outcome = ExecReturned result"
    | (moved) claimed actual where "\<not> revoked" "outcome = ExecProviderChanged claimed actual"
    by (cases outcome) auto
  then show ?thesis
  proof cases
    case early
    then have "r' = r" "f = (if outcome = NeverEntered then Stopped else Raised)" using fate by auto
    moreover have "end_status env revoked fates tid outcome = Running" using early by (auto simp: end_status_def)
    moreover have "tk_status t' = Running" using same [OF calculation(1)] assms(4) by simp
    ultimately show ?thesis using early collected by (auto simp: future_done_def)
  next
    case interrupted
    then have "interrupted env fates tid r = (r', f)" using fate by simp
    from row_after_interrupted [OF row this t'] collected show ?thesis using interrupted by (auto simp: end_status_def Let_def)
  next
    case (failed m)
    define message where "message = (if revoked then en_encode env ''project_deleted_during_task'' [] else m)"
    have "shielded (fa_end fates) (fail_task env tid message) r = (r', f)"
      using fate failed by (cases outcome) (auto simp: message_def)
    from row_after_failing [OF row this t'] collected failed show ?thesis
      by (cases outcome) (auto simp: end_status_def Let_def message_def split: if_splits)
  next
    case (returned result)
    then have "store_result env fates tid result r = (r', f)" using fate by simp
    from row_after_store [OF assms(1-4) this t'] collected show ?thesis using returned by (auto simp: end_status_def)
  next
    case (moved claimed actual)
    then have "move_task env fates tid claimed actual r = (r', f)" using fate by simp
    from row_after_move [OF row this t'] collected show ?thesis using moved by auto
  qed
qed

section \<open>Collecting finished tasks\<close>

lemma collect_active:
  assumes "t \<in> set (tasks (fold (collect env) finished r))" "active t"
  shows "t \<in> set (tasks r)" "(tid, Stopped) \<in> set finished \<Longrightarrow> en_interrupt_ok env tid \<Longrightarrow> tk_id t \<noteq> tid"
proof -
  have "t \<in> set (tasks r) \<and> (\<forall>tid. (tid, Stopped) \<in> set finished \<longrightarrow> en_interrupt_ok env tid \<longrightarrow> tk_id t \<noteq> tid)"
    using assms
  proof (induction finished arbitrary: r)
    case (Cons e finished)
    have IH: "t \<in> set (tasks (collect env e r)) \<and> (\<forall>tid. (tid, Stopped) \<in> set finished \<longrightarrow> en_interrupt_ok env tid \<longrightarrow> tk_id t \<noteq> tid)"
      using Cons.IH Cons.prems by simp
    obtain i f where e: "e = (i, f)" by (cases e)
    show ?case
    proof (cases "f = Stopped \<and> en_interrupt_ok env i")
      case True
      then have "t \<in> set (tasks (interrupt env i r))" using IH by (simp add: collect_def e)
      then show ?thesis using interrupt_active [OF _ Cons.prems(2)] IH e True by auto
    next
      case False
      then show ?thesis using IH by (auto simp: collect_def e)
    qed
  qed simp
  then show "t \<in> set (tasks r)" "(tid, Stopped) \<in> set finished \<Longrightarrow> en_interrupt_ok env tid \<Longrightarrow> tk_id t \<noteq> tid" by blast+
qed

text \<open>
  A collection frees exactly the slots of the tasks that ended, leaves the waiting ones
  alone, and no task that was broken off stays queued or running; it puts no other task into the queue
  and starts none.
\<close>

theorem collection_settles:
  assumes "slots_ok (wk_slots w)"
  shows "slot (wk_slots (drain_finished_tasks env w)) l i =
      (case slot (wk_slots w) l i of None \<Rightarrow> None | Some x \<Rightarrow> if finished_occupant x then None else Some x)
    \<and> {t \<in> set (tasks (wk_repo (drain_finished_tasks env w))). active t} \<subseteq> set (tasks (wk_repo w))
       - {t. \<exists>l x. slot (wk_slots w) l (tk_id t) = Some x \<and> finished_occupant x \<and> oc_task x = Stopped
             \<and> en_interrupt_ok env (tk_id t)}"
proof -
  obtain finished slots where d: "drain_finished (wk_slots w) = (finished, slots)" by force
  have "t \<in> set (tasks (wk_repo w)) \<and> \<not> (\<exists>l x. slot (wk_slots w) l (tk_id t) = Some x \<and> finished_occupant x
      \<and> oc_task x = Stopped \<and> en_interrupt_ok env (tk_id t))"
    if t: "t \<in> set (tasks (wk_repo (drain_finished_tasks env w)))" "active t" for t
  proof -
    have t': "t \<in> set (tasks (fold (collect env) finished (wk_repo w)))" using t(1) by (simp add: drain_finished_tasks_def d)
    have "(tk_id t, Stopped) \<notin> set finished \<or> \<not> en_interrupt_ok env (tk_id t)"
      using collect_active(2) [OF t' t(2)] by blast
    then show ?thesis using collect_active(1) [OF t' t(2)] drain_list [OF assms, of "tk_id t" Stopped] by (auto simp: d)
  qed
  moreover have "slot (wk_slots (drain_finished_tasks env w)) l i =
      (case slot (wk_slots w) l i of None \<Rightarrow> None | Some x \<Rightarrow> if finished_occupant x then None else Some x)"
    using drain_rest [OF assms, of l i] by (simp add: drain_finished_tasks_def d)
  ultimately show ?thesis by blast
qed

section \<open>The main loop\<close>



text \<open>The lease was held in turn \<open>i\<close>, and missing in all turns from then on\<close>

definition held_last :: "(bool \<times> rat) list \<Rightarrow> nat \<Rightarrow> bool" where
  "held_last turns i \<longleftrightarrow> i < length turns \<and> fst (turns ! i) \<and> (\<forall>k. i < k \<and> k < length turns \<longrightarrow> \<not> fst (turns ! k))"

lemma held_last_snoc:
  "held_last (turns @ [(owns, clock)]) i \<longleftrightarrow> (if owns then i = length turns else held_last turns i)"
proof (cases owns)
  case True
  then have "held_last (turns @ [(owns, clock)]) (length turns)" by (auto simp: held_last_def less_Suc_eq)
  moreover have "i = length turns" if "held_last (turns @ [(owns, clock)]) i"
  proof (rule ccontr)
    assume "i \<noteq> length turns"
    then have i: "i < length turns" using that by (simp add: held_last_def)
    have "\<forall>k. i < k \<and> k < Suc (length turns) \<longrightarrow> \<not> fst ((turns @ [(owns, clock)]) ! k)"
      using that by (simp add: held_last_def)
    then have "\<not> fst ((turns @ [(owns, clock)]) ! length turns)" using i by blast
    then show False using True by simp
  qed
  ultimately show ?thesis using True by auto
next
  case False
  then show ?thesis by (auto simp: held_last_def nth_append less_Suc_eq)
qed


lemma held_last_ex: "(\<exists>x \<in> set turns. fst x) \<longleftrightarrow> (\<exists>i. held_last turns i)"
proof (induction turns rule: rev_induct)
  case (snoc x turns)
  then show ?case by (cases x) (auto simp: held_last_snoc)
qed (simp add: held_last_def)



section \<open>The ledger and the capacity table\<close>

text \<open>
  The ledger is a finite map from lanes and IDs to occupants: registering, promoting and
  releasing are updates of the map, the counts, the list of providers and the list of active tasks are
  read off its domain, and there is room when the count is below the capacity.
\<close>

theorem ledger_is_map:
  assumes "slots_ok slots"
  shows "slot (register l i x slots) = (slot slots)(l := (slot slots l)(i \<mapsto> x))
    \<and> slot (promote l i slots) = (slot slots)(l := (slot slots l)(i := map_option (\<lambda>x. x\<lparr>oc_pending := False\<rparr>) (slot slots l i)))
    \<and> slot (release l i slots) = (slot slots)(l := (slot slots l)(i := None))
    \<and> occupied l slots = card (dom (slot slots l))
    \<and> has_room l capacity slots = (int (card (dom (slot slots l))) < capacity)
    \<and> set (occupied_providers media slots) = {p. slot slots (p, media) \<noteq> Map.empty}
    \<and> set (active_task_ids slots) = (\<Union>l. dom (slot slots l))"
proof -
  have providers: "set (occupied_providers media slots) = {p. slot slots (p, media) \<noteq> Map.empty}"
    using occupied_providers_iff [OF assms] occupied_card [OF assms] by auto
  have active: "set (active_task_ids slots) = (\<Union>l. dom (slot slots l))"
    using active_task_ids_iff [OF assms] by blast
  show ?thesis
    unfolding providers active has_room_iff occupied_card [OF assms] slot_register slot_promote slot_release by blast
qed

lemma claim_tasks_slots_ok:
  "claim_tasks env lanes c w = Some (c', w') \<Longrightarrow> slots_ok (wk_slots w) \<Longrightarrow> slots_ok (wk_slots w')"
  by (rule claim_tasks_induct [where I = "\<lambda>w. slots_ok (wk_slots w)"]) (auto intro: turn_slots_ok)

text \<open>
  Property C33: whatever the worker, its resumptions and the other clients do, the ledger stays well
  formed: each lane and, in a lane, each task occurs once, and no empty bucket remains.
\<close>

theorem worker_ledger_shape:
  assumes "worker_runs code env w w'" "slots_ok (wk_slots w)"
  shows "distinct (map fst (wk_slots w')) \<and> list_all (\<lambda>(l, b). b \<noteq> [] \<and> distinct (map fst b)) (wk_slots w')"
proof -
  have "slots_ok (wk_slots w')"
    using assms
  proof (induction rule: worker_runs.induct)
    case (claims w w1 lanes c w2)
    then show ?case using claim_tasks_slots_ok by blast
  next
    case (ends w w1 revoked fates l tid outcome w2)
    then show ?case by (auto simp: process_task_def split_beta intro: slots_ok_settle)
  next
    case (collects w w1 w2)
    then show ?case using slots_ok_drain by (auto simp: drain_finished_tasks_def split_beta)
  next
    case (reloads w w1 loaded w2)
    then show ?case by (auto simp: reload_limits_def split: option.splits)
  qed (auto intro: slots_ok_register slots_ok_promote slots_ok_release)
  then show ?thesis by (simp add: slots_ok_def)
qed

text \<open>Property C30: a claim cycle ends, whatever the queue, the ledger, the capacities and the refusals of the database.\<close>

theorem claim_cycle_terminates:
  "\<exists>claimed w'. claim_tasks env lanes False w = Some (claimed, w')"
  using claim_tasks_returns [of env lanes False w] by auto

text \<open>The environment variable of a lane with its default, and the column of a user's provider\<close>

definition lane_global :: "(string \<Rightarrow> string option) \<Rightarrow> string \<Rightarrow> int" where
  "lane_global env lane = (if lane = ''image'' then read_int_env env ''IMAGE_MAX_WORKERS'' 5 1
     else if lane = ''video'' then read_int_env env ''VIDEO_MAX_WORKERS'' 3 1 else read_int_env env ''AUDIO_MAX_WORKERS'' 10 1)"

definition lane_column :: "string \<Rightarrow> custom_provider \<Rightarrow> int option" where
  "lane_column lane c = (if lane = ''image'' then cu_image_max c else if lane = ''video'' then cu_video_max c else cu_audio_max c)"

text \<open>
  Where a capacity comes from.  For a provider of the user it is 0 unless an enabled model
  resolves to the lane, else the column, else 1 for ComfyUI, else the global value; for a provider of
  the registry it is 0 unless it supports the lane, else the stored setting, else the declared value,
  else the global value; for any other provider it is the global value.  The last row of a provider
  wins.
\<close>

theorem capacity_from_settings:
  assumes "lane \<in> set [''image'', ''video'', ''audio'']"
  shows "capacity_get (from_db registry env configs customs resolve) p lane =
    (case map_of (rev (map (\<lambda>c. (cu_provider_id (fst c), c)) customs)) p of
       Some (c, models) \<Rightarrow> if lane \<notin> set (media_of resolve models) then 0
         else (case lane_column lane c of Some n \<Rightarrow> n
           | None \<Rightarrow> if cu_discovery_format c = ''comfyui'' then 1 else lane_global env lane)
     | None \<Rightarrow> (case map_of registry p of
         Some meta \<Rightarrow> if lane \<notin> set (pm_media_types meta) then 0
           else parse_lane_max (case map_of configs p of None \<Rightarrow> [] | Some c \<Rightarrow> c) (lane @ ''_max_workers'')
             (lane_default meta lane (lane_global env lane))
       | None \<Rightarrow> lane_global env lane))"
proof -
  let ?d = "(lane_global env ''image'', lane_global env ''video'', lane_global env ''audio'')"
  have limits: "ct_limits (from_db registry env configs customs resolve) = custom_limits resolve ?d customs []
      (map (\<lambda>(pid, meta). (pid, lane_limits (pm_media_types meta)
        (parse_lane_max (case map_of configs pid of None \<Rightarrow> [] | Some c \<Rightarrow> c) ''image_max_workers'' (lane_default meta ''image'' (lane_global env ''image'')))
        (parse_lane_max (case map_of configs pid of None \<Rightarrow> [] | Some c \<Rightarrow> c) ''video_max_workers'' (lane_default meta ''video'' (lane_global env ''video'')))
        (parse_lane_max (case map_of configs pid of None \<Rightarrow> [] | Some c \<Rightarrow> c) ''audio_max_workers'' (lane_default meta ''audio'' (lane_global env ''audio''))))) registry)"
    by (simp add: from_db_def Let_def lane_global_def)
  have media: "lane \<noteq> RENDER_MEDIA_TYPE" using assms by (auto simp: RENDER_MEDIA_TYPE_def)
  have rev_map: "map_of (rev (map (\<lambda>c. (f c, g c)) cs)) q = map_option g (map_of (rev (map (\<lambda>c. (f c, c)) cs)) q)" for f g cs q
    by (induction cs rule: rev_induct) auto
  have reg: "map_of (map (\<lambda>(pid, meta). (pid, h pid meta)) registry) p = map_option (h p) (map_of registry p)" for h
    by (induction registry) auto
  have get: "capacity_get (from_db registry env configs customs resolve) p lane =
      (case map_of (ct_limits (from_db registry env configs customs resolve)) p of
         None \<Rightarrow> lane_global env lane | Some lanes \<Rightarrow> lane_get lanes lane)"
  proof -
    have "ct_defaults (from_db registry env configs customs resolve) =
        default_lanes (lane_global env ''image'') (lane_global env ''video'') (lane_global env ''audio'')"
      by (simp add: from_db_def Let_def lane_global_def)
    then have "lane_get (ct_defaults (from_db registry env configs customs resolve)) lane = lane_global env lane"
      using assms by (auto simp: default_lanes_def lane_get_def RENDER_MEDIA_TYPE_def)
    then show ?thesis by (simp only: capacity_get_def media if_False)
  qed
  have empty: "cache_ok resolve []" by (simp add: cache_ok_def)
  note custom = custom_limits_map [OF empty, of ?d customs] rev_map [of _ "custom_lanes resolve ?d"]
  show ?thesis
  proof (cases "map_of (rev (map (\<lambda>c. (cu_provider_id (fst c), c)) customs)) p")
    case None
    then have "map_of (ct_limits (from_db registry env configs customs resolve)) p =
        map_option (\<lambda>meta. lane_limits (pm_media_types meta)
          (parse_lane_max (case map_of configs p of None \<Rightarrow> [] | Some c \<Rightarrow> c) ''image_max_workers'' (lane_default meta ''image'' (lane_global env ''image'')))
          (parse_lane_max (case map_of configs p of None \<Rightarrow> [] | Some c \<Rightarrow> c) ''video_max_workers'' (lane_default meta ''video'' (lane_global env ''video'')))
          (parse_lane_max (case map_of configs p of None \<Rightarrow> [] | Some c \<Rightarrow> c) ''audio_max_workers'' (lane_default meta ''audio'' (lane_global env ''audio''))))
        (map_of registry p)"
      by (simp add: limits custom reg map_add_def)
    then show ?thesis
      using None assms unfolding get by (cases "map_of registry p") (auto simp: lane_get_limits)
  next
    case (Some x)
    obtain c models where x: "x = (c, models)" by (cases x)
    have "map_of (ct_limits (from_db registry env configs customs resolve)) p = Some (custom_lanes resolve ?d (c, models))"
      using Some x by (simp add: limits custom map_add_def)
    then show ?thesis
      using Some x assms unfolding get
      by (auto simp: custom_lanes_def lane_get_limits custom_lane_default_def lane_column_def
          is_comfyui_protocol_def COMFYUI_LANE_DEFAULT_def split: option.split)
  qed
qed

end
