(* ===== verification/WorkerInstances.thy ===== *)
theory WorkerInstances
  imports WorkerEnds
begin

text \<open>
  Instances of the properties of the worker: two images of one provider that may run one task at a
  time, a ledger with a task that was broken off, and the two ways a task may be left behind.
\<close>

section \<open>A claim cycle\<close>

definition demo_env :: env where
  "demo_env = \<lparr>en_bound = id, en_blocked = (\<lambda>p m. p @ m), en_encode = (\<lambda>c _. c), en_projection = (\<lambda>_. ''p''),
     en_refresh_ok = (\<lambda>_. True), en_requeue_ok = (\<lambda>_. True), en_interrupt_ok = (\<lambda>_. True), en_now = 5\<rparr>"

definition demo_image :: "string \<Rightarrow> int \<Rightarrow> task" where
  "demo_image i now = (new_task i now (demo_request i None))\<lparr>tk_type := ''storyboard'', tk_media := ''image'', tk_provider := Some ''p''\<rparr>"

definition demo_worker :: worker where
  "demo_worker = \<lparr>wk_repo = empty_repo\<lparr>tasks := [demo_image ''b'' 2, demo_image ''a'' 1]\<rparr>, wk_slots = [],
     wk_capacity = \<lparr>ct_limits = [(''p'', [(''image'', 1)])], ct_defaults = []\<rparr>\<rparr>"

definition demo_claimed :: worker where
  "demo_claimed = demo_worker\<lparr>wk_repo := empty_repo\<lparr>tasks := [demo_image ''b'' 2, claimed_row 5 (demo_image ''a'' 1)]\<rparr>,
     wk_slots := [((''p'', ''image''), [(''a'', \<lparr>oc_task = Unfinished, oc_pending = False\<rparr>)])]\<rparr>"

lemma demo_turns:
  "claim_turn demo_env ''image'' {} False demo_worker = Again {} True demo_claimed"
  "claim_turn demo_env ''image'' {} True demo_claimed = Leave True demo_claimed"
  by code_simp+

lemma demo_cycle: "claim_lane demo_env ''image'' {} False demo_worker = Some (True, demo_claimed)"
  by (subst claim_lane.simps, simp add: demo_turns, subst claim_lane.simps, simp add: demo_turns)

lemma demo_cycles: "claim_tasks demo_env [''image''] False demo_worker = Some (True, demo_claimed)"
  by (simp add: demo_cycle)

lemma demo_worker_ok: "slots_ok (wk_slots demo_worker)" "indexes_ok (tasks (wk_repo demo_worker))" "queue_ok (wk_repo demo_worker)"
  by (simp_all add: queue_ok_def indexes_ok_def dependencies_first_def dependencies_ordered_def times_ok_def reported_def
      references_ok_def leases_ok_def dedupe_key_def coalesce_def dependency_met_def demo_worker_def demo_image_def
      new_task_def demo_request_def empty_repo_def All_less_Suc numeral_eq_Suc)

theorem claims_within_capacity_witness:
  "int (occupied (''p'', ''image'') (wk_slots demo_claimed)) \<le> 1"
  using claims_within_capacity [OF demo_cycles demo_worker_ok(1), of "''p''" "''image''"]
  by (simp add: demo_worker_def capacity_get_def lane_get_def occupied_def RENDER_MEDIA_TYPE_def)

theorem claimed_tasks_hold_slots_witness: "has_slot demo_claimed [''image''] (claimed_row 5 (demo_image ''a'' 1))"
proof -
  have "claimed_row 5 (demo_image ''a'' 1) \<in> set (tasks (wk_repo demo_claimed))" by (simp add: demo_claimed_def)
  from claimed_tasks_hold_slots [OF demo_cycles demo_worker_ok(2) this] show ?thesis
    by (simp add: claimed_row_def demo_env_def demo_worker_def demo_image_def new_task_def)
qed

theorem lane_leaves_nothing_witness: "provider_full demo_claimed ''image'' ''p''"
proof -
  have "demo_image ''b'' 2 \<in> set (tasks (wk_repo demo_claimed))" by (simp add: demo_claimed_def)
  from lane_leaves_nothing [OF demo_cycle demo_worker_ok(1,2) _ _ _ this, of "\<lambda>_. ''p''"] show ?thesis
    by (simp add: demo_env_def demo_worker_def demo_image_def new_task_def demo_request_def dependency_met_def RENDER_MEDIA_TYPE_def)
qed

theorem worker_ledger_shape_witness: "distinct (map fst (wk_slots demo_claimed)) \<and> wk_slots demo_claimed \<noteq> []"
  using worker_ledger_shape [OF worker_runs.claims [OF worker_runs.start demo_cycles]] demo_worker_ok(1)
  by (simp add: demo_claimed_def)

theorem ledger_is_map_witness:
  "slot (release (''p'', ''image'') ''a'' (wk_slots demo_claimed)) (''p'', ''image'') ''a'' = None
    \<and> release (''p'', ''image'') ''a'' (wk_slots demo_claimed) = []"
  using ledger_is_map [of "wk_slots demo_claimed" "(''p'', ''image'')" "''a''"]
  by (simp add: demo_claimed_def release_def dict_pop_def)

definition demo_fates :: fates where
  "demo_fates = \<lparr>fa_refresh = None, fa_requeue = None, fa_end = Carried, fa_interrupt = Carried\<rparr>"

definition demo_done :: repo where
  "demo_done = empty_repo\<lparr>tasks := [demo_image ''b'' 2, succeeded_row ''done'' 5 (claimed_row 5 (demo_image ''a'' 1))],
     terminal_events := [event_of (demo_image ''a'' 1) Succeeded]\<rparr>"

lemma demo_ends:
  "run_claimed_task demo_env False demo_fates ''a'' (ExecReturned ''done'') (wk_repo demo_claimed) = (demo_done, Returned)"
  "run_claimed_task demo_env False (demo_fates\<lparr>fa_end := Broken After\<rparr>) ''a'' (ExecReturned ''done'') (wk_repo demo_claimed)
     = (interrupt demo_env ''a'' (wk_repo demo_claimed), Stopped)"
  "indexes_ok (tasks (wk_repo demo_claimed))"
  by code_simp+

lemma demo_end_rows:
  "claimed_row 5 (demo_image ''a'' 1) \<in> set (tasks (wk_repo demo_claimed))"
  "tk_id (claimed_row 5 (demo_image ''a'' 1)) = ''a''" "tk_status (claimed_row 5 (demo_image ''a'' 1)) = Running"
  "succeeded_row ''done'' 5 (claimed_row 5 (demo_image ''a'' 1)) \<in> set (tasks demo_done)"
  "tk_id (succeeded_row ''done'' 5 (claimed_row 5 (demo_image ''a'' 1))) = ''a''"
  "tasks (interrupt demo_env ''a'' (wk_repo demo_claimed)) = [demo_image ''b'' 2, cancelled_row ''interrupted'' 5 (claimed_row 5 (demo_image ''a'' 1))]"
  by code_simp+

text \<open>The result is stored; and an interruption reaches the task before its result does\<close>

theorem task_reaches_end_witness:
  "tk_status (succeeded_row ''done'' 5 (claimed_row 5 (demo_image ''a'' 1))) = Succeeded
   \<and> tk_status (cancelled_row ''interrupted'' 5 (claimed_row 5 (demo_image ''a'' 1))) = Cancelled"
proof
  show "tk_status (succeeded_row ''done'' 5 (claimed_row 5 (demo_image ''a'' 1))) = Succeeded"
    using task_reaches_end [OF demo_ends(3) demo_end_rows(1-3) demo_ends(1) demo_end_rows(4,5)]
    by (simp add: end_status_def stored_status_def demo_fates_def)
  have "cancelled_row ''interrupted'' 5 (claimed_row 5 (demo_image ''a'' 1)) \<in> set (tasks (interrupt demo_env ''a'' (wk_repo demo_claimed)))"
    by (simp add: demo_end_rows(6))
  moreover have "tk_id (cancelled_row ''interrupted'' 5 (claimed_row 5 (demo_image ''a'' 1))) = ''a''"
    using demo_end_rows(2) by (simp add: cancelled_row_def)
  ultimately show "tk_status (cancelled_row ''interrupted'' 5 (claimed_row 5 (demo_image ''a'' 1))) = Cancelled"
    using task_reaches_end [OF demo_ends(3) demo_end_rows(1-3) demo_ends(2)]
    by (simp add: end_status_def stored_status_def demo_fates_def)
qed

definition demo_stopped :: worker where
  "demo_stopped = demo_claimed\<lparr>wk_slots := [((''p'', ''image''), [(''a'', \<lparr>oc_task = Stopped, oc_pending = False\<rparr>)])]\<rparr>"

theorem collection_settles_witness:
  "wk_slots (drain_finished_tasks demo_env demo_stopped) = []
    \<and> map tk_status (tasks (wk_repo (drain_finished_tasks demo_env demo_stopped))) = [Queued, Cancelled]
    \<and> slot (wk_slots (drain_finished_tasks demo_env demo_stopped)) (''p'', ''image'') ''a'' = None"
proof -
  have d: "wk_slots (drain_finished_tasks demo_env demo_stopped) = []"
    "map tk_status (tasks (wk_repo (drain_finished_tasks demo_env demo_stopped))) = [Queued, Cancelled]"
    by code_simp+
  have ok: "slots_ok (wk_slots demo_stopped)" by code_simp
  show ?thesis
    using d collection_settles [OF ok, of demo_env "(''p'', ''image'')" "''a''"]
    by (simp add: demo_stopped_def slot_def finished_occupant_def future_done_def)
qed


theorem capacity_from_settings_witness:
  "capacity_get (from_db [(''ark'', \<lparr>pm_media_types = [''video''], pm_default_concurrency = [(''video'', 4)]\<rparr>)] (\<lambda>_. None)
      [(''ark'', [(''video_max_workers'', ''x'')])] [] (\<lambda>_. None)) ''ark'' ''video'' = 4"
  using capacity_from_settings [of "''video''"
      "[(''ark'', \<lparr>pm_media_types = [''video''], pm_default_concurrency = [(''video'', 4)]\<rparr>)]" "\<lambda>_. None"
      "[(''ark'', [(''video_max_workers'', ''x'')])]" "[]" "\<lambda>_. None" "''ark''"]
  by (simp add: parse_lane_max_def lane_default_def py_int_def py_strip_def is_py_space_def is_digit_def)

section \<open>What is left behind\<close>

text \<open>A storyboard video stored with a full provider waits, although the provider it is routed to has room\<close>

definition demo_stale :: worker where
  "demo_stale = \<lparr>wk_repo = empty_repo\<lparr>tasks := [(demo_image ''v'' 1)\<lparr>tk_type := ''video'', tk_media := ''video'', tk_provider := Some ''old''\<rparr>]\<rparr>,
     wk_slots = [((''old'', ''video''), [(''x'', \<lparr>oc_task = Unfinished, oc_pending = False\<rparr>)])],
     wk_capacity = \<lparr>ct_limits = [(''old'', [(''video'', 1)]), (''p'', [(''video'', 1)])], ct_defaults = []\<rparr>\<rparr>"

lemma stale_video_waits:
  "claim_turn demo_env ''video'' {} False demo_stale = Leave False demo_stale"
  "has_room (en_projection demo_env (tasks (wk_repo demo_stale) ! 0), ''video'') 1 (wk_slots demo_stale)"
  by code_simp+

text \<open>When the database refuses to put a task back, the cycle leaves it running without a slot\<close>

definition demo_refusing :: env where
  "demo_refusing = demo_env\<lparr>en_requeue_ok := (\<lambda>_. False)\<rparr>"

definition demo_crowded :: worker where
  "demo_crowded = demo_claimed\<lparr>wk_repo := empty_repo\<lparr>tasks := [(demo_image ''b'' 2)\<lparr>tk_provider := None\<rparr>]\<rparr>\<rparr>"

lemma refused_requeue_strands:
  "(case claim_turn demo_refusing ''image'' {} False demo_crowded of
      Leave claimed w \<Rightarrow> map tk_status (tasks (wk_repo w)) = [Running] \<and> active_task_ids (wk_slots w) = [''a'']
    | Again _ _ _ \<Rightarrow> False)"
  by code_simp

end
