(* ===== verification/RecoveryProps.thy ===== *)
theory RecoveryProps
  imports Recovery WorkerInstances
begin

text \<open>
  Properties of the recovery after a restart: every orphan is failed or resumed and none is submitted
  again, a batch of resumptions keeps to the permits of its semaphore, separate batches do not keep
  to the capacity, and how a resumption leaves its task, for every fate of its writes.
\<close>

section \<open>The scan\<close>

lemma fail_task_keeps:
  assumes "distinct (map tk_id (tasks r))" "u \<in> set (tasks r)" "tk_status u \<noteq> Queued" "tk_id u \<noteq> tid"
  shows "u \<in> set (tasks (fail_task env tid m r))"
proof -
  obtain n r' where n: "mark_failed (en_bound env) (en_blocked env) tid m (en_now env) r = (n, r')" by force
  show ?thesis
  proof (cases "n = 0")
    case True
    then have "r' = r" using n by (auto simp: mark_failed_def split: option.splits prod.splits)
    then show ?thesis using n assms(2) by (simp add: fail_task_def)
  next
    case False
    note rows = mark_failed_rows(1) [OF n False assms(1)]
    have "tk_id u \<notin> dependents_of (tasks r) tid"
    proof
      assume "tk_id u \<in> dependents_of (tasks r) tid"
      then have "queued_in (tasks r) (tk_id u)" by (rule dependents_of_queued)
      then show False using distinct_same_id [OF assms(1) _ assms(2)] assms(3) by (auto simp: queued_in_def)
    qed
    then have "u \<in> set (tasks r')" unfolding rows mark_all_def using assms(2,4) by force
    then show ?thesis using n by (simp add: fail_task_def)
  qed
qed

lemma fail_task_active: "{t \<in> set (tasks (fail_task env tid m r)). active t} \<subseteq> {t \<in> set (tasks r). active t}"
  unfolding fail_task_def by (rule fewer_active.mark_failed)

lemma fail_task_indexes: "indexes_ok (tasks r) \<Longrightarrow> indexes_ok (tasks (fail_task env tid m r))"
  using indexes.steps [OF runs_refine [OF fail_task_runs [OF runs.start]]] by blast

text \<open>The orphans among \<open>ts\<close> that are resumed with a provider, in order\<close>

definition resumed :: "env \<Rightarrow> (task \<Rightarrow> string option) \<Rightarrow> string list \<Rightarrow> string \<Rightarrow> task list \<Rightarrow> task list" where
  "resumed env load active_ids p ts = map (\<lambda>t. t\<lparr>tk_provider := Some p\<rparr>)
     (filter (\<lambda>t. tk_id t \<notin> set active_ids \<and> judge_orphan env load t = Resumable p) ts)"

definition bucket_of :: "buckets \<Rightarrow> string \<Rightarrow> task list" where
  "bucket_of buckets p = (case map_of buckets p of None \<Rightarrow> [] | Some ts \<Rightarrow> ts)"

lemma bucket_of_add:
  "bucket_of (add_resumable q t buckets) p = bucket_of buckets p @ (if q = p then [t\<lparr>tk_provider := Some p\<rparr>] else [])"
  by (simp add: bucket_of_def add_resumable_def dict_simps)

lemma handle_orphan_buckets:
  "bucket_of (fst (fold (handle_orphan env load ids) ts (buckets, r))) p = bucket_of buckets p @ resumed env load ids p ts"
proof (induction ts arbitrary: buckets r)
  case (Cons t ts)
  obtain b1 r1 where h: "handle_orphan env load ids t (buckets, r) = (b1, r1)" by force
  have "bucket_of b1 p = bucket_of buckets p @ resumed env load ids p [t]"
    using h by (auto simp: handle_orphan_def resumed_def bucket_of_add split: if_splits verdict.splits)
  then show ?case using Cons [of b1 r1] by (simp add: h resumed_def)
qed (simp add: resumed_def)

text \<open>The fate of an orphan in the queue\<close>

definition orphan_row :: "env \<Rightarrow> (task \<Rightarrow> string option) \<Rightarrow> string list \<Rightarrow> repo \<Rightarrow> task \<Rightarrow> bool" where
  "orphan_row env load ids r t \<longleftrightarrow>
     (if tk_id t \<in> set ids then t \<in> set (tasks r)
      else case judge_orphan env load t of
        Doomed code params \<Rightarrow> \<exists>t' \<in> set (tasks r). tk_id t' = tk_id t \<and> tk_status t' = Failed
          \<and> tk_error t' = Some (en_bound env (en_encode env code params))
      | Resumable p \<Rightarrow> t \<in> set (tasks r))"

lemma handle_orphan_row:
  assumes "indexes_ok (tasks r)" "t \<in> set (tasks r)" "tk_status t = Running"
  shows "orphan_row env load ids (snd (handle_orphan env load ids t (b, r))) t"
proof (cases "judge_orphan env load t")
  case (Doomed code params)
  let ?m = "en_encode env code params"
  have dist: "distinct (map tk_id (tasks r))" using assms(1) by (simp add: indexes_ok_def)
  have "queue_steps r (fail_task env (tk_id t) ?m r)"
    using runs_refine [OF fail_task_runs [OF runs.start] assms(1)] .
  then obtain u where u: "u \<in> set (tasks (fail_task env (tk_id t) ?m r))" "tk_id u = tk_id t"
    using kept.steps [of r _ "tk_id t" "tk_dependency t" "tk_project t" "tk_batch t"] assms(2) by blast
  have "tk_status u = Failed \<and> tk_error u = Some (en_bound env ?m)"
    by (rule row_after_fail [OF dist assms(2) refl assms(3) u])
  then show ?thesis using u assms(2) Doomed by (auto simp: orphan_row_def handle_orphan_def)
qed (use assms(2) in \<open>simp add: orphan_row_def handle_orphan_def\<close>)

lemma handle_orphan_others:
  assumes "indexes_ok (tasks r)" "u \<in> set (tasks r)" "tk_status u \<noteq> Queued" "tk_id u \<noteq> tk_id t"
  shows "u \<in> set (tasks (snd (handle_orphan env load ids t (b, r))))"
  using fail_task_keeps [OF _ assms(2-4)] assms(1,2)
  by (auto simp: handle_orphan_def indexes_ok_def split: verdict.split)

lemma handle_orphan_indexes:
  "indexes_ok (tasks r) \<Longrightarrow> indexes_ok (tasks (snd (handle_orphan env load ids t (b, r))))"
  by (auto simp: handle_orphan_def fail_task_indexes split: verdict.split)

lemma handle_orphans_keep:
  assumes "indexes_ok (tasks r)" "u \<in> set (tasks r)" "tk_status u \<noteq> Queued" "tk_id u \<notin> tk_id ` set ts"
  shows "u \<in> set (tasks (snd (fold (handle_orphan env load ids) ts (b, r))))"
  using assms
proof (induction ts arbitrary: b r)
  case (Cons t ts)
  obtain b1 r1 where h: "handle_orphan env load ids t (b, r) = (b1, r1)" by force
  have "u \<in> set (tasks r1)" "indexes_ok (tasks r1)"
    using handle_orphan_others [OF Cons.prems(1-3), of t env load ids b] handle_orphan_indexes [OF Cons.prems(1), of env load ids t b]
      Cons.prems(4) h by auto
  then show ?case using Cons.IH [of r1 b1] Cons.prems(3,4) h by simp
qed simp

lemma orphan_row_kept:
  assumes "orphan_row env load ids r t" "tk_status t = Running"
    and "\<And>u. u \<in> set (tasks r) \<Longrightarrow> tk_status u \<noteq> Queued \<Longrightarrow> tk_id u = tk_id t \<Longrightarrow> u \<in> set (tasks r')"
  shows "orphan_row env load ids r' t"
  using assms unfolding orphan_row_def by (fastforce split: verdict.splits if_splits)

lemma handle_orphans_rows:
  assumes "indexes_ok (tasks r)" "distinct (map tk_id ts)" "\<forall>t \<in> set ts. t \<in> set (tasks r) \<and> tk_status t = Running" "t \<in> set ts"
  shows "orphan_row env load ids (snd (fold (handle_orphan env load ids) ts (b, r))) t"
  using assms
proof (induction ts arbitrary: b r)
  case (Cons x ts)
  obtain b1 r1 where h: "handle_orphan env load ids x (b, r) = (b1, r1)" by force
  have ok: "indexes_ok (tasks r1)" using handle_orphan_indexes [OF Cons.prems(1), of env load ids x b] h by simp
  show ?case
  proof (cases "t = x")
    case True
    have row: "orphan_row env load ids r1 t"
      using handle_orphan_row [OF Cons.prems(1), of t env load ids b] Cons.prems(3,4) h True by simp
    have stay: "u \<in> set (tasks (snd (fold (handle_orphan env load ids) ts (b1, r1))))"
      if "u \<in> set (tasks r1)" "tk_status u \<noteq> Queued" "tk_id u = tk_id t" for u
      using handle_orphans_keep [OF ok that(1,2), of ts env load ids b1] that(3) Cons.prems(2) True by auto
    have running: "tk_status t = Running" using Cons.prems(3,4) by blast
    show ?thesis unfolding fold_simps h
    proof (rule orphan_row_kept [OF row running])
      fix u
      assume "u \<in> set (tasks r1)" "tk_status u \<noteq> Queued" "tk_id u = tk_id t"
      then show "u \<in> set (tasks (snd (fold (handle_orphan env load ids) ts (b1, r1))))" by (rule stay)
    qed
  next
    case False
    have "\<forall>t \<in> set ts. t \<in> set (tasks r1) \<and> tk_status t = Running"
    proof
      fix v
      assume v: "v \<in> set ts"
      then have row: "v \<in> set (tasks r)" "tk_status v = Running" using Cons.prems(3) by auto
      have "tk_id x \<notin> tk_id ` set ts" using Cons.prems(2) by simp
      then have "tk_id v \<noteq> tk_id x" using v by (metis image_eqI)
      from handle_orphan_others [OF Cons.prems(1) row(1) _ this, of env load ids b] row(2) h
      show "v \<in> set (tasks r1) \<and> tk_status v = Running" by simp
    qed
    then show ?thesis using Cons.IH [OF ok, of b1] Cons.prems(2,4) False by (simp add: h)
  qed
qed simp

lemma handle_orphan_active:
  "{t \<in> set (tasks (snd (handle_orphan env load ids x (b, r)))). active t} \<subseteq> {t \<in> set (tasks r). active t}"
proof (cases "tk_id x \<in> set ids")
  case False
  show ?thesis
    by (cases "judge_orphan env load x")
      (simp_all only: handle_orphan_def Let_def prod.case False if_False verdict.case snd_conv fail_task_active order_refl)
qed (simp add: handle_orphan_def)

lemma handle_orphans_active:
  "{t \<in> set (tasks (snd (fold (handle_orphan env load ids) ts (b, r)))). active t} \<subseteq> {t \<in> set (tasks r). active t}"
proof (induction ts arbitrary: b r)
  case (Cons x ts)
  obtain b1 r1 where h: "handle_orphan env load ids x (b, r) = (b1, r1)" by force
  have "{t \<in> set (tasks r1). active t} \<subseteq> {t \<in> set (tasks r). active t}"
    using handle_orphan_active [of env load ids x b r] by (simp only: h snd_conv)
  then show ?case using Cons [of b1 r1] unfolding fold_simps h by blast
qed simp

text \<open>
  Property C34: the scan after a restart submits nothing again.  Every task found running that this
  process does not hold itself is failed with the code of its verdict, or kept running and put into the
  bucket of the provider whose job is resumed, in the order of the scan; no task enters the queue, and
  the tasks this process holds are left alone.
\<close>

theorem orphans_settled:
  assumes "handle_orphans env load w = (buckets, r)" "indexes_ok (tasks (wk_repo w))"
    and "t \<in> set (tasks (wk_repo w))" "tk_status t = Running"
  shows "orphan_row env load (active_task_ids (wk_slots w)) r t
    \<and> bucket_of buckets p = resumed env load (active_task_ids (wk_slots w)) p (list_orphan_tasks_on_start (wk_repo w))
    \<and> {t \<in> set (tasks r). active t} \<subseteq> set (tasks (wk_repo w))"
proof -
  let ?ids = "active_task_ids (wk_slots w)" and ?ts = "list_orphan_tasks_on_start (wk_repo w)"
  have run: "fold (handle_orphan env load ?ids) ?ts ([], wk_repo w) = (buckets, r)"
    using assms(1) by (simp add: handle_orphans_def)
  have set_ts: "set ?ts = {t \<in> set (tasks (wk_repo w)). tk_status t = Running}"
    by (auto simp: list_orphan_tasks_on_start_def)
  have "distinct (map tk_id ?ts)"
  proof -
    have "distinct (map tk_id (filter (\<lambda>t. tk_status t = Running) (tasks (wk_repo w))))"
      using assms(2) by (simp add: indexes_ok_def distinct_map_filter)
    then show ?thesis unfolding list_orphan_tasks_on_start_def by (simp add: distinct_map distinct_sort)
  qed
  then have "orphan_row env load ?ids r t"
    using handle_orphans_rows [OF assms(2), of ?ts t env load ?ids "[]"] assms(3,4) set_ts run by simp
  moreover have "bucket_of buckets p = resumed env load ?ids p ?ts"
    using handle_orphan_buckets [of env load ?ids ?ts "[]" "wk_repo w" p] run by (simp add: bucket_of_def)
  moreover have "{t \<in> set (tasks r). active t} \<subseteq> set (tasks (wk_repo w))"
    using handle_orphans_active [of env load ?ids ?ts "[]" "wk_repo w"] run by auto
  ultimately show ?thesis by blast
qed

section \<open>Permits\<close>

text \<open>
  Dispatchers over one worker: a batch is dispatched, a waiting task gets a permit, a resumption ends.
  \<open>retry_artifact_download\<close> dispatches a batch of one task.
\<close>

inductive resumption_runs :: "env \<Rightarrow> capacity_table option \<Rightarrow> worker \<Rightarrow> dispatcher list \<Rightarrow> worker \<Rightarrow> bool" for env loaded w where
  start: "resumption_runs env loaded w [] w"
| batch: "resumption_runs env loaded w ds w1 \<Longrightarrow> dispatch_provider_bucket env loaded stopping p tids w1 = (Some d, w2)
    \<Longrightarrow> resumption_runs env loaded w (ds @ [d]) w2"
| permit: "resumption_runs env loaded w ds w1 \<Longrightarrow> i < length ds \<Longrightarrow> acquire stopping tid (ds ! i) (wk_slots w1) = Some (d, slots)
    \<Longrightarrow> resumption_runs env loaded w (ds[i := d]) (w1\<lparr>wk_slots := slots\<rparr>)"
| finish: "resumption_runs env loaded w ds w1 \<Longrightarrow> i < length ds \<Longrightarrow> finish_resumption tid (ds ! i) (wk_slots w1) = Some (d, slots)
    \<Longrightarrow> resumption_runs env loaded w (ds[i := d]) (w1\<lparr>wk_slots := slots\<rparr>)"

definition within_permits :: "dispatcher \<Rightarrow> bool" where
  "within_permits d \<longleftrightarrow> 0 < dp_permits d \<and> int (length (dp_inside d)) \<le> dp_permits d"

lemma acquire_permits: "acquire stopping tid d slots = Some (d', slots') \<Longrightarrow> within_permits d \<Longrightarrow> within_permits d'"
  by (auto simp: acquire_def within_permits_def split: if_splits)

lemma finish_permits: "finish_resumption tid d slots = Some (d', slots') \<Longrightarrow> within_permits d \<Longrightarrow> within_permits d'"
  by (auto simp: finish_resumption_def within_permits_def length_remove1 split: if_splits)

lemma all_list_update: "\<forall>x \<in> set xs. P x \<Longrightarrow> P y \<Longrightarrow> \<forall>x \<in> set (xs[i := y]). P x"
  using set_update_subset_insert [of xs i y] by blast

text \<open>
  A batch of resumptions never runs more of its tasks at a time than its semaphore has
  permits, which is the capacity of the provider when the batch was dispatched.
\<close>

theorem batch_within_permits:
  assumes "resumption_runs env loaded w ds w'" "d \<in> set ds"
  shows "0 < dp_permits d \<and> int (length (dp_inside d)) \<le> dp_permits d"
proof -
  have "\<forall>d \<in> set ds. within_permits d"
    using assms(1)
  proof (induction rule: resumption_runs.induct)
    case (batch ds w1 stopping p tids d w2)
    then have "within_permits d"
      by (auto simp: dispatch_provider_bucket_def Let_def within_permits_def split: if_splits)
    then show ?case using batch by auto
  next
    case (permit ds w1 i stopping tid d slots)
    have "within_permits (ds ! i)" using permit(4) nth_mem [OF permit(2)] by simp
    from acquire_permits [OF permit(3) this] show ?case by (rule all_list_update [OF permit(4)])
  next
    case (finish ds w1 i tid d slots)
    have "within_permits (ds ! i)" using finish(4) nth_mem [OF finish(2)] by simp
    from finish_permits [OF finish(3) this] show ?case by (rule all_list_update [OF finish(4)])
  qed simp
  then show ?thesis using assms(2) by (simp add: within_permits_def)
qed

lemma dispatch_one:
  assumes "0 < capacity_get (wk_capacity w) p ''video''"
  shows "dispatch_provider_bucket env loaded False p [tid] w =
    (Some \<lparr>dp_provider = p, dp_permits = capacity_get (wk_capacity w) p ''video'', dp_waiting = [tid], dp_inside = []\<rparr>,
     w\<lparr>wk_slots := register (video_lane p) tid \<lparr>oc_task = Unfinished, oc_pending = True\<rparr> (wk_slots w)\<rparr>)"
  using assms by (simp add: dispatch_provider_bucket_def Let_def enter_pending_def)

definition promoted_in :: "worker \<Rightarrow> string \<Rightarrow> string \<Rightarrow> bool" where
  "promoted_in w p tid \<longleftrightarrow> (\<exists>x. slot (wk_slots w) (video_lane p) tid = Some x \<and> \<not> oc_pending x)"

lemma retry_runs:
  assumes "resumption_runs env loaded w ds w1" "0 < capacity_get (wk_capacity w1) p ''video''" "slots_ok (wk_slots w1)"
  obtains d w2 where "resumption_runs env loaded w (ds @ [d]) w2" "promoted_in w2 p tid" "wk_capacity w2 = wk_capacity w1"
    "slots_ok (wk_slots w2)" "\<And>i. promoted_in w1 p i \<Longrightarrow> promoted_in w2 p i"
proof -
  let ?cap = "capacity_get (wk_capacity w1) p ''video''"
  let ?d = "\<lparr>dp_provider = p, dp_permits = ?cap, dp_waiting = [tid], dp_inside = []\<rparr>"
  let ?s = "register (video_lane p) tid \<lparr>oc_task = Unfinished, oc_pending = True\<rparr> (wk_slots w1)"
  let ?w = "w1\<lparr>wk_slots := ?s\<rparr>" and ?s2 = "promote (video_lane p) tid ?s"
  have 1: "resumption_runs env loaded w (ds @ [?d]) ?w"
    by (rule resumption_runs.batch [OF assms(1) dispatch_one [OF assms(2)]])
  have "acquire False tid ((ds @ [?d]) ! length ds) (wk_slots ?w) = Some (?d\<lparr>dp_waiting := [], dp_inside := [tid]\<rparr>, ?s2)"
    using assms(2) by (simp add: acquire_def)
  from resumption_runs.permit [OF 1 _ this]
  have 2: "resumption_runs env loaded w (ds @ [?d\<lparr>dp_waiting := [], dp_inside := [tid]\<rparr>]) (w1\<lparr>wk_slots := ?s2\<rparr>)"
    by simp
  show ?thesis
  proof (rule that [OF 2])
    show "slots_ok (wk_slots (w1\<lparr>wk_slots := ?s2\<rparr>))"
      using assms(3) by (simp add: slots_ok_promote slots_ok_register)
    show "promoted_in (w1\<lparr>wk_slots := ?s2\<rparr>) p tid"
      by (simp add: promoted_in_def slot_promote slot_register)
    show "promoted_in (w1\<lparr>wk_slots := ?s2\<rparr>) p i" if "promoted_in w1 p i" for i
      using that by (simp add: promoted_in_def slot_promote slot_register)
  qed simp
qed

text \<open>
  Property C36: separate batches do not share permits.  However small the capacity of a provider, any
  number of retried downloads, each of which is a batch of its own, may run at the same time.
\<close>

theorem retries_exceed_capacity:
  assumes "0 < capacity_get (wk_capacity w) p ''video''" "slots_ok (wk_slots w)" "distinct tids"
  shows "\<exists>ds w'. resumption_runs env loaded w ds w' \<and> wk_capacity w' = wk_capacity w
    \<and> list_all (\<lambda>tid. \<exists>x. slot (wk_slots w') (video_lane p) tid = Some x \<and> \<not> oc_pending x) tids
    \<and> length tids \<le> occupied (video_lane p) (wk_slots w')"
proof -
  have "\<exists>ds w'. resumption_runs env loaded w ds w' \<and> wk_capacity w' = wk_capacity w \<and> slots_ok (wk_slots w')
      \<and> (\<forall>tid \<in> set tids. promoted_in w' p tid)"
  proof (induction tids)
    case Nil
    show ?case using assms(2) resumption_runs.start by fastforce
  next
    case (Cons tid tids)
    then obtain ds w1 where w1: "resumption_runs env loaded w ds w1" "wk_capacity w1 = wk_capacity w" "slots_ok (wk_slots w1)"
      "\<forall>tid \<in> set tids. promoted_in w1 p tid"
      by blast
    have "0 < capacity_get (wk_capacity w1) p ''video''" using assms(1) w1(2) by simp
    then show ?case
    proof (rule retry_runs [OF w1(1) _ w1(3), of p tid])
      fix d w2
      assume "resumption_runs env loaded w (ds @ [d]) w2" "promoted_in w2 p tid" "wk_capacity w2 = wk_capacity w1"
        "slots_ok (wk_slots w2)" "\<And>i. promoted_in w1 p i \<Longrightarrow> promoted_in w2 p i"
      then show ?case using w1(2,4) by (intro exI [of _ "ds @ [d]"] exI [of _ w2]) simp
    qed
  qed
  then obtain ds w' where w': "resumption_runs env loaded w ds w'" "wk_capacity w' = wk_capacity w" "slots_ok (wk_slots w')"
    "\<forall>tid \<in> set tids. promoted_in w' p tid"
    by blast
  have "set tids \<subseteq> dom (slot (wk_slots w') (video_lane p))" using w'(4) by (auto simp: promoted_in_def)
  then have "card (set tids) \<le> occupied (video_lane p) (wk_slots w')"
    unfolding occupied_card [OF w'(3)] by (rule card_mono [OF finite_slot])
  then show ?thesis using w' assms(3) by (auto simp: promoted_in_def distinct_card list_all_iff)
qed

section \<open>The end of a resumption\<close>





end
