(* ===== verification/RecoveryInstances.thy ===== *)
theory RecoveryInstances
  imports RecoveryProps
begin

text \<open>
  Instances of the properties of the recovery: a process that finds an image and a video running, and
  a provider that may run one video at a time.
\<close>

definition lost_image :: task where
  "lost_image = claimed_row 5 (demo_image ''a'' 1)"

definition lost_video :: task where
  "lost_video = (claimed_row 5 (demo_image ''v'' 2))\<lparr>tk_type := ''video'', tk_media := ''video'',
     tk_checkpoint := Some ''c'', tk_job := Some ''j''\<rparr>"

definition restarted :: worker where
  "restarted = demo_worker\<lparr>wk_repo := empty_repo\<lparr>tasks := [lost_video, lost_image]\<rparr>,
     wk_capacity := \<lparr>ct_limits = [(''p'', [(''video'', 1)])], ct_defaults = []\<rparr>\<rparr>"

definition checkpoint :: "task \<Rightarrow> string option" where
  "checkpoint t = (if tk_checkpoint t = Some ''c'' then Some ''p'' else None)"

lemma restarted_ok: "indexes_ok (tasks (wk_repo restarted))" "slots_ok (wk_slots restarted)"
  "lost_video \<in> set (tasks (wk_repo restarted))" "tk_status lost_video = Running" "tk_id lost_video = ''v''"
  by code_simp+

lemma restarted_scan:
  "handle_orphans demo_env checkpoint restarted =
     (fst (handle_orphans demo_env checkpoint restarted), snd (handle_orphans demo_env checkpoint restarted))"
  by simp

theorem orphans_settled_witness:
  "map (\<lambda>t. (tk_id t, tk_status t)) (tasks (snd (handle_orphans demo_env checkpoint restarted))) = [(''v'', Running), (''a'', Failed)]
    \<and> bucket_of (fst (handle_orphans demo_env checkpoint restarted)) ''p'' = [lost_video]
    \<and> orphan_row demo_env checkpoint [] (snd (handle_orphans demo_env checkpoint restarted)) lost_video"
proof -
  have rows: "map (\<lambda>t. (tk_id t, tk_status t)) (tasks (snd (handle_orphans demo_env checkpoint restarted)))
      = [(''v'', Running), (''a'', Failed)]"
    by code_simp
  have ids: "active_task_ids (wk_slots restarted) = []" by code_simp
  have "resumed demo_env checkpoint [] ''p'' (list_orphan_tasks_on_start (wk_repo restarted)) = [lost_video]"
    by code_simp
  then show ?thesis
    using rows orphans_settled [OF restarted_scan restarted_ok(1,3,4), of "''p''"] unfolding ids by simp
qed

theorem batch_within_permits_witness: "length (dp_inside \<lparr>dp_provider = ''p'', dp_permits = 1, dp_waiting = [], dp_inside = [''v'']\<rparr>) \<le> 1"
proof -
  let ?d = "\<lparr>dp_provider = ''p'', dp_permits = 1, dp_waiting = [''v''], dp_inside = []\<rparr>"
  have cap: "capacity_get (wk_capacity restarted) ''p'' ''video'' = 1" by code_simp
  have "dispatch_provider_bucket demo_env None False ''p'' [''v''] restarted
     = (Some ?d, restarted\<lparr>wk_slots := register (video_lane ''p'') ''v'' \<lparr>oc_task = Unfinished, oc_pending = True\<rparr> (wk_slots restarted)\<rparr>)"
    using dispatch_one [of restarted "''p''" demo_env None "''v''"] cap by simp
  from resumption_runs.batch [OF resumption_runs.start this]
  have batch: "resumption_runs demo_env None restarted [?d]
     (restarted\<lparr>wk_slots := register (video_lane ''p'') ''v'' \<lparr>oc_task = Unfinished, oc_pending = True\<rparr> (wk_slots restarted)\<rparr>)"
    by simp
  have "acquire False ''v'' ([?d] ! 0) (wk_slots (restarted\<lparr>wk_slots := register (video_lane ''p'') ''v'' \<lparr>oc_task = Unfinished, oc_pending = True\<rparr> (wk_slots restarted)\<rparr>))
     = Some (?d\<lparr>dp_waiting := [], dp_inside := [''v'']\<rparr>,
         promote (video_lane ''p'') ''v'' (register (video_lane ''p'') ''v'' \<lparr>oc_task = Unfinished, oc_pending = True\<rparr> (wk_slots restarted)))"
    by (simp add: acquire_def)
  from batch_within_permits [OF resumption_runs.permit [OF batch _ this]] show ?thesis by simp
qed

theorem retries_exceed_capacity_witness:
  "capacity_get (wk_capacity restarted) ''p'' ''video'' = 1
    \<and> (\<exists>ds w. resumption_runs demo_env None restarted ds w \<and> capacity_get (wk_capacity w) ''p'' ''video'' = 1
         \<and> 2 \<le> occupied (''p'', ''video'') (wk_slots w))"
proof -
  have cap: "capacity_get (wk_capacity restarted) ''p'' ''video'' = 1" by code_simp
  then have "0 < capacity_get (wk_capacity restarted) ''p'' ''video''" by simp
  from retries_exceed_capacity [OF this restarted_ok(2), of "[''v'', ''w'']" demo_env None]
  obtain ds w where "resumption_runs demo_env None restarted ds w" "wk_capacity w = wk_capacity restarted"
    "2 \<le> occupied (video_lane ''p'') (wk_slots w)"
    by auto
  with cap show ?thesis unfolding video_lane_def by metis
qed


end
