(* ===== verification/Json.thy ===== *)
theory Json
  imports Prelude "HOL-Library.List_Lexorder"
begin

text \<open>
  What the standard module \<open>json\<close> writes and reads, as far as the program stores failures with it:
  \<open>json.dumps\<close> with \<open>ensure_ascii=False\<close> and \<open>default=str\<close>, with and without \<open>sort_keys\<close>, and
  \<open>json.loads\<close>.  Texts are lists of code points.  A float is the text \<open>dumps\<close> writes for it; reading
  a float is the argument \<open>fl\<close>, from the characters of the number to that text.  A value that is no
  JSON value is its \<open>str\<close>.  Dictionaries have text keys, in their order of insertion.
\<close>

section \<open>Values\<close>

datatype json =
    JNull
  | JBool bool
  | JInt int
  | JFloat utext
  | JText utext
  | JList "json list"
  | JDict "(utext \<times> json) list"
  | JOther utext

text \<open>How deep containers are nested, which the recursion limit bounds\<close>

fun nesting :: "json \<Rightarrow> nat" where
  "nesting (JList vs) = Suc (Max (insert 0 (set (map nesting vs))))"
| "nesting (JDict ps) = Suc (Max (insert 0 (set (map (\<lambda>(k, v). nesting v) ps))))"
| "nesting v = 0"

text \<open>The interpreter converts integers of at most this many digits from and to text\<close>

definition INT_MAX_STR_DIGITS :: nat where "INT_MAX_STR_DIGITS = 4300"

fun ints_convert :: "json \<Rightarrow> bool" where
  "ints_convert (JInt n) = (length (decimal (nat \<bar>n\<bar>)) \<le> INT_MAX_STR_DIGITS)"
| "ints_convert (JList vs) = list_all (\<lambda>b. b) (map ints_convert vs)"
| "ints_convert (JDict ps) = list_all (\<lambda>b. b) (map (\<lambda>(k, v). ints_convert v) ps)"
| "ints_convert v = True"

section \<open>Writing\<close>

definition hex_digit :: "nat \<Rightarrow> nat" where
  "hex_digit d = (if d < 10 then 48 + d else 87 + d)"

definition escape_code :: "nat \<Rightarrow> utext" where
  "escape_code c =
     (if c = 34 then [92, 34] else if c = 92 then [92, 92]
      else if c = 10 then codes [CHR 0x5C, CHR ''n''] else if c = 13 then codes [CHR 0x5C, CHR ''r'']
      else if c = 9 then codes [CHR 0x5C, CHR ''t''] else if c = 12 then codes [CHR 0x5C, CHR ''f'']
      else if c = 8 then codes [CHR 0x5C, CHR ''b'']
      else if c < 32 then codes [CHR 0x5C, CHR ''u'', CHR ''0'', CHR ''0''] @ [hex_digit (c div 16), hex_digit (c mod 16)]
      else [c])"

definition quote :: "utext \<Rightarrow> utext" where
  "quote t = [34] @ concat (map escape_code t) @ [34]"

fun join :: "utext \<Rightarrow> utext list \<Rightarrow> utext" where
  "join sep [] = []"
| "join sep [t] = t"
| "join sep (t # ts) = t @ sep @ join sep ts"

definition int_text :: "int \<Rightarrow> utext" where
  "int_text n = (if n < 0 then [45] else []) @ codes (decimal (nat \<bar>n\<bar>))"

definition member_text :: "utext \<times> utext \<Rightarrow> utext" where
  "member_text = (\<lambda>(k, t). quote k @ [58, 32] @ t)"

fun dump :: "bool \<Rightarrow> json \<Rightarrow> utext" where
  "dump by_key JNull = codes ''null''"
| "dump by_key (JBool b) = codes (if b then ''true'' else ''false'')"
| "dump by_key (JInt n) = int_text n"
| "dump by_key (JFloat t) = t"
| "dump by_key (JText t) = quote t"
| "dump by_key (JOther t) = quote t"
| "dump by_key (JList vs) = [91] @ join [44, 32] (map (dump by_key) vs) @ [93]"
| "dump by_key (JDict ps) =
     (let items = map (\<lambda>(k, v). (k, dump by_key v)) ps
      in [123] @ join [44, 32] (map member_text (if by_key then sort_key fst items else items)) @ [125])"

text \<open>\<open>dumps\<close> raises when the value is nested deeper than \<open>depth\<close> or has an integer too long\<close>

definition dumps :: "nat \<Rightarrow> bool \<Rightarrow> json \<Rightarrow> utext option" where
  "dumps depth by_key v = (if nesting v \<le> depth \<and> ints_convert v then Some (dump by_key v) else None)"

section \<open>Reading\<close>

definition skip_white :: "utext \<Rightarrow> utext" where
  "skip_white = dropWhile (\<lambda>c. c \<in> {32, 9, 10, 13})"

definition hex_value :: "nat \<Rightarrow> nat option" where
  "hex_value c = (if 48 \<le> c \<and> c \<le> 57 then Some (c - 48)
     else if 97 \<le> c \<and> c \<le> 102 then Some (c - 87)
     else if 65 \<le> c \<and> c \<le> 70 then Some (c - 55) else None)"

fun hex4 :: "utext \<Rightarrow> (nat \<times> utext) option" where
  "hex4 (a # b # c # d # s) =
     (case (hex_value a, hex_value b, hex_value c, hex_value d) of
        (Some a, Some b, Some c, Some d) \<Rightarrow> Some (((a * 16 + b) * 16 + c) * 16 + d, s)
      | _ \<Rightarrow> None)"
| "hex4 s = None"

text \<open>A surrogate pair is one character; a surrogate alone stays\<close>

definition unicode_escape :: "utext \<Rightarrow> (nat \<times> utext) option" where
  "unicode_escape s = (case hex4 s of
       None \<Rightarrow> None
     | Some (high, r) \<Rightarrow>
         if 0xD800 \<le> high \<and> high \<le> 0xDBFF \<and> take 2 r = [92, 117] then
           (case hex4 (drop 2 r) of
              None \<Rightarrow> None
            | Some (low, r') \<Rightarrow>
                if 0xDC00 \<le> low \<and> low \<le> 0xDFFF then Some (0x10000 + (high - 0xD800) * 1024 + (low - 0xDC00), r')
                else Some (high, r))
         else Some (high, r))"

definition simple_escape :: "nat \<Rightarrow> nat option" where
  "simple_escape c = map_of [(34, 34), (92, 92), (47, 47), (98, 8), (102, 12), (110, 10), (114, 13), (116, 9)] c"

text \<open>The rest of a text after its opening quote\<close>

lemma hex4_shrinks: "hex4 s = Some (n, r) \<Longrightarrow> length r < length s"
  by (induction s rule: hex4.induct) (auto split: option.splits)

lemma unicode_escape_shrinks: "unicode_escape s = Some (n, r) \<Longrightarrow> length r < length s"
  by (auto simp: unicode_escape_def split: option.splits if_splits dest!: hex4_shrinks)

function text_body :: "utext \<Rightarrow> (utext \<times> utext) option" where
  "text_body s = (case s of
       [] \<Rightarrow> None
     | c # r \<Rightarrow>
         if c = 34 then Some ([], r)
         else if c = 92 then
           (case r of
              [] \<Rightarrow> None
            | e # r' \<Rightarrow>
                if e = 117 then
                  (case unicode_escape r' of
                     None \<Rightarrow> None
                   | Some (n, r'') \<Rightarrow> map_option (\<lambda>(t, rest). (n # t, rest)) (text_body r''))
                else (case simple_escape e of
                     None \<Rightarrow> None
                   | Some n \<Rightarrow> map_option (\<lambda>(t, rest). (n # t, rest)) (text_body r')))
         else if c < 32 then None
         else map_option (\<lambda>(t, rest). (c # t, rest)) (text_body r))"
  by pat_completeness auto
termination
  by (relation "measure length") (auto dest: unicode_escape_shrinks)

declare text_body.simps [simp del]

text \<open>Numbers\<close>

definition is_digit_code :: "nat \<Rightarrow> bool" where
  "is_digit_code c = (48 \<le> c \<and> c \<le> 57)"

definition digits_number :: "utext \<Rightarrow> nat" where
  "digits_number t = foldl (\<lambda>acc c. 10 * acc + (c - 48)) 0 t"

definition integer_part :: "utext \<Rightarrow> (utext \<times> utext) option" where
  "integer_part s = (case s of
       [] \<Rightarrow> None
     | c # r \<Rightarrow> if c = 48 then Some ([48], r)
         else if is_digit_code c then Some (c # takeWhile is_digit_code r, dropWhile is_digit_code r) else None)"

definition fraction :: "utext \<Rightarrow> utext \<times> utext" where
  "fraction s = (case s of
       c # r \<Rightarrow> if c = 46 \<and> takeWhile is_digit_code r \<noteq> []
         then (46 # takeWhile is_digit_code r, dropWhile is_digit_code r) else ([], s)
     | [] \<Rightarrow> ([], s))"

definition exponent :: "utext \<Rightarrow> utext \<times> utext" where
  "exponent s = (case s of
       c # r \<Rightarrow>
         let sign = (case r of d # _ \<Rightarrow> if d \<in> {43, 45} then [d] else [] | [] \<Rightarrow> []);
             r' = drop (length sign) r
         in if c \<in> {69, 101} \<and> takeWhile is_digit_code r' \<noteq> []
            then (c # sign @ takeWhile is_digit_code r', dropWhile is_digit_code r') else ([], s)
     | [] \<Rightarrow> ([], s))"

definition sign_part :: "utext \<Rightarrow> utext \<times> utext" where
  "sign_part s = (case s of c # r \<Rightarrow> if c = 45 then ([45], r) else ([], s) | [] \<Rightarrow> ([], s))"

definition number :: "(utext \<Rightarrow> utext) \<Rightarrow> utext \<Rightarrow> (json \<times> utext) option" where
  "number fl s =
     (let (minus, s1) = sign_part s
      in case integer_part s1 of
           None \<Rightarrow> None
         | Some (digits, s2) \<Rightarrow>
             let (frac, s3) = fraction s2; (ex, s4) = exponent s3
             in if frac \<noteq> [] \<or> ex \<noteq> [] then Some (JFloat (fl (minus @ digits @ frac @ ex)), s4)
                else if INT_MAX_STR_DIGITS < length digits then None
                else Some (JInt ((if minus = [] then 1 else - 1) * int (digits_number digits)), s4))"

definition prefixed :: "utext \<Rightarrow> json \<Rightarrow> utext \<Rightarrow> (json \<times> utext) option" where
  "prefixed word v s = (if take (length word) s = word then Some (v, drop (length word) s) else None)"

fun first_of :: "('a \<Rightarrow> 'b option) list \<Rightarrow> 'a \<Rightarrow> 'b option" where
  "first_of [] s = None"
| "first_of (p # ps) s = (case p s of Some v \<Rightarrow> Some v | None \<Rightarrow> first_of ps s)"

definition scalar :: "(utext \<Rightarrow> utext) \<Rightarrow> utext \<Rightarrow> (json \<times> utext) option" where
  "scalar fl s =
     (case s of
        [] \<Rightarrow> None
      | c # r \<Rightarrow>
          if c = 34 then map_option (\<lambda>(t, rest). (JText t, rest)) (text_body r)
          else first_of [prefixed (codes ''null'') JNull, prefixed (codes ''true'') (JBool True),
            prefixed (codes ''false'') (JBool False), number fl, prefixed (codes ''NaN'') (JFloat (codes ''NaN'')),
            prefixed (codes ''Infinity'') (JFloat (codes ''Infinity'')),
            prefixed (codes ''-Infinity'') (JFloat (codes ''-Infinity''))] s)"

text \<open>The elements of an array and the members of an object; the second argument bounds their number\<close>

fun elements :: "(utext \<Rightarrow> (json \<times> utext) option) \<Rightarrow> nat \<Rightarrow> utext \<Rightarrow> (json list \<times> utext) option" where
  "elements value 0 s = None"
| "elements value (Suc n) s = (case value s of
       None \<Rightarrow> None
     | Some (v, r) \<Rightarrow> (case skip_white r of
           [] \<Rightarrow> None
         | c # r' \<Rightarrow> if c = 93 then Some ([v], r')
             else if c = 44 then map_option (\<lambda>(vs, rest). (v # vs, rest)) (elements value n (skip_white r'))
             else None))"

definition member_of :: "(utext \<Rightarrow> (json \<times> utext) option) \<Rightarrow> utext \<Rightarrow> ((utext \<times> json) \<times> utext) option" where
  "member_of value s = (case s of
       [] \<Rightarrow> None
     | c # r \<Rightarrow> if c \<noteq> 34 then None else (case text_body r of
           None \<Rightarrow> None
         | Some (k, r1) \<Rightarrow> (case skip_white r1 of
               [] \<Rightarrow> None
             | c # r2 \<Rightarrow> if c \<noteq> 58 then None
                 else map_option (\<lambda>(v, rest). ((k, v), rest)) (value (skip_white r2)))))"

fun members :: "(utext \<Rightarrow> (json \<times> utext) option) \<Rightarrow> nat \<Rightarrow> utext \<Rightarrow> ((utext \<times> json) list \<times> utext) option" where
  "members value 0 s = None"
| "members value (Suc n) s = (case member_of value s of
       None \<Rightarrow> None
     | Some (m, r) \<Rightarrow> (case skip_white r of
           [] \<Rightarrow> None
         | c # r' \<Rightarrow> if c = 125 then Some ([m], r')
             else if c = 44 then map_option (\<lambda>(ms, rest). (m # ms, rest)) (members value n (skip_white r'))
             else None))"

text \<open>A later member with the same key replaces the value of an earlier one\<close>

definition dict_of :: "(utext \<times> json) list \<Rightarrow> (utext \<times> json) list" where
  "dict_of ms = fold (\<lambda>(k, v). dict_set k v) ms []"

primrec value_at :: "(utext \<Rightarrow> utext) \<Rightarrow> nat \<Rightarrow> utext \<Rightarrow> (json \<times> utext) option" where
  "value_at fl 0 s = (case s of [] \<Rightarrow> None | c # r \<Rightarrow> if c \<in> {91, 123} then None else scalar fl s)"
| "value_at fl (Suc depth) s = (case s of
       [] \<Rightarrow> None
     | c # r \<Rightarrow>
         if c = 91 then
           (case skip_white r of
              [] \<Rightarrow> None
            | d # r' \<Rightarrow> if d = 93 then Some (JList [], r')
                else map_option (\<lambda>(vs, rest). (JList vs, rest)) (elements (value_at fl depth) (length r) (d # r')))
         else if c = 123 then
           (case skip_white r of
              [] \<Rightarrow> None
            | d # r' \<Rightarrow> if d = 125 then Some (JDict [], r')
                else map_option (\<lambda>(ms, rest). (JDict (dict_of ms), rest)) (members (value_at fl depth) (length r) (d # r')))
         else scalar fl s)"

text \<open>\<open>None\<close> is an error: text that is no JSON value, or nested too deep, or an integer too long\<close>

definition loads :: "(utext \<Rightarrow> utext) \<Rightarrow> nat \<Rightarrow> utext \<Rightarrow> json option" where
  "loads fl depth s = (case value_at fl depth (skip_white s) of
       None \<Rightarrow> None
     | Some (v, r) \<Rightarrow> if skip_white r = [] then Some v else None)"

end
