(* ===== verification/JsonProps.thy ===== *)
theory JsonProps
  imports Json
begin

text \<open>
  What \<open>json.dumps\<close> writes, \<open>json.loads\<close> reads: the value itself, with sorted keys where they were
  sorted and texts in place of the values that are no JSON values.
\<close>

named_theorems json_simps

section \<open>Texts\<close>

lemma hex_value_digit: "d < 16 \<Longrightarrow> hex_value (hex_digit d) = Some d"
  by (auto simp: hex_value_def hex_digit_def)

lemma text_body_simps [json_simps]:
  "text_body (34 # r) = Some ([], r)"
  "c \<noteq> 34 \<Longrightarrow> c \<noteq> 92 \<Longrightarrow> 32 \<le> c \<Longrightarrow> text_body (c # r) = map_option (\<lambda>(t, rest). (c # t, rest)) (text_body r)"
  "e \<noteq> 117 \<Longrightarrow> simple_escape e = Some n \<Longrightarrow> text_body (92 # e # r) = map_option (\<lambda>(t, rest). (n # t, rest)) (text_body r)"
  "unicode_escape r = Some (n, r') \<Longrightarrow> text_body (92 # 117 # r) = map_option (\<lambda>(t, rest). (n # t, rest)) (text_body r')"
  by (subst text_body.simps, simp)+

lemma unicode_escape_control:
  assumes "c < 32"
  shows "unicode_escape (48 # 48 # hex_digit (c div 16) # hex_digit (c mod 16) # r) = Some (c, r)"
proof -
  have "c div 16 < 16" "c mod 16 < 16" using assms by auto
  then have "hex4 (48 # 48 # hex_digit (c div 16) # hex_digit (c mod 16) # r) = Some (c, r)"
    by (simp add: hex_value_digit) (simp add: hex_value_def)
  then show ?thesis using assms by (simp add: unicode_escape_def)
qed

lemma text_body_escape:
  "text_body (escape_code c @ r) = map_option (\<lambda>(t, rest). (c # t, rest)) (text_body r)"
  using unicode_escape_control [of c r]
  by (auto simp: escape_code_def codes_def json_simps simple_escape_def)

lemma text_body_quote: "text_body (concat (map escape_code t) @ 34 # r) = Some (t, r)"
  by (induction t) (simp_all add: json_simps text_body_escape)

section \<open>Numbers\<close>

text \<open>What may follow a value inside a text\<close>

definition stops :: "utext \<Rightarrow> bool" where
  "stops r = (r = [] \<or> hd r \<in> {44, 93, 125})"

lemma stops_digits: "stops r \<Longrightarrow> takeWhile is_digit_code r = [] \<and> dropWhile is_digit_code r = r"
  by (cases r) (auto simp: stops_def is_digit_code_def)

lemma takeWhile_stops: "stops r \<Longrightarrow> takeWhile is_digit_code (s @ r) = takeWhile is_digit_code s"
  by (induction s) (auto simp: stops_digits)

lemma dropWhile_stops: "stops r \<Longrightarrow> dropWhile is_digit_code (s @ r) = dropWhile is_digit_code s @ r"
  by (induction s) (auto simp: stops_digits)

lemma integer_part_stops:
  "integer_part s = Some (t, s') \<Longrightarrow> stops r \<Longrightarrow> integer_part (s @ r) = Some (t, s' @ r)"
  by (cases s) (auto simp: integer_part_def takeWhile_stops dropWhile_stops split: if_splits)

lemma fraction_stops: "stops r \<Longrightarrow> fraction (s @ r) = (fst (fraction s), snd (fraction s) @ r)"
  by (cases s) (auto simp: fraction_def takeWhile_stops dropWhile_stops stops_def split: list.split)

lemma exponent_stops:
  assumes "stops r"
  shows "exponent (s @ r) = (fst (exponent s), snd (exponent s) @ r)"
proof (cases s)
  case Nil
  then show ?thesis using assms by (auto simp: exponent_def stops_def Let_def split: list.split)
next
  case (Cons c t)
  then show ?thesis
  proof (cases t)
    case Nil
    then show ?thesis using Cons assms stops_digits [OF assms]
      by (auto simp: exponent_def Let_def stops_def split: list.splits)
  next
    case (Cons d u)
    then show ?thesis using \<open>s = c # t\<close> assms by (auto simp: exponent_def Let_def takeWhile_stops dropWhile_stops)
  qed
qed

lemma number_stops:
  assumes "number fl s = Some (v, s')" "stops r"
  shows "number fl (s @ r) = Some (v, s' @ r)"
proof -
  obtain minus s1 where sign: "sign_part s = (minus, s1)" by force
  obtain digits s2 where int: "integer_part s1 = Some (digits, s2)"
    using assms(1) by (auto simp: number_def sign split: option.splits)
  obtain frac s3 where frac: "fraction s2 = (frac, s3)" by force
  obtain ex s4 where ex: "exponent s3 = (ex, s4)" by force
  have "s1 \<noteq> []" using int by (auto simp: integer_part_def)
  then have "sign_part (s @ r) = (minus, s1 @ r)"
    using sign by (cases s) (auto simp: sign_part_def split: if_splits)
  moreover note integer_part_stops [OF int assms(2)]
  moreover have "fraction (s2 @ r) = (frac, s3 @ r)" using fraction_stops [OF assms(2), of s2] frac by simp
  moreover have "exponent (s3 @ r) = (ex, s4 @ r)" using exponent_stops [OF assms(2), of s3] ex by simp
  ultimately show ?thesis using assms(1) sign int frac ex by (auto simp: number_def split: if_splits)
qed

lemma digits_number_codes: "digits_number (codes s) = digits_value s"
proof -
  have "foldl (\<lambda>acc c. 10 * acc + (c - 48)) a (codes s) = foldl (\<lambda>acc c. 10 * acc + (of_char c - 48)) a s" for a
    by (induction s arbitrary: a) (auto simp: codes_def)
  then show ?thesis by (simp add: digits_number_def digits_value_def)
qed

lemma decimal_cases:
  obtains "n = 0" "codes (decimal n) = [48]"
  | c t where "0 < n" "codes (decimal n) = c # t" "is_digit_code c" "c \<noteq> 48" "list_all is_digit_code t"
proof (cases "n = 0")
  case True
  then show ?thesis using that(1) by (simp add: decimal.simps [of 0] digit_char_def codes_def)
next
  case False
  then have pos: "is_positive_decimal (decimal n)" by (simp add: decimal_positive)
  then obtain c s where d: "decimal n = c # s" "is_digit c" "c \<noteq> CHR ''0''" "list_all is_digit s"
    by (auto simp: is_positive_decimal_def split: list.splits)
  have "of_char c \<noteq> (48 :: nat)"
  proof
    assume "of_char c = (48 :: nat)"
    then have "of_char c = (of_char CHR ''0'' :: nat)" by simp
    then show False using d(3) by (simp only: of_char_eq_iff)
  qed
  with d False show ?thesis
    by (intro that(2) [of "of_char c" "codes s"]) (auto simp: codes_def is_digit_def is_digit_code_def list_all_iff)
qed

lemma takeWhile_all: "list_all P t \<Longrightarrow> takeWhile P t = t \<and> dropWhile P t = []"
  by (simp add: list_all_iff)

lemma integer_part_decimal: "integer_part (codes (decimal n)) = Some (codes (decimal n), [])"
proof (cases rule: decimal_cases [of n])
  case (2 c t)
  show ?thesis unfolding 2(2) integer_part_def list.case takeWhile_all [OF 2(5), THEN conjunct1] takeWhile_all [OF 2(5), THEN conjunct2]
    using 2(3,4) by simp
qed (simp add: integer_part_def)

lemma int_text_head:
  obtains c t where "int_text n = c # t" "c = 45 \<or> is_digit_code c"
proof (cases "n < 0")
  case True
  then show ?thesis using that by (simp add: int_text_def)
next
  case False
  then show ?thesis
    using that by (cases rule: decimal_cases [of "nat n"]) (auto simp: int_text_def is_digit_code_def)
qed

lemma number_int:
  assumes "length (decimal (nat \<bar>n\<bar>)) \<le> INT_MAX_STR_DIGITS"
  shows "number fl (int_text n) = Some (JInt n, [])"
proof -
  let ?d = "codes (decimal (nat \<bar>n\<bar>))"
  have "sign_part ?d = ([], ?d)"
    by (cases rule: decimal_cases [of "nat \<bar>n\<bar>"]) (auto simp: sign_part_def is_digit_code_def)
  moreover have "sign_part (45 # ?d) = ([45], ?d)" by (simp add: sign_part_def)
  ultimately have sign: "sign_part (int_text n) = (if n < 0 then [45] else [], ?d)"
    by (cases "n < 0") (simp_all add: int_text_def)
  have rest: "fraction [] = ([], [])" "exponent [] = ([], [])" by (simp_all add: fraction_def exponent_def)
  show ?thesis
    using assms by (simp add: number_def sign integer_part_decimal rest digits_number_codes)
qed

section \<open>Scalars\<close>

lemma prefixed_other: "s = c # r \<Longrightarrow> word = d # w \<Longrightarrow> c \<noteq> d \<Longrightarrow> prefixed word v s = None"
  by (simp add: prefixed_def)

lemma scalar_number:
  assumes "number fl s = Some (v, s')"
  shows "scalar fl s = Some (v, s')"
proof -
  obtain c r where s: "s = c # r" using assms by (cases s) (auto simp: number_def sign_part_def integer_part_def)
  have "c = 45 \<or> is_digit_code c"
    using assms by (auto simp: s number_def sign_part_def integer_part_def is_digit_code_def Let_def split: if_splits prod.splits)
  then show ?thesis
    using assms by (auto simp: s scalar_def prefixed_def codes_def is_digit_code_def)
qed

lemma scalar_int:
  assumes "length (decimal (nat \<bar>n\<bar>)) \<le> INT_MAX_STR_DIGITS" "stops r"
  shows "scalar fl (int_text n @ r) = Some (JInt n, r)"
  using scalar_number [OF number_stops [OF number_int [OF assms(1)] assms(2)]] by simp

lemma number_None: "c \<noteq> 45 \<Longrightarrow> \<not> is_digit_code c \<Longrightarrow> number fl (c # r) = None"
  "\<not> is_digit_code c \<Longrightarrow> number fl (45 # c # r) = None"
  by (auto simp: number_def sign_part_def integer_part_def is_digit_code_def)

lemma scalar_words [json_simps]:
  "scalar fl (codes ''null'' @ r) = Some (JNull, r)"
  "scalar fl (codes ''true'' @ r) = Some (JBool True, r)"
  "scalar fl (codes ''false'' @ r) = Some (JBool False, r)"
  "scalar fl (codes ''NaN'' @ r) = Some (JFloat (codes ''NaN''), r)"
  "scalar fl (codes ''Infinity'' @ r) = Some (JFloat (codes ''Infinity''), r)"
  "scalar fl (codes ''-Infinity'' @ r) = Some (JFloat (codes ''-Infinity''), r)"
  by (simp_all add: scalar_def prefixed_def codes_def number_None is_digit_code_def)

lemma prefixed_all: "prefixed word v s = Some (v', []) \<Longrightarrow> s = word \<and> v' = v"
  by (auto simp: prefixed_def split: if_splits)

lemma scalar_float:
  assumes "scalar fl t = Some (JFloat t', [])" "stops r"
  shows "scalar fl (t @ r) = Some (JFloat t', r)"
proof -
  obtain c u where t: "t = c # u" using assms(1) by (cases t) (auto simp: scalar_def)
  have "c \<noteq> 34" using assms(1) by (auto simp: t scalar_def)
  then consider "t = codes ''NaN''" "t' = t" | "t = codes ''Infinity''" "t' = t" | "t = codes ''-Infinity''" "t' = t"
    | "number fl t = Some (JFloat t', [])"
    using assms(1) by (auto simp: t scalar_def split: option.splits dest!: prefixed_all)
  then show ?thesis
  proof cases
    case 4
    from scalar_number [OF number_stops [OF this assms(2)]] show ?thesis by simp
  qed (simp_all add: json_simps)
qed

section \<open>Containers\<close>

text \<open>What is read back\<close>

fun as_read :: "bool \<Rightarrow> json \<Rightarrow> json" where
  "as_read by_key (JOther t) = JText t"
| "as_read by_key (JList vs) = JList (map (as_read by_key) vs)"
| "as_read by_key (JDict ps) =
     (let items = map (\<lambda>(k, v). (k, as_read by_key v)) ps in JDict (if by_key then sort_key fst items else items))"
| "as_read by_key v = v"

text \<open>Values of the interpreter: the keys of a dictionary differ, and a float reads back from its text\<close>

fun well_formed :: "(utext \<Rightarrow> utext) \<Rightarrow> json \<Rightarrow> bool" where
  "well_formed fl (JFloat t) = (scalar fl t = Some (JFloat t, []))"
| "well_formed fl (JList vs) = list_all (\<lambda>b. b) (map (well_formed fl) vs)"
| "well_formed fl (JDict ps) = (distinct (map fst ps) \<and> list_all (\<lambda>b. b) (map (\<lambda>(k, v). well_formed fl v) ps))"
| "well_formed fl v = True"

lemma insort_key_map: "(\<And>x. fst (g x) = fst x) \<Longrightarrow> insort_key fst (g x) (map g xs) = map g (insort_key fst x xs)"
  by (induction xs) auto

lemma sort_key_map: "(\<And>x. fst (g x) = fst x) \<Longrightarrow> sort_key fst (map g xs) = map g (sort_key fst xs)"
  by (induction xs) (simp_all add: insort_key_map)

definition ordered :: "bool \<Rightarrow> (utext \<times> json) list \<Rightarrow> (utext \<times> json) list" where
  "ordered by_key ps = (if by_key then sort_key fst ps else ps)"

lemma set_ordered [simp]: "set (ordered by_key ps) = set ps"
  by (simp add: ordered_def)

lemma distinct_ordered: "distinct (map fst ps) \<Longrightarrow> distinct (map fst (ordered by_key ps))"
  by (simp add: ordered_def distinct_map distinct_sort)

lemma dump_dict:
  "dump by_key (JDict ps) = 123 # join [44, 32] (map (\<lambda>(k, v). quote k @ [58, 32] @ dump by_key v) (ordered by_key ps)) @ [125]"
  by (simp add: Let_def ordered_def sort_key_map case_prod_unfold member_text_def comp_def)

lemma as_read_dict: "as_read by_key (JDict ps) = JDict (map (\<lambda>(k, v). (k, as_read by_key v)) (ordered by_key ps))"
  by (simp add: Let_def ordered_def sort_key_map case_prod_unfold)

lemma dict_set_new: "k \<notin> fst ` set d \<Longrightarrow> dict_set k v d = d @ [(k, v)]"
  by (induction d) auto

lemma dict_of_distinct: "distinct (map fst ms) \<Longrightarrow> dict_of ms = ms"
proof -
  have "fold (\<lambda>(k, v). dict_set k v) ms acc = acc @ ms" if "distinct (map fst (acc @ ms))" for acc
    using that
  proof (induction ms arbitrary: acc)
    case (Cons m ms)
    then show ?case by (cases m) (simp add: dict_set_new)
  qed simp
  from this [of "[]"] show "distinct (map fst ms) \<Longrightarrow> dict_of ms = ms" by (simp add: dict_of_def)
qed

text \<open>The first character of a value\<close>

definition starts :: "utext \<Rightarrow> bool" where
  "starts s = (s \<noteq> [] \<and> hd s \<notin> {32, 9, 10, 13, 93, 125})"

lemma skip_white_starts: "starts s \<Longrightarrow> skip_white (s @ r) = s @ r"
  by (cases s) (auto simp: starts_def skip_white_def)

lemma skip_white_simps [json_simps]: "skip_white (32 # s) = skip_white s"
  "c \<notin> {32, 9, 10, 13} \<Longrightarrow> skip_white (c # s) = c # s"
  by (auto simp: skip_white_def)

lemma scalar_head: "c \<in> {9, 10, 13, 32, 91, 93, 123, 125} \<Longrightarrow> scalar fl (c # s) = None"
  by (auto simp: scalar_def prefixed_def codes_def number_None is_digit_code_def)

lemma scalar_starts:
  assumes "scalar fl s = Some (v, r)"
  shows "starts s" "hd s \<noteq> 91" "hd s \<noteq> 123" "s \<noteq> []"
  using assms scalar_head [of "hd s" fl "tl s"] by (cases s; force simp: starts_def scalar_def)+

lemma dump_starts: "well_formed fl v \<Longrightarrow> starts (dump by_key v)"
proof (cases v)
  case (JInt n)
  then show ?thesis by (cases rule: int_text_head [of n]) (auto simp: starts_def is_digit_code_def)
qed (auto simp: starts_def codes_def quote_def Let_def dest: scalar_starts [unfolded starts_def])

lemma elements_join:
  assumes "list_all (\<lambda>v. starts (pr v) \<and> (\<forall>r. stops r \<longrightarrow> rd (pr v @ r) = Some (f v, r))) vs" "vs \<noteq> []" "length vs \<le> n"
  shows "elements rd n (join [44, 32] (map pr vs) @ 93 # r) = Some (map f vs, r)"
  using assms
proof (induction vs arbitrary: n rule: induct_list012)
  case (2 v)
  then obtain m where "n = Suc m" by (cases n) auto
  then show ?case using 2 by (simp add: stops_def json_simps)
next
  case (3 v w vs)
  then obtain m where "n = Suc m" by (cases n) auto
  moreover have "skip_white (32 # join [44, 32] (map pr (w # vs)) @ 93 # r) = join [44, 32] (map pr (w # vs)) @ 93 # r"
    using skip_white_starts [of "pr w"] 3(3) by (cases vs) (simp_all add: json_simps)
  ultimately show ?case using 3 by (simp add: stops_def json_simps)
qed simp

lemma member_text_read:
  assumes "starts (pr v)" "\<forall>r. stops r \<longrightarrow> rd (pr v @ r) = Some (f v, r)" "stops r"
  shows "member_of rd (quote k @ [58, 32] @ pr v @ r) = Some ((k, f v), r)"
  using assms text_body_quote [of k "58 # 32 # pr v @ r"] skip_white_starts [OF assms(1)]
  by (simp add: member_of_def quote_def json_simps)

lemma members_join:
  assumes "list_all (\<lambda>(k, v). starts (pr v) \<and> (\<forall>r. stops r \<longrightarrow> rd (pr v @ r) = Some (f v, r))) ps" "ps \<noteq> []" "length ps \<le> n"
  shows "members rd n (join [44, 32] (map (\<lambda>(k, v). quote k @ [58, 32] @ pr v) ps) @ 125 # r)
    = Some (map (\<lambda>(k, v). (k, f v)) ps, r)"
  using assms
proof (induction ps arbitrary: n rule: induct_list012)
  case (2 p)
  then obtain m k v where "n = Suc m" "p = (k, v)" by (cases n; cases p) auto
  then show ?case using 2 member_text_read [of pr v rd f "125 # r" k] by (simp add: stops_def json_simps)
next
  case (3 p q ps)
  let ?rest = "join [44, 32] (map (\<lambda>(k, v). quote k @ [58, 32] @ pr v) (q # ps)) @ 125 # r"
  obtain m k v where p: "n = Suc m" "p = (k, v)" using 3(5) by (cases n; cases p) auto
  have "skip_white (32 # ?rest) = ?rest"
    by (cases q; cases ps) (simp_all add: json_simps quote_def)
  moreover have "member_of rd (quote k @ [58, 32] @ pr v @ 44 # 32 # ?rest) = Some ((k, f v), 44 # 32 # ?rest)"
    using 3(3) p by (intro member_text_read) (simp_all add: stops_def)
  ultimately show ?case using 3(2) [of m] 3(3,5) p by (simp add: json_simps)
qed simp

section \<open>Reading back\<close>

lemma value_at_scalar: "s = c # t \<Longrightarrow> c \<noteq> 91 \<Longrightarrow> c \<noteq> 123 \<Longrightarrow> value_at fl d s = scalar fl s"
  by (cases d) simp_all

lemma length_join: "list_all (\<lambda>t. t \<noteq> []) ts \<Longrightarrow> length ts \<le> length (join sep ts)"
proof (induction sep ts rule: join.induct)
  case (2 sep t)
  then show ?case by (cases t) simp_all
next
  case (3 sep t u ts)
  then show ?case by (cases t) simp_all
qed simp

lemma starts_join: "ts \<noteq> [] \<Longrightarrow> list_all starts ts \<Longrightarrow> starts (join sep ts @ r)"
  by (induction sep ts rule: join.induct) (auto simp: starts_def)

lemma nesting_list: "nesting (JList vs) \<le> d \<longleftrightarrow> 0 < d \<and> (\<forall>v \<in> set vs. nesting v \<le> d - 1)"
  by (cases d) auto

lemma nesting_dict: "nesting (JDict ps) \<le> d \<longleftrightarrow> 0 < d \<and> (\<forall>(k, v) \<in> set ps. nesting v \<le> d - 1)"
  by (cases d) auto

lemma value_at_list:
  assumes "list_all (\<lambda>v. starts (pr v) \<and> (\<forall>r. stops r \<longrightarrow> value_at fl d (pr v @ r) = Some (f v, r))) vs"
  shows "value_at fl (Suc d) (91 # join [44, 32] (map pr vs) @ 93 # r) = Some (JList (map f vs), r)"
proof (cases "vs = []")
  case False
  let ?body = "join [44, 32] (map pr vs) @ 93 # r"
  have st: "list_all starts (map pr vs)" using assms by (simp add: list_all_iff)
  then have "starts ?body" using False by (intro starts_join) simp_all
  then obtain c t where ct: "?body = c # t" "c \<noteq> 93" "skip_white ?body = c # t"
    using skip_white_starts [of ?body "[]"] by (cases ?body) (auto simp: starts_def)
  have "list_all (\<lambda>t. t \<noteq> []) (map pr vs)" using st by (auto simp: list_all_iff starts_def)
  then have "length vs \<le> length ?body" using length_join [of "map pr vs" "[44, 32]"] by simp
  from elements_join [OF assms False this, of r] show ?thesis using ct by simp
qed (simp add: json_simps)

lemma value_at_dict:
  assumes "list_all (\<lambda>(k, v). starts (pr v) \<and> (\<forall>r. stops r \<longrightarrow> value_at fl d (pr v @ r) = Some (f v, r))) ps"
    and "distinct (map fst ps)"
  shows "value_at fl (Suc d) (123 # join [44, 32] (map (\<lambda>(k, v). quote k @ [58, 32] @ pr v) ps) @ 125 # r)
    = Some (JDict (map (\<lambda>(k, v). (k, f v)) ps), r)"
proof (cases "ps = []")
  case False
  let ?ts = "map (\<lambda>(k, v). quote k @ [58, 32] @ pr v) ps"
  let ?body = "join [44, 32] ?ts @ 125 # r"
  have st: "list_all starts ?ts" by (auto simp: list_all_iff starts_def quote_def)
  then have "starts ?body" using False by (intro starts_join) simp_all
  then obtain c t where ct: "?body = c # t" "c \<noteq> 125" "skip_white ?body = c # t"
    using skip_white_starts [of ?body "[]"] by (cases ?body) (auto simp: starts_def)
  have "list_all (\<lambda>t. t \<noteq> []) ?ts" using st by (auto simp: list_all_iff starts_def)
  then have "length ps \<le> length ?body" using length_join [of ?ts "[44, 32]"] by simp
  note read = members_join [OF assms(1) False this, of r, unfolded ct(1)]
  have "distinct (map fst (map (\<lambda>(k, v). (k, f v)) ps))" using assms(2) by (simp add: case_prod_unfold comp_def)
  then show ?thesis unfolding ct(1) using read ct(2) ct(3) [unfolded ct(1)] by (simp add: dict_of_distinct del: members.simps)
qed (simp add: json_simps)

lemma value_at_dump:
  assumes "well_formed fl v" "ints_convert v" "nesting v \<le> d" "stops r"
  shows "value_at fl d (dump by_key v @ r) = Some (as_read by_key v, r)"
  using assms
proof (induction v arbitrary: d r)
  case (JInt n)
  then show ?case
    using scalar_int [of n r fl] by (cases rule: int_text_head [of n]) (auto simp: value_at_scalar is_digit_code_def)
next
  case (JFloat t)
  then have "scalar fl t = Some (JFloat t, [])" by simp
  moreover from scalar_starts [OF this] obtain c u where "t = c # u" "c \<noteq> 91" "c \<noteq> 123" by (cases t) auto
  ultimately show ?case using scalar_float [of fl t t r] JFloat(4) by (simp add: value_at_scalar)
next
  case (JText t)
  then show ?case using text_body_quote [of t r] by (simp add: quote_def value_at_scalar scalar_def)
next
  case (JOther t)
  then show ?case using text_body_quote [of t r] by (simp add: quote_def value_at_scalar scalar_def)
next
  case (JList vs)
  then obtain d' where d: "d = Suc d'" by (cases d) auto
  have "list_all (\<lambda>v. starts (dump by_key v) \<and> (\<forall>r. stops r \<longrightarrow> value_at fl d' (dump by_key v @ r) = Some (as_read by_key v, r))) vs"
    using JList d dump_starts [of fl _ by_key] by (auto simp: list_all_iff nesting_list)
  from value_at_list [OF this, of r] show ?case by (simp add: d)
next
  case (JDict ps)
  then obtain d' where d: "d = Suc d'" by (cases d) auto
  have "list_all (\<lambda>(k, v). starts (dump by_key v) \<and> (\<forall>r. stops r \<longrightarrow> value_at fl d' (dump by_key v @ r) = Some (as_read by_key v, r)))
     (ordered by_key ps)"
    using JDict d dump_starts [of fl _ by_key] by (fastforce simp: list_all_iff nesting_dict)
  from value_at_dict [OF this distinct_ordered, of r] show ?case
    using JDict.prems(1) unfolding dump_dict as_read_dict by (simp add: d)
qed (use json_simps in \<open>auto simp: value_at_scalar codes_def\<close>)

theorem loads_dumps:
  assumes "dumps depth by_key v = Some t" "well_formed fl v"
  shows "loads fl depth t = Some (as_read by_key v)"
proof -
  have t: "t = dump by_key v" "nesting v \<le> depth" "ints_convert v" using assms(1) by (auto simp: dumps_def split: if_splits)
  have "value_at fl depth (dump by_key v) = Some (as_read by_key v, [])"
    using value_at_dump [OF assms(2) t(3,2), of "[]" by_key] by (simp add: stops_def)
  moreover have "skip_white (dump by_key v) = dump by_key v"
    using skip_white_starts [OF dump_starts [OF assms(2)], of by_key "[]"] by simp
  ultimately show ?thesis by (simp add: loads_def t(1) skip_white_def)
qed

section \<open>Texts inside a value\<close>

text \<open>Every text inside a value is shorter than what was read\<close>

fun texts :: "json \<Rightarrow> utext set" where
  "texts (JText t) = {t}"
| "texts (JList vs) = \<Union> (set (map texts vs))"
| "texts (JDict ps) = \<Union> (set (map (\<lambda>(k, v). texts v) ps))"
| "texts v = {}"

definition shorter :: "(utext \<Rightarrow> (json \<times> utext) option) \<Rightarrow> bool" where
  "shorter p \<longleftrightarrow> (\<forall>s v r. p s = Some (v, r) \<longrightarrow> length r < length s \<and> (\<forall>t \<in> texts v. length t + length r < length s))"

lemma text_body_length: "text_body s = Some (t, r) \<Longrightarrow> length t + length r < length s"
proof (induction s arbitrary: t r rule: text_body.induct)
  case (1 s)
  note read = 1(4) [unfolded text_body.simps [of s]]
  show ?case
  proof (cases s)
    case (Cons c u)
    note IH = 1(1-3) [OF Cons]
    consider "c = 34" | "c = 92" | "c \<noteq> 34" "c \<noteq> 92" by blast
    then show ?thesis
    proof cases
      case 2
      then obtain e u' where u: "u = e # u'" using read Cons by (cases u) auto
      show ?thesis
      proof (cases "e = 117")
        case True
        then obtain n u'' where esc: "unicode_escape u' = Some (n, u'')" using read Cons 2 u by (auto split: option.splits)
        then obtain t' where t': "text_body u'' = Some (t', r)" "t = n # t'" using read Cons 2 u True by auto
        from unicode_escape_shrinks [OF esc] IH(1) [OF _ 2 u True esc refl t'(1)] show ?thesis using Cons u t'(2) 2 by simp
      next
        case False
        then obtain n where esc: "simple_escape e = Some n" using read Cons 2 u by (auto split: option.splits)
        then obtain t' where t': "text_body u' = Some (t', r)" "t = n # t'" using read Cons 2 u False by auto
        from IH(2) [OF _ 2 u False esc t'(1)] show ?thesis using Cons u t'(2) 2 by simp
      qed
    next
      case 3
      then obtain t' where t': "text_body u = Some (t', r)" "t = c # t'" "\<not> c < 32" using read Cons by (auto split: if_splits)
      from IH(3) [OF 3 t'(3,1)] show ?thesis using Cons t'(2) by simp
    qed (use read Cons in auto)
  qed (use read in auto)
qed

lemma number_length: "number fl s = Some (v, r) \<Longrightarrow> length r < length s \<and> texts v = {}"
proof -
  assume n: "number fl s = Some (v, r)"
  obtain minus s1 where sign: "sign_part s = (minus, s1)" by force
  obtain digits s2 where int: "integer_part s1 = Some (digits, s2)"
    using n by (auto simp: number_def sign split: option.splits)
  obtain frac s3 where frac: "fraction s2 = (frac, s3)" by force
  obtain ex s4 where ex: "exponent s3 = (ex, s4)" by force
  have "length s1 \<le> length s" using sign by (auto simp: sign_part_def split: list.splits if_splits)
  moreover have "length s2 < length s1"
    using int by (auto simp: integer_part_def less_Suc_eq_le length_dropWhile_le split: list.splits if_splits)
  moreover have "length s3 \<le> length s2"
    using frac by (auto simp: fraction_def le_SucI length_dropWhile_le split: list.splits if_splits)
  moreover have "length s4 \<le> length s3"
    using ex by (auto simp: exponent_def Let_def le_SucI length_dropWhile_le split: list.splits if_splits)
  ultimately show ?thesis using n sign int frac ex by (auto simp: number_def split: if_splits)
qed

lemma prefixed_length: "prefixed word v s = Some (v', r) \<Longrightarrow> word \<noteq> [] \<Longrightarrow> length r < length s \<and> v' = v"
  by (cases word; cases s) (auto simp: prefixed_def split: if_splits)

lemma scalar_shorter: "shorter (scalar fl)"
  unfolding shorter_def
proof (intro allI impI)
  fix s v r
  assume read: "scalar fl s = Some (v, r)"
  then obtain c u where s: "s = c # u" by (cases s) (auto simp: scalar_def)
  show "length r < length s \<and> (\<forall>t \<in> texts v. length t + length r < length s)"
  proof (cases "c = 34")
    case True
    then show ?thesis using read text_body_length [of u] by (fastforce simp: s scalar_def)
  next
    case False
    then show ?thesis
      using read by (auto simp: s scalar_def codes_def split: option.splits dest!: prefixed_length number_length)
  qed
qed

lemma skip_white_length: "length (skip_white s) \<le> length s"
  by (simp add: skip_white_def length_dropWhile_le)

lemma skip_white_Cons: "skip_white s = c # r \<Longrightarrow> length r < length s"
  using skip_white_length [of s] by simp

lemma elements_shorter:
  assumes "shorter p" "elements p n s = Some (vs, r)"
  shows "length r < length s \<and> (\<forall>v \<in> set vs. \<forall>t \<in> texts v. length t + length r < length s)"
  using assms(2)
proof (induction n arbitrary: s vs r)
  case (Suc n)
  then obtain v r1 where v: "p s = Some (v, r1)" by (auto split: option.splits)
  have v_short: "length r1 < length s" "\<forall>t \<in> texts v. length t + length r1 < length s"
    using assms(1) v unfolding shorter_def by blast+
  obtain c r2 where c: "skip_white r1 = c # r2" using Suc.prems v by (auto split: list.splits)
  note c_short = skip_white_Cons [OF c]
  show ?case
  proof (cases "c = 93")
    case True
    then have "vs = [v]" "r = r2" using Suc.prems v c by auto
    then show ?thesis using v_short c_short by fastforce
  next
    case False
    then obtain vs' where rest: "elements p n (skip_white r2) = Some (vs', r)" "vs = v # vs'" "c = 44"
      using Suc.prems v c by (auto split: if_splits)
    have "length r < length (skip_white r2)" "\<forall>v \<in> set vs'. \<forall>t \<in> texts v. length t + length r < length (skip_white r2)"
      using Suc.IH [OF rest(1)] by blast+
    then show ?thesis using v_short c_short skip_white_length [of r2] rest(2) by fastforce
  qed
qed simp

lemma member_of_shorter:
  assumes "shorter p" "member_of p s = Some ((k, v), r)"
  shows "length r < length s \<and> (\<forall>t \<in> texts v. length t + length r < length s)"
proof -
  obtain u where s: "s = 34 # u" using assms(2) by (cases s) (auto simp: member_of_def split: if_splits)
  then obtain k' r1 where r1: "text_body u = Some (k', r1)" using assms(2) by (auto simp: member_of_def split: option.splits)
  then obtain r2 where r2: "skip_white r1 = 58 # r2"
    using assms(2) s by (auto simp: member_of_def split: list.splits if_splits)
  have "p (skip_white r2) = Some (v, r)" using assms(2) s r1 r2 by (auto simp: member_of_def)
  then have "length r < length (skip_white r2) \<and> (\<forall>t \<in> texts v. length t + length r < length (skip_white r2))"
    using assms(1) unfolding shorter_def by blast
  then show ?thesis
    using skip_white_length [of r2] skip_white_Cons [OF r2] text_body_length [OF r1] s by fastforce
qed

lemma members_shorter:
  assumes "shorter p" "members p n s = Some (ms, r)"
  shows "length r < length s \<and> (\<forall>(k, v) \<in> set ms. \<forall>t \<in> texts v. length t + length r < length s)"
  using assms(2)
proof (induction n arbitrary: s ms r)
  case (Suc n)
  then obtain k v r1 where v: "member_of p s = Some ((k, v), r1)" by (auto split: option.splits)
  have v_short: "length r1 < length s" "\<forall>t \<in> texts v. length t + length r1 < length s"
    using member_of_shorter [OF assms(1) v] by blast+
  obtain c r2 where c: "skip_white r1 = c # r2" using Suc.prems v by (auto split: list.splits)
  note c_short = skip_white_Cons [OF c]
  show ?case
  proof (cases "c = 125")
    case True
    then have "ms = [(k, v)]" "r = r2" using Suc.prems v c by auto
    then show ?thesis using v_short c_short by fastforce
  next
    case False
    then obtain ms' where rest: "members p n (skip_white r2) = Some (ms', r)" "ms = (k, v) # ms'" "c = 44"
      using Suc.prems v c by (auto split: if_splits)
    have "length r < length (skip_white r2)" "\<forall>(k, v) \<in> set ms'. \<forall>t \<in> texts v. length t + length r < length (skip_white r2)"
      using Suc.IH [OF rest(1)] by blast+
    then show ?thesis using v_short c_short skip_white_length [of r2] rest(2) by fastforce
  qed
qed simp

lemma set_dict_of: "set (dict_of ms) \<subseteq> set ms"
proof -
  have "set (fold (\<lambda>(k, v). dict_set k v) ms acc) \<subseteq> set acc \<union> set ms" for acc
  proof (induction ms arbitrary: acc)
    case (Cons m ms)
    have "set (dict_set (fst m) (snd m) acc) \<subseteq> insert m (set acc)"
      by (induction acc) (auto split: if_splits)
    then show ?case using Cons [of "dict_set (fst m) (snd m) acc"] by (auto simp: case_prod_unfold)
  qed simp
  from this [of "[]"] show ?thesis by (simp add: dict_of_def)
qed

lemma value_at_shorter: "shorter (value_at fl d)"
proof (induction d)
  case 0
  show ?case unfolding shorter_def
  proof (intro allI impI)
    fix s v r
    assume "value_at fl 0 s = Some (v, r)"
    then have "scalar fl s = Some (v, r)" by (auto split: list.splits if_splits)
    then show "length r < length s \<and> (\<forall>t \<in> texts v. length t + length r < length s)"
      using scalar_shorter [of fl] unfolding shorter_def by blast
  qed
next
  case (Suc d)
  show ?case unfolding shorter_def
  proof (intro allI impI)
    fix s v r
    assume read: "value_at fl (Suc d) s = Some (v, r)"
    then obtain c u where s: "s = c # u" by (cases s) auto
    consider "c = 91" | "c = 123" | "c \<noteq> 91" "c \<noteq> 123" by blast
    then show "length r < length s \<and> (\<forall>t \<in> texts v. length t + length r < length s)"
    proof cases
      case 1
      obtain e u' where e: "skip_white u = e # u'" using read s 1 by (auto split: list.splits)
      show ?thesis
      proof (cases "e = 93")
        case True
        then have "v = JList []" "r = u'" using read s 1 e by auto
        then show ?thesis using skip_white_Cons [OF e] s by simp
      next
        case False
        then obtain vs where vs: "elements (value_at fl d) (length u) (e # u') = Some (vs, r)" "v = JList vs"
          using read s 1 e by auto
        have "length (e # u') < length s" using skip_white_length [of u] e s by simp
        then show ?thesis using elements_shorter [OF Suc vs(1)] vs(2) by fastforce
      qed
    next
      case 2
      obtain e u' where e: "skip_white u = e # u'" using read s 2 by (auto split: list.splits)
      show ?thesis
      proof (cases "e = 125")
        case True
        then have "v = JDict []" "r = u'" using read s 2 e by auto
        then show ?thesis using skip_white_Cons [OF e] s by simp
      next
        case False
        then obtain ms where ms: "members (value_at fl d) (length u) (e # u') = Some (ms, r)" "v = JDict (dict_of ms)"
          using read s 2 e by auto
        have "length (e # u') < length s" using skip_white_length [of u] e s by simp
        then show ?thesis using members_shorter [OF Suc ms(1)] ms(2) set_dict_of [of ms] by fastforce
      qed
    next
      case 3
      then have "scalar fl s = Some (v, r)" using read s by simp
      then show ?thesis using scalar_shorter [of fl] unfolding shorter_def by blast
    qed
  qed
qed

lemma loads_shorter: "loads fl d s = Some v \<Longrightarrow> t \<in> texts v \<Longrightarrow> length t < length s"
  using value_at_shorter [of fl d] skip_white_length [of s]
  unfolding loads_def shorter_def by (fastforce split: option.splits if_splits)

end
