(* ===== verification/Failures.thy ===== *)
theory Failures
  imports JsonProps
begin

text \<open>
  Why a task failed (\<open>lib/generation/task_failure.py\<close>, \<open>task_failure_encoding.py\<close> and the cascade
  encoding of \<open>lib/db/repositories/task_repo.py\<close>): a reason is stored as a code in brackets, with
  parameters as JSON; longer reasons are cut without breaking the JSON, and the reason of a blocked
  task is that of the task it waits for.  The interpreter is an argument: how floats read, and how
  deep JSON may be nested when it is read and written.  Display texts are arguments.
\<close>

section \<open>Codes\<close>

definition CAPABILITY_FAILURE_CODES :: "string list" where
  "CAPABILITY_FAILURE_CODES = [
    ''image_capability_missing_i2i'', ''image_capability_missing_t2i'', ''image_dashscope_4k_t2i_only'',
     ''image_endpoint_mismatch_no_i2i'', ''image_endpoint_mismatch_no_t2i'',
     ''image_reference_images_unreadable'', ''ref_payload_floor_exceeded'', ''video_capability_missing_t2v'',
     ''video_duration_invalid'', ''video_duration_not_supported'', ''video_end_image_requires_start_image'',
     ''video_end_image_unreadable'', ''video_last_frame_requires_pro'', ''video_last_frame_unsupported'',
     ''video_prompt_too_long'', ''video_reference_images_duration_unsupported'',
     ''video_reference_images_exceeded'', ''video_reference_images_required'',
     ''video_reference_images_unreadable'', ''video_reference_images_unsupported'',
     ''video_reference_images_with_frames_unsupported'', ''video_reference_resolution_unsupported'',
     ''video_reference_audio_duration_exceeded'', ''video_reference_audio_exceeded'',
     ''video_reference_audio_format_unsupported'', ''video_reference_audio_slots_insufficient'',
     ''video_reference_audio_unreadable'', ''video_reference_audio_unsupported'',
     ''video_aspect_ratio_not_supported'', ''video_resolution_duration_unsupported'',
     ''video_resolution_not_supported'', ''video_start_image_unreadable'']"

definition REFERENCE_PROJECTION_FAILURE_CODES :: "string list" where
  "REFERENCE_PROJECTION_FAILURE_CODES = [
    ''reference_asset_missing'', ''reference_asset_unregistered'', ''reference_capability_changed'',
     ''reference_capability_unavailable'', ''needs_replan'', ''reference_duration_confirmation_required'',
     ''reference_supported_durations_incompatible'', ''reference_supported_durations_invalid'',
     ''reference_supported_durations_missing'', ''video_audio_switch_not_supported'',
     ''video_capability_missing_i2v'', ''video_capability_missing_r2v'',
     ''video_capability_reference_unavailable'']"

definition GENERATION_INPUT_FAILURE_CODES :: "string list" where
  "GENERATION_INPUT_FAILURE_CODES = [
    ''asset_description_required'', ''asset_original_missing'', ''derivative_description_required'',
     ''derivative_owner_sheet_missing'', ''reference_asset_missing'', ''reference_asset_unregistered'',
     ''script_prompt_pending'']"

definition VIDEO_REQUEST_FACTS_FAILURE_CODES :: "string list" where
  "VIDEO_REQUEST_FACTS_FAILURE_CODES = [
    ''video_audio_switch_not_supported'', ''video_capability_unavailable'',
     ''video_supported_durations_incompatible'', ''video_supported_durations_invalid'',
     ''video_supported_durations_missing'']"

definition FAILURE_CODE_KEYS :: "(string \<times> string) list" where
  "FAILURE_CODE_KEYS = map (\<lambda>code. (code, code)) (CAPABILITY_FAILURE_CODES @ REFERENCE_PROJECTION_FAILURE_CODES
     @ GENERATION_INPUT_FAILURE_CODES @ VIDEO_REQUEST_FACTS_FAILURE_CODES) @ [
    (''provider_unsupported_media'', ''task_fail_provider_unsupported_media''),
     (''provider_rejected'', ''task_fail_provider_rejected''),
     (''dispatch_provider_requeue_failed'', ''task_fail_dispatch_provider_requeue_failed''),
     (''project_deleted_during_task'', ''task_fail_project_deleted_during_task''),
     (''restart_lost_image'', ''task_fail_restart_lost_image''),
     (''restart_lost_audio'', ''task_fail_restart_lost_audio''),
     (''restart_lost_text'', ''task_fail_restart_lost_text''),
     (''restart_lost_render'', ''task_fail_restart_lost_render''),
     (''restart_lost_no_job_id'', ''task_fail_restart_lost_no_job_id''),
     (''restart_lost_resume_no_job_id'', ''task_fail_restart_lost_resume_no_job_id''),
     (''resume_unsupported_provider'', ''task_fail_resume_unsupported_provider''),
     (''resume_unsupported_capacity_zero'', ''task_fail_resume_unsupported_capacity_zero''),
     (''resume_unsupported_detail'', ''task_fail_resume_unsupported_detail''),
     (''resume_expired_detail'', ''task_fail_resume_expired_detail''),
     (''resume_endpoint_changed_detail'', ''task_fail_resume_endpoint_changed_detail''),
     (''declarative_template_render_failed'', ''task_fail_declarative_template_render_failed''),
     (''declarative_response_extract_failed'', ''task_fail_declarative_response_extract_failed''),
     (''declarative_image_save_failed'', ''task_fail_declarative_image_save_failed''),
     (''comfyui_image_drop_unsupported'', ''task_fail_comfyui_image_drop_unsupported''),
     (''comfyui_upload_failed'', ''task_fail_comfyui_upload_failed''),
     (''comfyui_node_errors'', ''task_fail_comfyui_node_errors''),
     (''comfyui_job_lost'', ''task_fail_comfyui_job_lost''),
     (''comfyui_execution_error'', ''task_fail_comfyui_execution_error''),
     (''comfyui_interrupted'', ''task_fail_comfyui_interrupted''),
     (''comfyui_output_missing'', ''task_fail_comfyui_output_missing''),
     (''comfyui_output_type_mismatch'', ''task_fail_comfyui_output_type_mismatch''),
     (''comfyui_output_container_mismatch'', ''task_fail_comfyui_output_container_mismatch''),
     (''artifact_download_failed'', ''task_fail_artifact_download_failed''),
     (''restart_lost_checkpoint_no_job_id'', ''task_fail_restart_lost_checkpoint_no_job_id''),
     (''execution_identity_unrecoverable'', ''task_fail_execution_identity_unrecoverable''),
     (''script_edit_error'', ''script_edit_error''),
     (''script_edit_items_not_list'', ''script_edit_items_not_list''),
     (''script_edit_unit_lists_invalid'', ''script_edit_unit_lists_invalid''),
     (''script_edit_generated_assets_invalid'', ''script_edit_generated_assets_invalid''),
     (''cascade_blocked_dependency'', ''task_fail_cascade_blocked_dependency'')]"

definition registered :: "utext \<Rightarrow> bool" where
  "registered code = list_ex (\<lambda>(c, _). codes c = code) FAILURE_CODE_KEYS"

definition CASCADE_FAILURE_CODE :: utext where
  "CASCADE_FAILURE_CODE = codes ''cascade_blocked_dependency''"

section \<open>Writing and reading a reason\<close>

record interp =
  it_float :: "utext \<Rightarrow> utext"
  it_read_depth :: nat
  it_write_depth :: nat

type_synonym params = "(utext \<times> json) list"

datatype encode_error = UnknownCode | Unserializable

definition encode_failure :: "interp \<Rightarrow> utext \<Rightarrow> params \<Rightarrow> encode_error + utext" where
  "encode_failure it code params =
     (if \<not> registered code then Inl UnknownCode
      else if params = [] then Inr ([91] @ code @ [93])
      else (case dumps (it_write_depth it) True (JDict params) of
          None \<Rightarrow> Inl Unserializable
        | Some t \<Rightarrow> Inr ([91] @ code @ [93, 32] @ t)))"

text \<open>
  The pattern of a structured reason.  \<open>\w\<close> is read as in ASCII: other letters occur in no code.  The
  end of the pattern also matches before a last line break.
\<close>

definition is_word_code :: "nat \<Rightarrow> bool" where
  "is_word_code c = (is_digit_code c \<or> 65 \<le> c \<and> c \<le> 90 \<or> 97 \<le> c \<and> c \<le> 122 \<or> c = 95)"

definition without_line_end :: "utext \<Rightarrow> utext" where
  "without_line_end s = (if s \<noteq> [] \<and> last s = 10 then butlast s else s)"

definition structured :: "utext \<Rightarrow> (utext \<times> utext option) option" where
  "structured s =
     (case s of
        [] \<Rightarrow> None
      | c # r \<Rightarrow>
          let code = takeWhile is_word_code r; tail = dropWhile is_word_code r in
          if c \<noteq> 91 \<or> code = [] \<or> tail = [] \<or> hd tail \<noteq> 93 then None
          else let rest = tl tail; body = without_line_end (tl rest) in
            if rest = [] \<or> rest = [10] then Some (code, None)
            else if hd rest = 32 \<and> 2 \<le> length body \<and> hd body = 123 \<and> last body = 125 then Some (code, Some body)
            else None)"

definition parse_failure :: "interp \<Rightarrow> utext \<Rightarrow> (utext \<times> params) option" where
  "parse_failure it message =
     (case structured message of
        None \<Rightarrow> None
      | Some (code, raw) \<Rightarrow>
          if \<not> registered code then None
          else (case raw of
              None \<Rightarrow> Some (code, [])
            | Some t \<Rightarrow> (case loads (it_float it) (it_read_depth it) t of
                Some (JDict params) \<Rightarrow> Some (code, params)
              | _ \<Rightarrow> None)))"

section \<open>The reason of a blocked task\<close>

definition MAX_CASCADE_UNWRAP :: nat where "MAX_CASCADE_UNWRAP = 100"

text \<open>\<open>seen\<close> counts the layers taken off\<close>

function unwrap :: "interp \<Rightarrow> nat \<Rightarrow> utext \<Rightarrow> utext" where
  "unwrap it seen reason =
     (case parse_failure it reason of
        None \<Rightarrow> reason
      | Some (code, params) \<Rightarrow>
          if code \<noteq> CASCADE_FAILURE_CODE then reason
          else (case map_of params (codes ''reason'') of
              Some (JText nested) \<Rightarrow> if MAX_CASCADE_UNWRAP < Suc seen then nested else unwrap it (Suc seen) nested
            | _ \<Rightarrow> reason))"
  by pat_completeness auto
termination
  by (relation "measure (\<lambda>(_, seen, _). MAX_CASCADE_UNWRAP - seen)") auto

declare unwrap.simps [simp del]

definition collapse_cascade_reason :: "interp \<Rightarrow> utext \<Rightarrow> utext" where
  "collapse_cascade_reason it = unwrap it 0"

section \<open>Cutting a reason\<close>

definition as_shrinkable :: "interp \<Rightarrow> json \<Rightarrow> json" where
  "as_shrinkable it v =
     (if (case v of JList _ \<Rightarrow> True | JDict _ \<Rightarrow> True | _ \<Rightarrow> False)
      then JText (if it_write_depth it < nesting v then [8230] else dump False v) else v)"

definition validation_message :: "json option \<Rightarrow> (utext \<times> params) option" where
  "validation_message v =
     (case v of
        Some (JDict d) \<Rightarrow>
          if dict_keys d = {codes ''key'', codes ''params''} then
            (case (map_of d (codes ''key''), map_of d (codes ''params'')) of
               (Some (JText key), Some (JDict ps)) \<Rightarrow> Some (key, ps)
             | _ \<Rightarrow> None)
          else None
      | _ \<Rightarrow> None)"

text \<open>A gap of a rejected input: its code, asset type and name, where it is well formed\<close>

definition gap_of :: "json \<Rightarrow> (utext \<times> json \<times> utext) option" where
  "gap_of v =
     (case v of
        JDict g \<Rightarrow>
          (let asset = (case map_of g (codes ''asset_type'') of None \<Rightarrow> JNull | Some a \<Rightarrow> a) in
           case (map_of g (codes ''code''), map_of g (codes ''name'')) of
             (Some (JText code), Some (JText name)) \<Rightarrow>
               if code \<in> codes ` set GENERATION_INPUT_FAILURE_CODES
                  \<and> asset \<in> set (JNull # map (JText \<circ> codes) [''character'', ''scene'', ''prop'', ''product''])
               then Some (code, asset, name) else None
           | _ \<Rightarrow> None)
      | _ \<Rightarrow> None)"

definition gap_json :: "utext \<times> json \<times> utext \<Rightarrow> json" where
  "gap_json = (\<lambda>(code, asset, name). JDict [(codes ''code'', JText code), (codes ''asset_type'', asset), (codes ''name'', JText name)])"

text \<open>The first gap of each code\<close>

fun first_gaps :: "utext list \<Rightarrow> (utext \<times> json \<times> utext) list \<Rightarrow> (utext \<times> json \<times> utext) list" where
  "first_gaps seen [] = []"
| "first_gaps seen (g # gs) = (if fst g \<in> set seen then first_gaps seen gs else g # first_gaps (fst g # seen) gs)"

definition kept_gaps :: "utext \<Rightarrow> params \<Rightarrow> ((utext \<times> json \<times> utext) list \<times> nat) option" where
  "kept_gaps code parsed =
     (case map_of parsed (codes ''gaps'') of
        Some (JList vs) \<Rightarrow>
          if code \<in> codes ` set GENERATION_INPUT_FAILURE_CODES \<and> list_all (\<lambda>v. gap_of v \<noteq> None) vs
          then Some (first_gaps [] (map (the \<circ> gap_of) vs), length vs) else None
      | _ \<Rightarrow> None)"

definition omitted_gaps :: "params \<Rightarrow> int" where
  "omitted_gaps parsed = (case map_of parsed (codes ''gaps_omitted'') of
       Some (JInt n) \<Rightarrow> n | Some (JBool b) \<Rightarrow> (if b then 1 else 0) | _ \<Rightarrow> 0)"

text \<open>The parameters whose texts may be cut\<close>

definition shrinkable_params :: "interp \<Rightarrow> utext \<Rightarrow> params \<Rightarrow> params" where
  "shrinkable_params it code parsed =
     (let params = map (\<lambda>(k, v). (k, as_shrinkable it v)) parsed;
          params = (case validation_message (map_of parsed (codes ''detail'')) of
              None \<Rightarrow> params
            | Some (key, ps) \<Rightarrow> dict_set (codes ''detail'') (JDict [(codes ''key'', JText key),
                (codes ''params'', JDict (map (\<lambda>(k, v). (k, as_shrinkable it v)) ps))]) params)
      in case kept_gaps code parsed of
           None \<Rightarrow> params
         | Some (gaps, n) \<Rightarrow> dict_set (codes ''gaps_omitted'') (JInt (omitted_gaps parsed + int n - int (length gaps)))
             (dict_set (codes ''gaps'') (JList (map gap_json gaps)) params))"

text \<open>Where a text stands: a parameter, the name of a gap, a parameter of the nested message\<close>

datatype place = AtParam utext | AtGap nat | AtDetail utext

fun put_text :: "place \<times> utext \<Rightarrow> params \<Rightarrow> params" where
  "put_text (AtParam k, t) ps = dict_set k (JText t) ps"
| "put_text (AtGap i, t) ps = (case map_of ps (codes ''gaps'') of
       Some (JList gs) \<Rightarrow> dict_set (codes ''gaps'')
         (JList (gs[i := (case gs ! i of JDict g \<Rightarrow> JDict (dict_set (codes ''name'') (JText t) g) | v \<Rightarrow> v)])) ps
     | _ \<Rightarrow> ps)"
| "put_text (AtDetail k, t) ps = (case map_of ps (codes ''detail'') of
       Some (JDict d) \<Rightarrow> (case map_of d (codes ''params'') of
           Some (JDict dp) \<Rightarrow>
             dict_set (codes ''detail'') (JDict (dict_set (codes ''params'') (JDict (dict_set k (JText t) dp)) d)) ps
         | _ \<Rightarrow> ps)
     | _ \<Rightarrow> ps)"

definition text_params :: "params \<Rightarrow> (utext \<times> utext) list" where
  "text_params ps = List.map_filter (\<lambda>(k, v). case v of JText t \<Rightarrow> Some (k, t) | _ \<Rightarrow> None) ps"

definition shrinkable :: "interp \<Rightarrow> utext \<Rightarrow> params \<Rightarrow> (place \<times> utext) list" where
  "shrinkable it code parsed =
     (let params = shrinkable_params it code parsed in
      map (\<lambda>(k, t). (AtParam k, t)) (text_params params)
      @ (case kept_gaps code parsed of None \<Rightarrow> [] | Some (gaps, _) \<Rightarrow> map (\<lambda>(i, _, _, name). (AtGap i, name)) (enumerate 0 gaps))
      @ (case validation_message (map_of params (codes ''detail'')) of
           None \<Rightarrow> [] | Some (_, ps) \<Rightarrow> map (\<lambda>(k, t). (AtDetail k, t)) (text_params ps)))"

text \<open>The first of the longest texts\<close>

definition longest :: "(place \<times> utext) list \<Rightarrow> nat option" where
  "longest cells = find_index (\<lambda>(_, t). length t = Max (set (map (\<lambda>(_, t). length t) cells))) cells"

text \<open>The loop; \<open>encode\<close> writes the parameters with the current texts, \<open>None\<close> gives up\<close>

lemma longest_cell:
  assumes "longest cells = Some i"
  shows "i < length cells" "\<forall>c \<in> set cells. length (snd c) \<le> length (snd (cells ! i))"
proof -
  let ?m = "Max (set (map (\<lambda>(_, t). length t) cells))"
  have i: "i < length cells \<and> (case cells ! i of (_, t) \<Rightarrow> length t = ?m)"
    using find_index_SomeD [OF assms [unfolded longest_def]] by simp
  then show "i < length cells" by simp
  show "\<forall>c \<in> set cells. length (snd c) \<le> length (snd (cells ! i))"
  proof
    fix c
    assume "c \<in> set cells"
    then have "length (snd c) \<in> set (map (\<lambda>(_, t). length t) cells)" by (auto simp: case_prod_unfold)
    then have "length (snd c) \<le> ?m" by (intro Max_ge) simp_all
    then show "length (snd c) \<le> length (snd (cells ! i))" using i by (simp add: case_prod_unfold)
  qed
qed

definition shorten :: "nat \<Rightarrow> utext \<Rightarrow> utext" where
  "shorten deficit t = take (length t - (if deficit < length t then deficit else max 1 (length t div 2))) t"

lemma shorten_less: "t \<noteq> [] \<Longrightarrow> 0 < deficit \<Longrightarrow> length (shorten deficit t) < length t"
  by (cases t) (auto simp: shorten_def max_def)

function shrink_loop ::
  "((place \<times> utext) list \<Rightarrow> encode_error + utext) \<Rightarrow> nat \<Rightarrow> (place \<times> utext) list \<Rightarrow> encode_error + utext option" where
  "shrink_loop encode limit cells =
     (case encode cells of
        Inl e \<Rightarrow> Inl e
      | Inr encoded \<Rightarrow>
          if length encoded \<le> limit then Inr (Some encoded)
          else (case longest cells of
              None \<Rightarrow> Inr None
            | Some i \<Rightarrow>
                let (owner, current) = cells ! i in
                if current = [] then Inr None
                else shrink_loop encode limit (cells[i := (owner, shorten (length encoded - limit) current)])))"
  by pat_completeness auto
termination
proof (relation "measure (\<lambda>(_, _, cells). sum_list (map (length \<circ> snd) cells))")
  fix encode :: "(place \<times> utext) list \<Rightarrow> encode_error + utext" and limit cells encoded i cell owner current
  assume hyps: "\<not> length encoded \<le> limit" "longest cells = Some i" "cell = cells ! i" "(owner, current) = cell" "current \<noteq> []"
  let ?new = "(owner, shorten (length encoded - limit) current)"
  have i: "i < length cells" using hyps(2) by (rule longest_cell)
  have current: "map (length \<circ> snd) cells ! i = length current" using i hyps(3,4) [symmetric] by simp
  have "length current \<le> sum_list (map (length \<circ> snd) cells)"
    using elem_le_sum_list [of i "map (length \<circ> snd) cells"] i current by simp
  moreover have "sum_list (map (length \<circ> snd) (cells[i := ?new]))
      = sum_list (map (length \<circ> snd) cells) + length (snd ?new) - length current"
    using sum_list_update [of i "map (length \<circ> snd) cells" "length (snd ?new)"] i current by (simp add: map_update)
  ultimately show "((encode, limit, cells[i := ?new]), (encode, limit, cells)) \<in> measure (\<lambda>(_, _, cells). sum_list (map (length \<circ> snd) cells))"
    using shorten_less [OF hyps(5), of "length encoded - limit"] hyps(1) by simp
qed simp

declare shrink_loop.simps [simp del]

definition bound_params :: "interp \<Rightarrow> nat \<Rightarrow> utext \<Rightarrow> params \<Rightarrow> encode_error + utext option" where
  "bound_params it limit code parsed =
     (let cells = shrinkable it code parsed in
      if cells = [] then Inr None
      else shrink_loop (\<lambda>cells. encode_failure it code (fold put_text cells (shrinkable_params it code parsed))) limit cells)"

definition bound_reason :: "interp \<Rightarrow> utext \<Rightarrow> nat \<Rightarrow> encode_error + utext" where
  "bound_reason it reason limit =
     (if length reason \<le> limit then Inr reason
      else (case parse_failure it reason of
          None \<Rightarrow> Inr (take limit reason)
        | Some (code, parsed) \<Rightarrow>
            (case bound_params it limit code parsed of
               Inl e \<Rightarrow> Inl e
             | Inr None \<Rightarrow> Inr (take limit reason)
             | Inr (Some t) \<Rightarrow> Inr t)))"

section \<open>Blocked tasks\<close>

definition MAX_ERROR_MESSAGE_LEN :: nat where "MAX_ERROR_MESSAGE_LEN = 2000"

definition blocked_params :: "utext \<Rightarrow> utext \<Rightarrow> params" where
  "blocked_params dependency reason = [(codes ''dependency_task_id'', JText dependency), (codes ''reason'', JText reason)]"

fun cascade_loop :: "interp \<Rightarrow> utext \<Rightarrow> nat \<Rightarrow> nat \<Rightarrow> utext \<Rightarrow> utext \<Rightarrow> encode_error + utext" where
  "cascade_loop it dependency 0 budget reason encoded = Inr encoded"
| "cascade_loop it dependency (Suc n) budget reason encoded =
     ebind (bound_reason it reason budget) (\<lambda>reason.
     ebind (encode_failure it CASCADE_FAILURE_CODE (blocked_params dependency reason)) (\<lambda>encoded.
       if length encoded \<le> MAX_ERROR_MESSAGE_LEN \<or> budget = 0 then Inr encoded
       else cascade_loop it dependency n (budget - (length encoded - MAX_ERROR_MESSAGE_LEN)) reason encoded))"

definition encode_bounded_cascade_failure :: "interp \<Rightarrow> utext \<Rightarrow> utext \<Rightarrow> encode_error + utext" where
  "encode_bounded_cascade_failure it dependency reason =
     (let reason = collapse_cascade_reason it reason in
      ebind (encode_failure it CASCADE_FAILURE_CODE (blocked_params dependency reason)) (\<lambda>encoded.
        if length encoded \<le> MAX_ERROR_MESSAGE_LEN then Inr encoded
        else ebind (encode_failure it CASCADE_FAILURE_CODE (blocked_params dependency [])) (\<lambda>frame.
          cascade_loop it dependency 5 (MAX_ERROR_MESSAGE_LEN - length frame) reason encoded)))"

section \<open>Showing a reason\<close>

text \<open>
  The catalogue of messages (\<open>show\<close> by key and parameters, \<open>show_nested\<close> for a nested message) and the
  file types of a medium are arguments.
\<close>

definition COMFYUI_ARTIFACT_MISMATCH_CODES :: "utext list" where
  "COMFYUI_ARTIFACT_MISMATCH_CODES = [codes ''comfyui_output_type_mismatch'', codes ''comfyui_output_container_mismatch'']"

definition message_key :: "utext \<Rightarrow> string" where
  "message_key code = the (map_of (map (\<lambda>(c, k). (codes c, k)) FAILURE_CODE_KEYS) code)"

lemma parse_failure_iff:
  "parse_failure it s = Some (code, ps) \<longleftrightarrow> registered code \<and>
     (structured s = Some (code, None) \<and> ps = []
      \<or> (\<exists>t. structured s = Some (code, Some t) \<and> loads (it_float it) (it_read_depth it) t = Some (JDict ps)))"
proof (cases "structured s")
  case (Some p)
  obtain c raw where p: "p = (c, raw)" by force
  show ?thesis
  proof (cases raw)
    case (Some t)
    then show ?thesis
    proof (cases "loads (it_float it) (it_read_depth it) t")
      case (Some v)
      then show ?thesis using \<open>structured s = Some p\<close> \<open>raw = Some t\<close> by (cases v) (auto simp: p parse_failure_def)
    qed (use \<open>structured s = Some p\<close> in \<open>auto simp: p parse_failure_def\<close>)
  qed (use \<open>structured s = Some p\<close> in \<open>auto simp: p parse_failure_def\<close>)
qed (simp add: parse_failure_def)

lemma parse_failure_texts:
  assumes "parse_failure it s = Some (code, ps)" "map_of ps k = Some v" "t \<in> texts v"
  shows "length t < length s"
proof -
  obtain u where raw: "structured s = Some (code, Some u)" and u: "loads (it_float it) (it_read_depth it) u = Some (JDict ps)"
    using assms(1,2) by (auto simp: parse_failure_iff)
  have "t \<in> texts (JDict ps)" using assms(2,3) map_of_SomeD by force
  then have "length t < length u" by (rule loads_shorter [OF u])
  also have "length u \<le> length s"
  proof -
    obtain c r where s: "s = c # r" using raw by (cases s) (auto simp: structured_def)
    have "length (without_line_end x) \<le> length x" for x by (simp add: without_line_end_def)
    moreover have "length (tl (tl (dropWhile is_word_code r))) \<le> length r"
      using length_dropWhile_le [of is_word_code r] by simp
    ultimately have "length (without_line_end (tl (tl (dropWhile is_word_code r)))) \<le> length r" by (meson le_trans)
    then show ?thesis using raw s by (auto simp: structured_def Let_def split: if_splits)
  qed
  finally show ?thesis .
qed

function render_failure ::
  "interp \<Rightarrow> (string \<Rightarrow> params \<Rightarrow> utext) \<Rightarrow> (utext \<Rightarrow> params \<Rightarrow> utext) \<Rightarrow> (utext \<Rightarrow> utext) \<Rightarrow> utext \<Rightarrow> utext" where
  "render_failure it show show_nested suffixes message =
     (case parse_failure it message of
        None \<Rightarrow> message
      | Some (code, params) \<Rightarrow>
          let params = (if code = CASCADE_FAILURE_CODE then
                (case map_of params (codes ''reason'') of
                   Some (JText nested) \<Rightarrow>
                     dict_set (codes ''reason'') (JText (render_failure it show show_nested suffixes nested)) params
                 | _ \<Rightarrow> params) else params);
              params = (if code \<in> set [codes ''declarative_template_render_failed'', codes ''declarative_response_extract_failed''] then
                (case validation_message (map_of params (codes ''detail'')) of
                   Some (key, ps) \<Rightarrow> dict_set (codes ''detail'') (JText (show_nested key ps)) params
                 | None \<Rightarrow> params) else params);
              params = (if code \<in> set COMFYUI_ARTIFACT_MISMATCH_CODES then
                dict_set (codes ''expected'') (JText (suffixes
                  (case map_of params (codes ''media_type'') of Some (JText m) \<Rightarrow> m | _ \<Rightarrow> []))) params else params)
          in show (message_key code) params)"
  by pat_completeness auto
termination
proof (relation "measure (\<lambda>(_, _, _, _, message). length message)")
  fix it :: interp and shw :: "string \<Rightarrow> params \<Rightarrow> utext" and nested_shw suffixes message p code params v nested
  assume "parse_failure it message = Some p" "(code, params) = p" "map_of params (codes ''reason'') = Some v" "v = JText nested"
  then have "length nested < length message" by (intro parse_failure_texts) auto
  then show "((it, shw, nested_shw, suffixes, nested), (it, shw, nested_shw, suffixes, message))
      \<in> measure (\<lambda>(_, _, _, _, message). length message)"
    by simp
qed simp

declare render_failure.simps [simp del]

section \<open>Errors of an execution\<close>

text \<open>The exceptions that are told apart, each with its \<open>str\<close> last\<close>

datatype task_error =
    ScriptEditError utext params utext
  | ApiError utext params utext
  | ProviderRejectedError int utext utext
  | CodedError utext params utext
  | OtherError utext

definition try_encode_failure :: "interp \<Rightarrow> utext \<Rightarrow> params \<Rightarrow> utext option" where
  "try_encode_failure it code params = (case encode_failure it code params of Inr t \<Rightarrow> Some t | Inl _ \<Rightarrow> None)"

definition encode_task_failure_message :: "interp \<Rightarrow> task_error \<Rightarrow> encode_error + utext" where
  "encode_task_failure_message it e =
     (case e of
        ScriptEditError key params _ \<Rightarrow> (case try_encode_failure it key params of
            Some t \<Rightarrow> Inr t | None \<Rightarrow> encode_failure it (codes ''script_edit_error'') [])
      | ApiError key params s \<Rightarrow> Inr (case try_encode_failure it key params of Some t \<Rightarrow> t | None \<Rightarrow> s)
      | ProviderRejectedError status reason s \<Rightarrow>
          Inr (case try_encode_failure it (codes ''provider_rejected'')
                 ((codes ''status'', JInt status) # (if reason \<noteq> [] then [(codes ''provider_reason'', JText reason)] else [])) of
               Some t \<Rightarrow> t | None \<Rightarrow> s)
      | CodedError code params s \<Rightarrow> Inr (case try_encode_failure it code params of Some t \<Rightarrow> t | None \<Rightarrow> s)
      | OtherError s \<Rightarrow> Inr s)"

end
