(* ===== verification/FailureProps.thy ===== *)
theory FailureProps
  imports Failures
begin

text \<open>
  Properties of stored reasons: a reason reads back as it was written, a reason is cut to its limit and
  keeps its code and structure, and the reason of a blocked task is the root cause.
\<close>

section \<open>Reading back\<close>

lemma key_words: "list_all (\<lambda>(c, k). c \<noteq> [] \<and> list_all is_word_code (codes c)) FAILURE_CODE_KEYS"
  by (simp add: FAILURE_CODE_KEYS_def CAPABILITY_FAILURE_CODES_def REFERENCE_PROJECTION_FAILURE_CODES_def
      GENERATION_INPUT_FAILURE_CODES_def VIDEO_REQUEST_FACTS_FAILURE_CODES_def codes_def is_word_code_def is_digit_code_def)

lemma registered_word: "registered code \<Longrightarrow> code \<noteq> [] \<and> list_all is_word_code code"
  using key_words by (fastforce simp: registered_def list_ex_iff list_all_iff codes_def)

lemma not_word: "\<not> is_word_code 93"
  by (simp add: is_word_code_def is_digit_code_def)

lemma takeWhile_word:
  assumes "list_all is_word_code code"
  shows "takeWhile is_word_code (code @ 93 # r) = code" "dropWhile is_word_code (code @ 93 # r) = 93 # r"
  using assms by (induction code) (auto simp: is_word_code_def is_digit_code_def)

lemma structured_plain: "registered code \<Longrightarrow> structured ([91] @ code @ [93]) = Some (code, None)"
  using registered_word [of code] takeWhile_word [of code "[]"] not_word by (simp add: structured_def Let_def)

lemma structured_json:
  assumes "registered code" "hd t = 123" "last t = 125" "2 \<le> length t"
  shows "structured ([91] @ code @ [93, 32] @ t) = Some (code, Some t)"
proof -
  have "without_line_end t = t" using assms(3) by (simp add: without_line_end_def)
  then show ?thesis
    using registered_word [OF assms(1)] takeWhile_word [of code "32 # t"] not_word assms by (simp add: structured_def Let_def)
qed

lemma dump_dict_ends: "hd (dump b (JDict ps)) = 123 \<and> last (dump b (JDict ps)) = 125 \<and> 2 \<le> length (dump b (JDict ps))"
  by (simp add: Let_def)

lemma map_of_sort: "distinct (map fst ps) \<Longrightarrow> map_of (sort_key fst ps) = map_of ps"
  by (subst map_of_inject_set) (simp_all add: distinct_map distinct_sort)

lemma map_of_map_values: "map_of (map (\<lambda>(k, v). (k, f v)) ps) k = map_option f (map_of ps k)"
  by (induction ps) auto

definition read_params :: "params \<Rightarrow> params" where
  "read_params ps = map (\<lambda>(k, v). (k, as_read True v)) (ordered True ps)"

lemma as_read_params: "as_read True (JDict ps) = JDict (read_params ps)"
  by (simp only: as_read_dict read_params_def)

lemma map_of_read_params: "distinct (map fst ps) \<Longrightarrow> map_of (read_params ps) k = map_option (as_read True) (map_of ps k)"
  by (simp add: read_params_def map_of_map_values ordered_def map_of_sort)

lemma encode_failure_iff:
  "encode_failure it code ps = Inr t \<longleftrightarrow> registered code
     \<and> (if ps = [] then t = [91] @ code @ [93]
        else nesting (JDict ps) \<le> it_write_depth it \<and> ints_convert (JDict ps) \<and> t = [91] @ code @ [93, 32] @ dump True (JDict ps))"
  by (auto simp: encode_failure_def dumps_def split: option.splits if_splits)

lemma well_formed_dict: "well_formed fl (JDict ps) \<longleftrightarrow> distinct (map fst ps) \<and> (\<forall>(k, v) \<in> set ps. well_formed fl v)"
  by (auto simp: list_all_iff)

lemma encode_reads:
  assumes "encode_failure it code ps = Inr t" "well_formed (it_float it) (JDict ps)" "it_write_depth it \<le> it_read_depth it"
  shows "parse_failure it t = Some (code, read_params ps)"
proof (cases "ps = []")
  case True
  then have "t = [91] @ code @ [93]" "registered code" using assms(1) by (auto simp: encode_failure_iff)
  then have "parse_failure it t = Some (code, [])" by (simp only: parse_failure_iff structured_plain) simp
  then show ?thesis using True by (simp add: read_params_def ordered_def)
next
  case False
  then have t: "t = [91] @ code @ [93, 32] @ dump True (JDict ps)" "registered code"
    "nesting (JDict ps) \<le> it_write_depth it" "ints_convert (JDict ps)"
    using assms(1) by (simp_all only: encode_failure_iff if_False)
  then have "dumps (it_read_depth it) True (JDict ps) = Some (dump True (JDict ps))" using assms(3) by (simp only: dumps_def) simp
  from loads_dumps [OF this assms(2)]
  have "loads (it_float it) (it_read_depth it) (dump True (JDict ps)) = Some (JDict (read_params ps))" unfolding as_read_params .
  moreover have "structured t = Some (code, Some (dump True (JDict ps)))"
    unfolding t(1) using structured_json [OF t(2)] dump_dict_ends by blast
  ultimately show ?thesis using t(2) unfolding parse_failure_iff by blast
qed

text \<open>
  Property C22: a stored reason reads back.  What \<open>encode_failure\<close> writes, \<open>parse_failure\<close> reads as the same
  code and the same parameters, each value as JSON returns it, when JSON may be nested as deep for
  reading as for writing.
\<close>

theorem failure_roundtrip:
  assumes "encode_failure it code ps = Inr t" "well_formed (it_float it) (JDict ps)" "it_write_depth it \<le> it_read_depth it"
  shows "\<exists>qs. parse_failure it t = Some (code, qs) \<and> (\<forall>k. map_of qs k = map_option (as_read True) (map_of ps k))"
proof -
  have "distinct (map fst ps)" using assms(2) unfolding well_formed_dict by blast
  then show ?thesis using encode_reads [OF assms] map_of_read_params by blast
qed

section \<open>The loop that cuts\<close>

text \<open>Cells with the same owners and shorter texts\<close>

definition cut :: "(place \<times> utext) list \<Rightarrow> (place \<times> utext) list \<Rightarrow> bool" where
  "cut cells cells' = list_all2 (\<lambda>(p, t) (p', t'). p' = p \<and> (\<exists>n. t' = take n t)) cells cells'"

lemma take_whole: "\<exists>n. t = take n t"
  by (rule exI [of _ "length t"]) simp

lemma cut_refl: "cut cells cells"
  unfolding cut_def by (rule list_all2_refl) (auto simp: take_whole)

lemma cut_trans: "cut a b \<Longrightarrow> cut b c \<Longrightarrow> cut a c"
  unfolding cut_def by (erule (1) list_all2_trans [rotated]) (auto simp: min_def)

lemma cut_shorten: "i < length cells \<Longrightarrow> cells ! i = (p, t) \<Longrightarrow> cut cells (cells[i := (p, shorten d t)])"
  unfolding cut_def by (auto simp: list_all2_conv_all_nth nth_list_update shorten_def take_whole)

lemma shrink_loop_cuts:
  assumes "shrink_loop encode limit cells = Inr (Some t)"
  shows "length t \<le> limit \<and> (\<exists>cells'. cut cells cells' \<and> encode cells' = Inr t)"
  using assms
proof (induction encode limit cells rule: shrink_loop.induct)
  case (1 encode limit cells)
  note run = 1(2) [unfolded shrink_loop.simps [of encode limit cells]]
  obtain encoded where e: "encode cells = Inr encoded" using run by (auto split: sum.splits)
  show ?case
  proof (cases "length encoded \<le> limit")
    case True
    then show ?thesis using run e cut_refl by auto
  next
    case False
    then obtain i where i: "longest cells = Some i" using run e by (auto split: option.splits)
    obtain p u where c: "cells ! i = (p, u)" by force
    let ?cells = "cells[i := (p, shorten (length encoded - limit) u)]"
    have u: "u \<noteq> []" using run e False i c by (auto split: if_splits)
    then have "shrink_loop encode limit ?cells = Inr (Some t)" using run e False i c by simp
    from 1(1) [OF e False i refl c [symmetric] u this]
    obtain cells' where "length t \<le> limit" "cut ?cells cells'" "encode cells' = Inr t" by blast
    moreover note cut_trans [OF cut_shorten [OF longest_cell(1) [OF i] c] this(2)]
    ultimately show ?thesis by blast
  qed
qed

definition emptied :: "(place \<times> utext) list \<Rightarrow> (place \<times> utext) list" where
  "emptied cells = map (\<lambda>c. (fst c, [])) cells"

lemma shrink_loop_gives_up:
  assumes "shrink_loop encode limit cells = Inr None" "cells \<noteq> []"
  shows "\<exists>t. encode (emptied cells) = Inr t \<and> limit < length t"
  using assms
proof (induction encode limit cells rule: shrink_loop.induct)
  case (1 encode limit cells)
  note run = 1(2) [unfolded shrink_loop.simps [of encode limit cells]]
  obtain encoded where e: "encode cells = Inr encoded" using run by (auto split: sum.splits)
  have big: "\<not> length encoded \<le> limit" using run e by auto
  obtain i where i: "longest cells = Some i"
  proof -
    have "Max (set (map (\<lambda>(_, t). length t) cells)) \<in> set (map (\<lambda>(_, t). length t) cells)"
      using 1(3) by (intro Max_in) simp_all
    then have "longest cells \<noteq> None" unfolding longest_def find_index_None by force
    then show ?thesis using that by blast
  qed
  obtain p u where c: "cells ! i = (p, u)" by force
  show ?case
  proof (cases "u = []")
    case True
    then have "\<forall>c \<in> set cells. snd c = []" using longest_cell(2) [OF i] c by simp
    then have "emptied cells = cells" unfolding emptied_def by (intro map_idI) (auto simp: prod_eq_iff)
    then show ?thesis using e big by simp
  next
    case False
    let ?cells = "cells[i := (p, shorten (length encoded - limit) u)]"
    have "shrink_loop encode limit ?cells = Inr None" using run e big i c False by simp
    moreover have "?cells \<noteq> []" using 1(3) by simp
    ultimately have "\<exists>t. encode (emptied ?cells) = Inr t \<and> limit < length t"
      by (rule 1(1) [OF e big i refl c [symmetric] False])
    moreover have "emptied ?cells = emptied cells"
      unfolding emptied_def using longest_cell(1) [OF i] c by (intro nth_equalityI) (auto simp: nth_list_update)
    ultimately show ?thesis by simp
  qed
qed

lemma shrink_loop_fails:
  assumes "shrink_loop encode limit cells = Inl e"
  shows "\<exists>cells'. cut cells cells' \<and> encode cells' = Inl e"
  using assms
proof (induction encode limit cells rule: shrink_loop.induct)
  case (1 encode limit cells)
  note run = 1(2) [unfolded shrink_loop.simps [of encode limit cells]]
  show ?case
  proof (cases "encode cells")
    case (Inl e')
    then show ?thesis using run cut_refl by auto
  next
    case (Inr encoded)
    then have big: "\<not> length encoded \<le> limit" using run by auto
    obtain i where i: "longest cells = Some i" using run Inr big by (auto split: option.splits)
    obtain p u where c: "cells ! i = (p, u)" by force
    have u: "u \<noteq> []" using run Inr big i c by (auto split: if_splits)
    then have "shrink_loop encode limit (cells[i := (p, shorten (length encoded - limit) u)]) = Inl e" using run Inr big i c by simp
    from 1(1) [OF Inr big i refl c [symmetric] u this]
    obtain cells' where rest: "cut (cells[i := (p, shorten (length encoded - limit) u)]) cells'" "encode cells' = Inl e" by blast
    show ?thesis using cut_trans [OF cut_shorten [OF longest_cell(1) [OF i] c] rest(1)] rest(2) by blast
  qed
qed

section \<open>The parameters while they are cut\<close>

definition writable :: "nat \<Rightarrow> json \<Rightarrow> bool" where
  "writable n v \<longleftrightarrow> nesting v \<le> n \<and> ints_convert v"

lemma writable_dict: "writable n (JDict ps) \<longleftrightarrow> 0 < n \<and> (\<forall>(k, v) \<in> set ps. writable (n - 1) v)"
  unfolding writable_def nesting_dict by (auto simp: list_all_iff)

lemma writable_list: "writable n (JList vs) \<longleftrightarrow> 0 < n \<and> (\<forall>v \<in> set vs. writable (n - 1) v)"
  unfolding writable_def nesting_list by (auto simp: list_all_iff)

lemma writable_text [simp]: "writable n (JText t)"
  by (simp add: writable_def)

lemma set_dict_set_subset: "set (dict_set k v ps) \<subseteq> insert (k, v) (set ps)"
  by (induction ps) (auto split: if_splits)

lemma writable_dict_set:
  "writable n (JDict ps) \<Longrightarrow> writable (n - 1) v \<Longrightarrow> writable n (JDict (dict_set k v ps))"
  using set_dict_set_subset [of k v ps] unfolding writable_dict by blast

lemma list_update_all: "\<forall>x \<in> set xs. P x \<Longrightarrow> P y \<Longrightarrow> \<forall>x \<in> set (xs[i := y]). P x"
  using set_update_subset_insert [of xs i y] by blast

text \<open>A predicate of values that goes down into containers and holds of texts survives a cut\<close>

locale value_predicate =
  fixes ok :: "nat \<Rightarrow> json \<Rightarrow> bool"
  assumes ok_text: "ok n (JText t)"
    and ok_dict_set: "ok n (JDict ps) \<Longrightarrow> ok (n - 1) v \<Longrightarrow> ok n (JDict (dict_set k v ps))"
    and ok_lookup: "ok n (JDict ps) \<Longrightarrow> map_of ps k = Some v \<Longrightarrow> ok (n - 1) v"
    and ok_list: "ok n (JList vs) \<Longrightarrow> v \<in> set vs \<Longrightarrow> ok (n - 1) v"
    and ok_list_update: "ok n (JList vs) \<Longrightarrow> ok (n - 1) v \<Longrightarrow> ok n (JList (vs[i := v]))"
begin

lemma put_gap_ok:
  assumes "ok n (JList gs)"
  shows "ok n (JList (gs[i := (case gs ! i of JDict g \<Rightarrow> JDict (dict_set k (JText t) g) | v \<Rightarrow> v)]))"
proof (cases "i < length gs")
  case True
  then have "ok (n - 1) (gs ! i)" using ok_list [OF assms] by simp
  then have "ok (n - 1) (case gs ! i of JDict g \<Rightarrow> JDict (dict_set k (JText t) g) | v \<Rightarrow> v)"
    by (cases "gs ! i") (simp_all add: ok_dict_set ok_text)
  with assms show ?thesis by (rule ok_list_update)
qed (use assms in \<open>simp add: list_update_beyond\<close>)

lemma put_text_ok: "ok n (JDict ps) \<Longrightarrow> ok n (JDict (put_text c ps))"
proof (induction c ps rule: put_text.induct)
  case (1 k t ps)
  then show ?case by (simp add: ok_dict_set ok_text)
next
  case (2 i t ps)
  show ?case
  proof (cases "map_of ps (codes ''gaps'')")
    case (Some v)
    show ?thesis
    proof (cases v)
      case (JList gs)
      have "ok (n - 1) (JList gs)" using ok_lookup [OF 2 Some] JList by simp
      then show ?thesis using Some JList 2 put_gap_ok by (simp add: ok_dict_set)
    qed (use Some 2 in simp_all)
  qed (use 2 in simp)
next
  case (3 k t ps)
  show ?case
  proof (cases "map_of ps (codes ''detail'')")
    case (Some v)
    note detail = this
    show ?thesis
    proof (cases v)
      case (JDict d)
      note v = this
      have d: "ok (n - 1) (JDict d)" using ok_lookup [OF 3 Some] JDict by simp
      show ?thesis
      proof (cases "map_of d (codes ''params'')")
        case (Some w)
        note params = this
        show ?thesis
        proof (cases w)
          case (JDict dp)
          have "ok (n - 1 - 1) (JDict dp)" using ok_lookup [OF d params] JDict by simp
          then show ?thesis using 3 detail v params JDict d by (simp add: ok_dict_set ok_text)
        qed (use 3 detail v params in simp_all)
      qed (use 3 Some JDict in simp)
    qed (use Some 3 in simp_all)
  qed (use 3 in simp)
qed

lemma put_texts_ok: "ok n (JDict ps) \<Longrightarrow> ok n (JDict (fold put_text cells ps))"
  by (induction cells arbitrary: ps) (auto simp: put_text_ok)

end

interpretation written: value_predicate writable
proof
  show "writable n (JDict ps) \<Longrightarrow> map_of ps k = Some v \<Longrightarrow> writable (n - 1) v" for n ps k v
    unfolding writable_dict by (auto dest: map_of_SomeD)
  show "writable n (JList vs) \<Longrightarrow> writable (n - 1) v \<Longrightarrow> writable n (JList (vs[i := v]))" for n vs v i
    unfolding writable_list by (blast intro: list_update_all [rule_format])
qed (auto simp: writable_dict_set writable_list)

lemma well_formed_list: "well_formed fl (JList vs) \<longleftrightarrow> (\<forall>v \<in> set vs. well_formed fl v)"
  by (auto simp: list_all_iff)

lemma well_formed_dict_set:
  "well_formed fl (JDict ps) \<Longrightarrow> well_formed fl v \<Longrightarrow> well_formed fl (JDict (dict_set k v ps))"
  using set_dict_set_subset [of k v ps] distinct_dict_set [of ps k v] unfolding well_formed_dict by blast

interpretation formed: value_predicate "\<lambda>_. well_formed fl" for fl
proof
  show "well_formed fl (JDict ps) \<Longrightarrow> map_of ps k = Some v \<Longrightarrow> well_formed fl v" for ps k v
    unfolding well_formed_dict by (auto dest: map_of_SomeD)
  show "well_formed fl (JList vs) \<Longrightarrow> well_formed fl v \<Longrightarrow> well_formed fl (JList (vs[i := v]))" for vs v i
    unfolding well_formed_list by (blast intro: list_update_all [rule_format])
  show "well_formed fl (JList vs) \<Longrightarrow> v \<in> set vs \<Longrightarrow> well_formed fl v" for vs v
    unfolding well_formed_list by blast
qed (auto simp: well_formed_dict_set simp del: well_formed.simps(3))

lemma as_shrinkable_nesting: "nesting (as_shrinkable it v) = 0"
  by (cases v) (simp_all add: as_shrinkable_def)

lemma nesting_dict_set: "nesting (JDict ps) \<le> n \<Longrightarrow> nesting v \<le> n - 1 \<Longrightarrow> nesting (JDict (dict_set k v ps)) \<le> n"
  using set_dict_set_subset [of k v ps] unfolding nesting_dict by blast

lemma set_first_gaps: "set (first_gaps seen gs) \<subseteq> set gs"
  by (induction seen gs rule: first_gaps.induct) auto

lemma gap_of_asset: "gap_of v = Some (c, a, n) \<Longrightarrow> nesting a = 0"
  by (auto simp: gap_of_def Let_def split: json.splits option.splits if_splits)

lemma kept_gaps_asset:
  assumes "kept_gaps code ps = Some (gaps, n)" "(c, a, m) \<in> set gaps"
  shows "nesting a = 0"
proof -
  obtain vs where vs: "map_of ps (codes ''gaps'') = Some (JList vs)" "gaps = first_gaps [] (map (the \<circ> gap_of) vs)"
    "list_all (\<lambda>v. gap_of v \<noteq> None) vs"
    using assms(1) by (auto simp: kept_gaps_def split: option.splits json.splits if_splits)
  then obtain v where "v \<in> set vs" "the (gap_of v) = (c, a, m)" using assms(2) set_first_gaps by fastforce
  then show ?thesis using vs(3) gap_of_asset by (fastforce simp: list_all_iff)
qed

lemma shrinkable_params_nesting: "nesting (JDict (shrinkable_params it code ps)) \<le> 3"
proof -
  let ?base = "map (\<lambda>(k, v). (k, as_shrinkable it v)) ps"
  have base: "nesting (JDict (map (\<lambda>(k, v). (k, as_shrinkable it v)) qs)) \<le> 1" for qs
    unfolding nesting_dict by (auto simp: as_shrinkable_nesting)
  let ?detail = "case validation_message (map_of ps (codes ''detail'')) of None \<Rightarrow> ?base
    | Some (key, qs) \<Rightarrow> dict_set (codes ''detail'') (JDict [(codes ''key'', JText key),
        (codes ''params'', JDict (map (\<lambda>(k, v). (k, as_shrinkable it v)) qs))]) ?base"
  have detail: "nesting (JDict ?detail) \<le> 3"
  proof (cases "validation_message (map_of ps (codes ''detail''))")
    case None
    then show ?thesis using base [of ps] by simp
  next
    case (Some p)
    obtain key qs where p: "p = (key, qs)" by force
    have inner: "nesting (JDict [(codes ''key'', JText key), (codes ''params'', JDict (map (\<lambda>(k, v). (k, as_shrinkable it v)) qs))]) \<le> 3 - 1"
      using base [of qs] unfolding nesting_dict [of _ 2] by simp
    have "nesting (JDict ?base) \<le> 3" using base [of ps] by (rule order_trans) simp
    from nesting_dict_set [OF this inner, of "codes ''detail''"] show ?thesis unfolding Some p option.case prod.case .
  qed
  show ?thesis
  proof (cases "kept_gaps code ps")
    case None
    then show ?thesis using detail by (simp add: shrinkable_params_def Let_def)
  next
    case (Some p)
    obtain gaps n where p: "p = (gaps, n)" by force
    have "nesting (gap_json g) \<le> 1" if "g \<in> set gaps" for g
      using kept_gaps_asset [OF Some [unfolded p], of "fst g" "fst (snd g)" "snd (snd g)"] that
      by (auto simp: gap_json_def case_prod_unfold)
    then have "nesting (JList (map gap_json gaps)) \<le> 2" unfolding nesting_list by auto
    then have "nesting (JDict (dict_set (codes ''gaps'') (JList (map gap_json gaps)) ?detail)) \<le> 3"
      by (intro nesting_dict_set [OF detail]) simp
    then show ?thesis unfolding shrinkable_params_def Let_def Some p option.case prod.case by (rule nesting_dict_set) simp
  qed
qed

section \<open>The limit\<close>

lemma encode_writable:
  "registered code \<Longrightarrow> writable (it_write_depth it) (JDict ps) \<Longrightarrow> \<exists>t. encode_failure it code ps = Inr t"
  by (cases "ps = []") (auto simp: encode_failure_iff writable_def simp del: nesting.simps ints_convert.simps dump.simps)

text \<open>
  Property C23: a reason is always cut to its limit.  \<open>bound_reason\<close> returns a reason of at most the given
  length, when JSON may be written three levels deep and no integer of the parameters has too many digits.
\<close>

theorem bound_reason_fits:
  assumes "3 \<le> it_write_depth it"
    and "\<And>code ps. parse_failure it reason = Some (code, ps) \<Longrightarrow> ints_convert (JDict (shrinkable_params it code ps))"
  shows "\<exists>t. bound_reason it reason limit = Inr t \<and> length t \<le> limit"
proof (cases "parse_failure it reason")
  case (Some p)
  obtain code ps where p: "p = (code, ps)" by force
  note parsed = Some [unfolded p]
  let ?P = "shrinkable_params it code ps" and ?cells = "shrinkable it code ps"
  let ?encode = "\<lambda>cells. encode_failure it code (fold put_text cells ?P)"
  have reg: "registered code" using parsed by (simp add: parse_failure_iff)
  have "writable (it_write_depth it) (JDict ?P)"
    using shrinkable_params_nesting [of it code ps] assms(1) assms(2) [OF parsed] by (simp add: writable_def del: nesting.simps ints_convert.simps)
  then have total: "\<exists>t. ?encode cells = Inr t" for cells by (intro encode_writable [OF reg] written.put_texts_ok)
  show ?thesis
  proof (cases "bound_params it limit code ps")
    case (Inl e)
    then have "shrink_loop ?encode limit ?cells = Inl e" by (auto simp: bound_params_def Let_def split: if_splits)
    from shrink_loop_fails [OF this] obtain cells' where "?encode cells' = Inl e" by blast
    then show ?thesis using total [of cells'] by simp
  next
    case (Inr b)
    show ?thesis
    proof (cases b)
      case None
      then show ?thesis using Inr parsed by (simp add: bound_reason_def)
    next
      case (Some t)
      then have "shrink_loop ?encode limit ?cells = Inr (Some t)"
        using Inr by (auto simp: bound_params_def Let_def split: if_splits)
      from shrink_loop_cuts [OF this] show ?thesis using Inr Some parsed by (simp add: bound_reason_def)
    qed
  qed
qed (simp add: bound_reason_def)

end
