(* ===== verification/FailureCuts.thy ===== *)
theory FailureCuts
  imports FailureProps
begin

text \<open>
  A cut reason keeps its structure: the code, every parameter, the nested message and one gap for each
  code, with texts cut and everything else as it was.
\<close>

section \<open>Cells that were cut\<close>

text \<open>The texts of \<open>kts\<close> cut at \<open>kts'\<close>\<close>

definition cut_texts :: "('a \<times> utext) list \<Rightarrow> ('a \<times> utext) list \<Rightarrow> bool" where
  "cut_texts kts kts' = list_all2 (\<lambda>(k, t) (k', t'). k' = k \<and> (\<exists>n. t' = take n t)) kts kts'"

lemma cut_texts_Nil [simp]: "cut_texts [] kts' \<longleftrightarrow> kts' = []"
  by (simp add: cut_texts_def)

lemma cut_texts_Cons: "cut_texts ((k, t) # kts) kts' \<longleftrightarrow> (\<exists>n rest. kts' = (k, take n t) # rest \<and> cut_texts kts rest)"
  by (auto simp: cut_texts_def list_all2_Cons1)

lemma cut_append: "cut (a @ b) c \<Longrightarrow> \<exists>a' b'. c = a' @ b' \<and> cut a a' \<and> cut b b'"
  unfolding cut_def by (auto simp: list_all2_append1)

lemma cut_map: "cut (map (\<lambda>(k, t). (f k, t)) kts) c \<Longrightarrow> \<exists>kts'. c = map (\<lambda>(k, t). (f k, t)) kts' \<and> cut_texts kts kts'"
proof (induction kts arbitrary: c)
  case Nil
  then show ?case by (simp add: cut_def)
next
  case (Cons p kts)
  obtain k t where p: "p = (k, t)" by force
  obtain n rest where c: "c = (f k, take n t) # rest" "cut (map (\<lambda>(k, t). (f k, t)) kts) rest"
    using Cons.prems p by (auto simp: cut_def list_all2_Cons1)
  obtain kts' where "rest = map (\<lambda>(k, t). (f k, t)) kts'" "cut_texts kts kts'" using Cons.IH [OF c(2)] by blast
  then show ?case using c(1) p by (intro exI [of _ "(k, take n t) # kts'"]) (auto simp: cut_texts_Cons)
qed

lemma cut_texts_keys: "cut_texts kts kts' \<Longrightarrow> map fst kts' = map fst kts"
proof (induction kts arbitrary: kts')
  case (Cons p kts)
  then show ?case by (cases p) (auto simp: cut_texts_Cons)
qed simp

lemma cut_texts_lookup: "cut_texts kts kts' \<Longrightarrow> map_of kts k = Some t \<Longrightarrow> \<exists>n. map_of kts' k = Some (take n t)"
proof (induction kts arbitrary: kts')
  case (Cons p kts)
  then show ?case by (cases p) (auto simp: cut_texts_Cons split: if_splits)
qed simp

section \<open>What the cells write\<close>

lemma put_params:
  assumes "distinct (map fst kts)"
  shows "map_of (fold put_text (map (\<lambda>(k, t). (AtParam k, t)) kts) ps) k
    = (case map_of kts k of Some t \<Rightarrow> Some (JText t) | None \<Rightarrow> map_of ps k)"
  using assms
proof (induction kts arbitrary: ps)
  case (Cons p kts)
  obtain k' t' where p: "p = (k', t')" by force
  have "map_of kts k' = None" using Cons.prems p by (simp add: map_of_eq_None_iff)
  then show ?case using Cons by (simp add: p dict_simps split: option.split)
qed simp

definition rename_gap :: "utext \<Rightarrow> utext \<times> json \<times> utext \<Rightarrow> utext \<times> json \<times> utext" where
  "rename_gap t = (\<lambda>(c, a, _). (c, a, t))"

lemma gap_json_rename:
  "(case gap_json g of JDict d \<Rightarrow> JDict (dict_set (codes ''name'') (JText t) d) | v \<Rightarrow> v) = gap_json (rename_gap t g)"
  by (cases g) (simp add: gap_json_def rename_gap_def)

lemma put_gap_step:
  assumes "map_of ps (codes ''gaps'') = Some (JList (map gap_json (done @ g # gs)))"
  shows "put_text (AtGap (length done), t) ps
    = dict_set (codes ''gaps'') (JList (map gap_json (done @ rename_gap t g # gs))) ps"
proof -
  have "map gap_json (done @ g # gs) ! length done = gap_json g" by (simp add: nth_append)
  then show ?thesis using assms by (simp add: gap_json_rename nth_append list_update_append)
qed

lemma put_gaps:
  assumes "map_of ps (codes ''gaps'') = Some (JList (map gap_json (done @ gs)))" "length names = length gs"
  shows "map_of (fold put_text (map (\<lambda>(i, t). (AtGap i, t)) (enumerate (length done) names)) ps) k
    = (if k = codes ''gaps'' then Some (JList (map gap_json (done @ map2 rename_gap names gs))) else map_of ps k)"
  using assms
proof (induction names arbitrary: ps "done" gs)
  case (Cons t names)
  then obtain g rest where gs: "gs = g # rest" by (cases gs) auto
  let ?ps = "dict_set (codes ''gaps'') (JList (map gap_json (done @ rename_gap t g # rest))) ps"
  have step: "put_text (AtGap (length done), t) ps = ?ps" using put_gap_step Cons.prems(1) unfolding gs by blast
  have "map_of (fold put_text (map (\<lambda>(i, t). (AtGap i, t)) (enumerate (length (done @ [rename_gap t g])) names)) ?ps) k
      = (if k = codes ''gaps'' then Some (JList (map gap_json ((done @ [rename_gap t g]) @ map2 rename_gap names rest))) else map_of ?ps k)"
    using Cons.prems(2) gs by (intro Cons.IH) (simp_all add: dict_simps)
  then show ?case using gs step by (simp add: dict_simps del: put_text.simps)
qed simp

definition message_json :: "utext \<Rightarrow> params \<Rightarrow> json" where
  "message_json key dp = JDict [(codes ''key'', JText key), (codes ''params'', JDict dp)]"

lemma put_detail_step:
  assumes "map_of ps (codes ''detail'') = Some (message_json key dp)"
  shows "put_text (AtDetail k, t) ps = dict_set (codes ''detail'') (message_json key (put_text (AtParam k, t) dp)) ps"
  using assms by (simp add: message_json_def)

lemma put_details:
  assumes "map_of ps (codes ''detail'') = Some (message_json key dp)"
  shows "map_of (fold put_text (map (\<lambda>(k, t). (AtDetail k, t)) kts) ps) k
    = (if k = codes ''detail'' then Some (message_json key (fold put_text (map (\<lambda>(k, t). (AtParam k, t)) kts) dp)) else map_of ps k)"
  using assms
proof (induction kts arbitrary: ps dp)
  case (Cons p kts)
  obtain k' t where p: "p = (k', t)" by force
  let ?ps = "dict_set (codes ''detail'') (message_json key (put_text (AtParam k', t) dp)) ps"
  have "put_text (AtDetail k', t) ps = ?ps" by (rule put_detail_step [OF Cons.prems])
  then show ?case using Cons.IH [of ?ps "put_text (AtParam k', t) dp"] by (simp add: p dict_simps del: put_text.simps)
qed simp

section \<open>The parameters that are cut\<close>

abbreviation shrunk :: "interp \<Rightarrow> params \<Rightarrow> params" where
  "shrunk it ps \<equiv> map (\<lambda>(k, v). (k, as_shrinkable it v)) ps"

text \<open>The parameters that stay containers\<close>

definition reserved :: "utext \<Rightarrow> params \<Rightarrow> utext set" where
  "reserved code ps = (if validation_message (map_of ps (codes ''detail'')) = None then {} else {codes ''detail''})
     \<union> (if kept_gaps code ps = None then {} else {codes ''gaps'', codes ''gaps_omitted''})"

lemma shrinkable_params_lookup:
  "map_of (shrinkable_params it code ps) k =
     (case kept_gaps code ps of
        Some (gaps, n) \<Rightarrow>
          if k = codes ''gaps_omitted'' then Some (JInt (omitted_gaps ps + int n - int (length gaps)))
          else if k = codes ''gaps'' then Some (JList (map gap_json gaps))
          else (case validation_message (map_of ps (codes ''detail'')) of
              Some (key, dps) \<Rightarrow> if k = codes ''detail'' then Some (message_json key (shrunk it dps))
                else map_option (as_shrinkable it) (map_of ps k)
            | None \<Rightarrow> map_option (as_shrinkable it) (map_of ps k))
      | None \<Rightarrow> (case validation_message (map_of ps (codes ''detail'')) of
              Some (key, dps) \<Rightarrow> if k = codes ''detail'' then Some (message_json key (shrunk it dps))
                else map_option (as_shrinkable it) (map_of ps k)
            | None \<Rightarrow> map_option (as_shrinkable it) (map_of ps k)))"
  by (simp add: shrinkable_params_def Let_def dict_simps map_of_map_values message_json_def split: option.split prod.split)

lemma shrinkable_params_ordinary:
  "k \<notin> reserved code ps \<Longrightarrow> map_of (shrinkable_params it code ps) k = map_option (as_shrinkable it) (map_of ps k)"
  by (auto simp: shrinkable_params_lookup reserved_def split: option.splits if_splits)

lemma shrinkable_params_detail:
  "validation_message (map_of ps (codes ''detail'')) = Some (key, dps)
     \<Longrightarrow> map_of (shrinkable_params it code ps) (codes ''detail'') = Some (message_json key (shrunk it dps))"
  by (simp add: shrinkable_params_lookup split: option.split)

lemma shrinkable_params_gaps:
  "kept_gaps code ps = Some (gaps, n) \<Longrightarrow> map_of (shrinkable_params it code ps) (codes ''gaps'') = Some (JList (map gap_json gaps))"
  "kept_gaps code ps = Some (gaps, n) \<Longrightarrow> map_of (shrinkable_params it code ps) (codes ''gaps_omitted'')
     = Some (JInt (omitted_gaps ps + int n - int (length gaps)))"
  by (simp_all add: shrinkable_params_lookup)

lemma as_shrinkable_cases:
  obtains t where "as_shrinkable it v = JText t"
  | "as_shrinkable it v = v" "\<forall>t. v \<noteq> JText t" "\<forall>vs. v \<noteq> JList vs" "\<forall>ps. v \<noteq> JDict ps"
  by (cases v) (auto simp: as_shrinkable_def)

lemma as_shrinkable_formed: "well_formed fl v \<Longrightarrow> well_formed fl (as_shrinkable it v)"
  by (cases rule: as_shrinkable_cases [of it v]) simp_all

lemma shrunk_formed: "well_formed fl (JDict ps) \<Longrightarrow> well_formed fl (JDict (shrunk it ps))"
  unfolding well_formed_dict by (auto simp: comp_def case_prod_unfold as_shrinkable_formed)

lemma validation_message_dict:
  assumes "validation_message v = Some (key, dps)"
  obtains d where "v = Some (JDict d)" "map_of d (codes ''key'') = Some (JText key)" "map_of d (codes ''params'') = Some (JDict dps)"
    "dict_keys d = {codes ''key'', codes ''params''}"
proof -
  obtain d where d: "v = Some (JDict d)" using assms by (auto simp: validation_message_def split: option.splits json.splits)
  then have keys: "dict_keys d = {codes ''key'', codes ''params''}" using assms by (auto simp: validation_message_def split: if_splits)
  obtain a b where ab: "map_of d (codes ''key'') = Some a" "map_of d (codes ''params'') = Some b"
    using keys by (auto simp: dict_keys_iff [symmetric] set_eq_iff) (metis dict_keys_iff insertCI keys option.exhaust)
  then show ?thesis using that [OF d] assms d keys
    by (cases a; cases b) (simp_all add: validation_message_def)
qed

lemma message_formed:
  assumes "well_formed fl (JDict ps)" "validation_message (map_of ps (codes ''detail'')) = Some (key, dps)"
  shows "well_formed fl (JDict dps)"
proof -
  obtain d where "map_of ps (codes ''detail'') = Some (JDict d)" "map_of d (codes ''params'') = Some (JDict dps)"
    using validation_message_dict [OF assms(2)] by metis
  then show ?thesis using formed.ok_lookup [OF formed.ok_lookup [OF assms(1)]] by blast
qed

lemma gap_of_shape:
  assumes "gap_of v = Some (c, a, n)"
  shows "c \<in> codes ` set GENERATION_INPUT_FAILURE_CODES" "a \<in> set (JNull # map (JText \<circ> codes) [''character'', ''scene'', ''prop'', ''product''])"
  using assms by (auto simp: gap_of_def Let_def split: json.splits option.splits if_splits)

lemma kept_gaps_shape:
  assumes "kept_gaps code ps = Some (gaps, n)" "(c, a, m) \<in> set gaps"
  shows "c \<in> codes ` set GENERATION_INPUT_FAILURE_CODES" "a \<in> set (JNull # map (JText \<circ> codes) [''character'', ''scene'', ''prop'', ''product''])"
proof -
  obtain vs where vs: "gaps = first_gaps [] (map (the \<circ> gap_of) vs)" "list_all (\<lambda>v. gap_of v \<noteq> None) vs"
    using assms(1) by (auto simp: kept_gaps_def split: option.splits json.splits if_splits)
  then obtain v where "v \<in> set vs" "the (gap_of v) = (c, a, m)" using assms(2) set_first_gaps by fastforce
  then have "gap_of v = Some (c, a, m)" using vs(2) by (auto simp: list_all_iff)
  from gap_of_shape [OF this] show "c \<in> codes ` set GENERATION_INPUT_FAILURE_CODES"
    "a \<in> set (JNull # map (JText \<circ> codes) [''character'', ''scene'', ''prop'', ''product''])" by blast+
qed

lemma first_gaps_distinct: "distinct (map fst (first_gaps seen gs)) \<and> fst ` set (first_gaps seen gs) \<inter> set seen = {}"
  by (induction seen gs rule: first_gaps.induct) auto

lemma first_gaps_id: "distinct (map fst gs) \<Longrightarrow> fst ` set gs \<inter> set seen = {} \<Longrightarrow> first_gaps seen gs = gs"
  by (induction seen gs rule: first_gaps.induct) auto

lemma kept_gaps_distinct: "kept_gaps code ps = Some (gaps, n) \<Longrightarrow> distinct (map fst gaps)"
  using first_gaps_distinct by (auto simp: kept_gaps_def split: option.splits json.splits if_splits)

section \<open>The cut reason\<close>

lemma text_params_lookup:
  assumes "distinct (map fst ps)"
  shows "map_of (text_params ps) k = (case map_of ps k of Some (JText t) \<Rightarrow> Some t | _ \<Rightarrow> None)"
    and "distinct (map fst (text_params ps))"
proof -
  have sub: "fst ` set (text_params ps) \<subseteq> fst ` set ps" for ps
    by (auto simp: text_params_def List.map_filter_def split: json.splits option.splits) force
  have "distinct (map fst (text_params ps)) \<and> map_of (text_params ps) k = (case map_of ps k of Some (JText t) \<Rightarrow> Some t | _ \<Rightarrow> None)"
    using assms
  proof (induction ps)
    case (Cons p ps)
    obtain k' v where p: "p = (k', v)" by force
    have k': "k' \<notin> fst ` set (text_params ps)" "map_of ps k' = None" using Cons.prems p sub [of ps] by (auto simp: map_of_eq_None_iff)
    show ?case
    proof (cases v)
      case (JText t)
      then have "text_params (p # ps) = (k', t) # text_params ps" by (simp add: text_params_def map_filter_simps p)
      then show ?thesis using Cons k' p JText by simp
    next
      case JNull then show ?thesis using Cons k' p by (auto simp: text_params_def map_filter_simps)
    next
      case (JBool b) then show ?thesis using Cons k' p by (auto simp: text_params_def map_filter_simps)
    next
      case (JInt n) then show ?thesis using Cons k' p by (auto simp: text_params_def map_filter_simps)
    next
      case (JFloat t) then show ?thesis using Cons k' p by (auto simp: text_params_def map_filter_simps)
    next
      case (JList vs) then show ?thesis using Cons k' p by (auto simp: text_params_def map_filter_simps)
    next
      case (JDict qs) then show ?thesis using Cons k' p by (auto simp: text_params_def map_filter_simps)
    next
      case (JOther t) then show ?thesis using Cons k' p by (auto simp: text_params_def map_filter_simps)
    qed
  qed (simp add: text_params_def map_filter_simps)
  then show "map_of (text_params ps) k = (case map_of ps k of Some (JText t) \<Rightarrow> Some t | _ \<Rightarrow> None)"
    "distinct (map fst (text_params ps))" by blast+
qed

lemma gap_cells: "map (\<lambda>(i, _, _, name). (AtGap i, name)) (enumerate n gaps)
    = map (\<lambda>(i, t). (AtGap i, t)) (enumerate n (map (\<lambda>(_, _, name). name) gaps))"
  by (induction gaps arbitrary: n) auto

lemma cut_enumerate:
  assumes "cut_texts (enumerate n names) kts"
  obtains names' where "kts = enumerate n names'" "length names' = length names"
proof -
  have "kts = zip (map fst kts) (map snd kts)" by (simp add: zip_map_fst_snd)
  also have "map fst kts = [n..<n + length names]" using cut_texts_keys [OF assms] by simp
  finally have "kts = enumerate n (map snd kts)"
    using arg_cong [OF cut_texts_keys [OF assms], of length] by (simp add: enumerate_eq_zip)
  then show ?thesis using that arg_cong [OF cut_texts_keys [OF assms], of length] by simp
qed

text \<open>A value after a cut: a text is cut, also the text of a container, and other values stay\<close>

definition cut_json :: "interp \<Rightarrow> json \<Rightarrow> json \<Rightarrow> bool" where
  "cut_json it v w \<longleftrightarrow> (case as_shrinkable it v of JText t \<Rightarrow> \<exists>n. w = JText (take n t) | v' \<Rightarrow> w = as_read True v')"

definition cut_params :: "interp \<Rightarrow> utext set \<Rightarrow> params \<Rightarrow> params \<Rightarrow> bool" where
  "cut_params it special ps qs \<longleftrightarrow>
     (\<forall>k v. map_of ps k = Some v \<and> k \<notin> special \<longrightarrow> (\<exists>w. map_of qs k = Some w \<and> cut_json it v w))"

lemma put_params_cut:
  assumes "distinct (map fst ps)" "cut_texts (text_params ps) kts" "map_of ps k = Some v"
  shows "\<exists>w. map_of (fold put_text (map (\<lambda>(k, t). (AtParam k, t)) kts) ps) k = Some w
    \<and> (case v of JText t \<Rightarrow> \<exists>n. w = JText (take n t) | _ \<Rightarrow> w = v)"
proof -
  have dist: "distinct (map fst kts)" using text_params_lookup(2) [OF assms(1)] cut_texts_keys [OF assms(2)] by simp
  show ?thesis
  proof (cases "map_of kts k")
    case None
    then have "k \<notin> set (map fst kts)" by (simp add: map_of_eq_None_iff)
    then have "map_of (text_params ps) k = None"
      unfolding cut_texts_keys [OF assms(2)] by (simp add: map_of_eq_None_iff)
    then have "\<forall>t. v \<noteq> JText t" using text_params_lookup(1) [OF assms(1), of k] assms(3) by auto
    then show ?thesis using put_params [OF dist, of ps k] None assms(3) by (cases v) auto
  next
    case (Some t)
    then have "k \<in> set (map fst kts)" by (force dest: map_of_SomeD)
    then have "map_of (text_params ps) k \<noteq> None"
      unfolding cut_texts_keys [OF assms(2)] by (simp add: map_of_eq_None_iff)
    then obtain u where u: "map_of (text_params ps) k = Some u" by blast
    then have "v = JText u" using text_params_lookup(1) [OF assms(1), of k] assms(3) by (cases v) auto
    then show ?thesis using put_params [OF dist, of ps k] cut_texts_lookup [OF assms(2) u] Some by auto
  qed
qed

lemma validation_message_json [simp]: "validation_message (Some (message_json key dp)) = Some (key, dp)"
  by (simp add: validation_message_def message_json_def dict_simps)

lemma validation_message_shrunk: "validation_message (map_option (as_shrinkable it) v) = None"
proof (cases v)
  case (Some u)
  then show ?thesis by (cases rule: as_shrinkable_cases [of it u]; cases u) (simp_all add: validation_message_def)
qed (simp add: validation_message_def)

lemma shrinkable_params_message:
  "validation_message (map_of (shrinkable_params it code ps) (codes ''detail''))
    = map_option (\<lambda>(key, dps). (key, shrunk it dps)) (validation_message (map_of ps (codes ''detail'')))"
proof (cases "validation_message (map_of ps (codes ''detail''))")
  case None
  then have "codes ''detail'' \<notin> reserved code ps" by (simp add: reserved_def)
  from shrinkable_params_ordinary [OF this, of it] show ?thesis using None by (simp add: validation_message_shrunk)
next
  case (Some p)
  then show ?thesis using shrinkable_params_detail [of ps "fst p" "snd p" it code] by (cases p) simp
qed

lemma shrinkable_params_formed:
  assumes "well_formed fl (JDict ps)"
  shows "well_formed fl (JDict (shrinkable_params it code ps))"
proof -
  let ?detail = "case validation_message (map_of ps (codes ''detail'')) of None \<Rightarrow> shrunk it ps
    | Some (key, qs) \<Rightarrow> dict_set (codes ''detail'') (JDict [(codes ''key'', JText key), (codes ''params'', JDict (shrunk it qs))]) (shrunk it ps)"
  note base = shrunk_formed [OF assms, of it]
  have detail: "well_formed fl (JDict ?detail)"
  proof (cases "validation_message (map_of ps (codes ''detail''))")
    case None
    then show ?thesis using base by (simp del: well_formed.simps)
  next
    case (Some p)
    obtain key qs where p: "p = (key, qs)" by force
    have "well_formed fl (JDict (shrunk it qs))" using shrunk_formed [OF message_formed [OF assms Some [unfolded p]]] .
    then have "well_formed fl (JDict [(codes ''key'', JText key), (codes ''params'', JDict (shrunk it qs))])"
      unfolding well_formed_dict [of fl "[(codes ''key'', _), (codes ''params'', _)]"] by (simp del: well_formed.simps(3))
    then show ?thesis unfolding Some p option.case prod.case by (rule well_formed_dict_set [OF base])
  qed
  show ?thesis
  proof (cases "kept_gaps code ps")
    case None
    then show ?thesis using detail unfolding shrinkable_params_def Let_def by simp
  next
    case (Some p)
    obtain gaps n where p: "p = (gaps, n)" by force
    have "well_formed fl (gap_json g)" if "g \<in> set gaps" for g
      using kept_gaps_shape(2) [OF Some [unfolded p], of "fst g" "fst (snd g)" "snd (snd g)"] that
      by (auto simp: gap_json_def case_prod_unfold)
    then have "well_formed fl (JList (map gap_json gaps))" unfolding well_formed_list by auto
    then have "well_formed fl (JDict (dict_set (codes ''gaps'') (JList (map gap_json gaps)) ?detail))"
      by (rule well_formed_dict_set [OF detail])
    then show ?thesis unfolding shrinkable_params_def Let_def Some p option.case prod.case
      by (rule well_formed_dict_set) simp
  qed
qed

definition same_or_cut :: "json \<Rightarrow> json \<Rightarrow> bool" where
  "same_or_cut v w \<longleftrightarrow> (case v of JText t \<Rightarrow> \<exists>n. w = JText (take n t) | _ \<Rightarrow> w = v)"

lemma same_or_cut_read: "same_or_cut (as_shrinkable it v) w \<Longrightarrow> cut_json it v (as_read True w)"
  by (cases "as_shrinkable it v") (auto simp: same_or_cut_def cut_json_def)

lemma same_or_cut_container: "same_or_cut (JList vs) w \<Longrightarrow> w = JList vs" "same_or_cut (message_json key dp) w \<Longrightarrow> w = message_json key dp"
  "same_or_cut (JInt n) w \<Longrightarrow> w = JInt n"
  by (simp_all add: same_or_cut_def message_json_def)

lemma cut_result:
  assumes "well_formed fl (JDict ps)" "cut (shrinkable it code ps) cells"
  defines "Q \<equiv> fold put_text cells (shrinkable_params it code ps)"
  shows "k \<notin> reserved code ps \<Longrightarrow> map_of ps k = Some v \<Longrightarrow> \<exists>w. map_of Q k = Some w \<and> same_or_cut (as_shrinkable it v) w"
    and "validation_message (map_of ps (codes ''detail'')) = Some (key, dps) \<Longrightarrow>
      \<exists>dq. map_of Q (codes ''detail'') = Some (message_json key dq)
        \<and> (\<forall>k v. map_of dps k = Some v \<longrightarrow> (\<exists>w. map_of dq k = Some w \<and> same_or_cut (as_shrinkable it v) w))"
    and "kept_gaps code ps = Some (gaps, n) \<Longrightarrow>
      (\<exists>names. length names = length gaps \<and> map_of Q (codes ''gaps'') = Some (JList (map gap_json (map2 rename_gap names gaps))))
      \<and> map_of Q (codes ''gaps_omitted'') = Some (JInt (omitted_gaps ps + int n - int (length gaps)))"
proof -
  let ?P = "shrinkable_params it code ps"
  let ?G = "case kept_gaps code ps of None \<Rightarrow> [] | Some (gaps, _) \<Rightarrow> map (\<lambda>(i, _, _, name). (AtGap i, name)) (enumerate 0 gaps)"
  let ?D = "case validation_message (map_of ?P (codes ''detail'')) of None \<Rightarrow> [] | Some (_, ps) \<Rightarrow> map (\<lambda>(k, t). (AtDetail k, t)) (text_params ps)"
  obtain A R where R: "cells = A @ R" "cut (?G @ ?D) R" and A: "cut (map (\<lambda>(k, t). (AtParam k, t)) (text_params ?P)) A"
    using cut_append [OF assms(2) [unfolded shrinkable_def Let_def]] by blast
  obtain G D where G: "cut ?G G" and D: "cut ?D D" and GD: "R = G @ D" using cut_append [OF R(2)] by blast
  have cells: "cells = A @ G @ D" using R(1) GD by simp
  have distP: "distinct (map fst ?P)" using shrinkable_params_formed [OF assms(1)] unfolding well_formed_dict by blast
  define Q1 where "Q1 = fold put_text A ?P"
  define Q2 where "Q2 = fold put_text G Q1"
  have Q: "Q = fold put_text D Q2" unfolding Q_def Q1_def Q2_def cells by simp
  obtain kts where kts: "A = map (\<lambda>(k, t). (AtParam k, t)) kts" "cut_texts (text_params ?P) kts" using cut_map [OF A] by blast
  have Q1: "\<exists>w. map_of Q1 k = Some w \<and> same_or_cut v w" if "map_of ?P k = Some v" for k v
    using put_params_cut [OF distP kts(2) that] unfolding Q1_def kts(1) same_or_cut_def .
  have Q2_gaps: "(\<exists>names. length names = length gaps \<and> map_of Q2 (codes ''gaps'') = Some (JList (map gap_json (map2 rename_gap names gaps))))
      \<and> (\<forall>k. k \<noteq> codes ''gaps'' \<longrightarrow> map_of Q2 k = map_of Q1 k)" if kept: "kept_gaps code ps = Some (gaps, n)" for gaps n
  proof -
    have "cut (map (\<lambda>(i, t). (AtGap i, t)) (enumerate 0 (map (\<lambda>(_, _, name). name) gaps))) G"
      using G kept by (simp add: gap_cells)
    then obtain kts where "G = map (\<lambda>(i, t). (AtGap i, t)) kts" "cut_texts (enumerate 0 (map (\<lambda>(_, _, name). name) gaps)) kts"
      using cut_map by blast
    then obtain names where names: "G = map (\<lambda>(i, t). (AtGap i, t)) (enumerate 0 names)" "length names = length gaps"
      using cut_enumerate by (metis length_map)
    have "map_of Q1 (codes ''gaps'') = Some (JList (map gap_json ([] @ gaps)))"
      using Q1 [OF shrinkable_params_gaps(1) [OF kept]] same_or_cut_container by auto
    from put_gaps [OF this names(2)] show ?thesis using names unfolding Q2_def names(1) by auto
  qed
  have Q2_other: "map_of Q2 k = map_of Q1 k" if "k \<noteq> codes ''gaps'' \<or> kept_gaps code ps = None" for k
  proof (cases "kept_gaps code ps")
    case None
    then show ?thesis using G by (simp add: Q2_def cut_def)
  next
    case (Some p)
    then show ?thesis using Q2_gaps [of "fst p" "snd p"] that by simp
  qed
  have Q_detail: "\<exists>dq. map_of Q (codes ''detail'') = Some (message_json key dq)
        \<and> (\<forall>k v. map_of dps k = Some v \<longrightarrow> (\<exists>w. map_of dq k = Some w \<and> same_or_cut (as_shrinkable it v) w))
        \<and> (\<forall>k. k \<noteq> codes ''detail'' \<longrightarrow> map_of Q k = map_of Q2 k)"
    if message: "validation_message (map_of ps (codes ''detail'')) = Some (key, dps)" for key dps
  proof -
    have "cut (map (\<lambda>(k, t). (AtDetail k, t)) (text_params (shrunk it dps))) D"
      using D message by (simp add: shrinkable_params_message)
    then obtain kts where kts: "D = map (\<lambda>(k, t). (AtDetail k, t)) kts" "cut_texts (text_params (shrunk it dps)) kts"
      using cut_map by blast
    have "map_of Q2 (codes ''detail'') = Some (message_json key (shrunk it dps))"
      using Q1 [OF shrinkable_params_detail [OF message]] same_or_cut_container Q2_other [of "codes ''detail''"] by auto
    note put = put_details [OF this, of kts]
    have "distinct (map fst (shrunk it dps))"
      using shrunk_formed [OF message_formed [OF assms(1) message]] unfolding well_formed_dict by blast
    note inner = put_params_cut [OF this kts(2), folded same_or_cut_def]
    have "\<exists>w. map_of (fold put_text (map (\<lambda>(k, t). (AtParam k, t)) kts) (shrunk it dps)) k = Some w \<and> same_or_cut (as_shrinkable it v) w"
      if "map_of dps k = Some v" for k v
      using inner [of k "as_shrinkable it v"] that by (simp add: map_of_map_values)
    then show ?thesis using put unfolding Q kts(1) by auto
  qed
  have Q_other: "map_of Q k = map_of Q2 k" if "k \<noteq> codes ''detail'' \<or> validation_message (map_of ps (codes ''detail'')) = None" for k
  proof (cases "validation_message (map_of ps (codes ''detail''))")
    case None
    then show ?thesis using D by (simp add: Q cut_def shrinkable_params_message)
  next
    case (Some p)
    then show ?thesis using Q_detail [of "fst p" "snd p"] that by auto
  qed
  show "\<exists>w. map_of Q k = Some w \<and> same_or_cut (as_shrinkable it v) w" if "k \<notin> reserved code ps" "map_of ps k = Some v" for k v
  proof -
    have "map_of Q k = map_of Q1 k" using Q_other [of k] Q2_other [of k] that(1) by (auto simp: reserved_def split: if_splits)
    then show ?thesis using Q1 [of k] shrinkable_params_ordinary [OF that(1), of it] that(2) by simp
  qed
  show "\<exists>dq. map_of Q (codes ''detail'') = Some (message_json key dq)
        \<and> (\<forall>k v. map_of dps k = Some v \<longrightarrow> (\<exists>w. map_of dq k = Some w \<and> same_or_cut (as_shrinkable it v) w))"
    if "validation_message (map_of ps (codes ''detail'')) = Some (key, dps)" for key dps
    using Q_detail [OF that] by blast
  show "(\<exists>names. length names = length gaps \<and> map_of Q (codes ''gaps'') = Some (JList (map gap_json (map2 rename_gap names gaps))))
      \<and> map_of Q (codes ''gaps_omitted'') = Some (JInt (omitted_gaps ps + int n - int (length gaps)))"
    if "kept_gaps code ps = Some (gaps, n)" for gaps n
    using Q2_gaps [OF that] Q_other [of "codes ''gaps''"] Q_other [of "codes ''gaps_omitted''"] Q2_other [of "codes ''gaps_omitted''"]
      Q1 [OF shrinkable_params_gaps(2) [OF that]] same_or_cut_container
    by auto
qed

lemma read_message:
  assumes "distinct (map fst dq)"
  shows "validation_message (Some (as_read True (message_json key dq))) = Some (key, read_params dq)"
proof -
  let ?d = "[(codes ''key'', JText key), (codes ''params'', JDict dq)]"
  have dist: "distinct (map fst ?d)" by simp
  have "dict_keys (read_params ?d) = {codes ''key'', codes ''params''}"
    by (auto simp: dict_keys_iff map_of_read_params [OF dist] split: if_splits)
  moreover have "map_of (read_params ?d) (codes ''key'') = Some (JText key)"
    "map_of (read_params ?d) (codes ''params'') = Some (JDict (read_params dq))"
    using as_read_params [of dq] by (simp_all add: map_of_read_params [OF dist])
  ultimately show ?thesis by (simp only: message_json_def as_read_params validation_message_def option.case json.case simp_thms if_True prod.case)
qed

lemma read_gap:
  assumes "c \<in> codes ` set GENERATION_INPUT_FAILURE_CODES" "a \<in> set (JNull # map (JText \<circ> codes) [''character'', ''scene'', ''prop'', ''product''])"
  shows "gap_of (as_read True (gap_json (c, a, t))) = Some (c, a, t)"
proof -
  let ?d = "[(codes ''code'', JText c), (codes ''asset_type'', a), (codes ''name'', JText t)]"
  have dist: "distinct (map fst ?d)" by simp
  have "as_read True a = a" using assms(2) by auto
  then show ?thesis using assms
    by (simp add: gap_json_def as_read_params gap_of_def map_of_read_params [OF dist] del: as_read.simps(3) list.set)
qed

lemma read_gaps:
  assumes kept: "kept_gaps code ps = Some (gaps, n)" and names: "length names = length gaps"
    and qs: "map_of qs (codes ''gaps'') = Some (as_read True (JList (map gap_json (map2 rename_gap names gaps))))"
  shows "kept_gaps code qs = Some (map2 rename_gap names gaps, length gaps)"
proof -
  define gs where "gs = map2 rename_gap names gaps"
  have kept_gap: "gap_of (as_read True (gap_json g)) = Some g" if g: "g \<in> set gs" for g
  proof -
    obtain t c a m where g: "g = (c, a, t)" "(c, a, m) \<in> set gaps"
      using g by (auto simp: gs_def rename_gap_def dest: set_zip_rightD)
    show ?thesis unfolding g(1) by (rule read_gap) (use kept_gaps_shape [OF kept g(2)] in blast)+
  qed
  have "map (the \<circ> gap_of) (map (as_read True \<circ> gap_json) gs) = gs" by (simp add: kept_gap map_idI)
  moreover have "list_all (\<lambda>v. gap_of v \<noteq> None) (map (as_read True \<circ> gap_json) gs)"
    using kept_gap by (auto simp: list_all_iff)
  moreover have "map fst gs = map fst gaps"
    unfolding gs_def using names by (intro nth_equalityI) (simp_all add: rename_gap_def case_prod_unfold)
  then have "first_gaps [] gs = gs" using kept_gaps_distinct [OF kept] by (intro first_gaps_id) simp_all
  moreover have "code \<in> codes ` set GENERATION_INPUT_FAILURE_CODES"
    using kept by (auto simp: kept_gaps_def split: option.splits json.splits if_splits)
  moreover have "length gs = length gaps" using names by (simp add: gs_def)
  moreover have "map_of qs (codes ''gaps'') = Some (JList (map (as_read True \<circ> gap_json) gs))" using qs by (simp add: gs_def)
  ultimately show ?thesis unfolding gs_def [symmetric] by (simp add: kept_gaps_def)
qed

text \<open>
  A text keeps the structure of a reason: it reads as the same code, and every parameter is there, with
  its text cut or its value unchanged, a container as its text; a nested message keeps its key and all of its
  parameters, and the gaps of a rejected input keep one gap for each code, with its asset type, and the
  number of those left out.
\<close>

definition keeps_structure :: "interp \<Rightarrow> utext \<Rightarrow> params \<Rightarrow> utext \<Rightarrow> bool" where
  "keeps_structure it code ps t \<longleftrightarrow> (\<exists>qs. parse_failure it t = Some (code, qs) \<and> cut_params it (reserved code ps) ps qs
    \<and> (\<forall>key dps. validation_message (map_of ps (codes ''detail'')) = Some (key, dps) \<longrightarrow>
         (\<exists>dqs. validation_message (map_of qs (codes ''detail'')) = Some (key, dqs) \<and> cut_params it {} dps dqs))
    \<and> (\<forall>gaps n. kept_gaps code ps = Some (gaps, n) \<longrightarrow>
         (\<exists>gs. kept_gaps code qs = Some (gs, length gs) \<and> map (\<lambda>(c, a, _). (c, a)) gs = map (\<lambda>(c, a, _). (c, a)) gaps
            \<and> omitted_gaps qs = omitted_gaps ps + int n - int (length gaps))))"

text \<open>
  Property C24: how a reason with a code is cut.  It keeps its structure: the code, every parameter with
  its text cut or its value unchanged, a nested message with its key and parameters, and a gap for each code.
  There is one exception, in which the code slices the raw reason: when it has no text to
  shorten, or when its parameters exceed the limit with all of their texts emptied.
\<close>

theorem bound_keeps_structure:
  assumes "parse_failure it reason = Some (code, ps)" "limit < length reason" "bound_reason it reason limit = Inr t"
    and "well_formed (it_float it) (JDict ps)" "it_write_depth it \<le> it_read_depth it"
  shows "keeps_structure it code ps t
    \<or> t = take limit reason \<and> (shrinkable it code ps = []
        \<or> (\<exists>frame. encode_failure it code (fold put_text (emptied (shrinkable it code ps)) (shrinkable_params it code ps)) = Inr frame
             \<and> limit < length frame))"
proof (cases "bound_params it limit code ps = Inr None")
  case True
  then have "t = take limit reason" using assms(1-3) by (simp add: bound_reason_def)
  moreover have "shrinkable it code ps \<noteq> [] \<Longrightarrow> shrink_loop (\<lambda>cells. encode_failure it code
      (fold put_text cells (shrinkable_params it code ps))) limit (shrinkable it code ps) = Inr None"
    using True by (simp add: bound_params_def Let_def)
  ultimately show ?thesis using shrink_loop_gives_up by blast
next
  case False
  let ?P = "shrinkable_params it code ps" and ?cells = "shrinkable it code ps"
  let ?encode = "\<lambda>cells. encode_failure it code (fold put_text cells ?P)"
  have loop: "shrink_loop ?encode limit ?cells = bound_params it limit code ps"
    using False by (auto simp: bound_params_def Let_def split: if_splits)
  have "shrink_loop ?encode limit ?cells = Inr (Some t)"
    using assms(1-3) loop False by (auto simp: bound_reason_def split: sum.splits option.splits)
  then obtain cells where cells: "cut ?cells cells" "?encode cells = Inr t" using shrink_loop_cuts by blast
  define Q where "Q = fold put_text cells ?P"
  have formed: "well_formed (it_float it) (JDict Q)"
    unfolding Q_def by (rule formed.put_texts_ok [OF shrinkable_params_formed [OF assms(4)]])
  then have dist: "distinct (map fst Q)" unfolding well_formed_dict by blast
  note result = cut_result [OF assms(4) cells(1), folded Q_def]
  note lookup = map_of_read_params [OF dist]
  have parsed: "parse_failure it t = Some (code, read_params Q)"
    using encode_reads [OF cells(2) [folded Q_def] formed assms(5)] .
  have ordinary: "cut_params it (reserved code ps) ps (read_params Q)"
    unfolding cut_params_def lookup using result(1) same_or_cut_read by fastforce
  have message: "\<exists>dqs. validation_message (map_of (read_params Q) (codes ''detail'')) = Some (key, dqs) \<and> cut_params it {} dps dqs"
    if m: "validation_message (map_of ps (codes ''detail'')) = Some (key, dps)" for key dps
  proof -
    obtain dq where dq: "map_of Q (codes ''detail'') = Some (message_json key dq)"
      "\<forall>k v. map_of dps k = Some v \<longrightarrow> (\<exists>w. map_of dq k = Some w \<and> same_or_cut (as_shrinkable it v) w)"
      using result(2) [OF m] by blast
    have "well_formed (it_float it) (message_json key dq)" by (rule formed.ok_lookup [OF formed dq(1)])
    then have d: "distinct (map fst dq)" by (simp add: message_json_def)
    have "cut_params it {} dps (read_params dq)"
      unfolding cut_params_def map_of_read_params [OF d] using dq(2) same_or_cut_read by fastforce
    then show ?thesis using read_message [OF d] dq(1) by (simp add: lookup)
  qed
  have gaps: "\<exists>gs. kept_gaps code (read_params Q) = Some (gs, length gs) \<and> map (\<lambda>(c, a, _). (c, a)) gs = map (\<lambda>(c, a, _). (c, a)) gaps
      \<and> omitted_gaps (read_params Q) = omitted_gaps ps + int n - int (length gaps)"
    if kept: "kept_gaps code ps = Some (gaps, n)" for gaps n
  proof -
    obtain names where names: "length names = length gaps"
      "map_of Q (codes ''gaps'') = Some (JList (map gap_json (map2 rename_gap names gaps)))"
      and omitted: "map_of Q (codes ''gaps_omitted'') = Some (JInt (omitted_gaps ps + int n - int (length gaps)))"
      using result(3) [OF kept] by blast
    have "map_of (read_params Q) (codes ''gaps'') = Some (as_read True (JList (map gap_json (map2 rename_gap names gaps))))"
      using names(2) by (simp add: lookup)
    note read = read_gaps [OF kept names(1) this]
    have "map (\<lambda>(c, a, _). (c, a)) (map2 rename_gap names gaps) = map (\<lambda>(c, a, _). (c, a)) gaps"
      using names(1) by (intro nth_equalityI) (simp_all add: rename_gap_def case_prod_unfold)
    then show ?thesis using read names(1) omitted by (intro exI [of _ "map2 rename_gap names gaps"]) (simp add: omitted_gaps_def lookup)
  qed
  show ?thesis unfolding keeps_structure_def using parsed ordinary message gaps by blast
qed

end
