(* ===== verification/BlockedReasons.thy ===== *)
theory BlockedReasons
  imports FailureCuts
begin

text \<open>
  The reasons of blocked tasks: each names the task it waits for and the root cause, however long the
  chain of dependencies is; and what is lost when a root cause is cut.
\<close>

section \<open>The text of a blocked reason\<close>

definition escaped_length :: "utext \<Rightarrow> nat" where
  "escaped_length t = length (concat (map escape_code t))"

definition blocked_text :: "utext \<Rightarrow> utext \<Rightarrow> utext" where
  "blocked_text dependency reason = [91] @ CASCADE_FAILURE_CODE @ [93, 32]
     @ dump True (JDict (blocked_params dependency reason))"

lemma cascade_registered: "registered CASCADE_FAILURE_CODE"
  by (simp add: registered_def CASCADE_FAILURE_CODE_def FAILURE_CODE_KEYS_def)

lemma blocked_keys [simp]: "codes ''dependency_task_id'' \<noteq> codes ''reason''" "codes ''reason'' \<noteq> codes ''dependency_task_id''"
  by simp_all

lemma encode_blocked:
  assumes "1 \<le> it_write_depth it"
  shows "encode_failure it CASCADE_FAILURE_CODE (blocked_params dependency reason) = Inr (blocked_text dependency reason)"
  using assms cascade_registered
  by (simp add: encode_failure_iff blocked_text_def del: dump.simps) (simp add: blocked_params_def)

lemma blocked_length:
  "length (blocked_text dependency reason) = length (blocked_text dependency []) + escaped_length reason"
proof -
  have "codes ''dependency_task_id'' \<le> codes ''reason''" by (simp add: codes_def)
  then have "ordered True (blocked_params dependency r) = blocked_params dependency r" for r
    by (simp add: ordered_def blocked_params_def)
  then show ?thesis unfolding blocked_text_def dump_dict by (simp add: blocked_params_def quote_def escaped_length_def)
qed

lemma blocked_reads:
  assumes "1 \<le> it_write_depth it" "it_write_depth it \<le> it_read_depth it"
  obtains qs where "parse_failure it (blocked_text dependency reason) = Some (CASCADE_FAILURE_CODE, qs)"
    "map_of qs (codes ''dependency_task_id'') = Some (JText dependency)" "map_of qs (codes ''reason'') = Some (JText reason)"
proof -
  let ?ps = "blocked_params dependency reason"
  have "well_formed (it_float it) (JDict ?ps)" by (simp add: blocked_params_def)
  from encode_reads [OF encode_blocked [OF assms(1)] this assms(2)]
  have "parse_failure it (blocked_text dependency reason) = Some (CASCADE_FAILURE_CODE, read_params ?ps)" .
  moreover have "distinct (map fst ?ps)" by (simp add: blocked_params_def)
  ultimately show ?thesis using that by (simp add: map_of_read_params) (simp add: blocked_params_def)
qed

section \<open>What a blocked task stores\<close>

lemma cascade_loop_blocked:
  assumes "1 \<le> it_write_depth it" "cascade_loop it dependency n budget reason encoded = Inr t" "encoded = blocked_text dependency r"
  shows "\<exists>r. t = blocked_text dependency r"
  using assms(2,3)
proof (induction n arbitrary: budget reason encoded r)
  case (Suc n)
  obtain reason' where b: "bound_reason it reason budget = Inr reason'" using Suc.prems by (auto simp: result_simps)
  let ?encoded = "blocked_text dependency reason'"
  have run: "(if length ?encoded \<le> MAX_ERROR_MESSAGE_LEN \<or> budget = 0 then Inr ?encoded
      else cascade_loop it dependency n (budget - (length ?encoded - MAX_ERROR_MESSAGE_LEN)) reason' ?encoded) = Inr t"
    using Suc.prems(1) b by (simp add: encode_blocked [OF assms(1)])
  show ?case
  proof (cases "length ?encoded \<le> MAX_ERROR_MESSAGE_LEN \<or> budget = 0")
    case True
    then show ?thesis using run by auto
  next
    case False
    then show ?thesis using run Suc.IH [OF _ refl] by simp
  qed
qed auto

text \<open>
  The stored reason of a blocked task is always structured: it reads as the code of blocked
  tasks with the exact ID of the task it waits for.  It holds the whole root cause whenever the text is
  within the limit.
\<close>

theorem blocked_reason_reads:
  assumes "encode_bounded_cascade_failure it dependency reason = Inr t"
    and "1 \<le> it_write_depth it" "it_write_depth it \<le> it_read_depth it"
  shows "\<exists>qs r. parse_failure it t = Some (CASCADE_FAILURE_CODE, qs)
    \<and> map_of qs (codes ''dependency_task_id'') = Some (JText dependency) \<and> map_of qs (codes ''reason'') = Some (JText r)
    \<and> (length (blocked_text dependency (collapse_cascade_reason it reason)) \<le> MAX_ERROR_MESSAGE_LEN
        \<longrightarrow> r = collapse_cascade_reason it reason)"
proof -
  let ?cause = "collapse_cascade_reason it reason"
  note encode = encode_blocked [OF assms(2)]
  show ?thesis
  proof (cases "length (blocked_text dependency ?cause) \<le> MAX_ERROR_MESSAGE_LEN")
    case True
    then have t: "t = blocked_text dependency ?cause"
      using assms(1) by (simp add: encode_bounded_cascade_failure_def Let_def encode)
    obtain qs where "parse_failure it t = Some (CASCADE_FAILURE_CODE, qs)"
      "map_of qs (codes ''dependency_task_id'') = Some (JText dependency)" "map_of qs (codes ''reason'') = Some (JText ?cause)"
      unfolding t by (rule blocked_reads [OF assms(2,3)])
    then show ?thesis by blast
  next
    case False
    then have "cascade_loop it dependency 5 (MAX_ERROR_MESSAGE_LEN - length (blocked_text dependency [])) ?cause
        (blocked_text dependency ?cause) = Inr t"
      using assms(1) by (simp add: encode_bounded_cascade_failure_def Let_def encode)
    from cascade_loop_blocked [OF assms(2) this refl] obtain r where t: "t = blocked_text dependency r" by blast
    obtain qs where "parse_failure it t = Some (CASCADE_FAILURE_CODE, qs)"
      "map_of qs (codes ''dependency_task_id'') = Some (JText dependency)" "map_of qs (codes ''reason'') = Some (JText r)"
      unfolding t by (rule blocked_reads [OF assms(2,3)])
    then show ?thesis using False by blast
  qed
qed

section \<open>Chains\<close>

definition plain_reason :: "interp \<Rightarrow> utext \<Rightarrow> bool" where
  "plain_reason it r \<longleftrightarrow> (case parse_failure it r of
     Some (code, ps) \<Rightarrow> code \<noteq> CASCADE_FAILURE_CODE \<or> (case map_of ps (codes ''reason'') of Some (JText _) \<Rightarrow> False | _ \<Rightarrow> True)
   | None \<Rightarrow> True)"

lemma unwrap_plain: "plain_reason it r \<Longrightarrow> unwrap it seen r = r"
  by (subst unwrap.simps) (auto simp: plain_reason_def split: option.splits json.splits)

lemma unwrap_blocked:
  assumes "1 \<le> it_write_depth it" "it_write_depth it \<le> it_read_depth it" "seen < MAX_CASCADE_UNWRAP"
  shows "unwrap it seen (blocked_text dependency r) = unwrap it (Suc seen) r"
proof -
  obtain qs where "parse_failure it (blocked_text dependency r) = Some (CASCADE_FAILURE_CODE, qs)"
    "map_of qs (codes ''reason'') = Some (JText r)"
    by (rule blocked_reads [OF assms(1,2)])
  then show ?thesis using assms(3) by (subst unwrap.simps) simp
qed

text \<open>The reasons along a chain of tasks, each waiting for the one before\<close>

fun block_chain :: "interp \<Rightarrow> utext list \<Rightarrow> utext \<Rightarrow> encode_error + utext" where
  "block_chain it [] reason = Inr reason"
| "block_chain it (dependency # ds) reason = ebind (encode_bounded_cascade_failure it dependency reason) (block_chain it ds)"

lemma block_root:
  assumes "1 \<le> it_write_depth it" "length (blocked_text dependency cause) \<le> MAX_ERROR_MESSAGE_LEN"
    and "collapse_cascade_reason it reason = cause"
  shows "encode_bounded_cascade_failure it dependency reason = Inr (blocked_text dependency cause)"
  using assms by (simp add: encode_bounded_cascade_failure_def Let_def encode_blocked)

text \<open>
  Property C25: the length of a chain of blocked tasks does not matter: when one task fails, the reason of
  the last task of any chain names the task before it and the whole root cause, without the layers in
  between, as long as the root cause fits the limit.
\<close>

theorem chain_names_root:
  assumes "plain_reason it cause" "1 \<le> it_write_depth it" "it_write_depth it \<le> it_read_depth it"
    and "list_all (\<lambda>d. length (blocked_text d cause) \<le> MAX_ERROR_MESSAGE_LEN) (ds @ [dependency])"
  shows "\<exists>t qs. block_chain it (ds @ [dependency]) cause = Inr t \<and> length t \<le> MAX_ERROR_MESSAGE_LEN
    \<and> parse_failure it t = Some (CASCADE_FAILURE_CODE, qs)
    \<and> map_of qs (codes ''dependency_task_id'') = Some (JText dependency) \<and> map_of qs (codes ''reason'') = Some (JText cause)"
proof -
  have "block_chain it (ds @ [dependency]) r = Inr (blocked_text dependency cause)" if "collapse_cascade_reason it r = cause" for r
    using assms(4) that
  proof (induction ds arbitrary: r)
    case Nil
    then show ?case using block_root [OF assms(2) _ Nil(2)] by simp
  next
    case (Cons d ds)
    have "collapse_cascade_reason it (blocked_text d cause) = cause"
      using unwrap_blocked [OF assms(2,3), of 0 d cause] unwrap_plain [OF assms(1)]
      by (simp add: collapse_cascade_reason_def MAX_CASCADE_UNWRAP_def)
    then show ?case using Cons block_root [OF assms(2) _ Cons(3), of d] by simp
  qed
  moreover have "collapse_cascade_reason it cause = cause"
    unfolding collapse_cascade_reason_def by (rule unwrap_plain [OF assms(1)])
  ultimately have "block_chain it (ds @ [dependency]) cause = Inr (blocked_text dependency cause)" by blast
  moreover have "length (blocked_text dependency cause) \<le> MAX_ERROR_MESSAGE_LEN" using assms(4) by simp
  moreover obtain qs where "parse_failure it (blocked_text dependency cause) = Some (CASCADE_FAILURE_CODE, qs)"
      "map_of qs (codes ''dependency_task_id'') = Some (JText dependency)" "map_of qs (codes ''reason'') = Some (JText cause)"
    by (rule blocked_reads [OF assms(2,3)])
  ultimately show ?thesis by blast
qed

section \<open>What is lost\<close>

text \<open>
  Property C26: a root cause without structure whose characters double on average when they are written
  as JSON is lost: the second cut takes the whole surplus off the text, so nothing is left of it and the
  stored reason is the bare frame.
\<close>

theorem escaped_reason_lost:
  assumes "parse_failure it reason = None" "1 \<le> it_write_depth it"
    and "length (blocked_text dependency []) + budget = MAX_ERROR_MESSAGE_LEN" "0 < budget" "budget \<le> length reason"
    and "2 * budget \<le> escaped_length (take budget reason)" "parse_failure it (take budget reason) = None"
  shows "encode_bounded_cascade_failure it dependency reason = Inr (blocked_text dependency [])"
proof -
  let ?cut = "take budget reason"
  note encode = encode_blocked [OF assms(2)]
  have "plain_reason it reason" using assms(1) by (simp add: plain_reason_def)
  then have cause: "collapse_cascade_reason it reason = reason" by (simp add: collapse_cascade_reason_def unwrap_plain)
  have "escaped_length reason = escaped_length ?cut + escaped_length (drop budget reason)"
    by (simp add: escaped_length_def flip: length_append concat_append map_append)
  then have long: "\<not> length (blocked_text dependency reason) \<le> MAX_ERROR_MESSAGE_LEN"
    "\<not> length (blocked_text dependency ?cut) \<le> MAX_ERROR_MESSAGE_LEN"
    using assms(3,4,6) by (simp_all add: blocked_length [of dependency reason] blocked_length [of dependency ?cut])
  have first: "bound_reason it reason budget = Inr ?cut" using assms(1,5) by (simp add: bound_reason_def)
  have surplus: "budget - (length (blocked_text dependency ?cut) - MAX_ERROR_MESSAGE_LEN) = 0"
    using assms(3,6) by (simp add: blocked_length [of dependency ?cut])
  have second: "bound_reason it ?cut 0 = Inr []" using assms(4,5,7) by (simp add: bound_reason_def)
  have frame: "length (blocked_text dependency []) \<le> MAX_ERROR_MESSAGE_LEN" using assms(3) by simp
  have rest: "MAX_ERROR_MESSAGE_LEN - length (blocked_text dependency []) = budget" using assms(3) by simp
  have "cascade_loop it dependency 5 budget reason e = Inr (blocked_text dependency [])" for e
    using first second surplus long(2) frame assms(4) by (simp add: numeral_eq_Suc encode)
  then show ?thesis using long(1) by (simp add: encode_bounded_cascade_failure_def Let_def cause encode rest)
qed

end
