(* ===== verification/FailureInstances.thy ===== *)
theory FailureInstances
  imports BlockedReasons
begin

text \<open>Instances of the properties of stored reasons, for an interpreter that nests JSON ten levels deep.\<close>

definition demo_interp :: interp where
  "demo_interp = \<lparr>it_float = id, it_read_depth = 10, it_write_depth = 10\<rparr>"

definition demo_code :: utext where
  "demo_code = codes ''resume_expired_detail''"

definition demo_params :: params where
  "demo_params = [(codes ''detail'', JText (codes ''the job expired''))]"

definition demo_reason :: utext where
  "demo_reason = [91] @ demo_code @ [93, 32] @ dump True (JDict demo_params)"

lemma demo_registered: "registered demo_code"
  by (simp add: registered_def demo_code_def FAILURE_CODE_KEYS_def)

lemma demo_encode: "encode_failure demo_interp demo_code demo_params = Inr demo_reason"
  using demo_registered by (simp add: encode_failure_iff demo_reason_def del: dump.simps) (simp add: demo_params_def demo_interp_def)

lemma demo_formed: "well_formed (it_float demo_interp) (JDict demo_params)"
  by (simp add: demo_params_def)

lemma demo_depth: "it_write_depth demo_interp = 10" "it_read_depth demo_interp = 10"
  by (simp_all add: demo_interp_def)

lemma demo_parse: "parse_failure demo_interp demo_reason = Some (demo_code, demo_params)"
  using encode_reads [OF demo_encode demo_formed] by (simp add: demo_depth) (simp add: read_params_def ordered_def demo_params_def)

theorem failure_roundtrip_witness:
  "\<exists>qs. parse_failure demo_interp demo_reason = Some (demo_code, qs) \<and> map_of qs (codes ''detail'') = Some (JText (codes ''the job expired''))"
proof -
  obtain qs where "parse_failure demo_interp demo_reason = Some (demo_code, qs)"
    "\<forall>k. map_of qs k = map_option (as_read True) (map_of demo_params k)"
    using failure_roundtrip [OF demo_encode demo_formed] demo_depth by auto
  then show ?thesis by (simp add: demo_params_def)
qed

lemma demo_shrinkable:
  "shrinkable_params demo_interp demo_code demo_params = demo_params"
  "shrinkable demo_interp demo_code demo_params = [(AtParam (codes ''detail''), codes ''the job expired'')]"
proof -
  have gaps: "kept_gaps demo_code demo_params = None" by (simp add: kept_gaps_def demo_params_def)
  show P: "shrinkable_params demo_interp demo_code demo_params = demo_params"
    using gaps by (simp add: shrinkable_params_def Let_def demo_params_def as_shrinkable_def validation_message_def)
  show "shrinkable demo_interp demo_code demo_params = [(AtParam (codes ''detail''), codes ''the job expired'')]"
    using gaps by (simp add: shrinkable_def P Let_def) (simp add: demo_params_def text_params_def map_filter_simps validation_message_def)
qed

theorem bound_reason_fits_witness: "\<exists>t. bound_reason demo_interp demo_reason 40 = Inr t \<and> length t \<le> 40"
proof (rule bound_reason_fits)
  show "ints_convert (JDict (shrinkable_params demo_interp code ps))" if "parse_failure demo_interp demo_reason = Some (code, ps)" for code ps
  proof -
    have "code = demo_code" "ps = demo_params" using that by (simp_all add: demo_parse)
    then show ?thesis by (simp only: demo_shrinkable) (simp add: demo_params_def)
  qed
qed (simp add: demo_depth)

lemma demo_lengths: "length demo_reason = 53"
  "length ([91] @ demo_code @ [93, 32] @ dump True (JDict [(codes ''detail'', JText [])])) = 38"
  by code_simp+

theorem bound_keeps_structure_witness:
  "\<exists>t qs u. bound_reason demo_interp demo_reason 40 = Inr t \<and> parse_failure demo_interp t = Some (demo_code, qs)
    \<and> map_of qs (codes ''detail'') = Some (JText u)"
proof -
  obtain t where t: "bound_reason demo_interp demo_reason 40 = Inr t"
  proof (cases "bound_reason demo_interp demo_reason 40")
    case (Inl e)
    have "bound_reason demo_interp demo_reason 40 \<noteq> Inl e" by code_simp
    then show ?thesis using Inl by simp
  qed
  let ?frame = "[91] @ demo_code @ [93, 32] @ dump True (JDict [(codes ''detail'', JText [])])"
  have frame: "encode_failure demo_interp demo_code (fold put_text (emptied (shrinkable demo_interp demo_code demo_params))
      (shrinkable_params demo_interp demo_code demo_params)) = Inr ?frame"
    using demo_registered
    by (simp add: demo_shrinkable emptied_def encode_failure_iff del: dump.simps) (simp add: demo_params_def demo_depth)
  have fits: "length ?frame \<le> 40" unfolding demo_lengths(2) by simp
  have long: "40 < length demo_reason" by (simp add: demo_lengths(1))
  have cells: "shrinkable demo_interp demo_code demo_params \<noteq> []" by (simp add: demo_shrinkable)
  have depth: "it_write_depth demo_interp \<le> it_read_depth demo_interp" by (simp add: demo_depth)
  obtain qs where qs: "parse_failure demo_interp t = Some (demo_code, qs)"
    "cut_params demo_interp (reserved demo_code demo_params) demo_params qs"
    using bound_keeps_structure [OF demo_parse long t demo_formed depth] cells frame fits
    unfolding keeps_structure_def by auto
  have "reserved demo_code demo_params = {}" by (simp add: reserved_def demo_params_def validation_message_def kept_gaps_def)
  moreover have "map_of demo_params (codes ''detail'') = Some (JText (codes ''the job expired''))" by (simp add: demo_params_def)
  ultimately obtain w where "map_of qs (codes ''detail'') = Some w" "cut_json demo_interp (JText (codes ''the job expired'')) w"
    using qs(2) unfolding cut_params_def by blast
  then show ?thesis using t qs(1) by (auto simp: cut_json_def as_shrinkable_def)
qed

lemma other_text: "hd s \<noteq> 91 \<Longrightarrow> parse_failure it s = None"
  by (cases s) (simp_all add: parse_failure_def structured_def)

lemma boom_plain: "plain_reason demo_interp (codes ''boom'')"
  using other_text [of "codes ''boom''"] by (simp add: plain_reason_def codes_def)

lemma boom_lengths: "length (blocked_text (codes d) (codes ''boom'')) = 73 + length d" if "d \<in> {''a'', ''b''}"
  using that by (auto simp only: insert_iff empty_iff) code_simp+

theorem blocked_reason_reads_witness:
  "\<exists>qs. parse_failure demo_interp (blocked_text (codes ''a'') (codes ''boom'')) = Some (CASCADE_FAILURE_CODE, qs)
    \<and> map_of qs (codes ''reason'') = Some (JText (codes ''boom''))"
proof -
  have boom: "collapse_cascade_reason demo_interp (codes ''boom'') = codes ''boom''"
    unfolding collapse_cascade_reason_def by (rule unwrap_plain [OF boom_plain])
  have fits: "length (blocked_text (codes ''a'') (codes ''boom'')) \<le> MAX_ERROR_MESSAGE_LEN"
    using boom_lengths [of "''a''"] by (simp add: MAX_ERROR_MESSAGE_LEN_def)
  have "encode_bounded_cascade_failure demo_interp (codes ''a'') (codes ''boom'') = Inr (blocked_text (codes ''a'') (codes ''boom''))"
    by (rule block_root [OF _ fits boom]) (simp add: demo_depth)
  from blocked_reason_reads [OF this] fits boom show ?thesis by (auto simp: demo_depth)
qed

theorem chain_names_root_witness:
  "\<exists>t qs. block_chain demo_interp [codes ''a'', codes ''b''] (codes ''boom'') = Inr t
    \<and> parse_failure demo_interp t = Some (CASCADE_FAILURE_CODE, qs)
    \<and> map_of qs (codes ''dependency_task_id'') = Some (JText (codes ''b'')) \<and> map_of qs (codes ''reason'') = Some (JText (codes ''boom''))"
proof -
  have "list_all (\<lambda>d. length (blocked_text d (codes ''boom'')) \<le> MAX_ERROR_MESSAGE_LEN) ([codes ''a''] @ [codes ''b''])"
    using boom_lengths [of "''a''"] boom_lengths [of "''b''"] by (simp add: MAX_ERROR_MESSAGE_LEN_def)
  from chain_names_root [OF boom_plain _ _ this] show ?thesis by (auto simp: demo_depth)
qed

lemma quotes_double: "escaped_length (replicate n 34) = 2 * n"
  by (induction n) (simp_all add: escaped_length_def escape_code_def)

theorem escaped_reason_lost_witness:
  "encode_bounded_cascade_failure demo_interp (codes ''a'') (replicate 2000 34) = Inr (blocked_text (codes ''a'') [])"
proof -
  have frame: "length (blocked_text (codes ''a'') []) = 70" by code_simp
  have quotes: "parse_failure demo_interp (replicate n 34) = None" for n
    by (cases n) (simp_all add: other_text, simp add: parse_failure_def structured_def)
  show ?thesis
    by (rule escaped_reason_lost [where budget = 1930])
      (simp_all add: quotes frame quotes_double demo_depth MAX_ERROR_MESSAGE_LEN_def)
qed

end
