(* ===== verification/RenderPlan.thy ===== *)
theory RenderPlan
  imports TimelineOps
begin

text \<open>
  The render plan of a final cut (\<open>lib/final_cut/render_plan.py\<close>): the clips of a revision on the
  frame grid of the output, with their transitions, divided into segments at the hard cuts.  Times
  are integers of microseconds, positions on the grid integers of frames; \<open>Fraction\<close> is the type
  \<open>rat\<close>.  A path is its text.
\<close>

section \<open>The output grid\<close>

definition FINAL_CUT_FPS :: int where "FINAL_CUT_FPS = 30"
definition SHORT_EDGE :: int where "SHORT_EDGE = 1080"

record output_profile =
  op_width :: int
  op_height :: int
  op_fps :: int

definition frame_at :: "output_profile \<Rightarrow> int \<Rightarrow> int" where
  "frame_at p us = py_round (of_int (us * op_fps p) / of_int MICROSECONDS_PER_SECOND)"

definition output_profile_for_aspect_ratio :: "string \<Rightarrow> output_profile" where
  "output_profile_for_aspect_ratio aspect_ratio =
     (let width_part = takeWhile (\<lambda>c. c \<noteq> CHR '':'') aspect_ratio;
          height_part = drop (Suc (length width_part)) aspect_ratio;
          parsed = (case (py_int width_part, py_int height_part) of
             (Some a, Some b) \<Rightarrow> if b = 0 then 16 / 9 else of_int a / of_int b
           | _ \<Rightarrow> 16 / 9);
          ratio = (if parsed \<le> 0 then 16 / 9 else parsed :: rat);
          (width, height) =
            (if 1 \<le> ratio then (py_round (of_int SHORT_EDGE * ratio / 2) * 2, SHORT_EDGE)
             else (SHORT_EDGE, py_round (of_int SHORT_EDGE / ratio / 2) * 2))
      in \<lparr>op_width = width, op_height = height, op_fps = FINAL_CUT_FPS\<rparr>)"

section \<open>Material\<close>

record render_media =
  rm_path :: string
  rm_video_version :: int
  rm_duration_us :: int
  rm_has_audio :: bool

record render_clip =
  rc_clip_id :: string
  rc_unit_id :: string
  rc_video_path :: string
  rc_source_in_us :: int
  rc_source_duration_us :: int
  rc_hold_us :: int
  rc_source_volume :: volume
  rc_has_audio :: bool
  rc_transition :: "transition option"
  rc_media_duration_us :: int

definition rc_source_out_us :: "render_clip \<Rightarrow> int" where
  "rc_source_out_us c = rc_source_in_us c + rc_source_duration_us c"

definition resolve_clip :: "render_media \<Rightarrow> edit_clip \<Rightarrow> render_clip" where
  "resolve_clip m c =
     (let (source_in, source_out) = effective_source_range_us c (Some (rm_video_version m)) (rm_duration_us m)
      in \<lparr>rc_clip_id = clip_id c, rc_unit_id = clip_unit_id c, rc_video_path = rm_path m,
           rc_source_in_us = source_in, rc_source_duration_us = source_out - source_in, rc_hold_us = hold_us c,
           rc_source_volume = source_volume c, rc_has_audio = rm_has_audio m,
           rc_transition = transition_to_next c, rc_media_duration_us = rm_duration_us m\<rparr>)"

definition render_clips :: "edit_clip list \<Rightarrow> (string \<Rightarrow> render_media option) \<Rightarrow> render_clip list" where
  "render_clips cs media = List.map_filter (\<lambda>c. map_option (\<lambda>m. resolve_clip m c) (media (clip_unit_id c))) cs"

record extension =
  ex_source :: int
  ex_freeze :: int

definition no_extension :: extension where
  "no_extension = \<lparr>ex_source = 0, ex_freeze = 0\<rparr>"

definition ex_frames :: "extension \<Rightarrow> int" where
  "ex_frames e = ex_source e + ex_freeze e"

definition borrow_frames :: "int \<Rightarrow> int \<Rightarrow> int \<Rightarrow> extension" where
  "borrow_frames needed available_us fps =
     (let available = max available_us 0 * fps div MICROSECONDS_PER_SECOND; source = min needed available
      in \<lparr>ex_source = source, ex_freeze = needed - source\<rparr>)"

record fade =
  fd_frames :: int
  fd_color :: string

record planned_clip =
  pl_clip :: render_clip
  pl_start :: int
  pl_source :: int
  pl_hold :: int
  pl_lead :: extension
  pl_trail :: extension
  pl_fade_in :: "fade option"
  pl_fade_out :: "fade option"

definition pl_frames :: "planned_clip \<Rightarrow> int" where
  "pl_frames x = pl_source x + pl_hold x"

definition pl_end :: "planned_clip \<Rightarrow> int" where
  "pl_end x = pl_start x + pl_frames x"

definition pl_stream :: "planned_clip \<Rightarrow> int" where
  "pl_stream x = ex_frames (pl_lead x) + pl_frames x + ex_frames (pl_trail x)"

record crossfade =
  cf_effect :: string
  cf_offset :: int
  cf_frames :: int

record render_segment =
  sg_clips :: "planned_clip list"
  sg_crossfades :: "crossfade list"

definition sg_start :: "render_segment \<Rightarrow> int" where
  "sg_start sg = pl_start (hd (sg_clips sg))"

definition sg_frames :: "render_segment \<Rightarrow> int" where
  "sg_frames sg = sum_list (map pl_frames (sg_clips sg))"

record render_plan =
  rp_profile :: output_profile
  rp_segments :: "render_segment list"
  rp_total :: int

definition rp_clips :: "render_plan \<Rightarrow> planned_clip list" where
  "rp_clips r = concat (map sg_clips (rp_segments r))"

section \<open>Planning\<close>

definition window_frames :: "output_profile \<Rightarrow> transition \<Rightarrow> int \<times> int" where
  "window_frames p t = (let frames = max (frame_at p (tr_duration_us t)) 1; before = frames div 2
     in (before, frames - before))"

fun lay_out :: "output_profile \<Rightarrow> int \<Rightarrow> render_clip list \<Rightarrow> planned_clip list \<times> int" where
  "lay_out p cursor_us [] = ([], frame_at p cursor_us)"
| "lay_out p cursor_us (c # cs) =
     (let start = frame_at p cursor_us;
          source_end = frame_at p (cursor_us + rc_source_duration_us c);
          cursor_us = cursor_us + (rc_source_duration_us c + rc_hold_us c);
          stop = frame_at p cursor_us;
          (planned, total) = lay_out p cursor_us cs
      in (if start < stop
          then \<lparr>pl_clip = c, pl_start = start, pl_source = source_end - start, pl_hold = stop - source_end,
                pl_lead = no_extension, pl_trail = no_extension, pl_fade_in = None, pl_fade_out = None\<rparr> # planned
          else planned, total))"

definition join_clips :: "output_profile \<Rightarrow> planned_clip \<Rightarrow> planned_clip \<Rightarrow> planned_clip \<times> planned_clip" where
  "join_clips p x y =
     (case rc_transition (pl_clip x) of
        None \<Rightarrow> (x, y)
      | Some t \<Rightarrow>
          let (before, after) = window_frames p t in
          (case fade_color (transition_preset (tr_type t)) of
            Some color \<Rightarrow>
              (x\<lparr>pl_fade_out := Some \<lparr>fd_frames = min before (pl_frames x), fd_color = color\<rparr>\<rparr>,
               y\<lparr>pl_fade_in := Some \<lparr>fd_frames = min after (pl_frames y), fd_color = color\<rparr>\<rparr>)
          | None \<Rightarrow>
              let tail_us = (if pl_hold x \<noteq> 0 then 0 else rc_media_duration_us (pl_clip x) - rc_source_out_us (pl_clip x))
              in (x\<lparr>pl_trail := borrow_frames after tail_us (op_fps p)\<rparr>,
                  y\<lparr>pl_lead := borrow_frames before (rc_source_in_us (pl_clip y)) (op_fps p)\<rparr>)))"

fun join_all :: "output_profile \<Rightarrow> planned_clip list \<Rightarrow> planned_clip list" where
  "join_all p (x # y # zs) = (let (x', y') = join_clips p x y in x' # join_all p (y' # zs))"
| "join_all p xs = xs"

definition overlaps :: "planned_clip \<Rightarrow> bool" where
  "overlaps x = (case rc_transition (pl_clip x) of None \<Rightarrow> False
     | Some t \<Rightarrow> overlaps_preset (transition_preset (tr_type t)))"

definition crossfade_of :: "output_profile \<Rightarrow> int \<Rightarrow> planned_clip \<Rightarrow> crossfade" where
  "crossfade_of p segment_start x =
     (case rc_transition (pl_clip x) of
        None \<Rightarrow> \<lparr>cf_effect = [], cf_offset = 0, cf_frames = 0\<rparr>
      | Some t \<Rightarrow> let (before, after) = window_frames p t
          in \<lparr>cf_effect = xfade (transition_preset (tr_type t)), cf_offset = pl_end x - before - segment_start,
               cf_frames = before + after\<rparr>)"

fun split_segments ::
  "output_profile \<Rightarrow> planned_clip list \<Rightarrow> crossfade list \<Rightarrow> planned_clip list \<Rightarrow> render_segment list" where
  "split_segments p current fades [] = []"
| "split_segments p current fades (x # xs) =
     (let current = current @ [x] in
      if overlaps x \<and> xs \<noteq> []
      then split_segments p current (fades @ [crossfade_of p (pl_start (hd current)) x]) xs
      else \<lparr>sg_clips = current, sg_crossfades = fades\<rparr> # split_segments p [] [] xs)"

definition plan_render :: "render_clip list \<Rightarrow> output_profile \<Rightarrow> render_plan" where
  "plan_render cs p =
     (let (planned, total) = lay_out p 0 cs
      in \<lparr>rp_profile = p, rp_segments = split_segments p [] [] (join_all p planned), rp_total = total\<rparr>)"

section \<open>Frames\<close>

text \<open>Clips laid end to end, from one frame to another, each at least a frame long\<close>

fun tiles :: "int \<Rightarrow> planned_clip list \<Rightarrow> int \<Rightarrow> bool" where
  "tiles a [] b \<longleftrightarrow> a = b"
| "tiles a (x # xs) b \<longleftrightarrow> pl_start x = a \<and> a < pl_end x \<and> tiles (pl_end x) xs b"

definition clip_ok :: "render_clip \<Rightarrow> bool" where
  "clip_ok c \<longleftrightarrow> 0 \<le> rc_source_duration_us c \<and> 0 \<le> rc_hold_us c \<and> 0 \<le> rc_source_in_us c
     \<and> rc_source_out_us c \<le> rc_media_duration_us c"

definition clip_us :: "render_clip \<Rightarrow> int" where
  "clip_us c = rc_source_duration_us c + rc_hold_us c"

lemma frame_at_mono: "0 \<le> op_fps p \<Longrightarrow> a \<le> b \<Longrightarrow> frame_at p a \<le> frame_at p b"
  unfolding frame_at_def by (intro py_round_mono divide_right_mono) (simp_all add: mult_right_mono)

lemma frame_at_0 [simp]: "frame_at p 0 = 0"
  using py_round_of_int [of 0] by (simp add: frame_at_def)

lemma frame_at_error: "\<bar>of_int (frame_at p us) - of_int (us * op_fps p) / 1000000\<bar> \<le> (1 / 2 :: rat)"
  unfolding frame_at_def using py_round_error by simp

lemma resolve_clip_ok:
  assumes "valid_clip c" "0 \<le> rm_duration_us m"
  shows "clip_ok (resolve_clip m c)"
  using assms
  by (auto simp: clip_ok_def resolve_clip_def rc_source_out_us_def effective_source_range_us_def Let_def valid_clip_def
      valid_trim_def split: option.splits)

lemma lay_out_rows:
  assumes "0 \<le> op_fps p" "\<forall>c \<in> set cs. clip_ok c"
  shows "map (\<lambda>x. (pl_clip x, pl_start x, pl_end x)) (fst (lay_out p a cs)) =
      filter (\<lambda>(_, i, j). i < j) (map (\<lambda>k. (cs ! k, frame_at p (a + sum_list (map clip_us (take k cs))),
        frame_at p (a + sum_list (map clip_us (take (Suc k) cs))))) [0..<length cs])"
    and "snd (lay_out p a cs) = frame_at p (a + sum_list (map clip_us cs))"
    and "tiles (frame_at p a) (fst (lay_out p a cs)) (snd (lay_out p a cs))"
  using assms(2)
proof (induction cs arbitrary: a)
  case (Cons c cs)
  {
    case 1
    have "[0..<length (c # cs)] = 0 # map Suc [0..<length cs]" by (simp add: map_Suc_upt upt_conv_Cons del: upt_Suc)
    then show ?case using Cons.IH(1) [of "a + clip_us c"] 1
      by (simp add: Let_def split_beta clip_us_def o_def pl_end_def pl_frames_def add.assoc)
  next
    case 2
    then show ?case using Cons.IH(2) [of "a + clip_us c"] by (simp add: Let_def split_beta clip_us_def add.assoc)
  next
    case 3
    have "frame_at p a \<le> frame_at p (a + clip_us c)"
      using 3 by (intro frame_at_mono assms(1)) (simp add: clip_ok_def clip_us_def)
    then show ?case using Cons.IH(3) [of "a + clip_us c"] 3
      by (auto simp: Let_def split_beta clip_us_def pl_end_def pl_frames_def add.assoc)
  }
qed simp_all

text \<open>Transitions leave the place of a clip alone\<close>

definition place_of :: "planned_clip \<Rightarrow> render_clip \<times> int \<times> int \<times> int" where
  "place_of x = (pl_clip x, pl_start x, pl_source x, pl_hold x)"

lemma place_of_eq:
  "place_of x = place_of y \<longleftrightarrow> pl_clip x = pl_clip y \<and> pl_start x = pl_start y \<and> pl_source x = pl_source y \<and> pl_hold x = pl_hold y"
  by (simp add: place_of_def)

lemma join_clips_place [simp]:
  "place_of (fst (join_clips p x y)) = place_of x" "place_of (snd (join_clips p x y)) = place_of y"
  by (auto simp: join_clips_def place_of_def Let_def split_beta split: option.splits)

lemma join_all_place: "map place_of (join_all p xs) = map place_of xs"
proof (induction p xs rule: join_all.induct)
  case (1 p x y zs)
  show ?case using "1.IH" [OF refl prod.collapse] by (simp add: split_beta Let_def)
qed simp_all

lemma split_segments_clips:
  "xs \<noteq> [] \<or> current = [] \<Longrightarrow> concat (map sg_clips (split_segments p current fades xs)) = current @ xs"
  by (induction p current fades xs rule: split_segments.induct) (auto simp: Let_def)

lemma rp_clips_plan: "rp_clips (plan_render cs p) = join_all p (fst (lay_out p 0 cs))"
  by (simp add: rp_clips_def plan_render_def split_beta split_segments_clips)

lemma same_place:
  assumes "map place_of xs = map place_of ys"
  shows "map (\<lambda>x. (pl_clip x, pl_start x, pl_end x)) xs = map (\<lambda>x. (pl_clip x, pl_start x, pl_end x)) ys"
    and "tiles a xs b = tiles a ys b"
proof -
  have "map (\<lambda>(c, i, m, n). (c, i, i + (m + n))) (map place_of xs) = map (\<lambda>(c, i, m, n). (c, i, i + (m + n))) (map place_of ys)"
    by (simp only: assms)
  then show "map (\<lambda>x. (pl_clip x, pl_start x, pl_end x)) xs = map (\<lambda>x. (pl_clip x, pl_start x, pl_end x)) ys"
    by (simp add: place_of_def pl_end_def pl_frames_def o_def)
  show "tiles a xs b = tiles a ys b"
    using assms
  proof (induction xs arbitrary: ys a)
    case (Cons x xs)
    then obtain y ys' where "ys = y # ys'" by auto
    with Cons show ?case by (auto simp: place_of_eq pl_end_def pl_frames_def)
  qed simp
qed

section \<open>Transitions\<close>

text \<open>The frames of the window of the transition on a clip, before and after its cut\<close>

definition before_of :: "output_profile \<Rightarrow> planned_clip \<Rightarrow> int" where
  "before_of p x = (case rc_transition (pl_clip x) of None \<Rightarrow> 0 | Some t \<Rightarrow> fst (window_frames p t))"

definition after_of :: "output_profile \<Rightarrow> planned_clip \<Rightarrow> int" where
  "after_of p x = (case rc_transition (pl_clip x) of None \<Rightarrow> 0 | Some t \<Rightarrow> snd (window_frames p t))"

lemma window_frames_nonneg: "0 \<le> fst (window_frames p t)" "0 \<le> snd (window_frames p t)"
  by (auto simp: window_frames_def Let_def)

lemma crossfade_of_simps:
  "cf_offset (crossfade_of p s x) = (if rc_transition (pl_clip x) = None then 0 else pl_end x - before_of p x - s)"
  "cf_frames (crossfade_of p s x) = before_of p x + after_of p x"
  by (auto simp: crossfade_of_def before_of_def after_of_def split_beta Let_def split: option.split)

lemma borrow_frames_all [simp]: "ex_frames (borrow_frames n a f) = n"
  by (simp add: borrow_frames_def ex_frames_def Let_def)

lemma no_extension_frames [simp]: "ex_frames no_extension = 0" "ex_source no_extension = 0" "ex_freeze no_extension = 0"
  by (simp_all add: no_extension_def ex_frames_def)

lemma overlaps_Some: "overlaps x \<Longrightarrow> \<exists>t. rc_transition (pl_clip x) = Some t"
  by (auto simp: overlaps_def split: option.splits)

lemma join_clips_extensions:
  "pl_lead (fst (join_clips p x y)) = pl_lead x"
  "pl_trail (snd (join_clips p x y)) = pl_trail y"
  "ex_frames (pl_trail (fst (join_clips p x y))) = (if overlaps x then after_of p x else ex_frames (pl_trail x))"
  "ex_frames (pl_lead (snd (join_clips p x y))) = (if overlaps x then before_of p x else ex_frames (pl_lead y))"
  by (auto simp: join_clips_def overlaps_def overlaps_preset_def before_of_def after_of_def Let_def split_beta split: option.splits)

lemma place_of_simps:
  assumes "place_of x = place_of y"
  shows "overlaps x = overlaps y" "after_of p x = after_of p y" "before_of p x = before_of p y" "pl_start x = pl_start y"
    "pl_end x = pl_end y" "pl_frames x = pl_frames y"
  using assms by (simp_all add: place_of_eq overlaps_def after_of_def before_of_def pl_end_def pl_frames_def)

text \<open>Neighbours that meet, with the frames their transition borrows on both sides of the cut\<close>

definition meets :: "output_profile \<Rightarrow> planned_clip \<Rightarrow> planned_clip \<Rightarrow> bool" where
  "meets p x y \<longleftrightarrow> pl_start y = pl_end x
     \<and> ex_frames (pl_trail x) = (if overlaps x then after_of p x else 0)
     \<and> ex_frames (pl_lead y) = (if overlaps x then before_of p x else 0)"

fun joined :: "output_profile \<Rightarrow> planned_clip list \<Rightarrow> bool" where
  "joined p [] = True"
| "joined p [x] = (ex_frames (pl_trail x) = 0)"
| "joined p (x # y # zs) = (meets p x y \<and> joined p (y # zs))"

lemma joined_nth: "joined p xs \<Longrightarrow> Suc i < length xs \<Longrightarrow> meets p (xs ! i) (xs ! Suc i)"
  by (induction p xs arbitrary: i rule: joined.induct) (auto simp: nth_Cons split: nat.splits)

lemma joined_last: "joined p xs \<Longrightarrow> xs \<noteq> [] \<Longrightarrow> ex_frames (pl_trail (last xs)) = 0"
  by (induction p xs rule: joined.induct) auto

lemma joined_split:
  assumes "joined p (us @ x # vs)" "\<not> overlaps x \<or> vs = []"
  shows "joined p (us @ [x])" "joined p vs" "vs \<noteq> [] \<Longrightarrow> ex_frames (pl_lead (hd vs)) = 0"
proof -
  have "joined p (us @ [x]) \<and> joined p vs \<and> (vs \<noteq> [] \<longrightarrow> ex_frames (pl_lead (hd vs)) = 0)"
    using assms(1)
  proof (induction us rule: induct_list012)
    case 1
    then show ?case using assms(2) by (cases vs) (auto simp: meets_def)
  next
    case (2 u)
    then show ?case using assms(2) by (cases vs) (auto simp: meets_def)
  next
    case (3 u v us)
    then show ?case by simp
  qed
  then show "joined p (us @ [x])" "joined p vs" "vs \<noteq> [] \<Longrightarrow> ex_frames (pl_lead (hd vs)) = 0" by auto
qed

lemma join_all_hd: "xs \<noteq> [] \<Longrightarrow> join_all p xs \<noteq> [] \<and> place_of (hd (join_all p xs)) = place_of (hd xs) \<and> pl_lead (hd (join_all p xs)) = pl_lead (hd xs)"
  by (induction p xs rule: join_all.induct) (auto simp: split_beta Let_def join_clips_extensions)

lemma join_all_joined:
  assumes "\<forall>x \<in> set xs. ex_frames (pl_trail x) = 0" "\<forall>x \<in> set (tl xs). ex_frames (pl_lead x) = 0" "tiles a xs b"
  shows "joined p (join_all p xs)"
  using assms
proof (induction p xs arbitrary: a rule: join_all.induct)
  case (1 p x y zs)
  obtain x' y' where xy: "join_clips p x y = (x', y')" by fastforce
  note place = join_clips_place [of p x y, unfolded xy, simplified]
  note ext = join_clips_extensions [of p x y, unfolded xy, simplified]
  have "tiles (pl_end x) (y' # zs) b" using 1(4) by (simp add: place_of_simps [OF place(2)])
  then have rest: "joined p (join_all p (y' # zs))"
    using 1(2,3) ext(2) by (intro "1.IH" [OF xy [symmetric] refl]) auto
  obtain h t where h: "join_all p (y' # zs) = h # t" "place_of h = place_of y" "pl_lead h = pl_lead y'"
    using join_all_hd [of "y' # zs" p] place(2) by (cases "join_all p (y' # zs)") auto
  have "meets p x' h"
    using 1(2-4) ext h(3) by (simp add: meets_def place_of_simps [OF place(1)] place_of_simps [OF h(2)])
  then show ?case using rest by (simp add: xy h(1))
qed simp_all

section \<open>Segments\<close>

definition segment_ok :: "output_profile \<Rightarrow> render_segment \<Rightarrow> bool" where
  "segment_ok p sg \<longleftrightarrow> sg_clips sg \<noteq> [] \<and> joined p (sg_clips sg) \<and> ex_frames (pl_lead (hd (sg_clips sg))) = 0
     \<and> list_all overlaps (butlast (sg_clips sg))
     \<and> sg_crossfades sg = map (crossfade_of p (sg_start sg)) (butlast (sg_clips sg))"

lemma split_segments_ok:
  assumes "joined p (current @ xs)" "current @ xs \<noteq> [] \<Longrightarrow> ex_frames (pl_lead (hd (current @ xs))) = 0"
    and "list_all overlaps current" "fades = map (crossfade_of p (pl_start (hd current))) current"
  shows "list_all (segment_ok p) (split_segments p current fades xs)"
  using assms
proof (induction p current fades xs rule: split_segments.induct)
  case (2 p current fades x xs)
  have hd: "ex_frames (pl_lead (hd (current @ [x]))) = 0" using "2.prems"(2) by (cases current) auto
  show ?case
  proof (cases "overlaps x \<and> xs \<noteq> []")
    case True
    have "fades @ [crossfade_of p (pl_start (hd (current @ [x]))) x] =
        map (crossfade_of p (pl_start (hd (current @ [x])))) (current @ [x])"
      using "2.prems"(4) by (cases current) simp_all
    then have "list_all (segment_ok p) (split_segments p (current @ [x])
        (fades @ [crossfade_of p (pl_start (hd (current @ [x]))) x]) xs)"
      using "2.prems" True hd by (intro "2.IH"(1) [OF refl True]) (auto simp: hd_append)
    then show ?thesis using True by (simp add: Let_def)
  next
    case False
    then have cut: "\<not> overlaps x \<or> xs = []" by blast
    have "joined p (current @ x # xs)" using "2.prems"(1) by simp
    note parts = joined_split [OF this cut]
    have "list_all (segment_ok p) (split_segments p [] [] xs)"
      using parts by (intro "2.IH"(2) [OF refl False]) auto
    moreover have "segment_ok p \<lparr>sg_clips = current @ [x], sg_crossfades = fades\<rparr>"
      using "2.prems"(3,4) parts(1) hd by (cases current) (auto simp: segment_ok_def sg_start_def)
    ultimately show ?thesis using cut by (auto simp: Let_def)
  qed
qed simp

lemma lay_out_plain:
  "x \<in> set (fst (lay_out p a cs)) \<Longrightarrow> pl_lead x = no_extension \<and> pl_trail x = no_extension \<and> pl_fade_in x = None \<and> pl_fade_out x = None"
  by (induction p a cs rule: lay_out.induct) (auto simp: Let_def split_beta split: if_splits)

lemma set_tl_subset: "set (tl xs) \<subseteq> set xs"
  by (cases xs) auto

lemma plan_segments_ok:
  assumes "0 \<le> op_fps p" "\<forall>c \<in> set cs. clip_ok c" "sg \<in> set (rp_segments (plan_render cs p))"
  shows "segment_ok p sg"
proof -
  let ?xs = "fst (lay_out p 0 cs)"
  have plain: "ex_frames (pl_trail x) = 0" "ex_frames (pl_lead x) = 0" if "x \<in> set ?xs" for x using lay_out_plain [OF that] by simp_all
  have "joined p (join_all p ?xs)"
    by (rule join_all_joined [OF _ _ lay_out_rows(3) [OF assms(1,2)]]) (auto simp: plain dest: subsetD [OF set_tl_subset])
  moreover have "ex_frames (pl_lead (hd (join_all p ?xs))) = 0" if "join_all p ?xs \<noteq> []"
  proof -
    have "?xs \<noteq> []" using that by auto
    then show ?thesis using join_all_hd [of ?xs p] plain(2) [of "hd ?xs"] by simp
  qed
  ultimately have "list_all (segment_ok p) (split_segments p [] [] (join_all p ?xs))"
    by (intro split_segments_ok) simp_all
  then show ?thesis using assms(3) by (auto simp: plan_render_def split_beta list_all_iff)
qed

end
