(* ===== verification/RenderProps.thy ===== *)
theory RenderProps
  imports RenderPlan
begin

text \<open>
  Properties of the render plan, each with an instance on three clips: the first ends with a hard
  cut, the second, a tenth of a second long, dissolves into the third.
\<close>

section \<open>Lemmas\<close>

text \<open>The stream of the first clips of a segment, after their crossfades, ends where the last of them does\<close>

lemma stream_length:
  assumes "joined p xs" "list_all overlaps (butlast xs)" "k < length xs"
  shows "sum_list (map pl_stream (take (Suc k) xs)) - sum_list (map (\<lambda>x. before_of p x + after_of p x) (take k xs))
      = ex_frames (pl_lead (hd xs)) + (pl_end (xs ! k) - pl_start (hd xs)) + ex_frames (pl_trail (xs ! k))"
  using assms(3)
proof (induction k)
  case 0
  then have "take (Suc 0) xs = [hd xs]" "xs ! 0 = hd xs" by (cases xs; simp)+
  then show ?case by (simp add: pl_stream_def pl_end_def)
next
  case (Suc k)
  have meet: "meets p (xs ! k) (xs ! Suc k)" using assms(1) Suc.prems by (rule joined_nth)
  have "butlast xs ! k \<in> set (butlast xs)" using Suc.prems by (intro nth_mem) simp
  then have "overlaps (xs ! k)" using assms(2) Suc.prems by (simp add: list_all_iff nth_butlast)
  moreover have "take (Suc (Suc k)) xs = take (Suc k) xs @ [xs ! Suc k]" "take (Suc k) xs = take k xs @ [xs ! k]"
    using Suc.prems by (simp_all add: take_Suc_conv_app_nth)
  ultimately show ?case
    using Suc.IH Suc.prems meet by (simp add: meets_def pl_stream_def pl_end_def)
qed

lemma frames_of_run:
  "joined p xs \<Longrightarrow> xs \<noteq> [] \<Longrightarrow> sum_list (map pl_frames xs) = pl_end (last xs) - pl_start (hd xs)"
  by (induction p xs rule: joined.induct) (auto simp: meets_def pl_end_def)

lemma borrow_frames_bounds:
  assumes "0 \<le> n" "0 \<le> f"
  shows "0 \<le> ex_source (borrow_frames n a f)" "0 \<le> ex_freeze (borrow_frames n a f)"
    "ex_source (borrow_frames n a f) * 1000000 \<le> max a 0 * f"
proof -
  have pos: "0 \<le> max a 0 * f" using assms(2) by simp
  then have "0 \<le> max a 0 * f div 1000000" by (simp add: pos_imp_zdiv_nonneg_iff)
  then show "0 \<le> ex_source (borrow_frames n a f)" "0 \<le> ex_freeze (borrow_frames n a f)"
    using assms(1) by (simp_all add: borrow_frames_def Let_def)
  have "min n (max a 0 * f div 1000000) * 1000000 \<le> max a 0 * f div 1000000 * 1000000" by simp
  also have "\<dots> \<le> max a 0 * f" using div_mult_mod_eq [of "max a 0 * f" 1000000] pos_mod_sign [of 1000000 "max a 0 * f"] by linarith
  finally show "ex_source (borrow_frames n a f) * 1000000 \<le> max a 0 * f" by (simp add: borrow_frames_def Let_def)
qed

text \<open>What a clip borrows is in its source, and its fades are no longer than the clip\<close>

definition extension_ok :: "int \<Rightarrow> int \<Rightarrow> extension \<Rightarrow> bool" where
  "extension_ok fps spare_us e \<longleftrightarrow> 0 \<le> ex_source e \<and> 0 \<le> ex_freeze e \<and> ex_source e * 1000000 \<le> spare_us * fps"

definition fade_ok :: "planned_clip \<Rightarrow> fade option \<Rightarrow> bool" where
  "fade_ok x f \<longleftrightarrow> pred_option (\<lambda>f. 0 \<le> fd_frames f \<and> fd_frames f \<le> pl_frames x) f"

definition planned_ok :: "output_profile \<Rightarrow> planned_clip \<Rightarrow> bool" where
  "planned_ok p x \<longleftrightarrow> clip_ok (pl_clip x) \<and> 0 \<le> pl_frames x
     \<and> extension_ok (op_fps p) (rc_source_in_us (pl_clip x)) (pl_lead x)
     \<and> extension_ok (op_fps p) (rc_media_duration_us (pl_clip x) - rc_source_out_us (pl_clip x)) (pl_trail x)
     \<and> fade_ok x (pl_fade_in x) \<and> fade_ok x (pl_fade_out x)"

lemma join_clips_ok:
  assumes "planned_ok p x" "planned_ok p y" "0 \<le> op_fps p"
  shows "planned_ok p (fst (join_clips p x y)) \<and> planned_ok p (snd (join_clips p x y))"
proof (cases "rc_transition (pl_clip x)")
  case (Some t)
  note win = window_frames_nonneg [of p t]
  let ?spare = "rc_media_duration_us (pl_clip x) - rc_source_out_us (pl_clip x)"
  let ?tail = "if pl_hold x \<noteq> 0 then 0 else ?spare"
  have spare: "0 \<le> ?spare" "0 \<le> rc_source_in_us (pl_clip y)" using assms(1,2) by (auto simp: planned_ok_def clip_ok_def)
  have "max ?tail 0 * op_fps p \<le> ?spare * op_fps p" using spare assms(3) by (intro mult_right_mono) auto
  then have "extension_ok (op_fps p) ?spare (borrow_frames (snd (window_frames p t)) ?tail (op_fps p))"
    using borrow_frames_bounds [OF win(2) assms(3), of ?tail] unfolding extension_ok_def by linarith
  moreover have "extension_ok (op_fps p) (rc_source_in_us (pl_clip y))
      (borrow_frames (fst (window_frames p t)) (rc_source_in_us (pl_clip y)) (op_fps p))"
    using borrow_frames_bounds [OF win(1) assms(3), of "rc_source_in_us (pl_clip y)"] spare(2) unfolding extension_ok_def by simp
  ultimately show ?thesis
    using assms(1,2) win
    by (cases "fade_color (transition_preset (tr_type t))")
      (auto simp: join_clips_def Some Let_def split_beta planned_ok_def fade_ok_def pl_frames_def)
qed (use assms in \<open>simp add: join_clips_def\<close>)

lemma join_all_ok:
  assumes "list_all (planned_ok p) xs" "0 \<le> op_fps p"
  shows "list_all (planned_ok p) (join_all p xs)"
  using assms
proof (induction p xs rule: join_all.induct)
  case (1 p x y zs)
  obtain x' y' where xy: "join_clips p x y = (x', y')" by fastforce
  have "planned_ok p x' \<and> planned_ok p y'" using join_clips_ok [of p x y] 1(2,3) by (simp add: xy)
  then show ?case using "1.IH" [OF xy [symmetric] refl] 1(2,3) by (simp add: xy)
qed simp_all

lemma plain_planned_ok:
  assumes "clip_ok c" "0 \<le> op_fps p" "i \<le> j"
  shows "planned_ok p \<lparr>pl_clip = c, pl_start = i, pl_source = m - i, pl_hold = j - m,
    pl_lead = no_extension, pl_trail = no_extension, pl_fade_in = None, pl_fade_out = None\<rparr>"
  using assms by (simp add: planned_ok_def extension_ok_def fade_ok_def pl_frames_def clip_ok_def)

lemma lay_out_ok:
  assumes "\<forall>c \<in> set cs. clip_ok c" "0 \<le> op_fps p"
  shows "list_all (planned_ok p) (fst (lay_out p a cs))"
  using assms
proof (induction p a cs rule: lay_out.induct)
  case (2 p a c cs)
  have "list_all (planned_ok p) (fst (lay_out p (a + (rc_source_duration_us c + rc_hold_us c)) cs))"
    using "2.prems" by (intro "2.IH" [OF refl refl refl refl]) simp_all
  then show ?case using "2.prems" plain_planned_ok [of c p "frame_at p a"] by (simp add: Let_def split_beta)
qed simp

section \<open>Three clips\<close>

definition demo_profile :: output_profile where
  "demo_profile = \<lparr>op_width = 1080, op_height = 1920, op_fps = 30\<rparr>"

definition demo_render_clip :: "int \<Rightarrow> transition option \<Rightarrow> render_clip" where
  "demo_render_clip d t = \<lparr>rc_clip_id = ''c'', rc_unit_id = ''U'', rc_video_path = ''v'', rc_source_in_us = 40000,
     rc_source_duration_us = d, rc_hold_us = 0, rc_source_volume = 1, rc_has_audio = True, rc_transition = t,
     rc_media_duration_us = 5000000\<rparr>"

definition demo_render_clips :: "render_clip list" where
  "demo_render_clips = [demo_render_clip 250000 None,
     demo_render_clip 100000 (Some \<lparr>tr_type = DISSOLVE, tr_duration_us = 200000\<rparr>), demo_render_clip 1000000 None]"

lemma demo_clips_ok: "\<forall>c \<in> set demo_render_clips. clip_ok c" "0 \<le> op_fps demo_profile"
  by (simp_all add: demo_render_clips_def demo_render_clip_def clip_ok_def rc_source_out_us_def demo_profile_def)

lemma demo_frames [simp]:
  "frame_at demo_profile 250000 = 8" "frame_at demo_profile 350000 = 10" "frame_at demo_profile 1350000 = 40"
  "frame_at demo_profile 200000 = 6"
  using floor_divide_of_int_eq [of 15 2, where 'a = rat] floor_divide_of_int_eq [of 21 2, where 'a = rat]
    floor_divide_of_int_eq [of 81 2, where 'a = rat]
  by (simp_all add: frame_at_def demo_profile_def py_round_def Let_def)

lemma demo_plan:
  "map sg_clips (rp_segments (plan_render demo_render_clips demo_profile)) = [take 1 (rp_clips (plan_render demo_render_clips demo_profile)),
     drop 1 (rp_clips (plan_render demo_render_clips demo_profile))]"
  "map sg_crossfades (rp_segments (plan_render demo_render_clips demo_profile)) = [[], [\<lparr>cf_effect = ''fade'', cf_offset = - 1, cf_frames = 6\<rparr>]]"
  "rp_total (plan_render demo_render_clips demo_profile) = 40"
  "rp_clips (plan_render demo_render_clips demo_profile) \<noteq> []"
  by (simp_all add: plan_render_def demo_render_clips_def demo_render_clip_def rp_clips_def join_clips_def overlaps_def overlaps_preset_def
      crossfade_of_def window_frames_def pl_end_def pl_frames_def Let_def)

lemma window_bound:
  fixes f t c n :: rat
  assumes "\<bar>f - t\<bar> \<le> 1 / 2" "t \<le> 2 * c" "c - 1 \<le> n"
  shows "f \<le> 2 * (n + 1) + 1 / 2"
proof -
  have "f - t \<le> 1 / 2" using assms(1) by (rule abs_le_D1)
  then have "f \<le> t + 1 / 2" by (simp add: algebra_simps)
  also have "\<dots> \<le> 2 * c + 1 / 2" using assms(2) by simp
  also have "\<dots> \<le> 2 * (n + 1) + 1 / 2" using assms(3) by simp
  finally show ?thesis .
qed

text \<open>Positions in a run of clips, and the frames of one clip against its length\<close>

lemma run_starts:
  assumes "joined p xs" "list_all (\<lambda>x. 0 \<le> pl_frames x) xs" "k < length xs"
  shows "pl_start (hd xs) \<le> pl_start (xs ! k)"
  using assms(3)
proof (induction k)
  case (Suc k)
  have "0 \<le> pl_frames (xs ! k)" using assms(2) Suc.prems by (simp add: list_all_length)
  then show ?case using Suc joined_nth [OF assms(1) Suc.prems] by (simp add: meets_def pl_end_def)
qed (use assms(3) in \<open>simp add: hd_conv_nth\<close>)

lemma frames_lower:
  assumes "\<forall>c \<in> set cs. clip_ok c" "0 \<le> op_fps p" "x \<in> set (rp_clips (plan_render cs p))"
  shows "of_int (clip_us (pl_clip x) * op_fps p) / 1000000 - 1 \<le> (of_int (pl_frames x) :: rat)"
proof -
  have "map (\<lambda>x. (pl_clip x, pl_start x, pl_end x)) (rp_clips (plan_render cs p)) =
      map (\<lambda>x. (pl_clip x, pl_start x, pl_end x)) (fst (lay_out p 0 cs))"
    unfolding rp_clips_plan by (rule same_place(1) [OF join_all_place])
  note rows = this [unfolded lay_out_rows(1) [OF assms(2,1)]]
  have "(pl_clip x, pl_start x, pl_end x) \<in> set (map (\<lambda>x. (pl_clip x, pl_start x, pl_end x)) (rp_clips (plan_render cs p)))"
    using assms(3) by force
  then obtain k where k: "k < length cs" "pl_clip x = cs ! k"
      "pl_start x = frame_at p (sum_list (map clip_us (take k cs)))"
      "pl_end x = frame_at p (sum_list (map clip_us (take (Suc k) cs)))"
    unfolding rows by auto
  let ?s = "sum_list (map clip_us (take k cs))"
  have stop: "pl_end x = frame_at p (?s + clip_us (pl_clip x))" using k by (simp add: take_Suc_conv_app_nth)
  let ?S = "of_int (?s * op_fps p) / 1000000 :: rat" and ?C = "of_int (clip_us (pl_clip x) * op_fps p) / 1000000 :: rat"
  have sum: "of_int ((?s + clip_us (pl_clip x)) * op_fps p) / 1000000 = ?S + ?C"
    by (simp add: algebra_simps add_divide_distrib)
  have "\<bar>of_int (pl_start x) - ?S\<bar> \<le> 1 / 2" unfolding k(3) by (rule frame_at_error)
  moreover have "\<bar>of_int (pl_end x) - (?S + ?C)\<bar> \<le> 1 / 2" unfolding stop sum [symmetric] by (rule frame_at_error)
  moreover have "(of_int (pl_end x) :: rat) = of_int (pl_start x) + of_int (pl_frames x)" by (simp add: pl_end_def)
  ultimately show ?thesis unfolding abs_le_iff by linarith
qed

section \<open>Properties\<close>

text \<open>
  Property C37: the plan covers the timeline.  The clips that enter it are those at least a frame long
  on the grid, each from the frame of its start to the frame of its end in the timeline; they follow
  each other without gap or overlap from frame 0 to the last frame, and the number of frames differs
  from the exact length of the timeline by at most half a frame.
\<close>

theorem plan_covers_timeline:
  assumes "\<forall>c \<in> set cs. clip_ok c" "0 \<le> op_fps p"
  shows "let r = plan_render cs p; cut = (\<lambda>k. frame_at p (sum_list (map clip_us (take k cs)))) in
    map (\<lambda>x. (pl_clip x, pl_start x, pl_end x)) (rp_clips r) =
      filter (\<lambda>(_, i, j). i < j) (map (\<lambda>k. (cs ! k, cut k, cut (Suc k))) [0..<length cs])
    \<and> tiles 0 (rp_clips r) (rp_total r)
    \<and> \<bar>of_int (rp_total r) - of_int (sum_list (map clip_us cs) * op_fps p) / 1000000\<bar> \<le> (1 / 2 :: rat)"
proof -
  note rows = lay_out_rows [OF assms(2,1), of 0]
  note place = join_all_place [of p "fst (lay_out p 0 cs)"]
  have total: "rp_total (plan_render cs p) = frame_at p (sum_list (map clip_us cs))"
    using rows(2) by (simp add: plan_render_def split_beta)
  have "tiles 0 (rp_clips (plan_render cs p)) (rp_total (plan_render cs p))"
    using rows(2,3) same_place(2) [OF place] by (simp add: rp_clips_plan total)
  moreover have "map (\<lambda>x. (pl_clip x, pl_start x, pl_end x)) (rp_clips (plan_render cs p)) =
      filter (\<lambda>(_, i, j). i < j) (map (\<lambda>k. (cs ! k, frame_at p (sum_list (map clip_us (take k cs))),
        frame_at p (sum_list (map clip_us (take (Suc k) cs))))) [0..<length cs])"
    using rows(1) same_place(1) [OF place] by (simp add: rp_clips_plan)
  ultimately show ?thesis unfolding Let_def using frame_at_error [of p "sum_list (map clip_us cs)"] by (simp only: total)
qed

theorem plan_covers_timeline_witness:
  "tiles 0 (rp_clips (plan_render demo_render_clips demo_profile)) 40"
  using plan_covers_timeline [OF demo_clips_ok] by (simp add: Let_def demo_plan)

text \<open>
  Every segment renders exactly its frames.  It has one crossfade less than clips, each
  crossfade ends where the stream joined so far ends, and what the clips of the segment render,
  without the frames the crossfades lay on top of each other, is as long as the segment.
\<close>

theorem segments_render_exactly:
  assumes "\<forall>c \<in> set cs. clip_ok c" "0 \<le> op_fps p" "sg \<in> set (rp_segments (plan_render cs p))"
  shows "length (sg_crossfades sg) + 1 = length (sg_clips sg)
    \<and> (\<forall>k < length (sg_crossfades sg). cf_offset (sg_crossfades sg ! k) + cf_frames (sg_crossfades sg ! k) =
        sum_list (map pl_stream (take (Suc k) (sg_clips sg))) - sum_list (map cf_frames (take k (sg_crossfades sg))))
    \<and> sum_list (map pl_stream (sg_clips sg)) - sum_list (map cf_frames (sg_crossfades sg)) = sg_frames sg"
proof -
  let ?xs = "sg_clips sg" and ?fs = "sg_crossfades sg"
  have ok: "?xs \<noteq> []" "joined p ?xs" "ex_frames (pl_lead (hd ?xs)) = 0" "list_all overlaps (butlast ?xs)"
    and fades: "?fs = map (crossfade_of p (sg_start sg)) (butlast ?xs)"
    using plan_segments_ok [OF assms(2,1,3)] by (auto simp: segment_ok_def)
  have len: "length ?fs + 1 = length ?xs" using ok(1) by (simp add: fades)
  have sums: "sum_list (map cf_frames (take k ?fs)) = sum_list (map (\<lambda>x. before_of p x + after_of p x) (take k ?xs))"
    if "k < length ?xs" for k
    using that by (simp add: fades take_map take_butlast crossfade_of_simps o_def)
  have each: "cf_offset (?fs ! k) + cf_frames (?fs ! k) =
      sum_list (map pl_stream (take (Suc k) ?xs)) - sum_list (map cf_frames (take k ?fs))" if k: "k < length ?fs" for k
  proof -
    have x: "?fs ! k = crossfade_of p (sg_start sg) (?xs ! k)" using k by (simp add: fades nth_butlast)
    have "butlast ?xs ! k \<in> set (butlast ?xs)" using k by (intro nth_mem) (simp add: fades)
    then have over: "overlaps (?xs ! k)" using ok(4) k by (simp add: list_all_iff nth_butlast fades)
    have "meets p (?xs ! k) (?xs ! Suc k)" using k len by (intro joined_nth [OF ok(2)]) simp
    then have "ex_frames (pl_trail (?xs ! k)) = after_of p (?xs ! k)" using over by (simp add: meets_def)
    moreover have "k < length ?xs" using k len by simp
    ultimately show ?thesis
      using stream_length [OF ok(2,4), of k] sums [of k] overlaps_Some [OF over]
      by (auto simp: x crossfade_of_simps sg_start_def ok(3))
  qed
  have "take (length ?fs) ?fs = ?fs" "take (Suc (length ?fs)) ?xs = ?xs" "?xs ! length ?fs = last ?xs"
    using len ok(1) by (simp_all add: last_conv_nth flip: len)
  then have "sum_list (map pl_stream ?xs) - sum_list (map cf_frames ?fs) = sg_frames sg"
    using stream_length [OF ok(2,4), of "length ?fs"] sums [of "length ?fs"] len joined_last [OF ok(2,1)]
    by (simp add: ok(3) sg_frames_def frames_of_run [OF ok(2,1)])
  then show ?thesis using len each by blast
qed

theorem segments_render_exactly_witness:
  "map (\<lambda>sg. sum_list (map pl_stream (sg_clips sg)) - sum_list (map cf_frames (sg_crossfades sg)))
      (rp_segments (plan_render demo_render_clips demo_profile))
    = map sg_frames (rp_segments (plan_render demo_render_clips demo_profile))"
  using segments_render_exactly [OF demo_clips_ok] by (intro map_cong refl) blast

text \<open>
  A planned clip never takes material it does not have.  The source it borrows before its
  in point and after its out point lies in its video, and its fades are no longer than itself.
\<close>

theorem borrowed_frames_exist:
  assumes "\<forall>c \<in> set cs. clip_ok c" "0 \<le> op_fps p" "x \<in> set (rp_clips (plan_render cs p))"
  shows "extension_ok (op_fps p) (rc_source_in_us (pl_clip x)) (pl_lead x)
    \<and> extension_ok (op_fps p) (rc_media_duration_us (pl_clip x) - rc_source_out_us (pl_clip x)) (pl_trail x)
    \<and> fade_ok x (pl_fade_in x) \<and> fade_ok x (pl_fade_out x)"
  using join_all_ok [OF lay_out_ok [OF assms(1,2)] assms(2), of 0] assms(3)
  by (auto simp: rp_clips_plan list_all_iff planned_ok_def)

theorem borrowed_frames_exist_witness:
  "let x = hd (rp_clips (plan_render demo_render_clips demo_profile)) in
     extension_ok 30 (rc_source_in_us (pl_clip x)) (pl_lead x) \<and> fade_ok x (pl_fade_in x)"
proof -
  let ?xs = "rp_clips (plan_render demo_render_clips demo_profile)"
  have x: "hd ?xs \<in> set ?xs" by (rule hd_in_set [OF demo_plan(4)])
  have "op_fps demo_profile = 30" by (simp add: demo_profile_def)
  then show ?thesis using borrowed_frames_exist [OF demo_clips_ok x] unfolding Let_def by argo
qed

text \<open>
  The crossfade of a transition whose half window fits its clip starts at most one frame
  before the segment.  Rounding both ends of a clip and the window separately can cost that frame: the
  check of the editor compares microseconds.
\<close>

theorem crossfade_starts_in_segment:
  assumes "\<forall>c \<in> set cs. clip_ok c" "0 \<le> op_fps p" "sg \<in> set (rp_segments (plan_render cs p))"
    and "k < length (sg_crossfades sg)"
    and "\<And>t. rc_transition (pl_clip (sg_clips sg ! k)) = Some t \<Longrightarrow> tr_duration_us t \<le> 2 * clip_us (pl_clip (sg_clips sg ! k))"
  shows "- 1 \<le> cf_offset (sg_crossfades sg ! k)"
proof -
  let ?xs = "sg_clips sg" and ?x = "sg_clips sg ! k"
  note ok = plan_segments_ok [OF assms(2,1,3), unfolded segment_ok_def]
  have fades: "sg_crossfades sg = map (crossfade_of p (sg_start sg)) (butlast ?xs)" and run: "joined p ?xs" using ok by simp_all
  have k: "k < length (butlast ?xs)" "k < length ?xs" using assms(4) by (simp_all add: fades)
  have "butlast ?xs ! k \<in> set (butlast ?xs)" using k(1) by (rule nth_mem)
  then have "overlaps ?x" using ok k(1) by (simp add: list_all_iff nth_butlast)
  then obtain t where t: "rc_transition (pl_clip ?x) = Some t" by (blast dest: overlaps_Some)
  have in_plan: "y \<in> set (rp_clips (plan_render cs p))" if "y \<in> set ?xs" for y
    using that assms(3) by (auto simp: rp_clips_def)
  have "0 \<le> pl_frames y" if "y \<in> set ?xs" for y
    using in_plan [OF that] join_all_ok [OF lay_out_ok [OF assms(1,2)] assms(2), of 0]
    by (simp add: rp_clips_plan list_all_iff planned_ok_def)
  then have "sg_start sg \<le> pl_start ?x" unfolding sg_start_def using k(2) by (intro run_starts [OF run]) (simp_all add: list_all_iff)
  moreover have "cf_offset (sg_crossfades sg ! k) = pl_end ?x - fst (window_frames p t) - sg_start sg"
    using k(1) t by (simp add: fades nth_butlast crossfade_of_simps before_of_def)
  moreover have "fst (window_frames p t) \<le> pl_frames ?x + 1"
  proof -
    let ?T = "of_int (tr_duration_us t * op_fps p) / 1000000 :: rat"
      and ?C = "of_int (clip_us (pl_clip ?x) * op_fps p) / 1000000 :: rat"
    have "tr_duration_us t * op_fps p \<le> 2 * clip_us (pl_clip ?x) * op_fps p"
      using assms(5) [OF t] assms(2) by (rule mult_right_mono)
    then have "of_int (tr_duration_us t * op_fps p) \<le> (of_int (2 * clip_us (pl_clip ?x) * op_fps p) :: rat)"
      by (simp only: of_int_le_iff)
    then have "?T \<le> of_int (2 * clip_us (pl_clip ?x) * op_fps p) / 1000000" by (rule divide_right_mono) simp
    also have "\<dots> = 2 * ?C" by simp
    finally have "?T \<le> 2 * ?C" .
    moreover have "?C - 1 \<le> of_int (pl_frames ?x)" by (rule frames_lower [OF assms(1,2) in_plan [OF nth_mem [OF k(2)]]])
    ultimately have "of_int (frame_at p (tr_duration_us t)) \<le> 2 * (of_int (pl_frames ?x) + 1) + (1 / 2 :: rat)"
      by (rule window_bound [OF frame_at_error])
    then have "of_int (2 * frame_at p (tr_duration_us t)) \<le> (of_int (4 * pl_frames ?x + 5) :: rat)" by simp
    then have "2 * frame_at p (tr_duration_us t) \<le> 4 * pl_frames ?x + 5" by (simp only: of_int_le_iff)
    moreover have "0 \<le> pl_frames ?x" using \<open>\<And>y. y \<in> set ?xs \<Longrightarrow> 0 \<le> pl_frames y\<close> nth_mem [OF k(2)] by simp
    ultimately show ?thesis by (auto simp: window_frames_def Let_def)
  qed
  ultimately show ?thesis by (simp add: pl_end_def)
qed

theorem crossfade_starts_in_segment_witness:
  "let sg = rp_segments (plan_render demo_render_clips demo_profile) ! 1 in
     cf_offset (sg_crossfades sg ! 0) = - 1 \<and> - 1 \<le> cf_offset (sg_crossfades sg ! 0)"
proof -
  let ?r = "plan_render demo_render_clips demo_profile"
  let ?sg = "rp_segments ?r ! 1"
  have len: "length (rp_segments ?r) = 2" using arg_cong [OF demo_plan(2), of length] by simp
  then have sg: "?sg \<in> set (rp_segments ?r)" by simp
  have "map sg_crossfades (rp_segments ?r) ! 1 = [\<lparr>cf_effect = ''fade'', cf_offset = - 1, cf_frames = 6\<rparr>]"
    unfolding demo_plan(2) by simp
  then have fades: "sg_crossfades ?sg = [\<lparr>cf_effect = ''fade'', cf_offset = - 1, cf_frames = 6\<rparr>]" using len by simp
  have "- 1 \<le> cf_offset (sg_crossfades ?sg ! 0)"
  proof (rule crossfade_starts_in_segment [OF demo_clips_ok sg])
    show "0 < length (sg_crossfades ?sg)" unfolding fades by simp
    fix t
    assume "rc_transition (pl_clip (sg_clips ?sg ! 0)) = Some t"
    moreover have "pl_clip (sg_clips ?sg ! 0) = demo_render_clips ! 1"
      by (simp add: plan_render_def demo_render_clips_def demo_render_clip_def join_clips_def overlaps_def overlaps_preset_def
          window_frames_def Let_def)
    ultimately show "tr_duration_us t \<le> 2 * clip_us (pl_clip (sg_clips ?sg ! 0))"
      by (auto simp: demo_render_clips_def demo_render_clip_def clip_us_def)
  qed
  then show ?thesis unfolding Let_def fades by simp
qed

end
