(* ===== verification/Placement.thy ===== *)
theory Placement
  imports TimelineReadout RenderPlan "HOL-Library.Multiset"
begin

text \<open>
  The placement of a revision on the tracks of a draft (\<open>lib/jianying_draft/placement.py\<close>), which the
  final cut shares: clips, narrations, subtitles and BGM on one timeline, and the division of
  overlapping items into tracks.  Narrations and subtitles extend one record of timed items, as the
  code's functions are generic in them.  The gain of a BGM, \<open>10 ** (gain_db / 20)\<close>, is a field.
\<close>

section \<open>Material\<close>

record timed =
  tm_start_us :: int
  tm_duration_us :: int

definition tm_end_us :: "'a timed_scheme \<Rightarrow> int" where
  "tm_end_us x = tm_start_us x + tm_duration_us x"

record unit_cue = timed +
  uc_text :: string

record unit_material =
  mt_unit_id :: string
  mt_video_path :: string
  mt_video_version :: int
  mt_video_duration_us :: int
  mt_source_gain :: rat
  mt_subtitles :: "unit_cue list"
  mt_narration_path :: "string option"
  mt_narration_duration_us :: "int option"

definition subtitles_follow_narration :: "unit_material \<Rightarrow> bool" where
  "subtitles_follow_narration u = (mt_narration_path u \<noteq> None)"

record bgm_source =
  bs_path :: string
  bs_gain :: rat

section \<open>Placed items\<close>

record draft_clip =
  dc_clip_id :: string
  dc_unit_id :: string
  dc_video_path :: string
  dc_start_us :: int
  dc_source_in_us :: int
  dc_source_duration_us :: int
  dc_volume :: rat
  dc_hold_us :: int
  dc_transition :: "transition option"

definition dc_source_out_us :: "draft_clip \<Rightarrow> int" where
  "dc_source_out_us c = dc_source_in_us c + dc_source_duration_us c"

definition dc_hold_start_us :: "draft_clip \<Rightarrow> int" where
  "dc_hold_start_us c = dc_start_us c + dc_source_duration_us c"

record placed_narration = timed +
  pn_clip_id :: string
  pn_audio_path :: string

record placed_subtitle = timed +
  ps_text :: string

record placed_bgm_audio =
  ba_clip_id :: string
  ba_audio_path :: string
  ba_start_us :: int
  ba_source_in_us :: int
  ba_duration_us :: int
  ba_volume :: rat
  ba_fade_in_us :: int
  ba_fade_out_us :: int

record draft_placement =
  dp_duration_us :: int
  dp_clips :: "draft_clip list"
  dp_narrations :: "placed_narration list"
  dp_subtitles :: "placed_subtitle list"
  dp_bgm :: "placed_bgm_audio list"

section \<open>Placing\<close>

definition source_window :: "edit_clip \<Rightarrow> unit_material \<Rightarrow> int \<times> int" where
  "source_window c u = effective_source_range_us c (Some (mt_video_version u)) (mt_video_duration_us u)"

definition clip_subtitles :: "draft_clip \<Rightarrow> unit_material \<Rightarrow> bool \<Rightarrow> placed_subtitle list" where
  "clip_subtitles c u carried =
     (if subtitles_follow_narration u
      then if \<not> carried then []
           else map (\<lambda>q. \<lparr>tm_start_us = dc_start_us c + tm_start_us q, tm_duration_us = tm_duration_us q,
                         ps_text = uc_text q\<rparr>) (mt_subtitles u)
      else List.map_filter (\<lambda>q.
             let start = max (tm_start_us q) (dc_source_in_us c); stop = min (tm_end_us q) (dc_source_out_us c)
             in if start < stop
                then Some \<lparr>tm_start_us = dc_start_us c + start - dc_source_in_us c, tm_duration_us = stop - start,
                           ps_text = uc_text q\<rparr>
                else None) (mt_subtitles u))"

definition within_timeline :: "'a timed_scheme list \<Rightarrow> int \<Rightarrow> 'a timed_scheme list" where
  "within_timeline items duration_us =
     List.map_filter (\<lambda>x. let stop = min (tm_end_us x) duration_us in
         if tm_start_us x < stop then Some (x\<lparr>tm_duration_us := stop - tm_start_us x\<rparr>) else None)
       (sort_key tm_start_us items)"

fun put_item :: "'a timed_scheme \<Rightarrow> 'a timed_scheme list list \<Rightarrow> 'a timed_scheme list list" where
  "put_item x [] = [[x]]"
| "put_item x (track # tracks) =
     (if tm_end_us (last track) \<le> tm_start_us x then (track @ [x]) # tracks else track # put_item x tracks)"

definition stack_tracks :: "'a timed_scheme list \<Rightarrow> 'a timed_scheme list list" where
  "stack_tracks items = fold put_item (sort_key tm_start_us items) []"

definition draft_clip_of :: "edit_clip \<Rightarrow> unit_material \<Rightarrow> int \<Rightarrow> draft_clip" where
  "draft_clip_of c u cursor =
     (let (source_in, source_out) = source_window c u
      in \<lparr>dc_clip_id = clip_id c, dc_unit_id = clip_unit_id c, dc_video_path = mt_video_path u, dc_start_us = cursor,
           dc_source_in_us = source_in, dc_source_duration_us = source_out - source_in,
           dc_volume = source_volume c * mt_source_gain u, dc_hold_us = hold_us c,
           dc_transition = transition_to_next c\<rparr>)"

definition clip_narrations :: "edit_clip \<Rightarrow> unit_material \<Rightarrow> int \<Rightarrow> placed_narration list" where
  "clip_narrations c u cursor =
     (case (mt_narration_path u, mt_narration_duration_us u) of
        (Some path, Some d) \<Rightarrow>
          if carries_narration c
          then [\<lparr>tm_start_us = cursor, tm_duration_us = d, pn_clip_id = clip_id c, pn_audio_path = path\<rparr>] else []
      | _ \<Rightarrow> [])"

fun place_draft_clips ::
  "(string \<Rightarrow> unit_material option) \<Rightarrow> int \<Rightarrow> edit_clip list
     \<Rightarrow> draft_clip list \<times> placed_narration list \<times> placed_subtitle list \<times> int" where
  "place_draft_clips units cursor [] = ([], [], [], cursor)"
| "place_draft_clips units cursor (c # cs) =
     (case units (clip_unit_id c) of
        None \<Rightarrow> place_draft_clips units cursor cs
      | Some u \<Rightarrow>
          let placed = draft_clip_of c u cursor;
              (clips, narrations, subtitles, total) =
                place_draft_clips units (cursor + (dc_source_duration_us placed + dc_hold_us placed)) cs
          in (placed # clips, clip_narrations c u cursor @ narrations,
              clip_subtitles placed u (carries_narration c) @ subtitles, total))"

definition drop_last_transition :: "draft_clip list \<Rightarrow> draft_clip list" where
  "drop_last_transition clips =
     (if clips \<noteq> [] then butlast clips @ [(last clips)\<lparr>dc_transition := None\<rparr>] else clips)"

definition place_timeline ::
  "edit_timeline_content \<Rightarrow> (string \<Rightarrow> unit_material option) \<Rightarrow> (string \<Rightarrow> bgm_source option) \<Rightarrow> draft_placement" where
  "place_timeline content units sources =
     (let (clips, narrations, subtitles, cursor) = place_draft_clips units 0 (content_clips content)
      in \<lparr>dp_duration_us = cursor, dp_clips = drop_last_transition clips,
           dp_narrations = within_timeline narrations cursor, dp_subtitles = within_timeline subtitles cursor,
           dp_bgm = List.map_filter (\<lambda>b. map_option (\<lambda>s.
             \<lparr>ba_clip_id = pb_clip_id b, ba_audio_path = bs_path s, ba_start_us = pb_start_us b,
              ba_source_in_us = pb_source_in_us b, ba_duration_us = pb_duration_us b,
              ba_volume = pb_volume b * bs_gain s, ba_fade_in_us = pb_fade_in_us b, ba_fade_out_us = pb_fade_out_us b\<rparr>)
             (sources (pb_ref b))) (place_bgm (content_bgm content) cursor)\<rparr>)"

text \<open>
  \<open>_placement\<close> of \<open>lib/final_cut/service.py\<close>: the final cut places narrations and subtitles with the
  versions and durations it measured for rendering
\<close>

definition measured :: "(string \<Rightarrow> unit_material option) \<Rightarrow> (string \<Rightarrow> render_media option) \<Rightarrow> string \<Rightarrow> unit_material option" where
  "measured materials media u =
     (case (materials u, media u) of
        (Some m, Some r) \<Rightarrow> Some (m\<lparr>mt_video_version := rm_video_version r, mt_video_duration_us := rm_duration_us r\<rparr>)
      | _ \<Rightarrow> None)"

definition final_cut_placement ::
  "edit_timeline_content \<Rightarrow> (string \<Rightarrow> unit_material option) \<Rightarrow> (string \<Rightarrow> render_media option) \<Rightarrow> draft_placement" where
  "final_cut_placement content materials media = place_timeline content (measured materials media) Map.empty"

text \<open>\<open>_bgm\<close>: the BGM of a final cut of \<open>total_us\<close>\<close>

definition final_cut_bgm :: "bgm_clip list \<Rightarrow> (string \<Rightarrow> bgm_source) \<Rightarrow> int \<Rightarrow> placed_bgm_audio list" where
  "final_cut_bgm bgm sources total_us = map (\<lambda>b. let s = sources (pb_ref b) in
     \<lparr>ba_clip_id = pb_clip_id b, ba_audio_path = bs_path s, ba_start_us = pb_start_us b,
      ba_source_in_us = pb_source_in_us b, ba_duration_us = pb_duration_us b, ba_volume = pb_volume b * bs_gain s,
      ba_fade_in_us = pb_fade_in_us b, ba_fade_out_us = pb_fade_out_us b\<rparr>) (place_bgm bgm total_us)"

section \<open>Tracks\<close>

text \<open>Items of a track, one after the other\<close>

definition track_ok :: "'a timed_scheme list \<Rightarrow> bool" where
  "track_ok xs \<longleftrightarrow> sorted_wrt (\<lambda>x y. tm_end_us x \<le> tm_start_us y) xs"

definition alive :: "int \<Rightarrow> 'a timed_scheme \<Rightarrow> bool" where
  "alive t x \<longleftrightarrow> tm_start_us x \<le> t \<and> t < tm_end_us x"

definition depth :: "int \<Rightarrow> 'a timed_scheme list \<Rightarrow> nat" where
  "depth t xs = length (filter (alive t) xs)"

lemma depth_simps [simp]: "depth t [] = 0" "depth t (x # xs) = (if alive t x then Suc (depth t xs) else depth t xs)"
  "depth t (xs @ ys) = depth t xs + depth t ys"
  by (simp_all add: depth_def)

lemma mset_put_item: "mset (concat (put_item x tracks)) = add_mset x (mset (concat tracks))"
  by (induction x tracks rule: put_item.induct) simp_all

lemma depth_mset: "mset xs = mset ys \<Longrightarrow> depth t xs = depth t ys"
  unfolding depth_def by (metis mset_filter size_mset)

text \<open>At most one item of a track is alive at a time\<close>

lemma depth_track: "track_ok xs \<Longrightarrow> depth t xs \<le> 1"
proof (induction xs)
  case (Cons x xs)
  have "depth t xs = 0" if "alive t x"
    using Cons.prems that by (auto simp: track_ok_def depth_def alive_def filter_empty_conv)
  then show ?case using Cons by (auto simp: track_ok_def)
qed simp

lemma depth_tracks: "list_all track_ok tracks \<Longrightarrow> depth t (concat tracks) \<le> length tracks"
proof (induction tracks)
  case (Cons xs tracks)
  then show ?case using depth_track [of xs t] by simp
qed simp

text \<open>
  While items arrive in order of their start: every track is in order, holds only items that have
  started, and at some time as many items are alive as there are tracks
\<close>

definition track_at :: "int \<Rightarrow> 'a timed_scheme list \<Rightarrow> bool" where
  "track_at s xs \<longleftrightarrow> xs \<noteq> [] \<and> track_ok xs \<and> (\<forall>x \<in> set xs. tm_start_us x \<le> s \<and> 0 < tm_duration_us x)"

definition stack_inv :: "int \<Rightarrow> 'a timed_scheme list list \<Rightarrow> bool" where
  "stack_inv s tracks \<longleftrightarrow> list_all (track_at s) tracks
     \<and> (tracks \<noteq> [] \<longrightarrow> (\<exists>t. length tracks \<le> depth t (concat tracks)))"

lemma track_last:
  assumes "track_ok xs" "x \<in> set xs" "\<forall>x \<in> set xs. 0 < tm_duration_us x"
  shows "tm_end_us x \<le> tm_end_us (last xs)"
  using assms
proof (induction xs)
  case (Cons y ys)
  show ?case
  proof (cases "ys = []")
    case False
    have "tm_end_us y \<le> tm_start_us (last ys)" using Cons.prems(1) False by (simp add: track_ok_def)
    moreover have "0 < tm_duration_us (last ys)" using Cons.prems(3) False by simp
    ultimately have "tm_end_us y \<le> tm_end_us (last ys)" by (simp add: tm_end_us_def)
    moreover have "x \<in> set ys \<Longrightarrow> tm_end_us x \<le> tm_end_us (last ys)"
      using Cons.prems(1,3) by (intro Cons.IH) (simp_all add: track_ok_def)
    ultimately show ?thesis using Cons.prems(2) False by auto
  qed (use Cons.prems in auto)
qed simp

lemma track_at_mono: "track_at s xs \<Longrightarrow> s \<le> s' \<Longrightarrow> track_at s' xs"
  by (auto simp: track_at_def)

lemma track_at_last: "track_at s xs \<Longrightarrow> tm_start_us (last xs) \<le> s"
  by (auto simp: track_at_def)

lemma track_at_snoc:
  assumes "track_at s xs" "tm_end_us (last xs) \<le> tm_start_us x" "s \<le> tm_start_us x" "0 < tm_duration_us x"
  shows "track_at (tm_start_us x) (xs @ [x])"
proof -
  have "tm_end_us y \<le> tm_start_us x" if "y \<in> set xs" for y
    using track_last [OF _ that] assms(1,2) by (force simp: track_at_def)
  then have "track_ok (xs @ [x])" using assms(1) by (simp add: track_at_def track_ok_def sorted_wrt_append)
  then show ?thesis using assms(1,3,4) by (auto simp: track_at_def)
qed

lemma put_item_tracks:
  assumes "list_all (track_at s) tracks" "s \<le> tm_start_us x" "0 < tm_duration_us x"
  shows "list_all (track_at (tm_start_us x)) (put_item x tracks)"
  using assms
proof (induction x tracks rule: put_item.induct)
  case (1 x)
  then show ?case by (simp add: track_at_def track_ok_def)
next
  case (2 x track tracks)
  have mono: "list_all (track_at (tm_start_us x)) tracks"
    using 2(2,3) by (auto simp: list_all_iff intro: track_at_mono)
  have "track_at s track" using 2(2) by simp
  then show ?case
    using 2 mono track_at_snoc [of s track x] track_at_mono [of s track "tm_start_us x"] by simp
qed

lemma put_item_length: "length (put_item x tracks) = length tracks
    \<or> length (put_item x tracks) = Suc (length tracks) \<and> (\<forall>xs \<in> set tracks. tm_start_us x < tm_end_us (last xs))"
  by (induction x tracks rule: put_item.induct) auto

lemma depth_lasts:
  assumes "\<forall>xs \<in> set tracks. xs \<noteq> [] \<and> alive t (last xs)"
  shows "length tracks \<le> depth t (concat tracks)"
  using assms
proof (induction tracks)
  case (Cons xs tracks)
  have "xs = butlast xs @ [last xs]" using Cons.prems by simp
  then have "depth t xs = depth t (butlast xs) + depth t [last xs]" by (metis depth_simps(3))
  then show ?case using Cons by simp
qed simp

lemma put_item_inv:
  assumes "stack_inv s tracks" "s \<le> tm_start_us x" "0 < tm_duration_us x"
  shows "stack_inv (tm_start_us x) (put_item x tracks)"
proof -
  let ?t = "tm_start_us x"
  have d: "depth t (concat (put_item x tracks)) = depth t (x # concat tracks)" for t
    by (rule depth_mset) (simp add: mset_put_item)
  have x: "alive ?t x" using assms(3) by (simp add: alive_def tm_end_us_def)
  have "\<exists>t. length (put_item x tracks) \<le> depth t (concat (put_item x tracks))"
  proof (cases "length (put_item x tracks) = length tracks")
    case True
    show ?thesis
    proof (cases "tracks = []")
      case False
      then obtain t where "length tracks \<le> depth t (concat tracks)" using assms(1) by (auto simp: stack_inv_def)
      then show ?thesis using True d [of t] by (intro exI [of _ t]) simp
    qed (use True in simp)
  next
    case False
    then have len: "length (put_item x tracks) = Suc (length tracks)" and busy: "\<forall>xs \<in> set tracks. ?t < tm_end_us (last xs)"
      using put_item_length [of x tracks] by auto
    have "\<forall>xs \<in> set tracks. xs \<noteq> [] \<and> alive ?t (last xs)"
    proof
      fix xs
      assume xs: "xs \<in> set tracks"
      then have at: "track_at s xs" using assms(1) by (simp add: stack_inv_def list_all_iff)
      have "tm_start_us (last xs) \<le> ?t" using track_at_last [OF at] assms(2) by simp
      moreover have "xs \<noteq> []" using at by (simp add: track_at_def)
      ultimately show "xs \<noteq> [] \<and> alive ?t (last xs)" using busy xs by (simp add: alive_def)
    qed
    then have "length tracks \<le> depth ?t (concat tracks)" by (rule depth_lasts)
    then show ?thesis using len d [of ?t] x by (intro exI [of _ ?t]) simp
  qed
  then show ?thesis
    using put_item_tracks [OF _ assms(2,3), of tracks] assms(1) by (auto simp: stack_inv_def)
qed

lemma fold_put_item:
  assumes "stack_inv s tracks" "sorted (map tm_start_us xs)" "\<forall>x \<in> set xs. s \<le> tm_start_us x \<and> 0 < tm_duration_us x"
  shows "(\<exists>s'. stack_inv s' (fold put_item xs tracks)) \<and> mset (concat (fold put_item xs tracks)) = mset xs + mset (concat tracks)"
  using assms
proof (induction xs arbitrary: s tracks)
  case (Cons x xs)
  have "stack_inv (tm_start_us x) (put_item x tracks)" using Cons.prems by (intro put_item_inv) auto
  from Cons.IH [OF this] show ?case using Cons.prems by (simp add: mset_put_item)
qed auto

lemma stack_tracks_inv:
  assumes "\<forall>x \<in> set xs. 0 < tm_duration_us x"
  shows "\<exists>s. stack_inv s (stack_tracks xs)" "mset (concat (stack_tracks xs)) = mset xs"
proof -
  let ?s = "if xs = [] then 0 else Min (tm_start_us ` set xs)"
  have "\<forall>x \<in> set (sort_key tm_start_us xs). ?s \<le> tm_start_us x \<and> 0 < tm_duration_us x" using assms by auto
  from fold_put_item [OF _ _ this, of "[]"] show "\<exists>s. stack_inv s (stack_tracks xs)" "mset (concat (stack_tracks xs)) = mset xs"
    by (simp_all add: stack_inv_def stack_tracks_def)
qed

end
