(* ===== verification/PlacementProps.thy ===== *)
theory PlacementProps
  imports Placement
begin

text \<open>
  Properties of the placement of a draft, with instances on small tracks and on a revision of two
  clips, and its agreement with the render plan of the final cut.
\<close>

section \<open>Lemmas\<close>

lemma source_window_bounds:
  assumes "valid_clip c" "0 \<le> mt_video_duration_us u"
  shows "0 \<le> fst (source_window c u) \<and> fst (source_window c u) \<le> snd (source_window c u) \<and> 0 \<le> hold_us c"
  using assms
  by (auto simp: source_window_def effective_source_range_us_def Let_def valid_clip_def valid_trim_def split: option.splits)

lemma draft_clip_of_simps [simp]:
  "dc_start_us (draft_clip_of c u t) = t" "dc_hold_us (draft_clip_of c u t) = hold_us c"
  "dc_clip_id (draft_clip_of c u t) = clip_id c"
  "dc_source_in_us (draft_clip_of c u t) = fst (source_window c u)"
  "dc_source_duration_us (draft_clip_of c u t) = snd (source_window c u) - fst (source_window c u)"
  by (simp_all add: draft_clip_of_def split_beta Let_def)

text \<open>The fields the two outputs share\<close>

definition draft_place :: "draft_clip \<Rightarrow> string \<times> int \<times> int \<times> int \<times> int" where
  "draft_place c = (dc_clip_id c, dc_start_us c, dc_source_in_us c, dc_source_duration_us c, dc_hold_us c)"

lemma drop_last_transition_place: "map draft_place (drop_last_transition cs) = map draft_place cs"
proof (cases "cs = []")
  case False
  then have "map draft_place cs = map draft_place (butlast cs) @ [draft_place (last cs)]"
    by (metis append_butlast_last_id list.simps(8,9) map_append)
  moreover have "draft_place ((last cs)\<lparr>dc_transition := None\<rparr>) = draft_place (last cs)" by (simp add: draft_place_def)
  ultimately show ?thesis using False by (simp add: drop_last_transition_def)
qed (simp add: drop_last_transition_def)

lemma within_timeline_items:
  assumes "x \<in> set (within_timeline xs n)"
  shows "0 < tm_duration_us x" "tm_end_us x \<le> n" "\<exists>y \<in> set xs. tm_start_us y = tm_start_us x \<and> tm_duration_us x \<le> tm_duration_us y"
proof -
  obtain y where y: "y \<in> set xs" "tm_start_us y < min (tm_end_us y) n"
      "x = y\<lparr>tm_duration_us := min (tm_end_us y) n - tm_start_us y\<rparr>"
    using assms by (auto simp: within_timeline_def map_filter_simps Let_def set_map_filter split: if_splits)
  then show "0 < tm_duration_us x" "tm_end_us x \<le> n" by (simp_all add: tm_end_us_def)
  show "\<exists>y \<in> set xs. tm_start_us y = tm_start_us x \<and> tm_duration_us x \<le> tm_duration_us y"
    using y by (intro bexI [of _ y]) (simp_all add: tm_end_us_def)
qed

lemma within_timeline_sorted: "sorted (map tm_start_us (within_timeline xs n))"
proof -
  have "sorted (map tm_start_us (List.map_filter (\<lambda>x. let stop = min (tm_end_us x) n in
      if tm_start_us x < stop then Some (x\<lparr>tm_duration_us := stop - tm_start_us x\<rparr>) else None) ys))"
    if "sorted (map tm_start_us ys)" for ys :: "'a timed_scheme list"
    using that by (induction ys) (auto simp: List.map_filter_def Let_def)
  then show ?thesis by (simp add: within_timeline_def)
qed

text \<open>Where the items of the clips start\<close>

lemma place_draft_clips_items:
  assumes "place_draft_clips units t cs = (dcs, ns, ss, n)" "\<forall>c \<in> set cs. valid_clip c"
    and "\<forall>u m. units u = Some m \<longrightarrow> 0 \<le> mt_video_duration_us m \<and> (\<forall>q \<in> set (mt_subtitles m). 0 \<le> tm_start_us q)"
  shows "t \<le> n \<and> (\<forall>c \<in> set dcs. t \<le> dc_start_us c \<and> dc_start_us c + dc_source_duration_us c + dc_hold_us c \<le> n
          \<and> 0 \<le> dc_source_duration_us c \<and> 0 \<le> dc_hold_us c)
      \<and> (\<forall>x \<in> set ns. \<exists>c \<in> set dcs. dc_clip_id c = pn_clip_id x \<and> dc_start_us c = tm_start_us x)
      \<and> (\<forall>x \<in> set ss. t \<le> tm_start_us x)"
  using assms
proof (induction units t cs arbitrary: dcs ns ss n rule: place_draft_clips.induct)
  case (2 units t c cs)
  show ?case
  proof (cases "units (clip_unit_id c)")
    case None
    then show ?thesis using 2 by simp
  next
    case (Some u)
    let ?p = "draft_clip_of c u t"
    let ?t = "t + (dc_source_duration_us ?p + dc_hold_us ?p)"
    obtain dcs' ns' ss' n' where rec': "place_draft_clips units ?t cs = (dcs', ns', ss', n')"
      by (rule prod_cases4)
    then have out: "dcs = ?p # dcs'" "ns = clip_narrations c u t @ ns'" "ss = clip_subtitles ?p u (carries_narration c) @ ss'" "n' = n"
      using "2.prems"(1) Some by (simp_all add: Let_def del: draft_clip_of_simps)
    note rec = rec' [unfolded out(4)]
    have u: "0 \<le> mt_video_duration_us u" "\<forall>q \<in> set (mt_subtitles u). 0 \<le> tm_start_us q" using "2.prems"(3) Some by auto
    note win = source_window_bounds [OF _ u(1), of c]
    have ih: "?t \<le> n \<and> (\<forall>c \<in> set dcs'. ?t \<le> dc_start_us c \<and> dc_start_us c + dc_source_duration_us c + dc_hold_us c \<le> n
          \<and> 0 \<le> dc_source_duration_us c \<and> 0 \<le> dc_hold_us c)
      \<and> (\<forall>x \<in> set ns'. \<exists>c \<in> set dcs'. dc_clip_id c = pn_clip_id x \<and> dc_start_us c = tm_start_us x)
      \<and> (\<forall>x \<in> set ss'. ?t \<le> tm_start_us x)"
      by (rule "2.IH"(2) [OF Some refl rec]) (use "2.prems"(2,3) in simp_all)
    have step: "t \<le> ?t" "0 \<le> dc_source_duration_us ?p" "0 \<le> dc_hold_us ?p" using win "2.prems"(2) by auto
    have subs: "t \<le> tm_start_us x" if "x \<in> set (clip_subtitles ?p u b)" for x b
      using that u(2) by (auto simp: clip_subtitles_def set_map_filter Let_def split: if_splits)
    have narr: "dc_clip_id ?p = pn_clip_id x \<and> dc_start_us ?p = tm_start_us x" if "x \<in> set (clip_narrations c u t)" for x
      using that by (auto simp: clip_narrations_def split: option.splits if_splits)
    show ?thesis unfolding out using ih step subs narr by (fastforce simp del: draft_clip_of_simps(5))
  qed
qed simp

text \<open>The draft of the final cut against its render clips, clip by clip\<close>

lemma place_matches_render:
  assumes "place_draft_clips (measured materials media) t cs = (dcs, ns, ss, n)"
    and "\<forall>c \<in> set cs. materials (clip_unit_id c) = None \<longleftrightarrow> media (clip_unit_id c) = None"
  shows "map draft_place dcs = map (\<lambda>k. (rc_clip_id (render_clips cs media ! k),
        t + sum_list (map clip_us (take k (render_clips cs media))), rc_source_in_us (render_clips cs media ! k),
        rc_source_duration_us (render_clips cs media ! k), rc_hold_us (render_clips cs media ! k)))
      [0..<length (render_clips cs media)]
    \<and> n = t + sum_list (map clip_us (render_clips cs media))"
  using assms
proof (induction "measured materials media" t cs arbitrary: dcs ns ss n rule: place_draft_clips.induct)
  case (1 t)
  then show ?case by (simp add: render_clips_def map_filter_simps)
next
  case (2 t c cs)
  show ?case
  proof (cases "media (clip_unit_id c)")
    case None
    then have "measured materials media (clip_unit_id c) = None" "render_clips (c # cs) media = render_clips cs media"
      by (auto simp: measured_def render_clips_def map_filter_simps split: option.splits)
    then show ?thesis using 2 by simp
  next
    case (Some r)
    then obtain m where m: "materials (clip_unit_id c) = Some m" using 2(4) by fastforce
    define u where "u = m\<lparr>mt_video_version := rm_video_version r, mt_video_duration_us := rm_duration_us r\<rparr>"
    have u: "measured materials media (clip_unit_id c) = Some u" using Some m by (simp add: measured_def u_def)
    let ?p = "draft_clip_of c u t" and ?rc = "resolve_clip r c" and ?rs = "render_clips cs media"
    have rs: "render_clips (c # cs) media = ?rc # ?rs" using Some by (simp add: render_clips_def map_filter_simps)
    let ?t = "t + (dc_source_duration_us ?p + dc_hold_us ?p)"
    obtain dcs' ns' ss' n' where rec: "place_draft_clips (measured materials media) ?t cs = (dcs', ns', ss', n')"
      by (rule prod_cases4)
    then have out: "dcs = ?p # dcs'" "n = n'"
      using 2(3) u by (simp_all add: Let_def del: draft_clip_of_simps)
    have same: "draft_place ?p = (rc_clip_id ?rc, t, rc_source_in_us ?rc, rc_source_duration_us ?rc, rc_hold_us ?rc)"
      "clip_us ?rc = dc_source_duration_us ?p + dc_hold_us ?p"
      by (simp_all add: draft_place_def resolve_clip_def source_window_def u_def clip_us_def split_beta Let_def)
    have "map draft_place dcs' = map (\<lambda>k. (rc_clip_id (?rs ! k), ?t + sum_list (map clip_us (take k ?rs)),
        rc_source_in_us (?rs ! k), rc_source_duration_us (?rs ! k), rc_hold_us (?rs ! k))) [0..<length ?rs]
      \<and> n' = ?t + sum_list (map clip_us ?rs)"
      by (rule 2(2) [OF u refl rec]) (use 2(4) in simp)
    moreover have "[0..<length (?rc # ?rs)] = 0 # map Suc [0..<length ?rs]"
      by (simp add: map_Suc_upt upt_conv_Cons del: upt_Suc)
    ultimately show ?thesis
      by (simp add: out rs same o_def add.assoc del: draft_clip_of_simps upt_Suc)
  qed
qed

section \<open>Properties\<close>

text \<open>
  Property C38: stacking divides the items among tracks without overlap, and no division of them into
  tracks without overlap uses fewer tracks: at some time as many items play as there are tracks.
\<close>

theorem stack_tracks_optimal:
  assumes "\<forall>x \<in> set items. 0 < tm_duration_us x"
  shows "mset (concat (stack_tracks items)) = mset items \<and> list_all track_ok (stack_tracks items)
    \<and> (items \<noteq> [] \<longrightarrow> (\<exists>t. depth t items = length (stack_tracks items)))
    \<and> (\<forall>others. mset (concat others) = mset items \<and> list_all track_ok others \<longrightarrow> length (stack_tracks items) \<le> length others)"
proof -
  obtain s where inv: "stack_inv s (stack_tracks items)" using stack_tracks_inv(1) [OF assms] by blast
  note perm = stack_tracks_inv(2) [OF assms]
  have ok: "list_all track_ok (stack_tracks items)" using inv by (auto simp: stack_inv_def list_all_iff track_at_def)
  have full: "\<exists>t. length (stack_tracks items) \<le> depth t items" if "items \<noteq> []"
  proof -
    have "stack_tracks items \<noteq> []" using perm that by auto
    then show ?thesis using inv depth_mset [OF perm] by (auto simp: stack_inv_def)
  qed
  have least: "length (stack_tracks items) \<le> length others" if o: "mset (concat others) = mset items" "list_all track_ok others" for others
  proof (cases "items = []")
    case True
    then show ?thesis by (simp add: stack_tracks_def)
  next
    case False
    then obtain t where "length (stack_tracks items) \<le> depth t items" using full by blast
    also have "\<dots> \<le> length others" using depth_tracks [OF o(2), of t] by (simp add: depth_mset [OF o(1)])
    finally show ?thesis .
  qed
  have "depth t items \<le> length (stack_tracks items)" for t
    using depth_tracks [OF ok, of t] by (simp add: depth_mset [OF perm])
  then show ?thesis using perm ok full least by (meson le_antisym)
qed

definition demo_items :: "unit_cue list" where
  "demo_items = map (\<lambda>(a, d). \<lparr>tm_start_us = a, tm_duration_us = d, uc_text = ''x''\<rparr>) [(6, 3), (0, 5), (4, 3), (2, 3)]"

theorem stack_tracks_optimal_witness:
  "map (map tm_start_us) (stack_tracks demo_items) = [[0, 6], [2], [4]] \<and> (\<exists>t. depth t demo_items = 3)"
proof -
  have tracks: "map (map tm_start_us) (stack_tracks demo_items) = [[0, 6], [2], [4]]"
    by (simp add: demo_items_def stack_tracks_def tm_end_us_def)
  have "length (map (map tm_start_us) (stack_tracks demo_items)) = 3" unfolding tracks by simp
  then have "length (stack_tracks demo_items) = 3" by (simp only: length_map)
  moreover have "\<forall>x \<in> set demo_items. 0 < tm_duration_us x" "demo_items \<noteq> []" by (simp_all add: demo_items_def)
  ultimately show ?thesis using tracks stack_tracks_optimal [of demo_items] by simp
qed

text \<open>
  What a draft places plays inside its timeline.  Every clip lies in it, every narration
  starts with the clip that carries it, and narrations and subtitles are in order, not empty and cut
  at the end of the timeline.
\<close>

theorem placement_in_timeline:
  assumes "\<forall>c \<in> set (content_clips content). valid_clip c"
    and "\<forall>u m. units u = Some m \<longrightarrow> 0 \<le> mt_video_duration_us m \<and> (\<forall>q \<in> set (mt_subtitles m). 0 \<le> tm_start_us q)"
  shows "let p = place_timeline content units sources in
    (\<forall>c \<in> set (dp_clips p). 0 \<le> dc_start_us c \<and> dc_start_us c + dc_source_duration_us c + dc_hold_us c \<le> dp_duration_us p)
    \<and> (\<forall>x \<in> set (dp_narrations p). 0 < tm_duration_us x \<and> tm_end_us x \<le> dp_duration_us p
         \<and> (\<exists>c \<in> set (dp_clips p). dc_clip_id c = pn_clip_id x \<and> dc_start_us c = tm_start_us x))
    \<and> (\<forall>x \<in> set (dp_subtitles p). 0 \<le> tm_start_us x \<and> 0 < tm_duration_us x \<and> tm_end_us x \<le> dp_duration_us p)
    \<and> sorted (map tm_start_us (dp_narrations p)) \<and> sorted (map tm_start_us (dp_subtitles p))"
proof -
  obtain dcs ns ss n where run: "place_draft_clips units 0 (content_clips content) = (dcs, ns, ss, n)" by (rule prod_cases4)
  note items = place_draft_clips_items [OF run assms]
  let ?p = "place_timeline content units sources"
  have p: "dp_clips ?p = drop_last_transition dcs" "dp_duration_us ?p = n"
    "dp_narrations ?p = within_timeline ns n" "dp_subtitles ?p = within_timeline ss n"
    by (simp_all add: place_timeline_def run)
  have places: "draft_place ` set (dp_clips ?p) = draft_place ` set dcs"
    using arg_cong [OF drop_last_transition_place [of dcs], of set] by (simp add: p)
  have to_draft: "\<exists>d \<in> set dcs. draft_place d = draft_place c" if "c \<in> set (dp_clips ?p)" for c
    using imageI [OF that, of draft_place] unfolding places by (auto simp: image_iff)
  have from_draft: "\<exists>c \<in> set (dp_clips ?p). draft_place c = draft_place d" if "d \<in> set dcs" for d
    using imageI [OF that, of draft_place] unfolding places [symmetric] by (auto simp: image_iff)
  have "0 \<le> dc_start_us c \<and> dc_start_us c + dc_source_duration_us c + dc_hold_us c \<le> n" if c: "c \<in> set (dp_clips ?p)" for c
    using to_draft [OF c] items by (auto simp: draft_place_def)
  moreover have "0 < tm_duration_us x \<and> tm_end_us x \<le> n
      \<and> (\<exists>c \<in> set (dp_clips ?p). dc_clip_id c = pn_clip_id x \<and> dc_start_us c = tm_start_us x)"
    if x: "x \<in> set (dp_narrations ?p)" for x
  proof -
    note w = within_timeline_items [OF x [unfolded p]]
    obtain y where y: "y \<in> set ns" "tm_start_us y = tm_start_us x" "pn_clip_id y = pn_clip_id x"
      using x unfolding p by (auto simp: within_timeline_def set_map_filter Let_def split: if_splits)
    then obtain d where "d \<in> set dcs" "dc_clip_id d = pn_clip_id y" "dc_start_us d = tm_start_us y" using items by blast
    then show ?thesis using w(1,2) y from_draft [of d] by (auto simp: draft_place_def)
  qed
  moreover have "0 \<le> tm_start_us x \<and> 0 < tm_duration_us x \<and> tm_end_us x \<le> n" if x: "x \<in> set (dp_subtitles ?p)" for x
    using within_timeline_items [OF x [unfolded p]] items by auto
  ultimately show ?thesis unfolding Let_def p(2) by (simp add: p(3,4) within_timeline_sorted)
qed

text \<open>
  Property C39: the final cut and its placement agree.  With material for the units it has media for,
  narrations and subtitles are placed on the same clips, at the same times and for the same total as
  the clips the render plan lays on the frame grid.
\<close>

theorem placement_matches_plan:
  assumes "\<forall>c \<in> set (content_clips content). materials (clip_unit_id c) = None \<longleftrightarrow> media (clip_unit_id c) = None"
  shows "let p = final_cut_placement content materials media; rs = render_clips (content_clips content) media in
    map draft_place (dp_clips p) = map (\<lambda>k. (rc_clip_id (rs ! k), sum_list (map clip_us (take k rs)),
        rc_source_in_us (rs ! k), rc_source_duration_us (rs ! k), rc_hold_us (rs ! k))) [0..<length rs]
    \<and> dp_duration_us p = sum_list (map clip_us rs)"
proof -
  obtain dcs ns ss n where run: "place_draft_clips (measured materials media) 0 (content_clips content) = (dcs, ns, ss, n)"
    by (rule prod_cases4)
  have "dp_clips (final_cut_placement content materials media) = drop_last_transition dcs"
    "dp_duration_us (final_cut_placement content materials media) = n"
    by (simp_all add: final_cut_placement_def place_timeline_def run)
  then show ?thesis using place_matches_render [OF run assms] by (simp add: Let_def drop_last_transition_place)
qed

section \<open>Two clips\<close>

definition demo_edit_clip :: "string \<Rightarrow> string \<Rightarrow> edit_clip" where
  "demo_edit_clip i u = \<lparr>clip_id = i, clip_unit_id = u, clip_trim = None, source_volume = 1, hold_us = 500000,
     carries_narration = True, clip_reason = None, transition_to_next = Some \<lparr>tr_type = DISSOLVE, tr_duration_us = 200000\<rparr>\<rparr>"

definition demo_cut :: edit_timeline_content where
  "demo_cut = \<lparr>content_clips = [demo_edit_clip ''c1'' ''U1'', demo_edit_clip ''c2'' ''U2''], content_bgm = []\<rparr>"

definition demo_materials :: "string \<Rightarrow> unit_material option" where
  "demo_materials u = Some \<lparr>mt_unit_id = u, mt_video_path = ''v'', mt_video_version = 1, mt_video_duration_us = 2000000,
     mt_source_gain = 1, mt_subtitles = [\<lparr>tm_start_us = 100000, tm_duration_us = 9000000, uc_text = ''hello''\<rparr>],
     mt_narration_path = Some ''n'', mt_narration_duration_us = Some 4000000\<rparr>"

definition demo_media :: "string \<Rightarrow> render_media option" where
  "demo_media u = Some \<lparr>rm_path = ''v'', rm_video_version = 1, rm_duration_us = 2000000, rm_has_audio = True\<rparr>"

theorem placement_in_timeline_witness:
  "list_all (\<lambda>x. tm_end_us x \<le> 5000000) (dp_narrations (place_timeline demo_cut demo_materials Map.empty))"
proof -
  have dur: "dp_duration_us (place_timeline demo_cut demo_materials Map.empty) = 5000000"
    by (simp add: place_timeline_def demo_cut_def demo_materials_def demo_edit_clip_def source_window_def
        effective_source_range_us_def draft_clip_of_def Let_def)
  have "\<forall>c \<in> set (content_clips demo_cut). valid_clip c"
    by (simp add: demo_cut_def demo_edit_clip_def valid_clip_def valid_volume_def is_clip_id_def is_positive_decimal_def
        is_digit_def valid_transition_def)
  from placement_in_timeline [OF this, of demo_materials Map.empty] show ?thesis
    by (simp add: Let_def demo_materials_def dur list_all_iff)
qed

theorem placement_matches_plan_witness:
  "dp_duration_us (final_cut_placement demo_cut demo_materials demo_media)
    = sum_list (map clip_us (render_clips (content_clips demo_cut) demo_media))"
  using placement_matches_plan [of demo_cut demo_materials demo_media] by (simp add: demo_materials_def demo_media_def Let_def)

end
