(* ===== verification/Subtitles.thy ===== *)
theory Subtitles
  imports RenderPlan
begin

text \<open>
  The subtitles a final cut burns in (\<open>lib/final_cut/subtitles.py\<close>): line breaking of Chinese text,
  the layout on the canvas, and the events of the ASS document.  A text is a list of code points.
  Which characters are wide is a table of \<open>unicodedata\<close>, the argument \<open>wide\<close>; the cell height of the
  bundled font is an argument of the layout.  Widths and the layout are exact rationals.
\<close>

section \<open>Characters\<close>

definition NO_LINE_START :: "nat list" where
  "NO_LINE_START = [65292, 12290, 12289, 65307, 65306, 65311, 65281, 8230, 8229, 65289, 12301, 12303, 8221, 8217,
     12299, 12297, 12305, 12309, 65373, 65341, 12311, 44, 46, 59, 58, 63, 33, 41, 93, 125, 37, 183, 12539, 12540,
     12316, 65374]"

definition NO_LINE_END :: "nat list" where
  "NO_LINE_END = [65288, 12300, 12302, 8220, 8216, 12298, 12296, 12304, 12308, 65371, 65339, 12310, 40, 91, 123]"

definition advance :: "(nat \<Rightarrow> bool) \<Rightarrow> nat \<Rightarrow> rat" where
  "advance wide c = (if wide c then 1 else 1 / 2)"

definition text_width :: "(nat \<Rightarrow> bool) \<Rightarrow> utext \<Rightarrow> rat" where
  "text_width wide t = sum_list (map (advance wide) t)"

section \<open>Line breaking\<close>

definition add_to_tokens :: "(nat \<Rightarrow> bool) \<Rightarrow> utext list \<Rightarrow> nat \<Rightarrow> utext list" where
  "add_to_tokens wide tokens c =
     (let previous = (if tokens = [] then [] else last tokens);
          joins = (previous \<noteq> [] \<and> advance wide c < 1 \<and> advance wide (last previous) < 1
                   \<and> is_space c = is_space (last previous) \<and> c \<notin> set NO_LINE_START)
      in if joins then butlast tokens @ [previous @ [c]] else tokens @ [[c]])"

definition tokens :: "(nat \<Rightarrow> bool) \<Rightarrow> utext \<Rightarrow> utext list" where
  "tokens wide text = foldl (add_to_tokens wide) [] text"

fun split_loop :: "(nat \<Rightarrow> bool) \<Rightarrow> rat \<Rightarrow> utext list \<Rightarrow> utext \<Rightarrow> utext \<Rightarrow> utext list" where
  "split_loop wide capacity pieces current [] = (if current \<noteq> [] then pieces @ [current] else pieces)"
| "split_loop wide capacity pieces current (c # cs) =
     (if current \<noteq> [] \<and> capacity < text_width wide (current @ [c])
      then split_loop wide capacity (pieces @ [current]) [c] cs
      else split_loop wide capacity pieces (current @ [c]) cs)"

definition split_oversized :: "(nat \<Rightarrow> bool) \<Rightarrow> utext \<Rightarrow> rat \<Rightarrow> utext list" where
  "split_oversized wide token capacity = split_loop wide capacity [] [] token"

text \<open>Opening brackets at the end of the line, reversed, go to the next line; one character stays\<close>

fun carry :: "utext \<Rightarrow> utext \<Rightarrow> utext \<times> utext" where
  "carry (c # d # cs) carried =
     (if c \<in> set NO_LINE_END then carry (d # cs) (c # carried) else (rev (c # d # cs), carried))"
| "carry cs carried = (rev cs, carried)"

fun wrap_loop :: "(nat \<Rightarrow> bool) \<Rightarrow> rat \<Rightarrow> utext list \<Rightarrow> utext \<Rightarrow> utext list \<Rightarrow> utext list" where
  "wrap_loop wide capacity lines current [] = (if current \<noteq> [] then lines @ [rstrip current] else lines)"
| "wrap_loop wide capacity lines current (token # ts) =
     (if current = [] then wrap_loop wide capacity lines (if all_space token then [] else token) ts
      else if text_width wide (current @ token) \<le> capacity \<or> hd token \<in> set NO_LINE_START
      then wrap_loop wide capacity lines (current @ token) ts
      else let (kept, carried) = carry (rev current) []
           in wrap_loop wide capacity (lines @ [rstrip kept]) (if all_space token then carried else carried @ token) ts)"

definition wrap_chinese :: "(nat \<Rightarrow> bool) \<Rightarrow> utext \<Rightarrow> rat \<Rightarrow> utext list" where
  "wrap_chinese wide text line_capacity =
     (let capacity = max (of_int \<lfloor>line_capacity\<rfloor>) 1;
          ts = concat (map (\<lambda>t. if capacity < text_width wide t then split_oversized wide t capacity else [t])
                 (tokens wide (strip text)))
      in wrap_loop wide capacity [] [] ts)"

section \<open>Layout\<close>

record subtitle_style =
  ss_size :: rat
  ss_max_line_width :: rat
  ss_transform_y :: rat

definition subtitle_style_baseline :: "int \<Rightarrow> int \<Rightarrow> subtitle_style" where
  "subtitle_style_baseline width height =
     (if width < height then \<lparr>ss_size = 12, ss_max_line_width = 82 / 100, ss_transform_y = - 75 / 100\<rparr>
      else \<lparr>ss_size = 8, ss_max_line_width = 60 / 100, ss_transform_y = - 80 / 100\<rparr>)"

record subtitle_layout =
  sl_width :: int
  sl_height :: int
  sl_em :: int
  sl_line_capacity :: rat
  sl_margin_x :: int
  sl_margin_bottom :: int

definition subtitle_layout_of :: "rat \<Rightarrow> output_profile \<Rightarrow> subtitle_layout" where
  "subtitle_layout_of cell_height p =
     (let baseline = subtitle_style_baseline (op_width p) (op_height p);
          em = py_round (ss_size baseline * 5 * of_int (min (op_width p) (op_height p)) / 1080);
          usable = of_int (op_width p) * ss_max_line_width baseline;
          center_from_top = of_int (op_height p) * (1 - ss_transform_y baseline) / 2;
          cell = of_int em * cell_height
      in \<lparr>sl_width = op_width p, sl_height = op_height p, sl_em = em, sl_line_capacity = usable / of_int em,
           sl_margin_x = py_round ((of_int (op_width p) - usable) / 2),
           sl_margin_bottom = max (py_round (of_int (op_height p) - center_from_top - cell / 2)) 0\<rparr>)"

section \<open>Events\<close>

text \<open>\<open>count_reading_units(text, "zh") > 0\<close>\<close>

definition has_chinese :: "utext \<Rightarrow> bool" where
  "has_chinese t = list_ex (\<lambda>c. (13312 \<le> c \<and> c \<le> 40959) \<or> (63744 \<le> c \<and> c \<le> 64255) \<or> (12288 \<le> c \<and> c \<le> 12351)
     \<or> (65280 \<le> c \<and> c \<le> 65519) \<or> (131072 \<le> c \<and> c \<le> 205743)) t"

text \<open>The lines of a text; empty ones are dropped by the caller, so \<open>\r\n\<close> needs no case of its own\<close>

fun split_lines :: "utext \<Rightarrow> utext \<Rightarrow> utext list" where
  "split_lines current [] = [current]"
| "split_lines current (c # cs) =
     (if is_line_break c then current # split_lines [] cs else split_lines (current @ [c]) cs)"

fun join_with :: "utext \<Rightarrow> utext list \<Rightarrow> utext" where
  "join_with sep [] = []"
| "join_with sep [t] = t"
| "join_with sep (t # ts) = t @ sep @ join_with sep ts"

definition one_line :: "utext \<Rightarrow> utext" where
  "one_line text = join_with [32] (map strip (filter (\<lambda>l. strip l \<noteq> []) (split_lines [] text)))"

definition subtitle_lines :: "(nat \<Rightarrow> bool) \<Rightarrow> utext \<Rightarrow> subtitle_layout \<Rightarrow> utext list" where
  "subtitle_lines wide text layout =
     (let t = one_line text in if has_chinese t then wrap_chinese wide t (sl_line_capacity layout) else [t])"

record burned_subtitle =
  bu_start_us :: int
  bu_end_us :: int
  bu_text :: utext

definition two_digits :: "nat \<Rightarrow> string" where
  "two_digits n = (if n < 10 then ''0'' @ decimal n else decimal n)"

definition timestamp :: "int \<Rightarrow> string" where
  "timestamp us =
     (let centiseconds = nat (max (py_round (of_int us / 10000)) 0);
          seconds = centiseconds div 100; centi = centiseconds mod 100;
          minutes = seconds div 60; sec = seconds mod 60; hours = minutes div 60; minute = minutes mod 60
      in decimal hours @ '':'' @ two_digits minute @ '':'' @ two_digits sec @ ''.'' @ two_digits centi)"

text \<open>Braces and backslashes become their full-width forms\<close>

definition escape_char :: "nat \<Rightarrow> nat" where
  "escape_char c = (if c = 92 then 65340 else if c = 123 then 65371 else if c = 125 then 65373 else c)"

definition escape :: "utext \<Rightarrow> utext" where
  "escape line = map escape_char line"

definition dialogue :: "(nat \<Rightarrow> bool) \<Rightarrow> subtitle_layout \<Rightarrow> burned_subtitle \<Rightarrow> utext" where
  "dialogue wide layout b =
     codes (''Dialogue: 0,'' @ timestamp (bu_start_us b) @ '','' @ timestamp (bu_end_us b) @ '',Subtitle,,0,0,0,,'')
     @ join_with (codes [CHR 0x5C, CHR ''N'']) (map escape (subtitle_lines wide (bu_text b) layout))"

definition ass_events :: "(nat \<Rightarrow> bool) \<Rightarrow> rat \<Rightarrow> burned_subtitle list \<Rightarrow> output_profile \<Rightarrow> utext list" where
  "ass_events wide cell_height subtitles p =
     (let layout = subtitle_layout_of cell_height p
      in map (dialogue wide layout)
           (filter (\<lambda>b. bu_start_us b < bu_end_us b \<and> strip (bu_text b) \<noteq> []) (sort_key bu_start_us subtitles)))"

end
