(* ===== verification/SubtitleProps.thy ===== *)
theory SubtitleProps
  imports Subtitles
begin

text \<open>
  Properties of the subtitles of a final cut: what line breaking keeps and how wide its lines get,
  what an event of the document may contain, and its timestamps.
\<close>

section \<open>Lemmas\<close>

text \<open>The text without its white space\<close>

definition ink :: "utext \<Rightarrow> utext" where
  "ink t = filter (\<lambda>c. \<not> is_space c) t"

lemma ink_simps [simp]: "ink [] = []" "ink (s @ t) = ink s @ ink t"
  by (simp_all add: ink_def)

lemma ink_concat: "ink (concat ts) = concat (map ink ts)"
  by (induction ts) simp_all

lemma ink_all_space: "all_space t \<Longrightarrow> ink t = []"
  by (auto simp: ink_def all_space_def list_all_iff filter_empty_conv)

lemma filter_dropWhile: "filter (\<lambda>c. \<not> P c) (dropWhile P t) = filter (\<lambda>c. \<not> P c) t"
  by (induction t) auto

lemma ink_strip [simp]: "ink (lstrip t) = ink t" "ink (rstrip t) = ink t" "ink (strip t) = ink t"
proof -
  show l: "ink (lstrip t) = ink t" for t by (simp add: ink_def lstrip_def filter_dropWhile)
  show r: "ink (rstrip t) = ink t" for t by (simp add: ink_def rstrip_def rev_filter [symmetric] filter_dropWhile)
  show "ink (strip t) = ink t" by (simp add: strip_def l r)
qed

lemma rstrip_decomp: "\<exists>s. t = rstrip t @ s \<and> all_space s"
proof -
  let ?s = "rev (takeWhile is_space (rev t))"
  have "rev (rev t) = rev (dropWhile is_space (rev t)) @ ?s"
    by (metis rev_append takeWhile_dropWhile_id)
  then show ?thesis
    by (intro exI [of _ ?s]) (auto simp: rstrip_def all_space_def list_all_iff dest: set_takeWhileD)
qed

lemma rstrip_end: "rstrip t \<noteq> [] \<Longrightarrow> \<not> is_space (last (rstrip t))"
  unfolding rstrip_def by (simp add: last_rev hd_dropWhile)

lemma rstrip_start:
  assumes "t \<noteq> []" "\<not> is_space (hd t)"
  shows "rstrip t \<noteq> [] \<and> hd (rstrip t) = hd t"
proof -
  obtain s where s: "t = rstrip t @ s" "all_space s" using rstrip_decomp by blast
  have "rstrip t \<noteq> []" using s assms by (cases s) (auto simp: all_space_def)
  then show ?thesis using s(1) by (metis hd_append2)
qed

section \<open>Tokens\<close>

text \<open>A token is either white space or free of it\<close>

definition token_ok :: "utext \<Rightarrow> bool" where
  "token_ok t \<longleftrightarrow> t \<noteq> [] \<and> (all_space t \<or> list_all (\<lambda>c. \<not> is_space c) t)"

lemma add_to_tokens_step:
  assumes "list_all token_ok ts"
  shows "concat (add_to_tokens wide ts c) = concat ts @ [c] \<and> list_all token_ok (add_to_tokens wide ts c)"
proof (cases "ts = []")
  case True
  then show ?thesis by (auto simp: add_to_tokens_def token_ok_def all_space_def Let_def)
next
  case False
  let ?p = "last ts"
  have ts: "ts = butlast ts @ [?p]" using False by simp
  have p: "token_ok ?p" and b: "list_all token_ok (butlast ts)"
    using assms False by (auto simp: list_all_iff dest: in_set_butlastD)
  have new: "token_ok [c]" by (simp add: token_ok_def all_space_def)
  have "token_ok (?p @ [c])" if "is_space c = is_space (last ?p)"
  proof (cases "all_space ?p")
    case True
    then have "is_space (last ?p)" using p by (auto simp: token_ok_def all_space_def list_all_iff)
    then show ?thesis using True that by (simp add: token_ok_def all_space_def)
  next
    case False
    then have "list_all (\<lambda>c. \<not> is_space c) ?p" "?p \<noteq> []" using p by (auto simp: token_ok_def)
    then have "\<not> is_space (last ?p)" by (auto simp: list_all_iff)
    then show ?thesis using that \<open>list_all (\<lambda>c. \<not> is_space c) ?p\<close> by (simp add: token_ok_def)
  qed
  moreover have "concat ts = concat (butlast ts) @ ?p" using arg_cong [OF ts, of concat] by simp
  ultimately show ?thesis using False assms b new by (auto simp: add_to_tokens_def Let_def)
qed

lemma tokens_text: "concat (tokens wide t) = t \<and> list_all token_ok (tokens wide t)"
proof (induction t rule: rev_induct)
  case (snoc c t)
  then show ?case using add_to_tokens_step [of "tokens wide t" wide c] by (simp add: tokens_def)
qed (simp add: tokens_def)

lemma text_width_simps [simp]:
  "text_width wide [] = 0" "text_width wide (s @ t) = text_width wide s + text_width wide t"
  "text_width wide (c # t) = advance wide c + text_width wide t"
  by (simp_all add: text_width_def)

lemma advance_bounds: "0 < advance wide c" "advance wide c \<le> 1"
  by (simp_all add: advance_def)

lemma text_width_nonneg: "0 \<le> text_width wide t"
proof (induction t)
  case (Cons c t)
  then show ?case using advance_bounds(1) [of wide c] by simp
qed simp

lemma split_loop_pieces:
  assumes "1 \<le> capacity" "list_all (\<lambda>t. t \<noteq> [] \<and> text_width wide t \<le> capacity) pieces" "text_width wide current \<le> capacity"
  shows "concat (split_loop wide capacity pieces current t) = concat pieces @ current @ t
    \<and> list_all (\<lambda>t. t \<noteq> [] \<and> text_width wide t \<le> capacity) (split_loop wide capacity pieces current t)"
  using assms
proof (induction wide capacity pieces current t rule: split_loop.induct)
  case (2 wide capacity pieces current c cs)
  show ?case
  proof (cases "current \<noteq> [] \<and> capacity < text_width wide (current @ [c])")
    case True
    have "text_width wide [c] \<le> capacity" using advance_bounds(2) [of wide c] 2(3) by simp
    then show ?thesis using "2.IH"(1) [OF True] 2(3-5) True by simp
  next
    case False
    then have "text_width wide (current @ [c]) \<le> capacity"
      using advance_bounds(2) [of wide c] 2(3) by (cases "current = []") auto
    then show ?thesis using "2.IH"(2) [OF False] 2(3-5) False by simp
  qed
qed auto

definition sized_tokens :: "(nat \<Rightarrow> bool) \<Rightarrow> rat \<Rightarrow> utext \<Rightarrow> utext list" where
  "sized_tokens wide capacity text = concat (map (\<lambda>t. if capacity < text_width wide t
     then split_oversized wide t capacity else [t]) (tokens wide text))"

lemma token_ok_part: "token_ok (concat ts) \<Longrightarrow> t \<in> set ts \<Longrightarrow> t \<noteq> [] \<Longrightarrow> token_ok t"
  by (auto simp: token_ok_def all_space_def list_all_iff)

lemma sized_tokens_text:
  assumes "1 \<le> capacity"
  shows "concat (sized_tokens wide capacity text) = text
    \<and> list_all (\<lambda>t. token_ok t \<and> text_width wide t \<le> capacity) (sized_tokens wide capacity text)"
proof -
  have piece: "concat (split_oversized wide t capacity) = t
      \<and> list_all (\<lambda>t. t \<noteq> [] \<and> text_width wide t \<le> capacity) (split_oversized wide t capacity)" for t
    using split_loop_pieces [OF assms, of wide "[]" "[]" t] assms by (simp add: split_oversized_def)
  have pieces_ok: "token_ok u" if "token_ok t" "u \<in> set (split_oversized wide t capacity)" for t u
    using token_ok_part [of "split_oversized wide t capacity" u] piece [of t] that by (auto simp: list_all_iff)
  let ?F = "\<lambda>t. if capacity < text_width wide t then split_oversized wide t capacity else [t]"
  have one: "concat (?F t) = t" "list_all (\<lambda>t. token_ok t \<and> text_width wide t \<le> capacity) (?F t)" if "token_ok t" for t
    using that piece [of t] pieces_ok [OF that] by (simp_all add: list_all_iff)
  have "concat (concat (map ?F ts)) = concat ts" if "list_all token_ok ts" for ts
    using that by (induction ts) (simp_all only: list.pred_inject list.map concat.simps concat_append one simp_thms)
  moreover have "list_all (\<lambda>t. token_ok t \<and> text_width wide t \<le> capacity) (concat (map ?F ts))" if "list_all token_ok ts" for ts
    using that by (induction ts) (simp_all only: list.pred_inject list.map concat.simps list_all_append one simp_thms)
  ultimately show ?thesis using tokens_text [of wide "text"] by (simp only: sized_tokens_def simp_thms)
qed

section \<open>Lines\<close>

text \<open>
  A line is opening marks carried over from the line before, text that fits, and then only tokens
  that must not start a line
\<close>

definition line_shape :: "(nat \<Rightarrow> bool) \<Rightarrow> rat \<Rightarrow> utext \<Rightarrow> bool" where
  "line_shape wide capacity t \<longleftrightarrow> (\<exists>opens body hung. t = opens @ body @ hung \<and> set opens \<subseteq> set NO_LINE_END
     \<and> text_width wide body \<le> capacity \<and> (hung = [] \<or> hd hung \<in> set NO_LINE_START))"

definition line_ok :: "(nat \<Rightarrow> bool) \<Rightarrow> rat \<Rightarrow> utext \<Rightarrow> bool" where
  "line_ok wide capacity t \<longleftrightarrow> t \<noteq> [] \<and> \<not> is_space (hd t) \<and> \<not> is_space (last t) \<and> line_shape wide capacity t"

lemma line_shapeI:
  "set opens \<subseteq> set NO_LINE_END \<Longrightarrow> text_width wide body \<le> capacity \<Longrightarrow> hung = [] \<or> hd hung \<in> set NO_LINE_START
    \<Longrightarrow> line_shape wide capacity (opens @ body @ hung)"
  unfolding line_shape_def by blast

lemma line_shape_prefix:
  assumes "line_shape wide capacity (s @ t)" "0 \<le> capacity"
  shows "line_shape wide capacity s"
proof -
  obtain opens body hung where o: "s @ t = opens @ body @ hung" "set opens \<subseteq> set NO_LINE_END"
      "text_width wide body \<le> capacity" "hung = [] \<or> hd hung \<in> set NO_LINE_START"
    using assms(1) by (auto simp: line_shape_def)
  consider (short) us where "opens = s @ us" | (body) us vs where "s = opens @ us" "body = us @ vs"
    | (hung) us vs where "s = opens @ body @ us" "hung = us @ vs"
    using o(1) by (auto simp: append_eq_append_conv2)
  then show ?thesis
  proof cases
    case short
    then show ?thesis using line_shapeI [of s wide "[]" capacity "[]"] o(2) assms(2) by simp
  next
    case body
    have "text_width wide us \<le> capacity" using o(3) text_width_nonneg [of wide vs] body(2) by simp
    then show ?thesis using line_shapeI [OF o(2), of wide us capacity "[]"] body(1) by simp
  next
    case hung
    have "us = [] \<or> hd us \<in> set NO_LINE_START" using o(4) hung(2) by (cases us) auto
    then show ?thesis using line_shapeI [OF o(2,3)] hung(1) by simp
  qed
qed

lemma carry_split:
  assumes "carry r c = (kept, carried)"
  shows "kept @ carried = rev r @ c" "r \<noteq> [] \<Longrightarrow> kept \<noteq> []" "set c \<subseteq> set NO_LINE_END \<Longrightarrow> set carried \<subseteq> set NO_LINE_END"
    and "length kept \<le> 1 \<or> last kept \<notin> set NO_LINE_END"
  using assms
proof (induction r c rule: carry.induct)
  case (1 c d cs carried)
  {
    case 1
    then show ?case using "1.IH"(1) by (auto split: if_splits)
  next
    case 2
    then show ?case using "1.IH"(2) by (auto split: if_splits)
  next
    case 3
    then show ?case using "1.IH"(3) by (auto split: if_splits)
  next
    case 4
    then show ?case using "1.IH"(4) by (auto split: if_splits)
  }
qed auto

lemma opening_marks_not_space: "c \<in> set NO_LINE_END \<Longrightarrow> \<not> is_space c"
  by (auto simp: NO_LINE_END_def is_space_def space_codes_def)

lemma token_ok_start: "token_ok t \<Longrightarrow> \<not> all_space t \<Longrightarrow> \<not> is_space (hd t)"
  by (cases t) (auto simp: token_ok_def)

lemma rstrip_line:
  assumes "kept \<noteq> []" "\<not> is_space (hd kept)" "line_shape wide capacity kept" "0 \<le> capacity"
  shows "line_ok wide capacity (rstrip kept)"
proof -
  note start = rstrip_start [OF assms(1,2)]
  obtain s where "kept = rstrip kept @ s" using rstrip_decomp by blast
  then have "line_shape wide capacity (rstrip kept)" using line_shape_prefix assms(3,4) by metis
  then show ?thesis using start assms(2) rstrip_end [of kept] by (simp add: line_ok_def)
qed

definition current_ok :: "(nat \<Rightarrow> bool) \<Rightarrow> rat \<Rightarrow> utext \<Rightarrow> bool" where
  "current_ok wide capacity t \<longleftrightarrow> t = [] \<or> \<not> is_space (hd t) \<and> line_shape wide capacity t"

lemma wrap_loop_lines:
  assumes "list_all (\<lambda>t. token_ok t \<and> text_width wide t \<le> capacity) ts" "list_all (line_ok wide capacity) lines"
    and "current_ok wide capacity current" "0 \<le> capacity"
  shows "list_all (line_ok wide capacity) (wrap_loop wide capacity lines current ts)
    \<and> concat (map ink (wrap_loop wide capacity lines current ts)) = concat (map ink lines) @ ink current @ ink (concat ts)"
  using assms
proof (induction wide capacity lines current ts rule: wrap_loop.induct)
  case (1 wide capacity lines current)
  then show ?case using rstrip_line [of current] by (auto simp: current_ok_def)
next
  case (2 wide capacity lines current token ts)
  have token: "token_ok token" "text_width wide token \<le> capacity"
    and ts: "list_all (\<lambda>t. token_ok t \<and> text_width wide t \<le> capacity) ts" using "2.prems"(1) by simp_all
  have alone: "line_shape wide capacity (opens @ token)" if "set opens \<subseteq> set NO_LINE_END" for opens
    using line_shapeI [OF that token(2), of "[]"] by simp
  show ?case
  proof (cases "current = []")
    case True
    have "current_ok wide capacity (if all_space token then [] else token)"
      using alone [of "[]"] token_ok_start [OF token(1)] by (simp add: current_ok_def)
    from "2.IH"(1) [OF True ts "2.prems"(2) this "2.prems"(4)] show ?thesis using True by (simp add: ink_all_space)
  next
    case False
    then have cur: "\<not> is_space (hd current)" "line_shape wide capacity current" using "2.prems"(3) by (auto simp: current_ok_def)
    show ?thesis
    proof (cases "text_width wide (current @ token) \<le> capacity \<or> hd token \<in> set NO_LINE_START")
      case True
      have "line_shape wide capacity (current @ token)"
      proof (cases "text_width wide (current @ token) \<le> capacity")
        case True
        then show ?thesis using line_shapeI [of "[]" wide "current @ token" capacity "[]"] by simp
      next
        case False
        then have start: "hd token \<in> set NO_LINE_START" using \<open>_ \<or> _\<close> by blast
        obtain opens body hung where o: "current = opens @ body @ hung" "set opens \<subseteq> set NO_LINE_END"
            "text_width wide body \<le> capacity" "hung = [] \<or> hd hung \<in> set NO_LINE_START"
          using cur(2) by (auto simp: line_shape_def)
        have "hd (hung @ token) \<in> set NO_LINE_START" using o(4) start by (cases hung) auto
        then show ?thesis using line_shapeI [OF o(2,3), of "hung @ token"] o(1) by simp
      qed
      then have "current_ok wide capacity (current @ token)" using False cur(1) by (simp add: current_ok_def)
      from "2.IH"(2) [OF False True ts "2.prems"(2) this "2.prems"(4)] show ?thesis using False True by simp
    next
      case over: False
      obtain kept carried where split: "carry (rev current) [] = (kept, carried)" by fastforce
      note parts = carry_split [OF split, simplified]
      have kept: "kept \<noteq> []" using parts(2) False by simp
      have hd: "hd kept = hd current" using parts(1) kept by (metis hd_append2)
      have "line_shape wide capacity kept" using line_shape_prefix [of wide capacity kept carried] cur(2) parts(1) "2.prems"(4) by simp
      then have line: "line_ok wide capacity (rstrip kept)" using rstrip_line [OF kept] cur(1) hd "2.prems"(4) by simp
      let ?next = "if all_space token then carried else carried @ token"
      have "line_shape wide capacity carried" using line_shapeI [OF parts(3), of wide "[]" capacity "[]"] "2.prems"(4) by simp
      moreover have "\<not> is_space (hd carried)" if "carried \<noteq> []"
        using parts(3) that opening_marks_not_space by (cases carried) auto
      ultimately have "current_ok wide capacity ?next"
        using alone [OF parts(3)] token_ok_start [OF token(1)] by (cases carried) (auto simp: current_ok_def)
      from "2.IH"(3) [OF False over split [symmetric] refl ts _ this "2.prems"(4)] "2.prems"(2) line
      show ?thesis using False over split arg_cong [OF parts(1), of ink] by (auto simp: ink_all_space)
    qed
  qed
qed

section \<open>Documents\<close>

text \<open>Characters that end a line of the document or open an override tag\<close>

definition plain_code :: "nat \<Rightarrow> bool" where
  "plain_code c \<longleftrightarrow> \<not> is_line_break c \<and> c \<noteq> 123 \<and> c \<noteq> 125"

lemma decimal_digits: "c \<in> set (decimal n) \<Longrightarrow> is_digit c"
proof (induction n rule: decimal.induct)
  case (1 n)
  show ?case
  proof (cases "n < 10")
    case True
    then show ?thesis using "1.prems" by (subst (asm) decimal.simps) (simp add: is_digit_digit_char)
  next
    case False
    then show ?thesis using "1.prems" "1.IH" by (subst (asm) decimal.simps) (auto simp: is_digit_digit_char)
  qed
qed

lemma plain_digit: "is_digit c \<Longrightarrow> plain_code (of_char c)"
  by (auto simp: is_digit_def plain_code_def is_line_break_def)

lemma decimal_plain: "\<forall>c \<in> set (codes (decimal n)). plain_code c"
  by (auto simp: codes_def intro: plain_digit decimal_digits)

lemma two_digits_plain: "\<forall>c \<in> set (codes (two_digits n)). plain_code c"
  using decimal_plain [of n] by (auto simp: two_digits_def codes_def plain_code_def is_line_break_def)

lemma timestamp_plain: "\<forall>c \<in> set (codes (timestamp us)). plain_code c"
  using decimal_plain two_digits_plain by (auto simp: timestamp_def Let_def codes_def plain_code_def is_line_break_def)

lemma join_with_set: "set (join_with sep ts) \<subseteq> set sep \<union> \<Union> (set ` set ts)"
  by (induction sep ts rule: join_with.induct) auto

lemma split_lines_plain: "\<forall>c \<in> set current. \<not> is_line_break c \<Longrightarrow> l \<in> set (split_lines current t) \<Longrightarrow> c \<in> set l \<Longrightarrow> \<not> is_line_break c"
  by (induction current t arbitrary: l rule: split_lines.induct) (auto split: if_splits)

lemma strip_subset: "set (strip t) \<subseteq> set t" "set (rstrip t) \<subseteq> set t" "set (lstrip t) \<subseteq> set t"
proof -
  show l: "set (lstrip t) \<subseteq> set t" for t by (auto simp: lstrip_def dest: set_dropWhileD)
  show r: "set (rstrip t) \<subseteq> set t" for t by (auto simp: rstrip_def dest: set_dropWhileD)
  show "set (strip t) \<subseteq> set t" unfolding strip_def using l r by blast
qed

lemma one_line_unbroken: "c \<in> set (one_line t) \<Longrightarrow> \<not> is_line_break c"
proof -
  assume "c \<in> set (one_line t)"
  then consider "c = 32" | l where "l \<in> set (split_lines [] t)" "c \<in> set (strip l)"
    using join_with_set [of "[32]" "map strip (filter (\<lambda>l. strip l \<noteq> []) (split_lines [] t))"]
    by (auto simp: one_line_def)
  then show ?thesis
  proof cases
    case 2
    then show ?thesis using strip_subset(1) [of l] split_lines_plain [of "[]" l t c] by auto
  qed (simp add: is_line_break_def)
qed

lemma carry_set: "carry r c = (kept, carried) \<Longrightarrow> set kept \<union> set carried = set r \<union> set c"
  using arg_cong [OF carry_split(1), of r c kept carried set] by auto

lemma wrap_loop_set:
  "\<Union> (set ` set (wrap_loop wide capacity lines current ts)) \<subseteq> \<Union> (set ` set lines) \<union> set current \<union> set (concat ts)"
proof (induction wide capacity lines current ts rule: wrap_loop.induct)
  case (1 wide capacity lines current)
  then show ?case using strip_subset(2) [of current] by auto
next
  case (2 wide capacity lines current token ts)
  show ?case
  proof (cases "current = []")
    case True
    then show ?thesis using "2.IH"(1) by (auto split: if_splits)
  next
    case False
    show ?thesis
    proof (cases "text_width wide (current @ token) \<le> capacity \<or> hd token \<in> set NO_LINE_START")
      case True
      then show ?thesis using False "2.IH"(2) by auto
    next
      case over: False
      obtain kept carried where split: "carry (rev current) [] = (kept, carried)" by fastforce
      have sets: "set kept \<subseteq> set current" "set carried \<subseteq> set current" using carry_set [OF split] by auto
      have "set (rstrip kept) \<subseteq> set current" using strip_subset(2) [of kept] sets by blast
      then have lines: "\<Union> (set ` set (lines @ [rstrip kept])) \<subseteq> \<Union> (set ` set lines) \<union> set current" by auto
      let ?next = "if all_space token then carried else carried @ token"
      have nxt: "set ?next \<subseteq> set current \<union> set token" using sets by auto
      have step: "wrap_loop wide capacity lines current (token # ts) = wrap_loop wide capacity (lines @ [rstrip kept]) ?next ts"
        using False over split by simp
      note "2.IH"(3) [OF False over split [symmetric] refl]
      also have "\<Union> (set ` set (lines @ [rstrip kept])) \<union> set ?next \<union> set (concat ts)
          \<subseteq> (\<Union> (set ` set lines) \<union> set current) \<union> (set current \<union> set token) \<union> set (concat ts)"
        by (rule Un_mono [OF Un_mono [OF lines nxt] subset_refl])
      also have "\<dots> = \<Union> (set ` set lines) \<union> set current \<union> set (concat (token # ts))" by (simp only: concat.simps set_append Un_ac Un_absorb Un_left_absorb)
      finally show ?thesis unfolding step .
    qed
  qed
qed

lemma sized_tokens_concat: "1 \<le> capacity \<Longrightarrow> concat (sized_tokens wide capacity t) = t"
  using sized_tokens_text by blast

lemma wrap_chinese_sized:
  "wrap_chinese wide t w = wrap_loop wide (max (of_int \<lfloor>w\<rfloor>) 1) [] [] (sized_tokens wide (max (of_int \<lfloor>w\<rfloor>) 1) (strip t))"
  by (simp add: wrap_chinese_def sized_tokens_def Let_def)

lemma wrap_chinese_set: "l \<in> set (wrap_chinese wide t w) \<Longrightarrow> set l \<subseteq> set t"
proof -
  let ?c = "max (of_int \<lfloor>w\<rfloor>) 1 :: rat"
  assume "l \<in> set (wrap_chinese wide t w)"
  then have "set l \<subseteq> set (concat (sized_tokens wide ?c (strip t)))"
    using wrap_loop_set [of wide ?c "[]" "[]" "sized_tokens wide ?c (strip t)"] by (auto simp: wrap_chinese_sized)
  then show ?thesis using strip_subset(1) [of t] sized_tokens_concat [of ?c wide "strip t"] by auto
qed

lemma subtitle_lines_unbroken:
  assumes "l \<in> set (subtitle_lines wide t layout)" "c \<in> set l"
  shows "\<not> is_line_break c"
  using assms wrap_chinese_set [of l wide "one_line t"] one_line_unbroken [of c t]
  by (auto simp: subtitle_lines_def Let_def split: if_splits)

section \<open>Properties\<close>

text \<open>
  Line breaking keeps the text.  The lines have, one after the other, exactly its
  characters that are not white space; no line is empty or starts or ends with white space; and each
  consists of opening marks carried over, text within the capacity, and then only what may not start
  a line.
\<close>

theorem wrap_chinese_lines:
  "concat (map ink (wrap_chinese wide t w)) = ink t
    \<and> list_all (line_ok wide (max (of_int \<lfloor>w\<rfloor>) 1)) (wrap_chinese wide t w)"
proof -
  let ?c = "max (of_int \<lfloor>w\<rfloor>) 1 :: rat"
  have c: "1 \<le> ?c" "0 \<le> ?c" by auto
  note sized = sized_tokens_text [OF c(1), of wide "strip t"]
  show ?thesis
    using wrap_loop_lines [of wide ?c "sized_tokens wide ?c (strip t)" "[]" "[]"] sized c(2)
    by (simp add: wrap_chinese_sized current_ok_def)
qed

text \<open>
  How far a line overflows has no bound.  A half-width word that follows a closing mark
  without a space is part of the mark's token and hangs with it, so text divided by commas only, such
  as \<open>a,a,a\<close> after a Chinese character, never breaks, whatever the capacity of a line.
\<close>

theorem hung_words_never_break:
  assumes "wide 20013" "\<not> wide 44" "\<not> wide 97"
  shows "wrap_chinese wide (20013 # concat (replicate n [44, 97])) w = [20013 # concat (replicate n [44, 97])]
    \<and> text_width wide (20013 # concat (replicate n [44, 97])) = of_nat n + 1"
proof -
  let ?t = "20013 # concat (replicate n [44, 97]) :: utext"
  let ?c = "max (of_int \<lfloor>w\<rfloor>) 1 :: rat"
  have toks: "tokens wide (20013 # concat (replicate n [44, 97])) = [20013] # replicate n [44, 97]" for n
  proof (induction n)
    case 0
    show ?case by (simp add: tokens_def add_to_tokens_def)
  next
    case (Suc n)
    have rep: "replicate (Suc n) x = replicate n x @ [x]" for x :: utext by (simp add: replicate_append_same)
    have last: "last ([20013] # replicate n [44, 97]) = (if n = 0 then [20013] else [44, 97])" by simp
    have "tokens wide (20013 # concat (replicate (Suc n) [44, 97]))
        = add_to_tokens wide (add_to_tokens wide (tokens wide (20013 # concat (replicate n [44, 97]))) 44) 97"
      unfolding rep by (simp add: tokens_def)
    also have "add_to_tokens wide (tokens wide (20013 # concat (replicate n [44, 97]))) 44 = [20013] # replicate n [44, 97] @ [[44]]"
      unfolding Suc.IH by (simp add: add_to_tokens_def Let_def NO_LINE_START_def)
    also have "add_to_tokens wide ([20013] # replicate n [44, 97] @ [[44]]) 97 = [20013] # replicate n [44, 97] @ [[44, 97]]"
      using assms(2,3) by (simp add: add_to_tokens_def Let_def NO_LINE_START_def advance_def is_space_def space_codes_def butlast_append)
    finally show ?case unfolding rep .
  qed
  have ends: "\<not> is_space 20013" "\<not> is_space 97" by (simp_all add: is_space_def space_codes_def)
  have "last ?t = (if n = 0 then 20013 else 97)" by (induction n) auto
  then have tail: "\<not> is_space (last ?t)" using ends by simp
  have r: "rstrip ?t = ?t"
  proof -
    obtain us where us: "?t = us @ [last ?t]" by (metis append_butlast_last_id list.distinct(1))
    then have "rev ?t = last ?t # rev us" by (metis rev.simps(2) rev_append rev_rev_ident singleton_rev_conv append_Cons append_Nil)
    then have "dropWhile is_space (rev ?t) = rev ?t" using tail by simp
    then show ?thesis by (simp add: rstrip_def)
  qed
  have s: "strip ?t = ?t" using ends(1) r by (simp add: strip_def lstrip_def)
  have sized: "sized_tokens wide ?c ?t = [20013] # replicate n [44, 97]"
    using assms by (simp add: sized_tokens_def toks advance_def max_def concat_map_singleton [unfolded id_def])
  have loop: "wrap_loop wide ?c [] u (replicate n [44, 97]) = [rstrip (u @ concat (replicate n [44, 97]))]" if "u \<noteq> []" for u
    using that by (induction n arbitrary: u) (simp_all add: NO_LINE_START_def)
  have "wrap_chinese wide ?t w = [?t]"
    unfolding wrap_chinese_sized s sized using loop [of "[20013]"] ends(1) r by (simp add: all_space_def)
  moreover have "text_width wide ?t = of_nat n + 1" using assms by (induction n) (simp_all add: advance_def)
  ultimately show ?thesis by blast
qed

theorem hung_words_never_break_witness:
  "wrap_chinese (\<lambda>c. 11904 \<le> c) (20013 # concat (replicate 100 [44, 97])) 14 = [20013 # concat (replicate 100 [44, 97])]"
  using hung_words_never_break [of "\<lambda>c. 11904 \<le> c" 100 14] by simp

text \<open>
  Property C40: an event is one line of the document and opens no override tag: whatever the text of a
  subtitle, its dialogue line has no line break and no brace.
\<close>

theorem dialogue_plain: "list_all (list_all plain_code) (ass_events wide cell subtitles p)"
proof -
  have lines: "plain_code c" if "l \<in> set (subtitle_lines wide t layout)" "c \<in> set (escape l)" for l t layout c
    using subtitle_lines_unbroken [OF that(1)] that(2)
    by (auto simp: escape_def escape_char_def plain_code_def is_line_break_def)
  have "plain_code c" if "c \<in> set (dialogue wide layout b)" for layout b c
  proof -
    let ?sep = "codes [CHR 0x5C, CHR ''N'']"
    have sep: "\<forall>c \<in> set ?sep. plain_code c" by (simp add: codes_def plain_code_def is_line_break_def)
    have fixed: "\<forall>c \<in> set (codes ''Dialogue: 0,'') \<union> set (codes '','') \<union> set (codes '',Subtitle,,0,0,0,,''). plain_code c"
      by (simp add: codes_def plain_code_def is_line_break_def)
    show ?thesis
      using that fixed timestamp_plain sep lines
        join_with_set [of ?sep "map escape (subtitle_lines wide (bu_text b) layout)"]
      unfolding dialogue_def codes_append set_append by auto
  qed
  then show ?thesis by (auto simp: ass_events_def Let_def list_all_iff)
qed

text \<open>Reading a timestamp \<open>H:MM:SS.cc\<close>, in hundredths of a second\<close>

definition read_timestamp :: "string \<Rightarrow> nat" where
  "read_timestamp s =
     (let hours = takeWhile is_digit s; rest = drop (length hours) s
      in 360000 * digits_value hours + 6000 * digits_value (take 2 (drop 1 rest))
         + 100 * digits_value (take 2 (drop 4 rest)) + digits_value (take 2 (drop 7 rest)))"

lemma two_digits_read: "n < 100 \<Longrightarrow> length (two_digits n) = 2 \<and> digits_value (two_digits n) = n"
proof -
  assume n: "n < 100"
  have "length (two_digits n) = 2"
  proof (cases "n < 10")
    case True
    then show ?thesis by (simp add: two_digits_def decimal.simps)
  next
    case False
    then have "decimal n = decimal (n div 10) @ [digit_char (n mod 10)]" "n div 10 < 10" using n by (simp_all add: decimal.simps)
    then show ?thesis using False by (simp add: two_digits_def decimal.simps [of "n div 10"])
  qed
  moreover have "digits_value (CHR ''0'' # s) = digits_value s" for s by (simp add: digits_value_def)
  ultimately show ?thesis by (simp add: two_digits_def)
qed

text \<open>
  A timestamp reads back: it stands for the time of the event rounded to a hundredth of a
  second, whatever its length.
\<close>

theorem timestamp_roundtrip: "read_timestamp (timestamp us) = nat (max (py_round (of_int us / 10000)) 0)"
proof -
  define n where "n = nat (max (py_round (of_int us / 10000)) 0)"
  let ?h = "n div 100 div 60 div 60" and ?m = "n div 100 div 60 mod 60" and ?s = "n div 100 mod 60" and ?c = "n mod 100"
  let ?rest = "'':'' @ two_digits ?m @ '':'' @ two_digits ?s @ ''.'' @ two_digits ?c"
  have t: "timestamp us = decimal ?h @ ?rest" by (simp add: timestamp_def n_def Let_def)
  have "takeWhile is_digit (decimal ?h @ ?rest) = decimal ?h"
    by (subst takeWhile_append2) (auto dest: decimal_digits simp: is_digit_def)
  moreover have "?m < 60" "?s < 60" "?c < 100" by (rule mod_less_divisor, simp)+
  then have "?m < 100" "?s < 100" "?c < 100" by simp_all
  note digits = two_digits_read [OF this(1)] two_digits_read [OF this(2)] two_digits_read [OF this(3)]
  ultimately have "read_timestamp (timestamp us) = 360000 * ?h + 6000 * ?m + 100 * ?s + ?c"
    by (simp add: t read_timestamp_def Let_def)
  also have "\<dots> = n"
  proof -
    have parts: "n = 100 * (n div 100) + ?c" "n div 100 = 60 * (n div 100 div 60) + ?s"
      "n div 100 div 60 = 60 * ?h + ?m" by simp_all
    have "k = 100 * (60 * (60 * h + m) + s) + c \<Longrightarrow> 360000 * h + 6000 * m + 100 * s + c = k" for k h m s c :: nat by simp
    then show ?thesis using parts by metis
  qed
  finally show ?thesis by (simp add: n_def)
qed

end
