(* ===== verification/TextDiff.thy ===== *)
theory TextDiff
  imports Prelude
begin

text \<open>
  The alignment of two versions of a source text (\<open>align_texts\<close> and \<open>TextAlignment\<close> of
  \<open>lib/episode/source_remap.py\<close>), with what the module uses of \<open>difflib\<close> and \<open>str.splitlines\<close>.
  A text is a list of code points; positions in it are integers, as in the code.
\<close>

section \<open>Slices\<close>

text \<open>\<open>t[a:b]\<close>: negative positions count from the end, positions outside are moved to the ends\<close>

definition clamp :: "int \<Rightarrow> int \<Rightarrow> int" where
  "clamp n i = (if i < 0 then max 0 (i + n) else min i n)"

definition py_slice :: "'a list \<Rightarrow> int \<Rightarrow> int \<Rightarrow> 'a list" where
  "py_slice t a b =
     (let n = int (length t); lo = clamp n a; hi = clamp n b in take (nat (hi - lo)) (drop (nat lo) t))"

section \<open>\<open>difflib.SequenceMatcher\<close>\<close>

text \<open>
  Without junk and without \<open>autojunk\<close> the matcher takes the longest common block, of several the one
  that starts first in the old text, and of those the one that starts first in the new text; then it
  matches what is left of the block and what is right of it.
\<close>

fun match_length :: "'a list \<Rightarrow> 'a list \<Rightarrow> nat" where
  "match_length (x # xs) (y # ys) = (if x = y then Suc (match_length xs ys) else 0)"
| "match_length xs ys = 0"

definition longer :: "'a list \<Rightarrow> 'a list \<Rightarrow> nat \<times> nat \<Rightarrow> nat \<times> nat \<times> nat \<Rightarrow> nat \<times> nat \<times> nat" where
  "longer xs ys = (\<lambda>(i, j) (bi, bj, bk).
     let k = match_length (drop i xs) (drop j ys) in if bk < k then (i, j, k) else (bi, bj, bk))"

definition find_longest_match :: "'a list \<Rightarrow> 'a list \<Rightarrow> nat \<times> nat \<times> nat" where
  "find_longest_match xs ys =
     fold (longer xs ys) (concat (map (\<lambda>i. map (\<lambda>j. (i, j)) [0..<length ys]) [0..<length xs])) (0, 0, 0)"

lemma match_length_le: "match_length xs ys \<le> length xs" "match_length xs ys \<le> length ys"
  by (induction xs ys rule: match_length.induct) auto

lemma match_length_take: "take (match_length xs ys) xs = take (match_length xs ys) ys"
  by (induction xs ys rule: match_length.induct) auto

lemma find_longest_match_block:
  assumes "find_longest_match xs ys = (i, j, k)" "0 < k"
  shows "i + k \<le> length xs" "j + k \<le> length ys" "take k (drop i xs) = take k (drop j ys)"
proof -
  define ok where "ok = (\<lambda>(i, j, k). 0 < k \<longrightarrow> i + k \<le> length xs \<and> j + k \<le> length ys
    \<and> take k (drop i xs) = take k (drop j ys))"
  have step: "ok (longer xs ys p b)" if "ok b" for p b
  proof (cases p; cases b)
    fix i j bi bj bk
    assume p: "p = (i, j)" and b: "b = (bi, bj, bk)"
    have "match_length (drop i xs) (drop j ys) \<le> length xs - i" "match_length (drop i xs) (drop j ys) \<le> length ys - j"
      using match_length_le [of "drop i xs" "drop j ys"] by simp_all
    then show ?thesis
      using that match_length_take [of "drop i xs" "drop j ys"] by (auto simp: p b ok_def longer_def Let_def)
  qed
  have "ok b \<Longrightarrow> ok (fold (longer xs ys) ps b)" for ps b
  proof (induction ps arbitrary: b)
    case (Cons p ps)
    from Cons.IH [OF step [OF Cons.prems]] show ?case by simp
  qed simp
  moreover have "ok (0, 0, 0)" by (simp add: ok_def)
  ultimately have "ok (find_longest_match xs ys)" unfolding find_longest_match_def by blast
  then have "ok (i, j, k)" by (simp only: assms(1))
  then show "i + k \<le> length xs" "j + k \<le> length ys" "take k (drop i xs) = take k (drop j ys)"
    using assms(2) by (auto simp: ok_def)
qed

definition shift_block :: "nat \<Rightarrow> nat \<Rightarrow> nat \<times> nat \<times> nat \<Rightarrow> nat \<times> nat \<times> nat" where
  "shift_block di dj = (\<lambda>(i, j, k). (di + i, dj + j, k))"

function matching_blocks :: "'a list \<Rightarrow> 'a list \<Rightarrow> (nat \<times> nat \<times> nat) list" where
  "matching_blocks xs ys =
     (let (i, j, k) = find_longest_match xs ys
      in if k = 0 then []
         else matching_blocks (take i xs) (take j ys) @ (i, j, k)
              # map (shift_block (i + k) (j + k)) (matching_blocks (drop (i + k) xs) (drop (j + k) ys)))"
  by auto
termination
proof (relation "measure (\<lambda>(xs, ys). length xs)")
  fix xs ys :: "'a list" and t i u j k
  assume m: "t = find_longest_match xs ys" "(i, u) = t" "(j, k) = u" "k \<noteq> 0"
  then have "i + k \<le> length xs" using find_longest_match_block(1) [of xs ys i j k] by auto
  then show "((take i xs, take j ys), xs, ys) \<in> measure (\<lambda>(xs, ys). length xs)"
    and "((drop (i + k) xs, drop (j + k) ys), xs, ys) \<in> measure (\<lambda>(xs, ys). length xs)"
    using m(4) by simp_all
qed simp

declare matching_blocks.simps [simp del]

text \<open>Blocks that touch in both texts become one; the last block, of size 0, is the end of both\<close>

fun merge_blocks :: "nat \<times> nat \<times> nat \<Rightarrow> (nat \<times> nat \<times> nat) list \<Rightarrow> (nat \<times> nat \<times> nat) list" where
  "merge_blocks (i1, j1, k1) [] = (if 0 < k1 then [(i1, j1, k1)] else [])"
| "merge_blocks (i1, j1, k1) ((i2, j2, k2) # bs) =
     (if i1 + k1 = i2 \<and> j1 + k1 = j2 then merge_blocks (i1, j1, k1 + k2) bs
      else (if 0 < k1 then [(i1, j1, k1)] else []) @ merge_blocks (i2, j2, k2) bs)"

definition get_matching_blocks :: "'a list \<Rightarrow> 'a list \<Rightarrow> (nat \<times> nat \<times> nat) list" where
  "get_matching_blocks xs ys = merge_blocks (0, 0, 0) (matching_blocks xs ys) @ [(length xs, length ys, 0)]"

datatype tag = Equal | Replace | Delete | Insert

record opcode =
  op_tag :: tag
  op_i1 :: int
  op_i2 :: int
  op_j1 :: int
  op_j2 :: int

fun opcodes_between :: "nat \<Rightarrow> nat \<Rightarrow> (nat \<times> nat \<times> nat) list \<Rightarrow> opcode list" where
  "opcodes_between i j [] = []"
| "opcodes_between i j ((ai, bj, n) # bs) =
     (if i < ai \<and> j < bj then [\<lparr>op_tag = Replace, op_i1 = int i, op_i2 = int ai, op_j1 = int j, op_j2 = int bj\<rparr>]
      else if i < ai then [\<lparr>op_tag = Delete, op_i1 = int i, op_i2 = int ai, op_j1 = int j, op_j2 = int bj\<rparr>]
      else if j < bj then [\<lparr>op_tag = Insert, op_i1 = int i, op_i2 = int ai, op_j1 = int j, op_j2 = int bj\<rparr>]
      else [])
     @ (if 0 < n
        then [\<lparr>op_tag = Equal, op_i1 = int ai, op_i2 = int (ai + n), op_j1 = int bj, op_j2 = int (bj + n)\<rparr>]
        else [])
     @ opcodes_between (ai + n) (bj + n) bs"

definition get_opcodes :: "'a list \<Rightarrow> 'a list \<Rightarrow> opcode list" where
  "get_opcodes xs ys = opcodes_between 0 0 (get_matching_blocks xs ys)"

section \<open>Alignment\<close>

definition CHAR_ALIGN_LIMIT :: nat where "CHAR_ALIGN_LIMIT = 8000"

record text_alignment =
  ta_opcodes :: "opcode list"
  ta_old_length :: int
  ta_new_length :: int

definition map_position :: "text_alignment \<Rightarrow> int \<Rightarrow> bool \<Rightarrow> int" where
  "map_position al position after_insertions =
     (case find (\<lambda>op. op_tag op = Insert \<and> op_i1 op = position) (ta_opcodes al) of
        Some op \<Rightarrow> if after_insertions then op_j2 op else op_j1 op
      | None \<Rightarrow>
          (case find (\<lambda>op. op_i1 op \<le> position \<and> position < op_i2 op) (ta_opcodes al) of
             Some op \<Rightarrow>
               if op_tag op = Equal then op_j1 op + (position - op_i1 op)
               else if op_tag op = Delete then op_j1 op
               else op_j1 op + (position - op_i1 op) * (op_j2 op - op_j1 op) div (op_i2 op - op_i1 op)
           | None \<Rightarrow> if ta_old_length al \<le> position then ta_new_length al else position))"

definition op_changes :: "int \<Rightarrow> int \<Rightarrow> bool \<Rightarrow> bool \<Rightarrow> opcode \<Rightarrow> bool" where
  "op_changes start end at_start at_end op =
     (if op_tag op = Equal then False
      else if op_tag op = Insert then
        (start < op_i1 op \<and> op_i1 op < end) \<or> (op_i1 op = start \<and> at_start) \<or> (op_i1 op = end \<and> at_end)
      else op_i1 op < end \<and> start < op_i2 op)"

definition changed_between :: "text_alignment \<Rightarrow> int \<Rightarrow> int \<Rightarrow> bool \<Rightarrow> bool \<Rightarrow> bool" where
  "changed_between al start end insertions_at_start insertions_at_end =
     list_ex (op_changes start end insertions_at_start insertions_at_end) (ta_opcodes al)"

text \<open>\<open>str.splitlines(keepends=True)\<close>; a carriage return and a line feed are one break\<close>

fun lines_keeping_ends :: "utext \<Rightarrow> utext \<Rightarrow> utext list" where
  "lines_keeping_ends line [] = (if line = [] then [] else [line])"
| "lines_keeping_ends line (c # cs) =
     (if is_line_break c \<and> \<not> (c = 13 \<and> cs \<noteq> [] \<and> hd cs = 10)
      then (line @ [c]) # lines_keeping_ends [] cs else lines_keeping_ends (line @ [c]) cs)"

definition splitlines :: "utext \<Rightarrow> utext list" where
  "splitlines t = lines_keeping_ends [] t"

definition line_offsets :: "utext list \<Rightarrow> int list" where
  "line_offsets ls = fold (\<lambda>line offsets. offsets @ [last offsets + int (length line)]) ls [0]"

definition shift_op :: "int \<Rightarrow> int \<Rightarrow> opcode \<Rightarrow> opcode" where
  "shift_op old_base new_base op =
     op\<lparr>op_i1 := op_i1 op + old_base, op_i2 := op_i2 op + old_base, op_j1 := op_j1 op + new_base, op_j2 := op_j2 op + new_base\<rparr>"

definition align_chars :: "utext \<Rightarrow> utext \<Rightarrow> int \<Rightarrow> int \<Rightarrow> opcode list" where
  "align_chars old new old_base new_base = map (shift_op old_base new_base) (get_opcodes old new)"

definition refine_line_op :: "utext \<Rightarrow> utext \<Rightarrow> int list \<Rightarrow> int list \<Rightarrow> int \<Rightarrow> int \<Rightarrow> opcode \<Rightarrow> opcode list" where
  "refine_line_op old new old_offsets new_offsets old_base new_base op =
     (let a1 = old_offsets ! nat (op_i1 op) + old_base; a2 = old_offsets ! nat (op_i2 op) + old_base;
          b1 = new_offsets ! nat (op_j1 op) + new_base; b2 = new_offsets ! nat (op_j2 op) + new_base
      in if op_tag op = Replace \<and> a2 - a1 \<le> int CHAR_ALIGN_LIMIT \<and> b2 - b1 \<le> int CHAR_ALIGN_LIMIT
         then align_chars (py_slice old (a1 - old_base) (a2 - old_base)) (py_slice new (b1 - new_base) (b2 - new_base)) a1 b1
         else [\<lparr>op_tag = op_tag op, op_i1 = a1, op_i2 = a2, op_j1 = b1, op_j2 = b2\<rparr>])"

definition align_middle :: "utext \<Rightarrow> utext \<Rightarrow> int \<Rightarrow> int \<Rightarrow> opcode list" where
  "align_middle old new old_base new_base =
     (if old = [] \<or> new = [] then
        (if old = [] \<and> new = [] then []
         else [\<lparr>op_tag = (if old = [] then Insert else Delete), op_i1 = old_base, op_i2 = old_base + int (length old),
                op_j1 = new_base, op_j2 = new_base + int (length new)\<rparr>])
      else let old_lines = splitlines old; new_lines = splitlines new
           in concat (map (refine_line_op old new (line_offsets old_lines) (line_offsets new_lines) old_base new_base)
                (get_opcodes old_lines new_lines)))"

text \<open>The common start and end go back to whole lines, unless the line is very long\<close>

definition whole_lines_prefix :: "utext \<Rightarrow> nat \<Rightarrow> nat" where
  "whole_lines_prefix old prefix =
     (let line_start = length (dropWhile (\<lambda>c. c \<noteq> 10) (rev (take prefix old)))
      in if prefix - line_start \<le> CHAR_ALIGN_LIMIT then line_start else prefix)"

definition whole_lines_suffix :: "utext \<Rightarrow> nat \<Rightarrow> nat" where
  "whole_lines_suffix old suffix =
     (let tail = length old - suffix; rest = drop tail old
      in if 0 < tail \<and> old ! (tail - 1) \<noteq> 10 then
           (case find_index (\<lambda>c. c = 10) rest of
              Some offset \<Rightarrow>
                (let newline = tail + offset
                 in if newline + 1 - tail \<le> CHAR_ALIGN_LIMIT then length old - newline - 1 else suffix)
            | None \<Rightarrow> if suffix \<le> CHAR_ALIGN_LIMIT then 0 else suffix)
         else suffix)"

definition equal_op :: "nat \<Rightarrow> nat \<Rightarrow> nat \<Rightarrow> opcode" where
  "equal_op i j n = \<lparr>op_tag = Equal, op_i1 = int i, op_i2 = int (i + n), op_j1 = int j, op_j2 = int (j + n)\<rparr>"

definition align_texts :: "utext \<Rightarrow> utext \<Rightarrow> text_alignment" where
  "align_texts old new =
     (let common = match_length old new;
          suffix = whole_lines_suffix old (match_length (rev (drop common old)) (rev (drop common new)));
          prefix = whole_lines_prefix old common;
          middle = (\<lambda>t. take (length t - suffix - prefix) (drop prefix t))
      in \<lparr>ta_opcodes =
            (if 0 < prefix then [equal_op 0 0 prefix] else [])
            @ align_middle (middle old) (middle new) (int prefix) (int prefix)
            @ (if 0 < suffix then [equal_op (length old - suffix) (length new - suffix) suffix] else []),
          ta_old_length = int (length old), ta_new_length = int (length new)\<rparr>)"

end
