(* ===== verification/SourceRemap.thy ===== *)
theory SourceRemap
  imports TextDiff
begin

text \<open>
  What becomes of the ranges of the episodes when a file of the source text is edited, deleted, inserted
  or moved (\<open>lib/episode/source_remap.py\<close>).  A range goes from a position in one file to a position in
  the same or a later file.  A file that is not in the list is the exception of \<open>list.index\<close>, \<open>None\<close> here.
\<close>

section \<open>Documents and ranges\<close>

record source_doc =
  sd_rel_path :: utext
  sd_text :: utext

record source_span =
  sp_source_file :: utext
  sp_start :: int
  sp_end_file :: utext
  sp_end :: int

record range_remap =
  rr_episode :: int
  rr_before :: source_span
  rr_after :: "source_span option"
  rr_text_changed :: bool

fun try_map :: "('a \<Rightarrow> 'b option) \<Rightarrow> 'a list \<Rightarrow> 'b list option" where
  "try_map f [] = Some []"
| "try_map f (x # xs) =
     (case f x of None \<Rightarrow> None | Some y \<Rightarrow> (case try_map f xs of None \<Rightarrow> None | Some ys \<Rightarrow> Some (y # ys)))"

definition text_length :: "source_doc \<Rightarrow> int" where
  "text_length d = int (length (sd_text d))"

definition docs_text :: "source_doc list \<Rightarrow> utext" where
  "docs_text docs = concat (map sd_text docs)"

definition rels :: "source_doc list \<Rightarrow> utext list" where
  "rels docs = map sd_rel_path docs"

definition bases :: "source_doc list \<Rightarrow> int list" where
  "bases docs = fold (\<lambda>d bs. bs @ [last bs + text_length d]) docs [0]"

definition file_index :: "source_doc list \<Rightarrow> utext \<Rightarrow> nat option" where
  "file_index docs rel = find_index (\<lambda>r. r = rel) (rels docs)"

definition global_start :: "source_doc list \<Rightarrow> source_span \<Rightarrow> int option" where
  "global_start docs sp =
     (case file_index docs (sp_source_file sp) of None \<Rightarrow> None | Some i \<Rightarrow> Some (bases docs ! i + sp_start sp))"

definition global_end :: "source_doc list \<Rightarrow> source_span \<Rightarrow> int option" where
  "global_end docs sp =
     (case file_index docs (sp_end_file sp) of None \<Rightarrow> None | Some i \<Rightarrow> Some (bases docs ! i + sp_end sp))"

definition part :: "source_doc list \<Rightarrow> nat \<Rightarrow> int \<Rightarrow> nat \<Rightarrow> int \<Rightarrow> nat \<Rightarrow> utext" where
  "part docs first start final stop i =
     (let t = sd_text (docs ! i)
      in py_slice t (if i = first then start else 0) (if i = final then stop else int (length t)))"

definition text_between :: "source_doc list \<Rightarrow> nat \<Rightarrow> int \<Rightarrow> nat \<Rightarrow> int \<Rightarrow> utext" where
  "text_between docs first start final stop = concat (map (part docs first start final stop) [first..<Suc final])"

definition files_text :: "source_doc list \<Rightarrow> source_span \<Rightarrow> utext option" where
  "files_text docs sp =
     (case (file_index docs (sp_source_file sp), file_index docs (sp_end_file sp)) of
        (Some first, Some final) \<Rightarrow> Some (text_between docs first (sp_start sp) final (sp_end sp))
      | _ \<Rightarrow> None)"

text \<open>A start at the end of a file is the start of the next; an end at the start of a file is the end of the one before\<close>

function later_start :: "source_doc list \<Rightarrow> nat \<Rightarrow> nat \<Rightarrow> int \<Rightarrow> nat \<times> int" where
  "later_start docs final first start =
     (if first < final \<and> text_length (docs ! first) \<le> start then later_start docs final (Suc first) 0 else (first, start))"
  by auto
termination by (relation "measure (\<lambda>(docs, final, first, start). final - first)") auto

fun earlier_end :: "source_doc list \<Rightarrow> nat \<Rightarrow> nat \<Rightarrow> int \<Rightarrow> nat \<times> int" where
  "earlier_end docs first final stop =
     (if first < final \<and> stop \<le> 0 then earlier_end docs first (final - 1) (text_length (docs ! (final - 1))) else (final, stop))"

declare later_start.simps [simp del]
declare earlier_end.simps [simp del]

definition normalized :: "source_doc list \<Rightarrow> source_span \<Rightarrow> source_span option" where
  "normalized docs sp =
     (case (file_index docs (sp_source_file sp), file_index docs (sp_end_file sp)) of
        (Some first, Some final) \<Rightarrow>
          (let (first, start) = later_start docs final first (sp_start sp);
               (final, stop) = earlier_end docs first final (sp_end sp)
           in Some \<lparr>sp_source_file = rels docs ! first, sp_start = start, sp_end_file = rels docs ! final, sp_end = stop\<rparr>)
      | _ \<Rightarrow> None)"

section \<open>Results\<close>

definition finish :: "source_doc list \<Rightarrow> int \<Rightarrow> source_span \<Rightarrow> source_span \<Rightarrow> bool \<Rightarrow> range_remap option" where
  "finish files episode own after changed =
     (case normalized files after of
        None \<Rightarrow> None
      | Some sp \<Rightarrow>
          (case (file_index files (sp_source_file sp), file_index files (sp_end_file sp), files_text files sp) of
             (Some first, Some final, Some content) \<Rightarrow>
               if (final, sp_end sp) \<le> (first, sp_start sp) \<or> strip content = []
               then Some \<lparr>rr_episode = episode, rr_before = own, rr_after = None, rr_text_changed = True\<rparr>
               else Some \<lparr>rr_episode = episode, rr_before = own, rr_after = Some sp, rr_text_changed = changed\<rparr>
           | _ \<Rightarrow> None))"

definition unchanged :: "int \<Rightarrow> source_span \<Rightarrow> range_remap" where
  "unchanged episode sp =
     \<lparr>rr_episode = episode, rr_before = sp, rr_after = Some sp, rr_text_changed = False\<rparr>"

section \<open>Editing a file\<close>

definition edited_docs :: "source_doc list \<Rightarrow> nat \<Rightarrow> utext \<Rightarrow> utext \<Rightarrow> source_doc list" where
  "edited_docs docs target rel new_text =
     take target docs @ [\<lparr>sd_rel_path = rel, sd_text = new_text\<rparr>] @ drop (Suc target) docs"

definition remap_edited ::
  "source_doc list \<Rightarrow> source_doc list \<Rightarrow> int list \<Rightarrow> text_alignment \<Rightarrow> nat \<Rightarrow> int \<times> source_span \<Rightarrow> range_remap option" where
  "remap_edited docs new starts al target = (\<lambda>(episode, sp).
     case (file_index docs (sp_source_file sp), file_index docs (sp_end_file sp), global_end docs sp) of
       (Some first, Some final, Some own_end) \<Rightarrow>
         if \<not> (first \<le> target \<and> target \<le> final) then Some (unchanged episode sp)
         else (let starts_here = (first = target); ends_here = (final = target);
                   low = (if starts_here then sp_start sp else 0);
                   high = (if ends_here then sp_end sp else text_length (docs ! target));
                   shared_end = (own_end \<in> set starts);
                   include_end = (\<not> ends_here \<or> shared_end);
                   changed = changed_between al low high (\<not> starts_here) include_end;
                   new_low = map_position al low starts_here;
                   new_high = map_position al high include_end
               in finish new episode sp
                    \<lparr>sp_source_file = sp_source_file sp, sp_start = (if starts_here then new_low else sp_start sp),
                     sp_end_file = sp_end_file sp, sp_end = (if ends_here then new_high else sp_end sp)\<rparr> changed)
     | _ \<Rightarrow> None)"

definition remap_for_edit ::
  "source_doc list \<Rightarrow> (int \<times> source_span) list \<Rightarrow> utext \<Rightarrow> utext \<Rightarrow> range_remap list option" where
  "remap_for_edit docs spans rel new_text =
     (case (file_index docs rel, try_map (\<lambda>(episode, sp). global_start docs sp) spans) of
        (Some target, Some starts) \<Rightarrow>
          try_map (remap_edited docs (edited_docs docs target rel new_text) starts
            (align_texts (sd_text (docs ! target)) new_text) target) spans
      | _ \<Rightarrow> None)"

section \<open>Deleting a file\<close>

definition other_docs :: "source_doc list \<Rightarrow> utext \<Rightarrow> source_doc list" where
  "other_docs docs rel = filter (\<lambda>d. sd_rel_path d \<noteq> rel) docs"

definition remap_deleted ::
  "source_doc list \<Rightarrow> source_doc list \<Rightarrow> nat \<Rightarrow> int \<times> source_span \<Rightarrow> range_remap option" where
  "remap_deleted docs new target = (\<lambda>(episode, sp).
     case (file_index docs (sp_source_file sp), file_index docs (sp_end_file sp)) of
       (Some first, Some final) \<Rightarrow>
         if \<not> (first \<le> target \<and> target \<le> final) then Some (unchanged episode sp)
         else if first = final \<or> (int target + 1 > int final \<and> int target - 1 < int first)
         then Some \<lparr>rr_episode = episode, rr_before = sp, rr_after = None, rr_text_changed = True\<rparr>
         else (let (start_file, start) =
                     (if first = target then (rels docs ! Suc target, 0) else (sp_source_file sp, sp_start sp));
                   (end_file, stop) =
                     (if final = target then (rels docs ! (target - 1), text_length (docs ! (target - 1)))
                      else (sp_end_file sp, sp_end sp))
               in finish new episode sp
                    \<lparr>sp_source_file = start_file, sp_start = start, sp_end_file = end_file, sp_end = stop\<rparr> True)
     | _ \<Rightarrow> None)"

definition remap_for_delete :: "source_doc list \<Rightarrow> (int \<times> source_span) list \<Rightarrow> utext \<Rightarrow> range_remap list option" where
  "remap_for_delete docs spans rel =
     (case file_index docs rel of
        None \<Rightarrow> None
      | Some target \<Rightarrow> try_map (remap_deleted docs (other_docs docs rel) target) spans)"

section \<open>Inserting a file\<close>

definition remap_inserted :: "source_doc list \<Rightarrow> int \<Rightarrow> int \<times> source_span \<Rightarrow> range_remap option" where
  "remap_inserted docs boundary = (\<lambda>(episode, sp).
     case (global_start docs sp, global_end docs sp) of
       (Some a, Some b) \<Rightarrow>
         Some \<lparr>rr_episode = episode, rr_before = sp, rr_after = Some sp, rr_text_changed = (a < boundary \<and> boundary < b)\<rparr>
     | _ \<Rightarrow> None)"

definition remap_for_insert :: "source_doc list \<Rightarrow> (int \<times> source_span) list \<Rightarrow> nat \<Rightarrow> range_remap list option" where
  "remap_for_insert docs spans index =
     try_map (remap_inserted docs (bases docs ! min index (length docs))) spans"

section \<open>Moving a file\<close>

definition moved_docs :: "source_doc list \<Rightarrow> utext \<Rightarrow> nat \<Rightarrow> source_doc list option" where
  "moved_docs docs rel new_index =
     (case file_index docs rel of
        None \<Rightarrow> None
      | Some i \<Rightarrow> Some (insert_at new_index (docs ! i) (other_docs docs rel)))"

text \<open>The files after the first that still follow each other\<close>

function last_kept :: "utext list \<Rightarrow> utext list \<Rightarrow> nat \<Rightarrow> nat \<Rightarrow> nat \<Rightarrow> nat \<Rightarrow> nat" where
  "last_kept old_rels new_rels first final position kept =
     (if kept < final \<and> position + (kept - first) + 1 < length new_rels then
        (if new_rels ! (position + (kept - first) + 1) \<noteq> old_rels ! (kept + 1) then kept
         else last_kept old_rels new_rels first final position (Suc kept))
      else kept)"
  by auto
termination by (relation "measure (\<lambda>(old_rels, new_rels, first, final, position, kept). final - kept)") auto

declare last_kept.simps [simp del]

definition remap_moved :: "source_doc list \<Rightarrow> source_doc list \<Rightarrow> int \<times> source_span \<Rightarrow> range_remap option" where
  "remap_moved docs new = (\<lambda>(episode, sp).
     case (file_index docs (sp_source_file sp), file_index docs (sp_end_file sp), file_index new (sp_source_file sp)) of
       (Some first, Some final, Some position) \<Rightarrow>
         (let kept = last_kept (rels docs) (rels new) first final position first
          in if kept = final then Some (unchanged episode sp)
             else finish new episode sp
                    \<lparr>sp_source_file = sp_source_file sp, sp_start = sp_start sp, sp_end_file = rels docs ! kept,
                     sp_end = text_length (docs ! kept)\<rparr> True)
     | _ \<Rightarrow> None)"

definition remap_for_move ::
  "source_doc list \<Rightarrow> (int \<times> source_span) list \<Rightarrow> utext \<Rightarrow> nat \<Rightarrow> range_remap list option" where
  "remap_for_move docs spans rel new_index =
     (case moved_docs docs rel new_index of
        None \<Rightarrow> None
      | Some new \<Rightarrow> try_map (remap_moved docs new) spans)"

end
