(* ===== verification/Ledger.thy ===== *)
theory Ledger
  imports Json SourceRemap
begin

text \<open>
  The ledger of episodes in \<open>project.json\<close>: \<open>lib/episode/episode_ledger.py\<close>, \<open>episode_ids.py\<close>,
  \<open>episode_sources.py\<close> and \<open>source_kinds.py\<close>.  A project is a JSON object, whatever its shape; what is
  missing or malformed is handled as in the code.  A path is compared in its normal form, which is the
  argument \<open>nfc\<close> (\<open>unicodedata.normalize\<close>).
\<close>

section \<open>JSON objects\<close>

type_synonym mapping = "(utext \<times> json) list"

text \<open>\<open>m.get(key)\<close>\<close>

definition get :: "mapping \<Rightarrow> string \<Rightarrow> json" where
  "get m key = (case map_of m (codes key) of Some v \<Rightarrow> v | None \<Rightarrow> JNull)"

definition put :: "string \<Rightarrow> json \<Rightarrow> mapping \<Rightarrow> mapping" where
  "put key v m = dict_set (codes key) v m"

definition drop_key :: "string \<Rightarrow> mapping \<Rightarrow> mapping" where
  "drop_key key m = dict_pop (codes key) m"

definition list_items :: "json \<Rightarrow> json list" where
  "list_items v = (case v of JList vs \<Rightarrow> vs | _ \<Rightarrow> [])"

definition mappings :: "json list \<Rightarrow> mapping list" where
  "mappings vs = concat (map (\<lambda>v. case v of JDict m \<Rightarrow> [m] | _ \<Rightarrow> []) vs)"

text \<open>The entries of the ledger that are objects\<close>

definition entries :: "mapping \<Rightarrow> mapping list" where
  "entries project = mappings (list_items (get project ''episodes''))"

section \<open>Episode numbers\<close>

text \<open>The zeros of the scripts whose digits \<open>int\<close> reads; nine digits follow each\<close>

definition digit_zeros :: "nat list" where
  "digit_zeros = [48, 1632, 1776, 1984, 2406, 2534, 2662, 2790, 2918, 3046, 3174, 3302, 3430, 3558, 3664, 3792, 3872, 4160,
     4240, 6112, 6160, 6470, 6608, 6784, 6800, 6992, 7088, 7232, 7248, 42528, 43216, 43264, 43472, 43504, 43600, 44016,
     65296, 66720, 68912, 69734, 69872, 69942, 70096, 70384, 70736, 70864, 71248, 71360, 71472, 71904, 72016, 72784,
     73040, 73120, 73552, 92768, 92864, 93008, 120782, 120792, 120802, 120812, 120822, 123200, 123632, 124144, 125264,
     130032]"

definition digit_of :: "nat \<Rightarrow> nat option" where
  "digit_of c = map_option (\<lambda>z. c - z) (find (\<lambda>z. z \<le> c \<and> c < z + 10) digit_zeros)"

text \<open>\<open>int(value)\<close> for a text that \<open>isdigit\<close> accepts; it raises for a digit that is no decimal digit\<close>

definition digits_as_number :: "utext \<Rightarrow> int option" where
  "digits_as_number t =
     (if t = [] \<or> INT_MAX_STR_DIGITS < length t \<or> \<not> list_all (\<lambda>c. digit_of c \<noteq> None) t then None
      else Some (int (fold (\<lambda>c acc. 10 * acc + the (digit_of c)) t 0)))"

definition parse_episode_num :: "json \<Rightarrow> int option" where
  "parse_episode_num v = (case v of JInt n \<Rightarrow> Some n | JText t \<Rightarrow> digits_as_number t | _ \<Rightarrow> None)"

definition parse_positive_episode_num :: "json \<Rightarrow> int option" where
  "parse_positive_episode_num v = (case parse_episode_num v of Some n \<Rightarrow> if 0 < n then Some n else None | None \<Rightarrow> None)"

definition entry_num :: "mapping \<Rightarrow> int option" where
  "entry_num entry = parse_positive_episode_num (get entry ''episode'')"

definition well_formed_ledger_entries :: "mapping \<Rightarrow> mapping list option" where
  "well_formed_ledger_entries project =
     (case get project ''episodes'' of
        JList vs \<Rightarrow>
          if \<not> list_all (\<lambda>v. case v of JDict _ \<Rightarrow> True | _ \<Rightarrow> False) vs then None
          else (let es = mappings vs; nums = map entry_num es
                in if None \<in> set nums \<or> \<not> distinct nums then None else Some es)
      | _ \<Rightarrow> None)"

section \<open>Ranges in the ledger\<close>

definition source_range_value :: "utext \<Rightarrow> int \<Rightarrow> utext \<Rightarrow> int \<Rightarrow> json" where
  "source_range_value source_file start end_file stop =
     JDict ([(codes ''source_file'', JText source_file), (codes ''start'', JInt start), (codes ''end'', JInt stop)]
       @ (if end_file \<noteq> source_file then [(codes ''end_file'', JText end_file)] else []))"

definition parse_source_range :: "mapping \<Rightarrow> source_span option" where
  "parse_source_range entry =
     (case get entry ''source_range'' of
        JDict r \<Rightarrow>
          (let rel = get r ''source_file'';
               end_file = (case map_of r (codes ''end_file'') of Some v \<Rightarrow> v | None \<Rightarrow> rel)
           in case (rel, end_file, get r ''start'', get r ''end'') of
                (JText f, JText l, JInt a, JInt b) \<Rightarrow> Some \<lparr>sp_source_file = f, sp_start = a, sp_end_file = l, sp_end = b\<rparr>
              | _ \<Rightarrow> None)
      | _ \<Rightarrow> None)"

datatype source_origin = WholeSource | OwnSource | NoSource

definition origin_value :: "source_origin \<Rightarrow> utext" where
  "origin_value origin = codes (case origin of WholeSource \<Rightarrow> ''whole_source'' | OwnSource \<Rightarrow> ''own'' | NoSource \<Rightarrow> ''none'')"

definition episode_source_origin :: "mapping \<Rightarrow> source_origin" where
  "episode_source_origin entry =
     (let by_range = (if get entry ''source_range'' \<noteq> JNull then WholeSource else NoSource)
      in case get entry ''source_origin'' of
           JText t \<Rightarrow> (case find (\<lambda>origin. origin_value origin = t) [WholeSource, OwnSource, NoSource] of
              Some origin \<Rightarrow> origin | None \<Rightarrow> by_range)
         | _ \<Rightarrow> by_range)"

definition is_cut_episode :: "mapping \<Rightarrow> bool" where
  "is_cut_episode entry = (episode_source_origin entry = WholeSource)"

definition legacy_cut_episode_ids :: "mapping \<Rightarrow> int list" where
  "legacy_cut_episode_ids project =
     List.map_filter (\<lambda>e. if is_cut_episode e \<and> parse_source_range e = None then entry_num e else None) (entries project)"

definition first_cut_episode_id :: "mapping \<Rightarrow> int option" where
  "first_cut_episode_id project = (case find is_cut_episode (entries project) of Some e \<Rightarrow> entry_num e | None \<Rightarrow> None)"

definition episode_entry :: "mapping \<Rightarrow> int \<Rightarrow> mapping option" where
  "episode_entry project episode_id = find (\<lambda>e. entry_num e = Some episode_id) (entries project)"

definition int_codes :: "int \<Rightarrow> utext" where
  "int_codes n = int_text n"

definition episode_source_relpath :: "int \<Rightarrow> utext" where
  "episode_source_relpath episode = codes ''source/episode_'' @ int_codes episode @ codes ''.txt''"

definition episode_script_relpath :: "int \<Rightarrow> utext" where
  "episode_script_relpath episode = codes ''scripts/episode_'' @ int_codes episode @ codes ''.json''"

definition is_episode_source_file :: "mapping \<Rightarrow> utext \<Rightarrow> bool" where
  "is_episode_source_file project rel =
     list_ex (\<lambda>e. case entry_num e of
         Some n \<Rightarrow> rel = episode_source_relpath n \<and> episode_source_origin e \<noteq> NoSource | None \<Rightarrow> False) (entries project)"

section \<open>Identifiers\<close>

definition stored_high_water :: "mapping \<Rightarrow> int" where
  "stored_high_water project = (case get project ''episode_id_high_water'' of JInt n \<Rightarrow> if 0 < n then n else 0 | _ \<Rightarrow> 0)"

definition ledger_episode_ids :: "mapping \<Rightarrow> int list" where
  "ledger_episode_ids project = List.map_filter entry_num (entries project)"

definition episode_id_high_water :: "mapping \<Rightarrow> int" where
  "episode_id_high_water project = fold max (ledger_episode_ids project @ [0]) (stored_high_water project)"

definition raise_episode_id_high_water :: "mapping \<Rightarrow> int list \<Rightarrow> mapping" where
  "raise_episode_id_high_water project recorded =
     (let high_water = fold max (recorded @ [0]) (episode_id_high_water project)
      in if stored_high_water project < high_water then put ''episode_id_high_water'' (JInt high_water) project else project)"

definition allocate_episode_ids :: "mapping \<Rightarrow> nat \<Rightarrow> int list \<times> mapping" where
  "allocate_episode_ids project count =
     (let first = episode_id_high_water project + 1; ids = [first..first + int count - 1]
      in (ids, if ids \<noteq> [] then raise_episode_id_high_water project [last ids] else project))"

definition episode_position :: "mapping \<Rightarrow> int \<Rightarrow> nat option" where
  "episode_position project episode_id = map_option Suc (find_index (\<lambda>n. n = episode_id) (ledger_episode_ids project))"

definition following_ledger_entry :: "mapping \<Rightarrow> int \<Rightarrow> mapping option" where
  "following_ledger_entry project episode_id =
     (let es = filter (\<lambda>e. entry_num e \<noteq> None) (entries project)
      in case find_index (\<lambda>e. entry_num e = Some episode_id) (butlast es) of
           Some i \<Rightarrow> Some (es ! Suc i) | None \<Rightarrow> None)"

definition episode_title :: "mapping \<Rightarrow> int \<Rightarrow> utext" where
  "episode_title project episode_id =
     (case episode_entry project episode_id of
        Some e \<Rightarrow> (case get e ''title'' of JText t \<Rightarrow> strip t | _ \<Rightarrow> []) | None \<Rightarrow> [])"

section \<open>The files of the whole source\<close>

fun split_path :: "utext \<Rightarrow> utext \<Rightarrow> utext list" where
  "split_path piece [] = [piece]"
| "split_path piece (c # cs) = (if c = 47 then piece # split_path [] cs else split_path (piece @ [c]) cs)"

text \<open>\<open>PurePosixPath(value).parts\<close>; the root of an absolute path is a part of its own\<close>

definition path_parts :: "utext \<Rightarrow> utext list" where
  "path_parts t = (if t \<noteq> [] \<and> hd t = 47 then [[47]] else [])
     @ filter (\<lambda>p. p \<noteq> [] \<and> p \<noteq> codes ''.'') (split_path [] t)"

text \<open>\<open>path.suffix\<close>\<close>

definition path_suffix :: "utext \<Rightarrow> utext" where
  "path_suffix name =
     (case find_index (\<lambda>c. c = 46) (rev name) of
        None \<Rightarrow> []
      | Some k \<Rightarrow> (let i = length name - 1 - k in if 0 < i \<and> i < length name - 1 then drop i name else []))"

text \<open>\<open>lower\<close>, as far as the two suffixes are concerned: only ASCII letters become their letters\<close>

definition lower_code :: "nat \<Rightarrow> nat" where
  "lower_code c = (if 65 \<le> c \<and> c \<le> 90 then c + 32 else c)"

definition SOURCE_TEXT_SUFFIXES :: "utext list" where
  "SOURCE_TEXT_SUFFIXES = [codes ''.txt'', codes ''.md'']"

definition is_derived_episode_name :: "utext \<Rightarrow> bool" where
  "is_derived_episode_name name =
     (let head = codes ''episode_''; tail = codes ''.txt'';
          digits = drop (length head) (take (length name - length tail) name)
      in name = head @ digits @ tail \<and> digits \<noteq> [] \<and> list_all (\<lambda>c. 48 \<le> c \<and> c \<le> 57) digits)"

definition is_whole_source_file_path :: "utext \<Rightarrow> bool" where
  "is_whole_source_file_path value =
     (92 \<notin> set value
      \<and> (case path_parts value of
           [folder, name] \<Rightarrow>
             folder = codes ''source'' \<and> name \<noteq> [] \<and> hd name \<notin> {46, 95}
             \<and> map lower_code (path_suffix name) \<in> set SOURCE_TEXT_SUFFIXES \<and> \<not> is_derived_episode_name name
         | _ \<Rightarrow> False))"

definition source_item_file :: "mapping \<Rightarrow> utext option" where
  "source_item_file item = (case get item ''source_file'' of JText rel \<Rightarrow> Some rel | _ \<Rightarrow> None)"

definition whole_source_files :: "mapping \<Rightarrow> utext list" where
  "whole_source_files project =
     dedup_first (filter is_whole_source_file_path
       (List.map_filter source_item_file (mappings (list_items (get project ''whole_source_files'')))))"

text \<open>The place for the new item in the list as it is, which may hold malformed items\<close>

definition append_whole_source_file :: "mapping \<Rightarrow> utext \<Rightarrow> int option \<Rightarrow> (mapping \<times> bool) option" where
  "append_whole_source_file project rel index =
     (if \<not> is_whole_source_file_path rel then None
      else let files = whole_source_files project in
        if rel \<in> set files then Some (project, False)
        else let items = list_items (get project ''whole_source_files'');
                 position = (case index of
                     Some i \<Rightarrow> if i < int (length files)
                       then find_index (\<lambda>v. case v of JDict m \<Rightarrow> get m ''source_file'' = JText (files ! nat (max i 0)) | _ \<Rightarrow> False) items
                       else Some (length items)
                   | None \<Rightarrow> Some (length items))
             in case position of
                  None \<Rightarrow> None
                | Some p \<Rightarrow>
                    Some (put ''whole_source_files''
                      (JList (insert_at p (JDict [(codes ''source_file'', JText rel)]) items)) project, True))"

definition remove_whole_source_file :: "mapping \<Rightarrow> utext \<Rightarrow> mapping \<times> bool" where
  "remove_whole_source_file project rel =
     (case get project ''whole_source_files'' of
        JList items \<Rightarrow>
          (let others = filter (\<lambda>v. \<not> (case v of JDict m \<Rightarrow> get m ''source_file'' = JText rel | _ \<Rightarrow> False)) items
           in if length others = length items then (project, False)
              else (put ''whole_source_files'' (JList others) project, True))
      | _ \<Rightarrow> (project, False))"

text \<open>The readable files in the order of the list; \<open>read\<close> gives the normalized text of a file it can read\<close>

definition discover_sources :: "(utext \<Rightarrow> utext option) \<Rightarrow> mapping \<Rightarrow> source_doc list" where
  "discover_sources read project =
     List.map_filter (\<lambda>rel. map_option (\<lambda>t. \<lparr>sd_rel_path = rel, sd_text = t\<rparr>) (read rel)) (whole_source_files project)"

section \<open>The kind of a source file\<close>

datatype source_kind = Novel | Screenplay

definition source_kind_applies :: "mapping \<Rightarrow> bool" where
  "source_kind_applies project = (get project ''content_mode'' = JText (codes ''drama''))"

definition recorded_kind :: "mapping option \<Rightarrow> source_kind" where
  "recorded_kind raw =
     (case raw of
        Some m \<Rightarrow> if get m ''source_kind'' = JText (codes ''screenplay'') then Screenplay else Novel
      | None \<Rightarrow> Novel)"

definition whole_source_item :: "mapping \<Rightarrow> utext \<Rightarrow> mapping option" where
  "whole_source_item project rel =
     find (\<lambda>m. get m ''source_file'' = JText rel) (mappings (list_items (get project ''whole_source_files'')))"

definition whole_source_file_kind :: "mapping \<Rightarrow> utext \<Rightarrow> source_kind option" where
  "whole_source_file_kind project rel =
     (if \<not> source_kind_applies project \<or> rel \<notin> set (whole_source_files project) then None
      else Some (recorded_kind (whole_source_item project rel)))"

definition entry_source_kind :: "mapping \<Rightarrow> mapping \<Rightarrow> source_kind option" where
  "entry_source_kind project entry =
     (if \<not> source_kind_applies project then None
      else case episode_source_origin entry of
        NoSource \<Rightarrow> None
      | OwnSource \<Rightarrow> Some (recorded_kind (Some entry))
      | WholeSource \<Rightarrow>
          (case parse_source_range entry of
             None \<Rightarrow> Some Novel
           | Some sp \<Rightarrow>
               if sp_source_file sp \<notin> set (whole_source_files project) then Some Novel
               else Some (recorded_kind (whole_source_item project (sp_source_file sp)))))"

definition episodes_from_whole_source_file :: "mapping \<Rightarrow> utext \<Rightarrow> int list" where
  "episodes_from_whole_source_file project rel =
     List.map_filter (\<lambda>e. if episode_source_origin e \<noteq> WholeSource then None
       else case parse_source_range e of Some sp \<Rightarrow> if sp_source_file sp = rel then entry_num e else None | None \<Rightarrow> None)
       (entries project)"

section \<open>Where the cut episodes are\<close>

record cut_placement =
  cp_episode :: int
  cp_file_index :: nat
  cp_start :: int
  cp_end_file_index :: nat
  cp_end :: int

definition cp_position :: "cut_placement \<Rightarrow> nat \<times> int" where
  "cp_position p = (cp_file_index p, cp_start p)"

definition cp_end_position :: "cut_placement \<Rightarrow> nat \<times> int" where
  "cp_end_position p = (cp_end_file_index p, cp_end p)"

definition portion :: "cut_placement \<Rightarrow> nat \<Rightarrow> int \<Rightarrow> (int \<times> int) option" where
  "portion p file n =
     (if \<not> (cp_file_index p \<le> file \<and> file \<le> cp_end_file_index p) then None
      else Some (if file = cp_file_index p then cp_start p else 0,
                 if file = cp_end_file_index p then cp_end p else n))"

definition placement_text :: "source_doc list \<Rightarrow> cut_placement \<Rightarrow> utext" where
  "placement_text docs p =
     concat (map (\<lambda>i. let t = sd_text (docs ! i) in
         case portion p i (int (length t)) of Some (a, b) \<Rightarrow> py_slice t a b | None \<Rightarrow> [])
       [cp_file_index p..<Suc (cp_end_file_index p)])"

text \<open>The dictionary of normal forms; of two files with the same form it keeps the later\<close>

definition order_index :: "(utext \<Rightarrow> utext) \<Rightarrow> source_doc list \<Rightarrow> utext \<Rightarrow> nat option" where
  "order_index nfc docs rel =
     map_of (rev (zip (map (\<lambda>d. nfc (sd_rel_path d)) docs) [0..<length docs])) (nfc rel)"

definition cut_candidate :: "(utext \<Rightarrow> utext) \<Rightarrow> source_doc list \<Rightarrow> mapping \<Rightarrow> cut_placement option" where
  "cut_candidate nfc docs entry =
     (case (entry_num entry, parse_source_range entry) of
        (Some episode, Some sp) \<Rightarrow>
          if \<not> is_cut_episode entry then None
          else (case (order_index nfc docs (sp_source_file sp), order_index nfc docs (sp_end_file sp)) of
             (Some first, Some final) \<Rightarrow>
               if final < first then None
               else if sp_start sp < 0 \<or> text_length (docs ! first) < sp_start sp \<or> sp_end sp < 0 then None
               else if first = final \<and> sp_end sp < sp_start sp then None
               else Some \<lparr>cp_episode = episode, cp_file_index = first, cp_start = sp_start sp,
                      cp_end_file_index = final, cp_end = min (sp_end sp) (text_length (docs ! final))\<rparr>
           | _ \<Rightarrow> None)
      | _ \<Rightarrow> None)"

fun place_from :: "nat \<times> int \<Rightarrow> int list \<Rightarrow> cut_placement list \<Rightarrow> cut_placement list" where
  "place_from cursor placed [] = []"
| "place_from cursor placed (p # ps) =
     (if cp_position p < cursor \<or> cp_episode p \<in> set placed then place_from cursor placed ps
      else p # place_from (cp_end_position p) (cp_episode p # placed) ps)"

definition cut_episode_placements :: "(utext \<Rightarrow> utext) \<Rightarrow> mapping \<Rightarrow> source_doc list \<Rightarrow> cut_placement list" where
  "cut_episode_placements nfc project docs =
     place_from (0, 0) [] (sort_key (\<lambda>p. (cp_position p, cp_end_position p))
       (List.map_filter (cut_candidate nfc docs) (entries project)))"

definition planning_start :: "(utext \<Rightarrow> utext) \<Rightarrow> mapping \<Rightarrow> source_doc list \<Rightarrow> (utext \<times> int) option" where
  "planning_start nfc project docs =
     (let ends = List.map_filter (\<lambda>e. if \<not> is_cut_episode e then None
            else case parse_source_range e of
               Some sp \<Rightarrow> map_option (\<lambda>i. (i, sp_end sp)) (order_index nfc docs (sp_end_file sp))
             | None \<Rightarrow> None) (entries project)
      in case ends of
           [] \<Rightarrow> (case docs of [] \<Rightarrow> None | d # _ \<Rightarrow> Some (sd_rel_path d, 0))
         | e # es \<Rightarrow> (let (i, b) = fold max es e in Some (sd_rel_path (docs ! i), b)))"

definition unplanned_text_remains :: "(utext \<Rightarrow> utext) \<Rightarrow> mapping \<Rightarrow> source_doc list \<Rightarrow> bool" where
  "unplanned_text_remains nfc project docs =
     (case planning_start nfc project docs of
        None \<Rightarrow> False
      | Some (rel, offset) \<Rightarrow>
          (case file_index docs rel of
             None \<Rightarrow> False
           | Some i \<Rightarrow>
               strip (py_slice (sd_text (docs ! i)) offset (text_length (docs ! i))) \<noteq> []
               \<or> list_ex (\<lambda>d. strip (sd_text d) \<noteq> []) (drop (Suc i) docs)))"

definition unsplit_range_ending_at :: "cut_placement list \<Rightarrow> nat \<Rightarrow> int \<Rightarrow> (int \<times> int) option" where
  "unsplit_range_ending_at placements file stop =
     (let here = filter (\<lambda>p. cp_file_index p \<le> file \<and> file \<le> cp_end_file_index p) placements;
          low = (\<lambda>p. if cp_file_index p = file then cp_start p else 0);
          high = (\<lambda>p. if cp_end_file_index p = file then Some (cp_end p) else None)
      in if list_ex (\<lambda>p. low p < stop \<and> (case high p of None \<Rightarrow> True | Some h \<Rightarrow> stop < h)) here then None
         else Some (fold max (List.map_filter (\<lambda>p. case high p of Some h \<Rightarrow> if h \<le> stop then Some h else None | None \<Rightarrow> None) here) 0,
                    stop))"

text \<open>The place of a new cut episode in the ledger\<close>

definition index_of_num :: "mapping list \<Rightarrow> int \<Rightarrow> nat option" where
  "index_of_num es episode = find_index (\<lambda>e. entry_num e = Some episode) es"

definition cut_insert_index :: "mapping list \<Rightarrow> cut_placement list \<Rightarrow> nat \<times> int \<Rightarrow> nat option" where
  "cut_insert_index es placements position =
     (let ordered = sort_key cp_position placements;
          earlier = filter (\<lambda>p. cp_position p < position) ordered;
          later = filter (\<lambda>p. position \<le> cp_position p) ordered
      in if earlier \<noteq> [] then map_option Suc (index_of_num es (cp_episode (last earlier)))
         else if later \<noteq> [] then index_of_num es (cp_episode (hd later))
         else case find_index is_cut_episode (rev es) of
                Some k \<Rightarrow> Some (length es - k) | None \<Rightarrow> Some (length es))"

end
