(* ===== verification/ManualSplit.thy ===== *)
theory ManualSplit
  imports Ledger
begin

text \<open>
  Manual splitting of the whole source into episodes (\<open>lib/episode/episode_manual_split.py\<close>): a command
  is planned on the layout of the source and the ledger, its impact is computed and may have to be
  confirmed, and it is applied to the project, to the derived files and to the snapshots.
\<close>

section \<open>What the commands read and write\<close>

text \<open>
  The files of a project a command only reads: source files (normalized), products of episodes, whether
  a path is a symbolic link.  \<open>env_digest\<close> is SHA-256, \<open>env_units\<close> counts reading units.
\<close>

record split_env =
  env_nfc :: "utext \<Rightarrow> utext"
  env_digest :: "utext \<Rightarrow> utext"
  env_units :: "json \<Rightarrow> utext \<Rightarrow> int"
  env_read :: "utext \<Rightarrow> utext option"
  env_exists :: "utext \<Rightarrow> bool"
  env_script_plans :: "int \<Rightarrow> bool"
  env_product_nums :: "int list"
  env_plan_revision :: "mapping \<Rightarrow> int \<Rightarrow> json"
  env_symlink :: "int \<Rightarrow> bool"

text \<open>The project, the files \<open>source/episode_N.txt\<close> and the snapshots of source files\<close>

record project_state =
  st_project :: mapping
  st_derived :: "(int \<times> utext) list"
  st_snapshots :: "(utext \<times> utext) list"

datatype split_error =
    LedgerMalformed
  | SourceFileNotFound
  | PositionInvalid
  | EpisodeNotFound
  | EpisodeNotPlaced
  | InsideEpisode
  | EmptyRange
  | CrossesSourceKind
  | NoAdjacentEpisode
  | NoNextEpisode
  | MergeAcrossKinds
  | NothingAfter
  | SourceChanged
  | DerivedSymlink
  | SplitConflict
  | SearchFailed

section \<open>Products and stale entries\<close>

definition has_downstream_products :: "split_env \<Rightarrow> int \<Rightarrow> mapping \<Rightarrow> bool" where
  "has_downstream_products env episode entry =
     ((case get entry ''script_file'' of JText path \<Rightarrow> env_exists env path | _ \<Rightarrow> False)
      \<or> env_exists env (episode_script_relpath episode) \<or> env_script_plans env episode)"

definition episode_has_products :: "split_env \<Rightarrow> int \<Rightarrow> mapping \<Rightarrow> bool" where
  "episode_has_products env episode entry =
     (get entry ''ledger_status'' = JText (codes ''consumed'') \<or> episode \<in> set (env_product_nums env)
      \<or> has_downstream_products env episode entry)"

definition episodes_with_products :: "split_env \<Rightarrow> mapping list \<Rightarrow> int list" where
  "episodes_with_products env es =
     List.map_filter (\<lambda>e. case entry_num e of
        Some n \<Rightarrow> if episode_has_products env n e then Some n else None | None \<Rightarrow> None) es"

definition mark_ledger_stale :: "split_env \<Rightarrow> mapping \<Rightarrow> int \<Rightarrow> mapping \<Rightarrow> mapping" where
  "mark_ledger_stale env project episode entry =
     drop_key ''stale_script_plan_rebuilt_revision''
       (put ''stale_script_plan_revision'' (env_plan_revision env project episode)
         (put ''ledger_status'' (JText (codes ''stale'')) entry))"

section \<open>Fingerprints and snapshots\<close>

definition changed_outside_service :: "split_env \<Rightarrow> project_state \<Rightarrow> source_doc \<Rightarrow> bool" where
  "changed_outside_service env st d =
     ((case get (st_project st) ''source_fingerprints'' of
         JDict recorded \<Rightarrow>
           (case map_of recorded (sd_rel_path d) of
              Some (JText f) \<Rightarrow> f \<noteq> env_digest env (sd_text d) | _ \<Rightarrow> False)
       | _ \<Rightarrow> False)
      \<or> (case map_of (st_snapshots st) (sd_rel_path d) of Some t \<Rightarrow> t \<noteq> sd_text d | None \<Rightarrow> False))"

definition cut_episode_source_files :: "mapping \<Rightarrow> utext list" where
  "cut_episode_source_files project =
     (let order = whole_source_files project;
          covered = (\<lambda>sp. case (find_index (\<lambda>r. r = sp_source_file sp) order, find_index (\<lambda>r. r = sp_end_file sp) order) of
              (Some i, Some j) \<Rightarrow> (let between = drop i (take (Suc j) order) in if between = [] then [sp_source_file sp] else between)
            | _ \<Rightarrow> [sp_source_file sp, sp_end_file sp])
      in dedup_first (filter is_whole_source_file_path (concat (map (\<lambda>e.
           case (if is_cut_episode e then parse_source_range e else None) of Some sp \<Rightarrow> covered sp | None \<Rightarrow> [])
         (entries project)))))"

text \<open>
  Snapshots are kept under the name of the file, which determines its path; none is a symbolic link.
  The fingerprints are those of \<open>st\<close>: a file the command touches had the recorded one, or none.
\<close>

definition sync_source_snapshots :: "split_env \<Rightarrow> project_state \<Rightarrow> source_doc list \<Rightarrow> utext list option \<Rightarrow> project_state" where
  "sync_source_snapshots env st docs refreshed =
     (let wanted = cut_episode_source_files (st_project st);
          write = (\<lambda>d. sd_rel_path d \<in> set wanted
            \<and> \<not> ((case refreshed of Some rs \<Rightarrow> sd_rel_path d \<notin> set rs | None \<Rightarrow> False) \<and> changed_outside_service env st d));
          written = fold (\<lambda>d. dict_set (sd_rel_path d) (sd_text d)) (filter write docs) (st_snapshots st)
      in st\<lparr>st_snapshots := filter (\<lambda>(rel, t). rel \<in> set wanted) written\<rparr>)"

section \<open>The layout\<close>

record split_layout =
  ly_docs :: "source_doc list"
  ly_entries :: "mapping list"
  ly_placements :: "cut_placement list"
  ly_language :: json
  ly_walls :: "int list"

text \<open>Where files of different kinds meet\<close>

fun kind_walls :: "int \<Rightarrow> (source_kind option \<times> source_doc) list \<Rightarrow> int list" where
  "kind_walls offset ((k, d) # (k', d') # kds) =
     (let next = offset + text_length d
      in (if k' \<noteq> k then [next] else []) @ kind_walls next ((k', d') # kds))"
| "kind_walls offset kds = []"

definition layout_of :: "split_env \<Rightarrow> mapping \<Rightarrow> split_error + split_layout" where
  "layout_of env project =
     (case well_formed_ledger_entries project of
        None \<Rightarrow> Inl LedgerMalformed
      | Some es \<Rightarrow>
          (let docs = discover_sources (env_read env) project
           in Inr \<lparr>ly_docs = docs, ly_entries = es, ly_placements = cut_episode_placements (env_nfc env) project docs,
                ly_language = (case get project ''source_language'' of JText t \<Rightarrow> JText t | _ \<Rightarrow> JNull),
                ly_walls = kind_walls 0 (map (\<lambda>d. (whole_source_file_kind project (sd_rel_path d), d)) docs)\<rparr>))"

definition ly_bases :: "split_layout \<Rightarrow> int list" where
  "ly_bases ly = bases (ly_docs ly)"

definition ly_text :: "split_layout \<Rightarrow> utext" where
  "ly_text ly = docs_text (ly_docs ly)"

definition units_between :: "split_env \<Rightarrow> split_layout \<Rightarrow> int \<Rightarrow> int \<Rightarrow> int" where
  "units_between env ly start stop =
     sum_list (map (\<lambda>i. let lo = max start (ly_bases ly ! i); hi = min stop (ly_bases ly ! Suc i)
        in if lo < hi then env_units env (ly_language ly) (py_slice (sd_text (ly_docs ly ! i)) (lo - ly_bases ly ! i) (hi - ly_bases ly ! i))
           else 0) [0..<length (ly_docs ly)])"

definition doc_index :: "split_layout \<Rightarrow> utext \<Rightarrow> split_error + nat" where
  "doc_index ly source_file =
     (case file_index (ly_docs ly) source_file of Some i \<Rightarrow> Inr i | None \<Rightarrow> Inl SourceFileNotFound)"

definition to_global :: "split_layout \<Rightarrow> utext \<Rightarrow> int \<Rightarrow> split_error + int" where
  "to_global ly source_file offset =
     ebind (doc_index ly source_file) (\<lambda>i.
       if 0 \<le> offset \<and> offset \<le> text_length (ly_docs ly ! i) then Inr (ly_bases ly ! i + offset) else Inl PositionInvalid)"

text \<open>A position as a start belongs to the file it begins, as an end to the file it ends; there is a file\<close>

definition start_point :: "split_layout \<Rightarrow> int \<Rightarrow> utext \<times> int" where
  "start_point ly position =
     (case find (\<lambda>i. ly_bases ly ! i \<le> position \<and> position < ly_bases ly ! Suc i) [0..<length (ly_docs ly)] of
        Some i \<Rightarrow> (sd_rel_path (ly_docs ly ! i), position - ly_bases ly ! i)
      | None \<Rightarrow> (let d = last (ly_docs ly) in (sd_rel_path d, text_length d)))"

definition end_point :: "split_layout \<Rightarrow> int \<Rightarrow> utext \<times> int" where
  "end_point ly position =
     (case find (\<lambda>i. ly_bases ly ! i < position \<and> position \<le> ly_bases ly ! Suc i) [0..<length (ly_docs ly)] of
        Some i \<Rightarrow> (sd_rel_path (ly_docs ly ! i), position - ly_bases ly ! i)
      | None \<Rightarrow> (sd_rel_path (hd (ly_docs ly)), 0))"

definition ly_span :: "split_layout \<Rightarrow> cut_placement \<Rightarrow> int \<times> int" where
  "ly_span ly p = (ly_bases ly ! cp_file_index p + cp_start p, ly_bases ly ! cp_end_file_index p + cp_end p)"

definition files_between :: "split_layout \<Rightarrow> int \<times> int \<Rightarrow> source_doc list" where
  "files_between ly = (\<lambda>(start, stop).
     map (\<lambda>i. ly_docs ly ! i) (filter (\<lambda>i. ly_bases ly ! i < stop \<and> start < ly_bases ly ! Suc i) [0..<length (ly_docs ly)]))"

definition walls_inside :: "split_layout \<Rightarrow> int \<times> int \<Rightarrow> int list" where
  "walls_inside ly = (\<lambda>(start, stop). filter (\<lambda>w. start < w \<and> w < stop) (ly_walls ly))"

definition find_placement :: "split_layout \<Rightarrow> int \<Rightarrow> cut_placement option" where
  "find_placement ly episode = find (\<lambda>p. cp_episode p = episode) (ly_placements ly)"

definition placement_of :: "split_layout \<Rightarrow> int \<Rightarrow> split_error + cut_placement" where
  "placement_of ly episode =
     (if list_all (\<lambda>e. entry_num e \<noteq> Some episode) (ly_entries ly) then Inl EpisodeNotFound
      else case find_placement ly episode of Some p \<Rightarrow> Inr p | None \<Rightarrow> Inl EpisodeNotPlaced)"

definition in_source_order :: "split_layout \<Rightarrow> cut_placement list" where
  "in_source_order ly = sort_key cp_position (ly_placements ly)"

definition entry_index :: "split_layout \<Rightarrow> int \<Rightarrow> split_error + nat" where
  "entry_index ly episode =
     (case index_of_num (ly_entries ly) episode of Some i \<Rightarrow> Inr i | None \<Rightarrow> Inl SearchFailed)"

section \<open>Planning\<close>

record split_edit =
  se_touches_source :: bool
  se_ranges :: "(int \<times> int \<times> int) list"
  se_new_range :: "(int \<times> int) option"
  se_new_title :: utext
  se_insert_before :: nat
  se_dropped :: "int list"
  se_merged_units :: int

definition no_edit :: split_edit where
  "no_edit = \<lparr>se_touches_source = False, se_ranges = [], se_new_range = None, se_new_title = [], se_insert_before = 0,
     se_dropped = [], se_merged_units = 0\<rparr>"

definition require_text :: "split_layout \<Rightarrow> int \<Rightarrow> int \<Rightarrow> split_error + unit" where
  "require_text ly start stop = ensure (strip (py_slice (ly_text ly) start stop) \<noteq> []) EmptyRange"

definition require_inside :: "int \<Rightarrow> int \<Rightarrow> int \<Rightarrow> split_error + unit" where
  "require_inside place low high = ensure (low < place \<and> place < high) PositionInvalid"

definition require_same_kind :: "split_layout \<Rightarrow> int \<times> int \<Rightarrow> int \<times> int \<Rightarrow> split_error + unit" where
  "require_same_kind ly new old =
     ensure (list_all (\<lambda>w. w \<in> set (walls_inside ly old)) (walls_inside ly new)) CrossesSourceKind"

definition plan_cut :: "split_layout \<Rightarrow> utext \<Rightarrow> int \<Rightarrow> utext \<Rightarrow> split_error + split_edit" where
  "plan_cut ly source_file stop title =
     ebind (doc_index ly source_file) (\<lambda>i.
     ebind (ensure (0 < stop \<and> stop \<le> text_length (ly_docs ly ! i)) PositionInvalid) (\<lambda>_.
     ebind (to_global ly source_file stop) (\<lambda>place.
       let spans = map (ly_span ly) (in_source_order ly) in
       ebind (ensure (\<not> list_ex (\<lambda>(low, high). low < place \<and> place < high) spans) InsideEpisode) (\<lambda>_.
       let start = fold max (List.map_filter (\<lambda>(low, high). if high \<le> place then Some high else None) spans
                     @ filter (\<lambda>w. w < place) (ly_walls ly)) 0 in
       ebind (require_text ly start place) (\<lambda>_.
         case cut_insert_index (ly_entries ly) (ly_placements ly) (i, stop) of
           None \<Rightarrow> Inl SearchFailed
         | Some insert_before \<Rightarrow>
             Inr (no_edit\<lparr>se_touches_source := True, se_new_range := Some (start, place), se_new_title := strip title,
               se_insert_before := insert_before\<rparr>))))))"

text \<open>Without a file, a position counts in the file where the episode starts\<close>

definition point :: "split_layout \<Rightarrow> cut_placement \<Rightarrow> int \<Rightarrow> utext option \<Rightarrow> split_error + int" where
  "point ly p place source_file =
     to_global ly (case source_file of
         Some f \<Rightarrow> if f \<noteq> [] then f else sd_rel_path (ly_docs ly ! cp_file_index p)
       | None \<Rightarrow> sd_rel_path (ly_docs ly ! cp_file_index p)) place"

definition plan_split :: "split_layout \<Rightarrow> int \<Rightarrow> int \<Rightarrow> utext option \<Rightarrow> split_error + split_edit" where
  "plan_split ly episode place source_file =
     ebind (placement_of ly episode) (\<lambda>p.
     let (low, high) = ly_span ly p in
     ebind (point ly p place source_file) (\<lambda>pt.
     ebind (require_inside pt low high) (\<lambda>_.
     ebind (require_text ly low pt) (\<lambda>_.
     ebind (require_text ly pt high) (\<lambda>_.
     ebind (entry_index ly episode) (\<lambda>i.
       Inr (no_edit\<lparr>se_touches_source := True, se_ranges := [(episode, low, pt)], se_new_range := Some (pt, high),
         se_insert_before := Suc i\<rparr>)))))))"

definition plan_move :: "split_layout \<Rightarrow> int \<Rightarrow> int \<Rightarrow> utext option \<Rightarrow> split_error + split_edit" where
  "plan_move ly episode place source_file =
     ebind (placement_of ly episode) (\<lambda>left.
     let (low, border) = ly_span ly left in
     case find (\<lambda>p. fst (ly_span ly p) = border \<and> fst (ly_span ly p) < snd (ly_span ly p)) (in_source_order ly) of
       None \<Rightarrow> Inl NoAdjacentEpisode
     | Some right \<Rightarrow>
         (let (start, high) = ly_span ly right in
          ebind (to_global ly (case source_file of
              Some f \<Rightarrow> if f \<noteq> [] then f else sd_rel_path (ly_docs ly ! cp_end_file_index left)
            | None \<Rightarrow> sd_rel_path (ly_docs ly ! cp_end_file_index left)) place) (\<lambda>pt.
          ebind (require_inside pt low high) (\<lambda>_.
          ebind (ensure (pt \<noteq> border) PositionInvalid) (\<lambda>_.
          ebind (require_text ly low pt) (\<lambda>_.
          ebind (require_text ly pt high) (\<lambda>_.
          ebind (require_same_kind ly (low, pt) (low, border)) (\<lambda>_.
          ebind (require_same_kind ly (pt, high) (start, high)) (\<lambda>_.
            Inr (no_edit\<lparr>se_touches_source := True,
              se_ranges := dict_set (cp_episode right) (pt, high) [(cp_episode left, low, pt)]\<rparr>))))))))))"

definition plan_merge :: "split_env \<Rightarrow> split_layout \<Rightarrow> int \<Rightarrow> split_error + split_edit" where
  "plan_merge env ly episode =
     ebind (placement_of ly episode) (\<lambda>p.
     case find_index (\<lambda>q. q = p) (in_source_order ly) of
       None \<Rightarrow> Inl SearchFailed
     | Some k \<Rightarrow>
         (case drop (Suc k) (in_source_order ly) of
            [] \<Rightarrow> Inl NoNextEpisode
          | nxt # _ \<Rightarrow>
              (let own = ly_span ly p; other = ly_span ly nxt; merged = (fst own, snd other)
               in if list_ex (\<lambda>w. w \<notin> set (walls_inside ly own) \<and> w \<notin> set (walls_inside ly other)) (walls_inside ly merged)
                  then Inl MergeAcrossKinds
                  else Inr (no_edit\<lparr>se_touches_source := True, se_ranges := [(episode, merged)], se_dropped := [cp_episode nxt],
                    se_merged_units := units_between env ly (snd own) (fst other)\<rparr>))))"

definition plan_clear_after :: "split_layout \<Rightarrow> int \<Rightarrow> split_error + split_edit" where
  "plan_clear_after ly episode =
     ebind (placement_of ly episode) (\<lambda>p.
     let after = map cp_episode (filter (\<lambda>q. cp_position p < cp_position q) (in_source_order ly)) in
     ebind (ensure (after \<noteq> []) NothingAfter) (\<lambda>_.
       Inr (no_edit\<lparr>se_dropped := filter (\<lambda>n. n \<in> set after) (List.map_filter entry_num (ly_entries ly))\<rparr>)))"

datatype split_command =
    CutUnsplit utext int utext
  | SplitEpisode int int "utext option"
  | MoveBoundary int int "utext option"
  | MergeWithNext int
  | ClearCutsAfter int

fun plan_command :: "split_env \<Rightarrow> split_layout \<Rightarrow> split_command \<Rightarrow> split_error + split_edit" where
  "plan_command env ly (CutUnsplit source_file stop title) = plan_cut ly source_file stop title"
| "plan_command env ly (SplitEpisode episode place source_file) = plan_split ly episode place source_file"
| "plan_command env ly (MoveBoundary episode place source_file) = plan_move ly episode place source_file"
| "plan_command env ly (MergeWithNext episode) = plan_merge env ly episode"
| "plan_command env ly (ClearCutsAfter episode) = plan_clear_after ly episode"

section \<open>Impact\<close>

record split_impact =
  si_restaled :: "int list"
  si_retired :: "int list"
  si_removed :: "int list"
  si_merged_units :: int

definition range_changed :: "split_layout \<Rightarrow> split_edit \<Rightarrow> int \<Rightarrow> bool" where
  "range_changed ly edit episode =
     (case (map_of (se_ranges edit) episode, find_placement ly episode) of
        (Some r, Some p) \<Rightarrow> r \<noteq> ly_span ly p | _ \<Rightarrow> False)"

definition split_impact_of :: "split_env \<Rightarrow> split_layout \<Rightarrow> split_edit \<Rightarrow> split_impact" where
  "split_impact_of env ly edit =
     (let nums = List.map_filter entry_num (ly_entries ly); products = episodes_with_products env (ly_entries ly)
      in \<lparr>si_restaled = filter (\<lambda>n. n \<notin> set (se_dropped edit) \<and> range_changed ly edit n \<and> n \<in> set products) nums,
          si_retired = filter (\<lambda>n. n \<in> set (se_dropped edit) \<and> n \<in> set products) nums,
          si_removed = filter (\<lambda>n. n \<in> set (se_dropped edit) \<and> n \<notin> set products) nums,
          si_merged_units = se_merged_units edit\<rparr>)"

definition touched_docs :: "split_layout \<Rightarrow> split_edit \<Rightarrow> source_doc list" where
  "touched_docs ly edit =
     (let spans = map snd (se_ranges edit) @ (case se_new_range edit of Some r \<Rightarrow> [r] | None \<Rightarrow> [])
      in filter (\<lambda>d. list_ex (\<lambda>s. d \<in> set (files_between ly s)) spans) (ly_docs ly))"

definition check_fingerprints :: "split_env \<Rightarrow> project_state \<Rightarrow> source_doc list \<Rightarrow> split_error + project_state" where
  "check_fingerprints env st docs =
     (if list_ex (changed_outside_service env st) docs then Inl SourceChanged
      else Inr (if docs = [] then st
        else st\<lparr>st_project := put ''source_fingerprints'' (JDict (fold (\<lambda>d. dict_set (sd_rel_path d) (JText (env_digest env (sd_text d)))) docs
               (case get (st_project st) ''source_fingerprints'' of JDict recorded \<Rightarrow> recorded | _ \<Rightarrow> []))) (st_project st)\<rparr>))"

section \<open>Applying\<close>

definition range_value :: "split_layout \<Rightarrow> int \<times> int \<Rightarrow> json" where
  "range_value ly = (\<lambda>(start, stop).
     let (start_file, start_offset) = start_point ly start; (end_file, end_offset) = end_point ly stop
     in source_range_value start_file start_offset end_file end_offset)"

text \<open>The entry of an episode whose range changes, and of an episode that is taken out of the source\<close>

definition ranged_entry :: "split_env \<Rightarrow> mapping \<Rightarrow> split_layout \<Rightarrow> split_edit \<Rightarrow> split_impact \<Rightarrow> mapping \<Rightarrow> mapping" where
  "ranged_entry env project ly edit impact entry =
     (case entry_num entry of
        None \<Rightarrow> entry
      | Some n \<Rightarrow>
          (case map_of (se_ranges edit) n of
             None \<Rightarrow> entry
           | Some r \<Rightarrow>
               (let ranged = put ''source_range'' (range_value ly r) entry
                in if n \<in> set (si_restaled impact) then mark_ledger_stale env project n ranged else ranged)))"

definition retired_entry :: "split_env \<Rightarrow> mapping \<Rightarrow> int \<Rightarrow> mapping \<Rightarrow> mapping" where
  "retired_entry env project episode entry =
     mark_ledger_stale env project episode
       (drop_key ''source_range'' (put ''source_origin'' (JText (origin_value NoSource)) entry))"

definition new_entry :: "split_env \<Rightarrow> mapping \<Rightarrow> split_layout \<Rightarrow> int \<Rightarrow> utext \<Rightarrow> int \<times> int \<Rightarrow> mapping" where
  "new_entry env project ly episode title r =
     (let entry = [(codes ''episode'', JInt episode), (codes ''title'', JText title),
            (codes ''script_file'', JText (episode_script_relpath episode)),
            (codes ''source_origin'', JText (origin_value WholeSource)), (codes ''source_range'', range_value ly r),
            (codes ''ledger_status'', JText (codes ''planned''))]
      in if has_downstream_products env episode entry then mark_ledger_stale env project episode entry else entry)"

definition global_text :: "split_layout \<Rightarrow> int \<times> int \<Rightarrow> utext" where
  "global_text ly = (\<lambda>(start, stop). py_slice (ly_text ly) start stop)"

text \<open>An existing file of a new episode is renamed before it is written, whatever it is\<close>

definition apply_edit ::
  "split_env \<Rightarrow> project_state \<Rightarrow> split_layout \<Rightarrow> split_edit \<Rightarrow> split_impact \<Rightarrow> split_error + (int option \<times> project_state)" where
  "apply_edit env st ly edit impact =
     ebind (if se_touches_source edit then check_fingerprints env st (touched_docs ly edit) else Inr st) (\<lambda>st.
     let project = st_project st;
         es = map (ranged_entry env project ly edit impact) (ly_entries ly);
         (ids, project) = (case se_new_range edit of Some r \<Rightarrow> allocate_episode_ids project 1 | None \<Rightarrow> ([], project));
         new_episode = (case ids of [n] \<Rightarrow> Some n | _ \<Rightarrow> None);
         es = (case (new_episode, se_new_range edit) of
            (Some n, Some r) \<Rightarrow> insert_at (se_insert_before edit) (new_entry env project ly n (se_new_title edit) r) es
          | _ \<Rightarrow> es);
         drops = (\<lambda>e. case entry_num e of Some n \<Rightarrow> n \<in> set (se_dropped edit) | None \<Rightarrow> False);
         retired = List.map_filter (\<lambda>n. if n \<in> set (si_retired impact)
            then map_option (retired_entry env project n) (find (\<lambda>e. entry_num e = Some n) es) else None) (se_dropped edit);
         project = put ''episodes'' (JList (map JDict (filter (\<lambda>e. \<not> drops e) es @ retired))) project
     in if list_ex (\<lambda>(n, r). env_symlink env n) (se_ranges edit) then Inl DerivedSymlink
        else (let derived = fold (\<lambda>(n, r). dict_set n (global_text ly r)) (se_ranges edit) (st_derived st);
                  derived = (case (new_episode, se_new_range edit) of
                     (Some n, Some r) \<Rightarrow> dict_set n (global_text ly r) derived | _ \<Rightarrow> derived);
                  derived = fold dict_pop (se_dropped edit) derived
              in Inr (new_episode, sync_source_snapshots env
                   (st\<lparr>st_project := project, st_derived := derived\<rparr>) (ly_docs ly) (Some []))))"

section \<open>Running a command\<close>

datatype split_outcome =
    SplitDone (done_impact: split_impact) (done_episode: "int option")
  | SplitUnconfirmed (unconfirmed_impact: split_impact)

definition needs_confirmation :: "int list \<Rightarrow> int \<Rightarrow> split_impact \<Rightarrow> bool" where
  "needs_confirmation confirm_episodes confirm_units impact =
     ((si_merged_units impact \<noteq> 0 \<and> si_merged_units impact \<noteq> confirm_units)
      \<or> list_ex (\<lambda>n. n \<notin> set confirm_episodes) (si_restaled impact @ si_retired impact))"

text \<open>\<open>ProjectManager\<close> raises the high water before and after the change it is given\<close>

definition raise_ids :: "project_state \<Rightarrow> project_state" where
  "raise_ids st = st\<lparr>st_project := raise_episode_id_high_water (st_project st) []\<rparr>"

text \<open>
  The preview reads the project without a lock, the commit reads it again; \<open>seen\<close> is the project of the
  preview and \<open>st\<close> that of the commit.
\<close>

definition run_split ::
  "split_env \<Rightarrow> project_state \<Rightarrow> project_state \<Rightarrow> split_command \<Rightarrow> int list \<Rightarrow> int \<Rightarrow> bool
   \<Rightarrow> split_error + (split_outcome \<times> project_state)" where
  "run_split env seen st command confirm_episodes confirm_units dry_run =
     ebind (layout_of env (st_project seen)) (\<lambda>ly.
     ebind (plan_command env ly command) (\<lambda>edit.
     ebind (if se_touches_source edit then check_fingerprints env seen (touched_docs ly edit) else Inr seen) (\<lambda>checked.
     let impact = split_impact_of env ly edit in
     if dry_run \<or> needs_confirmation confirm_episodes confirm_units impact then Inr (SplitUnconfirmed impact, st)
     else
       let touched = map fst (se_ranges edit) @ se_dropped edit @ [episode_id_high_water (st_project checked) + 1];
           st1 = raise_ids st in
       ebind (layout_of env (st_project st1)) (\<lambda>ly.
       ebind (plan_command env ly command) (\<lambda>edit.
       let impact = split_impact_of env ly edit in
       if needs_confirmation confirm_episodes confirm_units impact then Inr (SplitUnconfirmed impact, st)
       else
         let touched' = map fst (se_ranges edit) @ se_dropped edit
               @ (if se_new_range edit \<noteq> None then [episode_id_high_water (st_project st1) + 1] else [])
         in if \<not> set touched' \<subseteq> set touched then Inl SplitConflict
            else ebind (apply_edit env st1 ly edit impact) (\<lambda>(new_episode, st2).
              Inr (SplitDone impact new_episode, raise_ids st2)))))))"

end
