(* ===== verification/TextDiffProps.thy ===== *)
theory TextDiffProps
  imports TextDiff
begin

text \<open>
  What an alignment is: its operations cover both texts from one end to the other without a gap, equal
  operations stand for equal texts, and two changes never follow each other.  Positions are then mapped
  monotonically, and a stretch without a change maps to the same text.
\<close>

section \<open>Slices\<close>

lemma py_slice_inside:
  assumes "0 \<le> a" "a \<le> b" "b \<le> int (length t)"
  shows "py_slice t a b = take (nat (b - a)) (drop (nat a) t)"
  using assms by (simp add: py_slice_def clamp_def Let_def min_def)

lemma py_slice_none: "0 \<le> b \<Longrightarrow> b \<le> a \<Longrightarrow> py_slice t a b = []"
  by (auto simp: py_slice_def clamp_def Let_def min_def)

lemma py_slice_all: "int (length t) \<le> b \<Longrightarrow> py_slice t 0 b = t"
  by (simp add: py_slice_def clamp_def Let_def)

lemma py_slice_append:
  assumes "0 \<le> a" "a \<le> b" "b \<le> c" "c \<le> int (length t)"
  shows "py_slice t a b @ py_slice t b c = py_slice t a c"
proof -
  have "nat (c - a) = nat (b - a) + nat (c - b)" "nat b = nat a + nat (b - a)" using assms by auto
  then show ?thesis using assms by (simp add: py_slice_inside take_add add.commute)
qed

lemma length_py_slice:
  assumes "0 \<le> a" "a \<le> b" "b \<le> int (length t)"
  shows "int (length (py_slice t a b)) = b - a"
  using assms by (simp add: py_slice_inside)

section \<open>Alignments\<close>

definition op_shape :: "opcode \<Rightarrow> bool" where
  "op_shape op = (case op_tag op of
       Equal \<Rightarrow> op_i1 op < op_i2 op \<and> op_i2 op - op_i1 op = op_j2 op - op_j1 op
     | Replace \<Rightarrow> op_i1 op < op_i2 op \<and> op_j1 op < op_j2 op
     | Delete \<Rightarrow> op_i1 op < op_i2 op \<and> op_j1 op = op_j2 op
     | Insert \<Rightarrow> op_i1 op = op_i2 op \<and> op_j1 op < op_j2 op)"

fun aligned :: "int \<Rightarrow> int \<Rightarrow> 'a list \<Rightarrow> 'a list \<Rightarrow> opcode list \<Rightarrow> bool" where
  "aligned i j xs ys [] = (xs = [] \<and> ys = [])"
| "aligned i j xs ys (op # ops) =
     (let n = nat (op_i2 op - i); m = nat (op_j2 op - j)
      in op_i1 op = i \<and> op_j1 op = j \<and> op_shape op \<and> n \<le> length xs \<and> m \<le> length ys
         \<and> (op_tag op = Equal \<longrightarrow> take n xs = take m ys)
         \<and> aligned (op_i2 op) (op_j2 op) (drop n xs) (drop m ys) ops)"

definition spaced :: "opcode list \<Rightarrow> bool" where
  "spaced ops = successively (\<lambda>p q. op_tag p = Equal \<or> op_tag q = Equal) ops"

lemma shape_le: "op_shape op \<Longrightarrow> op_i1 op \<le> op_i2 op \<and> op_j1 op \<le> op_j2 op"
  by (auto simp: op_shape_def split: tag.splits)

lemma aligned_append:
  "aligned i j xs ys A \<Longrightarrow> aligned (i + int (length xs)) (j + int (length ys)) us vs B
   \<Longrightarrow> aligned i j (xs @ us) (ys @ vs) (A @ B)"
proof (induction A arbitrary: i j xs ys)
  case (Cons op A)
  define n m where "n = nat (op_i2 op - i)" and "m = nat (op_j2 op - j)"
  from Cons.prems(1) have op: "op_i1 op = i" "op_j1 op = j" "op_shape op" "n \<le> length xs" "m \<le> length ys"
    "op_tag op = Equal \<longrightarrow> take n xs = take m ys"
    "aligned (op_i2 op) (op_j2 op) (drop n xs) (drop m ys) A"
    by (simp_all add: n_def m_def Let_def)
  have ends: "op_i2 op + int (length (drop n xs)) = i + int (length xs)"
    "op_j2 op + int (length (drop m ys)) = j + int (length ys)"
    using shape_le [OF op(3)] op(1,2,4,5) by (simp_all add: n_def m_def)
  have "aligned (op_i2 op) (op_j2 op) (drop n xs @ us) (drop m ys @ vs) (A @ B)"
    by (rule Cons.IH [OF op(7)]) (simp only: ends Cons.prems(2))
  then show ?case using op(1-6) by (simp add: Let_def n_def [symmetric] m_def [symmetric])
qed simp

lemma aligned_shift: "aligned i j xs ys ops \<Longrightarrow> aligned (i + a) (j + b) xs ys (map (shift_op a b) ops)"
proof (induction ops arbitrary: i j xs ys)
  case (Cons op ops)
  have shape: "op_shape (shift_op a b op) = op_shape op"
    by (simp add: op_shape_def shift_op_def split: tag.splits)
  have n: "op_i2 (shift_op a b op) - (i + a) = op_i2 op - i" "op_j2 (shift_op a b op) - (j + b) = op_j2 op - j"
    "op_tag (shift_op a b op) = op_tag op" "op_i1 (shift_op a b op) = op_i1 op + a" "op_j1 (shift_op a b op) = op_j1 op + b"
    "op_i2 (shift_op a b op) = op_i2 op + a" "op_j2 (shift_op a b op) = op_j2 op + b"
    by (simp_all add: shift_op_def)
  from Cons.prems have rest: "aligned (op_i2 op) (op_j2 op) (drop (nat (op_i2 op - i)) xs) (drop (nat (op_j2 op - j)) ys) ops"
    by (simp add: Let_def)
  from Cons.IH [OF rest] Cons.prems show ?case
    by (simp add: Let_def shape n)
qed simp

lemma aligned_one:
  assumes "op_i1 op = i" "op_j1 op = j" "op_i2 op = i + int (length xs)" "op_j2 op = j + int (length ys)" "op_shape op"
    "op_tag op = Equal \<Longrightarrow> xs = ys"
  shows "aligned i j xs ys [op]"
  using assms by (simp add: Let_def)

lemma spaced_append:
  "spaced (A @ B) \<longleftrightarrow> spaced A \<and> spaced B \<and> (A = [] \<or> B = [] \<or> op_tag (last A) = Equal \<or> op_tag (hd B) = Equal)"
  by (auto simp: spaced_def successively_append_iff)

lemma spaced_shift: "spaced (map (shift_op a b) ops) = spaced ops"
  by (simp add: spaced_def successively_map shift_op_def)

lemma spaced_simps [simp]: "spaced []" "spaced [op]"
  by (simp_all add: spaced_def)

lemma aligned_nonempty: "aligned i j xs ys ops \<Longrightarrow> xs \<noteq> [] \<or> ys \<noteq> [] \<Longrightarrow> ops \<noteq> []"
  by (cases ops) auto

section \<open>The matcher\<close>

text \<open>Blocks follow each other in both texts, between two bounds\<close>

fun chained :: "'a list \<Rightarrow> 'a list \<Rightarrow> nat \<Rightarrow> nat \<Rightarrow> (nat \<times> nat \<times> nat) list \<Rightarrow> nat \<Rightarrow> nat \<Rightarrow> bool" where
  "chained xs ys i j [] I J = (i \<le> I \<and> j \<le> J)"
| "chained xs ys i j ((ai, bj, k) # bs) I J =
     (i \<le> ai \<and> j \<le> bj \<and> take k (drop ai xs) = take k (drop bj ys) \<and> chained xs ys (ai + k) (bj + k) bs I J)"

lemma chained_start: "chained xs ys i j bs I J \<Longrightarrow> i' \<le> i \<Longrightarrow> j' \<le> j \<Longrightarrow> chained xs ys i' j' bs I J"
  by (cases bs) auto

lemma chained_end: "chained xs ys i j bs I J \<Longrightarrow> i \<le> I \<and> j \<le> J"
  by (induction xs ys i j bs I J rule: chained.induct) auto

lemma chained_append:
  "chained xs ys i j A I J \<Longrightarrow> chained xs ys I J B K L \<Longrightarrow> chained xs ys i j (A @ B) K L"
  by (induction xs ys i j A I J rule: chained.induct) (auto intro: chained_start)

lemma chained_take:
  "chained (take I xs) (take J ys) i j bs I J \<Longrightarrow> chained xs ys i j bs I J"
proof (induction "take I xs" "take J ys" i j bs I J rule: chained.induct)
  case (2 i j ai bj k bs I J)
  then have le: "ai + k \<le> I" "bj + k \<le> J" using chained_end by fastforce+
  have "take k (drop ai (take I xs)) = take k (drop ai xs)" "take k (drop bj (take J ys)) = take k (drop bj ys)"
    using le by (simp_all add: drop_take min_def)
  then show ?case using 2 by simp
qed simp

lemma chained_drop:
  "chained (drop a xs) (drop b ys) i j bs I J
   \<Longrightarrow> chained xs ys (a + i) (b + j) (map (shift_block a b) bs) (a + I) (b + J)"
proof (induction bs arbitrary: i j)
  case (Cons blk bs)
  obtain ai bj k where blk: "blk = (ai, bj, k)" by (cases blk) auto
  from Cons.prems have "chained xs ys (a + (ai + k)) (b + (bj + k)) (map (shift_block a b) bs) (a + I) (b + J)"
    by (intro Cons.IH) (simp add: blk)
  moreover have "shift_block a b blk = (a + ai, b + bj, k)" by (simp add: blk shift_block_def)
  ultimately show ?case using Cons.prems by (simp add: blk ac_simps)
qed simp

lemma matching_blocks_chained: "chained xs ys 0 0 (matching_blocks xs ys) (length xs) (length ys)"
proof (induction xs ys rule: matching_blocks.induct)
  case (1 xs ys)
  obtain i j k where m: "find_longest_match xs ys = (i, j, k)" by (cases "find_longest_match xs ys") auto
  show ?case
  proof (cases "k = 0")
    case True
    then show ?thesis by (subst matching_blocks.simps) (simp add: m)
  next
    case False
    note block = find_longest_match_block [OF m]
    have ends: "i + k \<le> length xs" "j + k \<le> length ys" "take k (drop i xs) = take k (drop j ys)" using block False by auto
    have "length (take i xs) = i" "length (take j ys) = j" using ends(1,2) by simp_all
    then have "chained (take i xs) (take j ys) 0 0 (matching_blocks (take i xs) (take j ys)) i j"
      using "1.IH"(1) [OF m [symmetric] refl refl False] by (simp del: length_take)
    from chained_take [OF this] have left: "chained xs ys 0 0 (matching_blocks (take i xs) (take j ys)) i j" .
    have "chained (drop (i + k) xs) (drop (j + k) ys) 0 0 (matching_blocks (drop (i + k) xs) (drop (j + k) ys))
        (length xs - (i + k)) (length ys - (j + k))"
      using "1.IH"(2) [OF m [symmetric] refl refl False] by simp
    from chained_drop [OF this] have right: "chained xs ys (i + k) (j + k)
        (map (shift_block (i + k) (j + k)) (matching_blocks (drop (i + k) xs) (drop (j + k) ys))) (length xs) (length ys)"
      using ends(1,2) by simp
    have "chained xs ys i j ((i, j, k) # map (shift_block (i + k) (j + k)) (matching_blocks (drop (i + k) xs) (drop (j + k) ys)))
        (length xs) (length ys)"
      using right ends(3) by simp
    from chained_append [OF left this] show ?thesis
      by (subst matching_blocks.simps) (simp add: m False)
  qed
qed

lemma merge_blocks_chained:
  "chained xs ys i j (b # bs) I J \<Longrightarrow> chained xs ys i j (merge_blocks b bs) I J"
proof (induction b bs arbitrary: i j rule: merge_blocks.induct)
  case (1 i1 j1 k1)
  then show ?case by auto
next
  case (2 i1 j1 k1 i2 j2 k2 bs)
  show ?case
  proof (cases "i1 + k1 = i2 \<and> j1 + k1 = j2")
    case True
    then have "take (k1 + k2) (drop i1 xs) = take (k1 + k2) (drop j1 ys)"
      using "2.prems" by (simp add: take_add add.commute)
    moreover have ends: "i1 + (k1 + k2) = i2 + k2" "j1 + (k1 + k2) = j2 + k2" using True by simp_all
    have "chained xs ys (i1 + (k1 + k2)) (j1 + (k1 + k2)) bs I J" unfolding ends using "2.prems" by simp
    ultimately have "chained xs ys i j ((i1, j1, k1 + k2) # bs) I J" using "2.prems" by simp
    from "2.IH"(1) [OF True this] show ?thesis using True by simp
  next
    case False
    have "chained xs ys (i1 + k1) (j1 + k1) (merge_blocks (i2, j2, k2) bs) I J"
      using "2.prems" by (intro "2.IH"(2) [OF False]) simp
    then show ?thesis using "2.prems" False by (auto intro: chained_start)
  qed
qed

lemma merge_blocks_positive: "blk \<in> set (merge_blocks b bs) \<Longrightarrow> 0 < snd (snd blk)"
  by (induction b bs rule: merge_blocks.induct) (auto split: if_splits)

lemma drop_between: "i \<le> a \<Longrightarrow> drop i xs = take (a - i) (drop i xs) @ drop a xs"
  by (metis append_take_drop_id drop_drop le_add_diff_inverse2)

lemma opcodes_between_aligned:
  assumes "chained xs ys i j bs (length xs) (length ys)" "\<forall>blk \<in> set bs. 0 < snd (snd blk)"
  shows "aligned (int i) (int j) (drop i xs) (drop j ys) (opcodes_between i j (bs @ [(length xs, length ys, 0)]))
    \<and> spaced (opcodes_between i j (bs @ [(length xs, length ys, 0)]))"
  using assms
proof (induction bs arbitrary: i j)
  case Nil
  then show ?case by (auto simp: Let_def op_shape_def)
next
  case (Cons blk bs)
  obtain ai bj k where blk: "blk = (ai, bj, k)" by (cases blk) auto
  have le: "i \<le> ai" "j \<le> bj" and eq: "take k (drop ai xs) = take k (drop bj ys)"
    and rest: "chained xs ys (ai + k) (bj + k) bs (length xs) (length ys)" and k: "0 < k"
    using Cons.prems by (simp_all add: blk)
  have bounds: "ai + k \<le> length xs" "bj + k \<le> length ys" using chained_end [OF rest] by auto
  define gap where "gap = (if i < ai \<and> j < bj then [\<lparr>op_tag = Replace, op_i1 = int i, op_i2 = int ai, op_j1 = int j, op_j2 = int bj\<rparr>]
      else if i < ai then [\<lparr>op_tag = Delete, op_i1 = int i, op_i2 = int ai, op_j1 = int j, op_j2 = int bj\<rparr>]
      else if j < bj then [\<lparr>op_tag = Insert, op_i1 = int i, op_i2 = int ai, op_j1 = int j, op_j2 = int bj\<rparr>] else [])"
  define same where "same = \<lparr>op_tag = Equal, op_i1 = int ai, op_i2 = int (ai + k), op_j1 = int bj, op_j2 = int (bj + k)\<rparr>"
  define later where "later = opcodes_between (ai + k) (bj + k) (bs @ [(length xs, length ys, 0)])"
  have IH: "aligned (int (ai + k)) (int (bj + k)) (drop (ai + k) xs) (drop (bj + k) ys) later" "spaced later"
    using Cons.IH [OF rest] Cons.prems(2) by (simp_all add: later_def)
  have ops: "opcodes_between i j ((blk # bs) @ [(length xs, length ys, 0)]) = gap @ [same] @ later"
    using k by (simp add: blk gap_def same_def later_def)
  have A: "aligned (int i) (int j) (take (ai - i) (drop i xs)) (take (bj - j) (drop j ys)) gap"
    using le bounds by (auto simp: gap_def Let_def op_shape_def)
  have "aligned (int ai) (int bj) (take k (drop ai xs)) (take k (drop bj ys)) [same]"
    using bounds eq k by (intro aligned_one) (simp_all add: same_def op_shape_def)
  then have "aligned (int ai) (int bj) (take k (drop ai xs) @ drop (ai + k) xs) (take k (drop bj ys) @ drop (bj + k) ys) ([same] @ later)"
    using IH(1) bounds by (intro aligned_append) (simp_all add: add.commute)
  moreover have "take k (drop ai xs) @ drop (ai + k) xs = drop ai xs" "take k (drop bj ys) @ drop (bj + k) ys = drop bj ys"
    using drop_between [of ai "ai + k" xs] drop_between [of bj "bj + k" ys] by simp_all
  ultimately have B: "aligned (int ai) (int bj) (drop ai xs) (drop bj ys) ([same] @ later)" by (simp only:)
  have "aligned (int i) (int j) (take (ai - i) (drop i xs) @ drop ai xs) (take (bj - j) (drop j ys) @ drop bj ys) (gap @ [same] @ later)"
    using A B le bounds by (intro aligned_append) simp_all
  then have "aligned (int i) (int j) (drop i xs) (drop j ys) (gap @ [same] @ later)"
    by (simp only: drop_between [OF le(1), of xs, symmetric] drop_between [OF le(2), of ys, symmetric])
  moreover have "spaced ([same] @ later)" unfolding spaced_append using IH(2) by (simp add: same_def)
  then have "spaced (gap @ [same] @ later)" unfolding spaced_append [of gap] by (auto simp: gap_def same_def)
  ultimately show ?case by (simp only: ops)
qed

lemma get_opcodes_aligned: "aligned 0 0 xs ys (get_opcodes xs ys)" "spaced (get_opcodes xs ys)"
proof -
  have "chained xs ys 0 0 ((0, 0, 0) # matching_blocks xs ys) (length xs) (length ys)"
    using matching_blocks_chained [of xs ys] by simp
  from merge_blocks_chained [OF this] have "chained xs ys 0 0 (merge_blocks (0, 0, 0) (matching_blocks xs ys)) (length xs) (length ys)" .
  from opcodes_between_aligned [OF this] merge_blocks_positive
  show "aligned 0 0 xs ys (get_opcodes xs ys)" "spaced (get_opcodes xs ys)"
    by (auto simp: get_opcodes_def get_matching_blocks_def)
qed

section \<open>Lines\<close>

lemma concat_lines_keeping_ends: "concat (lines_keeping_ends line t) = line @ t"
  by (induction line t rule: lines_keeping_ends.induct) auto

lemma concat_splitlines [simp]: "concat (splitlines t) = t"
  by (simp add: splitlines_def concat_lines_keeping_ends)

lemma splitlines_nonempty: "l \<in> set (splitlines t) \<Longrightarrow> l \<noteq> []"
proof -
  have "l \<in> set (lines_keeping_ends line t) \<Longrightarrow> l \<noteq> []" for line
    by (induction line t rule: lines_keeping_ends.induct) (auto split: if_splits)
  then show "l \<in> set (splitlines t) \<Longrightarrow> l \<noteq> []" by (simp add: splitlines_def)
qed

lemma line_offsets_eq: "line_offsets ls = map (\<lambda>n. int (length (concat (take n ls)))) [0..<Suc (length ls)]"
proof (induction ls rule: rev_induct)
  case (snoc l ls)
  have "line_offsets (ls @ [l]) = line_offsets ls @ [last (line_offsets ls) + int (length l)]"
    by (simp add: line_offsets_def)
  then show ?case by (simp add: snoc.IH)
qed (simp add: line_offsets_def)

lemma nth_line_offsets: "n \<le> length ls \<Longrightarrow> line_offsets ls ! n = int (length (concat (take n ls)))"
  by (simp add: line_offsets_eq del: upt_Suc)

text \<open>The text between two lines\<close>

lemma concat_take_split: "i \<le> k \<Longrightarrow> concat (take k ls) = concat (take i ls) @ concat (take (k - i) (drop i ls))"
  by (metis concat_append le_add_diff_inverse take_add)

lemma slice_lines:
  assumes "i \<le> k" "k \<le> length ls"
  shows "py_slice (concat ls) (int (length (concat (take i ls)))) (int (length (concat (take k ls))))
    = concat (take (k - i) (drop i ls))"
proof -
  let ?a = "concat (take i ls)" and ?b = "concat (take (k - i) (drop i ls))" and ?c = "concat (drop k ls)"
  have k: "concat (take k ls) = ?a @ ?b" by (rule concat_take_split [OF assms(1)])
  have "concat ls = concat (take k ls) @ ?c" by (metis append_take_drop_id concat_append)
  then have whole: "concat ls = ?a @ ?b @ ?c" by (simp add: k)
  show ?thesis unfolding k whole by (simp add: py_slice_inside)
qed

lemma concat_nonempty: "\<forall>l \<in> set ls. l \<noteq> [] \<Longrightarrow> ls \<noteq> [] \<Longrightarrow> concat ls \<noteq> []"
  by (cases ls) auto

section \<open>Both levels together\<close>

lemma refine_line_op_aligned:
  fixes ob nb :: int
  assumes op: "op_i1 op = int i" "op_i2 op = int i2" "op_j1 op = int j" "op_j2 op = int j2" "op_shape op"
    and le: "i2 \<le> length L" "j2 \<le> length M"
    and eq: "op_tag op = Equal \<Longrightarrow> take (i2 - i) (drop i L) = take (j2 - j) (drop j M)"
    and lines: "\<forall>l \<in> set L. l \<noteq> []" "\<forall>l \<in> set M. l \<noteq> []"
  defines "ops \<equiv> refine_line_op (concat L) (concat M) (line_offsets L) (line_offsets M) ob nb op"
  shows "aligned (int (length (concat (take i L))) + ob) (int (length (concat (take j M))) + nb)
      (concat (take (i2 - i) (drop i L))) (concat (take (j2 - j) (drop j M))) ops"
    and "spaced ops" and "ops \<noteq> []" and "op_tag op = Equal \<Longrightarrow> \<forall>o' \<in> set ops. op_tag o' = Equal"
proof -
  let ?xs = "concat (take (i2 - i) (drop i L))" and ?ys = "concat (take (j2 - j) (drop j M))"
  have ij: "i \<le> i2" "j \<le> j2" using shape_le [OF op(5)] op(1-4) by simp_all
  have old: "py_slice (concat L) (line_offsets L ! i) (line_offsets L ! i2) = ?xs"
    using slice_lines [OF ij(1) le(1)] ij le by (simp add: nth_line_offsets)
  have new: "py_slice (concat M) (line_offsets M ! j) (line_offsets M ! j2) = ?ys"
    using slice_lines [OF ij(2) le(2)] ij le by (simp add: nth_line_offsets)
  have len: "line_offsets L ! i2 = line_offsets L ! i + int (length ?xs)" "line_offsets M ! j2 = line_offsets M ! j + int (length ?ys)"
    using concat_take_split [OF ij(1), of L] concat_take_split [OF ij(2), of M] ij le by (simp_all add: nth_line_offsets)
  have some: "?xs \<noteq> []" if "i < i2"
    using that le lines by (intro concat_nonempty) (auto dest!: in_set_takeD in_set_dropD)
  have some': "?ys \<noteq> []" if "j < j2"
    using that le lines by (intro concat_nonempty) (auto dest!: in_set_takeD in_set_dropD)
  have nats: "nat (op_i1 op) = i" "nat (op_i2 op) = i2" "nat (op_j1 op) = j" "nat (op_j2 op) = j2" using op by simp_all
  define whole where "whole = \<lparr>op_tag = op_tag op, op_i1 = line_offsets L ! i + ob, op_i2 = line_offsets L ! i2 + ob,
    op_j1 = line_offsets M ! j + nb, op_j2 = line_offsets M ! j2 + nb\<rparr>"
  define fine where "fine = align_chars ?xs ?ys (line_offsets L ! i + ob) (line_offsets M ! j + nb)"
  have cases: "ops = fine \<and> op_tag op = Replace \<or> ops = [whole]"
    by (auto simp: ops_def refine_line_op_def nats Let_def old new fine_def whole_def)
  have start: "int (length (concat (take i L))) = line_offsets L ! i" "int (length (concat (take j M))) = line_offsets M ! j"
    using ij le by (simp_all add: nth_line_offsets)
  have A: "aligned (line_offsets L ! i + ob) (line_offsets M ! j + nb) ?xs ?ys fine" "spaced fine"
    using aligned_shift [OF get_opcodes_aligned(1) [of ?xs ?ys], of "line_offsets L ! i + ob" "line_offsets M ! j + nb"]
      get_opcodes_aligned(2) [of ?xs ?ys]
    by (simp_all add: fine_def align_chars_def spaced_shift)
  have B: "aligned (line_offsets L ! i + ob) (line_offsets M ! j + nb) ?xs ?ys [whole]"
  proof (rule aligned_one)
    show "op_shape whole"
    proof (cases "op_tag op")
      case Equal
      then have "i < i2" "?xs = ?ys" using op eq by (simp_all add: op_shape_def)
      then show ?thesis using Equal some len by (simp add: op_shape_def whole_def)
    next
      case Replace
      then have "i < i2" "j < j2" using op by (simp_all add: op_shape_def)
      then show ?thesis using Replace some some' len by (simp add: op_shape_def whole_def)
    next
      case Delete
      then have "i < i2" "j = j2" using op by (simp_all add: op_shape_def)
      then show ?thesis using Delete some len by (simp add: op_shape_def whole_def)
    next
      case Insert
      then have "i = i2" "j < j2" using op by (simp_all add: op_shape_def)
      then show ?thesis using Insert some' len by (simp add: op_shape_def whole_def)
    qed
    show "?xs = ?ys" if "op_tag whole = Equal" using that eq by (simp add: whole_def)
  qed (use len in \<open>simp_all add: whole_def\<close>)
  show "aligned (int (length (concat (take i L))) + ob) (int (length (concat (take j M))) + nb) ?xs ?ys ops"
    unfolding start using cases A B by auto
  show "spaced ops" using cases A by auto
  have "i < i2 \<or> j < j2" using op by (auto simp: op_shape_def split: tag.splits)
  then have "?xs \<noteq> [] \<or> ?ys \<noteq> []" using some some' by blast
  from aligned_nonempty [OF A(1) this] show "ops \<noteq> []" using cases by auto
  show "\<forall>o' \<in> set ops. op_tag o' = Equal" if "op_tag op = Equal" using cases that by (auto simp: whole_def)
qed

lemma refine_lines_aligned:
  fixes ob nb :: int
  assumes "aligned (int i) (int j) (drop i L) (drop j M) ops" "spaced ops" "i \<le> length L" "j \<le> length M"
    and lines: "\<forall>l \<in> set L. l \<noteq> []" "\<forall>l \<in> set M. l \<noteq> []"
  shows "aligned (int (length (concat (take i L))) + ob) (int (length (concat (take j M))) + nb)
      (concat (drop i L)) (concat (drop j M))
      (concat (map (refine_line_op (concat L) (concat M) (line_offsets L) (line_offsets M) ob nb) ops))
    \<and> spaced (concat (map (refine_line_op (concat L) (concat M) (line_offsets L) (line_offsets M) ob nb) ops))"
  using assms(1-4)
proof (induction ops arbitrary: i j)
  case Nil
  then show ?case by simp
next
  case (Cons op ops)
  let ?f = "refine_line_op (concat L) (concat M) (line_offsets L) (line_offsets M) ob nb"
  define i2 j2 where "i2 = nat (op_i2 op)" and "j2 = nat (op_j2 op)"
  from Cons.prems(1) have start: "op_i1 op = int i" "op_j1 op = int j" and shape: "op_shape op"
    and n: "nat (op_i2 op - int i) \<le> length L - i" "nat (op_j2 op - int j) \<le> length M - j"
    and eq: "op_tag op = Equal \<longrightarrow> take (nat (op_i2 op - int i)) (drop i L) = take (nat (op_j2 op - int j)) (drop j M)"
    and rest: "aligned (op_i2 op) (op_j2 op) (drop (nat (op_i2 op - int i)) (drop i L)) (drop (nat (op_j2 op - int j)) (drop j M)) ops"
    by (simp_all add: Let_def)
  have nat: "op_i2 op = int i2" "op_j2 op = int j2" and ij: "i \<le> i2" "j \<le> j2"
    using shape_le [OF shape] start by (simp_all add: i2_def j2_def le_nat_iff)
  have n': "nat (op_i2 op - int i) = i2 - i" "nat (op_j2 op - int j) = j2 - j" using nat by simp_all
  have le: "i2 \<le> length L" "j2 \<le> length M" using n Cons.prems(3,4) ij by (simp_all add: n')
  note first = refine_line_op_aligned [OF start(1) nat(1) start(2) nat(2) shape le _ lines, of ob nb]
  have E: "take (i2 - i) (drop i L) = take (j2 - j) (drop j M)" if "op_tag op = Equal" using eq that by (simp add: n')
  have "drop (i2 - i) (drop i L) = drop i2 L" "drop (j2 - j) (drop j M) = drop j2 M" using ij by simp_all
  then have rest': "aligned (int i2) (int j2) (drop i2 L) (drop j2 M) ops" using rest unfolding n' by (simp only: nat)
  have sp: "spaced ops" "ops \<noteq> [] \<Longrightarrow> op_tag op = Equal \<or> op_tag (hd ops) = Equal"
    using Cons.prems(2) spaced_append [of "[op]" ops] by auto
  note IH = Cons.IH [OF rest' sp(1) le]
  have off: "int (length (concat (take i2 L))) = int (length (concat (take i L))) + int (length (concat (take (i2 - i) (drop i L))))"
    "int (length (concat (take j2 M))) = int (length (concat (take j M))) + int (length (concat (take (j2 - j) (drop j M))))"
    using concat_take_split [OF ij(1), of L] concat_take_split [OF ij(2), of M] by simp_all
  have parts: "concat (drop i L) = concat (take (i2 - i) (drop i L)) @ concat (drop i2 L)"
    "concat (drop j M) = concat (take (j2 - j) (drop j M)) @ concat (drop j2 M)"
    using drop_between [OF ij(1), of L] drop_between [OF ij(2), of M] by (metis concat_append)+
  have "aligned (int (length (concat (take i L))) + ob) (int (length (concat (take j M))) + nb)
      (concat (drop i L)) (concat (drop j M)) (?f op @ concat (map ?f ops))"
    unfolding parts using first(1) [OF E] IH
    by (intro aligned_append) (simp_all add: off add.assoc add.commute add.left_commute)
  moreover have "spaced (?f op @ concat (map ?f ops))"
  proof -
    have "op_tag (last (?f op)) = Equal \<or> op_tag (hd (concat (map ?f ops))) = Equal" if c: "concat (map ?f ops) \<noteq> []"
    proof (cases "op_tag op = Equal")
      case True
      then show ?thesis using first(3,4) [OF E] by (metis last_in_set)
    next
      case False
      obtain o2 os where o2: "ops = o2 # os" using c by (cases ops) auto
      then have tag: "op_tag o2 = Equal" using sp(2) False by simp
      then have "op_tag o2 \<noteq> Replace" by simp
      then have "?f o2 = [\<lparr>op_tag = op_tag o2, op_i1 = line_offsets L ! nat (op_i1 o2) + ob, op_i2 = line_offsets L ! nat (op_i2 o2) + ob,
          op_j1 = line_offsets M ! nat (op_j1 o2) + nb, op_j2 = line_offsets M ! nat (op_j2 o2) + nb\<rparr>]"
        by (simp add: refine_line_op_def Let_def)
      then show ?thesis using o2 tag by simp
    qed
    then show ?thesis unfolding spaced_append using first(2) [OF E] IH by blast
  qed
  ultimately show ?case by simp
qed

lemma align_middle_aligned:
  "aligned ob nb old new (align_middle old new ob nb)" "spaced (align_middle old new ob nb)"
proof -
  have lines: "\<forall>l \<in> set (splitlines t). l \<noteq> []" for t using splitlines_nonempty by blast
  have A: "aligned ob nb old new (align_middle old new ob nb) \<and> spaced (align_middle old new ob nb)" if "old \<noteq> []" "new \<noteq> []"
    using refine_lines_aligned [of 0 0 "splitlines old" "splitlines new" "get_opcodes (splitlines old) (splitlines new)" ob nb]
      get_opcodes_aligned [of "splitlines old" "splitlines new"] lines that
    by (simp add: align_middle_def Let_def)
  have B: "aligned ob nb old new (align_middle old new ob nb) \<and> spaced (align_middle old new ob nb)" if "old = [] \<or> new = []"
    using that by (auto simp: align_middle_def Let_def op_shape_def)
  show "aligned ob nb old new (align_middle old new ob nb)" "spaced (align_middle old new ob nb)" using A B by blast+
qed

lemma whole_lines_prefix_le: "whole_lines_prefix old p \<le> p"
  using length_dropWhile_le [of "\<lambda>c. c \<noteq> 10" "rev (take p old)"] by (simp add: whole_lines_prefix_def Let_def)

lemma whole_lines_suffix_le:
  assumes "n \<le> length old"
  shows "whole_lines_suffix old n \<le> n"
proof (cases "find_index (\<lambda>c. c = 10) (drop (length old - n) old)")
  case (Some k)
  from find_index_SomeD(1) [OF this] have "k < n" using assms by simp
  then show ?thesis using Some assms by (auto simp: whole_lines_suffix_def Let_def)
qed (simp add: whole_lines_suffix_def Let_def)

text \<open>The operations of an alignment cover both texts and say where they are equal\<close>

lemma align_texts_aligned:
  "aligned 0 0 old new (ta_opcodes (align_texts old new))" "spaced (ta_opcodes (align_texts old new))"
  "ta_old_length (align_texts old new) = int (length old)" "ta_new_length (align_texts old new) = int (length new)"
proof -
  define common where "common = match_length old new"
  define ending where "ending = match_length (rev (drop common old)) (rev (drop common new))"
  define p n where "p = whole_lines_prefix old common" and "n = whole_lines_suffix old ending"
  have common: "common \<le> length old" "common \<le> length new" "take common old = take common new"
    using match_length_le [of old new] match_length_take [of old new] by (simp_all add: common_def)
  have ending: "ending \<le> length old - common" "ending \<le> length new - common"
    "take ending (rev (drop common old)) = take ending (rev (drop common new))"
    using match_length_le [of "rev (drop common old)" "rev (drop common new)"] match_length_take [of "rev (drop common old)"]
    by (simp_all add: ending_def)
  have p: "p \<le> common" and n: "n \<le> ending"
    using whole_lines_prefix_le [of old common] whole_lines_suffix_le [of ending old] ending by (simp_all add: p_def n_def)
  have first: "take p old = take p new" using common(3) p by (metis min_def take_take)
  have "take n (rev (drop common old)) = take n (rev (drop common new))" using ending(3) n by (metis min_def take_take)
  then have last: "drop (length old - n) old = drop (length new - n) new"
    using n ending common by (simp add: take_rev drop_drop)
  define middle where "middle = (\<lambda>t :: utext. take (length t - n - p) (drop p t))"
  have split: "t = take p t @ middle t @ drop (length t - n) t" if "p + n \<le> length t" for t
    using that drop_between [of p "length t - n" t] by (simp add: middle_def)
  have le: "p + n \<le> length old" "p + n \<le> length new" using p n ending common by linarith+
  have len: "int (length (middle old)) = int (length old - n) - int p" "int (length (middle new)) = int (length new - n) - int p"
    using le by (simp_all add: middle_def)
  define A where "A = (if 0 < p then [equal_op 0 0 p] else [])"
  define C where "C = (if 0 < n then [equal_op (length old - n) (length new - n) n] else [])"
  define B where "B = align_middle (middle old) (middle new) (int p) (int p)"
  have ops: "ta_opcodes (align_texts old new) = A @ B @ C"
    by (simp add: align_texts_def Let_def common_def ending_def p_def n_def middle_def A_def B_def C_def)
  have a: "aligned 0 0 (take p old) (take p new) A" "spaced A"
    using le by (auto simp: A_def equal_op_def Let_def op_shape_def first)
  have c: "aligned (int (length old - n)) (int (length new - n)) (drop (length old - n) old) (drop (length new - n) new) C" "spaced C"
    using le last by (auto simp: C_def equal_op_def Let_def op_shape_def)
  have "aligned (int p) (int p) (middle old @ drop (length old - n) old) (middle new @ drop (length new - n) new) (B @ C)"
    using align_middle_aligned(1) [of "int p" "int p" "middle old" "middle new"] c le
    by (intro aligned_append) (simp_all add: B_def len)
  note later = this
  have "aligned 0 0 (take p old @ middle old @ drop (length old - n) old) (take p new @ middle new @ drop (length new - n) new) (A @ B @ C)"
    by (rule aligned_append [OF a(1)]) (use later le in simp)
  then show "aligned 0 0 old new (ta_opcodes (align_texts old new))"
    by (simp only: ops split [OF le(1), symmetric] split [OF le(2), symmetric])
  have "spaced (B @ C)" unfolding spaced_append using align_middle_aligned(2) c(2) by (auto simp: B_def C_def equal_op_def)
  then show "spaced (ta_opcodes (align_texts old new))"
    unfolding ops spaced_append [of A] using a(2) by (auto simp: A_def equal_op_def)
qed (simp_all add: align_texts_def Let_def)

section \<open>Positions\<close>

text \<open>The operation that decides where a position goes is the first that inserts at it or contains it\<close>

definition hits :: "int \<Rightarrow> opcode \<Rightarrow> bool" where
  "hits p op = (op_tag op = Insert \<and> op_i1 op = p \<or> op_i1 op \<le> p \<and> p < op_i2 op)"

definition image_in :: "int \<Rightarrow> bool \<Rightarrow> opcode \<Rightarrow> int" where
  "image_in p after op =
     (case op_tag op of
        Insert \<Rightarrow> if after then op_j2 op else op_j1 op
      | Equal \<Rightarrow> op_j1 op + (p - op_i1 op)
      | Delete \<Rightarrow> op_j1 op
      | Replace \<Rightarrow> op_j1 op + (p - op_i1 op) * (op_j2 op - op_j1 op) div (op_i2 op - op_i1 op))"

definition locate :: "opcode list \<Rightarrow> int \<Rightarrow> bool \<Rightarrow> int \<Rightarrow> int" where
  "locate ops p after J = (case find (hits p) ops of Some op \<Rightarrow> image_in p after op | None \<Rightarrow> J)"

lemma find_SomeE: "find P xs = Some x \<Longrightarrow> x \<in> set xs \<and> P x"
  by (induction xs) (auto split: if_splits)

lemma find_None_all: "find P xs = None \<longleftrightarrow> (\<forall>x \<in> set xs. \<not> P x)"
  by (induction xs) auto

lemma aligned_starts: "aligned i j xs ys ops \<Longrightarrow> op \<in> set ops \<Longrightarrow> i \<le> op_i1 op \<and> op_shape op"
proof (induction ops arbitrary: i j xs ys)
  case (Cons o1 ops)
  then have o1: "op_i1 o1 = i" "op_shape o1" and rest: "aligned (op_i2 o1) (op_j2 o1) (drop (nat (op_i2 o1 - i)) xs) (drop (nat (op_j2 o1 - j)) ys) ops"
    by (simp_all add: Let_def)
  show ?case
  proof (cases "op = o1")
    case False
    then show ?thesis using Cons.IH [OF rest] Cons.prems(2) o1 shape_le [OF o1(2)] by auto
  qed (use o1 in simp)
qed simp

text \<open>Looking for insertions first and for the containing operation then finds the same operation\<close>

lemma find_in_two_passes:
  assumes "aligned i j xs ys ops"
  shows "(case find (\<lambda>op. op_tag op = Insert \<and> op_i1 op = p) ops of Some op \<Rightarrow> Some op
      | None \<Rightarrow> find (\<lambda>op. op_i1 op \<le> p \<and> p < op_i2 op) ops) = find (hits p) ops"
  using assms
proof (induction ops arbitrary: i j xs ys)
  case (Cons o1 ops)
  then have o1: "op_i1 o1 = i" "op_shape o1" and rest: "aligned (op_i2 o1) (op_j2 o1) (drop (nat (op_i2 o1 - i)) xs) (drop (nat (op_j2 o1 - j)) ys) ops"
    by (simp_all add: Let_def)
  show ?case
  proof (cases "op_i1 o1 \<le> p \<and> p < op_i2 o1")
    case True
    then have "\<not> (op_tag op = Insert \<and> op_i1 op = p)" if "op \<in> set ops" for op
      using aligned_starts [OF rest that] by auto
    then have none: "find (\<lambda>op. op_tag op = Insert \<and> op_i1 op = p) ops = None" by (simp add: find_None_all)
    have "op_tag o1 \<noteq> Insert" using True o1(2) by (auto simp: op_shape_def)
    then show ?thesis using True none by (simp add: hits_def)
  next
    case False
    show ?thesis
    proof (cases "op_tag o1 = Insert \<and> op_i1 o1 = p")
      case other: False
      then show ?thesis using Cons.IH [OF rest] False by (auto simp: hits_def split: option.splits)
    qed (simp add: hits_def)
  qed
qed simp

lemma hits_exists:
  "aligned i j xs ys ops \<Longrightarrow> i \<le> p \<Longrightarrow> p < i + int (length xs) \<Longrightarrow> find (hits p) ops \<noteq> None"
proof (induction ops arbitrary: i j xs ys)
  case (Cons o1 ops)
  then have o1: "op_i1 o1 = i" "op_shape o1" "nat (op_i2 o1 - i) \<le> length xs"
    and rest: "aligned (op_i2 o1) (op_j2 o1) (drop (nat (op_i2 o1 - i)) xs) (drop (nat (op_j2 o1 - j)) ys) ops"
    by (simp_all add: Let_def)
  show ?case
  proof (cases "p < op_i2 o1")
    case True
    then show ?thesis using Cons.prems(2) o1(1) by (simp add: hits_def)
  next
    case False
    then have "find (hits p) ops \<noteq> None" using Cons.IH [OF rest] Cons.prems(3) o1 shape_le [OF o1(2)] by auto
    then show ?thesis by simp
  qed
qed simp

lemma image_in_two_passes:
  assumes "aligned i j xs ys ops" "find (hits p) ops = Some op"
  shows "(case find (\<lambda>op. op_tag op = Insert \<and> op_i1 op = p) ops of
        Some op \<Rightarrow> if after then op_j2 op else op_j1 op
      | None \<Rightarrow> (case find (\<lambda>op. op_i1 op \<le> p \<and> p < op_i2 op) ops of
           Some op \<Rightarrow> if op_tag op = Equal then op_j1 op + (p - op_i1 op)
             else if op_tag op = Delete then op_j1 op
             else op_j1 op + (p - op_i1 op) * (op_j2 op - op_j1 op) div (op_i2 op - op_i1 op)
         | None \<Rightarrow> z)) = image_in p after op"
proof (cases "find (\<lambda>op. op_tag op = Insert \<and> op_i1 op = p) ops")
  case (Some o1)
  then have "op = o1" using find_in_two_passes [OF assms(1), of p] assms(2) by simp
  then show ?thesis using Some find_SomeE [OF Some] by (simp add: image_in_def)
next
  case None
  then have f: "find (\<lambda>op. op_i1 op \<le> p \<and> p < op_i2 op) ops = Some op" using find_in_two_passes [OF assms(1), of p] assms(2) by simp
  have "op_shape op" using aligned_starts [OF assms(1)] find_SomeE [OF f] by blast
  then have "op_tag op \<noteq> Insert" using find_SomeE [OF f] by (auto simp: op_shape_def)
  then show ?thesis using None f by (cases "op_tag op") (simp_all add: image_in_def)
qed

text \<open>Both versions of a text, and their alignment\<close>

definition aligns :: "utext \<Rightarrow> utext \<Rightarrow> text_alignment \<Rightarrow> bool" where
  "aligns old new al = (aligned 0 0 old new (ta_opcodes al) \<and> spaced (ta_opcodes al)
     \<and> ta_old_length al = int (length old) \<and> ta_new_length al = int (length new))"

lemma aligns_align_texts: "aligns old new (align_texts old new)"
  by (simp add: aligns_def align_texts_aligned)

lemma map_position_locate:
  assumes "aligns old new al" "0 \<le> p" "p \<le> int (length old)"
  shows "map_position al p after = locate (ta_opcodes al) p after (int (length new))"
proof (cases "find (hits p) (ta_opcodes al)")
  case (Some op)
  have al: "aligned 0 0 old new (ta_opcodes al)" using assms(1) by (simp add: aligns_def)
  show ?thesis unfolding map_position_def locate_def Some option.case by (rule image_in_two_passes [OF al Some])
next
  case None
  have al: "aligned 0 0 old new (ta_opcodes al)" using assms(1) by (simp add: aligns_def)
  have "\<not> p < int (length old)" using hits_exists [OF al assms(2)] None by auto
  then have "ta_old_length al \<le> p" "ta_new_length al = int (length new)" using assms by (simp_all add: aligns_def)
  moreover have "find (\<lambda>op. op_tag op = Insert \<and> op_i1 op = p) (ta_opcodes al) = None"
    "find (\<lambda>op. op_i1 op \<le> p \<and> p < op_i2 op) (ta_opcodes al) = None"
    using None by (auto simp: find_None_all hits_def)
  ultimately show ?thesis using None by (simp add: map_position_def locate_def)
qed

lemma image_in_bounds:
  assumes "op_shape op" "hits p op"
  shows "op_j1 op \<le> image_in p after op \<and> image_in p after op \<le> op_j2 op"
proof (cases "op_tag op")
  case Replace
  then have p: "0 \<le> p - op_i1 op" "p - op_i1 op < op_i2 op - op_i1 op" "0 < op_j2 op - op_j1 op"
    using assms by (auto simp: hits_def op_shape_def)
  have "(p - op_i1 op) * (op_j2 op - op_j1 op) div (op_i2 op - op_i1 op)
      \<le> (op_i2 op - op_i1 op) * (op_j2 op - op_j1 op) div (op_i2 op - op_i1 op)"
    using p by (intro zdiv_mono1 mult_right_mono) auto
  also have "\<dots> = op_j2 op - op_j1 op" using p by simp
  finally show ?thesis using Replace p by (simp add: image_in_def div_int_pos_iff)
qed (use assms in \<open>auto simp: image_in_def hits_def op_shape_def\<close>)

lemma image_in_mono:
  assumes "op_shape op" "hits p op" "hits q op" "p \<le> q" "p = q \<and> fp \<longrightarrow> fq"
  shows "image_in p fp op \<le> image_in q fq op"
proof (cases "op_tag op")
  case Replace
  then have "0 < op_i2 op - op_i1 op" "0 \<le> op_j2 op - op_j1 op" using assms(1) by (auto simp: op_shape_def)
  then have "(p - op_i1 op) * (op_j2 op - op_j1 op) div (op_i2 op - op_i1 op)
      \<le> (q - op_i1 op) * (op_j2 op - op_j1 op) div (op_i2 op - op_i1 op)"
    using assms(4) by (intro zdiv_mono1 mult_right_mono) auto
  then show ?thesis using Replace by (simp add: image_in_def)
qed (use assms in \<open>auto simp: image_in_def hits_def op_shape_def\<close>)

lemma locate_Cons: "locate (op # ops) p after J = (if hits p op then image_in p after op else locate ops p after J)"
  by (simp add: locate_def)

lemma misses_later: "op_shape op \<Longrightarrow> op_i1 op \<le> p \<Longrightarrow> \<not> hits p op \<Longrightarrow> op_i2 op \<le> p"
  by (cases "op_tag op") (auto simp: hits_def op_shape_def)

lemma misses_still: "op_shape op \<Longrightarrow> op_i1 op \<le> p \<Longrightarrow> \<not> hits p op \<Longrightarrow> p \<le> q \<Longrightarrow> \<not> hits q op"
  by (cases "op_tag op") (auto simp: hits_def op_shape_def)

lemma locate_mono:
  "aligned i j xs ys ops \<Longrightarrow> i \<le> p \<Longrightarrow> p \<le> q \<Longrightarrow> (p = q \<and> fp \<longrightarrow> fq) \<Longrightarrow> J = j + int (length ys)
   \<Longrightarrow> j \<le> locate ops p fp J \<and> locate ops p fp J \<le> locate ops q fq J \<and> locate ops q fq J \<le> J"
proof (induction ops arbitrary: i j xs ys p fp)
  case Nil
  then show ?case by (simp add: locate_def)
next
  case (Cons op ops)
  from Cons.prems(1) have op: "op_i1 op = i" "op_j1 op = j" "op_shape op" "nat (op_j2 op - j) \<le> length ys"
    and rest: "aligned (op_i2 op) (op_j2 op) (drop (nat (op_i2 op - i)) xs) (drop (nat (op_j2 op - j)) ys) ops"
    by (simp_all add: Let_def)
  have j: "j \<le> op_j2 op" using shape_le [OF op(3)] op(2) by simp
  have J: "J = op_j2 op + int (length (drop (nat (op_j2 op - j)) ys))" using op(4) j Cons.prems(5) by simp
  show ?case
  proof (cases "hits p op")
    case False
    have "op_i2 op \<le> p" "\<not> hits q op" using misses_later misses_still op Cons.prems(2,3) False by blast+
    then show ?thesis using Cons.IH [OF rest _ Cons.prems(3,4) J] False j by (simp add: locate_Cons)
  next
    case True
    note image = image_in_bounds [OF op(3) True, of fp]
    show ?thesis
    proof (cases "hits q op")
      case hit: True
      have "op_j2 op \<le> J" using J by simp
      then show ?thesis using True hit image image_in_bounds [OF op(3) hit, of fq] image_in_mono [OF op(3) True hit Cons.prems(3,4)] op(2)
        by (simp add: locate_Cons)
    next
      case miss: False
      have "i \<le> q" using Cons.prems(2,3) by simp
      then have "op_i2 op \<le> q" using misses_later op(1,3) miss by blast
      from Cons.IH [OF rest this order_refl _ J, of fq] have "op_j2 op \<le> locate ops q fq J" "locate ops q fq J \<le> J" by simp_all
      then show ?thesis using True miss image op(2) by (simp add: locate_Cons)
    qed
  qed
qed

text \<open>At the place where the operations begin, before anything inserted there\<close>

lemma locate_start:
  "aligned i j xs ys ops \<Longrightarrow> J = j + int (length ys) \<Longrightarrow> locate ops i False J = j"
  by (cases ops) (auto simp: Let_def locate_def hits_def image_in_def op_shape_def split: tag.splits)

lemma locate_start_after:
  assumes "aligned i j xs ys ops" "J = j + int (length ys)" "ops = [] \<or> op_tag (hd ops) \<noteq> Insert"
  shows "locate ops i after J = j"
  using assms by (cases ops) (auto simp: Let_def locate_def hits_def image_in_def op_shape_def split: tag.splits)

text \<open>A stretch without a change has the same text at its new place\<close>

lemma locate_text:
  "aligned i j xs ys ops \<Longrightarrow> spaced ops \<Longrightarrow> J = j + int (length ys)
   \<Longrightarrow> i \<le> p \<Longrightarrow> p \<le> q \<Longrightarrow> q \<le> i + int (length xs) \<Longrightarrow> p < q \<or> \<not> f
   \<Longrightarrow> \<not> list_ex (op_changes p q (\<not> f) g) ops
   \<Longrightarrow> locate ops q g J - locate ops p f J = q - p
     \<and> take (nat (q - p)) (drop (nat (locate ops p f J - j)) ys) = take (nat (q - p)) (drop (nat (p - i)) xs)"
proof (induction ops arbitrary: i j xs ys p f)
  case Nil
  then show ?case by (simp add: locate_def)
next
  case (Cons op ops)
  define n m where "n = nat (op_i2 op - i)" and "m = nat (op_j2 op - j)"
  from Cons.prems(1) have op: "op_i1 op = i" "op_j1 op = j" "op_shape op" "n \<le> length xs" "m \<le> length ys"
    and eq: "op_tag op = Equal \<longrightarrow> take n xs = take m ys"
    and rest: "aligned (op_i2 op) (op_j2 op) (drop n xs) (drop m ys) ops"
    by (simp_all add: Let_def n_def m_def)
  have ends: "i \<le> op_i2 op" "j \<le> op_j2 op" "op_i2 op = i + int n" "op_j2 op = j + int m"
    using shape_le [OF op(3)] op(1,2) by (simp_all add: n_def m_def)
  have J: "J = op_j2 op + int (length (drop m ys))" using op(5) ends Cons.prems(3) by simp
  have len: "op_i2 op + int (length (drop n xs)) = i + int (length xs)" using op(4) ends by simp
  have sp: "spaced ops" "ops = [] \<or> op_tag op = Equal \<or> op_tag (hd ops) = Equal"
    using Cons.prems(2) spaced_append [of "[op]" ops] by auto
  have same: "\<not> op_changes p q (\<not> f) g op" "\<not> list_ex (op_changes p q (\<not> f) g) ops" using Cons.prems(8) by simp_all
  note IH = Cons.IH [OF rest sp(1) J]
  show ?case
  proof (cases "hits p op")
    case False
    have i2: "op_i2 op \<le> p" and q: "\<not> hits q op" using misses_later misses_still op(1,3) Cons.prems(4,5) False by blast+
    have "q \<le> op_i2 op + int (length (drop n xs))" using Cons.prems(6) len by simp
    note ih = IH [OF i2 Cons.prems(5) this Cons.prems(7) same(2)]
    have "op_j2 op \<le> locate ops p f J" using locate_mono [OF rest i2 order_refl _ J, of f f] by simp
    then have "nat (locate ops p f J - j) = nat (locate ops p f J - op_j2 op) + m" "nat (p - i) = nat (p - op_i2 op) + n"
      using i2 ends by linarith+
    then show ?thesis using ih False q by (simp add: locate_Cons)
  next
    case True
    show ?thesis
    proof (cases "op_tag op")
      case Equal
      then have "hits p op \<longleftrightarrow> i \<le> p \<and> p < op_i2 op" for p using op(1) by (auto simp: hits_def)
      note hit = this
      have m: "m = n" and E: "take n xs = take n ys" using Equal op eq by (simp_all add: op_shape_def n_def m_def)
      have image: "image_in p' g' op = j + (p' - i)" for p' g' using Equal op by (simp add: image_in_def)
      show ?thesis
      proof (cases "q \<le> op_i2 op")
        case q: True
        have target: "locate (op # ops) q g J = j + (q - i)"
        proof (cases "q < op_i2 op")
          case False
          then have qi: "q = op_i2 op" and miss: "\<not> hits q op" using q hit by simp_all
          have "locate ops (op_i2 op) g J = op_j2 op"
          proof (cases g)
            case True
            have "ops = [] \<or> op_tag (hd ops) \<noteq> Insert"
            proof (rule ccontr)
              assume "\<not> ?thesis"
              then obtain o1 os where os: "ops = o1 # os" "op_tag o1 = Insert" by (cases ops) auto
              then have "op_i1 o1 = q" using rest qi by (simp add: Let_def)
              then have "op_changes p q (\<not> f) g o1" using os(2) True by (simp add: op_changes_def)
              then show False using same(2) os(1) by simp
            qed
            from locate_start_after [OF rest J this] show ?thesis .
          next
            case False
            then show ?thesis using locate_start [OF rest J] by simp
          qed
          then show ?thesis using qi miss m ends by (simp add: locate_Cons)
        qed (use hit Cons.prems(4,5) in \<open>simp add: locate_Cons image\<close>)
        have inside: "take (nat (q - p)) (drop (nat (p - i)) t) = take (nat (q - p)) (drop (nat (p - i)) (take n t))" for t :: "'a list"
        proof -
          have "nat (q - p) \<le> n - nat (p - i)" using q Cons.prems(4,5) ends by linarith
          then show ?thesis by (simp add: drop_take min_def)
        qed
        have "locate (op # ops) p f J = j + (p - i)" using True by (simp add: locate_Cons image)
        then show ?thesis using target inside [of xs] inside [of ys] E by simp
      next
        case q: False
        have le: "op_i2 op \<le> q" "op_i2 op < q" "q \<le> op_i2 op + int (length (drop n xs))" using q Cons.prems(6) len by simp_all
        have p: "i \<le> p" "p < op_i2 op" using True hit by blast+
        have "op_changes p q (\<not> f) g o' = op_changes (op_i2 op) q True g o'" if "o' \<in> set ops" for o'
          using aligned_starts [OF rest that] p(2) le(2) by (cases "op_tag o'") (auto simp: op_changes_def op_shape_def)
        then have "\<not> list_ex (op_changes (op_i2 op) q (\<not> False) g) ops" using same(2) by (auto simp: list_ex_iff)
        from IH [OF order_refl le(1,3) _ this] locate_start [OF rest J]
        have ih: "locate ops q g J - op_j2 op = q - op_i2 op" "take (nat (q - op_i2 op)) (drop m ys) = take (nat (q - op_i2 op)) (drop n xs)"
          by simp_all
        have cut: "take (nat (q - p)) (drop (nat (p - i)) t) = drop (nat (p - i)) (take n t) @ take (nat (q - op_i2 op)) (drop n t)"
          if "n \<le> length t" for t :: "'a list"
        proof -
          have N: "nat (q - p) = (n - nat (p - i)) + nat (q - op_i2 op)" "nat (p - i) \<le> n" using p le ends by linarith+
          have "take (nat (q - p)) (drop (nat (p - i)) t)
              = take (n - nat (p - i)) (drop (nat (p - i)) t) @ take (nat (q - op_i2 op)) (drop (n - nat (p - i)) (drop (nat (p - i)) t))"
            unfolding N(1) by (rule take_add)
          then show ?thesis using N(2) by (simp add: drop_take)
        qed
        have "locate (op # ops) p f J = j + (p - i)" "locate (op # ops) q g J = locate ops q g J"
          using True hit le(1) by (simp_all add: locate_Cons image)
        then show ?thesis using ih cut [OF op(4)] cut [of ys] op(5) E ends m by simp
      qed
    next
      case Insert
      then have p: "p = i" and i2: "op_i2 op = i" using True op by (auto simp: hits_def op_shape_def)
      show ?thesis
      proof (cases f)
        case False
        then have "op_changes p q (\<not> f) g op" using Insert p op(1) by (simp add: op_changes_def)
        then show ?thesis using same(1) by simp
      next
        case f: True
        then have pq: "p < q" using Cons.prems(7) by simp
        then have nothit: "\<not> hits q op" using Insert p i2 op(1) by (simp add: hits_def)
        have nohd: "ops = [] \<or> op_tag (hd ops) \<noteq> Insert" using sp(2) Insert by auto
        have "op_changes p q (\<not> False) g o' = op_changes p q (\<not> f) g o'" if o': "o' \<in> set ops" for o'
        proof (cases "op_tag o' = Insert \<and> op_i1 o' = p")
          case at: True
          obtain o1 os where os: "ops = o1 # os" using o' by (cases ops) auto
          then have "op_shape o1" "op_i1 o1 = i" "op_tag o1 = Equal"
            using rest i2 sp(2) Insert by (auto simp: Let_def)
          then have later: "i < op_i2 o1" by (simp add: op_shape_def)
          have "o' \<noteq> o1" using at os nohd by auto
          then have inos: "o' \<in> set os" using o' os by simp
          have "aligned (op_i2 o1) (op_j2 o1) (drop (nat (op_i2 o1 - op_i2 op)) (drop n xs))
              (drop (nat (op_j2 o1 - op_j2 op)) (drop m ys)) os"
            using rest os by (simp add: Let_def)
          from aligned_starts [OF this inos] have "op_i2 o1 \<le> op_i1 o'" by simp
          then show ?thesis using at p later by simp
        qed (auto simp: op_changes_def)
        then have "\<not> list_ex (op_changes p q (\<not> False) g) ops" using same(2) by (auto simp: list_ex_iff)
        moreover have "op_i2 op \<le> p" using p i2 by simp
        moreover have "q \<le> op_i2 op + int (length (drop n xs))" using Cons.prems(6) len by simp
        ultimately have ih: "locate ops q g J - locate ops p False J = q - p"
          "take (nat (q - p)) (drop (nat (locate ops p False J - op_j2 op)) (drop m ys)) = take (nat (q - p)) (drop (nat (p - op_i2 op)) (drop n xs))"
          using IH [of p False] Cons.prems(5) by blast+
        have "locate ops p False J = op_j2 op" using locate_start [OF rest J] p i2 by simp
        moreover have "n = 0" using i2 by (simp add: n_def)
        ultimately show ?thesis using ih True f nothit Insert p i2 ends by (simp add: locate_Cons image_in_def)
      qed
    next
      case Delete
      then have "q = p" using True same(1) Cons.prems(5) op by (auto simp: hits_def op_changes_def op_shape_def)
      then have nf: "\<not> f" using Cons.prems(7) by simp
      show ?thesis using \<open>q = p\<close> True Delete by (simp add: locate_Cons image_in_def)
    next
      case Replace
      then have "q = p" using True same(1) Cons.prems(5) op by (auto simp: hits_def op_changes_def op_shape_def)
      then show ?thesis using True Replace by (simp add: locate_Cons image_in_def)
    qed
  qed
qed

section \<open>What an alignment promises\<close>

text \<open>
  The interface between the alignment of two texts and the remapping of ranges: where a position goes,
  and whether a stretch has changed.
\<close>

locale position_map =
  fixes old new :: utext
    and pos :: "int \<Rightarrow> bool \<Rightarrow> int"
    and changed :: "int \<Rightarrow> int \<Rightarrow> bool \<Rightarrow> bool \<Rightarrow> bool"
  assumes pos_mono: "0 \<le> p \<Longrightarrow> p \<le> q \<Longrightarrow> q \<le> int (length old) \<Longrightarrow> (p = q \<and> f \<longrightarrow> g) \<Longrightarrow> pos p f \<le> pos q g"
    and pos_first: "pos 0 False = 0"
    and pos_last: "pos (int (length old)) True = int (length new)"
    and pos_text: "0 \<le> p \<Longrightarrow> p \<le> q \<Longrightarrow> q \<le> int (length old) \<Longrightarrow> p < q \<or> \<not> f \<Longrightarrow> \<not> changed p q (\<not> f) g
      \<Longrightarrow> py_slice new (pos p f) (pos q g) = py_slice old p q"
begin

lemma pos_bounds: "0 \<le> p \<Longrightarrow> p \<le> int (length old) \<Longrightarrow> 0 \<le> pos p f \<and> pos p f \<le> int (length new)"
  using pos_mono [of 0 p False f] pos_mono [of p "int (length old)" f True] pos_first pos_last by simp

lemma pos_order: "0 \<le> p \<Longrightarrow> p < q \<Longrightarrow> q \<le> int (length old) \<Longrightarrow> pos p f \<le> pos q g"
  using pos_mono [of p q f g] by simp

end

lemma map_position_mono:
  assumes "aligns old new al" "0 \<le> p" "p \<le> q" "q \<le> int (length old)" "p = q \<and> f \<longrightarrow> g"
  shows "0 \<le> map_position al p f \<and> map_position al p f \<le> map_position al q g \<and> map_position al q g \<le> int (length new)"
proof -
  have al: "aligned 0 0 old new (ta_opcodes al)" using assms(1) by (simp add: aligns_def)
  show ?thesis
    using locate_mono [OF al assms(2,3,5), of "int (length new)"] assms(2-4)
    by (simp add: map_position_locate [OF assms(1)])
qed

lemma map_position_text:
  assumes "aligns old new al" "0 \<le> p" "p \<le> q" "q \<le> int (length old)" "p < q \<or> \<not> f"
    "\<not> changed_between al p q (\<not> f) g"
  shows "py_slice new (map_position al p f) (map_position al q g) = py_slice old p q"
proof -
  define a b where "a = map_position al p f" and "b = map_position al q g"
  have al: "aligned 0 0 old new (ta_opcodes al)" "spaced (ta_opcodes al)" using assms(1) by (simp_all add: aligns_def)
  have loc: "a = locate (ta_opcodes al) p f (int (length new))" "b = locate (ta_opcodes al) q g (int (length new))"
    using assms(2-4) by (simp_all add: a_def b_def map_position_locate [OF assms(1)])
  have same: "b - a = q - p" "take (nat (q - p)) (drop (nat a) new) = take (nat (q - p)) (drop (nat p) old)"
    using locate_text [OF al, of "int (length new)" p q f g] assms(2-6) by (simp_all add: loc changed_between_def)
  have "0 \<le> a" "b \<le> int (length new)"
    using map_position_mono [OF assms(1,2) order_refl, of f f] map_position_mono [OF assms(1) _ order_refl assms(4), of g g] assms(2-4)
    by (simp_all add: a_def b_def)
  then have "py_slice new a b = take (nat (b - a)) (drop (nat a) new)" using same(1) assms(3) by (intro py_slice_inside) auto
  also have "\<dots> = py_slice old p q" using same assms(2-4) by (simp add: py_slice_inside)
  finally show ?thesis by (simp add: a_def b_def)
qed

lemma locate_end:
  "aligned i j xs ys ops \<Longrightarrow> spaced ops \<Longrightarrow> J = j + int (length ys) \<Longrightarrow> locate ops (i + int (length xs)) True J = J"
proof (induction ops arbitrary: i j xs ys)
  case (Cons op ops)
  define n m where "n = nat (op_i2 op - i)" and "m = nat (op_j2 op - j)"
  from Cons.prems(1) have op: "op_i1 op = i" "op_j1 op = j" "op_shape op" "n \<le> length xs" "m \<le> length ys"
    and rest: "aligned (op_i2 op) (op_j2 op) (drop n xs) (drop m ys) ops"
    by (simp_all add: Let_def n_def m_def)
  have ends: "op_i2 op = i + int n" "op_j2 op = j + int m" using shape_le [OF op(3)] op(1,2) by (simp_all add: n_def m_def)
  have sp: "spaced ops" "ops = [] \<or> op_tag op = Equal \<or> op_tag (hd ops) = Equal"
    using Cons.prems(2) spaced_append [of "[op]" ops] by auto
  show ?case
  proof (cases "hits (i + int (length xs)) op")
    case True
    then have ins: "op_tag op = Insert" "xs = []" using op(1,4) ends by (auto simp: hits_def)
    have "ops = []"
    proof (cases ops)
      case (Cons o1 os)
      then have "op_tag o1 = Equal" "op_shape o1" "nat (op_i2 o1 - op_i1 o1) = 0" using sp(2) ins rest by (auto simp: Let_def)
      then show ?thesis by (simp add: op_shape_def)
    qed
    then have "op_j2 op = J" using rest op(5) ends Cons.prems(3) by simp
    then show ?thesis using True ins by (simp add: locate_Cons image_in_def)
  next
    case False
    have "locate ops (op_i2 op + int (length (drop n xs))) True J = J"
      using Cons.prems(3) op(5) ends by (intro Cons.IH [OF rest sp(1)]) simp
    then show ?thesis using False op(4) ends by (simp add: locate_Cons)
  qed
qed (simp add: locate_def)

lemma map_position_ends:
  assumes "aligns old new al"
  shows "map_position al 0 False = 0" "map_position al (int (length old)) True = int (length new)"
proof -
  have al: "aligned 0 0 old new (ta_opcodes al)" using assms by (simp add: aligns_def)
  show "map_position al 0 False = 0" using locate_start [OF al] by (simp add: map_position_locate [OF assms])
  have "locate (ta_opcodes al) (0 + int (length old)) True (int (length new)) = int (length new)"
    using locate_end [OF al] assms by (simp add: aligns_def)
  then show "map_position al (int (length old)) True = int (length new)"
    by (simp add: map_position_locate [OF assms])
qed

text \<open>The alignment of two texts keeps the promise\<close>

interpretation texts: position_map old new "map_position (align_texts old new)" "changed_between (align_texts old new)"
  for old new
proof unfold_locales
  note al = aligns_align_texts [of old new]
  show "map_position (align_texts old new) p f \<le> map_position (align_texts old new) q g"
    if "0 \<le> p" "p \<le> q" "q \<le> int (length old)" "p = q \<and> f \<longrightarrow> g" for p q f g
    using map_position_mono [OF al that] by simp
  show "map_position (align_texts old new) 0 False = 0" "map_position (align_texts old new) (int (length old)) True = int (length new)"
    by (rule map_position_ends [OF al])+
  show "py_slice new (map_position (align_texts old new) p f) (map_position (align_texts old new) q g) = py_slice old p q"
    if "0 \<le> p" "p \<le> q" "q \<le> int (length old)" "p < q \<or> \<not> f" "\<not> changed_between (align_texts old new) p q (\<not> f) g" for p q f g
    by (rule map_position_text [OF al that])
qed

end
