(* ===== verification/SourceRemapProps.thy ===== *)
theory SourceRemapProps
  imports SourceRemap TextDiffProps
begin

text \<open>
  What remapping a range keeps: the text of a range whose text is reported unchanged, the order of the
  ranges, and, where a file goes away or moves, the part of the text that is still there.
\<close>

section \<open>Files as one text\<close>

lemma bases_line_offsets: "bases docs = line_offsets (map sd_text docs)"
  by (simp add: bases_def line_offsets_def fold_map comp_def text_length_def)

lemma nth_bases: "i \<le> length docs \<Longrightarrow> bases docs ! i = int (length (docs_text (take i docs)))"
  by (simp add: bases_line_offsets nth_line_offsets docs_text_def take_map)

lemma bases_Suc: "i < length docs \<Longrightarrow> bases docs ! Suc i = bases docs ! i + text_length (docs ! i)"
  by (simp add: nth_bases docs_text_def take_Suc_conv_app_nth text_length_def)

lemma bases_end: "bases docs ! length docs = int (length (docs_text docs))"
  by (simp add: nth_bases)

lemma text_length_nonneg [simp]: "0 \<le> text_length d"
  by (simp add: text_length_def)

lemma bases_mono: "i \<le> j \<Longrightarrow> j \<le> length docs \<Longrightarrow> bases docs ! i \<le> bases docs ! j"
proof (induction j)
  case (Suc j)
  show ?case
  proof (cases "i = Suc j")
    case False
    then have "bases docs ! i \<le> bases docs ! j" "bases docs ! Suc j = bases docs ! j + text_length (docs ! j)"
      using Suc bases_Suc [of j docs] by simp_all
    then show ?thesis using text_length_nonneg [of "docs ! j"] by linarith
  qed simp
qed simp

lemma bases_nonneg: "i \<le> length docs \<Longrightarrow> 0 \<le> bases docs ! i"
  by (simp add: nth_bases)

lemma file_index_SomeD:
  assumes "file_index docs rel = Some i"
  shows "i < length docs" "sd_rel_path (docs ! i) = rel"
  using find_index_SomeD [OF assms [unfolded file_index_def]] by (simp_all add: rels_def)

lemma file_index_nth: "distinct (rels docs) \<Longrightarrow> i < length docs \<Longrightarrow> file_index docs (rels docs ! i) = Some i"
  using find_index_distinct [of "\<lambda>r. r" "rels docs" i] by (simp add: file_index_def rels_def)

lemma file_index_rels: "rels docs' = rels docs \<Longrightarrow> file_index docs' = file_index docs"
  by (simp add: file_index_def fun_eq_iff)

lemma length_rels [simp]: "length (rels docs) = length docs"
  by (simp add: rels_def)

lemma text_between_one: "text_between docs i a i b = py_slice (sd_text (docs ! i)) a b"
  by (simp add: text_between_def part_def Let_def)

lemma text_between_Suc:
  assumes "f \<le> l"
  shows "text_between docs f a (Suc l) b
    = text_between docs f a l (text_length (docs ! l)) @ py_slice (sd_text (docs ! Suc l)) 0 b"
proof -
  have "map (part docs f a (Suc l) b) [f..<Suc l] = map (part docs f a l (text_length (docs ! l))) [f..<Suc l]"
    by (auto simp: part_def Let_def text_length_def)
  moreover have "text_between docs f a (Suc l) b = concat (map (part docs f a (Suc l) b) [f..<Suc l]) @ part docs f a (Suc l) b (Suc l)"
    unfolding text_between_def using assms by (simp only: upt_Suc_append [of f "Suc l"] map_append concat_append) simp
  moreover have "part docs f a (Suc l) b (Suc l) = py_slice (sd_text (docs ! Suc l)) 0 b" using assms by (simp add: part_def Let_def)
  ultimately show ?thesis by (simp only: text_between_def)
qed

lemma docs_text_slice_one:
  assumes "i < length docs" "0 \<le> a" "a \<le> b" "b \<le> text_length (docs ! i)"
  shows "py_slice (sd_text (docs ! i)) a b = py_slice (docs_text docs) (bases docs ! i + a) (bases docs ! i + b)"
proof -
  have whole: "docs_text docs = docs_text (take i docs) @ sd_text (docs ! i) @ docs_text (drop (Suc i) docs)"
    using assms(1) id_take_nth_drop [OF assms(1)] by (simp add: docs_text_def) (metis concat_append list.simps(9) concat.simps(2) map_append)
  have "py_slice (xs @ t @ ys) (int (length xs) + a) (int (length xs) + b) = py_slice t a b" if "b \<le> int (length t)" for xs t ys :: utext
    using that assms(2,3) by (simp add: py_slice_inside nat_add_distrib)
  from this [of "sd_text (docs ! i)" "docs_text (take i docs)" "docs_text (drop (Suc i) docs)"] show ?thesis
    using assms(1,4) by (simp add: whole [symmetric] nth_bases text_length_def)
qed

text \<open>The text of a range is a slice of all files together\<close>

lemma text_between_slice:
  assumes "f \<le> l" "l < length docs" "0 \<le> a" "a \<le> text_length (docs ! f)" "0 \<le> b" "b \<le> text_length (docs ! l)" "f = l \<longrightarrow> a \<le> b"
  shows "text_between docs f a l b = py_slice (docs_text docs) (bases docs ! f + a) (bases docs ! l + b)"
  using assms
proof (induction l arbitrary: b)
  case 0
  then show ?case by (simp add: text_between_one docs_text_slice_one)
next
  case (Suc l)
  show ?case
  proof (cases "f = Suc l")
    case True
    then show ?thesis using Suc.prems by (simp add: text_between_one docs_text_slice_one)
  next
    case False
    then have fl: "f \<le> l" using Suc.prems(1) by simp
    have base: "bases docs ! Suc l = bases docs ! l + text_length (docs ! l)" using Suc.prems(2) by (intro bases_Suc) simp
    have "text_between docs f a l (text_length (docs ! l)) = py_slice (docs_text docs) (bases docs ! f + a) (bases docs ! Suc l)"
      using Suc.IH [OF fl, of "text_length (docs ! l)"] Suc.prems base by (cases "f = l") simp_all
    moreover have "py_slice (sd_text (docs ! Suc l)) 0 b = py_slice (docs_text docs) (bases docs ! Suc l) (bases docs ! Suc l + b)"
      using docs_text_slice_one [OF Suc.prems(2), of 0 b] Suc.prems(5,6) by simp
    moreover have "bases docs ! f + a \<le> bases docs ! Suc l"
      using bases_mono [of "Suc f" "Suc l" docs] bases_Suc [of f docs] fl Suc.prems(2,4) by simp
    moreover have "bases docs ! Suc l + b \<le> int (length (docs_text docs))"
      using bases_mono [of "Suc (Suc l)" "length docs" docs] bases_Suc [OF Suc.prems(2)] bases_end [of docs] Suc.prems(2,6) by simp
    ultimately show ?thesis
      using py_slice_append [of "bases docs ! f + a" "bases docs ! Suc l" "bases docs ! Suc l + b" "docs_text docs"]
        bases_nonneg [of f docs] Suc.prems(1,2,3,5)
      by (simp add: text_between_Suc [OF fl])
  qed
qed

section \<open>Ranges that fit the files\<close>

definition span_at :: "source_doc list \<Rightarrow> source_span \<Rightarrow> nat \<Rightarrow> nat \<Rightarrow> bool" where
  "span_at docs sp f l = (file_index docs (sp_source_file sp) = Some f \<and> file_index docs (sp_end_file sp) = Some l \<and> f \<le> l
     \<and> 0 \<le> sp_start sp \<and> sp_start sp \<le> text_length (docs ! f) \<and> 0 \<le> sp_end sp \<and> sp_end sp \<le> text_length (docs ! l)
     \<and> (f = l \<longrightarrow> sp_start sp \<le> sp_end sp))"

definition span_fits :: "source_doc list \<Rightarrow> source_span \<Rightarrow> bool" where
  "span_fits docs sp = (case (file_index docs (sp_source_file sp), file_index docs (sp_end_file sp)) of
     (Some f, Some l) \<Rightarrow> span_at docs sp f l | _ \<Rightarrow> False)"

lemma span_fitsE:
  assumes "span_fits docs sp"
  obtains f l where "span_at docs sp f l"
  using assms by (auto simp: span_fits_def split: option.splits)

lemma span_at_fits: "span_at docs sp f l \<Longrightarrow> span_fits docs sp"
  by (auto simp: span_fits_def span_at_def)

lemma span_fits_iff: "span_fits docs sp \<longleftrightarrow> (\<exists>f l. span_at docs sp f l)"
  by (auto elim!: span_fitsE intro: span_at_fits)

lemma span_atD:
  assumes "span_at docs sp f l"
  shows "file_index docs (sp_source_file sp) = Some f" "file_index docs (sp_end_file sp) = Some l" "f \<le> l" "l < length docs"
    "0 \<le> sp_start sp" "sp_start sp \<le> text_length (docs ! f)" "0 \<le> sp_end sp" "sp_end sp \<le> text_length (docs ! l)"
    "f = l \<Longrightarrow> sp_start sp \<le> sp_end sp"
  using assms file_index_SomeD(1) [of docs "sp_end_file sp" l] by (auto simp: span_at_def)

lemma span_at_text:
  assumes "span_at docs sp f l"
  shows "files_text docs sp = Some (text_between docs f (sp_start sp) l (sp_end sp))"
    "text_between docs f (sp_start sp) l (sp_end sp)
      = py_slice (docs_text docs) (bases docs ! f + sp_start sp) (bases docs ! l + sp_end sp)"
  using span_atD [OF assms] by (simp_all add: files_text_def text_between_slice)

lemma span_at_global:
  assumes "span_at docs sp f l"
  shows "global_start docs sp = Some (bases docs ! f + sp_start sp)" "global_end docs sp = Some (bases docs ! l + sp_end sp)"
    "0 \<le> bases docs ! f + sp_start sp" "bases docs ! f + sp_start sp \<le> bases docs ! l + sp_end sp"
    "bases docs ! l + sp_end sp \<le> int (length (docs_text docs))"
proof -
  note sp = span_atD [OF assms]
  show "global_start docs sp = Some (bases docs ! f + sp_start sp)" "global_end docs sp = Some (bases docs ! l + sp_end sp)"
    using sp by (simp_all add: global_start_def global_end_def)
  show "0 \<le> bases docs ! f + sp_start sp" using bases_nonneg [of f docs] sp by simp
  show "bases docs ! l + sp_end sp \<le> int (length (docs_text docs))"
    using bases_mono [of "Suc l" "length docs" docs] bases_Suc [of l docs] bases_end [of docs] sp by simp
  show "bases docs ! f + sp_start sp \<le> bases docs ! l + sp_end sp"
  proof (cases "f = l")
    case False
    then show ?thesis using bases_mono [of "Suc f" l docs] bases_Suc [of f docs] sp by simp
  qed (use sp in simp)
qed

section \<open>Normalizing\<close>

lemma later_start_keeps:
  assumes "f \<le> l" "l < length docs" "0 \<le> s" "s \<le> text_length (docs ! f)" "later_start docs l f s = (f', s')"
  shows "f \<le> f' \<and> f' \<le> l \<and> 0 \<le> s' \<and> s' \<le> text_length (docs ! f') \<and> bases docs ! f' + s' = bases docs ! f + s"
  using assms
proof (induction docs l f s rule: later_start.induct)
  case (1 docs l f s)
  show ?case
  proof (cases "f < l \<and> text_length (docs ! f) \<le> s")
    case True
    then have "later_start docs l (Suc f) 0 = (f', s')" using "1.prems"(5) by (simp add: later_start.simps [of docs l f s])
    from "1.IH" [OF True _ "1.prems"(2) _ _ this] True "1.prems"(2,4) bases_Suc [of f docs] show ?thesis by simp
  next
    case False
    then have "later_start docs l f s = (f, s)" by (subst later_start.simps) auto
    then show ?thesis using "1.prems" by simp
  qed
qed

lemma earlier_end_keeps:
  assumes "f \<le> l" "l < length docs" "0 \<le> e" "e \<le> text_length (docs ! l)" "earlier_end docs f l e = (l', e')"
  shows "f \<le> l' \<and> l' \<le> l \<and> 0 \<le> e' \<and> e' \<le> text_length (docs ! l') \<and> bases docs ! l' + e' = bases docs ! l + e"
  using assms
proof (induction docs f l e rule: earlier_end.induct)
  case (1 docs f l e)
  show ?case
  proof (cases "f < l \<and> e \<le> 0")
    case True
    then have "earlier_end docs f (l - 1) (text_length (docs ! (l - 1))) = (l', e')"
      using "1.prems"(5) by (simp add: earlier_end.simps [of docs f l e])
    moreover have "f \<le> l - 1" "l - 1 < length docs" "e = 0" "bases docs ! l = bases docs ! (l - 1) + text_length (docs ! (l - 1))"
      using True "1.prems"(2,3) bases_Suc [of "l - 1" docs] by auto
    ultimately show ?thesis using "1.IH" [OF True] by fastforce
  next
    case False
    then have "earlier_end docs f l e = (l, e)" by (subst earlier_end.simps) auto
    then show ?thesis using "1.prems" by simp
  qed
qed

text \<open>The same stretch of text, in fewer files\<close>

definition narrowed :: "source_doc list \<Rightarrow> nat \<Rightarrow> int \<Rightarrow> nat \<Rightarrow> int \<Rightarrow> source_span \<Rightarrow> bool" where
  "narrowed docs f a l b sp' = (\<exists>f' l'. span_at docs sp' f' l' \<and> f \<le> f' \<and> l' \<le> l
     \<and> bases docs ! f' + sp_start sp' = bases docs ! f + a \<and> bases docs ! l' + sp_end sp' = bases docs ! l + b)"

lemma normalized_keeps:
  assumes "distinct (rels docs)" "span_at docs sp f l"
  obtains sp' where "normalized docs sp = Some sp'" "narrowed docs f (sp_start sp) l (sp_end sp) sp'"
proof -
  note sp = span_atD [OF assms(2)]
  obtain f' s' where s: "later_start docs l f (sp_start sp) = (f', s')" by (cases "later_start docs l f (sp_start sp)") auto
  obtain l' e' where e: "earlier_end docs f' l (sp_end sp) = (l', e')" by (cases "earlier_end docs f' l (sp_end sp)") auto
  note S = later_start_keeps [OF sp(3,4,5,6) s]
  have fl: "f' \<le> l" using S by simp
  note E = earlier_end_keeps [OF fl sp(4,7,8) e]
  define sp' where "sp' = \<lparr>sp_source_file = rels docs ! f', sp_start = s', sp_end_file = rels docs ! l', sp_end = e'\<rparr>"
  have norm: "normalized docs sp = Some sp'" using sp(1,2) s e by (simp add: normalized_def sp'_def)
  have order: "bases docs ! f' + s' \<le> bases docs ! l' + e'" using S E span_at_global(4) [OF assms(2)] by simp
  have le: "l' < length docs" "f' < length docs" using S E sp(4) by simp_all
  have place: "span_at docs sp' f' l'"
    unfolding span_at_def
    using S E order file_index_nth [OF assms(1) le(1)] file_index_nth [OF assms(1) le(2)] by (auto simp: sp'_def)
  have "narrowed docs f (sp_start sp) l (sp_end sp) sp'"
    unfolding narrowed_def using place S E by (intro exI [of _ f'] exI [of _ l']) (auto simp: sp'_def)
  from that [OF norm this] show thesis .
qed

lemma narrowed_text:
  assumes "span_at docs sp f l" "narrowed docs f (sp_start sp) l (sp_end sp) sp'"
  shows "files_text docs sp' = files_text docs sp"
proof -
  obtain f' l' where place: "span_at docs sp' f' l'" and eq: "bases docs ! f' + sp_start sp' = bases docs ! f + sp_start sp"
    "bases docs ! l' + sp_end sp' = bases docs ! l + sp_end sp"
    using assms(2) by (auto simp: narrowed_def)
  show ?thesis using span_at_text [OF place] span_at_text [OF assms(1)] by (simp only: eq)
qed

lemma narrowed_fits: "narrowed docs f a l b sp' \<Longrightarrow> span_fits docs sp'"
  by (auto simp: narrowed_def intro: span_at_fits)

lemma span_at_narrowed: "span_at docs sp f l \<Longrightarrow> narrowed docs f (sp_start sp) l (sp_end sp) sp"
  by (auto simp: narrowed_def)

section \<open>The last step of every remapping\<close>

definition removed :: "int \<Rightarrow> source_span \<Rightarrow> range_remap" where
  "removed episode sp = \<lparr>rr_episode = episode, rr_before = sp, rr_after = None, rr_text_changed = True\<rparr>"

definition kept :: "int \<Rightarrow> source_span \<Rightarrow> source_span \<Rightarrow> bool \<Rightarrow> range_remap" where
  "kept episode sp sp' changed = \<lparr>rr_episode = episode, rr_before = sp, rr_after = Some sp', rr_text_changed = changed\<rparr>"

lemma remap_simps [simp]:
  "rr_episode (removed e sp) = e" "rr_before (removed e sp) = sp" "rr_after (removed e sp) = None" "rr_text_changed (removed e sp)"
  "rr_episode (kept e sp sp' c) = e" "rr_before (kept e sp sp' c) = sp" "rr_after (kept e sp sp' c) = Some sp'"
  "rr_text_changed (kept e sp sp' c) = c"
  by (simp_all add: removed_def kept_def)

lemma finish_result:
  assumes "distinct (rels docs)" "span_at docs after f l"
  obtains "finish docs episode own after changed = Some (removed episode own)" "strip (the (files_text docs after)) = []"
  | sp' where "finish docs episode own after changed = Some (kept episode own sp' changed)"
      "narrowed docs f (sp_start after) l (sp_end after) sp'"
proof -
  obtain sp' where sp': "normalized docs after = Some sp'" "narrowed docs f (sp_start after) l (sp_end after) sp'"
    using normalized_keeps [OF assms] by blast
  obtain f' l' where place: "span_at docs sp' f' l'" using narrowed_fits [OF sp'(2)] by (rule span_fitsE)
  note idx = span_atD(1,2) [OF place] span_at_text(1) [OF place]
  have content: "files_text docs after = Some (text_between docs f' (sp_start sp') l' (sp_end sp'))"
    using narrowed_text [OF assms(2) sp'(2)] idx(3) by simp
  show thesis
  proof (cases "(l', sp_end sp') \<le> (f', sp_start sp') \<or> strip (text_between docs f' (sp_start sp') l' (sp_end sp')) = []")
    case True
    then have "finish docs episode own after changed = Some (removed episode own)"
      by (simp add: finish_def sp'(1) idx removed_def)
    moreover have "strip (the (files_text docs after)) = []"
    proof (cases "strip (text_between docs f' (sp_start sp') l' (sp_end sp')) = []")
      case False
      then have "f' = l'" "sp_end sp' \<le> sp_start sp'" using True span_atD(3) [OF place] by (auto simp: less_eq_prod_def)
      then have "text_between docs f' (sp_start sp') l' (sp_end sp') = []"
        using span_atD(7) [OF place] by (simp add: text_between_one py_slice_none)
      then show ?thesis using content by (simp add: strip_def lstrip_def rstrip_def)
    qed (use content in simp)
    ultimately show thesis by (rule that(1))
  next
    case False
    then have "finish docs episode own after changed = Some (kept episode own sp' changed)"
      by (simp add: finish_def sp'(1) idx kept_def)
    from that(2) [OF this sp'(2)] show thesis .
  qed
qed

text \<open>A range whose end came to lie before its start is removed\<close>

lemma finish_reversed:
  assumes "distinct (rels docs)" "file_index docs (sp_source_file after) = Some f" "file_index docs (sp_end_file after) = Some f"
    "sp_end after < sp_start after"
  shows "finish docs episode own after changed = Some (removed episode own)"
proof -
  have f: "f < length docs" "rels docs ! f = sp_source_file after" "rels docs ! f = sp_end_file after"
    using file_index_SomeD [OF assms(2)] file_index_SomeD [OF assms(3)] by (simp_all add: rels_def)
  have "normalized docs after = Some after"
    using assms(2,3) f by (simp add: normalized_def later_start.simps [of docs f f] earlier_end.simps [of docs f f])
  then show ?thesis using assms(2-4) by (simp add: finish_def removed_def files_text_def)
qed

end
