(* ===== verification/RangeEdits.thy ===== *)
theory RangeEdits
  imports SourceRemapProps
begin

text \<open>Editing a file: which ranges keep their text, and that the ranges keep their order.\<close>

lemma try_map_all:
  assumes "\<And>x. x \<in> set xs \<Longrightarrow> f x = Some (g x)"
  shows "try_map f xs = Some (map g xs)"
  using assms by (induction xs) auto

lemma try_map_SomeD:
  "try_map f xs = Some ys \<Longrightarrow> length ys = length xs \<and> (\<forall>i < length xs. f (xs ! i) = Some (ys ! i))"
proof (induction xs arbitrary: ys)
  case (Cons x xs)
  then obtain z zs where z: "f x = Some z" "try_map f xs = Some zs" "ys = z # zs" by (auto split: option.splits)
  from Cons.IH [OF z(2)] show ?case using z by (auto simp: nth_Cons split: nat.splits)
qed simp

context position_map
begin

text \<open>A stretch without a change keeps its text, unless its end is now before its start\<close>

lemma pos_keeps_text:
  assumes "0 \<le> p" "p \<le> q" "q \<le> int (length old)" "pos p f \<le> pos q g" "\<not> changed p q (\<not> f) g"
  shows "py_slice new (pos p f) (pos q g) = py_slice old p q"
proof (cases "p < q \<or> \<not> f")
  case True
  then show ?thesis using pos_text assms(1-3,5) by blast
next
  case False
  then have "p = q" "pos q g \<le> pos p f" using assms(1-3) pos_mono [of q q g f] by auto
  then show ?thesis using assms(1,3) pos_bounds [of q g] by (simp add: py_slice_none)
qed

end

section \<open>The files after an edit\<close>

lemma edited_docs_facts:
  assumes "target < length docs" "rels docs ! target = rel"
  shows "rels (edited_docs docs target rel t) = rels docs" "length (edited_docs docs target rel t) = length docs"
    "edited_docs docs target rel t ! target = \<lparr>sd_rel_path = rel, sd_text = t\<rparr>"
    "i \<noteq> target \<Longrightarrow> i < length docs \<Longrightarrow> edited_docs docs target rel t ! i = docs ! i"
proof -
  have "edited_docs docs target rel t = docs[target := \<lparr>sd_rel_path = rel, sd_text = t\<rparr>]"
    using assms(1) by (simp add: edited_docs_def upd_conv_take_nth_drop)
  moreover have "rels (docs[target := \<lparr>sd_rel_path = rel, sd_text = t\<rparr>]) = rels docs"
    using assms by (simp add: rels_def map_update) (metis list_update_id length_map nth_map)
  ultimately show "rels (edited_docs docs target rel t) = rels docs" "length (edited_docs docs target rel t) = length docs"
    "edited_docs docs target rel t ! target = \<lparr>sd_rel_path = rel, sd_text = t\<rparr>"
    "i \<noteq> target \<Longrightarrow> i < length docs \<Longrightarrow> edited_docs docs target rel t ! i = docs ! i"
    using assms(1) by simp_all
qed

text \<open>Where the two ends of a range go\<close>

definition new_start :: "text_alignment \<Rightarrow> nat \<Rightarrow> nat \<Rightarrow> int \<Rightarrow> int" where
  "new_start al target f a = (if f = target then map_position al a True else a)"

definition new_end :: "text_alignment \<Rightarrow> nat \<Rightarrow> bool \<Rightarrow> nat \<Rightarrow> int \<Rightarrow> int" where
  "new_end al target shared l b = (if l = target then map_position al b shared else b)"

definition moved_span :: "text_alignment \<Rightarrow> nat \<Rightarrow> bool \<Rightarrow> nat \<Rightarrow> nat \<Rightarrow> source_span \<Rightarrow> source_span" where
  "moved_span al target shared f l sp =
     sp\<lparr>sp_start := new_start al target f (sp_start sp), sp_end := new_end al target shared l (sp_end sp)\<rparr>"

definition edit_changed :: "text_alignment \<Rightarrow> source_doc list \<Rightarrow> nat \<Rightarrow> bool \<Rightarrow> nat \<Rightarrow> nat \<Rightarrow> source_span \<Rightarrow> bool" where
  "edit_changed al docs target shared f l sp =
     (f \<le> target \<and> target \<le> l
      \<and> changed_between al (if f = target then sp_start sp else 0) (if l = target then sp_end sp else text_length (docs ! target))
          (f \<noteq> target) (l \<noteq> target \<or> shared))"

lemma remap_edited_eq:
  fixes starts :: "int list"
  assumes "span_at docs sp f l"
  defines "shared \<equiv> bases docs ! l + sp_end sp \<in> set starts"
  shows "remap_edited docs new starts al target (episode, sp)
    = (if f \<le> target \<and> target \<le> l
       then finish new episode sp (moved_span al target shared f l sp) (edit_changed al docs target shared f l sp)
       else Some (kept episode sp sp False))"
proof -
  note sp = span_atD(1,2) [OF assms(1)] span_at_global(2) [OF assms(1)]
  show ?thesis
  proof (cases "f \<le> target \<and> target \<le> l")
    case True
    have span: "\<lparr>sp_source_file = sp_source_file sp, sp_start = (if f = target then map_position al (if f = target then sp_start sp else 0) (f = target) else sp_start sp),
        sp_end_file = sp_end_file sp,
        sp_end = (if l = target then map_position al (if l = target then sp_end sp else text_length (docs ! target)) (l \<noteq> target \<or> shared) else sp_end sp)\<rparr>
      = moved_span al target shared f l sp"
      by (cases sp) (simp add: moved_span_def new_start_def new_end_def)
    show ?thesis
      using True
      by (simp only: remap_edited_def sp prod.case option.case Let_def shared_def [symmetric] span not_not if_True simp_thms)
        (simp add: edit_changed_def)
  next
    case False
    then show ?thesis by (auto simp: remap_edited_def sp unchanged_def kept_def)
  qed
qed

section \<open>One range\<close>

lemma edit_span_at:
  fixes new_text :: utext and shared :: bool
  assumes "distinct (rels docs)" "target < length docs" "rels docs ! target = rel" "span_at docs sp f l"
  defines "al \<equiv> align_texts (sd_text (docs ! target)) new_text" and "new \<equiv> edited_docs docs target rel new_text"
    and "sp' \<equiv> moved_span (align_texts (sd_text (docs ! target)) new_text) target shared f l sp"
  assumes order: "f = l \<longrightarrow> sp_start sp' \<le> sp_end sp'"
  shows "span_at new sp' f l"
    and "\<not> edit_changed al docs target shared f l sp \<Longrightarrow> files_text new sp' = files_text docs sp"
proof -
  note docs = edited_docs_facts [OF assms(2,3), where t = new_text, folded new_def]
  note sp = span_atD [OF assms(4)]
  have files: "sp_source_file sp' = sp_source_file sp" "sp_end_file sp' = sp_end_file sp"
    "sp_start sp' = new_start al target f (sp_start sp)" "sp_end sp' = new_end al target shared l (sp_end sp)"
    by (simp_all add: sp'_def moved_span_def al_def)
  have len: "text_length (new ! target) = int (length new_text)" by (simp add: docs(3) text_length_def)
  have len': "text_length (new ! i) = text_length (docs ! i)" if "i \<noteq> target" "i < length docs" for i
    using docs(4) [OF that] by simp
  have bounds: "0 \<le> map_position al p g \<and> map_position al p g \<le> int (length new_text)"
    if "0 \<le> p" "p \<le> text_length (docs ! target)" for p g
    using texts.pos_bounds [of p "sd_text (docs ! target)" new_text g] that by (simp add: al_def text_length_def)
  have "0 \<le> sp_start sp' \<and> sp_start sp' \<le> text_length (new ! f)" "0 \<le> sp_end sp' \<and> sp_end sp' \<le> text_length (new ! l)"
    using sp bounds len len' [of f] len' [of l] by (auto simp: files new_start_def new_end_def)
  then show place: "span_at new sp' f l"
    using sp order by (simp add: span_at_def files(1,2) file_index_rels [OF docs(1)])
  assume same: "\<not> edit_changed al docs target shared f l sp"
  have "part new f (sp_start sp') l (sp_end sp') i = part docs f (sp_start sp) l (sp_end sp) i" if i: "f \<le> i" "i \<le> l" for i
  proof (cases "i = target")
    case False
    then have "new ! i = docs ! i" using docs(4) i sp(4) by simp
    then show ?thesis using False by (simp add: part_def files new_start_def new_end_def Let_def)
  next
    case True
    define t where "t = sd_text (docs ! target)"
    define low high where "low = (if f = target then sp_start sp else 0)" and "high = (if l = target then sp_end sp else text_length (docs ! target))"
    define g where "g = (l \<noteq> target \<or> shared)"
    have tlen: "text_length (docs ! target) = int (length t)" by (simp add: text_length_def t_def)
    have lh: "0 \<le> low" "low \<le> high" "high \<le> int (length t)"
      using sp i True tlen by (auto simp: low_def high_def)
    have nolow: "(if f = target then sp_start sp' else 0) = map_position al low (f = target)"
      using texts.pos_first [of t new_text] by (auto simp: files new_start_def low_def al_def t_def)
    have nohigh: "(if l = target then sp_end sp' else int (length new_text)) = map_position al high g"
      using texts.pos_last [of t new_text] tlen by (auto simp: files new_end_def high_def g_def al_def t_def)
    have "map_position al low (f = target) \<le> map_position al high g"
    proof (cases "f = target \<and> l = target")
      case True
      then show ?thesis using order nolow nohigh by simp
    next
      case False
      then have "low = high \<and> f = target \<longrightarrow> g" by (auto simp: g_def)
      then show ?thesis using texts.pos_mono [OF lh] by (simp add: al_def t_def)
    qed
    moreover have "\<not> changed_between al low high (\<not> f = target) g"
      using same i True by (simp add: edit_changed_def low_def high_def g_def)
    ultimately have "py_slice new_text (map_position al low (f = target)) (map_position al high g) = py_slice t low high"
      using texts.pos_keeps_text [OF lh] by (simp add: al_def t_def)
    then have slice: "py_slice new_text (if f = target then sp_start sp' else 0) (if l = target then sp_end sp' else int (length new_text))
        = py_slice t low high"
      by (simp only: nolow nohigh)
    have "part new f (sp_start sp') l (sp_end sp') i
        = py_slice new_text (if f = target then sp_start sp' else 0) (if l = target then sp_end sp' else int (length new_text))"
      using True by (auto simp: part_def docs(3) Let_def)
    moreover have "part docs f (sp_start sp) l (sp_end sp) i = py_slice t low high"
      using True by (auto simp: part_def Let_def low_def high_def t_def text_length_def)
    ultimately show ?thesis using slice by simp
  qed
  then have "text_between new f (sp_start sp') l (sp_end sp') = text_between docs f (sp_start sp) l (sp_end sp)"
    unfolding text_between_def by (intro arg_cong [of _ _ concat] map_cong) auto
  then show "files_text new sp' = files_text docs sp"
    using span_at_text(1) [OF place] span_at_text(1) [OF assms(4)] by simp
qed

lemma unedited_span_at:
  assumes "target < length docs" "rels docs ! target = rel" "span_at docs sp f l" "\<not> (f \<le> target \<and> target \<le> l)"
  shows "span_at (edited_docs docs target rel t) sp f l" "files_text (edited_docs docs target rel t) sp = files_text docs sp"
proof -
  note docs = edited_docs_facts [OF assms(1,2), where t = t]
  note sp = span_atD [OF assms(3)]
  have same: "edited_docs docs target rel t ! i = docs ! i" if "f \<le> i" "i \<le> l" for i
    using docs(4) [of i] that assms(4) sp(4) by auto
  show place: "span_at (edited_docs docs target rel t) sp f l"
    using assms(3) same [of f] same [of l] sp(3) by (simp add: span_at_def file_index_rels [OF docs(1)])
  have "text_between (edited_docs docs target rel t) f (sp_start sp) l (sp_end sp) = text_between docs f (sp_start sp) l (sp_end sp)"
    unfolding text_between_def using same by (intro arg_cong [of _ _ concat] map_cong) (auto simp: part_def)
  then show "files_text (edited_docs docs target rel t) sp = files_text docs sp"
    using span_at_text(1) [OF place] span_at_text(1) [OF assms(3)] by simp
qed

text \<open>What an edit makes of one range\<close>

lemma remap_edited_result:
  fixes new_text :: utext and starts :: "int list"
  assumes "distinct (rels docs)" "target < length docs" "rels docs ! target = rel" "span_at docs sp f l"
  defines "al \<equiv> align_texts (sd_text (docs ! target)) new_text" and "new \<equiv> edited_docs docs target rel new_text"
    and "shared \<equiv> bases docs ! l + sp_end sp \<in> set starts"
  obtains "remap_edited docs new starts al target (episode, sp) = Some (removed episode sp)"
  | sp' c where "remap_edited docs new starts al target (episode, sp) = Some (kept episode sp sp' c)"
      "narrowed new f (new_start al target f (sp_start sp)) l (new_end al target shared l (sp_end sp)) sp'"
      "\<not> c \<Longrightarrow> files_text new sp' = files_text docs sp"
proof -
  define sp1 where "sp1 = moved_span al target shared f l sp"
  have eq: "remap_edited docs new starts al target (episode, sp)
    = (if f \<le> target \<and> target \<le> l then finish new episode sp sp1 (edit_changed al docs target shared f l sp)
       else Some (kept episode sp sp False))"
    unfolding sp1_def shared_def by (rule remap_edited_eq [OF assms(4)])
  have ends: "sp_start sp1 = new_start al target f (sp_start sp)" "sp_end sp1 = new_end al target shared l (sp_end sp)"
    by (simp_all add: sp1_def moved_span_def)
  have rels: "rels new = rels docs" unfolding new_def by (rule edited_docs_facts(1) [OF assms(2,3)])
  then have dist: "distinct (rels new)" using assms(1) by simp
  show thesis
  proof (cases "f \<le> target \<and> target \<le> l")
    case False
    note same = unedited_span_at [OF assms(2,3,4) False, where t = new_text, folded new_def]
    have "f \<noteq> target" "l \<noteq> target" using False span_atD(3) [OF assms(4)] by auto
    then have "narrowed new f (new_start al target f (sp_start sp)) l (new_end al target shared l (sp_end sp)) sp"
      using span_at_narrowed [OF same(1)] by (simp add: new_start_def new_end_def)
    from that(2) [OF _ this] same(2) eq False show thesis by simp
  next
    case inside: True
    show thesis
    proof (cases "f = l \<longrightarrow> sp_start sp1 \<le> sp_end sp1")
      case True
      note keep = edit_span_at [OF assms(1-4), where shared = shared and new_text = new_text, folded al_def new_def, folded sp1_def, OF True]
      from dist keep(1) show thesis
      proof (rule finish_result [where episode = episode and own = sp and changed = "edit_changed al docs target shared f l sp"])
        assume "finish new episode sp sp1 (edit_changed al docs target shared f l sp) = Some (removed episode sp)"
        then show thesis using that(1) eq inside by simp
      next
        fix sp' assume fin: "finish new episode sp sp1 (edit_changed al docs target shared f l sp)
            = Some (kept episode sp sp' (edit_changed al docs target shared f l sp))"
          and nar: "narrowed new f (sp_start sp1) l (sp_end sp1) sp'"
        have "files_text new sp' = files_text docs sp" if "\<not> edit_changed al docs target shared f l sp"
          using keep(2) [OF that] narrowed_text [OF keep(1) nar] by simp
        then show thesis using that(2) fin eq inside nar ends by simp
      qed
    next
      case False
      have "file_index new (sp_source_file sp1) = Some f" "file_index new (sp_end_file sp1) = Some f"
        using span_atD(1,2) [OF assms(4)] False by (simp_all add: sp1_def moved_span_def file_index_rels [OF rels])
      from finish_reversed [OF dist this] False that(1) eq inside show thesis by simp
    qed
  qed
qed

section \<open>All ranges\<close>

definition ends_before :: "source_doc list \<Rightarrow> source_span \<Rightarrow> source_span \<Rightarrow> bool" where
  "ends_before docs a b = (case (file_index docs (sp_end_file a), file_index docs (sp_source_file b)) of
     (Some i, Some j) \<Rightarrow> i < j \<or> (i = j \<and> sp_end a \<le> sp_start b)
   | _ \<Rightarrow> False)"

text \<open>The next range begins where this one ends, in the same file\<close>

definition spans_meet :: "source_span \<Rightarrow> source_span \<Rightarrow> bool" where
  "spans_meet a b = (sp_end_file a = sp_source_file b \<and> sp_end a = sp_start b)"

lemma narrowed_before:
  assumes "narrowed docs fa sa la ea a" "narrowed docs fb sb lb eb b" "la < fb \<or> (la = fb \<and> ea \<le> sb)"
  shows "ends_before docs a b"
proof -
  obtain f l where A: "span_at docs a f l" "l \<le> la" "bases docs ! l + sp_end a = bases docs ! la + ea"
    using assms(1) by (auto simp: narrowed_def)
  obtain f' l' where B: "span_at docs b f' l'" "fb \<le> f'" "bases docs ! f' + sp_start b = bases docs ! fb + sb"
    using assms(2) by (auto simp: narrowed_def)
  show ?thesis
  proof (cases "l < f'")
    case False
    then have "l = f'" "la = fb" "l = la" "ea \<le> sb" using assms(3) A(2) B(2) by auto
    then show ?thesis using A B by (auto simp: ends_before_def span_at_def)
  qed (use A(1) B(1) in \<open>auto simp: ends_before_def span_at_def\<close>)
qed

lemma edit_starts:
  assumes "list_all (\<lambda>(e, sp). span_fits docs sp) spans"
  obtains starts where "try_map (\<lambda>(e, sp). global_start docs sp) spans = Some starts"
    "\<And>e sp. (e, sp) \<in> set spans \<Longrightarrow> global_start docs sp \<in> Some ` set starts"
proof -
  have "try_map (\<lambda>(e, sp). global_start docs sp) spans = Some (map (\<lambda>(e, sp). the (global_start docs sp)) spans)"
  proof (rule try_map_all)
    fix x assume "x \<in> set spans"
    then obtain f l where "span_at docs (snd x) f l" using assms by (auto simp: list_all_iff elim!: span_fitsE)
    from span_at_global(1) [OF this]
    show "(case x of (e, sp) \<Rightarrow> global_start docs sp) = Some (case x of (e, sp) \<Rightarrow> the (global_start docs sp))"
      by (cases x) simp
  qed
  moreover have "global_start docs sp \<in> Some ` set (map (\<lambda>(e, sp). the (global_start docs sp)) spans)"
    if x: "(e, sp) \<in> set spans" for e sp
  proof -
    obtain f l where "span_at docs sp f l" using x assms by (auto simp: list_all_iff elim!: span_fitsE)
    from span_at_global(1) [OF this] have "global_start docs sp = Some (the (global_start docs sp))" by simp
    then show ?thesis using x by (intro image_eqI [of _ _ "the (global_start docs sp)"]) force+
  qed
  ultimately show thesis by (rule that)
qed

text \<open>
  What an edit makes of the ranges, one by one, in terms of where their ends go.
\<close>

lemma remap_for_edit_each:
  fixes new_text :: utext
  assumes "distinct (rels docs)" "file_index docs rel = Some target" "list_all (\<lambda>(e, sp). span_fits docs sp) spans"
  defines "al \<equiv> align_texts (sd_text (docs ! target)) new_text" and "new \<equiv> edited_docs docs target rel new_text"
  obtains rs where "remap_for_edit docs spans rel new_text = Some rs" "map (\<lambda>r. (rr_episode r, rr_before r)) rs = spans"
    "\<And>r. r \<in> set rs \<Longrightarrow> span_fits docs (rr_before r)"
    "\<And>r. r \<in> set rs \<Longrightarrow> rr_after r = None \<Longrightarrow> rr_text_changed r"
    "\<And>r sp. r \<in> set rs \<Longrightarrow> rr_after r = Some sp \<Longrightarrow> \<not> rr_text_changed r \<Longrightarrow> files_text new sp = files_text docs (rr_before r)"
    "\<And>r sp f l. r \<in> set rs \<Longrightarrow> rr_after r = Some sp \<Longrightarrow> span_at docs (rr_before r) f l \<Longrightarrow>
      \<exists>shared. narrowed new f (new_start al target f (sp_start (rr_before r))) l (new_end al target shared l (sp_end (rr_before r))) sp
        \<and> ((\<exists>r' \<in> set rs. global_start docs (rr_before r') = global_end docs (rr_before r)) \<longrightarrow> shared)"
proof -
  note target = file_index_SomeD [OF assms(2)]
  have rel: "rels docs ! target = rel" using target by (simp add: rels_def)
  obtain starts where starts: "try_map (\<lambda>(e, sp). global_start docs sp) spans = Some starts"
    and mem: "\<And>e sp. (e, sp) \<in> set spans \<Longrightarrow> global_start docs sp \<in> Some ` set starts"
    using edit_starts [OF assms(3)] by blast
  define one where "one = remap_edited docs new starts al target"
  have run: "remap_for_edit docs spans rel new_text = try_map one spans"
    by (simp add: remap_for_edit_def assms(2) starts one_def al_def new_def)
  have each: "\<exists>r. one (e, sp) = Some r \<and> rr_episode r = e \<and> rr_before r = sp \<and> (rr_after r = None \<longrightarrow> rr_text_changed r)
      \<and> (\<forall>sp'. rr_after r = Some sp' \<longrightarrow> \<not> rr_text_changed r \<longrightarrow> files_text new sp' = files_text docs sp)
      \<and> (\<forall>sp'. rr_after r = Some sp' \<longrightarrow>
           narrowed new f (new_start al target f (sp_start sp)) l (new_end al target (bases docs ! l + sp_end sp \<in> set starts) l (sp_end sp)) sp')"
    if place: "span_at docs sp f l" for e sp f l
  proof (rule remap_edited_result [OF assms(1) target(1) rel place, where new_text = new_text and starts = starts and episode = e, folded al_def new_def, folded one_def])
    assume "one (e, sp) = Some (removed e sp)"
    then show ?thesis by simp
  next
    fix sp' c assume "one (e, sp) = Some (kept e sp sp' c)"
      "narrowed new f (new_start al target f (sp_start sp)) l (new_end al target (bases docs ! l + sp_end sp \<in> set starts) l (sp_end sp)) sp'"
      "\<not> c \<Longrightarrow> files_text new sp' = files_text docs sp"
    then show ?thesis by simp
  qed
  have fits: "\<exists>f l. span_at docs (snd x) f l" if "x \<in> set spans" for x
  proof -
    have "span_fits docs (snd x)" using assms(3) that by (auto simp: list_all_iff)
    then show ?thesis by (simp add: span_fits_iff)
  qed
  have some: "one x = Some (the (one x))" "(rr_episode (the (one x)), rr_before (the (one x))) = x" if x: "x \<in> set spans" for x
  proof -
    obtain f l where "span_at docs (snd x) f l" using fits [OF x] by blast
    from each [OF this, of "fst x"] show "one x = Some (the (one x))" "(rr_episode (the (one x)), rr_before (the (one x))) = x" by auto
  qed
  define rs where "rs = map (\<lambda>x. the (one x)) spans"
  have A: "remap_for_edit docs spans rel new_text = Some rs" unfolding run rs_def by (rule try_map_all) (rule some(1))
  have B: "map (\<lambda>r. (rr_episode r, rr_before r)) rs = spans" unfolding rs_def using some(2) by (simp add: map_idI)
  have who: "\<exists>e f l. one (e, rr_before r) = Some r \<and> (e, rr_before r) \<in> set spans \<and> span_at docs (rr_before r) f l"
    if r: "r \<in> set rs" for r
  proof -
    obtain x where x: "x \<in> set spans" "r = the (one x)" using r by (auto simp: rs_def)
    have "x = (rr_episode r, rr_before r)" using some(2) [OF x(1)] x(2) by simp
    then have "one (rr_episode r, rr_before r) = Some r" "(rr_episode r, rr_before r) \<in> set spans" "snd x = rr_before r"
      using some(1) [OF x(1)] x by (metis, metis, metis snd_conv)
    then show ?thesis using fits [OF x(1)] by metis
  qed
  have "span_fits docs (rr_before r)" if "r \<in> set rs" for r using who [OF that] by (auto intro: span_at_fits)
  moreover have "rr_text_changed r" if r: "r \<in> set rs" "rr_after r = None" for r
  proof -
    obtain e f l where "one (e, rr_before r) = Some r" "span_at docs (rr_before r) f l" using who [OF r(1)] by blast
    with each [OF this(2), of e] r(2) show ?thesis by simp
  qed
  moreover have "files_text new sp = files_text docs (rr_before r)" if r: "r \<in> set rs" "rr_after r = Some sp" "\<not> rr_text_changed r" for r sp
  proof -
    obtain e f l where "one (e, rr_before r) = Some r" "span_at docs (rr_before r) f l" using who [OF r(1)] by blast
    with each [OF this(2), of e] r(2,3) show ?thesis by simp
  qed
  moreover have "\<exists>shared. narrowed new f (new_start al target f (sp_start (rr_before r))) l (new_end al target shared l (sp_end (rr_before r))) sp
        \<and> ((\<exists>r' \<in> set rs. global_start docs (rr_before r') = global_end docs (rr_before r)) \<longrightarrow> shared)"
    if r: "r \<in> set rs" "rr_after r = Some sp" "span_at docs (rr_before r) f l" for r sp f l
  proof -
    obtain e where e: "one (e, rr_before r) = Some r" using who [OF r(1)] by blast
    have "narrowed new f (new_start al target f (sp_start (rr_before r))) l
        (new_end al target (bases docs ! l + sp_end (rr_before r) \<in> set starts) l (sp_end (rr_before r))) sp"
      using each [OF r(3), of e] e r(2) by simp
    moreover have "bases docs ! l + sp_end (rr_before r) \<in> set starts"
      if r': "r' \<in> set rs" "global_start docs (rr_before r') = global_end docs (rr_before r)" for r'
    proof -
      obtain e' where "(e', rr_before r') \<in> set spans" using who [OF r'(1)] by blast
      from mem [OF this] show ?thesis using r'(2) span_at_global(2) [OF r(3)] by auto
    qed
    ultimately show ?thesis by blast
  qed
  ultimately show thesis using that [OF A B] by blast
qed

text \<open>
  Property C21: editing a file never raises and accounts for every range in its order.  A range that is
  reported unchanged has, at its new place in the edited files, exactly the text it had before; every
  new range lies inside the edited files, and a range disappears only as a changed one.
\<close>

theorem edit_keeps_text:
  assumes "distinct (rels docs)" "file_index docs rel = Some target" "list_all (\<lambda>(e, sp). span_fits docs sp) spans"
  shows "\<exists>rs. remap_for_edit docs spans rel new_text = Some rs \<and> map (\<lambda>r. (rr_episode r, rr_before r)) rs = spans
    \<and> (\<forall>r \<in> set rs. case rr_after r of
          None \<Rightarrow> rr_text_changed r
        | Some sp \<Rightarrow> span_fits (edited_docs docs target rel new_text) sp
            \<and> (rr_text_changed r \<or> files_text (edited_docs docs target rel new_text) sp = files_text docs (rr_before r)))"
proof (rule remap_for_edit_each [OF assms, of new_text])
  fix rs
  assume rs: "remap_for_edit docs spans rel new_text = Some rs" "map (\<lambda>r. (rr_episode r, rr_before r)) rs = spans"
    and old: "\<And>r. r \<in> set rs \<Longrightarrow> span_fits docs (rr_before r)"
    and gone: "\<And>r. r \<in> set rs \<Longrightarrow> rr_after r = None \<Longrightarrow> rr_text_changed r"
    and same: "\<And>r sp. r \<in> set rs \<Longrightarrow> rr_after r = Some sp \<Longrightarrow> \<not> rr_text_changed r \<Longrightarrow>
      files_text (edited_docs docs target rel new_text) sp = files_text docs (rr_before r)"
    and place: "\<And>r sp f l. r \<in> set rs \<Longrightarrow> rr_after r = Some sp \<Longrightarrow> span_at docs (rr_before r) f l \<Longrightarrow>
      \<exists>shared. narrowed (edited_docs docs target rel new_text) f (new_start (align_texts (sd_text (docs ! target)) new_text) target f (sp_start (rr_before r))) l
        (new_end (align_texts (sd_text (docs ! target)) new_text) target shared l (sp_end (rr_before r))) sp
      \<and> ((\<exists>r' \<in> set rs. global_start docs (rr_before r') = global_end docs (rr_before r)) \<longrightarrow> shared)"
  have "span_fits (edited_docs docs target rel new_text) sp" if "r \<in> set rs" "rr_after r = Some sp" for r sp
    using old [OF that(1)] place [OF that] by (meson narrowed_fits span_fitsE)
  then have "case rr_after r of None \<Rightarrow> rr_text_changed r
      | Some sp \<Rightarrow> span_fits (edited_docs docs target rel new_text) sp
          \<and> (rr_text_changed r \<or> files_text (edited_docs docs target rel new_text) sp = files_text docs (rr_before r))"
    if "r \<in> set rs" for r
    using gone [OF that] same [OF that] that by (cases "rr_after r") auto
  then show ?thesis using rs by blast
qed

text \<open>
  An edit keeps the order of the ranges: if one ended before the other began, what is left
  of them still does, so ranges never come to overlap.  Where the second began exactly where the first
  ended, in one file, they still meet: text inserted on the border of two episodes belongs to the first
  and nothing falls between them.
\<close>

theorem edit_keeps_order:
  assumes "distinct (rels docs)" "file_index docs rel = Some target" "list_all (\<lambda>(e, sp). span_fits docs sp) spans"
    and "remap_for_edit docs spans rel new_text = Some rs" "r \<in> set rs" "r' \<in> set rs"
    and "rr_after r = Some a" "rr_after r' = Some b" "ends_before docs (rr_before r) (rr_before r')"
  shows "ends_before (edited_docs docs target rel new_text) a b
    \<and> (spans_meet (rr_before r) (rr_before r') \<longrightarrow>
        global_end (edited_docs docs target rel new_text) a = global_start (edited_docs docs target rel new_text) b)"
proof (rule remap_for_edit_each [OF assms(1-3), of new_text])
  define al where "al = align_texts (sd_text (docs ! target)) new_text"
  define new where "new = edited_docs docs target rel new_text"
  fix rs'
  assume rs': "remap_for_edit docs spans rel new_text = Some rs'" and old: "\<And>r. r \<in> set rs' \<Longrightarrow> span_fits docs (rr_before r)"
    and place: "\<And>r sp f l. r \<in> set rs' \<Longrightarrow> rr_after r = Some sp \<Longrightarrow> span_at docs (rr_before r) f l \<Longrightarrow>
      \<exists>shared. narrowed (edited_docs docs target rel new_text) f (new_start (align_texts (sd_text (docs ! target)) new_text) target f (sp_start (rr_before r))) l
        (new_end (align_texts (sd_text (docs ! target)) new_text) target shared l (sp_end (rr_before r))) sp
      \<and> ((\<exists>r' \<in> set rs'. global_start docs (rr_before r') = global_end docs (rr_before r)) \<longrightarrow> shared)"
  have [simp]: "rs' = rs" using rs' assms(4) by simp
  obtain fa la where A: "span_at docs (rr_before r) fa la" using old [of r] assms(5) by (auto simp: span_fits_iff)
  obtain fb lb where B: "span_at docs (rr_before r') fb lb" using old [of r'] assms(6) by (auto simp: span_fits_iff)
  obtain sa where nA: "narrowed new fa (new_start al target fa (sp_start (rr_before r))) la (new_end al target sa la (sp_end (rr_before r))) a"
    and sa: "(\<exists>r' \<in> set rs. global_start docs (rr_before r') = global_end docs (rr_before r)) \<longrightarrow> sa"
    using place [OF _ assms(7) A] assms(5) by (auto simp: al_def new_def)
  obtain sb where nB: "narrowed new fb (new_start al target fb (sp_start (rr_before r'))) lb (new_end al target sb lb (sp_end (rr_before r'))) b"
    using place [OF _ assms(8) B] assms(6) by (auto simp: al_def new_def)
  note a = span_atD [OF A] and b = span_atD [OF B]
  let ?x = "new_end al target sa la (sp_end (rr_before r))" and ?y = "new_start al target fb (sp_start (rr_before r'))"
  have order: "la < fb \<or> (la = fb \<and> sp_end (rr_before r) \<le> sp_start (rr_before r'))"
    using assms(9) a(2) b(1) by (simp add: ends_before_def)
  have "?x \<le> ?y" if "la = fb"
  proof (cases "la = target")
    case True
    then show ?thesis using order that a(7) b(6)
      texts.pos_mono [of "sp_end (rr_before r)" "sp_start (rr_before r')" "sd_text (docs ! target)" sa True new_text]
      by (simp add: new_end_def new_start_def al_def text_length_def)
  qed (use order that in \<open>simp add: new_end_def new_start_def\<close>)
  then have "la < fb \<or> (la = fb \<and> ?x \<le> ?y)" using order by blast
  from narrowed_before [OF nA nB this] have first: "ends_before new a b" .
  have "global_end new a = global_start new b" if m: "spans_meet (rr_before r) (rr_before r')"
  proof -
    have eq: "la = fb" "sp_end (rr_before r) = sp_start (rr_before r')" using m a(2) b(1) by (auto simp: spans_meet_def)
    then have sa using sa assms(6) span_at_global(2) [OF A] span_at_global(1) [OF B] by force
    then have "?x = ?y" using eq by (simp add: new_end_def new_start_def)
    moreover obtain f l where "span_at new a f l" "bases new ! l + sp_end a = bases new ! la + ?x" using nA by (auto simp: narrowed_def)
    moreover obtain f' l' where "span_at new b f' l'" "bases new ! f' + sp_start b = bases new ! fb + ?y" using nB by (auto simp: narrowed_def)
    ultimately show ?thesis using eq(1) span_at_global(1,2) by simp
  qed
  then show ?thesis using first by (simp add: new_def)
qed

end
