(* ===== verification/RangeMoves.thy ===== *)
theory RangeMoves
  imports RangeEdits "HOL-Library.Sublist"
begin

text \<open>Deleting, inserting and moving a file: what is left of the text of each range.\<close>

lemma upt_split: "a \<le> b \<Longrightarrow> b \<le> c \<Longrightarrow> [a..<c] = [a..<b] @ [b..<c]"
  by (metis le_add_diff_inverse upt_add_eq_append)

text \<open>Results one by one\<close>

lemma try_map_results:
  assumes "\<And>e sp. (e, sp) \<in> set spans \<Longrightarrow> \<exists>r. f (e, sp) = Some r \<and> rr_episode r = e \<and> rr_before r = sp \<and> Q r"
  shows "\<exists>rs. try_map f spans = Some rs \<and> map (\<lambda>r. (rr_episode r, rr_before r)) rs = spans \<and> (\<forall>r \<in> set rs. Q r)"
  using assms
proof (induction spans)
  case (Cons x spans)
  obtain e sp where x: "x = (e, sp)" by (cases x)
  obtain r where r: "f (e, sp) = Some r" "rr_episode r = e" "rr_before r = sp" "Q r" using Cons.prems x by auto
  obtain rs where "try_map f spans = Some rs" "map (\<lambda>r. (rr_episode r, rr_before r)) rs = spans" "\<forall>r \<in> set rs. Q r"
    using Cons.IH Cons.prems by auto
  then show ?case using r by (intro exI [of _ "r # rs"]) (simp add: x)
qed simp

section \<open>Deleting\<close>

text \<open>The text of a range without what one file holds of it\<close>

definition text_without :: "source_doc list \<Rightarrow> nat \<Rightarrow> source_span \<Rightarrow> utext" where
  "text_without docs target sp =
     (case (file_index docs (sp_source_file sp), file_index docs (sp_end_file sp)) of
        (Some first, Some final) \<Rightarrow>
          concat (map (part docs first (sp_start sp) final (sp_end sp)) (filter (\<lambda>i. i \<noteq> target) [first..<Suc final]))
      | _ \<Rightarrow> [])"

definition skip :: "nat \<Rightarrow> nat \<Rightarrow> nat" where
  "skip target i = (if i < target then i else Suc i)"

lemma other_docs_eq:
  assumes "distinct (rels docs)" "target < length docs" "rels docs ! target = rel"
  shows "other_docs docs rel = remove_at target docs"
proof -
  have split: "docs = take target docs @ docs ! target # drop (Suc target) docs" by (rule id_take_nth_drop [OF assms(2)])
  have rel: "sd_rel_path (docs ! target) = rel" using assms(2,3) by (simp add: rels_def)
  have "distinct (rels (take target docs @ docs ! target # drop (Suc target) docs))" using assms(1) split by simp
  then have "rel \<notin> sd_rel_path ` set (take target docs)" "rel \<notin> sd_rel_path ` set (drop (Suc target) docs)"
    by (auto simp: rels_def rel)
  then have "filter (\<lambda>d. sd_rel_path d \<noteq> rel) (take target docs) = take target docs"
    "filter (\<lambda>d. sd_rel_path d \<noteq> rel) (drop (Suc target) docs) = drop (Suc target) docs"
    by (intro filter_True, force)+
  then have "filter (\<lambda>d. sd_rel_path d \<noteq> rel) (take target docs @ docs ! target # drop (Suc target) docs)
      = take target docs @ drop (Suc target) docs"
    using rel by simp
  then show ?thesis by (simp add: other_docs_def remove_at_def split [symmetric])
qed

lemma nth_remove_at: "i < length xs - 1 \<Longrightarrow> n < length xs \<Longrightarrow> remove_at n xs ! i = xs ! skip n i"
  by (auto simp: remove_at_def skip_def nth_append min_def)

lemma other_docs_facts:
  assumes "distinct (rels docs)" "target < length docs" "rels docs ! target = rel"
  shows "distinct (rels (other_docs docs rel))" "length (other_docs docs rel) = length docs - 1"
    "i < length docs - 1 \<Longrightarrow> other_docs docs rel ! i = docs ! skip target i"
    "i < length docs \<Longrightarrow> i \<noteq> target \<Longrightarrow> file_index (other_docs docs rel) (rels docs ! i) = Some (if i < target then i else i - 1)"
proof -
  note eq = other_docs_eq [OF assms]
  show dist: "distinct (rels (other_docs docs rel))"
    using assms(1) by (simp add: eq rels_def map_remove_at distinct_remove_at)
  show len: "length (other_docs docs rel) = length docs - 1" using assms(2) by (simp add: eq)
  show nth: "other_docs docs rel ! i = docs ! skip target i" if "i < length docs - 1" for i
    using nth_remove_at [OF that assms(2)] by (simp add: eq)
  show "file_index (other_docs docs rel) (rels docs ! i) = Some (if i < target then i else i - 1)"
    if i: "i < length docs" "i \<noteq> target"
  proof -
    define k where "k = (if i < target then i else i - 1)"
    have k: "k < length docs - 1" "skip target k = i" using i assms(2) by (auto simp: k_def skip_def)
    then have "rels (other_docs docs rel) ! k = rels docs ! i" using nth [OF k(1)] i(1) len by (simp add: rels_def)
    then show ?thesis using file_index_nth [OF dist, of k] k(1) len by (simp add: k_def)
  qed
qed

text \<open>Parts of corresponding files are the same\<close>

lemma text_between_skip:
  assumes "f \<le> target" "target \<le> l" "f < l"
    and same: "\<And>i. f \<le> i \<Longrightarrow> i < l \<Longrightarrow> new ! i = docs ! skip target i"
    and ends: "f = target \<longrightarrow> a' = 0" "f \<noteq> target \<longrightarrow> a' = a" "l = target \<longrightarrow> b' = text_length (docs ! (l - 1))" "l \<noteq> target \<longrightarrow> b' = b"
  shows "text_between new f a' (l - 1) b' = concat (map (part docs f a l b) (filter (\<lambda>i. i \<noteq> target) [f..<Suc l]))"
proof -
  have idx: "filter (\<lambda>i. i \<noteq> target) [f..<Suc l] = map (skip target) [f..<l]"
  proof -
    have "[f..<Suc l] = [f..<target] @ [target] @ [Suc target..<Suc l]"
      using assms(1,2) upt_split [of f target "Suc l"] upt_split [of target "Suc target" "Suc l"] by simp
    moreover have "[f..<l] = [f..<target] @ [target..<l]" using assms(1,2) by (rule upt_split)
    moreover have "map (skip target) [f..<target] = [f..<target]" by (intro map_idI) (simp add: skip_def)
    moreover have "map (skip target) [target..<l] = [Suc target..<Suc l]"
      by (simp add: skip_def map_Suc_upt [symmetric] del: upt_Suc)
    moreover have "filter (\<lambda>i. i \<noteq> target) [f..<target] = [f..<target]" "filter (\<lambda>i. i \<noteq> target) [Suc target..<Suc l] = [Suc target..<Suc l]"
      by (auto simp: filter_id_conv simp del: upt_Suc)
    ultimately show ?thesis by simp
  qed
  have "part new f a' (l - 1) b' i = part docs f a l b (skip target i)" if "f \<le> i" "i < l" for i
  proof -
    have "(if i = f then a' else 0) = (if skip target i = f then a else 0)"
      using that ends(1,2) assms(1,2) by (auto simp: skip_def)
    moreover have "(if i = l - 1 then b' else int (length (sd_text (docs ! skip target i))))
        = (if skip target i = l then b else int (length (sd_text (docs ! skip target i))))"
    proof (cases "l = target")
      case True
      then show ?thesis using that ends(3) by (auto simp: skip_def text_length_def)
    next
      case False
      then have "i = l - 1 \<longleftrightarrow> skip target i = l" using that assms(2,3) by (auto simp: skip_def)
      then show ?thesis using False ends(4) by simp
    qed
    ultimately show ?thesis by (simp add: part_def same [OF that] Let_def)
  qed
  then have "map (part new f a' (l - 1) b') [f..<l] = map (part docs f a l b \<circ> skip target) [f..<l]" by simp
  moreover have "Suc (l - 1) = l" using assms(3) by simp
  ultimately show ?thesis by (simp only: text_between_def idx map_map)
qed

lemma remap_deleted_result:
  assumes "distinct (rels docs)" "target < length docs" "rels docs ! target = rel" "span_at docs sp f l"
  defines "new \<equiv> other_docs docs rel"
  obtains "remap_deleted docs new target (episode, sp) = Some (removed episode sp)" "strip (text_without docs target sp) = []"
  | sp' c where "remap_deleted docs new target (episode, sp) = Some (kept episode sp sp' c)" "span_fits new sp'"
      "files_text new sp' = Some (text_without docs target sp)" "c \<longleftrightarrow> f \<le> target \<and> target \<le> l"
proof -
  note facts = other_docs_facts [OF assms(1-3), folded new_def]
  note sp = span_atD [OF assms(4)]
  have rels: "sp_source_file sp = rels docs ! f" "sp_end_file sp = rels docs ! l"
    using file_index_SomeD [OF sp(1)] file_index_SomeD [OF sp(2)] by (simp_all add: rels_def)
  have without: "text_without docs target sp
      = concat (map (part docs f (sp_start sp) l (sp_end sp)) (filter (\<lambda>i. i \<noteq> target) [f..<Suc l]))"
    by (simp add: text_without_def sp(1,2))
  show thesis
  proof (cases "f \<le> target \<and> target \<le> l")
    case False
    define f' l' where "f' = (if f < target then f else f - 1)" and "l' = (if l < target then l else l - 1)"
    have idx: "file_index new (sp_source_file sp) = Some f'" "file_index new (sp_end_file sp) = Some l'"
      using facts(4) [of f] facts(4) [of l] sp(3,4) False by (auto simp: rels f'_def l'_def)
    have le: "f' \<le> l'" "l' < length docs - 1" using sp(3,4) False assms(2) by (auto simp: f'_def l'_def)
    have skips: "skip target i = (if f < target then i else Suc i)" if "f' \<le> i" "i \<le> l'" for i
      using that False sp(3) by (auto simp: skip_def f'_def l'_def)
    have docs': "new ! i = docs ! (if f < target then i else Suc i)" if "f' \<le> i" "i \<le> l'" for i
      using facts(3) [of i] skips [OF that] that le by simp
    have "new ! f' = docs ! f" "new ! l' = docs ! l"
      using docs' [of f'] docs' [of l'] le(1) sp(3) False by (auto simp: f'_def l'_def)
    moreover have "f = l" if "f' = l'" using that False sp(3) by (auto simp: f'_def l'_def split: if_splits)
    ultimately have place: "span_at new sp f' l'" using sp idx le by (simp add: span_at_def)
    have "[f..<Suc l] = map (\<lambda>i. if f < target then i else Suc i) [f'..<Suc l']"
      using False sp(3) by (auto simp: f'_def l'_def map_idI map_Suc_upt simp del: upt_Suc)
    moreover have "part new f' (sp_start sp) l' (sp_end sp) i = part docs f (sp_start sp) l (sp_end sp) (if f < target then i else Suc i)"
      if "f' \<le> i" "i \<le> l'" for i
    proof -
      have "i = f' \<longleftrightarrow> (if f < target then i else Suc i) = f" "i = l' \<longleftrightarrow> (if f < target then i else Suc i) = l"
        using that False sp(3) by (auto simp: f'_def l'_def)
      then show ?thesis by (simp add: part_def docs' [OF that] Let_def)
    qed
    ultimately have "text_between new f' (sp_start sp) l' (sp_end sp) = text_between docs f (sp_start sp) l (sp_end sp)"
      unfolding text_between_def by (simp del: upt_Suc) (intro arg_cong [of _ _ concat] map_cong, auto)
    moreover have "text_without docs target sp = text_between docs f (sp_start sp) l (sp_end sp)"
      unfolding without text_between_def using False by (subst filter_True) auto
    ultimately have "files_text new sp = Some (text_without docs target sp)" using span_at_text(1) [OF place] by simp
    moreover have "remap_deleted docs new target (episode, sp) = Some (kept episode sp sp False)"
      using False by (auto simp: remap_deleted_def sp(1,2) unchanged_def kept_def)
    ultimately show thesis using that(2) span_at_fits [OF place] False by blast
  next
    case inside: True
    show thesis
    proof (cases "f = l")
      case True
      then have "target = l" using inside by simp
      then have "remap_deleted docs new target (episode, sp) = Some (removed episode sp)" "text_without docs target sp = []"
        unfolding without using True by (simp_all add: remap_deleted_def sp(1,2) removed_def)
      then show thesis using that(1) by (simp add: strip_def lstrip_def rstrip_def)
    next
      case False
      then have fl: "f < l" using sp(3) by simp
      define a' b' where "a' = (if f = target then 0 else sp_start sp)"
        and "b' = (if l = target then text_length (docs ! (l - 1)) else sp_end sp)"
      define sp1 where "sp1 = \<lparr>sp_source_file = (if f = target then rels docs ! Suc target else sp_source_file sp), sp_start = a',
        sp_end_file = (if l = target then rels docs ! (target - 1) else sp_end_file sp), sp_end = b'\<rparr>"
      have run: "remap_deleted docs new target (episode, sp) = finish new episode sp sp1 True"
        using inside False fl by (auto simp: remap_deleted_def sp(1,2) Let_def sp1_def a'_def b'_def)
      have idx: "file_index new (sp_source_file sp1) = Some f" "file_index new (sp_end_file sp1) = Some (l - 1)"
        using facts(4) [of f] facts(4) [of l] facts(4) [of "Suc target"] facts(4) [of "target - 1"] sp(4) inside fl
        by (auto simp: sp1_def rels)
      have new: "new ! i = docs ! skip target i" if "f \<le> i" "i < l" for i using facts(3) [of i] that sp(4) by simp
      have "text_length (new ! f) = text_length (docs ! (if f = target then Suc f else f))"
        "text_length (new ! (l - 1)) = text_length (docs ! (if l = target then l - 1 else l))"
        using new [of f] new [of "l - 1"] fl inside by (auto simp: skip_def)
      moreover have "a' \<le> b'" if "f = l - 1"
      proof (cases "f = target")
        case True
        then show ?thesis using sp(7) fl by (auto simp: a'_def b'_def)
      next
        case False
        moreover have "l = Suc f" using that fl by simp
        ultimately have "l = target" using inside by simp
        then show ?thesis using False that sp(6) by (simp add: a'_def b'_def)
      qed
      ultimately have place: "span_at new sp1 f (l - 1)"
        using sp idx fl by (auto simp: span_at_def sp1_def a'_def b'_def)
      have "text_between new f a' (l - 1) b' = text_without docs target sp"
        unfolding without by (rule text_between_skip) (use inside fl new in \<open>auto simp: a'_def b'_def\<close>)
      then have content: "files_text new sp1 = Some (text_without docs target sp)"
        using span_at_text(1) [OF place] by (simp add: sp1_def)
      from facts(1) place show thesis
      proof (rule finish_result [where episode = episode and own = sp and changed = True])
        assume "finish new episode sp sp1 True = Some (removed episode sp)" "strip (the (files_text new sp1)) = []"
        then show thesis using that(1) run content by simp
      next
        fix sp' assume "finish new episode sp sp1 True = Some (kept episode sp sp' True)" "narrowed new f (sp_start sp1) (l - 1) (sp_end sp1) sp'"
        then show thesis using that(2) run content narrowed_text [OF place] narrowed_fits inside by simp
      qed
    qed
  qed
qed

text \<open>
  Deleting a file takes exactly the text of that file out of every range.  A range that
  only touched other files is reported unchanged; a range is removed only when nothing but white space
  is left of it.
\<close>

theorem delete_keeps_rest:
  assumes "distinct (rels docs)" "file_index docs rel = Some target" "list_all (\<lambda>(e, sp). span_fits docs sp) spans"
  shows "\<exists>rs. remap_for_delete docs spans rel = Some rs \<and> map (\<lambda>r. (rr_episode r, rr_before r)) rs = spans
    \<and> (\<forall>r \<in> set rs. case rr_after r of
          None \<Rightarrow> strip (text_without docs target (rr_before r)) = []
        | Some sp \<Rightarrow> span_fits (other_docs docs rel) sp
            \<and> files_text (other_docs docs rel) sp = Some (text_without docs target (rr_before r))
            \<and> (rr_text_changed r \<or> files_text (other_docs docs rel) sp = files_text docs (rr_before r)))"
proof -
  note target = file_index_SomeD [OF assms(2)]
  have rel: "rels docs ! target = rel" using target by (simp add: rels_def)
  show ?thesis
    unfolding remap_for_delete_def assms(2) option.case
  proof (rule try_map_results)
    fix e sp assume "(e, sp) \<in> set spans"
    then obtain f l where place: "span_at docs sp f l" using assms(3) by (auto simp: list_all_iff span_fits_iff)
    have untouched: "Some (text_without docs target sp) = files_text docs sp" if "\<not> (f \<le> target \<and> target \<le> l)"
    proof -
      have "filter (\<lambda>i. i \<noteq> target) [f..<Suc l] = [f..<Suc l]" using that by (intro filter_True) auto
      then show ?thesis using span_atD(1,2) [OF place] by (simp add: text_without_def files_text_def text_between_def del: upt_Suc)
    qed
    show "\<exists>r. remap_deleted docs (other_docs docs rel) target (e, sp) = Some r \<and> rr_episode r = e \<and> rr_before r = sp
      \<and> (case rr_after r of
          None \<Rightarrow> strip (text_without docs target (rr_before r)) = []
        | Some sp \<Rightarrow> span_fits (other_docs docs rel) sp
            \<and> files_text (other_docs docs rel) sp = Some (text_without docs target (rr_before r))
            \<and> (rr_text_changed r \<or> files_text (other_docs docs rel) sp = files_text docs (rr_before r)))"
      using untouched by (rule_tac remap_deleted_result [OF assms(1) target(1) rel place, of e]) auto
  qed
qed

section \<open>Inserting\<close>

text \<open>A range that starts inside its first file and ends inside its last\<close>

definition span_inside :: "source_doc list \<Rightarrow> source_span \<Rightarrow> bool" where
  "span_inside docs sp = (span_fits docs sp \<and> 0 < sp_end sp
     \<and> (case file_index docs (sp_source_file sp) of Some f \<Rightarrow> sp_start sp < text_length (docs ! f) | None \<Rightarrow> False))"

lemma insert_at_facts:
  assumes "n \<le> length docs" "distinct (rels (insert_at n d docs))" "i < length docs"
  shows "insert_at n d docs ! (if i < n then i else Suc i) = docs ! i" "insert_at n d docs ! n = d"
    "file_index (insert_at n d docs) (rels docs ! i) = Some (if i < n then i else Suc i)"
proof -
  show nth: "insert_at n d docs ! (if i < n then i else Suc i) = docs ! i" "insert_at n d docs ! n = d"
    using assms(1,3) by (auto simp: insert_at_def nth_append min_def Suc_diff_le)
  have "rels (insert_at n d docs) ! (if i < n then i else Suc i) = rels docs ! i"
    using nth(1) assms(1,3) by (simp add: rels_def)
  then show "file_index (insert_at n d docs) (rels docs ! i) = Some (if i < n then i else Suc i)"
    using file_index_nth [OF assms(2), of "if i < n then i else Suc i"] assms(1,3) by simp
qed

lemma inserted_inside:
  assumes "span_at docs sp f l" "sp_start sp < text_length (docs ! f)" "0 < sp_end sp" "n \<le> length docs"
  shows "bases docs ! f + sp_start sp < bases docs ! n \<and> bases docs ! n < bases docs ! l + sp_end sp \<longleftrightarrow> f < n \<and> n \<le> l"
proof -
  note sp = span_atD [OF assms(1)]
  have "bases docs ! f + sp_start sp < bases docs ! n \<longleftrightarrow> f < n"
  proof
    assume less: "bases docs ! f + sp_start sp < bases docs ! n"
    show "f < n"
    proof (rule ccontr)
      assume "\<not> f < n"
      then have "bases docs ! n \<le> bases docs ! f" using sp(3,4) by (intro bases_mono) auto
      then show False using less sp(5) by simp
    qed
  next
    assume "f < n"
    then have "bases docs ! Suc f \<le> bases docs ! n" using assms(4) by (intro bases_mono) auto
    then show "bases docs ! f + sp_start sp < bases docs ! n" using bases_Suc [of f docs] sp(3,4) assms(2) by simp
  qed
  moreover have "bases docs ! n < bases docs ! l + sp_end sp \<longleftrightarrow> n \<le> l"
  proof
    assume less: "bases docs ! n < bases docs ! l + sp_end sp"
    show "n \<le> l"
    proof (rule ccontr)
      assume "\<not> n \<le> l"
      then have "bases docs ! Suc l \<le> bases docs ! n" using assms(4) by (intro bases_mono) auto
      then show False using less sp(8) bases_Suc [OF sp(4)] by simp
    qed
  next
    assume "n \<le> l"
    then have "bases docs ! n \<le> bases docs ! l" using sp(4) by (intro bases_mono) auto
    then show "bases docs ! n < bases docs ! l + sp_end sp" using assms(3) by simp
  qed
  ultimately show ?thesis by blast
qed

lemma map_parts:
  assumes "\<And>i. a \<le> i \<Longrightarrow> i < b \<Longrightarrow> g (k + i) = h i"
  shows "map g [k + a..<k + b] = map h [a..<b]"
  using assms by (intro nth_equalityI) (auto simp: add.assoc)

text \<open>
  Inserting a file changes no range.  The new file becomes part of exactly those episodes
  that are reported changed: their text is the old text with the whole new file in it, at one place, and
  the text of every other range is the same as before.
\<close>

theorem insert_joins_text:
  assumes "distinct (rels (insert_at n d docs))" "n \<le> length docs" "list_all (\<lambda>(e, sp). span_inside docs sp) spans"
  shows "\<exists>rs. remap_for_insert docs spans n = Some rs \<and> map (\<lambda>r. (rr_episode r, rr_before r)) rs = spans
    \<and> (\<forall>r \<in> set rs. rr_after r = Some (rr_before r) \<and>
          (\<exists>u v. files_text docs (rr_before r) = Some (u @ v)
            \<and> files_text (insert_at n d docs) (rr_before r) = Some (u @ (if rr_text_changed r then sd_text d else []) @ v)))"
  unfolding remap_for_insert_def
proof (rule try_map_results)
  fix e sp assume "(e, sp) \<in> set spans"
  then have "span_inside docs sp" using assms(3) by (auto simp: list_all_iff)
  then obtain f l where place: "span_at docs sp f l" and ends: "sp_start sp < text_length (docs ! f)" "0 < sp_end sp"
    by (auto simp: span_inside_def span_fits_iff span_at_def)
  note sp = span_atD [OF place]
  define new where "new = insert_at n d docs"
  define up where "up = (\<lambda>i :: nat. if i < n then i else Suc i)"
  have nth: "new ! up i = docs ! i" "new ! n = d" if "i < length docs" for i
    using insert_at_facts(1,2) [OF assms(2,1) that] by (simp_all add: new_def up_def)
  have "sp_source_file sp = rels docs ! f" "sp_end_file sp = rels docs ! l"
    using file_index_SomeD [OF sp(1)] file_index_SomeD [OF sp(2)] by (simp_all add: rels_def)
  then have idx: "file_index new (sp_source_file sp) = Some (up f)" "file_index new (sp_end_file sp) = Some (up l)"
    using insert_at_facts(3) [OF assms(2,1)] sp(3,4) by (simp_all add: new_def up_def)
  have content: "files_text new sp = Some (text_between new (up f) (sp_start sp) (up l) (sp_end sp))"
    by (simp add: files_text_def idx)
  let ?P = "part docs f (sp_start sp) l (sp_end sp)" and ?N = "part new (up f) (sp_start sp) (up l) (sp_end sp)"
  have same: "?N (up i) = ?P i" if "i \<le> l" for i
  proof -
    have "up i = up j \<longleftrightarrow> i = j" for j by (auto simp: up_def)
    then show ?thesis using nth(1) [of i] that sp(4) by (simp add: part_def)
  qed
  have whole: "?N n = sd_text d"
  proof -
    have "up i \<noteq> n" for i by (simp add: up_def)
    then show ?thesis using nth(2) sp(4) by (auto simp: part_def Let_def py_slice_all)
  qed
  have shifted: "map ?N [Suc a..<Suc b] = map ?P [a..<b]" if "n \<le> a" "b \<le> Suc l" for a b
  proof -
    have "?N (1 + i) = ?P i" if "a \<le> i" "i < b" for i
    proof -
      have "up i = 1 + i" "i \<le> l" using that \<open>n \<le> a\<close> \<open>b \<le> Suc l\<close> by (simp_all add: up_def)
      then show ?thesis using same [of i] by simp
    qed
    then have "map ?N [1 + a..<1 + b] = map ?P [a..<b]" by (rule map_parts)
    then show ?thesis by (simp only: plus_1_eq_Suc)
  qed
  have before: "map ?N [a..<b] = map ?P [a..<b]" if "b \<le> n" "b \<le> Suc l" for a b
  proof (rule map_cong [OF refl])
    fix i assume "i \<in> set [a..<b]"
    then have "up i = i" "i \<le> l" using that by (simp_all add: up_def)
    then show "?N i = ?P i" using same [of i] by simp
  qed
  have "\<exists>u v. files_text docs sp = Some (u @ v)
      \<and> files_text new sp = Some (u @ (if f < n \<and> n \<le> l then sd_text d else []) @ v)"
  proof (cases "f < n \<and> n \<le> l")
    case True
    have "[f..<Suc l] = [f..<n] @ [n..<Suc l]" "[f..<Suc (Suc l)] = [f..<n] @ [n] @ [Suc n..<Suc (Suc l)]"
      using True upt_split [of f n "Suc l"] upt_split [of f n "Suc (Suc l)"] upt_conv_Cons [of n "Suc (Suc l)"] by simp_all
    then have "text_between docs f (sp_start sp) l (sp_end sp) = concat (map ?P [f..<n]) @ concat (map ?P [n..<Suc l])"
      "text_between new (up f) (sp_start sp) (up l) (sp_end sp) = concat (map ?P [f..<n]) @ sd_text d @ concat (map ?P [n..<Suc l])"
      using True before [of n f] shifted [of n "Suc l"] whole by (simp_all add: text_between_def up_def del: upt_Suc map_eq_conv)
    then show ?thesis using True content span_at_text(1) [OF place] by auto
  next
    case False
    have "text_between new (up f) (sp_start sp) (up l) (sp_end sp) = text_between docs f (sp_start sp) l (sp_end sp)"
      using False sp(3) before [of "Suc l" f] shifted [of f "Suc l"] by (auto simp: text_between_def up_def simp del: upt_Suc map_eq_conv)
    then show ?thesis using False content span_at_text(1) [OF place] by auto
  qed
  moreover have "remap_inserted docs (bases docs ! min n (length docs)) (e, sp)
      = Some \<lparr>rr_episode = e, rr_before = sp, rr_after = Some sp, rr_text_changed = (f < n \<and> n \<le> l)\<rparr>"
    using span_at_global(1,2) [OF place] inserted_inside [OF place ends assms(2)] assms(2) by (simp add: remap_inserted_def min_def)
  ultimately show "\<exists>r. remap_inserted docs (bases docs ! min n (length docs)) (e, sp) = Some r \<and> rr_episode r = e \<and> rr_before r = sp
      \<and> rr_after r = Some (rr_before r) \<and> (\<exists>u v. files_text docs (rr_before r) = Some (u @ v)
            \<and> files_text (insert_at n d docs) (rr_before r) = Some (u @ (if rr_text_changed r then sd_text d else []) @ v))"
    by (simp add: new_def)
qed

section \<open>Moving\<close>

lemma last_kept_run:
  assumes "f \<le> k" "k \<le> l" "last_kept old_rels new_rels f l p k = k'"
    and "\<forall>j. f < j \<and> j \<le> k \<longrightarrow> p + (j - f) < length new_rels \<and> new_rels ! (p + (j - f)) = old_rels ! j"
  shows "k \<le> k' \<and> k' \<le> l \<and> (\<forall>j. f < j \<and> j \<le> k' \<longrightarrow> p + (j - f) < length new_rels \<and> new_rels ! (p + (j - f)) = old_rels ! j)"
  using assms
proof (induction old_rels new_rels f l p k rule: last_kept.induct)
  case (1 old_rels new_rels f l p k)
  show ?case
  proof (cases "k < l \<and> p + (k - f) + 1 < length new_rels \<and> new_rels ! (p + (k - f) + 1) = old_rels ! (k + 1)")
    case True
    then have go: "last_kept old_rels new_rels f l p (Suc k) = k'"
      using "1.prems"(3) by (simp add: last_kept.simps [of old_rels new_rels f l p k])
    have "p + (j - f) < length new_rels \<and> new_rels ! (p + (j - f)) = old_rels ! j" if "f < j" "j \<le> Suc k" for j
      using True "1.prems"(1,4) that by (cases "j = Suc k") (auto simp: Suc_diff_le)
    then show ?thesis using "1.IH" [OF _ _ _ _ go] True "1.prems"(1) by auto
  next
    case False
    then have "last_kept old_rels new_rels f l p k = k" by (subst last_kept.simps) auto
    then show ?thesis using "1.prems" by simp
  qed
qed

text \<open>The same files, one after the other, somewhere else\<close>

lemma text_between_elsewhere:
  assumes "f \<le> k" "\<And>j. f \<le> j \<Longrightarrow> j \<le> k \<Longrightarrow> new ! (p + (j - f)) = docs ! j"
  shows "text_between new p a (p + (k - f)) b = text_between docs f a k b"
proof -
  have "part new p a (p + (k - f)) b (p + i) = part docs f a k b (f + i)" if "i < Suc (k - f)" for i
    using that assms(1) assms(2) [of "f + i"] by (auto simp: part_def Let_def)
  then have "map (part new p a (p + (k - f)) b) [p + 0..<p + Suc (k - f)] = map (\<lambda>i. part docs f a k b (f + i)) [0..<Suc (k - f)]"
    by (intro map_parts) simp
  moreover have "map (part docs f a k b) [f + 0..<f + Suc (k - f)] = map (\<lambda>i. part docs f a k b (f + i)) [0..<Suc (k - f)]"
    by (intro map_parts) simp
  ultimately show ?thesis using assms(1) by (simp add: text_between_def del: upt_Suc)
qed

text \<open>What a range has in its first files is the beginning of its text\<close>

lemma text_between_prefix:
  "f \<le> k \<Longrightarrow> k < l \<Longrightarrow> \<exists>u. text_between docs f a l b = text_between docs f a k (text_length (docs ! k)) @ u"
proof (induction l arbitrary: b)
  case (Suc l)
  then have "f \<le> l" by simp
  note step = text_between_Suc [OF this, of docs a b]
  show ?case
  proof (cases "k = l")
    case False
    then obtain u where "text_between docs f a l (text_length (docs ! l)) = text_between docs f a k (text_length (docs ! k)) @ u"
      using Suc by (metis less_SucE)
    then show ?thesis using step by simp
  qed (use step in simp)
qed simp

lemma moved_docs_facts:
  assumes "distinct (rels docs)" "moved_docs docs rel n = Some new"
  shows "distinct (rels new)" "set new = set docs" "length new = length docs"
proof -
  obtain i where i: "file_index docs rel = Some i" "new = insert_at n (docs ! i) (other_docs docs rel)"
    using assms(2) by (auto simp: moved_docs_def split: option.splits)
  have rel: "i < length docs" "rels docs ! i = rel" using file_index_SomeD [OF i(1)] by (simp_all add: rels_def)
  have eq: "other_docs docs rel = remove_at i docs" by (rule other_docs_eq [OF assms(1) rel])
  have "distinct docs" using assms(1) by (simp add: rels_def distinct_map)
  then have rest: "set (remove_at i docs) = set docs - {docs ! i}" using rel(1) by (rule set_remove_at_distinct)
  have "set new = insert (docs ! i) (set docs - {docs ! i})" by (simp only: i(2) eq set_insert_at rest)
  then show same: "set new = set docs" using nth_mem [OF rel(1)] by (simp only: insert_Diff)
  have "docs ! i \<notin> set (remove_at i docs)" "distinct (remove_at i docs)" using rest distinct_remove_at [OF \<open>distinct docs\<close>] by simp_all
  then have "distinct new" by (simp only: i(2) eq distinct_insert_at simp_thms)
  then show "distinct (rels new)" using assms(1) same by (simp add: rels_def distinct_map)
  show "length new = length docs" using distinct_card [OF \<open>distinct new\<close>] distinct_card [OF \<open>distinct docs\<close>] same by simp
qed

lemma same_rel_same_doc:
  assumes "distinct (rels docs)" "set new = set docs" "i < length docs" "j < length new" "rels new ! j = rels docs ! i"
  shows "new ! j = docs ! i"
proof -
  have "inj_on sd_rel_path (set docs)" using assms(1) by (simp add: rels_def distinct_map)
  moreover have "new ! j \<in> set docs" using assms(2,4) nth_mem by blast
  ultimately show ?thesis using assms(3-5) by (auto simp: rels_def inj_on_def)
qed

text \<open>
  Moving a file keeps a beginning of every range.  The text at the new place is what the
  range had in the files that still follow each other; it is all of it when the range is reported
  unchanged, and a range disappears only when there is no more than white space in that beginning.
\<close>

theorem move_keeps_beginning:
  assumes "distinct (rels docs)" "moved_docs docs rel n = Some new" "list_all (\<lambda>(e, sp). span_fits docs sp) spans"
  shows "\<exists>rs. remap_for_move docs spans rel n = Some rs \<and> map (\<lambda>r. (rr_episode r, rr_before r)) rs = spans
    \<and> (\<forall>r \<in> set rs. \<exists>t u. files_text docs (rr_before r) = Some (t @ u) \<and> (rr_text_changed r \<or> u = [])
        \<and> (case rr_after r of
             None \<Rightarrow> rr_text_changed r \<and> strip t = []
           | Some sp \<Rightarrow> span_fits new sp \<and> files_text new sp = Some t))"
  unfolding remap_for_move_def assms(2) option.case
proof (rule try_map_results)
  note moved = moved_docs_facts [OF assms(1,2)]
  fix e sp assume "(e, sp) \<in> set spans"
  then obtain f l where place: "span_at docs sp f l" using assms(3) by (auto simp: list_all_iff span_fits_iff)
  note sp = span_atD [OF place]
  have rel: "sp_source_file sp = rels docs ! f" "sp_end_file sp = rels docs ! l"
    using file_index_SomeD [OF sp(1)] file_index_SomeD [OF sp(2)] by (simp_all add: rels_def)
  have "docs ! f \<in> set new" using sp(3,4) moved(2) by simp
  then obtain p where p: "p < length new" "new ! p = docs ! f" by (metis in_set_conv_nth)
  then have "rels new ! p = rels docs ! f" using sp(3,4) by (simp add: rels_def)
  then have at_p: "file_index new (sp_source_file sp) = Some p" using file_index_nth [OF moved(1) p(1)] rel(1) by simp
  define k where "k = last_kept (rels docs) (rels new) f l p f"
  have run: "f \<le> k" "k \<le> l" "\<And>j. f < j \<Longrightarrow> j \<le> k \<Longrightarrow> p + (j - f) < length new \<and> rels new ! (p + (j - f)) = rels docs ! j"
  proof -
    have "f \<le> k \<and> k \<le> l \<and> (\<forall>j. f < j \<and> j \<le> k \<longrightarrow> p + (j - f) < length (rels new) \<and> rels new ! (p + (j - f)) = rels docs ! j)"
      by (rule last_kept_run [OF order_refl sp(3) k_def [symmetric]]) auto
    then show "f \<le> k" "k \<le> l" "\<And>j. f < j \<Longrightarrow> j \<le> k \<Longrightarrow> p + (j - f) < length new \<and> rels new ! (p + (j - f)) = rels docs ! j"
      by simp_all
  qed
  have docs': "p + (j - f) < length new" "new ! (p + (j - f)) = docs ! j" if "f \<le> j" "j \<le> k" for j
  proof -
    have "p + (j - f) < length new \<and> new ! (p + (j - f)) = docs ! j"
    proof (cases "j = f")
      case False
      then show ?thesis using run(3) [of j] same_rel_same_doc [OF assms(1) moved(2), of j "p + (j - f)"] that run(2) sp(4) by simp
    qed (use p in simp)
    then show "p + (j - f) < length new" "new ! (p + (j - f)) = docs ! j" by simp_all
  qed
  have idx: "file_index new (rels docs ! k) = Some (p + (k - f))"
    using docs' [OF run(1) order_refl] file_index_nth [OF moved(1), of "p + (k - f)"] run(2) sp(4) by (simp add: rels_def)
  have elsewhere: "text_between new p a (p + (k - f)) b = text_between docs f a k b" for a b
    by (rule text_between_elsewhere [OF run(1) docs'(2)])
  have old: "files_text docs sp = Some (text_between docs f (sp_start sp) l (sp_end sp))" by (rule span_at_text(1) [OF place])
  let ?Q = "\<lambda>r. \<exists>t u. files_text docs (rr_before r) = Some (t @ u) \<and> (rr_text_changed r \<or> u = [])
        \<and> (case rr_after r of
             None \<Rightarrow> rr_text_changed r \<and> strip t = []
           | Some sp \<Rightarrow> span_fits new sp \<and> files_text new sp = Some t)"
  show "\<exists>r. remap_moved docs new (e, sp) = Some r \<and> rr_episode r = e \<and> rr_before r = sp \<and> ?Q r"
  proof (cases "k = l")
    case True
    then have "file_index new (sp_end_file sp) = Some (p + (l - f))" using idx rel(2) by simp
    then have "span_at new sp p (p + (l - f))"
      using at_p sp docs'(2) [of f] docs'(2) [of l] True by (auto simp: span_at_def)
    then have "span_fits new sp" "files_text new sp = files_text docs sp"
      using span_at_fits span_at_text(1) elsewhere True old by auto
    moreover have "remap_moved docs new (e, sp) = Some (kept e sp sp False)"
      using True by (simp add: remap_moved_def sp(1,2) at_p k_def [symmetric] unchanged_def kept_def)
    ultimately show ?thesis using old by simp
  next
    case False
    then have kl: "k < l" using run(2) by simp
    define sp1 where "sp1 = \<lparr>sp_source_file = sp_source_file sp, sp_start = sp_start sp, sp_end_file = rels docs ! k, sp_end = text_length (docs ! k)\<rparr>"
    have step: "remap_moved docs new (e, sp) = finish new e sp sp1 True"
      using False by (simp add: remap_moved_def sp(1,2) at_p k_def [symmetric] sp1_def)
    have place': "span_at new sp1 p (p + (k - f))"
      using at_p idx sp docs'(2) [of f] docs'(2) [of k] run(1) by (auto simp: span_at_def sp1_def)
    have content: "files_text new sp1 = Some (text_between docs f (sp_start sp) k (text_length (docs ! k)))"
      using span_at_text(1) [OF place'] elsewhere by (simp add: sp1_def)
    obtain u where u: "text_between docs f (sp_start sp) l (sp_end sp) = text_between docs f (sp_start sp) k (text_length (docs ! k)) @ u"
      using text_between_prefix [OF run(1) kl] by blast
    from moved(1) place' show ?thesis
    proof (rule finish_result [where episode = e and own = sp and changed = True])
      assume "finish new e sp sp1 True = Some (removed e sp)" "strip (the (files_text new sp1)) = []"
      then show ?thesis using step content old u by (intro exI [of _ "removed e sp"]) auto
    next
      fix sp' assume "finish new e sp sp1 True = Some (kept e sp sp' True)" "narrowed new p (sp_start sp1) (p + (k - f)) (sp_end sp1) sp'"
      then show ?thesis using step content old u narrowed_text [OF place'] narrowed_fits by simp
    qed
  qed
qed

end
