(* ===== verification/LedgerProps.thy ===== *)
theory LedgerProps
  imports Ledger RangeMoves
begin

text \<open>
  Properties of the ledger: its objects read back what was put into them, numbers of episodes are never
  used twice, and the placements of cut episodes never overlap, whatever the ledger holds.
\<close>

section \<open>Objects\<close>

lemma get_put [simp]: "get (put k v m) k' = (if k' = k then v else get m k')"
  by (simp add: get_def put_def dict_simps)

lemma get_drop_key [simp]: "get (drop_key k m) k' = (if k' = k then JNull else get m k')"
  by (simp add: get_def drop_key_def dict_simps)

lemma mappings_JDict [simp]: "mappings (map JDict es) = es"
  by (induction es) (simp_all add: mappings_def)

lemma entry_num_cong: "get e' ''episode'' = get e ''episode'' \<Longrightarrow> entry_num e' = entry_num e"
  by (simp add: entry_num_def)

lemma parse_range_value:
  assumes "get entry ''source_range'' = source_range_value f a l b"
  shows "parse_source_range entry = Some \<lparr>sp_source_file = f, sp_start = a, sp_end_file = l, sp_end = b\<rparr>"
  using assms by (auto simp: parse_source_range_def source_range_value_def get_def)

lemma parse_source_range_cong: "get e' ''source_range'' = get e ''source_range'' \<Longrightarrow> parse_source_range e' = parse_source_range e"
  by (simp add: parse_source_range_def)

section \<open>Numbers of episodes\<close>

lemma fold_max_le: "(fold max xs a :: 'a :: linorder) \<le> b \<longleftrightarrow> a \<le> b \<and> (\<forall>x \<in> set xs. x \<le> b)"
  by (induction xs arbitrary: a) auto

lemma fold_max_ge: "a \<le> (fold max xs a :: 'a :: linorder)" "x \<in> set xs \<Longrightarrow> x \<le> fold max xs a"
  using fold_max_le [of xs a "fold max xs a"] by auto

lemma fold_max_in: "(fold max xs a :: 'a :: linorder) \<in> insert a (set xs)"
  by (induction xs arbitrary: a) (auto simp: max_def)

lemma high_water_covers:
  "stored_high_water p \<le> episode_id_high_water p" "n \<in> set (ledger_episode_ids p) \<Longrightarrow> n \<le> episode_id_high_water p"
  "0 \<le> episode_id_high_water p"
  using fold_max_ge [where xs = "ledger_episode_ids p @ [0]" and a = "stored_high_water p"]
  by (auto simp: episode_id_high_water_def)

lemma entries_put_other: "k \<noteq> ''episodes'' \<Longrightarrow> entries (put k v p) = entries p"
  by (simp add: entries_def)

lemma ledger_ids_put_high_water [simp]: "ledger_episode_ids (put ''episode_id_high_water'' v p) = ledger_episode_ids p"
  by (simp add: ledger_episode_ids_def entries_put_other)

lemma stored_put_high_water: "0 \<le> n \<Longrightarrow> stored_high_water (put ''episode_id_high_water'' (JInt n) p) = n"
  by (simp add: stored_high_water_def)

lemma raise_covers:
  shows "stored_high_water (raise_episode_id_high_water p ns) = fold max ns (episode_id_high_water p)"
    and "ledger_episode_ids (raise_episode_id_high_water p ns) = ledger_episode_ids p"
    and "episode_id_high_water (raise_episode_id_high_water p ns) = fold max ns (episode_id_high_water p)"
proof -
  define h where "h = fold max (ns @ [0]) (episode_id_high_water p)"
  have h: "h = fold max ns (episode_id_high_water p)"
    using high_water_covers(3) [of p] fold_max_ge(1) [of "episode_id_high_water p" ns] by (simp add: h_def max_absorb2)
  have "0 \<le> h" "stored_high_water p \<le> h"
    using h fold_max_ge(1) [of "episode_id_high_water p" ns] high_water_covers(1,3) [of p] by auto
  then show stored: "stored_high_water (raise_episode_id_high_water p ns) = fold max ns (episode_id_high_water p)"
    using stored_put_high_water [of h p] by (auto simp: raise_episode_id_high_water_def Let_def h_def [symmetric] h [symmetric])
  show ids: "ledger_episode_ids (raise_episode_id_high_water p ns) = ledger_episode_ids p"
    by (simp add: raise_episode_id_high_water_def Let_def)
  have "fold max (ledger_episode_ids p @ [0]) h = h"
    using fold_max_le [of "ledger_episode_ids p @ [0]" h h] fold_max_ge(1) [of h "ledger_episode_ids p @ [0]"]
      high_water_covers(2) [of _ p] fold_max_ge(1) [of "episode_id_high_water p" ns] h \<open>0 \<le> h\<close>
    by (metis antisym empty_iff insert_iff list.set order_refl order_trans set_append UnE)
  then show "episode_id_high_water (raise_episode_id_high_water p ns) = fold max ns (episode_id_high_water p)"
    by (simp add: episode_id_high_water_def [of "raise_episode_id_high_water p ns"] stored ids h)
qed

lemma allocate_result:
  assumes "allocate_episode_ids p n = (ids, p')"
  shows "ids = [episode_id_high_water p + 1..episode_id_high_water p + int n]" "length ids = n"
    "ledger_episode_ids p' = ledger_episode_ids p" "episode_id_high_water p' = episode_id_high_water p + int n"
    "stored_high_water p \<le> stored_high_water p'"
proof -
  define h where "h = episode_id_high_water p"
  show ids: "ids = [episode_id_high_water p + 1..episode_id_high_water p + int n]"
    using assms by (simp add: allocate_episode_ids_def Let_def add.commute add.left_commute)
  then show len: "length ids = n" by simp
  have p': "p' = (if n = 0 then p else raise_episode_id_high_water p [h + int n])"
  proof (cases "n = 0")
    case False
    then have "h + 1 \<le> h + int n" by simp
    then have "last [h + 1..h + int n] = h + int n" by (simp add: upto_rec2)
    then show ?thesis using assms False by (simp add: allocate_episode_ids_def Let_def h_def add.commute add.left_commute)
  qed (use assms in \<open>simp add: allocate_episode_ids_def\<close>)
  show "ledger_episode_ids p' = ledger_episode_ids p" "episode_id_high_water p' = episode_id_high_water p + int n"
    using raise_covers(2,3) [of p "[h + int n]"] by (simp_all add: p' h_def)
  show "stored_high_water p \<le> stored_high_water p'"
    using raise_covers(1) [of p "[h + int n]"] high_water_covers(1) [of p] by (simp add: p' h_def)
qed

text \<open>
  A run of a project: the manager writes any project whose stored number was not lowered, between two
  raises of the high water; numbers are allocated.  \<open>issued\<close> are the numbers given out, \<open>seen\<close> those that
  were ever in the ledger.
\<close>

inductive id_run :: "int list \<Rightarrow> int list \<Rightarrow> mapping \<Rightarrow> bool" where
  id_start: "id_run [] (ledger_episode_ids p) p"
| id_write: "id_run issued seen p \<Longrightarrow> stored_high_water (raise_episode_id_high_water p []) \<le> stored_high_water q
    \<Longrightarrow> id_run issued (ledger_episode_ids q @ seen) (raise_episode_id_high_water q [])"
| id_allocate: "id_run issued seen p \<Longrightarrow> allocate_episode_ids p n = (ids, p') \<Longrightarrow> id_run (issued @ ids) seen p'"

lemma id_run_below:
  "id_run issued seen p \<Longrightarrow> distinct issued \<and> (\<forall>n \<in> set issued \<union> set seen. n \<le> episode_id_high_water p)"
proof (induction rule: id_run.induct)
  case (id_start p)
  then show ?case using high_water_covers(2) by auto
next
  case (id_write issued seen p q)
  have "episode_id_high_water p \<le> episode_id_high_water q"
    using id_write.hyps(2) raise_covers(1) [of p "[]"] high_water_covers(1) [of q] by simp
  moreover have "episode_id_high_water (raise_episode_id_high_water q []) = episode_id_high_water q"
    using raise_covers(3) [of q "[]"] by simp
  ultimately show ?case using id_write.IH high_water_covers(2) [of _ q] by (auto intro: order_trans)
next
  case (id_allocate issued seen p n ids p')
  note new = allocate_result [OF id_allocate.hyps(2)]
  have fresh: "distinct ids" "\<forall>i \<in> set ids. episode_id_high_water p < i \<and> i \<le> episode_id_high_water p'"
    using new(1,4) by auto
  have le: "episode_id_high_water p \<le> episode_id_high_water p'" using new(4) by simp
  have old: "distinct issued" "\<forall>i \<in> set issued \<union> set seen. i \<le> episode_id_high_water p" using id_allocate.IH by blast+
  have "set issued \<inter> set ids = {}"
  proof (rule equals0I)
    fix i assume "i \<in> set issued \<inter> set ids"
    then have "i \<le> episode_id_high_water p" "episode_id_high_water p < i" using old(2) fresh(2) by blast+
    then show False by simp
  qed
  moreover have "\<forall>i \<in> set (issued @ ids) \<union> set seen. i \<le> episode_id_high_water p'"
    using old(2) fresh(2) le by (metis UnE UnI1 UnI2 order_trans set_append)
  ultimately show ?case using old(1) fresh(1) by simp
qed

text \<open>
  Property C20: a number of an episode is never given out twice, and never one that any earlier ledger
  had: whatever is written to the project in between, entries deleted included, as many new numbers are
  allocated as asked for, and none of them was issued or seen before.  Of the writers it is assumed that
  none lowers the stored \<open>episode_id_high_water\<close>, which the code only ever raises.
\<close>

theorem ids_never_reused:
  assumes "id_run issued seen p" "allocate_episode_ids p n = (ids, p')"
  shows "distinct (issued @ ids) \<and> length ids = n \<and> set ids \<inter> set seen = {} \<and> (\<forall>i \<in> set ids. 0 < i)"
proof -
  have "distinct ids" "\<And>i. i \<in> set ids \<Longrightarrow> episode_id_high_water p < i"
    using allocate_result(1) [OF assms(2)] by auto
  moreover have old: "distinct issued" "\<forall>i \<in> set issued \<union> set seen. i \<le> episode_id_high_water p" using id_run_below [OF assms(1)] by blast+
  ultimately have "set issued \<inter> set ids = {}" "set ids \<inter> set seen = {}" by (meson UnI1 UnI2 disjoint_iff not_le)+
  moreover have "\<forall>i \<in> set ids. 0 < i" using \<open>\<And>i. i \<in> set ids \<Longrightarrow> episode_id_high_water p < i\<close> high_water_covers(3) [of p] by force
  ultimately show ?thesis using \<open>distinct ids\<close> old(1) allocate_result(2) [OF assms(2)] by simp
qed

section \<open>Placements\<close>

definition separate :: "cut_placement \<Rightarrow> cut_placement \<Rightarrow> bool" where
  "separate p q = (cp_end_position p \<le> cp_position q \<or> cp_end_position q \<le> cp_position p)"

definition placed_in :: "source_doc list \<Rightarrow> cut_placement \<Rightarrow> bool" where
  "placed_in docs p = (cp_position p \<le> cp_end_position p \<and> cp_end_file_index p < length docs
     \<and> 0 \<le> cp_start p \<and> cp_start p \<le> text_length (docs ! cp_file_index p)
     \<and> 0 \<le> cp_end p \<and> cp_end p \<le> text_length (docs ! cp_end_file_index p))"

definition in_order :: "cut_placement list \<Rightarrow> bool" where
  "in_order ps = sorted_wrt (\<lambda>p q. cp_end_position p \<le> cp_position q) ps"

lemma order_index_SomeD: "order_index nfc docs rel = Some i \<Longrightarrow> i < length docs \<and> nfc (sd_rel_path (docs ! i)) = nfc rel"
  unfolding order_index_def by (drule map_of_SomeD) (auto simp: in_set_zip)

lemma cut_candidate_SomeD:
  assumes "cut_candidate nfc docs e = Some p"
  shows "placed_in docs p" "entry_num e = Some (cp_episode p)" "is_cut_episode e"
  using assms order_index_SomeD [of nfc docs]
  by (auto simp: cut_candidate_def placed_in_def cp_position_def cp_end_position_def less_eq_prod_def
      split: option.splits if_splits)

lemma place_from_subset: "set (place_from c pl ps) \<subseteq> set ps"
  by (induction c pl ps rule: place_from.induct) auto

lemma place_from_in_order:
  assumes "\<forall>p \<in> set ps. cp_position p \<le> cp_end_position p"
  shows "in_order (place_from c pl ps) \<and> (\<forall>p \<in> set (place_from c pl ps). c \<le> cp_position p \<and> cp_episode p \<notin> set pl)
    \<and> distinct (map cp_episode (place_from c pl ps))"
  using assms
proof (induction c pl ps rule: place_from.induct)
  case (2 cursor placed p ps)
  show ?case
  proof (cases "cp_position p < cursor \<or> cp_episode p \<in> set placed")
    case True
    then show ?thesis using "2.IH"(1) "2.prems" by simp
  next
    case False
    have "cursor \<le> cp_position q" if "cp_end_position p \<le> cp_position q" for q
      using False that "2.prems" by (meson list.set_intros(1) not_less order_trans)
    then show ?thesis using "2.IH"(2) [OF False] "2.prems" False by (auto simp: in_order_def)
  qed
qed (simp add: in_order_def)

lemma placements_facts:
  "in_order (cut_episode_placements nfc project docs)" "distinct (map cp_episode (cut_episode_placements nfc project docs))"
  "\<forall>p \<in> set (cut_episode_placements nfc project docs). placed_in docs p
     \<and> (\<exists>e \<in> set (entries project). cut_candidate nfc docs e = Some p)"
proof -
  define ps where "ps = sort_key (\<lambda>p. (cp_position p, cp_end_position p)) (List.map_filter (cut_candidate nfc docs) (entries project))"
  have from_entry: "\<exists>e \<in> set (entries project). cut_candidate nfc docs e = Some p" if "p \<in> set ps" for p
    using that by (auto simp: ps_def map_filter_def)
  then have "\<forall>p \<in> set ps. placed_in docs p" using cut_candidate_SomeD(1) by blast
  then have "\<forall>p \<in> set ps. cp_position p \<le> cp_end_position p" by (simp add: placed_in_def)
  from place_from_in_order [OF this] have "in_order (place_from (0, 0) [] ps)" "distinct (map cp_episode (place_from (0, 0) [] ps))"
    by blast+
  moreover have "cut_episode_placements nfc project docs = place_from (0, 0) [] ps" by (simp add: cut_episode_placements_def ps_def)
  ultimately show "in_order (cut_episode_placements nfc project docs)" "distinct (map cp_episode (cut_episode_placements nfc project docs))"
    "\<forall>p \<in> set (cut_episode_placements nfc project docs). placed_in docs p
     \<and> (\<exists>e \<in> set (entries project). cut_candidate nfc docs e = Some p)"
    using place_from_subset [of "(0, 0)" "[]" ps] from_entry \<open>\<forall>p \<in> set ps. placed_in docs p\<close> by auto
qed

text \<open>
  Property C19: whatever the ledger holds, the episodes that are placed in the source follow each other
  without overlap, each lies inside the files, none is placed twice, and each is one that the ledger
  says was cut from the source.
\<close>

theorem placements_disjoint:
  "in_order (cut_episode_placements nfc project docs)
   \<and> distinct (map cp_episode (cut_episode_placements nfc project docs))
   \<and> (\<forall>p \<in> set (cut_episode_placements nfc project docs). placed_in docs p
        \<and> (\<exists>e \<in> set (entries project). is_cut_episode e \<and> entry_num e = Some (cp_episode p)))"
  using placements_facts [of nfc project docs] cut_candidate_SomeD(2,3) by blast

text \<open>Candidates that do not overlap are all placed\<close>

lemma place_from_all:
  assumes "sorted (map (\<lambda>p. (cp_position p, cp_end_position p)) ps)" "\<forall>p \<in> set ps. cp_position p \<le> cp_end_position p \<and> c \<le> cp_position p"
    and "\<forall>p \<in> set ps. cp_episode p \<notin> set pl" "distinct (map cp_episode ps)"
    and "\<And>p q. p \<in> set ps \<Longrightarrow> q \<in> set ps \<Longrightarrow> p \<noteq> q \<Longrightarrow> separate p q"
  shows "place_from c pl ps = ps"
  using assms
proof (induction c pl ps rule: place_from.induct)
  case (2 cursor placed p ps)
  have keep: "\<not> (cp_position p < cursor \<or> cp_episode p \<in> set placed)" using "2.prems"(2,3) by (auto simp: not_less)
  have "cp_end_position p \<le> cp_position q" if q: "q \<in> set ps" for q
  proof -
    have le: "(cp_position p, cp_end_position p) \<le> (cp_position q, cp_end_position q)" using "2.prems"(1) q by simp
    have "p \<noteq> q" using "2.prems"(4) q by auto
    then consider "cp_end_position p \<le> cp_position q" | "cp_end_position q \<le> cp_position p"
      using "2.prems"(5) [of p q] q by (auto simp: separate_def)
    then show ?thesis
    proof cases
      case over: 2
      have "cp_position q \<le> cp_end_position q" using "2.prems"(2) q by simp
      then have "cp_position q \<le> cp_position p" using over by (rule order_trans)
      moreover have "cp_position p \<le> cp_position q" using le by auto
      ultimately have eq: "cp_position p = cp_position q" by (rule antisym [rotated])
      then have "cp_end_position p \<le> cp_end_position q" using le by simp
      then show ?thesis using over eq by simp
    qed
  qed
  moreover from this have "place_from (cp_end_position p) (cp_episode p # placed) ps = ps"
    using "2.prems" by (intro "2.IH"(2) [OF keep]) (auto simp: image_iff)
  ultimately show ?case using keep by simp
qed simp

end
