(* ===== verification/SplitPlans.thy ===== *)
theory SplitPlans
  imports ManualSplit LedgerProps
begin

text \<open>
  Plans of manual splits as operations on intervals of the whole source: what a plan makes of the
  intervals of the episodes, that they stay disjoint, and which text they cover.
\<close>

section \<open>Layouts whose ledger is placed as a whole\<close>

definition spans_of :: "split_layout \<Rightarrow> (int \<times> int \<times> int) list" where
  "spans_of ly = map (\<lambda>p. (cp_episode p, ly_span ly p)) (ly_placements ly)"

definition total_length :: "split_layout \<Rightarrow> int" where
  "total_length ly = int (length (ly_text ly))"

definition layout_ok :: "split_layout \<Rightarrow> bool" where
  "layout_ok ly = (in_order (ly_placements ly) \<and> distinct (map cp_episode (ly_placements ly))
     \<and> list_all (placed_in (ly_docs ly)) (ly_placements ly)
     \<and> set (map cp_episode (ly_placements ly)) \<subseteq> set (List.map_filter entry_num (ly_entries ly))
     \<and> list_all (\<lambda>e. entry_num e \<noteq> None) (ly_entries ly) \<and> distinct (map entry_num (ly_entries ly)))"

text \<open>The intervals after an edit; \<open>n\<close> is the number of the new episode, if there is one\<close>

definition edited_spans :: "split_layout \<Rightarrow> split_edit \<Rightarrow> int \<Rightarrow> (int \<times> int \<times> int) list" where
  "edited_spans ly edit n =
     map (\<lambda>(m, r). (m, case map_of (se_ranges edit) m of Some r' \<Rightarrow> r' | None \<Rightarrow> r))
       (filter (\<lambda>(m, r). m \<notin> set (se_dropped edit)) (spans_of ly))
     @ (case se_new_range edit of Some r \<Rightarrow> [(n, r)] | None \<Rightarrow> [])"

text \<open>No position belongs to both; an interval may be empty\<close>

definition apart :: "int \<times> int \<Rightarrow> int \<times> int \<Rightarrow> bool" where
  "apart r s = (snd r \<le> fst s \<or> snd s \<le> fst r \<or> snd r \<le> fst r \<or> snd s \<le> fst s)"

definition disjoint_spans :: "(int \<times> int \<times> int) list \<Rightarrow> bool" where
  "disjoint_spans spans = (distinct (map fst spans)
     \<and> list_all (\<lambda>(n, r). list_all (\<lambda>(m, s). n = m \<or> apart r s) spans) spans)"

definition inside :: "split_layout \<Rightarrow> (int \<times> int \<times> int) list \<Rightarrow> bool" where
  "inside ly spans = list_all (\<lambda>(n, a, b). 0 \<le> a \<and> a \<le> b \<and> b \<le> total_length ly) spans"

text \<open>Which positions of the source belong to some episode\<close>

definition covers :: "(int \<times> int \<times> int) list \<Rightarrow> int \<Rightarrow> bool" where
  "covers spans pos = list_ex (\<lambda>(n, a, b). a \<le> pos \<and> pos < b) spans"

lemma in_map_filter: "x \<in> set (List.map_filter f xs) \<longleftrightarrow> (\<exists>y \<in> set xs. f y = Some x)"
  by (induction xs) (auto simp: map_filter_simps split: option.splits)

lemma well_formed_entries:
  assumes "well_formed_ledger_entries project = Some es"
  shows "es = entries project" "list_all (\<lambda>e. entry_num e \<noteq> None) es" "distinct (map entry_num es)"
proof -
  obtain vs where vs: "get project ''episodes'' = JList vs" "es = mappings vs"
    and ok: "None \<notin> set (map entry_num es)" "distinct (map entry_num es)"
    using assms by (auto simp: well_formed_ledger_entries_def Let_def split: json.splits if_splits)
  show "es = entries project" using vs by (simp add: entries_def list_items_def)
  show "distinct (map entry_num es)" by (rule ok(2))
  show "list_all (\<lambda>e. entry_num e \<noteq> None) es" using ok(1) by (metis (mono_tags, lifting) image_eqI list.set_map list_all_iff)
qed

lemma layout_of_ok:
  assumes "layout_of env project = Inr ly"
  shows "layout_ok ly" "ly_entries ly = entries project" "ly_docs ly = discover_sources (env_read env) project"
    "ly_placements ly = cut_episode_placements (env_nfc env) project (ly_docs ly)"
proof -
  obtain es where es: "well_formed_ledger_entries project = Some es"
    using assms by (cases "well_formed_ledger_entries project") (simp_all add: layout_of_def)
  have ly: "ly_entries ly = es" "ly_docs ly = discover_sources (env_read env) project"
    "ly_placements ly = cut_episode_placements (env_nfc env) project (ly_docs ly)"
    using assms by (auto simp: layout_of_def es Let_def)
  note wf = well_formed_entries [OF es]
  note facts = placements_facts [of "env_nfc env" project "ly_docs ly", folded ly(3)]
  have "cp_episode p \<in> set (List.map_filter entry_num es)" if placed: "p \<in> set (ly_placements ly)" for p
  proof -
    obtain e where e: "e \<in> set (entries project)" "cut_candidate (env_nfc env) (ly_docs ly) e = Some p"
      using bspec [OF facts(3) placed] by (elim conjE bexE)
    show ?thesis unfolding in_map_filter using cut_candidate_SomeD(2) [OF e(2)] e(1) by (intro bexI [of _ e]) (simp_all only: wf(1))
  qed
  then have "set (map cp_episode (ly_placements ly)) \<subseteq> set (List.map_filter entry_num es)" by auto
  moreover have "list_all (placed_in (ly_docs ly)) (ly_placements ly)" using facts(3) by (simp add: list_all_iff)
  ultimately show "layout_ok ly" using facts(1,2) wf(2,3) by (simp only: layout_ok_def ly(1) simp_thms)
  show "ly_entries ly = entries project" "ly_docs ly = discover_sources (env_read env) project"
    "ly_placements ly = cut_episode_placements (env_nfc env) project (ly_docs ly)" using ly wf(1) by simp_all
qed

section \<open>Intervals\<close>

lemma total_length_bases: "total_length ly = ly_bases ly ! length (ly_docs ly)"
  by (simp add: total_length_def ly_text_def ly_bases_def bases_end)

lemma ly_bases_mono: "i \<le> j \<Longrightarrow> j \<le> length (ly_docs ly) \<Longrightarrow> ly_bases ly ! i \<le> ly_bases ly ! j"
  by (simp add: ly_bases_def bases_mono)

lemma ly_bases_Suc: "i < length (ly_docs ly) \<Longrightarrow> ly_bases ly ! Suc i = ly_bases ly ! i + text_length (ly_docs ly ! i)"
  by (simp add: ly_bases_def bases_Suc)

lemma ly_bases_first: "ly_bases ly ! 0 = 0"
  using nth_bases [of 0 "ly_docs ly"] by (simp add: ly_bases_def docs_text_def)

text \<open>Lexicographic positions and global positions agree\<close>

lemma global_le:
  assumes "i \<le> j" "j < length (ly_docs ly)" "a \<le> text_length (ly_docs ly ! i)" "0 \<le> b" "i = j \<longrightarrow> a \<le> b"
  shows "ly_bases ly ! i + a \<le> ly_bases ly ! j + b"
proof (cases "i = j")
  case False
  then have "ly_bases ly ! Suc i \<le> ly_bases ly ! j" using assms by (intro ly_bases_mono) auto
  then show ?thesis using ly_bases_Suc [of i ly] assms by simp
qed (use assms in simp)

lemma placed_bounds:
  assumes "placed_in (ly_docs ly) p" "ly_span ly p = (a, b)"
  shows "0 \<le> a" "a \<le> b" "b \<le> total_length ly"
proof -
  have p: "cp_file_index p \<le> cp_end_file_index p" "cp_end_file_index p < length (ly_docs ly)"
    "cp_file_index p = cp_end_file_index p \<longrightarrow> cp_start p \<le> cp_end p"
    "0 \<le> cp_start p" "cp_start p \<le> text_length (ly_docs ly ! cp_file_index p)"
    "0 \<le> cp_end p" "cp_end p \<le> text_length (ly_docs ly ! cp_end_file_index p)"
    using assms(1) by (auto simp: placed_in_def cp_position_def cp_end_position_def)
  have ab: "a = ly_bases ly ! cp_file_index p + cp_start p" "b = ly_bases ly ! cp_end_file_index p + cp_end p"
    using assms(2) by (simp_all add: ly_span_def)
  show "0 \<le> a" using ly_bases_mono [of 0 "cp_file_index p" ly] ly_bases_first [of ly] p ab by simp
  show "a \<le> b" unfolding ab using p by (intro global_le) auto
  show "b \<le> total_length ly"
    using ly_bases_mono [of "Suc (cp_end_file_index p)" "length (ly_docs ly)" ly] ly_bases_Suc [OF p(2)] p ab
    by (simp add: total_length_bases)
qed

lemma placed_order:
  assumes "placed_in (ly_docs ly) p" "placed_in (ly_docs ly) q" "cp_end_position p \<le> cp_position q"
  shows "snd (ly_span ly p) \<le> fst (ly_span ly q)"
proof -
  have "cp_end_file_index p \<le> cp_file_index q" "cp_end_file_index p = cp_file_index q \<longrightarrow> cp_end p \<le> cp_start q"
    using assms(3) by (auto simp: cp_end_position_def cp_position_def)
  moreover have "cp_file_index q < length (ly_docs ly)" "cp_end p \<le> text_length (ly_docs ly ! cp_end_file_index p)" "0 \<le> cp_start q"
    using assms(1,2) by (auto simp: placed_in_def cp_position_def cp_end_position_def)
  ultimately show ?thesis using global_le by (simp add: ly_span_def)
qed

lemma spans_sorted:
  assumes "layout_ok ly"
  shows "sorted_wrt (\<lambda>(n, r) (m, s). snd r \<le> fst s) (spans_of ly)"
    and "(n, a, b) \<in> set (spans_of ly) \<Longrightarrow> 0 \<le> a \<and> a \<le> b \<and> b \<le> total_length ly"
    and "distinct (map fst (spans_of ly))"
proof -
  have order: "sorted_wrt (\<lambda>p q. cp_end_position p \<le> cp_position q) (ly_placements ly)"
    and placed: "\<forall>p \<in> set (ly_placements ly). placed_in (ly_docs ly) p"
    using assms by (auto simp: layout_ok_def in_order_def list_all_iff)
  have "sorted_wrt (\<lambda>p q. snd (ly_span ly p) \<le> fst (ly_span ly q)) (ly_placements ly)"
    by (rule sorted_wrt_mono_rel [OF _ order]) (use placed placed_order in blast)
  then show "sorted_wrt (\<lambda>(n, r) (m, s). snd r \<le> fst s) (spans_of ly)"
    by (simp add: spans_of_def sorted_wrt_map)
  show "0 \<le> a \<and> a \<le> b \<and> b \<le> total_length ly" if s: "(n, a, b) \<in> set (spans_of ly)"
  proof -
    obtain p where "p \<in> set (ly_placements ly)" "ly_span ly p = (a, b)" using s by (auto simp: spans_of_def)
    then show ?thesis using placed placed_bounds by blast
  qed
  have "map fst (spans_of ly) = map cp_episode (ly_placements ly)" by (simp add: spans_of_def)
  then show "distinct (map fst (spans_of ly))" using assms by (simp add: layout_ok_def)
qed

lemma spans_apart:
  assumes "layout_ok ly" "(n, r) \<in> set (spans_of ly)" "(m, s) \<in> set (spans_of ly)" "n \<noteq> m"
  shows "apart r s"
proof -
  obtain i where i: "i < length (spans_of ly)" "spans_of ly ! i = (n, r)" using assms(2) by (metis in_set_conv_nth)
  obtain j where j: "j < length (spans_of ly)" "spans_of ly ! j = (m, s)" using assms(3) by (metis in_set_conv_nth)
  have "i \<noteq> j" using i j assms(4) by auto
  then consider "i < j" | "j < i" by linarith
  then show ?thesis
    using sorted_wrt_nth_less [OF spans_sorted(1) [OF assms(1)]] i j by cases (fastforce simp: apart_def)+
qed

lemma span_unique:
  assumes "layout_ok ly" "(n, r) \<in> set (spans_of ly)" "(n, s) \<in> set (spans_of ly)"
  shows "r = s"
  using eq_key_imp_eq_value [OF spans_sorted(3) [OF assms(1)] assms(2,3)] .

text \<open>In source order, as the planner looks at them\<close>

lemma set_ordered_placements: "set (in_source_order ly) = set (ly_placements ly)"
  by (simp add: in_source_order_def)

lemma source_order_is_order:
  assumes "layout_ok ly"
  shows "in_source_order ly = ly_placements ly"
proof -
  have order: "sorted_wrt (\<lambda>p q. cp_end_position p \<le> cp_position q) (ly_placements ly)"
    and placed: "\<forall>p \<in> set (ly_placements ly). cp_position p \<le> cp_end_position p"
    using assms by (auto simp: layout_ok_def in_order_def list_all_iff placed_in_def)
  have "sorted_wrt (\<lambda>p q. cp_position p \<le> cp_position q) (ly_placements ly)"
    by (rule sorted_wrt_mono_rel [OF _ order]) (use placed order_trans in blast)
  then have "sorted (map cp_position (ly_placements ly))" by (simp add: sorted_wrt_map)
  then show ?thesis by (simp add: in_source_order_def sort_key_id_if_sorted)
qed

lemma find_placement_SomeD:
  assumes "find_placement ly n = Some p"
  shows "p \<in> set (ly_placements ly)" "cp_episode p = n" "(n, ly_span ly p) \<in> set (spans_of ly)"
  using find_SomeE [OF assms [unfolded find_placement_def]] by (auto simp: spans_of_def)

lemma placement_ofD:
  assumes "placement_of ly n = Inr p"
  shows "find_placement ly n = Some p" "p \<in> set (ly_placements ly)" "cp_episode p = n" "(n, ly_span ly p) \<in> set (spans_of ly)"
  using assms find_placement_SomeD [of ly n p] by (auto simp: placement_of_def split: if_splits option.splits)

section \<open>Plans\<close>

lemma apart_sym: "apart r s \<Longrightarrow> apart s r"
  by (auto simp: apart_def)

lemma apart_inside: "apart (a, b) s \<Longrightarrow> a \<le> a' \<Longrightarrow> b' \<le> b \<Longrightarrow> apart (a', b') s"
  by (auto simp: apart_def)

lemma apart_join: "apart (a, b) s \<Longrightarrow> apart (b, c) s \<Longrightarrow> a \<le> b \<Longrightarrow> b < c \<Longrightarrow> apart (a, c) s"
  by (auto simp: apart_def)

text \<open>The intervals after an edit, one by one\<close>

lemma set_edited_spans:
  "(m, r) \<in> set (edited_spans ly edit n) \<longleftrightarrow>
     (\<exists>s. (m, s) \<in> set (spans_of ly) \<and> m \<notin> set (se_dropped edit)
        \<and> r = (case map_of (se_ranges edit) m of Some r' \<Rightarrow> r' | None \<Rightarrow> s))
     \<or> m = n \<and> se_new_range edit = Some r"
proof -
  have kept: "(m, r) \<in> set (map (\<lambda>(m, r). (m, f m r)) (filter (\<lambda>(m, r). Q m) xs)) \<longleftrightarrow> (\<exists>s. (m, s) \<in> set xs \<and> Q m \<and> r = f m s)"
    for f :: "int \<Rightarrow> int \<times> int \<Rightarrow> int \<times> int" and Q xs by force
  have new: "(m, r) \<in> set (case se_new_range edit of Some r \<Rightarrow> [(n, r)] | None \<Rightarrow> []) \<longleftrightarrow> m = n \<and> se_new_range edit = Some r"
    by (cases "se_new_range edit") auto
  show ?thesis unfolding edited_spans_def set_append Un_iff kept new by (rule refl)
qed

lemma placed_numbers:
  assumes "layout_ok ly" "(m, r) \<in> set (spans_of ly)"
  shows "m \<in> set (List.map_filter entry_num (ly_entries ly))"
proof -
  have "m \<in> set (map cp_episode (ly_placements ly))" using assms(2) by (auto simp: spans_of_def)
  then show ?thesis using assms(1) by (auto simp: layout_ok_def)
qed

lemma distinct_edited_spans:
  assumes "layout_ok ly" "n \<notin> set (List.map_filter entry_num (ly_entries ly))"
  shows "distinct (map fst (edited_spans ly edit n))"
proof -
  have kept: "fst \<circ> (\<lambda>(m, r). (m, f m r)) = fst" for f :: "int \<Rightarrow> int \<times> int \<Rightarrow> int \<times> int" by auto
  have "n \<notin> fst ` set (spans_of ly)" using placed_numbers [OF assms(1)] assms(2) by fastforce
  then have "n \<notin> fst ` set (filter P (spans_of ly))" "distinct (map fst (filter P (spans_of ly)))" for P
    using spans_sorted(3) [OF assms(1)] by (auto simp: distinct_map_filter)
  then show ?thesis by (simp add: edited_spans_def kept split: option.split)
qed

lemma disjoint_spansI:
  assumes "distinct (map fst spans)" "\<And>m r k s. (m, r) \<in> set spans \<Longrightarrow> (k, s) \<in> set spans \<Longrightarrow> m \<noteq> k \<Longrightarrow> apart r s"
  shows "disjoint_spans spans"
  unfolding disjoint_spans_def list_all_iff split_beta using assms by (metis prod.collapse)

lemma require_text_less:
  assumes "require_text ly a b = Inr u" "0 \<le> b"
  shows "a < b"
proof (rule ccontr)
  assume "\<not> a < b"
  then have "py_slice (ly_text ly) a b = []" using assms(2) by (intro py_slice_none) auto
  then show False using assms(1) by (simp add: require_text_def ensure_eq_Inr strip_def lstrip_def rstrip_def)
qed

lemma to_global_bounds:
  assumes "to_global ly f offset = Inr place"
  shows "0 \<le> place" "place \<le> total_length ly"
proof -
  obtain i where i: "file_index (ly_docs ly) f = Some i" "0 \<le> offset" "offset \<le> text_length (ly_docs ly ! i)"
    "place = ly_bases ly ! i + offset"
    using assms by (auto simp: to_global_def doc_index_def ebind_eq_Inr split: option.splits if_splits)
  have less: "i < length (ly_docs ly)" using file_index_SomeD [OF i(1)] by simp
  show "0 \<le> place" using ly_bases_mono [of 0 i ly] ly_bases_first [of ly] less i by simp
  show "place \<le> total_length ly"
    using ly_bases_mono [of "Suc i" "length (ly_docs ly)" ly] ly_bases_Suc [OF less] less i by (simp add: total_length_bases)
qed

text \<open>What each command plans\<close>

lemma plan_cutD:
  assumes ok: "layout_ok ly" and plan: "plan_cut ly f stop title = Inr edit"
  obtains start place where "se_ranges edit = []" "se_dropped edit = []" "se_new_range edit = Some (start, place)"
    "0 \<le> start" "start < place" "place \<le> total_length ly" "\<And>m s. (m, s) \<in> set (spans_of ly) \<Longrightarrow> apart (start, place) s"
proof -
  define spans where "spans = map (ly_span ly) (in_source_order ly)"
  define limits where "limits place = List.map_filter (\<lambda>(low, high). if high \<le> place then Some high else None) spans
      @ filter (\<lambda>w. w < place) (ly_walls ly)" for place :: int
  obtain place k where place: "to_global ly f stop = Inr place" "\<not> list_ex (\<lambda>(low, high). low < place \<and> place < high) spans"
    "require_text ly (fold max (limits place) 0) place = Inr ()"
    and edit: "edit = no_edit\<lparr>se_touches_source := True, se_new_range := Some (fold max (limits place) 0, place),
       se_new_title := strip title, se_insert_before := k\<rparr>"
    using plan by (auto simp: plan_cut_def Let_def ebind_eq_Inr ensure_eq_Inr spans_def limits_def split: option.splits)
  have spans: "set spans = snd ` set (spans_of ly)" by (auto simp: spans_def spans_of_def set_ordered_placements image_image)
  let ?start = "fold max (limits place) 0"
  have high_limits: "high \<in> set (limits place)" if "(low, high) \<in> set spans" "high \<le> place" for low high
    using that by (auto simp: limits_def in_map_filter intro!: bexI [of _ "(low, high)"])
  note bounds = to_global_bounds [OF place(1)]
  have "apart (?start, place) s" if "(m, s) \<in> set (spans_of ly)" for m s
  proof -
    obtain a b where s: "s = (a, b)" by fastforce
    have "(a, b) \<in> set spans" using that s spans by force
    then have "b \<le> place \<longrightarrow> b \<in> set (limits place)" "\<not> (a < place \<and> place < b)"
      using place(2) high_limits by (auto simp: list_ex_iff)
    then show ?thesis using fold_max_ge(2) [of b "limits place" 0] s by (auto simp: apart_def)
  qed
  moreover have "0 \<le> ?start" by (rule fold_max_ge(1))
  ultimately show thesis
    using that [of ?start place] edit bounds require_text_less [OF place(3)] by (simp add: no_edit_def)
qed

lemma plan_splitD:
  assumes "plan_split ly episode offset f = Inr edit"
  obtains low pt high where "se_ranges edit = [(episode, low, pt)]" "se_dropped edit = []" "se_new_range edit = Some (pt, high)"
    "(episode, low, high) \<in> set (spans_of ly)" "low < pt" "pt < high"
proof -
  obtain p where p: "placement_of ly episode = Inr p" using assms by (auto simp: plan_split_def ebind_eq_Inr)
  obtain low high where span: "ly_span ly p = (low, high)" by fastforce
  obtain pt i where "low < pt" "pt < high"
    and edit: "edit = no_edit\<lparr>se_touches_source := True, se_ranges := [(episode, low, pt)], se_new_range := Some (pt, high),
         se_insert_before := Suc i\<rparr>"
    using assms by (auto simp: plan_split_def p span ebind_eq_Inr require_inside_def ensure_eq_Inr)
  then show thesis using that [of low pt high] placement_ofD(4) [OF p] span by (simp add: no_edit_def)
qed

lemma plan_moveD:
  assumes ok: "layout_ok ly" and plan: "plan_move ly episode offset f = Inr edit"
  obtains low border pt high other where "se_ranges edit = [(episode, low, pt), (other, pt, high)]" "se_dropped edit = []"
    "se_new_range edit = None" "(episode, low, border) \<in> set (spans_of ly)" "(other, border, high) \<in> set (spans_of ly)"
    "episode \<noteq> other" "low < pt" "pt < high" "low \<le> border" "border < high" "pt \<noteq> border"
proof -
  obtain left where left: "placement_of ly episode = Inr left" using plan by (auto simp: plan_move_def ebind_eq_Inr)
  obtain low border where span: "ly_span ly left = (low, border)" by fastforce
  obtain right where find: "find (\<lambda>p. fst (ly_span ly p) = border \<and> fst (ly_span ly p) < snd (ly_span ly p)) (in_source_order ly) = Some right"
    using plan by (auto simp: plan_move_def left span split: option.splits)
  obtain start high where span': "ly_span ly right = (start, high)" by fastforce
  have right: "right \<in> set (ly_placements ly)" "start = border" "border < high"
    using find_SomeE [OF find] set_ordered_placements span' by auto
  have in_spans: "(episode, low, border) \<in> set (spans_of ly)" "(cp_episode right, border, high) \<in> set (spans_of ly)"
    using placement_ofD(4) [OF left] span right span' by (auto simp: spans_of_def)
  have "low \<le> border" using spans_sorted(2) [OF ok in_spans(1)] by simp
  have "episode \<noteq> cp_episode right"
    using span_unique [OF ok in_spans(1), of "(border, high)"] in_spans(2) \<open>low \<le> border\<close> right(3) by auto
  moreover obtain pt where "low < pt" "pt < high" "pt \<noteq> border"
    and edit: "edit = no_edit\<lparr>se_touches_source := True,
         se_ranges := dict_set (cp_episode right) (pt, high) [(cp_episode left, low, pt)]\<rparr>"
    using plan by (auto simp: plan_move_def left span span' find ebind_eq_Inr require_inside_def ensure_eq_Inr)
  moreover have "cp_episode left = episode" by (rule placement_ofD(3) [OF left])
  ultimately show thesis
    using that [of low pt "cp_episode right" high border] in_spans \<open>low \<le> border\<close> right(3) by (simp add: no_edit_def)
qed

lemma plan_mergeD:
  assumes ok: "layout_ok ly" and plan: "plan_merge env ly episode = Inr edit"
  obtains low low' high high' other where "se_ranges edit = [(episode, low, high')]" "se_dropped edit = [other]" "se_new_range edit = None"
    "(episode, low, high) \<in> set (spans_of ly)" "(other, low', high') \<in> set (spans_of ly)" "episode \<noteq> other"
    "low \<le> high" "high \<le> low'" "low' \<le> high'"
    "\<And>m s. (m, s) \<in> set (spans_of ly) \<Longrightarrow> m \<noteq> episode \<Longrightarrow> m \<noteq> other \<Longrightarrow> snd s \<le> low \<or> high' \<le> fst s"
proof -
  obtain p where p: "placement_of ly episode = Inr p" using plan by (auto simp: plan_merge_def ebind_eq_Inr)
  obtain k q rest where k: "find_index (\<lambda>q. q = p) (in_source_order ly) = Some k" and drop: "drop (Suc k) (in_source_order ly) = q # rest"
    and edit: "edit = no_edit\<lparr>se_touches_source := True, se_ranges := [(episode, fst (ly_span ly p), snd (ly_span ly q))],
         se_dropped := [cp_episode q], se_merged_units := units_between env ly (snd (ly_span ly p)) (fst (ly_span ly q))\<rparr>"
    using plan by (auto simp: plan_merge_def p Let_def split: option.splits list.splits if_splits)
  have at_k: "k < length (in_source_order ly)" "in_source_order ly ! k = p" using find_index_SomeD [OF k] by simp_all
  have split: "ly_placements ly = take k (in_source_order ly) @ p # q # rest"
    using id_take_nth_drop [OF at_k(1)] at_k(2) drop source_order_is_order [OF ok] by simp
  have spans: "spans_of ly = map (\<lambda>p. (cp_episode p, ly_span ly p)) (take k (in_source_order ly)) @ (episode, ly_span ly p)
      # (cp_episode q, ly_span ly q) # map (\<lambda>p. (cp_episode p, ly_span ly p)) rest"
    using placement_ofD(3) [OF p] by (simp add: spans_of_def split)
  obtain low high where sp: "ly_span ly p = (low, high)" by fastforce
  obtain low' high' where sq: "ly_span ly q = (low', high')" by fastforce
  have in_spans: "(episode, low, high) \<in> set (spans_of ly)" "(cp_episode q, low', high') \<in> set (spans_of ly)"
    by (simp_all add: spans sp sq)
  have order: "low \<le> high" "high \<le> low'" "low' \<le> high'"
    using spans_sorted(1) [OF ok] spans_sorted(2) [OF ok in_spans(1)] spans_sorted(2) [OF ok in_spans(2)]
    by (simp_all add: spans sp sq sorted_wrt_append)
  have "episode \<noteq> cp_episode q" using spans_sorted(3) [OF ok] by (simp add: spans)
  moreover have "snd s \<le> low \<or> high' \<le> fst s" if "(m, s) \<in> set (spans_of ly)" "m \<noteq> episode" "m \<noteq> cp_episode q" for m s
    using that spans_sorted(1) [OF ok] by (fastforce simp: spans sp sq sorted_wrt_append)
  ultimately show thesis
    using that [of low high' "cp_episode q" high low'] in_spans order edit sp sq by (simp add: no_edit_def)
qed

lemma plan_clearD:
  assumes "plan_clear_after ly episode = Inr edit"
  obtains p where "se_ranges edit = []" "se_new_range edit = None" "placement_of ly episode = Inr p"
    "\<And>m. m \<in> set (se_dropped edit) \<longleftrightarrow> m \<in> set (List.map_filter entry_num (ly_entries ly))
       \<and> (\<exists>q \<in> set (ly_placements ly). cp_episode q = m \<and> cp_position p < cp_position q)"
proof -
  obtain p where p: "placement_of ly episode = Inr p" using assms by (auto simp: plan_clear_after_def ebind_eq_Inr)
  show thesis using assms by (intro that [of p]) (auto simp: plan_clear_after_def p Let_def ebind_eq_Inr no_edit_def set_ordered_placements)
qed

end
