(* ===== verification/SplitProps.thy ===== *)
theory SplitProps
  imports SplitPlans
begin

text \<open>
  What the plans of manual splits do to the intervals of the episodes: they stay disjoint, and the text
  that belongs to episodes is the one the command is about.
\<close>

section \<open>Disjoint\<close>

lemma plan_keeps_apart:
  assumes ok: "layout_ok ly" and plan: "plan_command env ly command = Inr edit"
    and fresh: "n \<notin> set (List.map_filter entry_num (ly_entries ly))"
    and mr: "(m, r) \<in> set (edited_spans ly edit n)" and ks: "(k, s) \<in> set (edited_spans ly edit n)" and "m \<noteq> k"
  shows "apart r s"
proof -
  have n: "(n, r) \<notin> set (spans_of ly)" for r using placed_numbers [OF ok, of n r] fresh by blast
  note spans = spans_apart [OF ok]
  show ?thesis
  proof (cases command)
    case (CutUnsplit f stop title)
    then have "plan_cut ly f stop title = Inr edit" using plan by simp
    then obtain start place where edit: "se_ranges edit = []" "se_dropped edit = []" "se_new_range edit = Some (start, place)"
      and new: "\<And>m s. (m, s) \<in> set (spans_of ly) \<Longrightarrow> apart (start, place) s" using plan_cutD [OF ok] by metis
    from mr ks \<open>m \<noteq> k\<close> show ?thesis
      unfolding set_edited_spans edit map_of.simps option.case using spans new apart_sym [OF new] by auto
  next
    case (SplitEpisode episode offset f)
    then have "plan_split ly episode offset f = Inr edit" using plan by simp
    then obtain low pt high where edit: "se_ranges edit = [(episode, low, pt)]" "se_dropped edit = []" "se_new_range edit = Some (pt, high)"
      and old: "(episode, low, high) \<in> set (spans_of ly)" "low < pt" "pt < high" by (rule plan_splitD)
    have pieces: "apart (low, pt) s" "apart (pt, high) s" if "(m, s) \<in> set (spans_of ly)" "m \<noteq> episode" for m s
      using spans [OF old(1) that(1)] that(2) old(2,3) apart_inside [of low high s] by simp_all
    have halves: "apart (low, pt) (pt, high)" by (simp add: apart_def)
    from mr ks \<open>m \<noteq> k\<close> show ?thesis
      unfolding set_edited_spans edit using spans pieces apart_sym [OF pieces(1)] apart_sym [OF pieces(2)] halves apart_sym [OF halves] n
      by (auto split: if_splits)
  next
    case (MoveBoundary episode offset f)
    then have "plan_move ly episode offset f = Inr edit" using plan by simp
    then obtain low border pt high other where edit: "se_ranges edit = [(episode, low, pt), (other, pt, high)]" "se_dropped edit = []"
        "se_new_range edit = None"
      and old: "(episode, low, border) \<in> set (spans_of ly)" "(other, border, high) \<in> set (spans_of ly)" "episode \<noteq> other"
        "low < pt" "pt < high" "low \<le> border" "border < high" by (rule plan_moveD [OF ok])
    have both: "apart (low, high) s" if "(m, s) \<in> set (spans_of ly)" "m \<noteq> episode" "m \<noteq> other" for m s
      using apart_join [OF spans [OF old(1) that(1)] spans [OF old(2) that(1)] old(6,7)] that(2,3) by simp
    have pieces: "apart (low, pt) s" "apart (pt, high) s" if "(m, s) \<in> set (spans_of ly)" "m \<noteq> episode" "m \<noteq> other" for m s
      using both [OF that] old(4,5) apart_inside [of low high s] by simp_all
    have halves: "apart (low, pt) (pt, high)" by (simp add: apart_def)
    from mr ks \<open>m \<noteq> k\<close> show ?thesis
      unfolding set_edited_spans edit using spans pieces apart_sym [OF pieces(1)] apart_sym [OF pieces(2)] halves apart_sym [OF halves] old(3)
      by (auto split: if_splits)
  next
    case (MergeWithNext episode)
    then have "plan_merge env ly episode = Inr edit" using plan by simp
    then obtain low low' high high' other where edit: "se_ranges edit = [(episode, low, high')]" "se_dropped edit = [other]"
        "se_new_range edit = None"
      and beside: "\<And>m s. (m, s) \<in> set (spans_of ly) \<Longrightarrow> m \<noteq> episode \<Longrightarrow> m \<noteq> other \<Longrightarrow> snd s \<le> low \<or> high' \<le> fst s"
      using plan_mergeD [OF ok] by metis
    have merged: "apart (low, high') s" if "(m, s) \<in> set (spans_of ly)" "m \<noteq> episode" "m \<noteq> other" for m s
      using beside [OF that] by (auto simp: apart_def)
    from mr ks \<open>m \<noteq> k\<close> show ?thesis
      unfolding set_edited_spans edit using spans merged apart_sym [OF merged] by (auto split: if_splits)
  next
    case (ClearCutsAfter episode)
    then have "plan_clear_after ly episode = Inr edit" using plan by simp
    then obtain p where "se_ranges edit = []" "se_new_range edit = None" using plan_clearD by metis
    then show ?thesis using mr ks \<open>m \<noteq> k\<close> spans unfolding set_edited_spans by auto
  qed
qed

lemma plan_keeps_inside:
  assumes ok: "layout_ok ly" and plan: "plan_command env ly command = Inr edit" and mr: "(m, r) \<in> set (edited_spans ly edit n)"
  shows "0 \<le> fst r \<and> fst r \<le> snd r \<and> snd r \<le> total_length ly"
proof -
  have old: "0 \<le> fst r \<and> fst r \<le> snd r \<and> snd r \<le> total_length ly" if "(m, r) \<in> set (spans_of ly)" for m r
    using spans_sorted(2) [OF ok, of m "fst r" "snd r"] that by simp
  show ?thesis
  proof (cases command)
    case (CutUnsplit f stop title)
    then have "plan_cut ly f stop title = Inr edit" using plan by simp
    then obtain start place where "se_ranges edit = []" "se_dropped edit = []" "se_new_range edit = Some (start, place)"
      "0 \<le> start" "start < place" "place \<le> total_length ly" using plan_cutD [OF ok] by metis
    then show ?thesis using mr old unfolding set_edited_spans by auto
  next
    case (SplitEpisode episode offset f)
    then have "plan_split ly episode offset f = Inr edit" using plan by simp
    then obtain low pt high where edit: "se_ranges edit = [(episode, low, pt)]" "se_dropped edit = []" "se_new_range edit = Some (pt, high)"
      and span: "(episode, low, high) \<in> set (spans_of ly)" "low < pt" "pt < high" by (rule plan_splitD)
    show ?thesis using mr old [OF span(1)] span(2,3) old unfolding set_edited_spans edit by (auto split: if_splits)
  next
    case (MoveBoundary episode offset f)
    then have "plan_move ly episode offset f = Inr edit" using plan by simp
    then obtain low border pt high other where edit: "se_ranges edit = [(episode, low, pt), (other, pt, high)]" "se_dropped edit = []"
        "se_new_range edit = None"
      and spans: "(episode, low, border) \<in> set (spans_of ly)" "(other, border, high) \<in> set (spans_of ly)" "low < pt" "pt < high"
      by (rule plan_moveD [OF ok])
    show ?thesis using mr old [OF spans(1)] old [OF spans(2)] spans(3,4) old unfolding set_edited_spans edit by (auto split: if_splits)
  next
    case (MergeWithNext episode)
    then have "plan_merge env ly episode = Inr edit" using plan by simp
    then obtain low low' high high' other where edit: "se_ranges edit = [(episode, low, high')]" "se_dropped edit = [other]"
        "se_new_range edit = None"
      and spans: "(episode, low, high) \<in> set (spans_of ly)" "(other, low', high') \<in> set (spans_of ly)" "high \<le> low'"
      by (rule plan_mergeD [OF ok])
    show ?thesis using mr old [OF spans(1)] old [OF spans(2)] spans(3) old unfolding set_edited_spans edit by (auto split: if_splits)
  next
    case (ClearCutsAfter episode)
    then have "plan_clear_after ly episode = Inr edit" using plan by simp
    then obtain p where "se_ranges edit = []" "se_new_range edit = None" using plan_clearD by metis
    then show ?thesis using mr old unfolding set_edited_spans by auto
  qed
qed

lemma plan_good:
  assumes ok: "layout_ok ly" and plan: "plan_command env ly command = Inr edit"
    and fresh: "n \<notin> set (List.map_filter entry_num (ly_entries ly))"
  shows "disjoint_spans (edited_spans ly edit n)" "inside ly (edited_spans ly edit n)"
proof -
  show "disjoint_spans (edited_spans ly edit n)"
    by (rule disjoint_spansI [OF distinct_edited_spans [OF ok fresh]]) (rule plan_keeps_apart [OF ok plan fresh])
  show "inside ly (edited_spans ly edit n)"
    using plan_keeps_inside [OF ok plan, of _ _ n] by (fastforce simp: inside_def list_all_iff)
qed

text \<open>
  Whatever the project and the command are, a plan that is accepted never gives the same
  piece of the source to two episodes: the intervals of all episodes after it, the new one included, are
  disjoint, lie inside the source, and belong to different episodes.
\<close>

theorem plans_stay_disjoint:
  assumes "layout_of env project = Inr ly" "plan_command env ly command = Inr edit"
    and "n \<notin> set (List.map_filter entry_num (ly_entries ly))"
  shows "disjoint_spans (edited_spans ly edit n) \<and> inside ly (edited_spans ly edit n)"
  using plan_good [OF layout_of_ok(1) [OF assms(1)] assms(2,3)] by blast

section \<open>Covered text\<close>

lemma covers_iff: "covers spans pos \<longleftrightarrow> (\<exists>m a b. (m, a, b) \<in> set spans \<and> a \<le> pos \<and> pos < b)"
  by (auto simp: covers_def list_ex_iff)

lemma cut_covers:
  assumes ok: "layout_ok ly" and plan: "plan_cut ly f stop title = Inr edit"
  obtains start place where "se_new_range edit = Some (start, place)"
    "\<And>pos. covers (edited_spans ly edit n) pos \<longleftrightarrow> covers (spans_of ly) pos \<or> start \<le> pos \<and> pos < place"
    "\<And>pos. start \<le> pos \<Longrightarrow> pos < place \<Longrightarrow> \<not> covers (spans_of ly) pos"
proof -
  obtain start place where edit: "se_ranges edit = []" "se_dropped edit = []" "se_new_range edit = Some (start, place)"
    and new: "\<And>m s. (m, s) \<in> set (spans_of ly) \<Longrightarrow> apart (start, place) s" using plan_cutD [OF ok plan] by metis
  have "covers (edited_spans ly edit n) pos \<longleftrightarrow> covers (spans_of ly) pos \<or> start \<le> pos \<and> pos < place" for pos
    unfolding covers_iff set_edited_spans edit by auto
  moreover have "\<not> covers (spans_of ly) pos" if "start \<le> pos" "pos < place" for pos
    using new that by (fastforce simp: covers_iff apart_def)
  ultimately show thesis using that edit(3) by blast
qed

lemma split_covers:
  assumes ok: "layout_ok ly" and plan: "plan_split ly episode offset f = Inr edit"
  shows "covers (edited_spans ly edit n) pos \<longleftrightarrow> covers (spans_of ly) pos"
proof -
  obtain low pt high where edit: "se_ranges edit = [(episode, low, pt)]" "se_dropped edit = []" "se_new_range edit = Some (pt, high)"
    and old: "(episode, low, high) \<in> set (spans_of ly)" "low < pt" "pt < high" using plan by (rule plan_splitD)
  have mem: "(m, r) \<in> set (edited_spans ly edit n)
      \<longleftrightarrow> (m, r) \<in> set (spans_of ly) \<and> m \<noteq> episode \<or> (m, r) = (episode, low, pt) \<or> (m, r) = (n, pt, high)" for m r
    unfolding set_edited_spans edit using old(1) by (cases r) auto
  have only: "s = (low, high)" if "(episode, s) \<in> set (spans_of ly)" for s using span_unique [OF ok that old(1)] .
  have "covers (edited_spans ly edit n) pos \<longleftrightarrow>
      (\<exists>m a b. (m, a, b) \<in> set (spans_of ly) \<and> m \<noteq> episode \<and> a \<le> pos \<and> pos < b)
        \<or> (low \<le> pos \<and> pos < pt \<or> pt \<le> pos \<and> pos < high)"
    unfolding covers_iff mem by auto
  also have "low \<le> pos \<and> pos < pt \<or> pt \<le> pos \<and> pos < high \<longleftrightarrow> low \<le> pos \<and> pos < high" using old(2,3) by linarith
  also have "(\<exists>m a b. (m, a, b) \<in> set (spans_of ly) \<and> m \<noteq> episode \<and> a \<le> pos \<and> pos < b) \<or> low \<le> pos \<and> pos < high
      \<longleftrightarrow> covers (spans_of ly) pos" unfolding covers_iff using only old(1) by (metis Pair_inject)
  finally show ?thesis .
qed

lemma move_covers:
  assumes ok: "layout_ok ly" and plan: "plan_move ly episode offset f = Inr edit"
  shows "covers (edited_spans ly edit n) pos \<longleftrightarrow> covers (spans_of ly) pos"
proof -
  obtain low border pt high other where edit: "se_ranges edit = [(episode, low, pt), (other, pt, high)]" "se_dropped edit = []"
      "se_new_range edit = None"
    and old: "(episode, low, border) \<in> set (spans_of ly)" "(other, border, high) \<in> set (spans_of ly)" "episode \<noteq> other"
      "low < pt" "pt < high" "low \<le> border" "border < high" using plan by (rule plan_moveD [OF ok])
  have mem: "(m, r) \<in> set (edited_spans ly edit n)
      \<longleftrightarrow> (m, r) \<in> set (spans_of ly) \<and> m \<noteq> episode \<and> m \<noteq> other \<or> (m, r) = (episode, low, pt) \<or> (m, r) = (other, pt, high)" for m r
    unfolding set_edited_spans edit using old(1,2,3) by (cases r) auto
  have only: "(episode, s) \<in> set (spans_of ly) \<Longrightarrow> s = (low, border)" "(other, s) \<in> set (spans_of ly) \<Longrightarrow> s = (border, high)" for s
    using span_unique [OF ok _ old(1)] span_unique [OF ok _ old(2)] by blast+
  have "covers (edited_spans ly edit n) pos \<longleftrightarrow>
      (\<exists>m a b. (m, a, b) \<in> set (spans_of ly) \<and> m \<noteq> episode \<and> m \<noteq> other \<and> a \<le> pos \<and> pos < b)
        \<or> (low \<le> pos \<and> pos < pt \<or> pt \<le> pos \<and> pos < high)"
    unfolding covers_iff mem by auto
  also have "low \<le> pos \<and> pos < pt \<or> pt \<le> pos \<and> pos < high
      \<longleftrightarrow> low \<le> pos \<and> pos < border \<or> border \<le> pos \<and> pos < high" using old(4-7) by linarith
  also have "(\<exists>m a b. (m, a, b) \<in> set (spans_of ly) \<and> m \<noteq> episode \<and> m \<noteq> other \<and> a \<le> pos \<and> pos < b)
        \<or> (low \<le> pos \<and> pos < border \<or> border \<le> pos \<and> pos < high) \<longleftrightarrow> covers (spans_of ly) pos"
    unfolding covers_iff using old(1,2) by (blast dest: only)
  finally show ?thesis .
qed

lemma merge_covers:
  assumes ok: "layout_ok ly" and plan: "plan_merge env ly episode = Inr edit"
  obtains low high low' high' other where "se_dropped edit = [other]"
    "(episode, low, high) \<in> set (spans_of ly)" "(other, low', high') \<in> set (spans_of ly)"
    "\<And>pos. covers (edited_spans ly edit n) pos \<longleftrightarrow> covers (spans_of ly) pos \<or> high \<le> pos \<and> pos < low'"
proof -
  obtain low low' high high' other where edit: "se_ranges edit = [(episode, low, high')]" "se_dropped edit = [other]"
      "se_new_range edit = None"
    and old: "(episode, low, high) \<in> set (spans_of ly)" "(other, low', high') \<in> set (spans_of ly)" "episode \<noteq> other"
      "low \<le> high" "high \<le> low'" "low' \<le> high'" using plan by (rule plan_mergeD [OF ok])
  have mem: "(m, r) \<in> set (edited_spans ly edit n)
      \<longleftrightarrow> (m, r) \<in> set (spans_of ly) \<and> m \<noteq> episode \<and> m \<noteq> other \<or> (m, r) = (episode, low, high')" for m r
    unfolding set_edited_spans edit using old(1,3) by (cases r) auto
  have only: "(episode, s) \<in> set (spans_of ly) \<Longrightarrow> s = (low, high)" "(other, s) \<in> set (spans_of ly) \<Longrightarrow> s = (low', high')" for s
    using span_unique [OF ok _ old(1)] span_unique [OF ok _ old(2)] by blast+
  have "covers (edited_spans ly edit n) pos \<longleftrightarrow> covers (spans_of ly) pos \<or> high \<le> pos \<and> pos < low'" for pos
  proof -
    have "covers (edited_spans ly edit n) pos \<longleftrightarrow>
        (\<exists>m a b. (m, a, b) \<in> set (spans_of ly) \<and> m \<noteq> episode \<and> m \<noteq> other \<and> a \<le> pos \<and> pos < b) \<or> low \<le> pos \<and> pos < high'"
      unfolding covers_iff mem by (metis Pair_inject)
    also have "low \<le> pos \<and> pos < high' \<longleftrightarrow> (low \<le> pos \<and> pos < high \<or> low' \<le> pos \<and> pos < high') \<or> high \<le> pos \<and> pos < low'"
      using old(4-6) by linarith
    also have "(\<exists>m a b. (m, a, b) \<in> set (spans_of ly) \<and> m \<noteq> episode \<and> m \<noteq> other \<and> a \<le> pos \<and> pos < b)
          \<or> ((low \<le> pos \<and> pos < high \<or> low' \<le> pos \<and> pos < high') \<or> high \<le> pos \<and> pos < low')
        \<longleftrightarrow> covers (spans_of ly) pos \<or> high \<le> pos \<and> pos < low'"
      unfolding covers_iff using only old(1,2) by (metis Pair_inject)
    finally show ?thesis .
  qed
  then show thesis using that edit(2) old(1,2) by blast
qed

lemma clear_covers:
  assumes ok: "layout_ok ly" and plan: "plan_clear_after ly episode = Inr edit"
  obtains low high where "(episode, low, high) \<in> set (spans_of ly)"
    "\<And>pos. low < high \<Longrightarrow> covers (edited_spans ly edit n) pos \<longleftrightarrow> covers (spans_of ly) pos \<and> pos < high"
proof -
  obtain p where edit: "se_ranges edit = []" "se_new_range edit = None" and p: "placement_of ly episode = Inr p"
    and dropped: "\<And>m. m \<in> set (se_dropped edit) \<longleftrightarrow> m \<in> set (List.map_filter entry_num (ly_entries ly))
       \<and> (\<exists>q \<in> set (ly_placements ly). cp_episode q = m \<and> cp_position p < cp_position q)"
    using plan_clearD [OF plan] by metis
  obtain low high where span: "ly_span ly p = (low, high)" by fastforce
  have own: "(episode, low, high) \<in> set (spans_of ly)" "p \<in> set (ly_placements ly)" using placement_ofD(2,4) [OF p] span by simp_all
  have facts: "\<forall>p \<in> set (ly_placements ly). placed_in (ly_docs ly) p" "distinct (map cp_episode (ly_placements ly))"
    "in_order (ly_placements ly)" using ok by (auto simp: layout_ok_def list_all_iff)
  have mem: "(m, r) \<in> set (edited_spans ly edit n) \<longleftrightarrow> (m, r) \<in> set (spans_of ly) \<and> m \<notin> set (se_dropped edit)" for m r
    unfolding set_edited_spans edit by (cases r) auto
  have side: "if m \<in> set (se_dropped edit) then high \<le> fst r else snd r \<le> high"
    if mr: "(m, r) \<in> set (spans_of ly)" and filled: "low < high" for m r
  proof -
    obtain q where q: "q \<in> set (ly_placements ly)" "cp_episode q = m" "ly_span ly q = r" using mr by (auto simp: spans_of_def)
    have unique: "q' = q" if "q' \<in> set (ly_placements ly)" "cp_episode q' = m" for q'
      using facts(2) q that by (auto simp: distinct_map inj_on_def)
    have iff: "m \<in> set (se_dropped edit) \<longleftrightarrow> cp_position p < cp_position q"
      unfolding dropped using unique q placed_numbers [OF ok mr] by blast
    obtain i where i: "i < length (ly_placements ly)" "ly_placements ly ! i = p" using own(2) by (metis in_set_conv_nth)
    obtain j where j: "j < length (ly_placements ly)" "ly_placements ly ! j = q" using q(1) by (metis in_set_conv_nth)
    have sorted: "\<And>i j. i < j \<Longrightarrow> j < length (ly_placements ly) \<Longrightarrow> cp_end_position (ly_placements ly ! i) \<le> cp_position (ly_placements ly ! j)"
      using facts(3) by (auto simp: in_order_def sorted_wrt_iff_nth_less)
    have placed: "placed_in (ly_docs ly) p" "placed_in (ly_docs ly) q" using facts(1) own(2) q(1) by blast+
    then have order: "cp_position p \<le> cp_end_position p" "cp_position q \<le> cp_end_position q" by (simp_all add: placed_in_def)
    consider "i = j" | "i < j" | "j < i" by linarith
    then show ?thesis
    proof cases
      case 1
      then have "r = (low, high)" using i(2) j(2) span q(3) by simp
      moreover have "q = p" using 1 i(2) j(2) by simp
      ultimately show ?thesis using iff by simp
    next
      case 2
      then have after: "cp_end_position p \<le> cp_position q" using sorted [of i j] i j by simp
      then have "high \<le> fst r" using placed_order [OF placed] span q(3) by simp
      moreover have "cp_position p \<noteq> cp_end_position p" using filled span by (auto simp: cp_position_def cp_end_position_def ly_span_def)
      then have "cp_position p < cp_position q" using order(1) after by simp
      ultimately show ?thesis using iff by simp
    next
      case 3
      then have earlier: "cp_end_position q \<le> cp_position p" using sorted [of j i] i j by simp
      then have "snd r \<le> low" using placed_order [OF placed(2,1)] span q(3) by simp
      moreover have "\<not> cp_position p < cp_position q" using earlier order(2) by (meson leD order_trans)
      ultimately show ?thesis using iff filled by simp
    qed
  qed
  have "covers (edited_spans ly edit n) pos \<longleftrightarrow> covers (spans_of ly) pos \<and> pos < high" if "low < high" for pos
    unfolding covers_iff mem using side [OF _ that] by (smt (verit, best) fst_conv snd_conv)
  then show thesis using that own(1) by blast
qed

text \<open>
  Property C18: which text belongs to an episode after a command.  A cut adds the text of the new
  episode, none of which belonged to an episode; splitting an episode and moving a border neither add
  nor lose a character; a merge adds exactly the gap between the two episodes; clearing after
  an episode that is not empty keeps exactly what was covered up to its end.
\<close>

theorem plans_cover:
  assumes "layout_of env project = Inr ly" "plan_command env ly command = Inr edit"
  shows "case command of
      CutUnsplit f stop title \<Rightarrow> (\<exists>start place. se_new_range edit = Some (start, place)
        \<and> (covers (edited_spans ly edit n) pos \<longleftrightarrow> covers (spans_of ly) pos \<or> start \<le> pos \<and> pos < place)
        \<and> \<not> (covers (spans_of ly) pos \<and> start \<le> pos \<and> pos < place))
    | SplitEpisode episode offset f \<Rightarrow> covers (edited_spans ly edit n) pos = covers (spans_of ly) pos
    | MoveBoundary episode offset f \<Rightarrow> covers (edited_spans ly edit n) pos = covers (spans_of ly) pos
    | MergeWithNext episode \<Rightarrow> (\<exists>low high low' high' other. se_dropped edit = [other]
        \<and> (episode, low, high) \<in> set (spans_of ly) \<and> (other, low', high') \<in> set (spans_of ly)
        \<and> (covers (edited_spans ly edit n) pos \<longleftrightarrow> covers (spans_of ly) pos \<or> high \<le> pos \<and> pos < low'))
    | ClearCutsAfter episode \<Rightarrow> (\<exists>low high. (episode, low, high) \<in> set (spans_of ly)
        \<and> (low < high \<longrightarrow> (covers (edited_spans ly edit n) pos \<longleftrightarrow> covers (spans_of ly) pos \<and> pos < high)))"
proof -
  note ok = layout_of_ok(1) [OF assms(1)]
  show ?thesis
  proof (cases command)
    case (CutUnsplit f stop title)
    with assms(2) have "plan_cut ly f stop title = Inr edit" by simp
    from cut_covers [OF ok this, of n] show ?thesis unfolding CutUnsplit split_command.case by metis
  next
    case (SplitEpisode episode offset f)
    then show ?thesis using assms(2) split_covers [OF ok] by simp
  next
    case (MoveBoundary episode offset f)
    then show ?thesis using assms(2) move_covers [OF ok] by simp
  next
    case (MergeWithNext episode)
    with assms(2) have "plan_merge env ly episode = Inr edit" by simp
    from merge_covers [OF ok this, of n] show ?thesis unfolding MergeWithNext split_command.case by metis
  next
    case (ClearCutsAfter episode)
    with assms(2) have "plan_clear_after ly episode = Inr edit" by simp
    from clear_covers [OF ok this, of n] show ?thesis unfolding ClearCutsAfter split_command.case by metis
  qed
qed

end
