(* ===== verification/SplitRuns.thy ===== *)
theory SplitRuns
  imports SplitProps
begin

text \<open>
  Running a manual split: laid out again after the command, the ledger has exactly the intervals of the
  plan, and the file of every episode holds the text of its interval.
\<close>

section \<open>Positions written back and read again\<close>

lemma upt_find_unique:
  assumes "i < n" "P i" "\<And>j. j < n \<Longrightarrow> P j \<Longrightarrow> j = i"
  shows "find P [0..<n] = Some i"
proof -
  have "find P [0..<n] \<noteq> None" using assms(1,2) by (auto simp: find_None_iff)
  then obtain j where "find P [0..<n] = Some j" by blast
  then show ?thesis using find_SomeE [of P "[0..<n]" j] assms(3) by auto
qed

lemma file_at:
  assumes "0 \<le> pos" "pos < total_length ly"
  obtains i where "i < length (ly_docs ly)" "ly_bases ly ! i \<le> pos" "pos < ly_bases ly ! Suc i"
proof -
  have "\<exists>i < n. ly_bases ly ! i \<le> pos \<and> pos < ly_bases ly ! Suc i" if "pos < ly_bases ly ! n" "n \<le> length (ly_docs ly)" for n
    using that
  proof (induction n)
    case (Suc n)
    then show ?case by (cases "pos < ly_bases ly ! n") (auto simp: not_less intro: less_SucI)
  qed (use assms(1) ly_bases_first in simp)
  then show thesis using that assms(2) total_length_bases by (metis order_refl)
qed

lemma start_point_at:
  assumes "0 \<le> pos" "pos < total_length ly"
  obtains i a where "i < length (ly_docs ly)" "0 \<le> a" "a < text_length (ly_docs ly ! i)" "ly_bases ly ! i + a = pos"
    "start_point ly pos = (sd_rel_path (ly_docs ly ! i), a)"
proof -
  obtain i where i: "i < length (ly_docs ly)" "ly_bases ly ! i \<le> pos" "pos < ly_bases ly ! Suc i" using file_at [OF assms] .
  have "j = i" if j: "j < length (ly_docs ly)" "ly_bases ly ! j \<le> pos \<and> pos < ly_bases ly ! Suc j" for j
  proof (cases i j rule: linorder_cases)
    case less
    then show ?thesis using ly_bases_mono [of "Suc i" j ly] j i by simp
  next
    case greater
    then show ?thesis using ly_bases_mono [of "Suc j" i ly] j i by simp
  qed simp
  with i have "find (\<lambda>j. ly_bases ly ! j \<le> pos \<and> pos < ly_bases ly ! Suc j) [0..<length (ly_docs ly)] = Some i"
    by (intro upt_find_unique) blast+
  then show thesis using that [of i "pos - ly_bases ly ! i"] i ly_bases_Suc [OF i(1)] by (simp add: start_point_def)
qed

lemma end_point_at:
  assumes "0 < pos" "pos \<le> total_length ly"
  obtains i b where "i < length (ly_docs ly)" "0 < b" "b \<le> text_length (ly_docs ly ! i)" "ly_bases ly ! i + b = pos"
    "end_point ly pos = (sd_rel_path (ly_docs ly ! i), b)"
proof -
  obtain i where i: "i < length (ly_docs ly)" "ly_bases ly ! i < pos" "pos \<le> ly_bases ly ! Suc i"
    
  proof -
    have "0 \<le> pos - 1" "pos - 1 < total_length ly" using assms by simp_all
    then obtain i where "i < length (ly_docs ly)" "ly_bases ly ! i \<le> pos - 1" "pos - 1 < ly_bases ly ! Suc i" by (rule file_at)
    then show thesis using that [of i] by simp
  qed
  have "j = i" if j: "j < length (ly_docs ly)" "ly_bases ly ! j < pos \<and> pos \<le> ly_bases ly ! Suc j" for j
  proof (cases i j rule: linorder_cases)
    case less
    then show ?thesis using ly_bases_mono [of "Suc i" j ly] j i by simp
  next
    case greater
    then show ?thesis using ly_bases_mono [of "Suc j" i ly] j i by simp
  qed simp
  with i have "find (\<lambda>j. ly_bases ly ! j < pos \<and> pos \<le> ly_bases ly ! Suc j) [0..<length (ly_docs ly)] = Some i"
    by (intro upt_find_unique) blast+
  then show thesis using that [of i "pos - ly_bases ly ! i"] i ly_bases_Suc [OF i(1)] by (simp add: end_point_def)
qed

text \<open>No two files have the same normal form\<close>

definition distinct_files :: "split_env \<Rightarrow> source_doc list \<Rightarrow> bool" where
  "distinct_files env docs = distinct (map (\<lambda>d. env_nfc env (sd_rel_path d)) docs)"

lemma order_index_nth:
  assumes "distinct_files env docs" "i < length docs"
  shows "order_index (env_nfc env) docs (sd_rel_path (docs ! i)) = Some i"
proof -
  let ?xs = "zip (map (\<lambda>d. env_nfc env (sd_rel_path d)) docs) [0..<length docs]"
  have "map fst ?xs = map (\<lambda>d. env_nfc env (sd_rel_path d)) docs" by (rule map_fst_zip) simp
  then have keys: "distinct (map fst (rev ?xs))" using assms(1) by (simp add: distinct_files_def rev_map [symmetric])
  have "(env_nfc env (sd_rel_path (docs ! i)), i) \<in> set (rev ?xs)" using assms(2) by (auto simp: in_set_zip intro!: exI [of _ i])
  then show ?thesis using map_of_is_SomeI [OF keys] by (simp add: order_index_def)
qed

text \<open>An entry that holds an interval is placed there\<close>

lemma candidate_of_range:
  assumes "distinct_files env (ly_docs ly)" "0 \<le> a" "a < b" "b \<le> total_length ly"
    and "get e ''source_range'' = range_value ly (a, b)" "entry_num e = Some m" "is_cut_episode e"
  obtains p where "cut_candidate (env_nfc env) (ly_docs ly) e = Some p" "cp_episode p = m" "ly_span ly p = (a, b)"
    "cp_start p < text_length (ly_docs ly ! cp_file_index p)" "0 < cp_end p"
proof -
  have "a < total_length ly" using assms by simp
  with assms(2) obtain i x where i: "i < length (ly_docs ly)" "0 \<le> x" "x < text_length (ly_docs ly ! i)" "ly_bases ly ! i + x = a"
    "start_point ly a = (sd_rel_path (ly_docs ly ! i), x)" by (rule start_point_at)
  have "0 < b" using assms by simp
  then obtain j y where j: "j < length (ly_docs ly)" "0 < y" "y \<le> text_length (ly_docs ly ! j)" "ly_bases ly ! j + y = b"
    "end_point ly b = (sd_rel_path (ly_docs ly ! j), y)" using assms(4) by (rule end_point_at)
  have range: "parse_source_range e = Some \<lparr>sp_source_file = sd_rel_path (ly_docs ly ! i), sp_start = x,
      sp_end_file = sd_rel_path (ly_docs ly ! j), sp_end = y\<rparr>"
    using assms(5) by (intro parse_range_value) (simp add: range_value_def i(5) j(5))
  have "i \<le> j"
  proof (rule ccontr)
    assume "\<not> i \<le> j"
    then show False using ly_bases_mono [of "Suc j" i ly] ly_bases_Suc [OF j(1)] i j assms(3) by simp
  qed
  moreover have "\<not> (i = j \<and> y < x)" using i(4) j(4) assms(3) by auto
  ultimately have candidate: "cut_candidate (env_nfc env) (ly_docs ly) e
      = Some \<lparr>cp_episode = m, cp_file_index = i, cp_start = x, cp_end_file_index = j, cp_end = y\<rparr>"
    using i(1-3) j(1-3) assms(6,7) by (simp add: cut_candidate_def range order_index_nth [OF assms(1)])
  show thesis using i j by (intro that [OF candidate]) (simp_all add: ly_span_def)
qed

text \<open>Intervals that follow each other belong to placements that do, when a border is in normal form\<close>

lemma normal_before:
  assumes "placed_in (ly_docs ly) p" "placed_in (ly_docs ly) q" "snd (ly_span ly p) \<le> fst (ly_span ly q)"
    and "0 < cp_end p \<or> cp_start q < text_length (ly_docs ly ! cp_file_index q)"
  shows "cp_end_position p \<le> cp_position q"
proof -
  have p: "cp_end_file_index p < length (ly_docs ly)" "0 \<le> cp_end p" "cp_end p \<le> text_length (ly_docs ly ! cp_end_file_index p)"
    using assms(1) by (auto simp: placed_in_def)
  have q: "cp_file_index q \<le> cp_end_file_index q" "cp_end_file_index q < length (ly_docs ly)" "0 \<le> cp_start q"
      "cp_start q \<le> text_length (ly_docs ly ! cp_file_index q)"
    using assms(2) by (auto simp: placed_in_def cp_position_def cp_end_position_def)
  have le: "ly_bases ly ! cp_end_file_index p + cp_end p \<le> ly_bases ly ! cp_file_index q + cp_start q"
    using assms(3) by (simp add: ly_span_def)
  consider "cp_end_file_index p < cp_file_index q" | "cp_end_file_index p = cp_file_index q" | "cp_file_index q < cp_end_file_index p"
    by linarith
  then show ?thesis
  proof cases
    case 3
    then have "ly_bases ly ! cp_file_index q + text_length (ly_docs ly ! cp_file_index q) \<le> ly_bases ly ! cp_end_file_index p"
      using ly_bases_mono [of "Suc (cp_file_index q)" "cp_end_file_index p" ly] ly_bases_Suc [of "cp_file_index q" ly] p(1) by simp
    then show ?thesis using le p(2) q(4) assms(4) by linarith
  qed (use le in \<open>auto simp: cp_end_position_def cp_position_def\<close>)
qed

section \<open>Placing every candidate\<close>

lemma place_all:
  assumes "distinct (map cp_episode ps)" "\<And>p. p \<in> set ps \<Longrightarrow> placed_in docs p"
    and "\<And>p q. p \<in> set ps \<Longrightarrow> q \<in> set ps \<Longrightarrow> p \<noteq> q \<Longrightarrow> separate p q"
  shows "place_from (0, 0) [] (sort_key (\<lambda>p. (cp_position p, cp_end_position p)) ps)
    = sort_key (\<lambda>p. (cp_position p, cp_end_position p)) ps"
proof (rule place_from_all)
  let ?ps = "sort_key (\<lambda>p. (cp_position p, cp_end_position p)) ps"
  show "sorted (map (\<lambda>p. (cp_position p, cp_end_position p)) ?ps)" by simp
  show "\<forall>p \<in> set ?ps. cp_position p \<le> cp_end_position p \<and> (0, 0) \<le> cp_position p"
    using assms(2) by (auto simp: placed_in_def cp_position_def)
  show "distinct (map cp_episode ?ps)" using assms(1) by (simp add: distinct_map)
qed (use assms(3) in auto)

section \<open>What applying an edit writes\<close>

definition edited_entries ::
  "split_env \<Rightarrow> mapping \<Rightarrow> mapping \<Rightarrow> split_layout \<Rightarrow> split_edit \<Rightarrow> split_impact \<Rightarrow> int \<Rightarrow> mapping list" where
  "edited_entries env before1 after1 ly edit impact n =
     (let es = map (ranged_entry env before1 ly edit impact) (ly_entries ly);
          es = (case se_new_range edit of
             Some r \<Rightarrow> insert_at (se_insert_before edit) (new_entry env after1 ly n (se_new_title edit) r) es | None \<Rightarrow> es)
      in filter (\<lambda>e. \<not> (case entry_num e of Some m \<Rightarrow> m \<in> set (se_dropped edit) | None \<Rightarrow> False)) es
         @ List.map_filter (\<lambda>m. if m \<in> set (si_retired impact)
            then map_option (retired_entry env after1 m) (find (\<lambda>e. entry_num e = Some m) es) else None) (se_dropped edit))"

definition edited_files :: "split_layout \<Rightarrow> split_edit \<Rightarrow> int \<Rightarrow> (int \<times> utext) list \<Rightarrow> (int \<times> utext) list" where
  "edited_files ly edit n files =
     fold dict_pop (se_dropped edit)
       ((case se_new_range edit of Some r \<Rightarrow> dict_set n (global_text ly r) | None \<Rightarrow> (\<lambda>d. d))
         (fold (\<lambda>(n, r). dict_set n (global_text ly r)) (se_ranges edit) files))"

text \<open>Where two projects may differ\<close>

definition same_but :: "string list \<Rightarrow> mapping \<Rightarrow> mapping \<Rightarrow> bool" where
  "same_but ks p q = (\<forall>k. k \<notin> set ks \<longrightarrow> get q k = get p k)"

lemma same_but_trans: "same_but ks p q \<Longrightarrow> same_but ks q r \<Longrightarrow> same_but ks p r"
  by (simp add: same_but_def)

lemma same_but_put: "k \<in> set ks \<Longrightarrow> same_but ks p (put k v p)"
  by (auto simp: same_but_def)

lemma same_but_mono: "same_but ks p q \<Longrightarrow> set ks \<subseteq> set ks' \<Longrightarrow> same_but ks' p q"
  by (auto simp: same_but_def)

lemma same_entries: "same_but ks p q \<Longrightarrow> ''episodes'' \<notin> set ks \<Longrightarrow> entries q = entries p"
  by (simp add: same_but_def entries_def)

lemma raise_same: "same_but [''episode_id_high_water''] p (raise_episode_id_high_water p ns)"
  by (simp add: raise_episode_id_high_water_def Let_def same_but_def)

lemma allocate_same: "allocate_episode_ids p k = (ids, p') \<Longrightarrow> same_but [''episode_id_high_water''] p p'"
  using raise_same [of p] by (auto simp: allocate_episode_ids_def Let_def same_but_def split: if_splits)

lemma check_fingerprintsD:
  assumes "check_fingerprints env st docs = Inr st'"
  shows "same_but [''source_fingerprints''] (st_project st) (st_project st')" "st_derived st' = st_derived st"
  using assms by (auto simp: check_fingerprints_def same_but_def split: if_splits)

lemma apply_editD:
  assumes "apply_edit env st ly edit impact = Inr (new_episode, st')"
  obtains p1 p2 where "same_but [''source_fingerprints'', ''episodes'', ''episode_id_high_water''] (st_project st) (st_project st')"
    "new_episode = (if se_new_range edit = None then None else Some (episode_id_high_water (st_project st) + 1))"
    "get (st_project st') ''episodes''
       = JList (map JDict (edited_entries env p1 p2 ly edit impact (episode_id_high_water (st_project st) + 1)))"
    "st_derived st' = edited_files ly edit (episode_id_high_water (st_project st) + 1) (st_derived st)"
proof -
  obtain st1 where st1: "(if se_touches_source edit then check_fingerprints env st (touched_docs ly edit) else Inr st) = Inr st1"
    using assms by (auto simp: apply_edit_def ebind_eq_Inr)
  have fp: "same_but [''source_fingerprints''] (st_project st) (st_project st1)" "st_derived st1 = st_derived st"
    using st1 check_fingerprintsD [of env st _ st1] by (auto simp: same_but_def split: if_splits)
  define n where "n = episode_id_high_water (st_project st) + 1"
  have "entries (st_project st1) = entries (st_project st)" by (rule same_entries [OF fp(1)]) simp
  moreover have "get (st_project st1) ''episode_id_high_water'' = get (st_project st) ''episode_id_high_water''"
    using fp(1) by (simp add: same_but_def)
  ultimately have n: "n = episode_id_high_water (st_project st1) + 1"
    by (simp add: n_def episode_id_high_water_def ledger_episode_ids_def stored_high_water_def)
  obtain ids p2 where alloc: "(case se_new_range edit of Some r \<Rightarrow> allocate_episode_ids (st_project st1) 1 | None \<Rightarrow> ([], st_project st1)) = (ids, p2)"
    by fastforce
  have p2: "same_but [''episode_id_high_water''] (st_project st1) p2"
    using alloc allocate_same [of "st_project st1" 1 ids p2] by (auto simp: same_but_def split: option.splits)
  have ids: "ids = (if se_new_range edit = None then [] else [n])"
    using alloc allocate_result(1) [of "st_project st1" 1 ids p2] n by (auto split: option.splits)
  define es where "es = edited_entries env (st_project st1) p2 ly edit impact n"
  have result: "new_episode = (if se_new_range edit = None then None else Some n)
      \<and> st' = sync_source_snapshots env (st1\<lparr>st_project := put ''episodes'' (JList (map JDict es)) p2,
          st_derived := edited_files ly edit n (st_derived st1)\<rparr>) (ly_docs ly) (Some [])"
  proof (cases "se_new_range edit")
    case None
    have p2: "ids = []" "p2 = st_project st1" using alloc by (simp_all add: None)
    show ?thesis
      using assms unfolding apply_edit_def st1 ebind_Inr Let_def es_def edited_entries_def edited_files_def None option.case
        prod.case list.case p2
      by (auto split: if_splits)
  next
    case (Some r)
    have alloc: "allocate_episode_ids (st_project st1) 1 = (ids, p2)" using alloc by (simp add: Some)
    have ids: "ids = [n]" using ids by (simp add: Some)
    show ?thesis
      using assms unfolding apply_edit_def st1 ebind_Inr Let_def es_def edited_entries_def edited_files_def Some option.case alloc
        prod.case ids list.case
      by (auto split: if_splits)
  qed
  have project: "st_project st' = put ''episodes'' (JList (map JDict es)) p2" using result by (simp add: sync_source_snapshots_def Let_def)
  have "same_but [''source_fingerprints'', ''episodes'', ''episode_id_high_water''] (st_project st) (st_project st')"
    using fp(1) p2 by (simp add: same_but_def project)
  moreover have "st_derived st' = edited_files ly edit n (st_derived st)"
    using result fp(2) by (simp add: sync_source_snapshots_def Let_def)
  moreover have "get (st_project st') ''episodes'' = JList (map JDict es)" by (simp add: project)
  ultimately show thesis using that [of "st_project st1" p2] result by (simp add: es_def n_def)
qed

section \<open>Entries\<close>

lemma get_mark_stale: "k \<noteq> ''ledger_status'' \<Longrightarrow> k \<noteq> ''stale_script_plan_revision'' \<Longrightarrow> k \<noteq> ''stale_script_plan_rebuilt_revision''
    \<Longrightarrow> get (mark_ledger_stale env project n e) k = get e k"
  by (simp add: mark_ledger_stale_def)

lemma entry_num_stale: "entry_num (mark_ledger_stale env project n e) = entry_num e"
  by (rule entry_num_cong) (simp add: get_mark_stale)

lemma entry_num_put: "k \<noteq> ''episode'' \<Longrightarrow> entry_num (put k v e) = entry_num e"
  by (rule entry_num_cong) simp

lemma entry_num_ranged: "entry_num (ranged_entry env project ly edit impact e) = entry_num e"
  by (simp add: ranged_entry_def Let_def entry_num_stale entry_num_put split: option.split)

lemma ranged_other: "entry_num e = Some m \<Longrightarrow> map_of (se_ranges edit) m = None \<Longrightarrow> ranged_entry env project ly edit impact e = e"
  by (simp add: ranged_entry_def)

lemma ranged_range:
  assumes "entry_num e = Some m" "map_of (se_ranges edit) m = Some r"
  shows "get (ranged_entry env project ly edit impact e) ''source_range'' = range_value ly r"
    and "get e ''source_range'' \<noteq> JNull \<Longrightarrow> is_cut_episode (ranged_entry env project ly edit impact e) = is_cut_episode e"
proof -
  show range: "get (ranged_entry env project ly edit impact e) ''source_range'' = range_value ly r"
    using assms by (simp add: ranged_entry_def Let_def get_mark_stale)
  have origin: "get (ranged_entry env project ly edit impact e) ''source_origin'' = get e ''source_origin''"
    using assms by (simp add: ranged_entry_def Let_def get_mark_stale)
  have "range_value ly r \<noteq> JNull" by (cases r) (simp add: range_value_def source_range_value_def split: prod.splits)
  then show "get e ''source_range'' \<noteq> JNull \<Longrightarrow> is_cut_episode (ranged_entry env project ly edit impact e) = is_cut_episode e"
    by (simp add: is_cut_episode_def episode_source_origin_def Let_def origin range)
qed

lemma entry_num_retired: "entry_num (retired_entry env project n e) = entry_num e"
  by (auto simp: retired_entry_def get_mark_stale intro!: entry_num_cong)

lemma retired_not_cut: "\<not> is_cut_episode (retired_entry env project n e)"
proof -
  have "get (retired_entry env project n e) ''source_origin'' = JText (origin_value NoSource)"
    by (simp add: retired_entry_def get_mark_stale)
  moreover have "find (\<lambda>origin. origin_value origin = origin_value NoSource) [WholeSource, OwnSource, NoSource] = Some NoSource"
    by (simp add: origin_value_def codes_def)
  ultimately show ?thesis by (simp add: is_cut_episode_def episode_source_origin_def Let_def)
qed

lemma new_entry_facts:
  assumes "0 < n"
  shows "entry_num (new_entry env project ly n title r) = Some n" "is_cut_episode (new_entry env project ly n title r)"
    "get (new_entry env project ly n title r) ''source_range'' = range_value ly r"
proof -
  let ?e = "new_entry env project ly n title r"
  have gets: "get ?e ''episode'' = JInt n" "get ?e ''source_origin'' = JText (origin_value WholeSource)"
    "get ?e ''source_range'' = range_value ly r"
    unfolding new_entry_def Let_def by (simp_all add: get_mark_stale) (simp_all add: get_def)
  then show "entry_num ?e = Some n" "get ?e ''source_range'' = range_value ly r"
    using assms by (simp_all add: entry_num_def parse_positive_episode_num_def parse_episode_num_def)
  show "is_cut_episode ?e" using gets by (simp add: is_cut_episode_def episode_source_origin_def Let_def)
qed

section \<open>Laying out again\<close>

text \<open>
  A layout that the ledger describes as a whole: every entry that could be placed is, no episode is
  empty, and no two files have the same name.
\<close>

definition whole_layout :: "split_env \<Rightarrow> split_layout \<Rightarrow> bool" where
  "whole_layout env ly = (layout_ok ly \<and> distinct_files env (ly_docs ly)
     \<and> list_all (\<lambda>e. case cut_candidate (env_nfc env) (ly_docs ly) e of Some p \<Rightarrow> p \<in> set (ly_placements ly) | None \<Rightarrow> True) (ly_entries ly)
     \<and> list_all (\<lambda>p. list_ex (\<lambda>e. cut_candidate (env_nfc env) (ly_docs ly) e = Some p) (ly_entries ly)) (ly_placements ly)
     \<and> list_all (\<lambda>(m, a, b). a < b) (spans_of ly))"

text \<open>An edit that can be written: what it changes is placed, and its intervals are fit to be placed\<close>

definition edit_good :: "split_layout \<Rightarrow> split_edit \<Rightarrow> int \<Rightarrow> bool" where
  "edit_good ly edit n = (distinct (map fst (se_ranges edit)) \<and> distinct (se_dropped edit)
     \<and> list_all (\<lambda>(m, r). m \<in> fst ` set (spans_of ly) \<and> m \<notin> set (se_dropped edit)) (se_ranges edit)
     \<and> set (se_dropped edit) \<subseteq> fst ` set (spans_of ly)
     \<and> disjoint_spans (edited_spans ly edit n) \<and> inside ly (edited_spans ly edit n)
     \<and> list_all (\<lambda>(m, a, b). a < b) (edited_spans ly edit n)
     \<and> 0 < n \<and> n \<notin> set (List.map_filter entry_num (ly_entries ly)))"

text \<open>Where an entry is placed after the edit\<close>

definition normal :: "split_layout \<Rightarrow> cut_placement \<Rightarrow> bool" where
  "normal ly p = (0 < cp_end p \<and> cp_start p < text_length (ly_docs ly ! cp_file_index p))"

definition placed_after :: "split_env \<Rightarrow> split_layout \<Rightarrow> split_edit \<Rightarrow> int \<Rightarrow> mapping \<Rightarrow> cut_placement \<Rightarrow> bool" where
  "placed_after env ly edit n e p = (cut_candidate (env_nfc env) (ly_docs ly) e = Some p
     \<and> (cp_episode p, ly_span ly p) \<in> set (edited_spans ly edit n) \<and> (p \<in> set (ly_placements ly) \<or> normal ly p))"

lemma edited_range_placed:
  assumes "whole_layout env ly" "edit_good ly edit n" "(m, r) \<in> set (edited_spans ly edit n)"
    and "get e ''source_range'' = range_value ly r" "entry_num e = Some m" "is_cut_episode e"
  shows "\<exists>p. placed_after env ly edit n e p \<and> cp_episode p = m"
proof -
  obtain a b where r: "r = (a, b)" by fastforce
  have "distinct_files env (ly_docs ly)" using assms(1) by (simp add: whole_layout_def)
  moreover have "0 \<le> a" "b \<le> total_length ly" "a < b"
    using assms(2,3) by (auto simp: edit_good_def inside_def list_all_iff r)
  moreover have "get e ''source_range'' = range_value ly (a, b)" using assms(4) by (simp add: r)
  ultimately obtain p where "cut_candidate (env_nfc env) (ly_docs ly) e = Some p" "cp_episode p = m" "ly_span ly p = (a, b)"
    "cp_start p < text_length (ly_docs ly ! cp_file_index p)" "0 < cp_end p" using assms(5,6) by (metis candidate_of_range)
  then show ?thesis using assms(3) r by (auto simp: placed_after_def normal_def)
qed

lemma same_entry:
  assumes "layout_ok ly" "e \<in> set (ly_entries ly)" "e' \<in> set (ly_entries ly)" "entry_num e = entry_num e'"
  shows "e = e'"
  using assms by (auto simp: layout_ok_def distinct_map inj_on_def)

lemma placed_entry:
  assumes "whole_layout env ly" "(m, r) \<in> set (spans_of ly)"
  obtains e p where "e \<in> set (ly_entries ly)" "entry_num e = Some m" "is_cut_episode e" "get e ''source_range'' \<noteq> JNull"
    "p \<in> set (ly_placements ly)" "cp_episode p = m" "ly_span ly p = r" "cut_candidate (env_nfc env) (ly_docs ly) e = Some p"
proof -
  obtain p where p: "p \<in> set (ly_placements ly)" "cp_episode p = m" "ly_span ly p = r" using assms(2) by (auto simp: spans_of_def)
  then obtain e where e: "e \<in> set (ly_entries ly)" "cut_candidate (env_nfc env) (ly_docs ly) e = Some p"
    using assms(1) by (auto simp: whole_layout_def list_all_iff list_ex_iff)
  have "parse_source_range e \<noteq> None" using e(2) by (auto simp: cut_candidate_def split: option.splits)
  then have "get e ''source_range'' \<noteq> JNull" by (auto simp: parse_source_range_def)
  then show thesis using that e p cut_candidate_SomeD(2,3) [OF e(2)] by simp
qed

lemma in_edited_spans:
  "(m, s) \<in> set (spans_of ly) \<Longrightarrow> m \<notin> set (se_dropped edit)
    \<Longrightarrow> (m, case map_of (se_ranges edit) m of Some r \<Rightarrow> r | None \<Rightarrow> s) \<in> set (edited_spans ly edit n)"
  unfolding set_edited_spans by blast

lemma kept_entry_placed:
  assumes whole: "whole_layout env ly" and good: "edit_good ly edit n"
    and e: "e \<in> set (ly_entries ly)" "entry_num e = Some m" "m \<notin> set (se_dropped edit)"
  shows "(m \<notin> fst ` set (spans_of ly) \<and> cut_candidate (env_nfc env) (ly_docs ly) (ranged_entry env project ly edit impact e) = None)
    \<or> (\<exists>p. placed_after env ly edit n (ranged_entry env project ly edit impact e) p \<and> cp_episode p = m)"
proof -
  have ok: "layout_ok ly" using whole by (simp add: whole_layout_def)
  show ?thesis
  proof (cases "map_of (se_ranges edit) m")
    case None
    then have same: "ranged_entry env project ly edit impact e = e" by (rule ranged_other [OF e(2)])
    show ?thesis
    proof (cases "cut_candidate (env_nfc env) (ly_docs ly) e")
      case (Some p)
      then have p: "p \<in> set (ly_placements ly)" "cp_episode p = m"
        using whole e(1,2) cut_candidate_SomeD(2) [OF Some] by (auto simp: whole_layout_def list_all_iff)
      then have "(m, ly_span ly p) \<in> set (spans_of ly)" by (auto simp: spans_of_def)
      then have "(m, ly_span ly p) \<in> set (edited_spans ly edit n)" 
        using in_edited_spans [of m _ ly edit n] None e(3) by fastforce
      then show ?thesis using p Some same by (auto simp: placed_after_def)
    next
      case none: None
      have "(m, r) \<notin> set (spans_of ly)" for r
      proof
        assume "(m, r) \<in> set (spans_of ly)"
        then obtain e' p where "e' \<in> set (ly_entries ly)" "entry_num e' = Some m" "cut_candidate (env_nfc env) (ly_docs ly) e' = Some p"
          using placed_entry [OF whole] by metis
        then show False using same_entry [OF ok e(1)] e(2) none by force
      qed
      then show ?thesis using none same by auto
    qed
  next
    case (Some r)
    then have "(m, r) \<in> set (se_ranges edit)" by (rule map_of_SomeD)
    then obtain s where s: "(m, s) \<in> set (spans_of ly)" using good by (auto simp: edit_good_def list_all_iff)
    then obtain e' where "e' \<in> set (ly_entries ly)" "entry_num e' = Some m" "is_cut_episode e'" "get e' ''source_range'' \<noteq> JNull"
      using placed_entry [OF whole] by metis
    then have cut: "is_cut_episode e" "get e ''source_range'' \<noteq> JNull" using same_entry [OF ok e(1), of e'] e(2) by auto
    have "(m, r) \<in> set (edited_spans ly edit n)" using in_edited_spans [OF s e(3), of n] Some by simp
    then show ?thesis
      using edited_range_placed [OF whole good] ranged_range [OF e(2) Some] cut e(2) by (simp add: entry_num_ranged)
  qed
qed

lemma new_entry_placed:
  assumes "whole_layout env ly" "edit_good ly edit n" "se_new_range edit = Some r"
  shows "\<exists>p. placed_after env ly edit n (new_entry env project ly n title r) p \<and> cp_episode p = n"
proof -
  have "0 < n" using assms(2) by (simp add: edit_good_def)
  note new = new_entry_facts [OF this, of env project ly title r]
  have "(n, r) \<in> set (edited_spans ly edit n)" using assms(3) by (simp add: set_edited_spans)
  then show ?thesis using edited_range_placed [OF assms(1,2)] new by blast
qed

text \<open>The entries before the dropped ones are taken out\<close>

definition entries_with_new ::
  "split_env \<Rightarrow> mapping \<Rightarrow> mapping \<Rightarrow> split_layout \<Rightarrow> split_edit \<Rightarrow> split_impact \<Rightarrow> int \<Rightarrow> mapping list" where
  "entries_with_new env before1 after1 ly edit impact n =
     (let es = map (ranged_entry env before1 ly edit impact) (ly_entries ly)
      in case se_new_range edit of
           Some r \<Rightarrow> insert_at (se_insert_before edit) (new_entry env after1 ly n (se_new_title edit) r) es | None \<Rightarrow> es)"

lemma nums_with_new:
  assumes "layout_ok ly" "edit_good ly edit n"
  shows "distinct (map entry_num (entries_with_new env p1 p2 ly edit impact n))"
    and "e \<in> set (entries_with_new env p1 p2 ly edit impact n) \<Longrightarrow> entry_num e \<noteq> None"
proof -
  have n: "0 < n" "Some n \<notin> set (map entry_num (ly_entries ly))"
    using assms(2) by (auto simp: edit_good_def in_map_filter image_iff dest: sym)
  have "map entry_num (map (ranged_entry env p1 ly edit impact) (ly_entries ly)) = map entry_num (ly_entries ly)"
    by (simp add: entry_num_ranged)
  moreover have "distinct (map entry_num (ly_entries ly))" "\<And>e. e \<in> set (ly_entries ly) \<Longrightarrow> entry_num e \<noteq> None"
    using assms(1) by (auto simp: layout_ok_def list_all_iff)
  ultimately show "distinct (map entry_num (entries_with_new env p1 p2 ly edit impact n))"
    "e \<in> set (entries_with_new env p1 p2 ly edit impact n) \<Longrightarrow> entry_num e \<noteq> None"
    using n new_entry_facts(1) [OF n(1)]
    by (auto simp: entries_with_new_def Let_def map_insert_at entry_num_ranged simp del: map_map split: option.splits)
qed

lemma edited_entries_eq:
  "edited_entries env p1 p2 ly edit impact n =
     filter (\<lambda>e. \<not> (case entry_num e of Some m \<Rightarrow> m \<in> set (se_dropped edit) | None \<Rightarrow> False)) (entries_with_new env p1 p2 ly edit impact n)
     @ List.map_filter (\<lambda>m. if m \<in> set (si_retired impact)
         then map_option (retired_entry env p2 m) (find (\<lambda>e. entry_num e = Some m) (entries_with_new env p1 p2 ly edit impact n)) else None)
       (se_dropped edit)"
  unfolding edited_entries_def entries_with_new_def Let_def by (rule refl)

lemma distinct_map_filter_keys:
  assumes "distinct ms" "\<And>m e. g m = Some e \<Longrightarrow> h e = Some m"
  shows "distinct (map h (List.map_filter g ms))" "set (map h (List.map_filter g ms)) \<subseteq> Some ` set ms"
  using assms(1) by (induction ms) (auto simp: map_filter_simps in_map_filter dest!: assms(2) split: option.splits)

lemma nums_edited:
  assumes "layout_ok ly" "edit_good ly edit n"
  shows "distinct (map entry_num (edited_entries env p1 p2 ly edit impact n))"
    and "e \<in> set (edited_entries env p1 p2 ly edit impact n) \<Longrightarrow> entry_num e \<noteq> None"
proof -
  let ?es = "entries_with_new env p1 p2 ly edit impact n"
  let ?drops = "\<lambda>e. case entry_num e of Some m \<Rightarrow> m \<in> set (se_dropped edit) | None \<Rightarrow> False"
  let ?g = "\<lambda>m. if m \<in> set (si_retired impact) then map_option (retired_entry env p2 m) (find (\<lambda>e. entry_num e = Some m) ?es) else None"
  have g: "entry_num e = Some m" if "?g m = Some e" for m e
    using that find_SomeE [of "\<lambda>e. entry_num e = Some m" ?es] by (auto simp: entry_num_retired split: if_splits)
  have dropped: "distinct (se_dropped edit)" using assms(2) by (simp add: edit_good_def)
  note retired = distinct_map_filter_keys [of "se_dropped edit" ?g entry_num, OF dropped g]
  have "distinct (map entry_num (filter (\<lambda>e. \<not> ?drops e) ?es))"
    using nums_with_new(1) [OF assms] by (rule distinct_map_filter)
  moreover have "set (map entry_num (filter (\<lambda>e. \<not> ?drops e) ?es)) \<inter> set (map entry_num (List.map_filter ?g (se_dropped edit))) = {}"
  proof (rule equals0I)
    fix x assume x: "x \<in> set (map entry_num (filter (\<lambda>e. \<not> ?drops e) ?es)) \<inter> set (map entry_num (List.map_filter ?g (se_dropped edit)))"
    then obtain m where m: "x = Some m" "m \<in> set (se_dropped edit)" using retired(2) by blast
    obtain e where e: "x = entry_num e" "\<not> ?drops e" using x by auto
    have "entry_num e = Some m" using e(1) m(1) by simp
    then show False using e(2) m(2) by simp
  qed
  ultimately show "distinct (map entry_num (edited_entries env p1 p2 ly edit impact n))"
    using retired(1) by (simp only: edited_entries_eq map_append distinct_append simp_thms)
  show "entry_num e \<noteq> None" if e: "e \<in> set (edited_entries env p1 p2 ly edit impact n)"
    
  proof -
    consider "e \<in> set ?es" | "e \<in> set (List.map_filter ?g (se_dropped edit))" using e by (auto simp: edited_entries_eq)
    then show ?thesis
    proof cases
      case 2
      then have "entry_num e \<in> Some ` set (se_dropped edit)" using retired(2) by (metis (no_types, lifting) image_eqI list.set_map subsetD)
      then show ?thesis by auto
    qed (rule nums_with_new(2) [OF assms])
  qed
qed

text \<open>Every entry after the edit that can be placed is placed in an interval of the plan, and each interval has its entry\<close>

lemma edited_candidate:
  assumes whole: "whole_layout env ly" and good: "edit_good ly edit n"
    and e': "e' \<in> set (edited_entries env p1 p2 ly edit impact n)" "cut_candidate (env_nfc env) (ly_docs ly) e' = Some p"
  shows "placed_after env ly edit n e' p"
proof -
  have unique: "placed_after env ly edit n e' p" if "\<exists>q. placed_after env ly edit n e' q \<and> cp_episode q = m" for m
    using that e'(2) by (auto simp: placed_after_def)
  have "e' \<notin> set (List.map_filter (\<lambda>m. if m \<in> set (si_retired impact)
      then map_option (retired_entry env p2 m) (find (\<lambda>e. entry_num e = Some m) (entries_with_new env p1 p2 ly edit impact n)) else None) (se_dropped edit))"
    using cut_candidate_SomeD(3) [OF e'(2)] retired_not_cut by (auto simp: in_map_filter split: if_splits)
  then have kept: "e' \<in> set (entries_with_new env p1 p2 ly edit impact n)"
      "\<not> (case entry_num e' of Some m \<Rightarrow> m \<in> set (se_dropped edit) | None \<Rightarrow> False)"
    using e'(1) by (simp_all add: edited_entries_eq)
  then consider e where "e \<in> set (ly_entries ly)" "e' = ranged_entry env p1 ly edit impact e"
    | r where "se_new_range edit = Some r" "e' = new_entry env p2 ly n (se_new_title edit) r"
    by (auto simp: entries_with_new_def Let_def split: option.splits)
  then show ?thesis
  proof cases
    case (1 e)
    then have "entry_num e = Some (cp_episode p)" "cp_episode p \<notin> set (se_dropped edit)"
      using cut_candidate_SomeD(2) [OF e'(2)] kept(2) by (simp_all add: entry_num_ranged)
    then show ?thesis using kept_entry_placed [OF whole good 1(1), of _ p1 impact] 1(2) e'(2) unique by auto
  next
    case (2 r)
    then show ?thesis using new_entry_placed [OF whole good 2(1)] unique by blast
  qed
qed

lemma edited_span_placed:
  assumes whole: "whole_layout env ly" and good: "edit_good ly edit n" and mr: "(m, r) \<in> set (edited_spans ly edit n)"
  obtains e' p where "e' \<in> set (edited_entries env p1 p2 ly edit impact n)" "placed_after env ly edit n e' p" "cp_episode p = m" "ly_span ly p = r"
proof -
  have ok: "layout_ok ly" using whole by (simp add: whole_layout_def)
  have "distinct (map fst (edited_spans ly edit n))" using good by (simp add: edit_good_def disjoint_spans_def)
  then have span: "ly_span ly p = r" if "placed_after env ly edit n e p" "cp_episode p = m" for e p
    using eq_key_imp_eq_value [of "edited_spans ly edit n" m "ly_span ly p" r] mr that by (auto simp: placed_after_def)
  from mr consider s where "(m, s) \<in> set (spans_of ly)" "m \<notin> set (se_dropped edit)" | "m = n" "se_new_range edit = Some r"
    unfolding set_edited_spans by blast
  then show thesis
  proof cases
    case (1 s)
    obtain e where e: "e \<in> set (ly_entries ly)" "entry_num e = Some m" using placed_entry [OF whole 1(1)] by metis
    let ?e = "ranged_entry env p1 ly edit impact e"
    have "m \<in> fst ` set (spans_of ly)" using 1(1) by force
    then obtain p where p: "placed_after env ly edit n ?e p" "cp_episode p = m"
      using kept_entry_placed [OF whole good e 1(2)] by blast
    have "?e \<in> set (entries_with_new env p1 p2 ly edit impact n)" using e(1) by (simp add: entries_with_new_def Let_def split: option.split)
    then have "?e \<in> set (edited_entries env p1 p2 ly edit impact n)" using e(2) 1(2) by (simp add: edited_entries_eq entry_num_ranged)
    then show thesis using p span [OF p] that by blast
  next
    case 2
    let ?e = "new_entry env p2 ly n (se_new_title edit) r"
    obtain p where p: "placed_after env ly edit n ?e p" "cp_episode p = m" using new_entry_placed [OF whole good 2(2)] 2(1) by blast
    have n: "0 < n" "n \<notin> set (List.map_filter entry_num (ly_entries ly))" using good by (simp_all add: edit_good_def)
    then have "n \<notin> set (se_dropped edit)" using good placed_numbers [OF ok] by (fastforce simp: edit_good_def)
    moreover have "?e \<in> set (entries_with_new env p1 p2 ly edit impact n)" using 2(2) by (simp add: entries_with_new_def Let_def)
    ultimately have "?e \<in> set (edited_entries env p1 p2 ly edit impact n)"
      using new_entry_facts(1) [OF n(1)] by (simp add: edited_entries_eq)
    then show thesis using p span [OF p] that by blast
  qed
qed

lemma placed_after_separate:
  assumes whole: "whole_layout env ly" and good: "edit_good ly edit n"
    and p: "placed_after env ly edit n e p" and q: "placed_after env ly edit n e' q" and "cp_episode p \<noteq> cp_episode q"
  shows "separate p q"
proof -
  have ok: "layout_ok ly" using whole by (simp add: whole_layout_def)
  have placed: "placed_in (ly_docs ly) p" "placed_in (ly_docs ly) q"
    using p q cut_candidate_SomeD(1) by (auto simp: placed_after_def)
  have spans: "(cp_episode p, ly_span ly p) \<in> set (edited_spans ly edit n)" "(cp_episode q, ly_span ly q) \<in> set (edited_spans ly edit n)"
    using p q by (simp_all add: placed_after_def)
  have "apart (ly_span ly p) (ly_span ly q)"
    using good spans \<open>cp_episode p \<noteq> cp_episode q\<close> by (fastforce simp: edit_good_def disjoint_spans_def list_all_iff)
  moreover have "fst (ly_span ly p) < snd (ly_span ly p)" "fst (ly_span ly q) < snd (ly_span ly q)"
    using good spans by (fastforce simp: edit_good_def list_all_iff)+
  ultimately have order: "snd (ly_span ly p) \<le> fst (ly_span ly q) \<or> snd (ly_span ly q) \<le> fst (ly_span ly p)" by (auto simp: apart_def)
  show ?thesis
  proof (cases "p \<in> set (ly_placements ly) \<and> q \<in> set (ly_placements ly)")
    case True
    obtain i where i: "i < length (ly_placements ly)" "ly_placements ly ! i = p" using True by (metis in_set_conv_nth)
    obtain j where j: "j < length (ly_placements ly)" "ly_placements ly ! j = q" using True by (metis in_set_conv_nth)
    have "i \<noteq> j" using i j \<open>cp_episode p \<noteq> cp_episode q\<close> by auto
    moreover have "\<And>i j. i < j \<Longrightarrow> j < length (ly_placements ly) \<Longrightarrow> cp_end_position (ly_placements ly ! i) \<le> cp_position (ly_placements ly ! j)"
      using ok by (auto simp: layout_ok_def in_order_def sorted_wrt_iff_nth_less)
    ultimately show ?thesis using i j by (metis linorder_neqE_nat separate_def)
  next
    case False
    then have "normal ly p \<or> normal ly q" using p q by (auto simp: placed_after_def)
    then show ?thesis using order normal_before [OF placed] normal_before [OF placed(2,1)] by (auto simp: separate_def normal_def)
  qed
qed

end
