(* ===== verification/SplitSound.thy ===== *)
theory SplitSound
  imports SplitRuns
begin

text \<open>
  The ledger, the source and the files of the episodes agree, and every manual split keeps it so; what is
  written is what was planned; nothing that has products is changed without a confirmation.
\<close>

section \<open>Laid out again\<close>

lemma ly_docs_cong:
  assumes "ly_docs ly' = ly_docs ly"
  shows "ly_bases ly' = ly_bases ly" "ly_span ly' = ly_span ly" "total_length ly' = total_length ly" "global_text ly' = global_text ly"
  using assms by (simp_all add: ly_bases_def ly_span_def total_length_def global_text_def ly_text_def fun_eq_iff)

lemma discover_sources_cong:
  "get q ''whole_source_files'' = get p ''whole_source_files'' \<Longrightarrow> discover_sources read q = discover_sources read p"
  by (simp add: discover_sources_def whole_source_files_def)

lemma distinct_candidates:
  assumes "distinct (map entry_num es)"
  shows "distinct (map cp_episode (List.map_filter (cut_candidate nfc docs) es))"
  using assms
proof (induction es)
  case (Cons e es)
  have "cp_episode q \<noteq> cp_episode p" if p: "cut_candidate nfc docs e = Some p" and q: "q \<in> set (List.map_filter (cut_candidate nfc docs) es)" for p q
  proof -
    obtain e' where e': "e' \<in> set es" "cut_candidate nfc docs e' = Some q" using q by (auto simp: in_map_filter)
    have "entry_num e' \<in> set (map entry_num es)" using e'(1) by simp
    moreover have "entry_num e' = Some (cp_episode q)" by (rule cut_candidate_SomeD(2) [OF e'(2)])
    ultimately have "entry_num e' = Some (cp_episode q)" "entry_num e' \<noteq> entry_num e" using Cons.prems by auto
    then show ?thesis using cut_candidate_SomeD(2) [OF p] by auto
  qed
  then show ?case using Cons by (fastforce simp: map_filter_simps split: option.split)
qed (simp add: map_filter_simps)

lemma relaid:
  assumes lay: "layout_of env project = Inr ly" and whole: "whole_layout env ly" and good: "edit_good ly edit n"
    and same: "same_but [''source_fingerprints'', ''episodes'', ''episode_id_high_water''] project project'"
    and written: "get project' ''episodes'' = JList (map JDict (edited_entries env p1 p2 ly edit impact n))"
  obtains ly' where "layout_of env project' = Inr ly'" "ly_docs ly' = ly_docs ly" "whole_layout env ly'"
    "set (spans_of ly') = set (edited_spans ly edit n)"
proof -
  let ?es = "edited_entries env p1 p2 ly edit impact n"
  let ?ps = "List.map_filter (cut_candidate (env_nfc env) (ly_docs ly)) ?es"
  have ok: "layout_ok ly" using whole by (simp add: whole_layout_def)
  have nums: "distinct (map entry_num ?es)" "None \<notin> set (map entry_num ?es)"
    by (rule nums_edited(1) [OF ok good]) (use nums_edited(2) [OF ok good, of _ env p1 p2 impact] in \<open>force simp del: not_None_eq\<close>)
  then have wf: "well_formed_ledger_entries project' = Some ?es"
    unfolding well_formed_ledger_entries_def written json.case Let_def mappings_JDict by (simp add: list_all_iff)
  have "layout_of env project' \<noteq> Inl x" for x by (simp add: layout_of_def wf Let_def)
  then obtain ly' where lay': "layout_of env project' = Inr ly'" by (cases "layout_of env project'") auto
  note facts = layout_of_ok [OF lay] and facts' = layout_of_ok [OF lay']
  have docs: "ly_docs ly' = ly_docs ly"
    using discover_sources_cong [of project' project] same facts(3) facts'(3) by (simp add: same_but_def)
  have es: "ly_entries ly' = ?es" "entries project' = ?es" using facts'(2) well_formed_entries(1) [OF wf] by simp_all
  have after1: "placed_after env ly edit n e p" if "e \<in> set ?es" "cut_candidate (env_nfc env) (ly_docs ly) e = Some p" for e p
    using edited_candidate [OF whole good that] .
  have "place_from (0, 0) [] (sort_key (\<lambda>p. (cp_position p, cp_end_position p)) ?ps) = sort_key (\<lambda>p. (cp_position p, cp_end_position p)) ?ps"
  proof (rule place_all)
    show distinct: "distinct (map cp_episode ?ps)" by (rule distinct_candidates [OF nums(1)])
    show "placed_in (ly_docs ly) p" if "p \<in> set ?ps" for p using that cut_candidate_SomeD(1) by (auto simp: in_map_filter)
    fix p q assume p: "p \<in> set ?ps" and q: "q \<in> set ?ps" and "p \<noteq> q"
    then have "cp_episode p \<noteq> cp_episode q" using distinct by (auto simp: distinct_map inj_on_def)
    moreover obtain e e' where "placed_after env ly edit n e p" "placed_after env ly edit n e' q"
      using p q after1 unfolding in_map_filter by blast
    ultimately show "separate p q" using placed_after_separate [OF whole good] by blast
  qed
  then have placements: "set (ly_placements ly') = set ?ps"
    using facts'(4) by (simp add: docs es(2) cut_episode_placements_def)
  have spans: "set (spans_of ly') = set (edited_spans ly edit n)"
  proof (rule set_eqI)
    fix x :: "int \<times> int \<times> int"
    obtain m r where x: "x = (m, r)" by (rule prod.exhaust)
    have "x \<in> set (spans_of ly') \<longleftrightarrow> (\<exists>p \<in> set ?ps. cp_episode p = m \<and> ly_span ly p = r)"
      unfolding x spans_of_def set_map placements ly_docs_cong(2) [OF docs] by auto
    also have "\<dots> \<longleftrightarrow> x \<in> set (edited_spans ly edit n)"
    proof
      assume "\<exists>p \<in> set ?ps. cp_episode p = m \<and> ly_span ly p = r"
      then show "x \<in> set (edited_spans ly edit n)" using after1 x by (auto simp: in_map_filter placed_after_def)
    next
      assume "x \<in> set (edited_spans ly edit n)"
      then show "\<exists>p \<in> set ?ps. cp_episode p = m \<and> ly_span ly p = r"
        using edited_span_placed [OF whole good, of m r p1 p2 impact] x by (metis in_map_filter placed_after_def)
    qed
    finally show "x \<in> set (spans_of ly') \<longleftrightarrow> x \<in> set (edited_spans ly edit n)" .
  qed
  have "list_all (\<lambda>(m, a, b). a < b) (spans_of ly')"
    using good unfolding list_all_iff spans edit_good_def by simp
  moreover have "distinct_files env (ly_docs ly')" using whole by (simp add: whole_layout_def docs)
  moreover have "list_all (\<lambda>e. case cut_candidate (env_nfc env) (ly_docs ly') e of Some p \<Rightarrow> p \<in> set (ly_placements ly') | None \<Rightarrow> True) (ly_entries ly')"
    unfolding list_all_iff es placements docs by (auto simp: in_map_filter split: option.split)
  moreover have "list_all (\<lambda>p. list_ex (\<lambda>e. cut_candidate (env_nfc env) (ly_docs ly') e = Some p) (ly_entries ly')) (ly_placements ly')"
    unfolding list_all_iff list_ex_iff es placements docs by (auto simp: in_map_filter)
  ultimately have "whole_layout env ly'" using facts'(1) by (simp only: whole_layout_def simp_thms)
  then show thesis using that lay' docs spans by blast
qed

section \<open>The files of the episodes\<close>

lemma fold_dict_set:
  assumes "distinct (map fst rs)"
  shows "map_of (fold (\<lambda>(n, r). dict_set n (f r)) rs d) m = (case map_of rs m of Some r \<Rightarrow> Some (f r) | None \<Rightarrow> map_of d m)"
  using assms
proof (induction rs arbitrary: d)
  case (Cons x rs)
  obtain n r where x: "x = (n, r)" by fastforce
  have "map_of rs n = None" using Cons.prems by (simp add: x map_of_eq_None_iff)
  then show ?case using Cons by (auto simp: x dict_simps split: option.split)
qed simp

lemma fold_dict_pop: "map_of (fold dict_pop ms d) m = (if m \<in> set ms then None else map_of d m)"
  by (induction ms arbitrary: d) (simp_all add: dict_simps)

lemma edited_files_hold:
  assumes ok: "layout_ok ly" and good: "edit_good ly edit n" and mr: "(m, r) \<in> set (edited_spans ly edit n)"
    and held: "\<And>m r. (m, r) \<in> set (spans_of ly) \<Longrightarrow> map_of files m = Some (global_text ly r)"
  shows "map_of (edited_files ly edit n files) m = Some (global_text ly r)"
proof -
  have fresh: "n \<notin> set (List.map_filter entry_num (ly_entries ly))" "set (se_dropped edit) \<subseteq> fst ` set (spans_of ly)"
    and keys: "distinct (map fst (se_ranges edit))" using good by (simp_all add: edit_good_def)
  have unplaced: "(n, s) \<notin> set (spans_of ly)" for s using placed_numbers [OF ok, of n s] fresh(1) by blast
  then have kept: "n \<notin> set (se_dropped edit)" using fresh(2) by force
  from mr consider s where "(m, s) \<in> set (spans_of ly)" "m \<notin> set (se_dropped edit)"
      "r = (case map_of (se_ranges edit) m of Some r \<Rightarrow> r | None \<Rightarrow> s)" | "m = n" "se_new_range edit = Some r"
    unfolding set_edited_spans by blast
  then show ?thesis
  proof cases
    case (1 s)
    then have "m \<noteq> n" using unplaced by blast
    then show ?thesis using 1 held [OF 1(1)]
      by (auto simp: edited_files_def fold_dict_pop fold_dict_set [OF keys] dict_simps split: option.split)
  qed (simp add: edited_files_def fold_dict_pop dict_simps kept)
qed

section \<open>Plans are good to write\<close>

lemma plan_clear_distinct:
  assumes "layout_ok ly" "plan_clear_after ly episode = Inr edit"
  shows "distinct (se_dropped edit)"
proof -
  have "distinct (List.map_filter entry_num es)" if "distinct (map entry_num es)" for es
    using that by (induction es) (auto simp: map_filter_simps in_map_filter image_iff split: option.split)
  then have "distinct (List.map_filter entry_num (ly_entries ly))" using assms(1) by (simp add: layout_ok_def)
  then show ?thesis using assms(2) by (auto simp: plan_clear_after_def Let_def ebind_eq_Inr no_edit_def)
qed

text \<open>What a plan changes, and that it really changes it\<close>

lemma plan_shape:
  assumes ok: "layout_ok ly" and filled: "list_all (\<lambda>(m, a, b). a < b) (spans_of ly)"
    and plan: "plan_command env ly command = Inr edit"
  shows "distinct (map fst (se_ranges edit)) \<and> distinct (se_dropped edit) \<and> set (se_dropped edit) \<subseteq> fst ` set (spans_of ly)"
    and "(m, r) \<in> set (se_ranges edit) \<Longrightarrow> m \<in> fst ` set (spans_of ly) \<and> m \<notin> set (se_dropped edit) \<and> fst r < snd r \<and> (m, r) \<notin> set (spans_of ly)"
    and "se_new_range edit = Some r \<Longrightarrow> fst r < snd r"
proof -
  have all: "(distinct (map fst (se_ranges edit)) \<and> distinct (se_dropped edit) \<and> set (se_dropped edit) \<subseteq> fst ` set (spans_of ly))
    \<and> ((m, r) \<in> set (se_ranges edit) \<longrightarrow> m \<in> fst ` set (spans_of ly) \<and> m \<notin> set (se_dropped edit) \<and> fst r < snd r \<and> (m, r) \<notin> set (spans_of ly))
    \<and> (se_new_range edit = Some r \<longrightarrow> fst r < snd r)" for m r
  proof (cases command)
    case (CutUnsplit f stop title)
    then have "plan_cut ly f stop title = Inr edit" using plan by simp
    then obtain start place where "se_ranges edit = []" "se_dropped edit = []" "se_new_range edit = Some (start, place)" "start < place"
      using plan_cutD [OF ok] by metis
    then show ?thesis by auto
  next
    case (SplitEpisode episode offset f)
    then have "plan_split ly episode offset f = Inr edit" using plan by simp
    then obtain low pt high where "se_ranges edit = [(episode, low, pt)]" "se_dropped edit = []" "se_new_range edit = Some (pt, high)"
      and old: "(episode, low, high) \<in> set (spans_of ly)" "low < pt" "pt < high" by (rule plan_splitD)
    moreover have "(episode, low, pt) \<notin> set (spans_of ly)" using span_unique [OF ok old(1)] old(3) by auto
    moreover have "episode \<in> fst ` set (spans_of ly)" using old(1) by (rule rev_image_eqI) simp
    ultimately show ?thesis using old(2,3) by auto
  next
    case (MoveBoundary episode offset f)
    then have move: "plan_move ly episode offset f = Inr edit" using plan by simp
    then obtain low border pt high other where edit: "se_ranges edit = [(episode, low, pt), (other, pt, high)]" "se_dropped edit = []"
        "se_new_range edit = None"
      and old: "(episode, low, border) \<in> set (spans_of ly)" "(other, border, high) \<in> set (spans_of ly)" "episode \<noteq> other"
        "low < pt" "pt < high" "low \<le> border" "border < high" "pt \<noteq> border" by (rule plan_moveD [OF ok])
    have "(episode, low, pt) \<notin> set (spans_of ly)" "(other, pt, high) \<notin> set (spans_of ly)"
      using span_unique [OF ok old(1)] span_unique [OF ok old(2)] old(8) by auto
    moreover have placed: "episode \<in> fst ` set (spans_of ly)" "other \<in> fst ` set (spans_of ly)"
      by (rule rev_image_eqI [OF old(1)], simp, rule rev_image_eqI [OF old(2)], simp)
    ultimately show ?thesis using edit old by auto
  next
    case (MergeWithNext episode)
    then have "plan_merge env ly episode = Inr edit" using plan by simp
    then obtain low low' high high' other where edit: "se_ranges edit = [(episode, low, high')]" "se_dropped edit = [other]"
        "se_new_range edit = None"
      and old: "(episode, low, high) \<in> set (spans_of ly)" "(other, low', high') \<in> set (spans_of ly)" "episode \<noteq> other" "high \<le> low'"
      by (rule plan_mergeD [OF ok])
    have "low < high" "low' < high'" using filled old(1,2) by (auto simp: list_all_iff)
    moreover have "(episode, low, high') \<notin> set (spans_of ly)"
    proof
      assume "(episode, low, high') \<in> set (spans_of ly)"
      then have "(low, high) = (low, high')" by (rule span_unique [OF ok old(1)])
      then show False using old(4) \<open>low' < high'\<close> by simp
    qed
    moreover have "episode \<in> fst ` set (spans_of ly)" "other \<in> fst ` set (spans_of ly)"
      by (rule rev_image_eqI [OF old(1)], simp, rule rev_image_eqI [OF old(2)], simp)
    ultimately show ?thesis using edit old by auto
  next
    case (ClearCutsAfter episode)
    then have clear: "plan_clear_after ly episode = Inr edit" using plan by simp
    then obtain p where "se_ranges edit = []" "se_new_range edit = None" "placement_of ly episode = Inr p"
      and dropped: "\<forall>m. m \<in> set (se_dropped edit) \<longleftrightarrow> m \<in> set (List.map_filter entry_num (ly_entries ly))
         \<and> (\<exists>q \<in> set (ly_placements ly). cp_episode q = m \<and> cp_position p < cp_position q)"
      by (rule plan_clearD) blast
    moreover have "set (se_dropped edit) \<subseteq> fst ` set (spans_of ly)" using dropped by (force simp: spans_of_def)
    ultimately show ?thesis using plan_clear_distinct [OF ok clear] by simp
  qed
  show "distinct (map fst (se_ranges edit)) \<and> distinct (se_dropped edit) \<and> set (se_dropped edit) \<subseteq> fst ` set (spans_of ly)" using all by blast
  show "(m, r) \<in> set (se_ranges edit) \<Longrightarrow> m \<in> fst ` set (spans_of ly) \<and> m \<notin> set (se_dropped edit) \<and> fst r < snd r \<and> (m, r) \<notin> set (spans_of ly)"
    using all by blast
  show "se_new_range edit = Some r \<Longrightarrow> fst r < snd r" using all by blast
qed

lemma plan_edit_good:
  assumes whole: "whole_layout env ly" and plan: "plan_command env ly command = Inr edit"
    and n: "0 < n" "n \<notin> set (List.map_filter entry_num (ly_entries ly))"
  shows "edit_good ly edit n"
proof -
  have ok: "layout_ok ly" and filled: "list_all (\<lambda>(m, a, b). a < b) (spans_of ly)"
    using whole by (simp_all add: whole_layout_def)
  note shape = plan_shape [OF ok filled plan]
  have "fst r < snd r" if "(m, r) \<in> set (edited_spans ly edit n)" for m r
  proof -
    from that consider s where "(m, s) \<in> set (spans_of ly)" "r = (case map_of (se_ranges edit) m of Some r' \<Rightarrow> r' | None \<Rightarrow> s)"
      | "se_new_range edit = Some r" unfolding set_edited_spans by blast
    then show ?thesis
    proof cases
      case (1 s)
      then show ?thesis using filled shape(2) [where m = m and r = r] by (auto simp: list_all_iff dest: map_of_SomeD split: option.splits)
    qed (rule shape(3))
  qed
  then have "list_all (\<lambda>(m, a, b). a < b) (edited_spans ly edit n)" unfolding list_all_iff split_beta by (metis prod.collapse)
  moreover have "list_all (\<lambda>(m, r). m \<in> fst ` set (spans_of ly) \<and> m \<notin> set (se_dropped edit)) (se_ranges edit)"
    unfolding list_all_iff split_beta using shape(2) by (metis prod.collapse)
  ultimately show ?thesis using shape(1) plan_good [OF ok plan n(2)] n by (simp add: edit_good_def)
qed

section \<open>Runs\<close>

lemma raise_ids_same:
  "same_but [''episode_id_high_water''] (st_project st) (st_project (raise_ids st))" "st_derived (raise_ids st) = st_derived st"
  "episode_id_high_water (st_project (raise_ids st)) = episode_id_high_water (st_project st)"
  by (simp_all add: raise_ids_def raise_same raise_covers(3))

lemma layout_of_raise: "layout_of env (st_project (raise_ids st)) = layout_of env (st_project st)"
proof -
  have same: "get (st_project (raise_ids st)) k = get (st_project st) k" if "k \<noteq> ''episode_id_high_water''" for k
    using raise_ids_same(1) [of st] that by (simp add: same_but_def)
  have "entries (st_project (raise_ids st)) = entries (st_project st)" by (simp add: entries_def same)
  moreover have "well_formed_ledger_entries (st_project (raise_ids st)) = well_formed_ledger_entries (st_project st)"
    by (simp add: well_formed_ledger_entries_def same)
  moreover have "discover_sources (env_read env) (st_project (raise_ids st)) = discover_sources (env_read env) (st_project st)"
    by (rule discover_sources_cong) (simp add: same)
  moreover have "whole_source_file_kind (st_project (raise_ids st)) = whole_source_file_kind (st_project st)"
    by (simp add: fun_eq_iff whole_source_file_kind_def source_kind_applies_def whole_source_files_def whole_source_item_def same)
  ultimately show ?thesis using same [of "''source_language''"] by (simp add: layout_of_def cut_episode_placements_def split: option.split)
qed

text \<open>A command leaves the project as it is, or has its plan applied\<close>

lemma run_split_cases:
  assumes "run_split env seen st command confirm_episodes confirm_units dry_run = Inr (outcome, st')"
  obtains impact where "outcome = SplitUnconfirmed impact" "st' = st"
  | ly edit impact new_episode st2 where "outcome = SplitDone impact new_episode" "layout_of env (st_project st) = Inr ly"
      "plan_command env ly command = Inr edit" "impact = split_impact_of env ly edit"
      "\<not> needs_confirmation confirm_episodes confirm_units impact"
      "apply_edit env (raise_ids st) ly edit impact = Inr (new_episode, st2)" "st' = raise_ids st2"
proof -
  define commit where "commit touched ly edit =
     (let impact = split_impact_of env ly edit
      in if needs_confirmation confirm_episodes confirm_units impact then Inr (SplitUnconfirmed impact, st)
         else let touched' = map fst (se_ranges edit) @ se_dropped edit
               @ (if se_new_range edit \<noteq> None then [episode_id_high_water (st_project (raise_ids st)) + 1] else [])
         in if \<not> set touched' \<subseteq> set touched then Inl SplitConflict
            else ebind (apply_edit env (raise_ids st) ly edit impact) (\<lambda>(new_episode, st2). Inr (SplitDone impact new_episode, raise_ids st2)))"
    for touched ly edit
  have run: "run_split env seen st command confirm_episodes confirm_units dry_run =
     ebind (layout_of env (st_project seen)) (\<lambda>ly. ebind (plan_command env ly command) (\<lambda>edit.
       ebind (if se_touches_source edit then check_fingerprints env seen (touched_docs ly edit) else Inr seen) (\<lambda>checked.
         if dry_run \<or> needs_confirmation confirm_episodes confirm_units (split_impact_of env ly edit)
         then Inr (SplitUnconfirmed (split_impact_of env ly edit), st)
         else ebind (layout_of env (st_project st)) (\<lambda>ly'. ebind (plan_command env ly' command)
           (commit (map fst (se_ranges edit) @ se_dropped edit @ [episode_id_high_water (st_project checked) + 1]) ly')))))"
    unfolding run_split_def Let_def layout_of_raise commit_def by (rule refl)
  from assms [unfolded run] obtain ly0 where a: "ebind (plan_command env ly0 command) (\<lambda>edit.
       ebind (if se_touches_source edit then check_fingerprints env seen (touched_docs ly0 edit) else Inr seen) (\<lambda>checked.
         if dry_run \<or> needs_confirmation confirm_episodes confirm_units (split_impact_of env ly0 edit)
         then Inr (SplitUnconfirmed (split_impact_of env ly0 edit), st)
         else ebind (layout_of env (st_project st)) (\<lambda>ly'. ebind (plan_command env ly' command)
           (commit (map fst (se_ranges edit) @ se_dropped edit @ [episode_id_high_water (st_project checked) + 1]) ly'))))
       = Inr (outcome, st')" by (rule ebindE)
  then obtain edit0 where "ebind (if se_touches_source edit0 then check_fingerprints env seen (touched_docs ly0 edit0) else Inr seen) (\<lambda>checked.
         if dry_run \<or> needs_confirmation confirm_episodes confirm_units (split_impact_of env ly0 edit0)
         then Inr (SplitUnconfirmed (split_impact_of env ly0 edit0), st)
         else ebind (layout_of env (st_project st)) (\<lambda>ly'. ebind (plan_command env ly' command)
           (commit (map fst (se_ranges edit0) @ se_dropped edit0 @ [episode_id_high_water (st_project checked) + 1]) ly')))
       = Inr (outcome, st')" by (rule ebindE)
  then obtain checked where "(if se_touches_source edit0 then check_fingerprints env seen (touched_docs ly0 edit0) else Inr seen) = Inr checked"
    "(if dry_run \<or> needs_confirmation confirm_episodes confirm_units (split_impact_of env ly0 edit0)
         then Inr (SplitUnconfirmed (split_impact_of env ly0 edit0), st)
         else ebind (layout_of env (st_project st)) (\<lambda>ly'. ebind (plan_command env ly' command)
           (commit (map fst (se_ranges edit0) @ se_dropped edit0 @ [episode_id_high_water (st_project checked) + 1]) ly')))
       = Inr (outcome, st')" by (rule ebindE)
  then consider imp where "outcome = SplitUnconfirmed imp" "st' = st"
    | ly edit touched where "layout_of env (st_project st) = Inr ly" "plan_command env ly command = Inr edit"
        "commit touched ly edit = Inr (outcome, st')"
    by (auto simp: ebind_eq_Inr split: if_splits)
  then show thesis
  proof cases
    case (1 imp)
    then show thesis using that(1) by blast
  next
    case (2 ly edit touched)
    show thesis
    proof (cases "needs_confirmation confirm_episodes confirm_units (split_impact_of env ly edit)")
      case True
      then show thesis using 2(3) by (intro that(1) [of "split_impact_of env ly edit"]) (simp_all add: commit_def Let_def)
    next
      case False
      then obtain new_episode st2 where "apply_edit env (raise_ids st) ly edit (split_impact_of env ly edit) = Inr (new_episode, st2)"
        "outcome = SplitDone (split_impact_of env ly edit) new_episode" "st' = raise_ids st2"
        using 2(3) by (auto simp: commit_def Let_def ebind_eq_Inr split: if_splits)
      then show thesis using that(2) 2(1,2) False by blast
    qed
  qed
qed

lemma run_split_doneD:
  assumes "run_split env seen st command confirm_episodes confirm_units dry_run = Inr (SplitDone impact new_episode, st')"
  obtains ly edit st2 where "layout_of env (st_project st) = Inr ly" "plan_command env ly command = Inr edit"
    "impact = split_impact_of env ly edit" "\<not> needs_confirmation confirm_episodes confirm_units impact"
    "apply_edit env (raise_ids st) ly edit impact = Inr (new_episode, st2)" "st' = raise_ids st2"
  using assms
proof (cases rule: run_split_cases)
  case (2 ly edit impact' new_episode' st2)
  then show thesis using that [of ly edit st2] by simp
qed simp

text \<open>
  A project whose ledger, source and files agree: the ledger can be read and describes the source as a
  whole, and the file of every placed episode holds the text of its interval.
\<close>

definition ledger_sound :: "split_env \<Rightarrow> project_state \<Rightarrow> bool" where
  "ledger_sound env st =
     (case layout_of env (st_project st) of
        Inl e \<Rightarrow> False
      | Inr ly \<Rightarrow> whole_layout env ly \<and> list_all (\<lambda>(m, r). map_of (st_derived st) m = Some (global_text ly r)) (spans_of ly))"

lemma high_water_fresh:
  assumes "layout_of env (st_project st) = Inr ly"
  shows "0 < episode_id_high_water (st_project st) + 1"
    "episode_id_high_water (st_project st) + 1 \<notin> set (List.map_filter entry_num (ly_entries ly))"
  using high_water_covers(2) [of _ "st_project st"] high_water_covers(3) [of "st_project st"] layout_of_ok(2) [OF assms]
  by (force simp: ledger_episode_ids_def)+

lemma done_facts:
  assumes sound: "ledger_sound env st"
    and run: "run_split env seen st command confirm_episodes confirm_units dry_run = Inr (SplitDone impact new_episode, st')"
  obtains ly edit ly' n where "layout_of env (st_project st) = Inr ly" "plan_command env ly command = Inr edit"
    "n = episode_id_high_water (st_project st) + 1" "new_episode = (if se_new_range edit = None then None else Some n)"
    "layout_of env (st_project st') = Inr ly'" "ly_docs ly' = ly_docs ly" "whole_layout env ly'"
    "set (spans_of ly') = set (edited_spans ly edit n)"
    "\<And>m r. (m, r) \<in> set (spans_of ly') \<Longrightarrow> map_of (st_derived st') m = Some (global_text ly' r)"
proof -
  define n where "n = episode_id_high_water (st_project st) + 1"
  obtain ly edit st2 where lay: "layout_of env (st_project st) = Inr ly" and plan: "plan_command env ly command = Inr edit"
    and "apply": "apply_edit env (raise_ids st) ly edit impact = Inr (new_episode, st2)" and st': "st' = raise_ids st2"
    using run by (rule run_split_doneD)
  have whole: "whole_layout env ly" and held: "(m, r) \<in> set (spans_of ly) \<Longrightarrow> map_of (st_derived st) m = Some (global_text ly r)" for m r
    using sound by (auto simp: ledger_sound_def lay list_all_iff)
  have good: "edit_good ly edit n" unfolding n_def by (rule plan_edit_good [OF whole plan high_water_fresh [OF lay]])
  have layr: "layout_of env (st_project (raise_ids st)) = Inr ly" by (simp add: layout_of_raise lay)
  obtain p1 p2 where written: "same_but [''source_fingerprints'', ''episodes'', ''episode_id_high_water''] (st_project (raise_ids st)) (st_project st2)"
      "get (st_project st2) ''episodes'' = JList (map JDict (edited_entries env p1 p2 ly edit impact n))"
    and new: "new_episode = (if se_new_range edit = None then None else Some n)"
    and files: "st_derived st2 = edited_files ly edit n (st_derived st)"
    using apply_editD [OF "apply"] unfolding raise_ids_same n_def [symmetric] by metis
  obtain ly' where ly': "layout_of env (st_project st2) = Inr ly'" "ly_docs ly' = ly_docs ly" "whole_layout env ly'"
    "set (spans_of ly') = set (edited_spans ly edit n)" using relaid [OF layr whole good written] .
  have "map_of (st_derived st') m = Some (global_text ly' r)" if "(m, r) \<in> set (spans_of ly')" for m r
  proof -
    have "layout_ok ly" using whole by (simp add: whole_layout_def)
    moreover have "(m, r) \<in> set (edited_spans ly edit n)" using that ly'(4) by simp
    ultimately have "map_of (edited_files ly edit n (st_derived st)) m = Some (global_text ly r)"
      using good held by (intro edited_files_hold) auto
    then show ?thesis by (simp add: st' raise_ids_same files ly_docs_cong(4) [OF ly'(2)])
  qed
  then show thesis using that [OF lay plan n_def new _ ly'(2-4)] ly'(1) by (simp add: st' layout_of_raise)
qed

text \<open>
  Property C15: on a sound ledger a split that is carried out does exactly what was planned.  Laid out again from what was
  written to the ledger, the source is the same, every episode has the interval of the plan and no other
  episode is placed, the new one has the next number, and every file holds the text of its interval.
\<close>

theorem run_follows_plan:
  assumes "ledger_sound env st"
    and "run_split env seen st command confirm_episodes confirm_units dry_run = Inr (SplitDone impact new_episode, st')"
  shows "\<exists>ly edit ly'. layout_of env (st_project st) = Inr ly \<and> plan_command env ly command = Inr edit
    \<and> new_episode = (if se_new_range edit = None then None else Some (episode_id_high_water (st_project st) + 1))
    \<and> layout_of env (st_project st') = Inr ly' \<and> ly_docs ly' = ly_docs ly
    \<and> set (spans_of ly') = set (edited_spans ly edit (episode_id_high_water (st_project st) + 1))
    \<and> (\<forall>(m, r) \<in> set (spans_of ly'). map_of (st_derived st') m = Some (py_slice (ly_text ly) (fst r) (snd r)))"
proof -
  obtain ly edit ly' where facts: "layout_of env (st_project st) = Inr ly" "plan_command env ly command = Inr edit"
    "new_episode = (if se_new_range edit = None then None else Some (episode_id_high_water (st_project st) + 1))"
    "layout_of env (st_project st') = Inr ly'" "ly_docs ly' = ly_docs ly"
    "set (spans_of ly') = set (edited_spans ly edit (episode_id_high_water (st_project st) + 1))"
    and held: "\<And>m r. (m, r) \<in> set (spans_of ly') \<Longrightarrow> map_of (st_derived st') m = Some (global_text ly' r)"
    using assms by (rule done_facts) metis
  have "map_of (st_derived st') m = Some (py_slice (ly_text ly) (fst r) (snd r))" if "(m, r) \<in> set (spans_of ly')" for m r
    using held [OF that] unfolding ly_docs_cong(4) [OF facts(5)] by (simp add: global_text_def split_beta)
  then show ?thesis using facts by (intro exI [of _ ly] exI [of _ edit] exI [of _ ly']) auto
qed

text \<open>
  Property C16: the agreement of ledger, source and files is an invariant of the service: whatever the
  command, its confirmations and the preview, it holds after the command when it held before.
\<close>

theorem splits_keep_ledger_sound:
  assumes "ledger_sound env st"
    and "run_split env seen st command confirm_episodes confirm_units dry_run = Inr (outcome, st')"
  shows "ledger_sound env st'"
proof (cases outcome)
  case (SplitDone impact new_episode)
  obtain ly' where "layout_of env (st_project st') = Inr ly'" "whole_layout env ly'"
    and held: "\<And>m r. (m, r) \<in> set (spans_of ly') \<Longrightarrow> map_of (st_derived st') m = Some (global_text ly' r)"
    using assms(1) assms(2) [unfolded SplitDone] by (rule done_facts) metis
  moreover have "list_all (\<lambda>(m, r). map_of (st_derived st') m = Some (global_text ly' r)) (spans_of ly')"
    unfolding list_all_iff split_beta using held by simp
  ultimately show ?thesis by (simp add: ledger_sound_def)
next
  case (SplitUnconfirmed impact)
  then have "st' = st" using assms(2) by (auto elim: run_split_cases)
  then show ?thesis using assms(1) by simp
qed

section \<open>Confirmations\<close>

lemma find_entry:
  assumes "distinct (map entry_num es)" "e \<in> set es" "entry_num e = Some m"
  shows "find (\<lambda>e. entry_num e = Some m) es = Some e"
proof -
  have "find (\<lambda>e. entry_num e = Some m) es \<noteq> None" using assms(2,3) by (auto simp: find_None_iff)
  then obtain e' where e': "find (\<lambda>e. entry_num e = Some m) es = Some e'" by blast
  have "e' \<in> set es" "entry_num e' = Some m" using find_SomeE [OF e'] by simp_all
  then show ?thesis using e' assms by (auto simp: distinct_map inj_on_def)
qed

lemma confirmed_or_untouched:
  assumes whole: "whole_layout env ly" and plan: "plan_command env ly command = Inr edit"
    and conf: "\<not> needs_confirmation confirm_episodes confirm_units (split_impact_of env ly edit)"
    and m: "m \<in> set (episodes_with_products env (ly_entries ly))" "m \<in> set (List.map_filter entry_num (ly_entries ly))" "m \<notin> set confirm_episodes"
  shows "m \<notin> set (se_dropped edit)" "map_of (se_ranges edit) m = None"
proof -
  have ok: "layout_ok ly" and filled: "list_all (\<lambda>(m, a, b). a < b) (spans_of ly)" using whole by (simp_all add: whole_layout_def)
  have unaffected: "m \<notin> set (si_restaled (split_impact_of env ly edit))" "m \<notin> set (si_retired (split_impact_of env ly edit))"
    using conf m(3) by (auto simp: needs_confirmation_def list_ex_iff)
  then show kept: "m \<notin> set (se_dropped edit)" using m(1,2) by (simp add: split_impact_of_def Let_def)
  show "map_of (se_ranges edit) m = None"
  proof (rule ccontr)
    assume "map_of (se_ranges edit) m \<noteq> None"
    then obtain r where r: "map_of (se_ranges edit) m = Some r" by blast
    then have new: "m \<in> fst ` set (spans_of ly)" "(m, r) \<notin> set (spans_of ly)"
      using plan_shape(2) [OF ok filled plan map_of_SomeD [OF r]] by simp_all
    then have "find_placement ly m \<noteq> None" by (auto simp: find_placement_def find_None_iff spans_of_def)
    then obtain p where p: "find_placement ly m = Some p" by blast
    then have "r \<noteq> ly_span ly p" using find_placement_SomeD(3) [OF p] new(2) by auto
    then have "range_changed ly edit m" using r p by (simp add: range_changed_def)
    then show False using unaffected(1) kept m(1,2) by (simp add: split_impact_of_def Let_def)
  qed
qed

text \<open>
  Property C17: on a sound ledger nothing that has products is changed without a confirmation.  When a split is carried
  out, the entry and the file of every episode that has products and was not confirmed by the caller
  are exactly what they were, and text that a merge takes in was confirmed by its size.
\<close>

theorem products_need_confirmation:
  assumes "ledger_sound env st"
    and "run_split env seen st command confirm_episodes confirm_units dry_run = Inr (SplitDone impact new_episode, st')"
    and "m \<in> set (episodes_with_products env (entries (st_project st)))" "m \<notin> set confirm_episodes"
  shows "episode_entry (st_project st') m = episode_entry (st_project st) m
    \<and> map_of (st_derived st') m = map_of (st_derived st) m
    \<and> (si_merged_units impact = 0 \<or> si_merged_units impact = confirm_units)"
proof -
  define n where "n = episode_id_high_water (st_project st) + 1"
  obtain ly edit st2 where lay: "layout_of env (st_project st) = Inr ly" and plan: "plan_command env ly command = Inr edit"
    and impact: "impact = split_impact_of env ly edit" and conf: "\<not> needs_confirmation confirm_episodes confirm_units impact"
    and "apply": "apply_edit env (raise_ids st) ly edit impact = Inr (new_episode, st2)" and st': "st' = raise_ids st2"
    using assms(2) by (rule run_split_doneD)
  have whole: "whole_layout env ly" using assms(1) by (simp add: ledger_sound_def lay)
  then have ok: "layout_ok ly" by (simp add: whole_layout_def)
  note fresh = high_water_fresh [OF lay, folded n_def]
  have good: "edit_good ly edit n" by (rule plan_edit_good [OF whole plan fresh])
  note entries = layout_of_ok(2) [OF lay]
  obtain e where e: "e \<in> set (ly_entries ly)" "entry_num e = Some m"
    using assms(3) unfolding entries [symmetric] by (auto simp: episodes_with_products_def in_map_filter split: option.splits if_splits)
  then have m: "m \<in> set (List.map_filter entry_num (ly_entries ly))" by (auto simp: in_map_filter)
  note untouched = confirmed_or_untouched [OF whole plan conf [unfolded impact] assms(3) [folded entries] m assms(4)]
  obtain p1 p2 where written: "get (st_project st2) ''episodes'' = JList (map JDict (edited_entries env p1 p2 ly edit impact n))"
    and files: "st_derived st2 = edited_files ly edit n (st_derived st)"
    using apply_editD [OF "apply"] unfolding raise_ids_same n_def [symmetric] by metis
  have "ranged_entry env p1 ly edit impact e = e" by (rule ranged_other [OF e(2) untouched(2)])
  then have "e \<in> set (entries_with_new env p1 p2 ly edit impact n)"
    using e(1) by (force simp: entries_with_new_def Let_def split: option.split)
  then have "e \<in> set (edited_entries env p1 p2 ly edit impact n)" using e(2) untouched(1) by (simp add: edited_entries_eq)
  then have after: "find (\<lambda>e. entry_num e = Some m) (edited_entries env p1 p2 ly edit impact n) = Some e"
    using nums_edited(1) [OF ok good] e(2) by (intro find_entry)
  have "entries (st_project st') = edited_entries env p1 p2 ly edit impact n"
    using same_entries [OF raise_ids_same(1) [of st2]] by (simp add: st' entries_def written list_items_def)
  then have "episode_entry (st_project st') m = Some e" using after by (simp add: episode_entry_def)
  moreover have "episode_entry (st_project st) m = Some e"
    using find_entry [of "ly_entries ly", OF _ e] ok by (simp add: episode_entry_def layout_ok_def entries)
  moreover have "m \<noteq> n" using m fresh(2) by blast
  then have "map_of (st_derived st') m = map_of (st_derived st) m"
    using untouched good by (simp add: st' raise_ids_same files edited_files_def fold_dict_pop fold_dict_set edit_good_def dict_simps split: option.split)
  moreover have "si_merged_units impact = 0 \<or> si_merged_units impact = confirm_units" using conf by (auto simp: needs_confirmation_def)
  ultimately show ?thesis by simp
qed

end
