(* ===== verification/EpisodeInstances.thy ===== *)
theory EpisodeInstances
  imports SplitSound
begin

text \<open>Concrete sources, ledgers and commands on which the properties of ranges and splits apply.\<close>

section \<open>Ranges\<close>

definition demo_first :: utext where "demo_first = codes ''source/a.txt''"
definition demo_second :: utext where "demo_second = codes ''source/b.txt''"

definition demo_docs :: "source_doc list" where
  "demo_docs = [\<lparr>sd_rel_path = demo_first, sd_text = codes ''one two''\<rparr>, \<lparr>sd_rel_path = demo_second, sd_text = codes ''three''\<rparr>]"

definition demo_spans :: "(int \<times> source_span) list" where
  "demo_spans = [(1, \<lparr>sp_source_file = demo_first, sp_start = 0, sp_end_file = demo_first, sp_end = 4\<rparr>),
     (2, \<lparr>sp_source_file = demo_first, sp_start = 4, sp_end_file = demo_second, sp_end = 5\<rparr>)]"

lemma demo_docs_ok:
  "distinct (rels demo_docs)" "file_index demo_docs demo_first = Some 0" "list_all (\<lambda>(e, sp). span_fits demo_docs sp) demo_spans"
  "moved_docs demo_docs demo_first 1 = Some (rev demo_docs)"
  by code_simp+

lemma demo_spans_length: "length demo_spans = 2"
  by (simp add: demo_spans_def)

theorem edit_keeps_text_witness:
  "\<exists>rs. remap_for_edit demo_docs demo_spans demo_first (codes ''one  two'') = Some rs \<and> length rs = 2"
proof -
  obtain rs where "remap_for_edit demo_docs demo_spans demo_first (codes ''one  two'') = Some rs"
    "map (\<lambda>r. (rr_episode r, rr_before r)) rs = demo_spans"
    using edit_keeps_text [OF demo_docs_ok(1-3)] by blast
  then show ?thesis using demo_spans_length by (metis length_map)
qed

theorem move_keeps_beginning_witness:
  "\<exists>rs. remap_for_move demo_docs demo_spans demo_first 1 = Some rs \<and> length rs = 2"
proof -
  obtain rs where "remap_for_move demo_docs demo_spans demo_first 1 = Some rs"
    "map (\<lambda>r. (rr_episode r, rr_before r)) rs = demo_spans"
    using move_keeps_beginning [OF demo_docs_ok(1,4,3)] by blast
  then show ?thesis using demo_spans_length by (metis length_map)
qed

section \<open>Splits\<close>

definition demo_split_env :: split_env where
  "demo_split_env = \<lparr>env_nfc = (\<lambda>t. t), env_digest = (\<lambda>t. t), env_units = (\<lambda>l t. int (length t)),
     env_read = (\<lambda>rel. if rel = demo_first then Some (codes ''one two'') else if rel = demo_second then Some (codes ''three'') else None),
     env_exists = (\<lambda>p. False), env_script_plans = (\<lambda>n. False), env_product_nums = [1, 2],
     env_plan_revision = (\<lambda>p n. JNull), env_symlink = (\<lambda>n. False)\<rparr>"

definition demo_entry :: "int \<Rightarrow> utext \<Rightarrow> int \<Rightarrow> utext \<Rightarrow> int \<Rightarrow> mapping" where
  "demo_entry n f a l b = [(codes ''episode'', JInt n), (codes ''source_range'', source_range_value f a l b)]"

definition demo_ledger :: mapping where
  "demo_ledger = [(codes ''whole_source_files'', JList (map (\<lambda>rel. JDict [(codes ''source_file'', JText rel)]) [demo_first, demo_second])),
     (codes ''episodes'', JList (map JDict [demo_entry 1 demo_first 0 demo_first 4, demo_entry 2 demo_first 4 demo_second 5]))]"

definition demo_split_state :: project_state where
  "demo_split_state = \<lparr>st_project = demo_ledger, st_derived = [(1, codes ''one ''), (2, codes ''twothree'')], st_snapshots = []\<rparr>"

definition demo_layout :: split_layout where
  "demo_layout = \<lparr>ly_docs = demo_docs, ly_entries = [demo_entry 1 demo_first 0 demo_first 4, demo_entry 2 demo_first 4 demo_second 5],
     ly_placements = [\<lparr>cp_episode = 1, cp_file_index = 0, cp_start = 0, cp_end_file_index = 0, cp_end = 4\<rparr>,
       \<lparr>cp_episode = 2, cp_file_index = 0, cp_start = 4, cp_end_file_index = 1, cp_end = 5\<rparr>],
     ly_language = JNull, ly_walls = []\<rparr>"

lemma demo_laid_out: "layout_of demo_split_env demo_ledger = Inr demo_layout"
  by code_simp

definition demo_edit :: split_edit where
  "demo_edit = no_edit\<lparr>se_touches_source := True, se_ranges := [(2, 4, 8)], se_new_range := Some (8, 12), se_insert_before := 2\<rparr>"

lemma demo_layout_facts:
  "placement_of demo_layout 2 = Inr \<lparr>cp_episode = 2, cp_file_index = 0, cp_start = 4, cp_end_file_index = 1, cp_end = 5\<rparr>"
  "ly_span demo_layout \<lparr>cp_episode = 2, cp_file_index = 0, cp_start = 4, cp_end_file_index = 1, cp_end = 5\<rparr> = (4, 12)"
  "to_global demo_layout demo_second 1 = Inr 8" "demo_second \<noteq> []" "entry_index demo_layout 2 = Inr 1"
  "py_slice (ly_text demo_layout) 4 8 = [116,119,111,116]" "py_slice (ly_text demo_layout) 8 12 = [104, 114, 101, 101]" by code_simp+

lemma demo_not_blank: "require_text demo_layout 4 8 = Inr ()" "require_text demo_layout 8 12 = Inr ()" unfolding require_text_def demo_layout_facts 
  by (simp_all add: is_space_def space_codes_def strip_def lstrip_def rstrip_def)

lemma demo_planned: "plan_command demo_split_env demo_layout (SplitEpisode 2 1 (Some demo_second)) = Inr demo_edit" 
  by (simp add: plan_split_def point_def demo_layout_facts demo_not_blank require_inside_def demo_edit_def ensure_def del: One_nat_def)

lemma demo_edited_spans: "edited_spans demo_layout demo_edit 3 = [(1, 0, 4), (2, 4, 8), (3, 8, 12)]"
  by code_simp

definition demo_impact :: split_impact where
  "demo_impact = \<lparr>si_restaled = [2], si_retired = [], si_removed = [], si_merged_units = 0\<rparr>"

lemma demo_impact_of: "split_impact_of demo_split_env demo_layout demo_edit =  demo_impact"
  by code_simp

lemma demo_confirmed: "needs_confirmation [2] 0 demo_impact = False"
  by code_simp

definition demo_checked :: "project_state \<Rightarrow> project_state" where
  "demo_checked st = (case check_fingerprints demo_split_env st (touched_docs demo_layout demo_edit) of Inr st' \<Rightarrow> st' | Inl e \<Rightarrow> st)"

lemma demo_checks: "check_fingerprints demo_split_env demo_split_state (touched_docs demo_layout demo_edit) = Inr (demo_checked demo_split_state)"
  "check_fingerprints demo_split_env (raise_ids demo_split_state) (touched_docs demo_layout demo_edit) = Inr (demo_checked (raise_ids demo_split_state))"
  "fst (allocate_episode_ids (st_project (demo_checked (raise_ids demo_split_state))) 1) = [3]"
  "episode_id_high_water (st_project (demo_checked demo_split_state)) = 2"
  "episode_id_high_water (st_project (raise_ids demo_split_state)) = 2"
  "episode_id_high_water (st_project demo_split_state) = 2"
  by code_simp+

definition demo_written :: project_state where
  "demo_written = snd (projr (apply_edit demo_split_env (raise_ids demo_split_state) demo_layout demo_edit demo_impact))"

lemma demo_edit_applied: "apply_edit demo_split_env (raise_ids demo_split_state) demo_layout demo_edit demo_impact = Inr (Some 3, demo_written)"
proof -
  obtain p2 where p2: "allocate_episode_ids (st_project (demo_checked (raise_ids demo_split_state))) 1 = ([3], p2)"
    using demo_checks(3) by (metis prod.collapse)
  have edit: "se_touches_source demo_edit" "se_new_range demo_edit = Some (8, 12)" "se_ranges demo_edit = [(2, 4, 8)]"
    by (simp_all add: demo_edit_def)
  have no_link: "env_symlink demo_split_env n = False" for n by (simp add: demo_split_env_def)
  have "\<exists>w. apply_edit demo_split_env (raise_ids demo_split_state) demo_layout demo_edit demo_impact = Inr (Some 3, w)"
    using demo_checks(2) by (simp add: apply_edit_def Let_def edit p2 no_link del: One_nat_def split: option.split prod.split)
  then show ?thesis by (auto simp: demo_written_def)
qed

lemma demo_done:
  "run_split demo_split_env demo_split_state demo_split_state (SplitEpisode 2 1 (Some demo_second)) [2] 0 False
     = Inr (SplitDone demo_impact (Some 3), raise_ids demo_written)"
proof -
  have lay: "layout_of demo_split_env (st_project demo_split_state) = Inr demo_layout" using demo_laid_out by (simp add: demo_split_state_def)
  have edit: "se_touches_source demo_edit" "se_new_range demo_edit = Some (8, 12)" "se_ranges demo_edit = [(2, 4, 8)]" "se_dropped demo_edit = []"
    by (simp_all add: demo_edit_def no_edit_def)
  show ?thesis
    unfolding run_split_def Let_def layout_of_raise lay demo_planned demo_impact_of demo_confirmed demo_edit_applied ebind_Inr if_True
    by (simp add: demo_checks edit)
qed

lemma demo_sound: "ledger_sound demo_split_env demo_split_state"
  by code_simp

theorem plans_cover_witness:
  "covers (edited_spans demo_layout demo_edit 3) 9 = covers (spans_of demo_layout) 9"
  using plans_cover [OF demo_laid_out demo_planned, of 3 9] by simp

theorem run_follows_plan_witness:
  "\<exists>ly'. layout_of demo_split_env (st_project (raise_ids demo_written)) = Inr ly' \<and> set (spans_of ly') = {(1, 0, 4), (2, 4, 8), (3, 8, 12)}"
proof -
  have "layout_of demo_split_env (st_project demo_split_state) = Inr demo_layout" using demo_laid_out by (simp add: demo_split_state_def)
  then show ?thesis
    using run_follows_plan [OF demo_sound demo_done] demo_planned demo_edited_spans demo_checks by auto
qed

theorem splits_keep_ledger_sound_witness: "ledger_sound demo_split_env (raise_ids demo_written)"
  by (rule splits_keep_ledger_sound [OF demo_sound demo_done])

lemma demo_products: "1 \<in> set (episodes_with_products demo_split_env (entries (st_project demo_split_state)))"
  by code_simp

theorem products_need_confirmation_witness:
  "episode_entry (st_project (raise_ids demo_written)) 1 = episode_entry (st_project demo_split_state) 1
   \<and> map_of (st_derived (raise_ids demo_written)) 1 = map_of (st_derived demo_split_state) 1"
  using products_need_confirmation [OF demo_sound demo_done demo_products] by simp

section \<open>Numbers\<close>

lemma demo_run_ids: "id_run [] (ledger_episode_ids demo_ledger) demo_ledger"
  by (rule id_start)

lemma demo_allocated: "allocate_episode_ids demo_ledger 2 = ([3, 4], put ''episode_id_high_water'' (JInt 4) demo_ledger)"
  by code_simp

theorem ids_never_reused_witness: "distinct ([] @ [3 :: int, 4]) \<and> set [3, 4] \<inter> set (ledger_episode_ids demo_ledger) = {}"
  using ids_never_reused [OF demo_run_ids demo_allocated] by simp

theorem placements_disjoint_witness:
  "in_order (cut_episode_placements (\<lambda>t. t) demo_ledger demo_docs)
   \<and> distinct (map cp_episode (cut_episode_placements (\<lambda>t. t) demo_ledger demo_docs))"
  using placements_disjoint [of "\<lambda>t. t" demo_ledger demo_docs] by simp

end
