(* ===== verification/Spec2Isabelle.thy ===== *)
theory Spec2Isabelle
  imports TimelineReadout TaskProps RecoveryInstances FailureInstances RenderProps PlacementProps SubtitleProps EpisodeInstances
begin

text \<open>
  A verification library of the parts of the program that keep state and decide what happens to it:
  the edit timelines of an episode (\<open>lib/edit_timeline\<close>), the queue of generation tasks
  (\<open>lib/db/repositories/task_repo.py\<close>) with the worker that runs them (\<open>lib/generation\<close>), the division of
  a source text into episodes (\<open>lib/episode\<close>), and what becomes of a timeline when it is rendered or
  exported (\<open>lib/final_cut\<close>, \<open>lib/edit_timeline\<close> and \<open>lib/subtitles\<close>).

  \<^bold>\<open>The edit timelines.\<close>
  A timeline is a list of revisions; a revision is a list of clips over the video units of an episode
  and a list of BGM clips.  A client sends a batch of operations with the revision it is based on.

  \<^item> \<open>TimelineModel\<close> has the data of \<open>model.py\<close>, \<open>sources.py\<close>, \<open>transitions.py\<close> and
    \<open>errors.py\<close>: one record per pydantic model, one datatype per tagged union, the validators as
    predicates, the error codes as the type \<open>edit_timeline_error\<close>.  A fallible function returns
    \<open>edit_timeline_error + 'a\<close>.
  \<^item> \<open>TimelineOps\<close> has the class \<open>_Batch\<close> of \<open>operations.py\<close>: the record \<open>batch\<close> holds its
    attributes, and each method is a function of it, in the order of the code.
  \<^item> \<open>TimelineInv\<close>, \<open>TimelineTracks\<close>, \<open>TimelineBatch\<close> and \<open>TimelineEdits\<close> prove, through
    locales over single operations, what each operation keeps (well-formed cuts, one carrier per
    narration, identifiers below their counters, bookkeeping of touched clips) and lift it to batches.
  \<^item> \<open>TimelineDiff\<close> has the difference of two contents with its table of longest common subsequences.
  \<^item> \<open>TimelineService\<close> and \<open>TimelineHistory\<close> have \<open>store.py\<close> and \<open>service.py\<close>: a store is a list
    of files, each operation of the service a function of it, and a step relation runs them in any
    order.  The theorems say that histories are append only, that concurrent edits are not lost and
    which errors an edit can end with.
  \<^item> \<open>TimelineReadout\<close> has \<open>readout.py\<close> and \<open>bgm.py\<close>: the projection clients see, its issues, and the
    placement of the BGM track.

  \<^bold>\<open>The task queue.\<close>

  \<^item> \<open>TaskModel\<close> has the tables (\<open>lib/db/models/task.py\<close>) as lists of rows, and the partial unique
    index as a predicate of the rows.
  \<^item> \<open>TaskOps\<close> has the queries and updates of \<open>TaskRepository\<close>.  An operation that reads in one
    statement and writes in another takes two states, so other workers may write in between.  The
    recursive cascades are functions with a work list; they end because each visit takes a task out
    of the queue.  Collecting a preview changes nothing, so it may follow a cycle for ever: it is a
    \<open>partial_function\<close>, and that it returns is a theorem.
  \<^item> \<open>TaskSteps\<close> has the steps of the queue: \<open>queue_step\<close> is one statement on the database.  Insertion,
    claim and finish are stated by what they do to one row and under which guard; the operations that
    are a single statement (putting tasks back, cancelling a whole queue, the persist and batch
    statements, the retry, the lease) are steps as they are in \<open>TaskOps\<close>.  \<open>row_step\<close> says, without
    reference to the repository, what a step may do to a row.  \<open>TaskInv\<close> proves invariants of
    these steps in two locales; \<open>TaskRuns\<close> proves that every run of repository operations, with cascades
    and stale reads, is a sequence of such steps.
  \<^item> \<open>TaskCascade\<close> characterises both cascades by the graph of dependencies: the set of rows they
    mark and the order in which they visit it.
  \<^item> \<open>TaskProps\<close> has the properties: order of claims, cascades, previews, deduplication, retries,
    leases and pages.

  \<^bold>\<open>The worker.\<close>  One process at a time claims tasks, runs them and picks up what a dead process left.

  \<^item> \<open>Slots\<close> has the ledger of running tasks, \<open>SlotTable\<close> of \<open>generation_worker.py\<close>: a dictionary of
    dictionaries with no empty bucket.  A future is a value that says how far it has come.  The locale
    \<open>ledger\<close> states what the worker relies on, a finite map with a count; its interpretation on the
    dictionaries carries the proofs about capacities.
  \<^item> \<open>Capacity\<close> has \<open>CapacityTable\<close>: how many tasks a provider may run, from the registry, the
    environment and the stored settings, which are arguments.
  \<^item> \<open>Worker\<close> has the claim cycle, one execution to its end, the collection of finished tasks and the
    turns of the main loop.  The record \<open>env\<close> holds what is not in these files: the texts of failures,
    the provider a task is routed to, and which updates the database refuses.  The cycle is a
    \<open>partial_function\<close>, since nothing in the code bounds it; it ends because each turn takes a task out of
    the queue or excludes it from the next claim.
  \<^item> \<open>WorkerClaims\<close> proves that and gives an induction rule for cycles; \<open>WorkerProps\<close> proves that
    capacities hold, that started tasks are in the ledger and that no task that could run is left; in
    \<open>worker_runs\<close> cycles, ends of tasks, collections, resumptions and other clients follow each other in
    any order, and the database changes as by operations of the queue.  \<open>WorkerEnds\<close> has the ends of tasks,
    collections, the scans of the main loop, the ledger as a finite map and the origin of capacities.
    Within a cycle no other client writes: the interleaving is that of whole cycles.
    The end of a task takes the fate of each of its writes (\<open>fates\<close>): carried out, refused by the database,
    or broken off by an interruption of the process, with the write under the shield still carried out or
    not.  So a task may keep running; the theorems say exactly when.
  \<^item> \<open>Recovery\<close> has \<open>restart_recovery.py\<close> and \<open>video_resume.py\<close>: the verdict on each task found
    running, and the dispatchers that resume videos with their semaphores.  \<open>RecoveryProps\<close> proves that
    nothing is submitted twice and how resumptions leave their tasks; \<open>WorkerInstances\<close> and \<open>RecoveryInstances\<close>
    evaluate the model on small queues.

  \<^bold>\<open>Episodes.\<close>  The source of a project is a list of text files, read one after the other.  The ledger in
  the project file says which range of it each episode was cut from; the text of each episode is kept in
  a file of its own.

  \<^item> \<open>TextDiff\<close> and \<open>SourceRemap\<close> have \<open>source_remap.py\<close>: the alignment of two texts, by lines and then
    by characters, and what becomes of every range when a file is edited, deleted, inserted or moved.  The
    sequence matcher of \<open>difflib\<close> is modelled: it takes the longest common block and recurses on both
    sides, which are shorter.  \<open>TextDiffProps\<close> proves that the edit operations tile both texts and that
    equal ones are equal; its locale \<open>position_map\<close> states what ranges rely on, that positions stay in
    order and that text between them is kept where no change is reported.
  \<^item> \<open>SourceRemapProps\<close>, \<open>RangeEdits\<close> and \<open>RangeMoves\<close> prove what each change does to the text of the
    ranges and that ranges never come to overlap.
  \<^item> \<open>Ledger\<close> has \<open>episode_ledger.py\<close>, \<open>episode_ids.py\<close>, \<open>episode_sources.py\<close> and \<open>source_kinds.py\<close> over
    JSON objects of any shape: numbers, ranges, the list of source files, and where the cut episodes are.
    \<open>LedgerProps\<close> proves that numbers are never used twice and that placed episodes never overlap.
  \<^item> \<open>ManualSplit\<close> has \<open>episode_manual_split.py\<close>: the five commands, their impact and confirmation, and
    what they write.  The record \<open>split_env\<close> holds what is read from elsewhere: files, normal forms of
    names, digests, the count of reading units and the products of episodes.  A preview without the lock
    is a project of its own, so the ledger may have changed when the command is carried out.
  \<^item> \<open>SplitPlans\<close> and \<open>SplitProps\<close> see a plan as an operation on intervals of the whole source: they stay
    disjoint, and only the text the command is about changes hands.  \<open>SplitRuns\<close> and \<open>SplitSound\<close> prove
    that laying out what was written gives back these intervals (written positions are in a normal form,
    and candidates that do not overlap are all placed), that the agreement of ledger, source and files
    is an invariant, and that products are protected by confirmations.  \<open>EpisodeInstances\<close> has the
    witnesses.

  \<^bold>\<open>Reasons of failures.\<close>  Why a task failed is stored as a code with JSON parameters, so that it can be
  shown in any language (\<open>task_failure.py\<close>, \<open>task_failure_encoding.py\<close>, and the cascade encoding of
  \<open>task_repo.py\<close>, which the queue takes as its arguments \<open>bound\<close> and \<open>blocked\<close>).

  \<^item> \<open>Json\<close> has what the program uses of the module \<open>json\<close>: values, \<open>dumps\<close> and \<open>loads\<close> over lists of
    code points, with escapes, surrogates, numbers, duplicate keys and the limits of the interpreter on
    nesting and on digits.  The nesting limit is the recursion argument of the reader; inside one array
    or object it recurses on the length of the text, which is enough as every element takes a character.
    \<open>JsonProps\<close> proves that what is written is read back, and that every text inside a value is shorter
    than what was read.
  \<^item> \<open>Failures\<close> has the codes, the pattern of a structured reason, the loop that cuts it (it ends as each
    turn makes one text shorter), the collapse of cascades, and showing a reason, which recurses into the
    reason of a cascade because that is shorter.
  \<^item> \<open>FailureProps\<close> proves that reasons read back and keep their limit; its locale \<open>value_predicate\<close>
    states once which predicates of values survive a cut.  \<open>FailureCuts\<close> proves what a cut keeps, and
    \<open>BlockedReasons\<close> what blocked tasks store; \<open>FailureInstances\<close> has the witnesses.

  \<^bold>\<open>The final cut.\<close>  A timeline is rendered to one film, and exported as a draft of an editor.

  \<^item> \<open>RenderPlan\<close> has the plan of a render: which part of which file each segment shows, where
    the frames a cross-fade needs are borrowed from, and where each narration and BGM clip begins.
    Lengths are counted in frames of the timeline's rate.
  \<^item> \<open>RenderProps\<close> proves that the segments cover the timeline without a gap, that each renders
    exactly its frames, that borrowed frames exist and that a cross-fade begins inside its segment.
  \<^item> \<open>Placement\<close> has the stacking of items on parallel tracks (a fold over the items by start)
    and the placement of clips in a draft; \<open>PlacementProps\<close> proves that the stacking is disjoint
    and uses as few tracks as there are simultaneous items, that nothing leaves the timeline, and
    that the draft agrees with the render plan.
  \<^item> \<open>Subtitles\<close> has the wrapping of cues into lines, the escaping of dialogue and the time stamps
    of the subtitle file; the wrapping loop of the code is structural recursion on the words left.
    \<open>SubtitleProps\<close> bounds the lines, shows that escaped dialogue starts no override block, and
    reads printed time stamps back.

  What the code asks of other packages is an argument: the width of a character cell, the height of
  a frame, the gain of a file.  Seconds and volumes are exact rationals here and floats in the code.

  \<open>Prelude\<close> has the lemmas on lists, association lists, sorting and errors that all parts share.

  \<^bold>\<open>Not modelled.\<close>  The web application, the agent runtime, the providers of generated media, prompts,
  localisation, file formats and migrations are input, output and calls of other services.  Of the
  modelled parts: message texts; locks, threads and event loops (concurrency is modelled as
  interleaving of statements, and as stale reads); files and probing of media, which are arguments; the
  settlement of provider calls and the files a resumption cleans up; of the episodes, planning and
  replanning with language models, resets, the commit of changed source files and the views of a layout.
  Microseconds are integers and volumes exact rationals, as the code rounds them when it reads them.
\<close>

end
